(* ===== verification/Prelude.thy ===== *)
theory Prelude
  imports Main "HOL-Library.Word" "HOL-Library.Monad_Syntax"
begin

text \<open>
  Shared vocabulary of the development: the machine integer types of the C sources (LP64:
  \<open>char\<close> 8, \<open>short\<close> 16, \<open>int\<close> 32, \<open>long\<close>, \<open>size_t\<close> and pointers 64 bits), arrays as
  lists with bounds-checked block access, and the list and word lemmas that several
  components use.

  An access outside an array is undefined behaviour in C. It is modelled by the value
  \<open>None\<close>: \<open>read_range\<close>, \<open>write_range\<close>, \<open>memcpy_at\<close> and \<open>memset_at\<close> return
  \<open>None\<close> when a byte outside the array would be touched, so a theorem that an operation
  returns \<open>Some\<close> is a memory-safety theorem.
\<close>

unbundle bit_operations_syntax

type_synonym u8 = "8 word"
type_synonym u16 = "16 word"
type_synonym u32 = "32 word"
type_synonym u64 = "64 word"

named_theorems mem_simps \<open>block reads and writes inside an array\<close>
named_theorems word_nat_simps \<open>words read as natural numbers\<close>

section \<open>Arrays as lists\<close>

definition read_range :: "'a list \<Rightarrow> nat \<Rightarrow> nat \<Rightarrow> 'a list option" where
  "read_range buf off n =
     (if off + n \<le> length buf then Some (take n (drop off buf)) else None)"

definition write_range :: "'a list \<Rightarrow> nat \<Rightarrow> 'a list \<Rightarrow> 'a list option" where
  "write_range buf off xs =
     (if off + length xs \<le> length buf
      then Some (take off buf @ xs @ drop (off + length xs) buf) else None)"

text \<open>\<open>memcpy(dst + doff, src + soff, n)\<close> on distinct arrays.\<close>

definition memcpy_at :: "'a list \<Rightarrow> nat \<Rightarrow> 'a list \<Rightarrow> nat \<Rightarrow> nat \<Rightarrow> 'a list option" where
  "memcpy_at dst doff src soff n =
     (case read_range src soff n of None \<Rightarrow> None | Some xs \<Rightarrow> write_range dst doff xs)"

text \<open>\<open>memset(dst + off, c, n)\<close>.\<close>

definition memset_at :: "'a list \<Rightarrow> nat \<Rightarrow> 'a \<Rightarrow> nat \<Rightarrow> 'a list option" where
  "memset_at dst off c n = write_range dst off (replicate n c)"

lemma read_range_Some [mem_simps]:
  "off + n \<le> length buf \<Longrightarrow> read_range buf off n = Some (take n (drop off buf))"
  by (simp add: read_range_def)

lemma write_range_Some [mem_simps]:
  "off + length xs \<le> length buf \<Longrightarrow>
   write_range buf off xs = Some (take off buf @ xs @ drop (off + length xs) buf)"
  by (simp add: write_range_def)

lemma write_range_length:
  "write_range buf off xs = Some buf' \<Longrightarrow> length buf' = length buf"
  by (auto simp: write_range_def split: if_splits)

lemma write_range_nth:
  assumes "write_range buf off xs = Some buf'" and "i < length buf"
  shows "buf' ! i = (if off \<le> i \<and> i < off + length xs then xs ! (i - off) else buf ! i)"
  using assms by (auto simp: write_range_def nth_append split: if_splits)

lemma memcpy_at_Some [mem_simps]:
  "soff + n \<le> length src \<Longrightarrow> doff + n \<le> length dst \<Longrightarrow>
   memcpy_at dst doff src soff n =
     Some (take doff dst @ take n (drop soff src) @ drop (doff + n) dst)"
  by (simp add: memcpy_at_def read_range_def write_range_def)

lemma memcpy_at_length:
  "memcpy_at dst doff src soff n = Some dst' \<Longrightarrow> length dst' = length dst"
  by (auto simp: memcpy_at_def dest: write_range_length split: option.splits)

lemma memcpy_at_bounds:
  "memcpy_at dst doff src soff n \<noteq> None \<longleftrightarrow>
   soff + n \<le> length src \<and> doff + n \<le> length dst"
  by (auto simp: memcpy_at_def read_range_def write_range_def)

lemma memcpy_at_readback:
  assumes "memcpy_at dst doff src soff n = Some dst'"
  shows "read_range dst' doff n = Some (take n (drop soff src))"
proof -
  have b: "soff + n \<le> length src" "doff + n \<le> length dst"
    using assms memcpy_at_bounds[of dst doff src soff n] by auto
  with assms have "dst' = take doff dst @ take n (drop soff src) @ drop (doff + n) dst"
    by (simp add: memcpy_at_Some)
  with b show ?thesis by (simp add: read_range_def)
qed

lemma memcpy_at_before:
  assumes "memcpy_at dst doff src soff m = Some dst'" and "doff + m \<le> off"
  shows "read_range dst' off n = read_range dst off n"
proof -
  have b: "soff + m \<le> length src" "doff + m \<le> length dst"
    using assms(1) memcpy_at_bounds[of dst doff src soff m] by auto
  with assms(1) have "dst' = take doff dst @ take m (drop soff src) @ drop (doff + m) dst"
    by (simp add: memcpy_at_Some)
  with b assms(2) show ?thesis by (auto simp: read_range_def)
qed

section \<open>Words as natural numbers\<close>

lemma unat_sub_le [word_nat_simps]:
  fixes a b :: "'a::len word"
  shows "b \<le> a \<Longrightarrow> unat (a - b) = unat a - unat b"
  by (rule unat_sub)

lemma unat_min [word_nat_simps]: "unat (min a b) = min (unat a) (unat b)"
  by (simp add: min_def word_le_nat_alt)

lemma unat_add_no_wrap:
  fixes a b :: "'a::len word"
  assumes "unat a + unat b < 2 ^ LENGTH('a)"
  shows "unat (a + b) = unat a + unat b"
  using assms by (simp add: unat_word_ariths)

lemma unat_le_of_nat:
  fixes w :: "'a::len word"
  assumes "n \<le> unat w"
  shows "unat (of_nat n :: 'a word) = n"
proof -
  have "unat w < 2 ^ LENGTH('a)" by simp
  with assms have "n < 2 ^ LENGTH('a)" by (rule le_less_trans)
  then show ?thesis by (simp add: unat_of_nat)
qed

lemma unat_ucast_widen:
  fixes w :: "'a::len word"
  assumes "LENGTH('a) \<le> LENGTH('b::len)"
  shows "unat (ucast w :: 'b word) = unat w"
proof -
  have "unat w < 2 ^ LENGTH('a)" by simp
  also have "\<dots> \<le> 2 ^ LENGTH('b)" using assms by simp
  finally show ?thesis by (simp add: unsigned_ucast_eq take_bit_nat_eq_self)
qed

lemma unat_word_of_int_small:
  assumes "0 \<le> i" and "i < 2 ^ LENGTH('a)"
  shows "unat (word_of_int i :: 'a::len word) = nat i"
  using assms by (simp add: unat_eq_nat_uint uint_word_of_int)

lemma sint_of_nat_small:
  assumes "n < 2 ^ 31"
  shows "sint (of_nat n :: u32) = int n"
proof -
  have "unat (of_nat n :: u32) = n" using assms by (simp add: unat_of_nat)
  then have "uint (of_nat n :: u32) = int n" by (metis uint_nat)
  then show ?thesis using assms by (simp add: sint_uint signed_take_bit_int_eq_self)
qed

lemma unat_scast_of_nat_small:
  assumes "n < 2 ^ 31"
  shows "unat (scast (of_nat n :: u32) :: u64) = n"
proof -
  have "(scast (of_nat n :: u32) :: u64) = of_nat n"
    by (metis sint_of_nat_small[OF assms] of_int_of_nat_eq of_int_sint)
  then show ?thesis using assms by (simp add: unat_of_nat)
qed

section \<open>Bits of a byte\<close>

lemma u8_bit_high: "8 \<le> n \<Longrightarrow> \<not> bit (w :: u8) n"
  using bit_imp_le_length[of w n] by auto

lemma u8_eqI:
  assumes "\<forall>n \<in> {0, 1, 2, 3, 4, 5, 6, 7}. bit a n = bit b n"
  shows "a = (b :: u8)"
proof (rule bit_word_eqI)
  fix n assume "n < LENGTH(8)"
  then have "n \<in> {0, 1, 2, 3, 4, 5, 6, 7}" by auto
  with assms show "bit a n = bit b n" by blast
qed

section \<open>Words in memory, low byte first\<close>

text \<open>A 16- or 32-bit word as it lies in memory, and back.\<close>

definition le16 :: "u16 \<Rightarrow> u8 list" where
  "le16 w = [ucast w, ucast (drop_bit 8 w)]"

definition le32 :: "u32 \<Rightarrow> u8 list" where
  "le32 w = [ucast w, ucast (drop_bit 8 w), ucast (drop_bit 16 w), ucast (drop_bit 24 w)]"

definition load16 :: "u8 list \<Rightarrow> nat \<Rightarrow> u16" where
  "load16 p i = ucast (p ! i) OR push_bit 8 (ucast (p ! (i + 1)))"

definition load32 :: "u8 list \<Rightarrow> nat \<Rightarrow> u32" where
  "load32 p i = ucast (p ! i) OR push_bit 8 (ucast (p ! (i + 1))) OR
     push_bit 16 (ucast (p ! (i + 2))) OR push_bit 24 (ucast (p ! (i + 3)))"

lemma load32_le32: "load32 (le32 w) 0 = w"
proof (rule bit_word_eqI)
  fix n assume "n < LENGTH(32)"
  then show "bit (load32 (le32 w) 0) n = bit w n"
    unfolding load32_def le32_def by (cases "24 \<le> n"; cases "16 \<le> n"; cases "8 \<le> n") (auto simp: bit_simps)
qed

lemma le16_load16: "load16 [ucast w, ucast (drop_bit 8 w)] 0 = w"
proof (rule bit_word_eqI)
  fix n assume "n < LENGTH(16)"
  then show "bit (load16 [ucast w, ucast (drop_bit 8 w)] 0) n = bit w n"
    by (auto simp: load16_def bit_simps le_less_linear)
qed

text \<open>\<open>htons\<close>, \<open>ntohs\<close>, \<open>ntohl\<close> swap the bytes.\<close>

definition htons :: "u16 \<Rightarrow> u16" where
  "htons w = push_bit 8 w OR drop_bit 8 w"

definition ntohl :: "u32 \<Rightarrow> u32" where
  "ntohl w = push_bit 24 w OR push_bit 8 (w AND 0xFF00) OR (drop_bit 8 w AND 0xFF00) OR drop_bit 24 w"

lemma htons_htons: "htons (htons w) = w"
  unfolding htons_def by (rule bit_word_eqI) (auto simp: bit_simps)

text \<open>The bytes of an array of 32-bit words, and the words of an array of bytes.\<close>

definition bytes_of :: "u32 list \<Rightarrow> u8 list" where
  "bytes_of ws = concat (map le32 ws)"

fun words_of :: "u8 list \<Rightarrow> u32 list" where
  "words_of (a # b # c # d # rest) = load32 [a, b, c, d] 0 # words_of rest"
| "words_of _ = []"

lemma length_bytes_of [simp]: "length (bytes_of ws) = 4 * length ws"
  by (induction ws) (simp_all add: bytes_of_def le32_def)

lemma length_words_of: "length (words_of bs) = length bs div 4"
  by (induction bs rule: words_of.induct) simp_all

lemma words_of_nth: "4 * i + 3 < length bs \<Longrightarrow> words_of bs ! i = load32 bs (4 * i)"
proof (induction bs arbitrary: i rule: words_of.induct)
  case (1 a b c d rest)
  then show ?case by (cases i) (simp_all add: load32_def numeral_3_eq_3 numeral_2_eq_2)
qed simp_all

section \<open>Words as four bytes\<close>

definition pack4 :: "u8 \<Rightarrow> u8 \<Rightarrow> u8 \<Rightarrow> u8 \<Rightarrow> u32" where
  "pack4 a b c d = push_bit 24 (ucast a) OR push_bit 16 (ucast b) OR push_bit 8 (ucast c) OR ucast d"

lemma bit_pack4:
  "bit (pack4 a b c d) n =
     (if n < 8 then bit d n else if n < 16 then bit c (n - 8)
      else if n < 24 then bit b (n - 16) else bit a (n - 24))"
  unfolding pack4_def
  by (auto simp: bit_simps u8_bit_high not_less dest: bit_imp_le_length)

lemma pack4_xor:
  "pack4 a b c d XOR pack4 a' b' c' d' = pack4 (a XOR a') (b XOR b') (c XOR c') (d XOR d')"
  by (rule bit_word_eqI) (simp add: bit_xor_iff bit_pack4)

lemma pack4_and:
  "pack4 a b c d AND pack4 a' b' c' d' = pack4 (a AND a') (b AND b') (c AND c') (d AND d')"
  by (rule bit_word_eqI) (simp add: bit_and_iff bit_pack4)

lemma pack4_or:
  "pack4 a b c d OR pack4 a' b' c' d' = pack4 (a OR a') (b OR b') (c OR c') (d OR d')"
  by (rule bit_word_eqI) (simp add: bit_or_iff bit_pack4)

lemma pack4_shift:
  "push_bit 8 (pack4 a b c d) = pack4 b c d 0" "push_bit 16 (pack4 a b c d) = pack4 c d 0 0"
  "push_bit 24 (pack4 a b c d) = pack4 d 0 0 0"
  "drop_bit 8 (pack4 a b c d) = pack4 0 a b c" "drop_bit 16 (pack4 a b c d) = pack4 0 0 a b"
  "drop_bit 24 (pack4 a b c d) = pack4 0 0 0 a"
  by (rule bit_word_eqI; auto simp: bit_simps bit_pack4 u8_bit_high)+

lemma pack4_mask2:
  "pack4 a b c d AND 0xff00ff00 = pack4 a 0 c 0" "pack4 a b c d AND 0x00ff00ff = pack4 0 b 0 d"
proof -
  have m: "0xff00ff00 = pack4 (-1) 0 (-1) 0" "0x00ff00ff = pack4 0 (-1) 0 (-1)"
    by code_simp+
  show "pack4 a b c d AND 0xff00ff00 = pack4 a 0 c 0" "pack4 a b c d AND 0x00ff00ff = pack4 0 b 0 d"
    unfolding m pack4_and by simp_all
qed

lemma load32_pack4: "load32 [a, b, c, d] 0 = pack4 d c b a"
  by (simp add: load32_def pack4_def or.assoc or.commute or.left_commute numeral_3_eq_3 numeral_2_eq_2)

lemma load32_at_pack4: "load32 p i = pack4 (p ! (i + 3)) (p ! (i + 2)) (p ! (i + 1)) (p ! i)"
  by (simp add: load32_def pack4_def or.assoc or.commute or.left_commute)

end
