(* ===== verification/Ring.thy ===== *)
theory Ring
  imports Prelude
begin

text \<open>
  Ring-buffer arithmetic shared by the kernel FIFO (\<open>src/src/fifo/fifo.c\<close>, 32-bit counters)
  and the Bluetooth ring buffer (\<open>src/bt/.../ringbuf.c\<close>, 64-bit counters). Both keep
  free-running counters \<open>in\<close> and \<open>out\<close> that wrap at the width of the word, use a buffer
  whose size is a power of two, index with \<open>counter & (size - 1)\<close> and copy in two blocks,
  up to the end of the buffer and then from its start.

  \<open>ring_slice buf i n\<close> is the abstract value of such a buffer: the \<open>n\<close> elements that
  start at counter \<open>i\<close>. The lemmas say that the two-block read returns it, that the
  two-block write extends it, and that the wrap of the counters does not disturb it.
  The locale \<open>byte_stream\<close> is the contract of a bounded FIFO over its abstract contents.
\<close>

section \<open>The abstract contents of a ring\<close>

definition ring_slice :: "'a list \<Rightarrow> nat \<Rightarrow> nat \<Rightarrow> 'a list" where
  "ring_slice buf i n = map (\<lambda>k. buf ! ((i + k) mod length buf)) [0..<n]"

lemma length_ring_slice [simp]: "length (ring_slice buf i n) = n"
  by (simp add: ring_slice_def)

lemma ring_slice_0 [simp]: "ring_slice buf i 0 = []"
  by (simp add: ring_slice_def)

lemma ring_slice_nth:
  "k < n \<Longrightarrow> ring_slice buf i n ! k = buf ! ((i + k) mod length buf)"
  by (simp add: ring_slice_def)

lemma ring_slice_mod: "ring_slice buf (i mod length buf) n = ring_slice buf i n"
  by (simp add: ring_slice_def mod_add_left_eq)

lemma ring_slice_cong:
  "i mod length buf = j mod length buf \<Longrightarrow> ring_slice buf i n = ring_slice buf j n"
  by (metis ring_slice_mod)

lemma ring_slice_take: "n \<le> m \<Longrightarrow> take n (ring_slice buf i m) = ring_slice buf i n"
  by (simp add: ring_slice_def take_map)

lemma ring_slice_drop:
  "drop n (ring_slice buf i m) = ring_slice buf (i + n) (m - n)"
  by (rule nth_equalityI) (simp_all add: ring_slice_nth add.assoc)

lemma ring_slice_append:
  "ring_slice buf i (m + n) = ring_slice buf i m @ ring_slice buf (i + m) n"
  by (rule nth_equalityI) (auto simp: ring_slice_nth nth_append add.assoc)

text \<open>The two-block read: up to the end of the buffer, then from its start.\<close>

lemma ring_mod_wrap:
  fixes i k N :: nat
  assumes "N - i mod N \<le> k" and "k < N"
  shows "(i + k) mod N = k - (N - i mod N)"
proof -
  have N: "i mod N < N" using assms by (cases "N = 0") auto
  have "(i + k) mod N = (i mod N + k) mod N" by (simp add: mod_add_left_eq)
  also have "\<dots> = (N + (k - (N - i mod N))) mod N"
    using assms N by (intro arg_cong[where f = "\<lambda>x. x mod N"]) linarith
  also have "\<dots> = k - (N - i mod N)"
    using assms N by (subst mod_add_self1) (rule mod_less, linarith)
  finally show ?thesis .
qed

lemma ring_mod_nowrap:
  fixes i k N :: nat
  assumes "k < N - i mod N"
  shows "(i + k) mod N = i mod N + k"
proof -
  have "(i + k) mod N = (i mod N + k) mod N" by (simp add: mod_add_left_eq)
  also have "\<dots> = i mod N + k" using assms by (intro mod_less) linarith
  finally show ?thesis .
qed

lemma ring_read_blocks:
  fixes buf :: "'a list"
  defines "N \<equiv> length buf"
  assumes "n \<le> N" and l: "l = min n (N - i mod N)"
  shows "take l (drop (i mod N) buf) @ take (n - l) buf = ring_slice buf i n"
proof (rule nth_equalityI)
  show "length (take l (drop (i mod N) buf) @ take (n - l) buf) = length (ring_slice buf i n)"
    using assms by (auto simp: min_def)
next
  fix k assume "k < length (take l (drop (i mod N) buf) @ take (n - l) buf)"
  then have k: "k < n" using assms by (auto simp: min_def split: if_splits)
  show "(take l (drop (i mod N) buf) @ take (n - l) buf) ! k = ring_slice buf i n ! k"
  proof (cases "k < N - i mod N")
    case True
    with k l have "k < l" by simp
    with True k l show ?thesis
      by (simp add: nth_append N_def ring_slice_nth ring_mod_nowrap)
  next
    case False
    with k l have L: "l = N - i mod N" "l \<le> k" by auto
    have "(i + k) mod N = k - l"
      using ring_mod_wrap[of N i k] False k L assms(2) by simp
    with L k assms(2) show ?thesis
      by (simp add: nth_append N_def ring_slice_nth)
  qed
qed

text \<open>
  The value of the buffer after a write of \<open>xs\<close> at counter \<open>i\<close>: cell \<open>j\<close> holds element
  number \<open>(j - i) mod N\<close> of \<open>xs\<close> when there is one, and is unchanged otherwise.
\<close>

definition ring_offset :: "nat \<Rightarrow> nat \<Rightarrow> nat \<Rightarrow> nat" where
  "ring_offset N i j = (if i mod N \<le> j then j - i mod N else j + N - i mod N)"

definition ring_write :: "'a list \<Rightarrow> nat \<Rightarrow> 'a list \<Rightarrow> 'a list" where
  "ring_write buf i xs =
     map (\<lambda>j. let k = ring_offset (length buf) i j in if k < length xs then xs ! k else buf ! j)
       [0..<length buf]"

lemma length_ring_write [simp]: "length (ring_write buf i xs) = length buf"
  by (simp add: ring_write_def)

lemma ring_write_nth:
  "j < length buf \<Longrightarrow> ring_write buf i xs ! j =
     (if ring_offset (length buf) i j < length xs
      then xs ! ring_offset (length buf) i j else buf ! j)"
  by (simp add: ring_write_def Let_def)

lemma ring_offset_add:
  assumes "k < N"
  shows "ring_offset N i ((i + k) mod N) = k"
proof (cases "k < N - i mod N")
  case True
  then show ?thesis by (simp add: ring_mod_nowrap ring_offset_def)
next
  case False
  have N: "i mod N < N" using assms by (intro mod_less_divisor) linarith
  have j: "(i + k) mod N = k - (N - i mod N)"
    using False assms by (intro ring_mod_wrap) auto
  have "\<not> i mod N \<le> k - (N - i mod N)" and "k - (N - i mod N) + N - i mod N = k"
    using False N assms by linarith+
  then show ?thesis by (simp only: ring_offset_def j if_False)
qed

lemma ring_write_nth_in:
  assumes "length xs \<le> length buf" and "k < length xs"
  shows "ring_write buf i xs ! ((i + k) mod length buf) = xs ! k"
proof -
  have "(i + k) mod length buf < length buf"
    using assms by (intro mod_less_divisor) linarith
  with assms show ?thesis by (simp add: ring_write_nth ring_offset_add)
qed

lemma ring_write_nth_out:
  assumes "length xs \<le> k" and "k < length buf"
  shows "ring_write buf i xs ! ((i + k) mod length buf) = buf ! ((i + k) mod length buf)"
proof -
  have "(i + k) mod length buf < length buf"
    using assms by (intro mod_less_divisor) linarith
  with assms show ?thesis by (simp add: ring_write_nth ring_offset_add)
qed

lemma ring_blocks_nth:
  assumes p: "p < length buf" and l: "l = min (length ys) (length buf - p)"
    and n: "length ys \<le> length buf" and j: "j < length buf"
    and b: "b = take p buf @ take l ys @ drop (p + l) buf"
  shows "(drop l ys @ drop (length ys - l) b) ! j =
     (let k = (if p \<le> j then j - p else j + length buf - p)
      in if k < length ys then ys ! k else buf ! j)"
proof (cases "length ys \<le> length buf - p")
  case True
  with l have "l = length ys" by simp
  with True p j show ?thesis
    unfolding b by (auto simp: nth_append Let_def)
next
  case False
  with l have L: "l = length buf - p" by simp
  show ?thesis
  proof (cases "j < length ys - l")
    case T: True
    then have "(drop l ys @ drop (length ys - l) b) ! j = ys ! (l + j)"
      by (simp add: nth_append)
    moreover have "\<not> p \<le> j" and "j + length buf - p = l + j" and "l + j < length ys"
      using T L p n by linarith+
    ultimately show ?thesis by (simp only: Let_def if_True if_False)
  next
    case F: False
    have lb: "length b = length buf" using L False p by (simp add: b)
    define m where "m = length ys - l"
    have "length (drop l ys) = m" and m: "m \<le> j" "m \<le> length b"
      using F j lb by (simp_all add: m_def)
    then have "(drop l ys @ drop (length ys - l) b) ! j = b ! j"
      by (simp add: nth_append flip: m_def)
    also have "\<dots> = (if p \<le> j then ys ! (j - p) else buf ! j)"
      using L False p j by (auto simp: b nth_append)
    finally show ?thesis using F L False p j by (auto simp: Let_def)
  qed
qed

text \<open>The two-block copy of the sources computes \<open>ring_write\<close> and stays in bounds.\<close>

lemma ring_write_blocks:
  fixes buf :: "'a list"
  defines "N \<equiv> length buf"
  assumes "0 < N" and "n \<le> N" and "n \<le> length xs" and l: "l = min n (N - i mod N)"
  shows "Option.bind (memcpy_at buf (i mod N) xs 0 l) (\<lambda>b. memcpy_at b 0 xs l (n - l))
    = Some (ring_write buf i (take n xs))"
proof -
  let ?p = "i mod N" and ?ys = "take n xs"
  have p: "?p < N" using assms(2) by simp
  have ln: "l \<le> n" and pl: "?p + l \<le> N" using l p by auto
  have ny: "length ?ys = n" using assms(4) by simp
  define b where "b = take ?p buf @ take l ?ys @ drop (?p + l) buf"
  have lb: "length b = N" using pl ln ny by (simp add: b_def N_def)
  have tk: "take l xs = take l ?ys" using ln by (simp add: min_absorb1)
  have 1: "memcpy_at buf ?p xs 0 l = Some b"
    unfolding b_def tk[symmetric]
    using pl ln assms(4) by (subst memcpy_at_Some) (auto simp: N_def)
  have 2: "memcpy_at b 0 xs l (n - l) = Some (drop l ?ys @ drop (n - l) b)"
    using lb ln assms(3,4) by (subst memcpy_at_Some) (auto simp: drop_take)
  have "drop l ?ys @ drop (n - l) b = ring_write buf i ?ys"
  proof (rule nth_equalityI)
    show "length (drop l ?ys @ drop (n - l) b) = length (ring_write buf i ?ys)"
      using lb ln ny assms(3) by (simp add: N_def)
  next
    fix j assume "j < length (drop l ?ys @ drop (n - l) b)"
    then have j: "j < length buf" using lb ln ny assms(3) by (simp add: N_def)
    show "(drop l ?ys @ drop (n - l) b) ! j = ring_write buf i ?ys ! j"
      using ring_blocks_nth[of ?p buf l ?ys j b, folded N_def] p j ny assms(3) l b_def
      by (simp only: ring_write_nth[OF j] ring_offset_def N_def Let_def)
  qed
  with 1 2 show ?thesis by simp
qed

text \<open>Writing behind \<open>m\<close> stored elements appends to the contents.\<close>

lemma ring_slice_write:
  assumes fits: "m + length xs \<le> length buf"
    and behind: "i mod length buf = (j + m) mod length buf"
  shows "ring_slice (ring_write buf i xs) j (m + length xs) = ring_slice buf j m @ xs"
proof -
  let ?b = "ring_write buf i xs" and ?N = "length buf"
  have len: "length ?b = ?N" using fits by simp
  have old: "ring_slice ?b j m = ring_slice buf j m"
  proof (rule nth_equalityI)
    fix k assume "k < length (ring_slice ?b j m)"
    then have k: "k < m" by simp
    have eq: "(i + (?N - m + k)) mod ?N = (j + k) mod ?N"
    proof -
      have "(i + (?N - m + k)) mod ?N = ((j + m) + (?N - m + k)) mod ?N"
        using behind by (metis mod_add_left_eq)
      also have "(j + m) + (?N - m + k) = (j + k) + ?N" using fits by simp
      finally show ?thesis by simp
    qed
    have "?b ! ((i + (?N - m + k)) mod ?N) = buf ! ((i + (?N - m + k)) mod ?N)"
      using fits k by (intro ring_write_nth_out) auto
    with eq k len show "ring_slice ?b j m ! k = ring_slice buf j m ! k"
      by (simp add: ring_slice_nth)
  qed simp
  have new: "ring_slice ?b (j + m) (length xs) = xs"
  proof (rule nth_equalityI)
    fix k assume "k < length (ring_slice ?b (j + m) (length xs))"
    then have k: "k < length xs" by simp
    have "(j + m + k) mod ?N = (i + k) mod ?N" using behind by (metis mod_add_left_eq)
    with k len fits show "ring_slice ?b (j + m) (length xs) ! k = xs ! k"
      by (simp add: ring_slice_nth ring_write_nth_in)
  qed simp
  show ?thesis by (simp add: ring_slice_append old new)
qed

section \<open>Free-running counters\<close>

text \<open>Masking with \<open>size - 1\<close> is the remainder when \<open>size\<close> is a power of two.\<close>

lemma unat_and_mask:
  fixes w s :: "'a::len word"
  assumes "unat s = 2 ^ k"
  shows "unat (w AND (s - 1)) = unat w mod unat s"
proof -
  have s: "s = 2 ^ k"
    using arg_cong[OF assms, where f = "of_nat :: nat \<Rightarrow> 'a word"] by simp
  then have "s - 1 = mask k" by (simp add: mask_eq_exp_minus_1)
  then have "w AND (s - 1) = take_bit k w" by (simp add: take_bit_eq_mask)
  then have "unat (w AND (s - 1)) = take_bit k (unat w)" by (simp only: unsigned_take_bit_eq)
  then show ?thesis by (simp add: take_bit_eq_mod assms)
qed

lemma unat_add_mod_pow2:
  fixes a b :: "'a::len word"
  assumes "unat (s :: 'a word) = 2 ^ k"
  shows "unat (a + b) mod unat s = (unat a + unat b) mod unat s"
proof -
  have "2 ^ k < (2::nat) ^ LENGTH('a)" by (metis assms unsigned_less)
  then have "k \<le> LENGTH('a)" by simp
  then have "(2::nat) ^ k dvd 2 ^ LENGTH('a)" by (rule le_imp_power_dvd)
  then show ?thesis using assms by (simp add: unat_word_ariths mod_mod_cancel)
qed

section \<open>A ring of free-running counters\<close>

text \<open>
  \<open>ring_ok buf s i j\<close>: the buffer \<open>buf\<close> has \<open>s\<close> cells, a power of two, and the counters \<open>i\<close>
  (in) and \<open>j\<close> (out) are at most \<open>s\<close> apart. \<open>ring_val buf i j\<close> is what the ring holds.
\<close>

definition ring_ok :: "'a list \<Rightarrow> 'w::len word \<Rightarrow> 'w word \<Rightarrow> 'w word \<Rightarrow> bool" where
  "ring_ok buf s i j \<longleftrightarrow> (\<exists>k. unat s = 2 ^ k) \<and> length buf = unat s \<and> i - j \<le> s"

definition ring_val :: "'a list \<Rightarrow> 'w::len word \<Rightarrow> 'w word \<Rightarrow> 'a list" where
  "ring_val buf i j = ring_slice buf (unat j) (unat (i - j))"

lemma length_ring_val: "length (ring_val buf i j) = unat (i - j)"
  by (simp add: ring_val_def)

lemma ring_ok_le: "ring_ok buf s i j \<Longrightarrow> length (ring_val buf i j) \<le> length buf"
  by (simp add: ring_ok_def length_ring_val word_le_nat_alt)

lemma ring_ok_pos: "ring_ok buf s i j \<Longrightarrow> 0 < length buf"
  by (auto simp: ring_ok_def)

lemma ring_ok_mask: "ring_ok buf s i j \<Longrightarrow> unat (w AND (s - 1)) = unat w mod length buf"
  by (auto simp: ring_ok_def unat_and_mask)

lemma ring_ok_block:
  assumes "ring_ok buf s i j"
  shows "unat (s - (w AND (s - 1))) = length buf - unat w mod length buf"
proof -
  have m: "unat (w AND (s - 1)) = unat w mod length buf" using assms by (rule ring_ok_mask)
  also have "\<dots> \<le> length buf" using ring_ok_pos[OF assms] by simp
  finally have "w AND (s - 1) \<le> s" using assms by (simp add: word_le_nat_alt ring_ok_def)
  then show ?thesis using m assms by (simp add: unat_sub ring_ok_def)
qed

lemma ring_ok_room:
  assumes "ring_ok buf s i j"
  shows "unat (s - i + j) = length buf - length (ring_val buf i j)"
proof -
  have "s - i + j = s - (i - j)" by simp
  also have "unat \<dots> = unat s - unat (i - j)"
    using assms by (intro unat_sub) (simp add: ring_ok_def)
  finally show ?thesis using assms by (simp add: length_ring_val ring_ok_def)
qed

lemma ring_ok_behind:
  assumes "ring_ok buf s i j"
  shows "unat i mod length buf = (unat j + unat (i - j)) mod length buf"
proof -
  obtain k where k: "unat s = 2 ^ k" using assms by (auto simp: ring_ok_def)
  show ?thesis
    using unat_add_mod_pow2[OF k, of j "i - j"] assms by (simp add: ring_ok_def)
qed

lemma ring_counter_put:
  fixes s i j n :: "'w::len word"
  assumes ok: "ring_ok buf s i j" and n: "unat (i - j) + unat n \<le> length buf"
  shows "unat (i + n - j) = unat (i - j) + unat n"
proof -
  have "length buf < 2 ^ LENGTH('w)" using ok by (simp add: ring_ok_def)
  with n have "unat (i - j) + unat n < 2 ^ LENGTH('w)" by (rule le_less_trans)
  then have "unat (i - j + n) = unat (i - j) + unat n" by (rule unat_add_no_wrap)
  moreover have "i + n - j = i - j + n" by simp
  ultimately show ?thesis by (simp only:)
qed

lemma ring_ok_put:
  assumes ok: "ring_ok buf s i j" and xs: "length xs = unat n"
    and fits: "unat (i - j) + unat n \<le> length buf"
  shows "ring_ok (ring_write buf (unat i) xs) s (i + n) j"
    and "ring_val (ring_write buf (unat i) xs) (i + n) j = ring_val buf i j @ xs"
proof -
  note d = ring_counter_put[OF ok fits]
  show "ring_ok (ring_write buf (unat i) xs) s (i + n) j"
    using ok fits by (simp add: ring_ok_def word_le_nat_alt d)
  have "unat (i - j) + length xs \<le> length buf" using fits xs by simp
  from ring_slice_write[OF this ring_ok_behind[OF ok]]
  show "ring_val (ring_write buf (unat i) xs) (i + n) j = ring_val buf i j @ xs"
    unfolding ring_val_def d xs .
qed

lemma ring_ok_get:
  assumes ok: "ring_ok buf s i j" and n: "n \<le> i - j"
  shows "ring_ok buf s i (j + n)"
    and "ring_val buf i (j + n) = drop (unat n) (ring_val buf i j)"
proof -
  have e: "i - (j + n) = (i - j) - n" by simp
  have d: "unat (i - (j + n)) = unat (i - j) - unat n"
    unfolding e using n by (rule unat_sub)
  show "ring_ok buf s i (j + n)"
    using ok by (auto simp: ring_ok_def word_le_nat_alt d)
  obtain k where k: "unat s = 2 ^ k" and len: "length buf = unat s"
    using ok by (auto simp: ring_ok_def)
  have "ring_slice buf (unat (j + n)) m = ring_slice buf (unat j + unat n) m" for m
    using unat_add_mod_pow2[OF k, of j n] len by (intro ring_slice_cong) simp
  then show "ring_val buf i (j + n) = drop (unat n) (ring_val buf i j)"
    by (simp only: ring_val_def ring_slice_drop d)
qed

lemma ring_ok_reset:
  assumes "ring_ok buf s i j" and "i = j"
  shows "ring_ok buf s 0 0" and "ring_val buf 0 0 = []" and "ring_val buf i j = []"
  using assms by (auto simp: ring_ok_def ring_val_def)

text \<open>The two copies of a read deliver a prefix of the contents.\<close>

lemma ring_read_copies:
  assumes ok: "ring_ok buf s i j" and n: "unat n \<le> unat (i - j)"
    and l: "unat l = min (unat n) (length buf - unat j mod length buf)"
    and room: "unat n \<le> length dst"
  shows "Option.bind (memcpy_at dst 0 buf (unat j mod length buf) (unat l))
            (\<lambda>d. memcpy_at d (unat l) buf 0 (unat n - unat l))
         = Some (take (unat n) (ring_val buf i j) @ drop (unat n) dst)"
proof -
  let ?p = "unat j mod length buf"
  have nb: "unat n \<le> length buf"
    using n ring_ok_le[OF ok] by (simp add: length_ring_val)
  have p: "?p < length buf" using ring_ok_pos[OF ok] by simp
  have ll: "unat l \<le> unat n" "?p + unat l \<le> length buf" using l p by auto
  define d where "d = take (unat l) (drop ?p buf) @ drop (unat l) dst"
  have lt: "length (take (unat l) (drop ?p buf)) = unat l" using ll by simp
  have 1: "memcpy_at dst 0 buf ?p (unat l) = Some d"
    unfolding d_def using ll room by (subst memcpy_at_Some) auto
  have ld: "length d = length dst" using memcpy_at_length[OF 1] .
  have 2: "memcpy_at d (unat l) buf 0 (unat n - unat l) =
      Some (take (unat l) d @ take (unat n - unat l) buf @ drop (unat n) d)"
    using ll room nb ld by (subst memcpy_at_Some) auto
  have tk: "take (unat l) d = take (unat l) (drop ?p buf)" using lt by (simp add: d_def)
  have dr: "drop (unat n) d = drop (unat n) dst" using lt ll(1) by (simp add: d_def)
  have "take (unat l) (drop ?p buf) @ take (unat n - unat l) buf = take (unat n) (ring_val buf i j)"
    using ring_read_blocks[OF nb l] n by (simp add: ring_val_def ring_slice_take)
  with 1 2 tk dr show ?thesis by (simp flip: append_assoc)
qed

section \<open>The contract of a bounded byte stream\<close>

text \<open>
  Clients see only \<open>put\<close> and \<open>get\<close>. \<open>put\<close> returns the new state and how many of the
  offered elements it accepted, \<open>get\<close> the new state and the elements delivered.
  \<open>stream_run\<close> runs a sequence of calls and collects what was accepted and delivered.
\<close>

datatype 'a stream_op = Put "'a list" | Get nat

fun stream_run ::
  "('q \<Rightarrow> 'a list \<Rightarrow> ('q \<times> nat) option) \<Rightarrow> ('q \<Rightarrow> nat \<Rightarrow> ('q \<times> 'a list) option) \<Rightarrow>
   'q \<Rightarrow> 'a stream_op list \<Rightarrow> ('q \<times> 'a list \<times> 'a list) option" where
  "stream_run put get q [] = Some (q, [], [])"
| "stream_run put get q (Put xs # ops) =
     (case put q xs of None \<Rightarrow> None
      | Some (q', n) \<Rightarrow> map_option (\<lambda>(r, acc, del). (r, take n xs @ acc, del))
                          (stream_run put get q' ops))"
| "stream_run put get q (Get n # ops) =
     (case get q n of None \<Rightarrow> None
      | Some (q', ys) \<Rightarrow> map_option (\<lambda>(r, acc, del). (r, acc, ys @ del))
                           (stream_run put get q' ops))"

fun stream_op_ok :: "nat \<Rightarrow> 'a stream_op \<Rightarrow> bool" where
  "stream_op_ok bound (Put xs) = (length xs < bound)"
| "stream_op_ok bound (Get n) = (n < bound)"

locale byte_stream =
  fixes invar :: "'q \<Rightarrow> bool" and contents :: "'q \<Rightarrow> 'a list" and bound :: nat
    and put :: "'q \<Rightarrow> 'a list \<Rightarrow> ('q \<times> nat) option"
    and get :: "'q \<Rightarrow> nat \<Rightarrow> ('q \<times> 'a list) option"
  assumes put_spec: "invar q \<Longrightarrow> length xs < bound \<Longrightarrow>
      \<exists>q' n. put q xs = Some (q', n) \<and> invar q' \<and> n \<le> length xs \<and>
             contents q' = contents q @ take n xs"
    and get_spec: "invar q \<Longrightarrow> n < bound \<Longrightarrow>
      \<exists>q' ys. get q n = Some (q', ys) \<and> invar q' \<and> length ys \<le> n \<and>
              contents q = ys @ contents q'"
begin

text \<open>Every run succeeds, keeps the invariant, and loses, duplicates or reorders nothing.\<close>

lemma run_fifo:
  assumes "invar q" and "list_all (stream_op_ok bound) ops"
  shows "\<exists>q' acc del. stream_run put get q ops = Some (q', acc, del) \<and> invar q' \<and>
           contents q @ acc = del @ contents q'"
  using assms
proof (induction ops arbitrary: q)
  case Nil
  then show ?case by simp
next
  case (Cons oper ops)
  show ?case
  proof (cases oper)
    case (Put xs)
    with Cons.prems obtain q1 n where 1: "put q xs = Some (q1, n)" "invar q1"
      "contents q1 = contents q @ take n xs"
      using put_spec[of q xs] by auto
    obtain q2 acc del where 2: "stream_run put get q1 ops = Some (q2, acc, del)" "invar q2"
      "contents q1 @ acc = del @ contents q2"
      using Cons.IH[OF 1(2)] Cons.prems by auto
    from 1 2 Put show ?thesis by auto
  next
    case (Get n)
    with Cons.prems obtain q1 ys where 1: "get q n = Some (q1, ys)" "invar q1"
      "contents q = ys @ contents q1"
      using get_spec[of q n] by auto
    obtain q2 acc del where 2: "stream_run put get q1 ops = Some (q2, acc, del)" "invar q2"
      "contents q1 @ acc = del @ contents q2"
      using Cons.IH[OF 1(2)] Cons.prems by auto
    from 1 2 Get show ?thesis by auto
  qed
qed

end

text \<open>A bounded FIFO also says how much it accepts and delivers: all that fits.\<close>

locale bounded_fifo = byte_stream +
  fixes capacity :: "'a \<Rightarrow> nat"
  assumes room: "invar q \<Longrightarrow> length (contents q) \<le> capacity q"
    and put_max: "invar q \<Longrightarrow> length xs < bound \<Longrightarrow> put q xs = Some (q', n) \<Longrightarrow>
      n = min (length xs) (capacity q - length (contents q)) \<and> capacity q' = capacity q"
    and get_max: "invar q \<Longrightarrow> n < bound \<Longrightarrow> get q n = Some (q', ys) \<Longrightarrow>
      length ys = min n (length (contents q)) \<and> capacity q' = capacity q"
begin

text \<open>What was put and fits comes back from one \<open>get\<close> when the queue was empty.\<close>

lemma put_get_roundtrip:
  assumes "invar q" "contents q = []" "length xs \<le> capacity q" "length xs < bound"
  shows "\<exists>q' q''. put q xs = Some (q', length xs) \<and> get q' (length xs) = Some (q'', xs) \<and>
           contents q'' = []"
proof -
  obtain q' n where 1: "put q xs = Some (q', n)" "invar q'" "contents q' = take n xs"
    using put_spec[of q xs] assms by auto
  with put_max[of q xs q' n] assms have n: "n = length xs" by simp
  obtain q'' ys where 2: "get q' (length xs) = Some (q'', ys)" "contents q' = ys @ contents q''"
    using get_spec[of q' "length xs"] 1 assms by auto
  with get_max[of q' "length xs" q'' ys] 1 n assms have ly: "length ys = length xs" by simp
  have xs: "xs = ys @ contents q''" using 1(3) 2(2) n by simp
  then have "length xs = length ys + length (contents q'')" by (metis length_append)
  with ly have "contents q'' = []" by simp
  with 1(1) 2(1) xs n show ?thesis by simp
qed

end

end
