(* ===== verification/Kfifo.thy ===== *)
theory Kfifo
  imports Ring
begin

text \<open>
  The kernel-style FIFO of \<open>src/src/fifo/fifo.c\<close> and \<open>src/include/fifo.h\<close>: a byte buffer whose
  size is a power of two and two free-running 32-bit counters. The unlocked operations
  \<open>__kfifo_put\<close>, \<open>__kfifo_get\<close>, \<open>__kfifo_len\<close>, \<open>__kfifo_reset\<close> are named
  \<open>kfifo_put_unlocked\<close> and so on; the locked ones are the inline functions of the header,
  whose spin-lock macros expand to nothing. \<open>BUG_ON\<close> prints and exits the process, which
  is the error value \<open>Bug_on\<close>; the memory that \<open>xmalloc\<close> returns is an argument.
\<close>

section \<open>State and operations\<close>

record kfifo =
  fifo_buffer :: "u8 list"
  fifo_size :: u32
  fifo_in :: u32
  fifo_out :: u32
  fifo_lock :: u64

datatype kfifo_error = Bug_on

definition is_power_of_2 :: "u64 \<Rightarrow> bool" where
  "is_power_of_2 n \<longleftrightarrow> n \<noteq> 0 \<and> (n AND (n - 1)) = 0"

definition kfifo_init :: "u8 list \<Rightarrow> u32 \<Rightarrow> u64 \<Rightarrow> kfifo_error + kfifo" where
  "kfifo_init buffer sz lock =
     (if \<not> is_power_of_2 (ucast sz) then Inl Bug_on
      else Inr \<lparr>fifo_buffer = buffer, fifo_size = sz, fifo_in = 0, fifo_out = 0,
                fifo_lock = lock\<rparr>)"

definition kfifo_alloc :: "(nat \<Rightarrow> u8 list) \<Rightarrow> u32 \<Rightarrow> u64 \<Rightarrow> kfifo_error + kfifo" where
  "kfifo_alloc xmalloc sz lock =
     (if \<not> is_power_of_2 (ucast sz) then Inl Bug_on
      else kfifo_init (xmalloc (unat sz)) sz lock)"

definition kfifo_put_unlocked :: "kfifo \<Rightarrow> u8 list \<Rightarrow> u32 \<Rightarrow> (kfifo \<times> u32) option" where
  "kfifo_put_unlocked fifo buffer len0 =
     (let len = min len0 (fifo_size fifo - fifo_in fifo + fifo_out fifo);
          off = fifo_in fifo AND (fifo_size fifo - 1);
          l = min len (fifo_size fifo - off)
      in do {
        b1 \<leftarrow> memcpy_at (fifo_buffer fifo) (unat off) buffer 0 (unat l);
        b2 \<leftarrow> memcpy_at b1 0 buffer (unat l) (unat (len - l));
        Some (fifo\<lparr>fifo_buffer := b2, fifo_in := fifo_in fifo + len\<rparr>, len)
      })"

definition kfifo_get_unlocked ::
  "kfifo \<Rightarrow> u8 list \<Rightarrow> u32 \<Rightarrow> (kfifo \<times> u8 list \<times> u32) option" where
  "kfifo_get_unlocked fifo buffer len0 =
     (let len = min len0 (fifo_in fifo - fifo_out fifo);
          off = fifo_out fifo AND (fifo_size fifo - 1);
          l = min len (fifo_size fifo - off)
      in do {
        d1 \<leftarrow> memcpy_at buffer 0 (fifo_buffer fifo) (unat off) (unat l);
        d2 \<leftarrow> memcpy_at d1 (unat l) (fifo_buffer fifo) 0 (unat (len - l));
        Some (fifo\<lparr>fifo_out := fifo_out fifo + len\<rparr>, d2, len)
      })"

definition kfifo_reset_unlocked :: "kfifo \<Rightarrow> kfifo" where
  "kfifo_reset_unlocked fifo = fifo\<lparr>fifo_in := 0, fifo_out := 0\<rparr>"

definition kfifo_reset :: "kfifo \<Rightarrow> kfifo" where
  "kfifo_reset fifo = kfifo_reset_unlocked fifo"

definition kfifo_put :: "kfifo \<Rightarrow> u8 list \<Rightarrow> u32 \<Rightarrow> (kfifo \<times> u32) option" where
  "kfifo_put fifo buffer len = kfifo_put_unlocked fifo buffer len"

definition kfifo_get :: "kfifo \<Rightarrow> u8 list \<Rightarrow> u32 \<Rightarrow> (kfifo \<times> u8 list \<times> u32) option" where
  "kfifo_get fifo buffer len =
     (case kfifo_get_unlocked fifo buffer len of None \<Rightarrow> None
      | Some (fifo', d, ret) \<Rightarrow>
          Some (if fifo_in fifo' = fifo_out fifo'
                then (fifo'\<lparr>fifo_in := 0, fifo_out := 0\<rparr>, d, ret) else (fifo', d, ret)))"

definition kfifo_len_unlocked :: "kfifo \<Rightarrow> u32" where
  "kfifo_len_unlocked fifo = fifo_in fifo - fifo_out fifo"

definition kfifo_len :: "kfifo \<Rightarrow> u32" where
  "kfifo_len fifo = kfifo_len_unlocked fifo"

definition kfifo_is_empty :: "kfifo \<Rightarrow> bool" where
  "kfifo_is_empty fifo \<longleftrightarrow> kfifo_len_unlocked fifo = 0"

section \<open>Invariant and abstract contents\<close>

definition kfifo_invar :: "kfifo \<Rightarrow> bool" where
  "kfifo_invar f \<longleftrightarrow> is_power_of_2 (ucast (fifo_size f)) \<and>
     length (fifo_buffer f) = unat (fifo_size f) \<and>
     fifo_in f - fifo_out f \<le> fifo_size f"

definition kfifo_contents :: "kfifo \<Rightarrow> u8 list" where
  "kfifo_contents f = ring_val (fifo_buffer f) (fifo_in f) (fifo_out f)"

text \<open>The calls of a client that offers a whole array, or asks for up to \<open>n\<close> bytes.\<close>

definition kfifo_put_all :: "kfifo \<Rightarrow> u8 list \<Rightarrow> (kfifo \<times> nat) option" where
  "kfifo_put_all f xs =
     map_option (\<lambda>(f', n). (f', unat n)) (kfifo_put f xs (of_nat (length xs)))"

definition kfifo_get_upto :: "kfifo \<Rightarrow> nat \<Rightarrow> (kfifo \<times> u8 list) option" where
  "kfifo_get_upto f n =
     map_option (\<lambda>(f', d, r). (f', take (unat r) d))
       (kfifo_get f (replicate n 0) (of_nat n))"

section \<open>Powers of two\<close>

lemma nat_and_pred_power_of_2:
  assumes "0 < n" and "(n::nat) AND (n - 1) = 0"
  shows "\<exists>k. n = 2 ^ k"
proof -
  obtain k where k: "2 ^ k \<le> n" "n < 2 ^ (k + 1)"
    using ex_power_ivl1[of 2 n] assms(1) by auto
  show ?thesis
  proof (cases "n = 2 ^ k")
    case False
    have d: "m div 2 ^ k = 1" if "2 ^ k \<le> m" "m < 2 ^ (k + 1)" for m :: nat
      using that by (intro div_nat_eqI) auto
    have "n div 2 ^ k = 1" "(n - 1) div 2 ^ k = 1"
      using k False by (intro d; linarith)+
    then have "bit n k" "bit (n - 1) k" by (simp_all add: bit_iff_odd)
    then have "bit (n AND (n - 1)) k" by (simp add: bit_and_iff)
    with assms(2) show ?thesis by simp
  qed blast
qed

lemma is_power_of_2_iff: "is_power_of_2 n \<longleftrightarrow> (\<exists>k. unat n = 2 ^ k)"
proof
  assume "is_power_of_2 n"
  then have n: "n \<noteq> 0" and a: "n AND (n - 1) = 0" by (auto simp: is_power_of_2_def)
  have "unat (n - 1) = unat n - 1"
    using n by (simp add: unat_minus_one)
  then have "unat n AND (unat n - 1) = 0"
    using arg_cong[OF a, of unat] by (simp add: unsigned_and_eq)
  moreover have "0 < unat n" using n by (simp add: unat_gt_0)
  ultimately show "\<exists>k. unat n = 2 ^ k" by (intro nat_and_pred_power_of_2)
next
  assume "\<exists>k. unat n = 2 ^ k"
  then obtain k where k: "unat n = 2 ^ k" ..
  then have "unat (n AND (n - 1)) = 0" by (simp add: unat_and_mask)
  moreover have "n \<noteq> 0" using k by auto
  ultimately show "is_power_of_2 n" by (simp add: is_power_of_2_def unat_eq_0)
qed

section \<open>The operations on the abstract contents\<close>

lemma kfifo_invar_ring:
  "kfifo_invar f \<longleftrightarrow> ring_ok (fifo_buffer f) (fifo_size f) (fifo_in f) (fifo_out f)"
  by (simp add: kfifo_invar_def ring_ok_def is_power_of_2_iff unat_ucast_widen)

lemma kfifo_put_unlocked_eq:
  assumes inv: "kfifo_invar f" and len: "unat len \<le> length xs"
  defines "n \<equiv> min len (fifo_size f - fifo_in f + fifo_out f)"
  shows "kfifo_put_unlocked f xs len = Some
    (f\<lparr>fifo_buffer := ring_write (fifo_buffer f) (unat (fifo_in f)) (take (unat n) xs),
       fifo_in := fifo_in f + n\<rparr>, n)"
proof -
  let ?N = "length (fifo_buffer f)" and ?i = "unat (fifo_in f)"
  note ok = inv[unfolded kfifo_invar_ring]
  have nn: "unat n \<le> ?N" "unat n \<le> length xs"
    using ring_ok_room[OF ok] len by (auto simp: n_def unat_min)
  define l where "l = min n (fifo_size f - (fifo_in f AND (fifo_size f - 1)))"
  have l: "unat l = min (unat n) (?N - ?i mod ?N)"
    by (simp add: l_def unat_min ring_ok_block[OF ok])
  have "unat (n - l) = unat n - unat l"
    by (intro unat_sub) (simp add: l_def)
  then show ?thesis
    using ring_write_blocks[OF ring_ok_pos[OF ok] nn l]
    unfolding kfifo_put_unlocked_def Let_def n_def[symmetric] l_def[symmetric]
    by (cases "memcpy_at (fifo_buffer f) (?i mod ?N) xs 0 (unat l)")
       (simp_all add: ring_ok_mask[OF ok])
qed

lemma kfifo_put_unlocked_spec:
  assumes inv: "kfifo_invar f" and len: "unat len \<le> length xs"
  shows "\<exists>f' n. kfifo_put_unlocked f xs len = Some (f', n) \<and> kfifo_invar f' \<and>
    unat n = min (unat len) (unat (fifo_size f) - length (kfifo_contents f)) \<and>
    kfifo_contents f' = kfifo_contents f @ take (unat n) xs \<and>
    fifo_size f' = fifo_size f"
proof -
  note ok = inv[unfolded kfifo_invar_ring]
  define n where "n = min len (fifo_size f - fifo_in f + fifo_out f)"
  have N: "length (fifo_buffer f) = unat (fifo_size f)" using inv by (simp add: kfifo_invar_def)
  have un: "unat n = min (unat len) (unat (fifo_size f) - length (kfifo_contents f))"
    by (simp add: n_def unat_min ring_ok_room[OF ok] kfifo_contents_def N)
  have "length (take (unat n) xs) = unat n" using un len by simp
  moreover have "unat (fifo_in f - fifo_out f) + unat n \<le> length (fifo_buffer f)"
    using un ring_ok_le[OF ok] by (simp add: N kfifo_contents_def length_ring_val)
  ultimately show ?thesis
    using ring_ok_put[OF ok] kfifo_put_unlocked_eq[OF inv len] un
    by (simp add: kfifo_invar_ring kfifo_contents_def flip: n_def)
qed

lemma kfifo_get_unlocked_spec:
  assumes inv: "kfifo_invar f" and len: "unat len \<le> length dst"
  shows "\<exists>f' d n. kfifo_get_unlocked f dst len = Some (f', d, n) \<and> kfifo_invar f' \<and>
    unat n = min (unat len) (length (kfifo_contents f)) \<and>
    d = take (unat n) (kfifo_contents f) @ drop (unat n) dst \<and>
    kfifo_contents f' = drop (unat n) (kfifo_contents f) \<and>
    fifo_size f' = fifo_size f"
proof -
  let ?N = "length (fifo_buffer f)" and ?j = "unat (fifo_out f)"
  note ok = inv[unfolded kfifo_invar_ring]
  define n where "n = min len (fifo_in f - fifo_out f)"
  define l where "l = min n (fifo_size f - (fifo_out f AND (fifo_size f - 1)))"
  have un: "unat n = min (unat len) (length (kfifo_contents f))"
    by (simp add: n_def unat_min kfifo_contents_def length_ring_val)
  have l: "unat l = min (unat n) (?N - ?j mod ?N)"
    by (simp add: l_def unat_min ring_ok_block[OF ok])
  have nl: "unat (n - l) = unat n - unat l"
    by (intro unat_sub) (simp add: l_def)
  have n1: "unat n \<le> unat (fifo_in f - fifo_out f)" and n2: "unat n \<le> length dst"
    and n3: "n \<le> fifo_in f - fifo_out f"
    using len un by (simp_all add: n_def unat_min)
  have "kfifo_get_unlocked f dst len = Some
      (f\<lparr>fifo_out := fifo_out f + n\<rparr>, take (unat n) (kfifo_contents f) @ drop (unat n) dst, n)"
    using ring_read_copies[OF ok n1 l n2] nl
    unfolding kfifo_get_unlocked_def Let_def n_def[symmetric] l_def[symmetric] kfifo_contents_def
    by (cases "memcpy_at dst 0 (fifo_buffer f) (?j mod ?N) (unat l)")
       (simp_all add: ring_ok_mask[OF ok])
  with ring_ok_get[OF ok n3] un show ?thesis
    by (simp add: kfifo_invar_ring kfifo_contents_def)
qed

lemma kfifo_get_spec:
  assumes inv: "kfifo_invar f" and len: "unat len \<le> length dst"
  shows "\<exists>f' d n. kfifo_get f dst len = Some (f', d, n) \<and> kfifo_invar f' \<and>
    unat n = min (unat len) (length (kfifo_contents f)) \<and>
    d = take (unat n) (kfifo_contents f) @ drop (unat n) dst \<and>
    kfifo_contents f' = drop (unat n) (kfifo_contents f) \<and>
    fifo_size f' = fifo_size f"
proof -
  obtain f' d n where g: "kfifo_get_unlocked f dst len = Some (f', d, n)" "kfifo_invar f'"
      "unat n = min (unat len) (length (kfifo_contents f))"
      "d = take (unat n) (kfifo_contents f) @ drop (unat n) dst"
      "kfifo_contents f' = drop (unat n) (kfifo_contents f)" "fifo_size f' = fifo_size f"
    using kfifo_get_unlocked_spec[OF assms] by auto
  show ?thesis
  proof (cases "fifo_in f' = fifo_out f'")
    case False
    then have "kfifo_get f dst len = Some (f', d, n)" by (simp add: kfifo_get_def g(1))
    with g show ?thesis by blast
  next
    case True
    let ?f = "f'\<lparr>fifo_in := 0, fifo_out := 0\<rparr>"
    have "kfifo_get f dst len = Some (?f, d, n)" using True by (simp add: kfifo_get_def g(1))
    moreover have "kfifo_invar ?f" and "kfifo_contents ?f = kfifo_contents f'"
      using ring_ok_reset[OF g(2)[unfolded kfifo_invar_ring] True]
      by (simp_all add: kfifo_invar_ring kfifo_contents_def)
    ultimately show ?thesis using g by auto
  qed
qed

lemma kfifo_put_all_spec:
  assumes "kfifo_invar f" and "length xs < 2 ^ 32"
  shows "\<exists>f' n. kfifo_put_all f xs = Some (f', n) \<and> kfifo_invar f' \<and>
    n = min (length xs) (unat (fifo_size f) - length (kfifo_contents f)) \<and>
    kfifo_contents f' = kfifo_contents f @ take n xs \<and> fifo_size f' = fifo_size f"
proof -
  have u: "unat (of_nat (length xs) :: u32) = length xs" using assms(2) by (simp add: unat_of_nat)
  then have "unat (of_nat (length xs) :: u32) \<le> length xs" by simp
  from kfifo_put_unlocked_spec[OF assms(1) this] show ?thesis
    by (auto simp: kfifo_put_all_def kfifo_put_def u)
qed

lemma kfifo_get_upto_spec:
  assumes "kfifo_invar f" and "n < 2 ^ 32"
  shows "\<exists>f' ys. kfifo_get_upto f n = Some (f', ys) \<and> kfifo_invar f' \<and>
    ys = take n (kfifo_contents f) \<and>
    kfifo_contents f' = drop n (kfifo_contents f) \<and> fifo_size f' = fifo_size f"
proof -
  have u: "unat (of_nat n :: u32) = n" using assms(2) by (simp add: unat_of_nat)
  then have "unat (of_nat n :: u32) \<le> length (replicate n (0::u8))" by simp
  from kfifo_get_spec[OF assms(1) this] show ?thesis
    by (auto simp: kfifo_get_upto_def u min_def)
qed

lemma kfifo_contents_le: "kfifo_invar f \<Longrightarrow> length (kfifo_contents f) \<le> unat (fifo_size f)"
  using ring_ok_le by (fastforce simp: kfifo_invar_ring kfifo_contents_def ring_ok_def)

section \<open>The FIFO implements the byte-stream contract\<close>

interpretation kf: bounded_fifo kfifo_invar kfifo_contents "2 ^ 32" kfifo_put_all kfifo_get_upto
  "\<lambda>f. unat (fifo_size f)"
proof unfold_locales
  fix f and xs :: "u8 list" and n
  assume "kfifo_invar f" "length xs < 2 ^ 32"
  then show "\<exists>f' n. kfifo_put_all f xs = Some (f', n) \<and> kfifo_invar f' \<and> n \<le> length xs \<and>
      kfifo_contents f' = kfifo_contents f @ take n xs"
    using kfifo_put_all_spec[of f xs] by auto
next
  fix f and n :: nat
  assume "kfifo_invar f" "n < 2 ^ 32"
  then show "\<exists>f' ys. kfifo_get_upto f n = Some (f', ys) \<and> kfifo_invar f' \<and> length ys \<le> n \<and>
      kfifo_contents f = ys @ kfifo_contents f'"
    using kfifo_get_upto_spec[of f n] by auto
next
  fix f assume "kfifo_invar f"
  then show "length (kfifo_contents f) \<le> unat (fifo_size f)" by (rule kfifo_contents_le)
next
  fix f f' and xs :: "u8 list" and n
  assume "kfifo_invar f" "length xs < 2 ^ 32" "kfifo_put_all f xs = Some (f', n)"
  then show "n = min (length xs) (unat (fifo_size f) - length (kfifo_contents f)) \<and>
      unat (fifo_size f') = unat (fifo_size f)"
    using kfifo_put_all_spec[of f xs] by auto
next
  fix f f' and n :: nat and ys
  assume "kfifo_invar f" "n < 2 ^ 32" "kfifo_get_upto f n = Some (f', ys)"
  then show "length ys = min n (length (kfifo_contents f)) \<and>
      unat (fifo_size f') = unat (fifo_size f)"
    using kfifo_get_upto_spec[of f n] by auto
qed

section \<open>Properties\<close>

text \<open>
  C37. Any sequence of \<open>kfifo_put\<close> and \<open>kfifo_get\<close> calls on a well-formed FIFO runs without an
  out-of-bounds access, keeps the FIFO well-formed, and delivers exactly the bytes that
  were accepted, in order: what was stored, followed by what was accepted, is what was
  delivered, followed by what is still stored. The counters may wrap at any point.
\<close>

theorem kfifo_stream_order:
  assumes "kfifo_invar f" and "list_all (stream_op_ok (2 ^ 32)) ops"
  shows "\<exists>f' acc del. stream_run kfifo_put_all kfifo_get_upto f ops = Some (f', acc, del) \<and>
    kfifo_invar f' \<and> kfifo_contents f @ acc = del @ kfifo_contents f'"
  using assms by (rule kf.run_fifo)

theorem kfifo_stream_order_witness:
  "kfifo_invar \<lparr>fifo_buffer = [0,0], fifo_size = 2, fifo_in = 0xFFFFFFFF, fifo_out = 0xFFFFFFFF,
     fifo_lock = 0\<rparr> \<and>
   (\<exists>f' acc del. stream_run kfifo_put_all kfifo_get_upto
      \<lparr>fifo_buffer = [0,0], fifo_size = 2, fifo_in = 0xFFFFFFFF, fifo_out = 0xFFFFFFFF,
       fifo_lock = 0\<rparr> [Put [7, 8, 9], Get 1] = Some (f', acc, del) \<and> kfifo_invar f' \<and>
    kfifo_contents \<lparr>fifo_buffer = [0,0], fifo_size = 2, fifo_in = 0xFFFFFFFF,
       fifo_out = 0xFFFFFFFF, fifo_lock = 0\<rparr> @ acc = del @ kfifo_contents f')"
proof -
  have i: "kfifo_invar \<lparr>fifo_buffer = [0,0], fifo_size = 2, fifo_in = 0xFFFFFFFF,
     fifo_out = 0xFFFFFFFF, fifo_lock = 0\<rparr>"
    by (simp add: kfifo_invar_def is_power_of_2_def)
  show ?thesis using i kfifo_stream_order[OF i, of "[Put [7, 8, 9], Get 1]"] by simp
qed

text \<open>
  \<open>__kfifo_put\<close> never writes out of bounds, accepts as many of the offered bytes as fit,
  and appends exactly those to the contents.
\<close>

theorem kfifo_put_appends:
  assumes "kfifo_invar f" and "unat len \<le> length xs"
  shows "\<exists>f' n. kfifo_put_unlocked f xs len = Some (f', n) \<and> kfifo_invar f' \<and>
    unat n = min (unat len) (unat (fifo_size f) - length (kfifo_contents f)) \<and>
    kfifo_contents f' = kfifo_contents f @ take (unat n) xs \<and>
    fifo_size f' = fifo_size f"
  using assms by (rule kfifo_put_unlocked_spec)

theorem kfifo_put_appends_witness:
  "\<exists>f' n. kfifo_put_unlocked \<lparr>fifo_buffer = [5, 6], fifo_size = 2, fifo_in = 0, fifo_out = 0xFFFFFFFF,
      fifo_lock = 0\<rparr> [7, 8] 2 = Some (f', n) \<and> unat n = 1 \<and> kfifo_contents f' = [6, 7]"
proof -
  have i: "kfifo_invar \<lparr>fifo_buffer = [5, 6], fifo_size = 2, fifo_in = 0, fifo_out = 0xFFFFFFFF,
      fifo_lock = 0\<rparr>"
    by (simp add: kfifo_invar_def is_power_of_2_def)
  have c: "kfifo_contents \<lparr>fifo_buffer = [5, 6], fifo_size = 2, fifo_in = 0,
      fifo_out = 0xFFFFFFFF, fifo_lock = 0\<rparr> = [6]"
    by (simp add: kfifo_contents_def ring_val_def ring_slice_def flip: numeral_2_eq_2)
  show ?thesis using kfifo_put_appends[OF i, of 2 "[7, 8]"] by (auto simp: c)
qed

text \<open>
  \<open>kfifo_get\<close> writes to the destination the longest prefix of the contents that the request
  allows, removes exactly that prefix, and touches no other byte of the destination, also
  when the read empties the FIFO and both counters are reset to 0.
\<close>

theorem kfifo_get_delivers_prefix:
  assumes "kfifo_invar f" and "unat len \<le> length dst"
  shows "\<exists>f' d n. kfifo_get f dst len = Some (f', d, n) \<and> kfifo_invar f' \<and>
    unat n = min (unat len) (length (kfifo_contents f)) \<and>
    d = take (unat n) (kfifo_contents f) @ drop (unat n) dst \<and>
    kfifo_contents f' = drop (unat n) (kfifo_contents f) \<and>
    fifo_size f' = fifo_size f"
  using assms by (rule kfifo_get_spec)

theorem kfifo_get_delivers_prefix_witness:
  "\<exists>f' d n. kfifo_get \<lparr>fifo_buffer = [5, 6], fifo_size = 2, fifo_in = 1, fifo_out = 0xFFFFFFFF,
      fifo_lock = 0\<rparr> [0, 0, 3] 3 = Some (f', d, n) \<and> unat n = 2 \<and> d = [6, 5, 3] \<and>
      kfifo_contents f' = []"
proof -
  have i: "kfifo_invar \<lparr>fifo_buffer = [5, 6], fifo_size = 2, fifo_in = 1, fifo_out = 0xFFFFFFFF,
      fifo_lock = 0\<rparr>"
    by (simp add: kfifo_invar_def is_power_of_2_def)
  have c: "kfifo_contents \<lparr>fifo_buffer = [5, 6], fifo_size = 2, fifo_in = 1,
      fifo_out = 0xFFFFFFFF, fifo_lock = 0\<rparr> = [6, 5]"
    by (simp add: kfifo_contents_def ring_val_def ring_slice_def upt_rec flip: numeral_2_eq_2)
  show ?thesis using kfifo_get_delivers_prefix[OF i, of 3 "[0, 0, 3]"] by (auto simp: c)
qed

text \<open>
  \<open>kfifo_alloc\<close> returns an empty well-formed FIFO exactly when the requested size is a power
  of two; for every other size the process exits in \<open>BUG_ON\<close>. The size is never rounded up.
\<close>

theorem kfifo_alloc_iff:
  assumes "length (xmalloc (unat sz)) = unat sz"
  shows "((\<exists>f. kfifo_alloc xmalloc sz lock = Inr f \<and> kfifo_invar f \<and> kfifo_contents f = [] \<and>
            fifo_size f = sz) \<longleftrightarrow> (\<exists>k. unat sz = 2 ^ k)) \<and>
         (kfifo_alloc xmalloc sz lock = Inl Bug_on \<longleftrightarrow> \<not> (\<exists>k. unat sz = 2 ^ k))"
  using assms
  by (auto simp: kfifo_alloc_def kfifo_init_def is_power_of_2_iff unat_ucast_widen kfifo_invar_ring
      ring_ok_def kfifo_contents_def ring_val_def)

theorem kfifo_alloc_iff_witness:
  "kfifo_alloc (\<lambda>n. replicate n 0) 3 0 = Inl Bug_on"
proof -
  have "is_power_of_2 (ucast (3::u32)) \<longleftrightarrow> (\<exists>k. unat (ucast (3::u32) :: u64) = 2 ^ k)"
    by (rule is_power_of_2_iff)
  then have "\<not> (\<exists>k. unat (3::u32) = 2 ^ k)" by (simp add: is_power_of_2_def)
  then show ?thesis using kfifo_alloc_iff[of "\<lambda>n. replicate n 0" 3 0] by simp
qed

end
