(* ===== verification/HashTable.thy ===== *)
theory HashTable
  imports Prelude "HOL-Library.Multiset"
begin

text \<open>
  The open-addressing hash table of \<open>src/src/hash/hash.c\<close>: linear probing, growth by the prime
  table when the fullness reaches three quarters, and deletion that rehashes the rest of
  the cluster instead of leaving tombstones.

  Keys and values are pointer-sized words; the key \<open>INVALID_PTR\<close> (all bits set) marks an
  empty cell. A loop over adjacent cells that meets no stopping cell in a full turn of the
  table never ends in C; the model gives it \<open>size\<close> steps and returns \<open>None\<close> after them, which
  is exactly that case. \<open>Abort\<close> is the \<open>abort ()\<close> of \<open>prime_size\<close>, \<open>Int_overflow\<close> the
  signed overflow of \<open>ht->size * HASH_RESIZE_FACTOR\<close> or of the conversion to \<open>int\<close>, and
  \<open>Diverges\<close> a probing loop that does not end.
\<close>

section \<open>State\<close>

record cell =
  cell_key :: u64
  cell_value :: u64

record hash_table =
  hash_function :: "u64 \<Rightarrow> u64"
  test_function :: "u64 \<Rightarrow> u64 \<Rightarrow> bool"
  cells :: "cell list"
  ht_size :: nat
  ht_count :: nat
  resize_threshold :: nat
  prime_offset :: nat

datatype hash_error = Abort | Int_overflow | Diverges

definition INVALID_PTR :: u64 where
  "INVALID_PTR = NOT 0"

definition cell_occupied :: "cell \<Rightarrow> bool" where
  "cell_occupied c \<longleftrightarrow> cell_key c \<noteq> INVALID_PTR"

definition clear_cell :: "cell \<Rightarrow> cell" where
  "clear_cell c = c\<lparr>cell_key := INVALID_PTR\<rparr>"

text \<open>A cell of a freshly allocated array after \<open>memset (cells, 0xff, ...)\<close>.\<close>

definition empty_cell :: cell where
  "empty_cell = \<lparr>cell_key = NOT 0, cell_value = NOT 0\<rparr>"

definition next_cell :: "nat \<Rightarrow> nat \<Rightarrow> nat" where
  "next_cell sz c = (if c \<noteq> sz - 1 then c + 1 else 0)"

definition hash_position :: "u64 \<Rightarrow> (u64 \<Rightarrow> u64) \<Rightarrow> nat \<Rightarrow> nat" where
  "hash_position key hashfun sz = unat (hashfun key) mod sz"

section \<open>Hash and test functions\<close>

text \<open>
  A C string in memory is the list of its bytes before the terminating zero; \<open>mem p\<close> is the
  string at address \<open>p\<close>. \<open>char\<close> is signed, so a byte is sign-extended to \<open>unsigned int\<close>.
\<close>

fun hash_bytes :: "u8 list \<Rightarrow> u32" where
  "hash_bytes [] = 0"
| "hash_bytes (b # bs) = foldl (\<lambda>h c. (push_bit 5 h - h) + scast c) (scast b) bs"

definition hash_string :: "(u64 \<Rightarrow> u8 list) \<Rightarrow> u64 \<Rightarrow> u64" where
  "hash_string mem key = ucast (hash_bytes (mem key))"

definition cmp_string :: "(u64 \<Rightarrow> u8 list) \<Rightarrow> u64 \<Rightarrow> u64 \<Rightarrow> bool" where
  "cmp_string mem s1 s2 \<longleftrightarrow> mem s1 = mem s2"

text \<open>\<open>tolower\<close> of the C locale.\<close>

definition tolower8 :: "u8 \<Rightarrow> u8" where
  "tolower8 c = (if 65 \<le> c \<and> c \<le> 90 then c + 32 else c)"

fun hash_bytes_nocase :: "u8 list \<Rightarrow> u32" where
  "hash_bytes_nocase [] = 0"
| "hash_bytes_nocase (b # bs) =
     foldl (\<lambda>h c. (push_bit 5 h - h) + scast (tolower8 c)) (scast (tolower8 b)) bs"

definition hash_string_nocase :: "(u64 \<Rightarrow> u8 list) \<Rightarrow> u64 \<Rightarrow> u64" where
  "hash_string_nocase mem key = ucast (hash_bytes_nocase (mem key))"

definition string_cmp_nocase :: "(u64 \<Rightarrow> u8 list) \<Rightarrow> u64 \<Rightarrow> u64 \<Rightarrow> bool" where
  "string_cmp_nocase mem s1 s2 \<longleftrightarrow> map tolower8 (mem s1) = map tolower8 (mem s2)"

definition hash_pointer :: "u64 \<Rightarrow> u64" where
  "hash_pointer ptr =
     (let key = ptr;
          key = key + push_bit 12 key; key = key XOR drop_bit 22 key;
          key = key + push_bit 4 key;  key = key XOR drop_bit 9 key;
          key = key + push_bit 10 key; key = key XOR drop_bit 2 key;
          key = key + push_bit 7 key;  key = key XOR drop_bit 12 key;
          key = key + push_bit 44 key; key = key XOR drop_bit 54 key;
          key = key + push_bit 36 key; key = key XOR drop_bit 41 key;
          key = key + push_bit 42 key; key = key XOR drop_bit 34 key;
          key = key + push_bit 39 key; key = key XOR drop_bit 44 key
      in key)"

definition cmp_pointer :: "u64 \<Rightarrow> u64 \<Rightarrow> bool" where
  "cmp_pointer ptr1 ptr2 \<longleftrightarrow> ptr1 = ptr2"

section \<open>Operations\<close>

definition primes :: "nat list" where
  "primes = [
    13, 19, 29, 41, 59, 79, 107, 149, 197, 263, 347, 457, 599, 787, 1031,
    1361, 1777, 2333, 3037, 3967, 5167, 6719, 8737, 11369, 14783,
    19219, 24989, 32491, 42257, 54941, 71429, 92861, 120721, 156941,
    204047, 265271, 344857, 448321, 582821, 757693, 985003, 1280519,
    1664681, 2164111, 2813353, 3657361, 4754591, 6180989, 8035301,
    10445899, 13579681, 17653589, 22949669, 29834603, 38784989,
    50420551, 65546729, 85210757, 110774011, 144006217, 187208107,
    243370577, 316381771, 411296309, 534685237, 695090819, 903618083,
    1174703521, 1527114613, 1837299131, 2147483647]"

text \<open>The search of \<open>prime_size\<close> over the table from index \<open>i\<close> on.\<close>

fun prime_search :: "nat list \<Rightarrow> nat \<Rightarrow> nat \<Rightarrow> (nat \<times> nat) option" where
  "prime_search [] i sz = None"
| "prime_search (p # ps) i sz = (if sz \<le> p then Some (p, i + 1) else prime_search ps (i + 1) sz)"

definition prime_size :: "nat \<Rightarrow> nat \<Rightarrow> hash_error + nat \<times> nat" where
  "prime_size sz offset =
     (case prime_search (drop offset primes) offset sz of None \<Rightarrow> Inl Abort | Some r \<Rightarrow> Inr r)"

text \<open>
  \<open>(int) (1 + items / 0.75)\<close> and \<open>(int) (size * 0.75)\<close>: both products are exact multiples of a
  third or a quarter, far from the rounding error of a \<open>double\<close>, so the conversions truncate
  the rational value. A null function pointer is \<open>None\<close>. \<open>items\<close> is the number of items a caller asks for, not negative.
\<close>

definition hash_table_new ::
  "nat \<Rightarrow> (u64 \<Rightarrow> u64) option \<Rightarrow> (u64 \<Rightarrow> u64 \<Rightarrow> bool) option \<Rightarrow>
   hash_error + hash_table" where
  "hash_table_new items hash_fn test_fn =
     (let size0 = 1 + items * 4 div 3
      in if 2 ^ 31 \<le> size0 then Inl Int_overflow
         else case prime_size size0 0 of Inl e \<Rightarrow> Inl e
         | Inr (sz, offset) \<Rightarrow>
             Inr \<lparr>hash_function = (case hash_fn of None \<Rightarrow> hash_pointer | Some f \<Rightarrow> f),
                  test_function = (case test_fn of None \<Rightarrow> cmp_pointer | Some f \<Rightarrow> f),
                  cells = replicate sz empty_cell, ht_size = sz, ht_count = 0,
                  resize_threshold = sz * 3 div 4, prime_offset = offset\<rparr>)"

definition make_string_hash_table :: "(u64 \<Rightarrow> u8 list) \<Rightarrow> nat \<Rightarrow> hash_error + hash_table" where
  "make_string_hash_table mem items = hash_table_new items (Some (hash_string mem)) (Some (cmp_string mem))"

definition make_nocase_string_hash_table ::
  "(u64 \<Rightarrow> u8 list) \<Rightarrow> nat \<Rightarrow> hash_error + hash_table" where
  "make_nocase_string_hash_table mem items =
     hash_table_new items (Some (hash_string_nocase mem)) (Some (string_cmp_nocase mem))"

text \<open>
  \<open>FOREACH_OCCUPIED_ADJACENT\<close> with a \<open>break\<close>: from cell \<open>c\<close> on, the first cell that satisfies
  \<open>stop\<close>, wrapping at the end of the array.
\<close>

fun probe :: "nat \<Rightarrow> (nat \<Rightarrow> bool) \<Rightarrow> nat \<Rightarrow> nat \<Rightarrow> nat option" where
  "probe 0 stop sz c = None"
| "probe (Suc n) stop sz c = (if stop c then Some c else probe n stop sz (next_cell sz c))"

definition find_cell :: "hash_table \<Rightarrow> u64 \<Rightarrow> nat option" where
  "find_cell ht key =
     probe (ht_size ht)
       (\<lambda>c. \<not> cell_occupied (cells ht ! c) \<or> test_function ht key (cell_key (cells ht ! c)))
       (ht_size ht) (hash_position key (hash_function ht) (ht_size ht))"

definition hash_table_get :: "hash_table \<Rightarrow> u64 \<Rightarrow> u64 option" where
  "hash_table_get ht key =
     (case find_cell ht key of None \<Rightarrow> None
      | Some c \<Rightarrow> Some (if cell_occupied (cells ht ! c) then cell_value (cells ht ! c) else 0))"

text \<open>
  The two result pointers of \<open>hash_table_get_pair\<close> may be null: an argument \<open>None\<close> is the
  null pointer, \<open>Some x\<close> a variable that holds \<open>x\<close>.
\<close>

definition hash_table_get_pair ::
  "hash_table \<Rightarrow> u64 \<Rightarrow> u64 option \<Rightarrow> u64 option \<Rightarrow> (bool \<times> u64 option \<times> u64 option) option" where
  "hash_table_get_pair ht lookup_key orig_key value =
     (case find_cell ht lookup_key of None \<Rightarrow> None
      | Some c \<Rightarrow>
          Some (if cell_occupied (cells ht ! c)
                then (True, map_option (\<lambda>_. cell_key (cells ht ! c)) orig_key,
                      map_option (\<lambda>_. cell_value (cells ht ! c)) value)
                else (False, orig_key, value)))"

definition hash_table_contains :: "hash_table \<Rightarrow> u64 \<Rightarrow> bool option" where
  "hash_table_contains ht key =
     (case find_cell ht key of None \<Rightarrow> None | Some c \<Rightarrow> Some (cell_occupied (cells ht ! c)))"

text \<open>The copy loop of \<open>grow_hash_table\<close> over the old cells.\<close>

fun rehash_into :: "(u64 \<Rightarrow> u64) \<Rightarrow> nat \<Rightarrow> cell list \<Rightarrow> cell list \<Rightarrow> cell list option" where
  "rehash_into hasher newsize [] new = Some new"
| "rehash_into hasher newsize (c # old) new =
     (if cell_occupied c
      then case probe newsize (\<lambda>d. \<not> cell_occupied (new ! d)) newsize
                  (hash_position (cell_key c) hasher newsize) of
             None \<Rightarrow> None
           | Some d \<Rightarrow> rehash_into hasher newsize old (new[d := c])
      else rehash_into hasher newsize old new)"

definition grow_hash_table :: "hash_table \<Rightarrow> hash_error + hash_table" where
  "grow_hash_table ht =
     (if 2 ^ 31 \<le> ht_size ht * 2 then Inl Int_overflow
      else case prime_size (ht_size ht * 2) (prime_offset ht) of Inl e \<Rightarrow> Inl e
      | Inr (newsize, offset) \<Rightarrow>
          (case rehash_into (hash_function ht) newsize (cells ht) (replicate newsize empty_cell) of
             None \<Rightarrow> Inl Diverges
           | Some new \<Rightarrow>
               Inr (ht\<lparr>cells := new, ht_size := newsize, resize_threshold := newsize * 3 div 4,
                       prime_offset := offset\<rparr>)))"

definition store_cell :: "hash_table \<Rightarrow> nat \<Rightarrow> u64 \<Rightarrow> u64 \<Rightarrow> hash_table" where
  "store_cell ht c key value =
     ht\<lparr>cells := (cells ht)[c := \<lparr>cell_key = key, cell_value = value\<rparr>]\<rparr>"

definition hash_table_put :: "hash_table \<Rightarrow> u64 \<Rightarrow> u64 \<Rightarrow> hash_error + hash_table" where
  "hash_table_put ht key value =
     (case find_cell ht key of None \<Rightarrow> Inl Diverges
      | Some c \<Rightarrow>
          if cell_occupied (cells ht ! c) then Inr (store_cell ht c key value)
          else if resize_threshold ht \<le> ht_count ht
          then case grow_hash_table ht of Inl e \<Rightarrow> Inl e
               | Inr ht' \<Rightarrow>
                   (case find_cell ht' key of None \<Rightarrow> Inl Diverges
                    | Some c' \<Rightarrow> Inr (store_cell (ht'\<lparr>ht_count := ht_count ht' + 1\<rparr>) c' key value))
          else Inr (store_cell (ht\<lparr>ht_count := ht_count ht + 1\<rparr>) c key value))"

text \<open>
  The rehash loop of \<open>hash_table_remove\<close>: the cells that follow the cleared one, up to the
  next empty cell, are moved back to the first free cell of their own chain.
\<close>

fun rehash_following :: "nat \<Rightarrow> (u64 \<Rightarrow> u64) \<Rightarrow> nat \<Rightarrow> cell list \<Rightarrow> nat \<Rightarrow> cell list option" where
  "rehash_following 0 hasher sz cs c = None"
| "rehash_following (Suc n) hasher sz cs c =
     (if \<not> cell_occupied (cs ! c) then Some cs
      else let key2 = cell_key (cs ! c)
           in case probe sz (\<lambda>d. \<not> cell_occupied (cs ! d) \<or> key2 = cell_key (cs ! d)) sz
                     (hash_position key2 hasher sz) of
                None \<Rightarrow> None
              | Some d \<Rightarrow>
                  rehash_following n hasher sz
                    (if cell_occupied (cs ! d) then cs
                     else cs[d := cs ! c, c := clear_cell (cs ! c)])
                    (next_cell sz c))"

definition hash_table_remove :: "hash_table \<Rightarrow> u64 \<Rightarrow> hash_error + hash_table \<times> bool" where
  "hash_table_remove ht key =
     (case find_cell ht key of None \<Rightarrow> Inl Diverges
      | Some c \<Rightarrow>
          if \<not> cell_occupied (cells ht ! c) then Inr (ht, False)
          else case rehash_following (ht_size ht) (hash_function ht) (ht_size ht)
                      ((cells ht)[c := clear_cell (cells ht ! c)]) (next_cell (ht_size ht) c) of
                 None \<Rightarrow> Inl Diverges
               | Some cs \<Rightarrow> Inr (ht\<lparr>cells := cs, ht_count := ht_count ht - 1\<rparr>, True))"

definition hash_table_clear :: "hash_table \<Rightarrow> hash_table" where
  "hash_table_clear ht = ht\<lparr>cells := replicate (ht_size ht) empty_cell, ht_count := 0\<rparr>"

definition hash_table_count :: "hash_table \<Rightarrow> nat" where
  "hash_table_count ht = ht_count ht"

text \<open>The iterator: the position is the index of the next cell to look at.\<close>

record hash_table_iterator =
  iter_key :: u64
  iter_value :: u64
  iter_pos :: nat
  iter_end :: nat

definition hash_table_iterate :: "hash_table \<Rightarrow> hash_table_iterator \<Rightarrow> hash_table_iterator" where
  "hash_table_iterate ht iter = iter\<lparr>iter_pos := 0, iter_end := ht_size ht\<rparr>"

function hash_table_iter_from ::
  "cell list \<Rightarrow> hash_table_iterator \<Rightarrow> nat \<Rightarrow> hash_table_iterator \<times> bool" where
  "hash_table_iter_from cs iter c =
     (if c < iter_end iter
      then if cell_occupied (cs ! c)
           then (iter\<lparr>iter_key := cell_key (cs ! c), iter_value := cell_value (cs ! c),
                      iter_pos := c + 1\<rparr>, True)
           else hash_table_iter_from cs iter (c + 1)
      else (iter, False))"
  by pat_completeness auto
termination
  by (relation "measure (\<lambda>(cs, iter, c). iter_end iter - c)") auto

definition hash_table_iter_next ::
  "hash_table \<Rightarrow> hash_table_iterator \<Rightarrow> hash_table_iterator \<times> bool" where
  "hash_table_iter_next ht iter = hash_table_iter_from (cells ht) iter (iter_pos iter)"

section \<open>Invariant and abstract map\<close>

text \<open>
  \<open>cyc sz h k\<close> is the cell \<open>k\<close> steps after cell \<open>h\<close>. The probing invariant: every occupied cell
  is reached from the home position of its key over occupied cells only, and no two
  occupied cells hold equal keys.
\<close>

definition cyc :: "nat \<Rightarrow> nat \<Rightarrow> nat \<Rightarrow> nat" where
  "cyc sz h k = (h + k) mod sz"

definition chains_ok :: "(u64 \<Rightarrow> u64) \<Rightarrow> nat \<Rightarrow> cell list \<Rightarrow> bool" where
  "chains_ok hasher sz cs \<longleftrightarrow>
     (\<forall>i < sz. cell_occupied (cs ! i) \<longrightarrow>
        (\<exists>k < sz. cyc sz (hash_position (cell_key (cs ! i)) hasher sz) k = i \<and>
          (\<forall>j < k. cell_occupied (cs ! cyc sz (hash_position (cell_key (cs ! i)) hasher sz) j))))"

definition keys_distinct :: "(u64 \<Rightarrow> u64 \<Rightarrow> bool) \<Rightarrow> cell list \<Rightarrow> bool" where
  "keys_distinct test cs \<longleftrightarrow>
     (\<forall>i < length cs. \<forall>j < length cs. cell_occupied (cs ! i) \<longrightarrow> cell_occupied (cs ! j) \<longrightarrow>
        test (cell_key (cs ! i)) (cell_key (cs ! j)) \<longrightarrow> i = j)"

definition occupied_cells :: "cell list \<Rightarrow> cell list" where
  "occupied_cells cs = filter cell_occupied cs"

definition ht_sized :: "hash_table \<Rightarrow> bool" where
  "ht_sized ht \<longleftrightarrow> 0 < prime_offset ht \<and> prime_offset ht \<le> length primes \<and>
     ht_size ht = primes ! (prime_offset ht - 1)"

definition ht_invar :: "hash_table \<Rightarrow> bool" where
  "ht_invar ht \<longleftrightarrow>
     length (cells ht) = ht_size ht \<and>
     ht_sized ht \<and>
     resize_threshold ht = ht_size ht * 3 div 4 \<and>
     ht_count ht = length (occupied_cells (cells ht)) \<and>
     ht_count ht \<le> resize_threshold ht \<and>
     chains_ok (hash_function ht) (ht_size ht) (cells ht) \<and>
     keys_distinct (test_function ht) (cells ht)"

text \<open>The map a table stands for, read off the cells without probing.\<close>

definition cells_map :: "(u64 \<Rightarrow> u64 \<Rightarrow> bool) \<Rightarrow> cell list \<Rightarrow> u64 \<Rightarrow> u64 option" where
  "cells_map test cs key =
     map_option cell_value (find (\<lambda>c. cell_occupied c \<and> test key (cell_key c)) cs)"

definition ht_map :: "hash_table \<Rightarrow> u64 \<Rightarrow> u64 option" where
  "ht_map ht = cells_map (test_function ht) (cells ht)"

text \<open>The agreement of hash and test functions that the comments of the source require.\<close>

locale key_functions =
  fixes hash :: "u64 \<Rightarrow> u64" and test :: "u64 \<Rightarrow> u64 \<Rightarrow> bool"
  assumes test_refl: "test a a"
    and test_sym: "test a b \<Longrightarrow> test b a"
    and test_trans: "test a b \<Longrightarrow> test b c \<Longrightarrow> test a c"
    and test_hash: "test a b \<Longrightarrow> hash a = hash b"

lemma key_functions_pointer: "key_functions hash_pointer cmp_pointer"
  by unfold_locales (auto simp: cmp_pointer_def)

lemma key_functions_string: "key_functions (hash_string mem) (cmp_string mem)"
  by unfold_locales (auto simp: cmp_string_def hash_string_def)

text \<open>Strings that differ only in case hash the same: the hash reads only lower-cased bytes.\<close>

lemma hash_bytes_nocase_map: "hash_bytes_nocase bs = hash_bytes (map tolower8 bs)"
proof (cases bs)
  case (Cons b cs)
  have "foldl (\<lambda>h c. (push_bit 5 h - h) + scast (tolower8 c)) a cs =
      foldl (\<lambda>h c. (push_bit 5 h - h) + scast c) a (map tolower8 cs)" for a :: u32
    by (induction cs arbitrary: a) auto
  with Cons show ?thesis by simp
qed simp

lemma key_functions_nocase: "key_functions (hash_string_nocase mem) (string_cmp_nocase mem)"
  by unfold_locales (auto simp: string_cmp_nocase_def hash_string_nocase_def hash_bytes_nocase_map)

section \<open>The contract of a finite map\<close>

text \<open>
  Clients store and remove; \<open>same\<close> is the equality of keys, \<open>valid\<close> the keys that may be stored
  and \<open>room\<close> how many more insertions are sure to succeed. \<open>store_run\<close> runs a sequence of
  operations and collects the answers of \<open>remove\<close>; \<open>spec_run\<close> does the same on a function.
\<close>

datatype ('k, 'v) store_op = SPut 'k 'v | SRemove 'k

fun store_run ::
  "('s \<Rightarrow> 'k \<Rightarrow> 'v \<Rightarrow> 's option) \<Rightarrow> ('s \<Rightarrow> 'k \<Rightarrow> ('s \<times> bool) option) \<Rightarrow>
   's \<Rightarrow> ('k, 'v) store_op list \<Rightarrow> ('s \<times> bool list) option" where
  "store_run put rem s [] = Some (s, [])"
| "store_run put rem s (SPut k v # ops) =
     (case put s k v of None \<Rightarrow> None | Some s' \<Rightarrow> store_run put rem s' ops)"
| "store_run put rem s (SRemove k # ops) =
     (case rem s k of None \<Rightarrow> None
      | Some (s', b) \<Rightarrow> map_option (\<lambda>(r, bs). (r, b # bs)) (store_run put rem s' ops))"

fun spec_run ::
  "('k \<Rightarrow> 'k \<Rightarrow> bool) \<Rightarrow> ('k \<Rightarrow> 'v option) \<Rightarrow> ('k, 'v) store_op list \<Rightarrow>
   ('k \<Rightarrow> 'v option) \<times> bool list" where
  "spec_run same m [] = (m, [])"
| "spec_run same m (SPut k v # ops) =
     spec_run same (\<lambda>q. if same q k then Some v else m q) ops"
| "spec_run same m (SRemove k # ops) =
     (let (r, bs) = spec_run same (\<lambda>q. if same q k then None else m q) ops
      in (r, (m k \<noteq> None) # bs))"

fun store_puts :: "('k, 'v) store_op list \<Rightarrow> nat" where
  "store_puts [] = 0"
| "store_puts (SPut k v # ops) = Suc (store_puts ops)"
| "store_puts (SRemove k # ops) = store_puts ops"

fun store_op_valid :: "('k \<Rightarrow> bool) \<Rightarrow> ('k, 'v) store_op \<Rightarrow> bool" where
  "store_op_valid valid (SPut k v) = valid k"
| "store_op_valid valid (SRemove k) = True"

locale map_store =
  fixes invar :: "'s \<Rightarrow> bool" and lookup :: "'s \<Rightarrow> 'k \<Rightarrow> 'v option"
    and same :: "'k \<Rightarrow> 'k \<Rightarrow> bool" and valid :: "'k \<Rightarrow> bool" and room :: "'s \<Rightarrow> nat"
    and put :: "'s \<Rightarrow> 'k \<Rightarrow> 'v \<Rightarrow> 's option" and rem :: "'s \<Rightarrow> 'k \<Rightarrow> ('s \<times> bool) option"
  assumes put_law: "invar s \<Longrightarrow> valid k \<Longrightarrow> 0 < room s \<Longrightarrow>
      \<exists>s'. put s k v = Some s' \<and> invar s' \<and> room s - 1 \<le> room s' \<and>
           lookup s' = (\<lambda>q. if same q k then Some v else lookup s q)"
    and rem_law: "invar s \<Longrightarrow>
      \<exists>s'. rem s k = Some (s', lookup s k \<noteq> None) \<and> invar s' \<and> room s \<le> room s' \<and>
           lookup s' = (\<lambda>q. if same q k then None else lookup s q)"
begin

lemma run_refines:
  assumes "invar s" "list_all (store_op_valid valid) ops" "store_puts ops \<le> room s"
  shows "\<exists>s' bs. store_run put rem s ops = Some (s', bs) \<and> invar s' \<and>
    spec_run same (lookup s) ops = (lookup s', bs)"
  using assms
proof (induction ops arbitrary: s)
  case Nil
  then show ?case by simp
next
  case (Cons oper ops)
  show ?case
  proof (cases oper)
    case (SPut k v)
    with Cons.prems obtain s1 where 1: "put s k v = Some s1" "invar s1" "room s - 1 \<le> room s1"
      "lookup s1 = (\<lambda>q. if same q k then Some v else lookup s q)"
      using put_law[of s k v] by auto
    have r: "store_puts ops \<le> room s1" using Cons.prems(3) 1(3) SPut by simp
    obtain s2 bs where "store_run put rem s1 ops = Some (s2, bs)" "invar s2"
      "spec_run same (lookup s1) ops = (lookup s2, bs)"
      using Cons.IH[OF 1(2) _ r] Cons.prems(2) by auto
    with 1 SPut show ?thesis by simp
  next
    case (SRemove k)
    with Cons.prems obtain s1 where 1: "rem s k = Some (s1, lookup s k \<noteq> None)" "invar s1"
      "room s \<le> room s1" "lookup s1 = (\<lambda>q. if same q k then None else lookup s q)"
      using rem_law[of s k] by auto
    obtain s2 bs where "store_run put rem s1 ops = Some (s2, bs)" "invar s2"
      "spec_run same (lookup s1) ops = (lookup s2, bs)"
      using Cons.IH[OF 1(2)] Cons.prems 1(3) SRemove by auto
    with 1 SRemove show ?thesis by (simp del: not_None_eq)
  qed
qed

end

text \<open>The two operations with every failure read as \<open>None\<close>.\<close>

definition table_put :: "hash_table \<Rightarrow> u64 \<Rightarrow> u64 \<Rightarrow> hash_table option" where
  "table_put ht k v = (case hash_table_put ht k v of Inl e \<Rightarrow> None | Inr t \<Rightarrow> Some t)"

definition table_remove :: "hash_table \<Rightarrow> u64 \<Rightarrow> (hash_table \<times> bool) option" where
  "table_remove ht k = (case hash_table_remove ht k of Inl e \<Rightarrow> None | Inr r \<Rightarrow> Some r)"

definition table_invar :: "(u64 \<Rightarrow> u64) \<Rightarrow> (u64 \<Rightarrow> u64 \<Rightarrow> bool) \<Rightarrow> hash_table \<Rightarrow> bool" where
  "table_invar h t ht \<longleftrightarrow> ht_invar ht \<and> hash_function ht = h \<and> test_function ht = t \<and>
     ht_size ht < 2 ^ 30"

section \<open>Probing\<close>

lemma cyc_less: "0 < sz \<Longrightarrow> cyc sz h k < sz"
  by (simp add: cyc_def)

lemma cyc_0: "h < sz \<Longrightarrow> cyc sz h 0 = h"
  by (simp add: cyc_def)

lemma cyc_cyc: "cyc sz (cyc sz h j) k = cyc sz h (j + k)"
  by (simp add: cyc_def mod_add_left_eq add.assoc)

lemma cyc_inj:
  assumes "j < sz" "k < sz" "cyc sz h j = cyc sz h k"
  shows "j = k"
proof -
  have le: "b = a" if "a \<le> b" "b < sz" "(h + a) mod sz = (h + b) mod sz" for a b
  proof -
    have "sz dvd (h + b) - (h + a)"
      using that by (subst mod_eq_dvd_iff_nat[symmetric]) auto
    with that show ?thesis by (auto dest: dvd_imp_le)
  qed
  from le[of j k] le[of k j] assms show ?thesis unfolding cyc_def by (metis nat_le_linear)
qed

lemma next_cell_cyc: "c < sz \<Longrightarrow> next_cell sz c = cyc sz c 1"
  by (auto simp: next_cell_def cyc_def)

lemma hash_position_less: "0 < sz \<Longrightarrow> hash_position key h sz < sz"
  by (simp add: hash_position_def)

lemma probe_SomeI:
  assumes "h < sz" "k < n" "stop (cyc sz h k)" "\<forall>j < k. \<not> stop (cyc sz h j)"
  shows "probe n stop sz h = Some (cyc sz h k)"
  using assms
proof (induction n arbitrary: h k)
  case 0
  then show ?case by simp
next
  case (Suc n)
  show ?case
  proof (cases k)
    case 0
    with Suc.prems show ?thesis by (simp add: cyc_0)
  next
    case (Suc k')
    have "\<not> stop h" using Suc.prems Suc by (metis cyc_0 zero_less_Suc)
    moreover have "probe n stop sz (cyc sz h 1) = Some (cyc sz (cyc sz h 1) k')"
      using Suc.prems Suc by (intro Suc.IH) (auto simp: cyc_cyc cyc_less)
    ultimately show ?thesis
      using Suc Suc.prems(1) by (simp add: next_cell_cyc cyc_cyc)
  qed
qed

lemma probe_SomeD:
  assumes "probe n stop sz h = Some c" "h < sz"
  shows "\<exists>k < n. c = cyc sz h k \<and> stop c \<and> (\<forall>j < k. \<not> stop (cyc sz h j))"
  using assms
proof (induction n arbitrary: h)
  case 0
  then show ?case by simp
next
  case (Suc n)
  show ?case
  proof (cases "stop h")
    case True
    with Suc.prems show ?thesis by (intro exI[of _ 0]) (simp add: cyc_0)
  next
    case False
    with Suc.prems have "probe n stop sz (cyc sz h 1) = Some c" by (simp add: next_cell_cyc)
    from Suc.IH[OF this] Suc.prems(2) obtain k where
      k: "k < n" "c = cyc sz h (1 + k)" "stop c" "\<forall>j < k. \<not> stop (cyc sz h (1 + j))"
      by (auto simp: cyc_cyc cyc_less)
    have "\<not> stop (cyc sz h j)" if "j < Suc k" for j
      using that k(4) False Suc.prems(2) by (cases j) (auto simp: cyc_0)
    with k show ?thesis by (intro exI[of _ "Suc k"]) auto
  qed
qed

lemma cyc_surj:
  assumes "i < sz" "h < sz"
  shows "\<exists>k < sz. cyc sz h k = i"
proof (cases "h \<le> i")
  case True
  with assms show ?thesis by (intro exI[of _ "i - h"]) (simp add: cyc_def)
next
  case False
  with assms show ?thesis by (intro exI[of _ "sz - h + i"]) (simp add: cyc_def)
qed

text \<open>A probe ends when any cell of the table stops it.\<close>

lemma probe_total:
  assumes "h < sz" "i < sz" "stop i"
  shows "\<exists>k < sz. probe sz stop sz h = Some (cyc sz h k) \<and> stop (cyc sz h k) \<and>
    (\<forall>j < k. \<not> stop (cyc sz h j))"
proof -
  obtain k0 where "k0 < sz" "stop (cyc sz h k0)"
    using cyc_surj[OF assms(2,1)] assms(3) by blast
  then obtain k where k: "k < sz" "stop (cyc sz h k)" "\<forall>j < k. \<not> stop (cyc sz h j)"
    using exists_least_iff[of "\<lambda>k. stop (cyc sz h k) \<and> k < sz"] by (meson less_trans)
  with probe_SomeI[OF assms(1)] show ?thesis by blast
qed

section \<open>The occupied cells as a multiset\<close>

definition occ_mset :: "cell list \<Rightarrow> cell multiset" where
  "occ_mset cs = mset (occupied_cells cs)"

lemma occ_mset_Cons [simp]:
  "occ_mset (c # cs) = (if cell_occupied c then add_mset c (occ_mset cs) else occ_mset cs)"
  "occ_mset [] = {#}"
  by (simp_all add: occ_mset_def occupied_cells_def)

lemma occ_mset_append: "occ_mset (cs @ ds) = occ_mset cs + occ_mset ds"
  by (simp add: occ_mset_def occupied_cells_def)

lemma size_occ_mset: "size (occ_mset cs) = length (occupied_cells cs)"
  by (simp add: occ_mset_def)

lemma occ_mset_nth:
  "i < length cs \<Longrightarrow> cell_occupied (cs ! i) \<Longrightarrow> cs ! i \<in># occ_mset cs"
  by (simp add: occ_mset_def occupied_cells_def)

lemma occ_msetD: "c \<in># occ_mset cs \<Longrightarrow> \<exists>i < length cs. cs ! i = c \<and> cell_occupied c"
  by (auto simp: occ_mset_def occupied_cells_def in_set_conv_nth)

lemma occ_mset_update:
  assumes "i < length cs"
  shows "occ_mset (cs[i := c]) + (if cell_occupied (cs ! i) then {#cs ! i#} else {#}) =
         occ_mset cs + (if cell_occupied c then {#c#} else {#})"
proof -
  have cs: "cs = take i cs @ cs ! i # drop (Suc i) cs" using assms by (rule id_take_nth_drop)
  have up: "cs[i := c] = take i cs @ c # drop (Suc i) cs"
    using assms by (rule upd_conv_take_nth_drop)
  show ?thesis
    unfolding up by (subst (3) cs) (simp add: occ_mset_append del: append_take_drop_id)
qed

lemma occ_mset_fill:
  assumes "i < length cs" "\<not> cell_occupied (cs ! i)" "cell_occupied c"
  shows "occ_mset (cs[i := c]) = add_mset c (occ_mset cs)"
  using occ_mset_update[OF assms(1), of c] assms(2,3) by simp

lemma occ_mset_clear:
  assumes "i < length cs" "cell_occupied (cs ! i)"
  shows "occ_mset cs = add_mset (cs ! i) (occ_mset (cs[i := clear_cell (cs ! i)]))"
  using occ_mset_update[OF assms(1), of "clear_cell (cs ! i)"] assms(2)
  by (simp add: clear_cell_def cell_occupied_def)

lemma occ_mset_move:
  assumes "c < length cs" "d < length cs" "cell_occupied (cs ! c)" "\<not> cell_occupied (cs ! d)"
  shows "occ_mset (cs[d := cs ! c, c := clear_cell (cs ! c)]) = occ_mset cs"
proof -
  have ne: "c \<noteq> d" using assms by auto
  let ?cs = "cs[d := cs ! c]"
  have "occ_mset ?cs = add_mset (?cs ! c) (occ_mset (?cs[c := clear_cell (?cs ! c)]))"
    using assms ne by (intro occ_mset_clear) auto
  moreover have "occ_mset ?cs = add_mset (cs ! c) (occ_mset cs)"
    using assms by (intro occ_mset_fill) auto
  ultimately show ?thesis using ne by simp
qed

lemma occ_mset_empty: "occ_mset (replicate n empty_cell) = {#}"
  by (induction n) (simp_all add: empty_cell_def cell_occupied_def INVALID_PTR_def)

lemma empty_cell_exists:
  assumes "size (occ_mset cs) < length cs"
  shows "\<exists>e < length cs. \<not> cell_occupied (cs ! e)"
proof (rule ccontr)
  assume "\<not> ?thesis"
  then have "\<forall>c \<in> set cs. cell_occupied c" by (auto simp: in_set_conv_nth)
  then have "occupied_cells cs = cs" by (simp add: occupied_cells_def)
  with assms show False by (simp add: occ_mset_def)
qed

context key_functions
begin

definition key_class :: "cell \<Rightarrow> u64 set" where
  "key_class c = Collect (test (cell_key c))"

lemma key_class_eq: "key_class c = key_class d \<longleftrightarrow> test (cell_key c) (cell_key d)"
  unfolding key_class_def using test_refl test_sym test_trans by blast

text \<open>Distinctness of keys and the abstract map depend only on the multiset of cells.\<close>

lemma keys_distinct_Cons:
  "keys_distinct test (c # cs) \<longleftrightarrow> keys_distinct test cs \<and>
     (cell_occupied c \<longrightarrow> (\<forall>d \<in># occ_mset cs. \<not> test (cell_key c) (cell_key d)))"
    (is "?L \<longleftrightarrow> ?R")
proof
  assume L: ?L
  have "keys_distinct test cs"
    unfolding keys_distinct_def
  proof (intro allI impI)
    fix i j assume "i < length cs" "j < length cs" "cell_occupied (cs ! i)"
      "cell_occupied (cs ! j)" "test (cell_key (cs ! i)) (cell_key (cs ! j))"
    then have "Suc i = Suc j" using L unfolding keys_distinct_def
      by (metis Suc_less_eq length_Cons nth_Cons_Suc)
    then show "i = j" by simp
  qed
  moreover have "\<not> test (cell_key c) (cell_key d)" if o: "cell_occupied c" and d: "d \<in># occ_mset cs" for d
  proof
    assume t: "test (cell_key c) (cell_key d)"
    obtain j where j: "j < length cs" "cs ! j = d" "cell_occupied d"
      using occ_msetD[OF d] by blast
    have "0 = Suc j"
      using L[unfolded keys_distinct_def, rule_format, of 0 "Suc j"] t o j by simp
    then show False by simp
  qed
  ultimately show ?R by blast
next
  assume R: ?R
  show ?L
    unfolding keys_distinct_def
  proof (intro allI impI)
    fix i j assume ij: "i < length (c # cs)" "j < length (c # cs)"
      "cell_occupied ((c # cs) ! i)" "cell_occupied ((c # cs) ! j)"
      "test (cell_key ((c # cs) ! i)) (cell_key ((c # cs) ! j))"
    show "i = j"
    proof (cases i)
      case 0
      then show ?thesis using ij R occ_mset_nth[of "j - 1" cs] by (cases j) auto
    next
      case (Suc i')
      then show ?thesis
        using ij R occ_mset_nth[of i' cs] test_sym
        by (cases j) (auto simp: keys_distinct_def)
    qed
  qed
qed

lemma keys_distinct_classes:
  "keys_distinct test cs \<longleftrightarrow> distinct (map key_class (occupied_cells cs))"
proof (induction cs)
  case Nil
  then show ?case by (simp add: keys_distinct_def occupied_cells_def)
next
  case (Cons c cs)
  have "key_class c \<in> key_class ` set (occupied_cells cs) \<longleftrightarrow>
      (\<exists>d \<in># occ_mset cs. test (cell_key c) (cell_key d))"
    by (auto simp: occ_mset_def image_iff key_class_eq)
  with Cons show ?case by (auto simp: keys_distinct_Cons occupied_cells_def)
qed

lemma keys_distinct_mset:
  assumes "occ_mset cs = occ_mset ds"
  shows "keys_distinct test cs \<longleftrightarrow> keys_distinct test ds"
proof -
  have "mset (map key_class (occupied_cells cs)) = mset (map key_class (occupied_cells ds))"
    using assms by (simp add: occ_mset_def)
  then show ?thesis unfolding keys_distinct_classes by (rule mset_eq_imp_distinct_iff)
qed

lemma cells_map_Some_iff:
  assumes "keys_distinct test cs"
  shows "cells_map test cs q = Some v \<longleftrightarrow>
    (\<exists>c \<in># occ_mset cs. test q (cell_key c) \<and> cell_value c = v)"
  using assms
proof (induction cs)
  case Nil
  then show ?case by (simp add: cells_map_def)
next
  case (Cons c cs)
  then have IH: "cells_map test cs q = Some v \<longleftrightarrow>
      (\<exists>c \<in># occ_mset cs. test q (cell_key c) \<and> cell_value c = v)"
    by (simp add: keys_distinct_Cons)
  show ?case
  proof (cases "cell_occupied c \<and> test q (cell_key c)")
    case True
    then have "\<not> test q (cell_key d)" if "d \<in># occ_mset cs" for d
      using that Cons.prems test_sym test_trans by (meson keys_distinct_Cons)
    with True show ?thesis by (auto simp: cells_map_def)
  next
    case False
    with IH show ?thesis by (auto simp: cells_map_def)
  qed
qed

lemma cells_map_mset:
  assumes "keys_distinct test cs" "occ_mset cs = occ_mset ds"
  shows "cells_map test cs = cells_map test ds"
proof
  fix q
  have "keys_distinct test ds" using assms keys_distinct_mset by blast
  then have "cells_map test cs q = Some v \<longleftrightarrow> cells_map test ds q = Some v" for v
    using assms by (simp add: cells_map_Some_iff)
  then show "cells_map test cs q = cells_map test ds q" by (metis not_Some_eq)
qed

lemma cells_map_cong: "test q r \<Longrightarrow> cells_map test cs q = cells_map test cs r"
proof (induction cs)
  case (Cons c cs)
  have "test q (cell_key c) \<longleftrightarrow> test r (cell_key c)"
    using Cons.prems test_sym test_trans by blast
  with Cons show ?case by (simp add: cells_map_def)
qed (simp add: cells_map_def)

end

section \<open>Chains under insertion\<close>

abbreviation home :: "(u64 \<Rightarrow> u64) \<Rightarrow> nat \<Rightarrow> cell \<Rightarrow> nat" where
  "home hasher sz c \<equiv> hash_position (cell_key c) hasher sz"

lemma chains_okI:
  assumes "\<And>i. i < sz \<Longrightarrow> cell_occupied (cs ! i) \<Longrightarrow>
    \<exists>k < sz. cyc sz (home h sz (cs ! i)) k = i \<and>
      (\<forall>j < k. cell_occupied (cs ! cyc sz (home h sz (cs ! i)) j))"
  shows "chains_ok h sz cs"
  using assms by (simp add: chains_ok_def)

lemma chains_okD:
  assumes "chains_ok h sz cs" "i < sz" "cell_occupied (cs ! i)"
  obtains k where "k < sz" "cyc sz (home h sz (cs ! i)) k = i"
    "\<forall>j < k. cell_occupied (cs ! cyc sz (home h sz (cs ! i)) j)"
  using assms by (auto simp: chains_ok_def)

text \<open>Writing an occupied cell at the end of its own chain keeps all chains.\<close>

lemma chains_ok_store:
  assumes ok: "chains_ok h sz cs" and len: "length cs = sz" and k: "k < sz"
    and path: "\<forall>j < k. cell_occupied (cs ! cyc sz (home h sz c) j)" and c: "cell_occupied c"
  shows "chains_ok h sz (cs[cyc sz (home h sz c) k := c])"
proof (rule chains_okI)
  fix i assume i: "i < sz"
    and occ: "cell_occupied (cs[cyc sz (home h sz c) k := c] ! i)"
  let ?d = "cyc sz (home h sz c) k"
  have up: "cell_occupied (cs[?d := c] ! m)" if "cell_occupied (cs ! m)" for m
    using that c by (cases "m = ?d"; cases "m < length cs") (auto simp: list_update_beyond)
  show "\<exists>k < sz. cyc sz (home h sz (cs[?d := c] ! i)) k = i \<and>
      (\<forall>j < k. cell_occupied (cs[?d := c] ! cyc sz (home h sz (cs[?d := c] ! i)) j))"
  proof (cases "i = ?d")
    case True
    then have "cs[?d := c] ! i = c" using i len by simp
    with True k path up show ?thesis by auto
  next
    case False
    then have e: "cs[?d := c] ! i = cs ! i" by simp
    with occ i ok obtain m where "m < sz" "cyc sz (home h sz (cs ! i)) m = i"
      "\<forall>j < m. cell_occupied (cs ! cyc sz (home h sz (cs ! i)) j)"
      by (auto elim: chains_okD)
    with e up show ?thesis by auto
  qed
qed

lemma chains_ok_empty: "chains_ok h sz (replicate sz empty_cell)"
  by (rule chains_okI) (simp add: empty_cell_def cell_occupied_def INVALID_PTR_def)

context key_functions
begin

text \<open>Looking a key up: the probe stops at the matching cell, or at an empty one if none matches.\<close>

lemma probe_hit:
  assumes ok: "chains_ok hash sz cs" and dist: "keys_distinct test cs" and len: "length cs = sz"
    and i: "i < sz" "cell_occupied (cs ! i)" "test q (cell_key (cs ! i))"
  shows "probe sz (\<lambda>c. \<not> cell_occupied (cs ! c) \<or> test q (cell_key (cs ! c))) sz
           (hash_position q hash sz) = Some i"
    and "\<exists>k < sz. cyc sz (hash_position q hash sz) k = i \<and>
           (\<forall>j < k. cell_occupied (cs ! cyc sz (hash_position q hash sz) j))"
proof -
  have h: "hash_position (cell_key (cs ! i)) hash sz = hash_position q hash sz"
    using test_hash[OF i(3)] by (simp add: hash_position_def)
  obtain k where k: "k < sz" "cyc sz (hash_position q hash sz) k = i"
    "\<forall>j < k. cell_occupied (cs ! cyc sz (hash_position q hash sz) j)"
    using chains_okD[OF ok i(1,2)] h by metis
  then show "\<exists>k < sz. cyc sz (hash_position q hash sz) k = i \<and>
           (\<forall>j < k. cell_occupied (cs ! cyc sz (hash_position q hash sz) j))" by blast
  have sz: "0 < sz" using i by simp
  have "\<not> test q (cell_key (cs ! cyc sz (hash_position q hash sz) j))" if j: "j < k" for j
  proof
    let ?c = "cyc sz (hash_position q hash sz) j"
    assume "test q (cell_key (cs ! ?c))"
    then have "test (cell_key (cs ! ?c)) (cell_key (cs ! i))"
      using i(3) test_sym test_trans by blast
    then have "?c = i"
      using dist j k i sz len unfolding keys_distinct_def by (simp add: cyc_less)
    with k j show False using cyc_inj[of j sz k "hash_position q hash sz"] by simp
  qed
  with k i show "probe sz (\<lambda>c. \<not> cell_occupied (cs ! c) \<or> test q (cell_key (cs ! c))) sz
           (hash_position q hash sz) = Some i"
    using probe_SomeI[of "hash_position q hash sz" sz k sz
        "\<lambda>c. \<not> cell_occupied (cs ! c) \<or> test q (cell_key (cs ! c))"]
    by (simp add: hash_position_less[OF sz])
qed

lemma probe_miss:
  assumes none: "\<forall>i < sz. cell_occupied (cs ! i) \<longrightarrow> \<not> test q (cell_key (cs ! i))"
    and e: "e < sz" "\<not> cell_occupied (cs ! e)"
  shows "\<exists>k < sz. probe sz (\<lambda>c. \<not> cell_occupied (cs ! c) \<or> test q (cell_key (cs ! c))) sz
            (hash_position q hash sz) = Some (cyc sz (hash_position q hash sz) k) \<and>
          \<not> cell_occupied (cs ! cyc sz (hash_position q hash sz) k) \<and>
          (\<forall>j < k. cell_occupied (cs ! cyc sz (hash_position q hash sz) j))"
proof -
  have sz: "0 < sz" using e by simp
  then have "hash_position q hash sz < sz" by (rule hash_position_less)
  from probe_total[OF this e(1), of "\<lambda>c. \<not> cell_occupied (cs ! c) \<or> test q (cell_key (cs ! c))"] e(2)
  obtain k where k: "k < sz" "probe sz (\<lambda>c. \<not> cell_occupied (cs ! c) \<or> test q (cell_key (cs ! c))) sz
      (hash_position q hash sz) = Some (cyc sz (hash_position q hash sz) k)"
    "\<not> cell_occupied (cs ! cyc sz (hash_position q hash sz) k) \<or>
     test q (cell_key (cs ! cyc sz (hash_position q hash sz) k))"
    "\<forall>j < k. cell_occupied (cs ! cyc sz (hash_position q hash sz) j)"
    by auto
  with none show ?thesis by (meson cyc_less sz)
qed

lemma keys_distinct_store:
  assumes dist: "keys_distinct test cs" and d: "d < length cs" "\<not> cell_occupied (cs ! d)"
    and new: "\<forall>c' \<in># occ_mset cs. \<not> test (cell_key c) (cell_key c')" and c: "cell_occupied c"
  shows "keys_distinct test (cs[d := c])"
proof -
  have "occ_mset (cs[d := c]) = occ_mset (c # cs)"
    using d c by (simp add: occ_mset_fill)
  moreover have "keys_distinct test (c # cs)"
    using dist new by (simp add: keys_distinct_Cons)
  ultimately show ?thesis using keys_distinct_mset by blast
qed

lemma cells_map_store:
  assumes dist: "keys_distinct test cs" and d: "d < length cs" "\<not> cell_occupied (cs ! d)"
    and new: "\<forall>c' \<in># occ_mset cs. \<not> test (cell_key c) (cell_key c')" and c: "cell_occupied c"
  shows "cells_map test (cs[d := c]) =
    (\<lambda>q. if test q (cell_key c) then Some (cell_value c) else cells_map test cs q)"
proof -
  have "keys_distinct test (cs[d := c])" using assms by (rule keys_distinct_store)
  moreover have "occ_mset (cs[d := c]) = occ_mset (c # cs)"
    using d c by (simp add: occ_mset_fill)
  ultimately have "cells_map test (cs[d := c]) = cells_map test (c # cs)"
    by (rule cells_map_mset)
  then show ?thesis using c by (auto simp: cells_map_def fun_eq_iff)
qed

text \<open>Replacing a cell by one with an equal key.\<close>

lemma keys_distinct_replace:
  assumes dist: "keys_distinct test cs" and d: "d < length cs" "cell_occupied (cs ! d)"
    and t: "test (cell_key c) (cell_key (cs ! d))"
  shows "keys_distinct test (cs[d := c])"
  unfolding keys_distinct_def
proof (intro allI impI)
  fix i j assume ij: "i < length (cs[d := c])" "j < length (cs[d := c])"
    "cell_occupied (cs[d := c] ! i)" "cell_occupied (cs[d := c] ! j)"
    "test (cell_key (cs[d := c] ! i)) (cell_key (cs[d := c] ! j))"
  have eq: "test (cell_key (cs[d := c] ! m)) (cell_key (cs ! m))" for m
    using t test_refl d by (cases "m = d") auto
  then have "test (cell_key (cs ! i)) (cell_key (cs ! j))"
    using ij(5) test_sym test_trans by meson
  moreover have "cell_occupied (cs ! m)" if "cell_occupied (cs[d := c] ! m)" for m
    using that d by (cases "m = d") auto
  ultimately show "i = j" using dist ij unfolding keys_distinct_def by simp
qed

lemma cells_map_replace:
  assumes dist: "keys_distinct test cs" and d: "d < length cs" "cell_occupied (cs ! d)"
    and t: "test (cell_key c) (cell_key (cs ! d))" and c: "cell_occupied c"
  shows "cells_map test (cs[d := c]) =
    (\<lambda>q. if test q (cell_key c) then Some (cell_value c) else cells_map test cs q)"
proof -
  let ?e = "cs[d := clear_cell (cs ! d)]"
  have len: "d < length ?e" and un: "\<not> cell_occupied (?e ! d)"
    using d by (simp_all add: clear_cell_def cell_occupied_def)
  have cs: "occ_mset cs = occ_mset (cs ! d # ?e)" using occ_mset_clear[OF d] d(2) by simp
  then have de: "keys_distinct test (cs ! d # ?e)" using dist keys_distinct_mset by blast
  then have ne: "\<forall>c' \<in># occ_mset ?e. \<not> test (cell_key (cs ! d)) (cell_key c')"
    and dist': "keys_distinct test ?e" using d(2) by (auto simp: keys_distinct_Cons)
  have new: "\<forall>c' \<in># occ_mset ?e. \<not> test (cell_key c) (cell_key c')"
    using ne t test_sym test_trans by blast
  have "cells_map test (?e[d := c]) =
      (\<lambda>q. if test q (cell_key c) then Some (cell_value c) else cells_map test ?e q)"
    using cells_map_store[OF dist' len un new c] .
  moreover have "cells_map test cs q = cells_map test ?e q" if "\<not> test q (cell_key c)" for q
  proof -
    have "\<not> test q (cell_key (cs ! d))" using that t test_sym test_trans by blast
    then show ?thesis using cells_map_mset[OF dist cs] by (simp add: cells_map_def)
  qed
  ultimately show ?thesis by auto
qed

end

section \<open>Growing\<close>

lemma rehash_into_ok:
  assumes "length new = sz" "chains_ok h sz new" "size (occ_mset old) + size (occ_mset new) < sz"
  shows "\<exists>cs. rehash_into h sz old new = Some cs \<and> length cs = sz \<and> chains_ok h sz cs \<and>
    occ_mset cs = occ_mset old + occ_mset new"
  using assms
proof (induction old arbitrary: new)
  case Nil
  then show ?case by simp
next
  case (Cons c old)
  show ?case
  proof (cases "cell_occupied c")
    case False
    with Cons show ?thesis by simp
  next
    case True
    have sz: "0 < sz" using Cons.prems by simp
    have hp: "home h sz c < sz" using sz by (rule hash_position_less)
    obtain e where e: "e < sz" "\<not> cell_occupied (new ! e)"
      using empty_cell_exists[of new] Cons.prems by auto
    from probe_total[OF hp e(1), of "\<lambda>d. \<not> cell_occupied (new ! d)"] e(2) obtain k where
      k: "k < sz" "probe sz (\<lambda>d. \<not> cell_occupied (new ! d)) sz (home h sz c) = Some (cyc sz (home h sz c) k)"
      "\<not> cell_occupied (new ! cyc sz (home h sz c) k)"
      "\<forall>j < k. cell_occupied (new ! cyc sz (home h sz c) j)" by auto
    let ?new = "new[cyc sz (home h sz c) k := c]"
    have ok: "chains_ok h sz ?new"
      using Cons.prems k True by (intro chains_ok_store) auto
    have oc: "occ_mset ?new = add_mset c (occ_mset new)"
      using Cons.prems(1) k(3) True sz by (intro occ_mset_fill) (auto simp: cyc_less)
    have "\<exists>cs. rehash_into h sz old ?new = Some cs \<and> length cs = sz \<and> chains_ok h sz cs \<and>
        occ_mset cs = occ_mset old + occ_mset ?new"
      using Cons.prems ok oc True by (intro Cons.IH) auto
    with k(2) True oc show ?thesis by auto
  qed
qed

lemma prime_search_Some:
  assumes "\<exists>p \<in> set ps. sz \<le> p"
  shows "\<exists>j < length ps. prime_search ps i sz = Some (ps ! j, i + j + 1) \<and> sz \<le> ps ! j"
  using assms
proof (induction ps arbitrary: i)
  case (Cons p ps)
  show ?case
  proof (cases "sz \<le> p")
    case True
    then show ?thesis by (intro exI[of _ 0]) simp
  next
    case False
    with Cons.prems have "\<exists>p \<in> set ps. sz \<le> p" by auto
    from Cons.IH[OF this, of "i + 1"] False show ?thesis by auto
  qed
qed simp

text \<open>The prime table grows past twice any of its entries below \<open>2^30\<close>.\<close>

lemma primes_length: "length primes = 71"
  by (simp add: primes_def)

lemma primes_last: "primes ! 70 = 2147483647"
  by (simp add: primes_def)

lemma primes_ge: "i < length primes \<Longrightarrow> 13 \<le> primes ! i"
proof -
  have "\<forall>p \<in> set primes. 13 \<le> p" by (simp add: primes_def)
  then show "i < length primes \<Longrightarrow> 13 \<le> primes ! i" by simp
qed

lemma prime_size_ok:
  assumes "offset < length primes" "sz \<le> 2147483647"
  shows "\<exists>p offset'. prime_size sz offset = Inr (p, offset') \<and> sz \<le> p \<and> 0 < offset' \<and>
    offset' \<le> length primes \<and> p = primes ! (offset' - 1)"
proof -
  have "drop offset primes ! (70 - offset) = 2147483647"
    using assms(1) by (simp add: primes_length primes_last)
  moreover have "70 - offset < length (drop offset primes)"
    using assms(1) by (simp add: primes_length)
  ultimately have "2147483647 \<in> set (drop offset primes)" by (metis nth_mem)
  then obtain j where j: "j < length (drop offset primes)"
    "prime_search (drop offset primes) offset sz = Some (drop offset primes ! j, offset + j + 1)"
    "sz \<le> drop offset primes ! j"
    using prime_search_Some[of "drop offset primes" sz offset] assms(2) by blast
  then show ?thesis using assms(1) by (auto simp: prime_size_def)
qed

section \<open>The operations on the abstract map\<close>

lemma ht_sized_update [simp]:
  "ht_sized (ht\<lparr>cells := cs\<rparr>) = ht_sized ht"
  "ht_sized (ht\<lparr>ht_count := n\<rparr>) = ht_sized ht"
  by (simp_all add: ht_sized_def)

lemma ht_invar_size:
  assumes "ht_invar ht"
  shows "13 \<le> ht_size ht" and "ht_count ht < ht_size ht"
    and "\<exists>e < ht_size ht. \<not> cell_occupied (cells ht ! e)"
proof -
  have "ht_sized ht" using assms by (simp add: ht_invar_def)
  then show 13: "13 \<le> ht_size ht"
    using primes_ge[of "prime_offset ht - 1"] by (auto simp: ht_sized_def)
  have "ht_count ht \<le> ht_size ht * 3 div 4" using assms by (auto simp: ht_invar_def)
  with 13 show lt: "ht_count ht < ht_size ht" by linarith
  then show "\<exists>e < ht_size ht. \<not> cell_occupied (cells ht ! e)"
    using empty_cell_exists[of "cells ht"] assms by (simp add: ht_invar_def size_occ_mset)
qed

context key_functions
begin

lemma find_cell_cases:
  assumes inv: "ht_invar ht" and fns: "hash_function ht = hash" "test_function ht = test"
  obtains
    (hit) c where "find_cell ht q = Some c" "c < ht_size ht" "cell_occupied (cells ht ! c)"
      "test q (cell_key (cells ht ! c))" "ht_map ht q = Some (cell_value (cells ht ! c))"
      "\<exists>k < ht_size ht. cyc (ht_size ht) (hash_position q hash (ht_size ht)) k = c \<and>
        (\<forall>j < k. cell_occupied (cells ht ! cyc (ht_size ht) (hash_position q hash (ht_size ht)) j))"
  | (miss) c k where "find_cell ht q = Some c" "c < ht_size ht" "\<not> cell_occupied (cells ht ! c)"
      "ht_map ht q = None" "k < ht_size ht"
      "c = cyc (ht_size ht) (hash_position q hash (ht_size ht)) k"
      "\<forall>j < k. cell_occupied (cells ht ! cyc (ht_size ht) (hash_position q hash (ht_size ht)) j)"
      "\<forall>c' \<in># occ_mset (cells ht). \<not> test q (cell_key c')"
proof -
  note i = inv[unfolded ht_invar_def fns]
  have m: "ht_map ht q = Some v \<longleftrightarrow>
      (\<exists>c \<in># occ_mset (cells ht). test q (cell_key c) \<and> cell_value c = v)" for v
    unfolding ht_map_def fns using i by (intro cells_map_Some_iff) simp
  show thesis
  proof (cases "\<exists>c < ht_size ht. cell_occupied (cells ht ! c) \<and> test q (cell_key (cells ht ! c))")
    case True
    then obtain c where c: "c < ht_size ht" "cell_occupied (cells ht ! c)"
      "test q (cell_key (cells ht ! c))" by blast
    note p = probe_hit[of "ht_size ht" "cells ht" c q] i c
    have "find_cell ht q = Some c" using p by (simp add: find_cell_def fns)
    moreover have "ht_map ht q = Some (cell_value (cells ht ! c))"
      unfolding m using c i occ_mset_nth[of c "cells ht"] by auto
    ultimately show ?thesis using c p by (intro hit) auto
  next
    case False
    then have none: "\<forall>c < ht_size ht. cell_occupied (cells ht ! c) \<longrightarrow>
        \<not> test q (cell_key (cells ht ! c))" by blast
    obtain e where "e < ht_size ht" "\<not> cell_occupied (cells ht ! e)"
      using ht_invar_size(3)[OF inv] by blast
    from probe_miss[OF none this] obtain k where k: "k < ht_size ht"
      "find_cell ht q = Some (cyc (ht_size ht) (hash_position q hash (ht_size ht)) k)"
      "\<not> cell_occupied (cells ht ! cyc (ht_size ht) (hash_position q hash (ht_size ht)) k)"
      "\<forall>j < k. cell_occupied (cells ht ! cyc (ht_size ht) (hash_position q hash (ht_size ht)) j)"
      by (auto simp: find_cell_def fns)
    have no: "\<forall>c' \<in># occ_mset (cells ht). \<not> test q (cell_key c')"
      using none i by (auto dest: occ_msetD)
    then have "ht_map ht q = None" using m by (metis not_Some_eq)
    with k no show ?thesis by (intro miss) (auto simp: cyc_less)
  qed
qed

lemma hash_table_get_eq:
  assumes "ht_invar ht" "hash_function ht = hash" "test_function ht = test"
  shows "hash_table_get ht q = Some (case ht_map ht q of None \<Rightarrow> 0 | Some v \<Rightarrow> v)"
  using assms by (cases rule: find_cell_cases[of ht q]) (auto simp: hash_table_get_def)

lemma hash_table_contains_eq:
  assumes "ht_invar ht" "hash_function ht = hash" "test_function ht = test"
  shows "hash_table_contains ht q = Some (ht_map ht q \<noteq> None)"
  using assms by (cases rule: find_cell_cases[of ht q]) (auto simp: hash_table_contains_def)

lemma grow_hash_table_ok:
  assumes inv: "ht_invar ht" and fns: "hash_function ht = hash" "test_function ht = test"
    and small: "ht_size ht < 2 ^ 30"
  shows "\<exists>ht'. grow_hash_table ht = Inr ht' \<and> ht_invar ht' \<and> ht_map ht' = ht_map ht \<and>
    hash_function ht' = hash \<and> test_function ht' = test \<and> ht_count ht' = ht_count ht \<and>
    ht_count ht' < resize_threshold ht'"
proof -
  note i = inv[unfolded ht_invar_def fns]
  have "prime_offset ht \<noteq> 71"
    using i small primes_last by (auto simp: ht_sized_def)
  then have "prime_offset ht < length primes"
    using i by (simp add: primes_length ht_sized_def)
  then obtain p off where p: "prime_size (ht_size ht * 2) (prime_offset ht) = Inr (p, off)"
    "ht_size ht * 2 \<le> p" "0 < off" "off \<le> length primes" "p = primes ! (off - 1)"
    using prime_size_ok[of "prime_offset ht" "ht_size ht * 2"] small by auto
  have 13: "13 \<le> ht_size ht" and cnt: "size (occ_mset (cells ht)) = ht_count ht"
    using ht_invar_size[OF inv] i by (simp_all add: size_occ_mset)
  have th: "ht_count ht < p * 3 div 4" "ht_count ht < p"
    using i p(2) 13 by auto
  obtain cs where cs: "rehash_into hash p (cells ht) (replicate p empty_cell) = Some cs"
    "length cs = p" "chains_ok hash p cs" "occ_mset cs = occ_mset (cells ht)"
    using rehash_into_ok[of "replicate p empty_cell" p hash "cells ht"] th cnt
    by (auto simp: chains_ok_empty occ_mset_empty)
  let ?ht = "ht\<lparr>cells := cs, ht_size := p, resize_threshold := p * 3 div 4, prime_offset := off\<rparr>"
  have g: "grow_hash_table ht = Inr ?ht"
    using small p(1) cs(1) by (simp add: grow_hash_table_def fns)
  have kd: "keys_distinct test cs" using i cs(4) keys_distinct_mset by blast
  have "length (occupied_cells cs) = ht_count ht" using cs(4) cnt size_occ_mset by metis
  then have "ht_invar ?ht"
    using i p cs kd th by (simp add: ht_invar_def ht_sized_def fns)
  moreover have "ht_map ?ht = ht_map ht"
    unfolding ht_map_def using cells_map_mset[OF kd cs(4)] by (simp add: fns)
  ultimately show ?thesis using g th by (auto simp: fns)
qed

text \<open>Storing a new key in the cell that the probe found, with room to spare.\<close>

lemma store_new_ok:
  assumes inv: "ht_invar ht" and fns: "hash_function ht = hash" "test_function ht = test"
    and room: "ht_count ht < resize_threshold ht" and key: "key \<noteq> INVALID_PTR"
    and none: "ht_map ht key = None"
  shows "\<exists>c. find_cell ht key = Some c \<and> \<not> cell_occupied (cells ht ! c) \<and>
    (let ht' = store_cell (ht\<lparr>ht_count := ht_count ht + 1\<rparr>) c key v
     in ht_invar ht' \<and> hash_function ht' = hash \<and> test_function ht' = test \<and>
        ht_count ht' = ht_count ht + 1 \<and>
        ht_map ht' = (\<lambda>q. if test q key then Some v else ht_map ht q))"
  using inv fns
proof (cases rule: find_cell_cases[of ht key])
  case (hit c)
  with none show ?thesis by simp
next
  case (miss c k)
  note i = inv[unfolded ht_invar_def fns]
  let ?cell = "\<lparr>cell_key = key, cell_value = v\<rparr>"
  let ?cs = "(cells ht)[c := ?cell]"
  have occ: "cell_occupied ?cell" using key by (simp add: cell_occupied_def)
  have "chains_ok hash (ht_size ht) ?cs"
    using chains_ok_store[of hash "ht_size ht" "cells ht" k ?cell] i miss occ by simp
  moreover have "keys_distinct test ?cs"
    using i miss occ by (intro keys_distinct_store) auto
  moreover have "length (occupied_cells ?cs) = Suc (ht_count ht)"
    using occ_mset_fill[of c "cells ht" ?cell] i miss occ size_occ_mset by (metis size_add_mset)
  moreover have "cells_map test ?cs = (\<lambda>q. if test q key then Some v else cells_map test (cells ht) q)"
    using cells_map_store[of "cells ht" c ?cell] i miss occ by (simp cong: if_cong)
  ultimately show ?thesis
    using miss i room by (simp add: store_cell_def ht_invar_def ht_map_def fns cong: if_cong)
qed

lemma hash_table_put_ok:
  assumes inv: "ht_invar ht" and fns: "hash_function ht = hash" "test_function ht = test"
    and small: "ht_size ht < 2 ^ 30" and key: "key \<noteq> INVALID_PTR"
  shows "\<exists>ht'. hash_table_put ht key v = Inr ht' \<and> ht_invar ht' \<and>
    hash_function ht' = hash \<and> test_function ht' = test \<and>
    ht_count ht' = ht_count ht + (if ht_map ht key = None then 1 else 0) \<and>
    ht_map ht' = (\<lambda>q. if test q key then Some v else ht_map ht q)"
  using inv fns
proof (cases rule: find_cell_cases[of ht key])
  case (hit c)
  note i = inv[unfolded ht_invar_def fns]
  let ?cell = "\<lparr>cell_key = key, cell_value = v\<rparr>"
  let ?cs = "(cells ht)[c := ?cell]"
  have occ: "cell_occupied ?cell" using key by (simp add: cell_occupied_def)
  obtain k where "k < ht_size ht" "cyc (ht_size ht) (hash_position key hash (ht_size ht)) k = c"
    "\<forall>j < k. cell_occupied (cells ht ! cyc (ht_size ht) (hash_position key hash (ht_size ht)) j)"
    using hit(6) by blast
  then have "chains_ok hash (ht_size ht) ?cs"
    using chains_ok_store[of hash "ht_size ht" "cells ht" k ?cell] i occ by simp
  moreover have "keys_distinct test ?cs"
    using i hit by (intro keys_distinct_replace) auto
  moreover have "length (occupied_cells ?cs) = ht_count ht"
    using arg_cong[OF occ_mset_update[of c "cells ht" ?cell], of size] i hit occ
    by (simp add: size_occ_mset)
  moreover have "cells_map test ?cs = (\<lambda>q. if test q key then Some v else cells_map test (cells ht) q)"
    using cells_map_replace[of "cells ht" c ?cell] i hit occ by (simp cong: if_cong)
  ultimately show ?thesis
    using hit i by (simp add: hash_table_put_def store_cell_def ht_invar_def ht_map_def fns cong: if_cong)
next
  case (miss c k)
  show ?thesis
  proof (cases "resize_threshold ht \<le> ht_count ht")
    case False
    with store_new_ok[OF inv fns _ key miss(4), of v] miss show ?thesis
      by (auto simp: hash_table_put_def Let_def)
  next
    case True
    obtain ht1 where g: "grow_hash_table ht = Inr ht1" "ht_invar ht1" "ht_map ht1 = ht_map ht"
      "hash_function ht1 = hash" "test_function ht1 = test" "ht_count ht1 = ht_count ht"
      "ht_count ht1 < resize_threshold ht1"
      using grow_hash_table_ok[OF inv fns small] by blast
    have "ht_map ht1 key = None" using g(3) miss(4) by simp
    from store_new_ok[OF g(2,4,5,7) key this, of v] obtain c' where
      c': "find_cell ht1 key = Some c'" and
      st: "let ht' = store_cell (ht1\<lparr>ht_count := ht_count ht1 + 1\<rparr>) c' key v
        in ht_invar ht' \<and> hash_function ht' = hash \<and> test_function ht' = test \<and>
        ht_count ht' = ht_count ht1 + 1 \<and>
        ht_map ht' = (\<lambda>q. if test q key then Some v else ht_map ht1 q)" by blast
    have "hash_table_put ht key v =
        Inr (store_cell (ht1\<lparr>ht_count := ht_count ht1 + 1\<rparr>) c' key v)"
      by (simp add: hash_table_put_def miss(1,3) True g(1) c')
    with st g(3,6) miss(4) show ?thesis by (simp add: Let_def cong: if_cong)
  qed
qed

end

section \<open>Removal\<close>

text \<open>
  The deletion loop is verified in linear coordinates. Let \<open>e\<close> be an empty cell. Coordinate
  \<open>x\<close> is the cell \<open>x + 1\<close> steps after \<open>e\<close>, so \<open>e\<close> itself has coordinate \<open>sz - 1\<close>, and no chain of
  occupied cells crosses the end of the coordinate range: a chain from home \<open>h\<close> to cell \<open>x\<close>
  is the interval of coordinates between them.
\<close>

definition lin :: "nat \<Rightarrow> nat \<Rightarrow> nat \<Rightarrow> nat" where
  "lin sz e x = cyc sz (Suc e) x"

definition coord :: "nat \<Rightarrow> nat \<Rightarrow> nat \<Rightarrow> nat" where
  "coord sz e i = (if i \<le> e then i + sz - Suc e else i - Suc e)"

lemma lin_less: "0 < sz \<Longrightarrow> lin sz e x < sz"
  by (simp add: lin_def cyc_less)

lemma coord_less: "i < sz \<Longrightarrow> e < sz \<Longrightarrow> coord sz e i < sz"
  by (auto simp: coord_def)

lemma lin_coord: "i < sz \<Longrightarrow> e < sz \<Longrightarrow> lin sz e (coord sz e i) = i"
  by (auto simp: lin_def coord_def cyc_def)

lemma lin_inj: "x < sz \<Longrightarrow> y < sz \<Longrightarrow> lin sz e x = lin sz e y \<Longrightarrow> x = y"
  unfolding lin_def by (rule cyc_inj)

lemma coord_lin: "x < sz \<Longrightarrow> e < sz \<Longrightarrow> coord sz e (lin sz e x) = x"
  by (rule lin_inj[of _ sz _ e]) (simp_all add: coord_less lin_less lin_coord)

lemma lin_last: "e < sz \<Longrightarrow> lin sz e (sz - 1) = e"
  by (simp add: lin_def cyc_def)

lemma cyc_lin: "cyc sz (lin sz e x) k = lin sz e (x + k)"
  by (simp add: lin_def cyc_cyc)

lemma next_cell_lin: "0 < sz \<Longrightarrow> next_cell sz (lin sz e x) = lin sz e (Suc x)"
  by (simp add: next_cell_cyc lin_less cyc_lin)

lemma cyc_from: "i < sz \<Longrightarrow> e < sz \<Longrightarrow> cyc sz i k = lin sz e (coord sz e i + k)"
  using cyc_lin[of sz e "coord sz e i" k] by (simp add: lin_coord)

text \<open>
  The invariant of the loop at coordinate \<open>c\<close>, after the cell at \<open>r\<close> was cleared: chains are
  intervals of occupied cells, but for cells from \<open>c\<close> on they may have holes in \<open>[r, c)\<close>.
\<close>

definition lin_ok :: "(u64 \<Rightarrow> u64) \<Rightarrow> nat \<Rightarrow> nat \<Rightarrow> nat \<Rightarrow> nat \<Rightarrow> cell list \<Rightarrow> bool" where
  "lin_ok h sz e r c cs \<longleftrightarrow>
     (\<forall>x < sz. cell_occupied (cs ! lin sz e x) \<longrightarrow>
        coord sz e (home h sz (cs ! lin sz e x)) \<le> x \<and>
        (\<forall>y. coord sz e (home h sz (cs ! lin sz e x)) \<le> y \<and> y < x \<longrightarrow>
           cell_occupied (cs ! lin sz e y) \<or> c \<le> x \<and> r \<le> y \<and> y < c))"

lemma lin_ok_chains:
  assumes ok: "chains_ok h sz cs" and e: "e < sz" "\<not> cell_occupied (cs ! e)"
  shows "lin_ok h sz e r 0 cs"
  unfolding lin_ok_def
proof (intro allI impI)
  fix x assume x: "x < sz" "cell_occupied (cs ! lin sz e x)"
  have sz: "0 < sz" using x by simp
  let ?h = "home h sz (cs ! lin sz e x)" and ?hx = "coord sz e (home h sz (cs ! lin sz e x))"
  obtain k where k: "k < sz" "cyc sz ?h k = lin sz e x" "\<forall>j < k. cell_occupied (cs ! cyc sz ?h j)"
    using chains_okD[OF ok lin_less[OF sz] x(2)] by metis
  have h: "?h < sz" and hx: "?hx < sz"
    using sz e by (simp_all add: hash_position_less coord_less)
  have occ: "cell_occupied (cs ! lin sz e (?hx + j))" if "j < k" for j
    using that k(3) cyc_from[OF h e(1)] by simp
  have "?hx + k < sz"
  proof (rule ccontr)
    assume "\<not> ?hx + k < sz"
    then have "sz - 1 - ?hx < k" using hx by linarith
    from occ[OF this] have "cell_occupied (cs ! lin sz e (sz - 1))" using hx by simp
    then show False using lin_last[OF e(1)] e(2) by simp
  qed
  moreover have "lin sz e (?hx + k) = lin sz e x" using k(2) cyc_from[OF h e(1)] by simp
  ultimately have xk: "?hx + k = x" using x(1) by (metis lin_inj)
  show "?hx \<le> x \<and> (\<forall>y. ?hx \<le> y \<and> y < x \<longrightarrow>
      cell_occupied (cs ! lin sz e y) \<or> 0 \<le> x \<and> r \<le> y \<and> y < 0)"
  proof (intro conjI allI impI disjI1)
    show "?hx \<le> x" using xk by linarith
  next
    fix y assume "?hx \<le> y \<and> y < x"
    then have "cell_occupied (cs ! lin sz e (?hx + (y - ?hx)))" using xk by (intro occ) linarith
    with \<open>?hx \<le> y \<and> y < x\<close> show "cell_occupied (cs ! lin sz e y)" by simp
  qed
qed

lemma chains_lin_ok:
  assumes ok: "lin_ok h sz e r c cs" and e: "e < sz"
    and c: "c < sz" "\<not> cell_occupied (cs ! lin sz e c)"
  shows "chains_ok h sz cs"
proof (rule chains_okI)
  fix i assume i: "i < sz" "cell_occupied (cs ! i)"
  let ?h = "home h sz (cs ! i)"
  have sz: "0 < sz" using i by simp
  define x where "x = coord sz e i"
  have x: "x < sz" "lin sz e x = i" using i e by (simp_all add: x_def coord_less lin_coord)
  have h: "?h < sz" using sz by (rule hash_position_less)
  define hx where "hx = coord sz e ?h"
  have hx: "hx \<le> x" and hole: "hx \<le> y \<Longrightarrow> y < x \<Longrightarrow>
      cell_occupied (cs ! lin sz e y) \<or> c \<le> x \<and> r \<le> y \<and> y < c" for y
    using ok[unfolded lin_ok_def, rule_format, of x] x i by (auto simp: hx_def)
  have occ: "cell_occupied (cs ! lin sz e y)" if y: "hx \<le> y" "y < x" for y
  proof (rule ccontr)
    assume "\<not> cell_occupied (cs ! lin sz e y)"
    with hole[OF y] have "c \<le> x" "y < c" by auto
    moreover have "c \<noteq> x" using c x i by auto
    ultimately have "cell_occupied (cs ! lin sz e c) \<or> c < c" using hole[of c] y by auto
    with c show False by simp
  qed
  show "\<exists>k < sz. cyc sz ?h k = i \<and> (\<forall>j < k. cell_occupied (cs ! cyc sz ?h j))"
  proof (intro exI[of _ "x - hx"] conjI allI impI)
    show "x - hx < sz" using x by linarith
    show "cyc sz ?h (x - hx) = i" using cyc_from[OF h e, folded hx_def] hx x by simp
    fix j assume "j < x - hx"
    then show "cell_occupied (cs ! cyc sz ?h j)"
      using cyc_from[OF h e, folded hx_def] occ[of "hx + j"] by simp
  qed
qed

lemma lin_ok_clear:
  assumes ok: "lin_ok h sz e r 0 cs" and len: "length cs = sz" and r: "r < sz"
  shows "lin_ok h sz e r (Suc r) (cs[lin sz e r := clear_cell (cs ! lin sz e r)])"
  unfolding lin_ok_def
proof (intro allI impI)
  let ?cs = "cs[lin sz e r := clear_cell (cs ! lin sz e r)]"
  have sz: "0 < sz" using r by simp
  fix x assume x: "x < sz" "cell_occupied (?cs ! lin sz e x)"
  have ne: "x \<noteq> r" using x len lin_less[OF sz, of e r]
    by (auto simp: clear_cell_def cell_occupied_def)
  have nth: "?cs ! lin sz e y = cs ! lin sz e y" if "y \<noteq> r" "y < sz" for y
    using that r lin_inj[of y sz r e] by (subst nth_list_update_neq) auto
  have "cell_occupied (cs ! lin sz e x)" using x nth ne by simp
  with ok[unfolded lin_ok_def, rule_format, OF x(1)]
  have hx: "coord sz e (home h sz (cs ! lin sz e x)) \<le> x"
    "\<And>y. coord sz e (home h sz (cs ! lin sz e x)) \<le> y \<Longrightarrow> y < x \<Longrightarrow>
       cell_occupied (cs ! lin sz e y)" by auto
  show "coord sz e (home h sz (?cs ! lin sz e x)) \<le> x \<and>
      (\<forall>y. coord sz e (home h sz (?cs ! lin sz e x)) \<le> y \<and> y < x \<longrightarrow>
         cell_occupied (?cs ! lin sz e y) \<or> Suc r \<le> x \<and> r \<le> y \<and> y < Suc r)"
    unfolding nth[OF ne x(1)]
  proof (intro conjI allI impI)
    fix y assume y: "coord sz e (home h sz (cs ! lin sz e x)) \<le> y \<and> y < x"
    show "cell_occupied (?cs ! lin sz e y) \<or> Suc r \<le> x \<and> r \<le> y \<and> y < Suc r"
    proof (cases "y = r")
      case True
      with y show ?thesis by simp
    next
      case False
      with y hx(2) nth[of y] x(1) show ?thesis by auto
    qed
  qed (rule hx(1))
qed

lemma lin_ok_skip:
  assumes ok: "lin_ok h sz e r c cs" and r: "r \<le> c"
    and full: "\<forall>y. coord sz e (home h sz (cs ! lin sz e c)) \<le> y \<and> y < c \<longrightarrow>
      cell_occupied (cs ! lin sz e y)"
  shows "lin_ok h sz e r (Suc c) cs"
  unfolding lin_ok_def
proof (intro allI impI)
  fix x assume x: "x < sz" "cell_occupied (cs ! lin sz e x)"
  note o = ok[unfolded lin_ok_def, rule_format, OF x]
  show "coord sz e (home h sz (cs ! lin sz e x)) \<le> x \<and>
      (\<forall>y. coord sz e (home h sz (cs ! lin sz e x)) \<le> y \<and> y < x \<longrightarrow>
         cell_occupied (cs ! lin sz e y) \<or> Suc c \<le> x \<and> r \<le> y \<and> y < Suc c)"
    using o full by (cases "x = c") (auto simp: less_Suc_eq)
qed

lemma lin_ok_move:
  assumes ok: "lin_ok h sz e r c cs" and len: "length cs = sz" and c: "r < c" "c < sz"
    and occ: "cell_occupied (cs ! lin sz e c)" and d: "d < c"
    and hd: "coord sz e (home h sz (cs ! lin sz e c)) \<le> d"
    and hole: "\<not> cell_occupied (cs ! lin sz e d)"
    and path: "\<forall>y. coord sz e (home h sz (cs ! lin sz e c)) \<le> y \<and> y < d \<longrightarrow>
      cell_occupied (cs ! lin sz e y)"
  shows "lin_ok h sz e r (Suc c)
    (cs[lin sz e d := cs ! lin sz e c, lin sz e c := clear_cell (cs ! lin sz e c)])"
  unfolding lin_ok_def
proof (intro allI impI)
  let ?cs = "cs[lin sz e d := cs ! lin sz e c, lin sz e c := clear_cell (cs ! lin sz e c)]"
  have sz: "0 < sz" using c by simp
  have nth: "?cs ! lin sz e y =
      (if y = c then clear_cell (cs ! lin sz e c) else if y = d then cs ! lin sz e c
       else cs ! lin sz e y)" if "y < sz" for y
  proof -
    have eq: "lin sz e z = lin sz e y \<longleftrightarrow> z = y" if "z < sz" for z
      using lin_inj[OF that \<open>y < sz\<close>] by blast
    have "lin sz e c = lin sz e y \<longleftrightarrow> y = c" "lin sz e d = lin sz e y \<longleftrightarrow> y = d"
      using eq[of c] eq[of d] c d by auto
    then show ?thesis using len lin_less[OF sz] by (simp add: nth_list_update)
  qed
  have emp: "\<not> cell_occupied (clear_cell (cs ! lin sz e c))"
    by (simp add: clear_cell_def cell_occupied_def)
  have up: "cell_occupied (?cs ! lin sz e y)" if "cell_occupied (cs ! lin sz e y)" "y \<noteq> c" "y < sz" for y
    using that nth hole by auto
  fix x assume x: "x < sz" "cell_occupied (?cs ! lin sz e x)"
  then have xc: "x \<noteq> c" using nth emp by auto
  let ?hx = "coord sz e (home h sz (?cs ! lin sz e x))"
  show "?hx \<le> x \<and> (\<forall>y. ?hx \<le> y \<and> y < x \<longrightarrow>
      cell_occupied (?cs ! lin sz e y) \<or> Suc c \<le> x \<and> r \<le> y \<and> y < Suc c)"
  proof (cases "x = d")
    case True
    then have "?cs ! lin sz e x = cs ! lin sz e c" using nth x xc by simp
    then show ?thesis using True hd path up d c by auto
  next
    case False
    then have xs: "?cs ! lin sz e x = cs ! lin sz e x" using nth x xc by simp
    have o: "?hx \<le> x" "\<And>y. ?hx \<le> y \<Longrightarrow> y < x \<Longrightarrow>
        cell_occupied (cs ! lin sz e y) \<or> c \<le> x \<and> r \<le> y \<and> y < c"
      using ok[unfolded lin_ok_def, rule_format, OF x(1)] x(2) unfolding xs by auto
    show ?thesis
    proof (intro conjI allI impI)
      fix y assume y: "?hx \<le> y \<and> y < x"
      then show "cell_occupied (?cs ! lin sz e y) \<or> Suc c \<le> x \<and> r \<le> y \<and> y < Suc c"
        using o(2)[of y] up[of y] x xc c by (cases "y = c") auto
    qed (rule o(1))
  qed
qed

lemma key_functions_eq: "key_functions h (=)"
  by unfold_locales auto

text \<open>
  The loop ends within the remaining coordinates, restores the chains and keeps exactly
  the cells of the table.
\<close>

lemma rehash_following_ok:
  assumes "lin_ok h sz e r c cs" "length cs = sz" "e < sz" "\<not> cell_occupied (cs ! e)"
    "r < c" "c < sz" "keys_distinct (=) cs" "sz - c \<le> n"
  shows "\<exists>cs'. rehash_following n h sz cs (lin sz e c) = Some cs' \<and> length cs' = sz \<and>
    chains_ok h sz cs' \<and> occ_mset cs' = occ_mset cs"
  using assms
proof (induction n arbitrary: c cs)
  case 0
  then show ?case by simp
next
  case (Suc n)
  note ok = Suc.prems(1) and len = Suc.prems(2) and e = Suc.prems(3,4) and c = Suc.prems(5,6)
    and dist = Suc.prems(7)
  have sz: "0 < sz" using c by simp
  show ?case
  proof (cases "cell_occupied (cs ! lin sz e c)")
    case False
    with chains_lin_ok[OF ok e(1) c(2)] len show ?thesis by simp
  next
    case True
    let ?key = "cell_key (cs ! lin sz e c)"
    let ?stop = "\<lambda>d. \<not> cell_occupied (cs ! d) \<or> ?key = cell_key (cs ! d)"
    let ?h = "home h sz (cs ! lin sz e c)"
    define hx where "hx = coord sz e ?h"
    have h: "?h < sz" using sz by (rule hash_position_less)
    have hxc: "hx \<le> c" using ok[unfolded lin_ok_def, rule_format, OF c(2) True] by (simp add: hx_def)
    have c1: "Suc c < sz"
      using True e lin_last[OF e(1)] c(2) by (metis Suc_lessI diff_Suc_1)
    obtain k where k: "?stop (lin sz e (hx + k))" "\<forall>j < k. \<not> ?stop (lin sz e (hx + j))" "hx + k \<le> c"
    proof -
      have "?stop (lin sz e (hx + (c - hx)))" using hxc by simp
      with exists_least_iff[of "\<lambda>k. ?stop (lin sz e (hx + k))"] obtain k where
        "?stop (lin sz e (hx + k))" "\<forall>j < k. \<not> ?stop (lin sz e (hx + j))" by blast
      moreover from this have "k \<le> c - hx" using hxc by (meson \<open>?stop (lin sz e (hx + (c - hx)))\<close> not_less)
      ultimately show thesis using hxc by (intro that[of k]) auto
    qed
    have pr: "probe sz ?stop sz ?h = Some (lin sz e (hx + k))"
      using probe_SomeI[of ?h sz k sz ?stop] h k c cyc_from[OF h e(1), folded hx_def] by simp
    have path: "\<forall>y. hx \<le> y \<and> y < hx + k \<longrightarrow> cell_occupied (cs ! lin sz e y)"
      using k(2) by (metis le_add_diff_inverse nat_add_left_cancel_less)
    let ?d = "hx + k"
    define cs1 where "cs1 = (if cell_occupied (cs ! lin sz e ?d) then cs
      else cs[lin sz e ?d := cs ! lin sz e c, lin sz e c := clear_cell (cs ! lin sz e c)])"
    have step: "rehash_following (Suc n) h sz cs (lin sz e c) =
        rehash_following n h sz cs1 (lin sz e (Suc c))"
      using True pr by (simp add: Let_def cs1_def next_cell_lin[OF sz])
    have "lin_ok h sz e r (Suc c) cs1 \<and> occ_mset cs1 = occ_mset cs \<and> \<not> cell_occupied (cs1 ! e)"
    proof (cases "cell_occupied (cs ! lin sz e ?d)")
      case occ: True
      with k(1) have "?key = cell_key (cs ! lin sz e ?d)" by simp
      with occ True dist len have "lin sz e c = lin sz e ?d"
        unfolding keys_distinct_def by (metis lin_less sz)
      then have "?d = c" using c k(3) by (metis le_less_trans lin_inj)
      then have "lin_ok h sz e r (Suc c) cs"
        using lin_ok_skip[OF ok] path c by (simp add: hx_def)
      with occ e show ?thesis by (simp add: cs1_def)
    next
      case False
      then have dc: "?d < c" using True k(3) by (cases "?d = c") auto
      have "lin_ok h sz e r (Suc c) cs1"
        using lin_ok_move[OF ok len c True dc] path False by (simp add: hx_def cs1_def)
      moreover have "occ_mset cs1 = occ_mset cs"
        unfolding cs1_def using False True len by (simp add: occ_mset_move lin_less sz)
      moreover have "lin sz e ?d \<noteq> e" "lin sz e c \<noteq> e"
        using lin_last[OF e(1)] lin_inj[of ?d sz "sz - 1" e] lin_inj[of c sz "sz - 1" e] dc c1 by auto
      ultimately show ?thesis using e False by (simp add: cs1_def)
    qed
    moreover have "length cs1 = sz" using len by (simp add: cs1_def)
    moreover from calculation have "keys_distinct (=) cs1"
      using dist key_functions.keys_distinct_mset[OF key_functions_eq] by blast
    ultimately show ?thesis
      using Suc.IH[of "Suc c" cs1] Suc.prems(8) e(1) c c1 unfolding step by auto
  qed
qed

context key_functions
begin

lemma hash_table_remove_ok:
  assumes inv: "ht_invar ht" and fns: "hash_function ht = hash" "test_function ht = test"
  shows "\<exists>ht'. hash_table_remove ht key = Inr (ht', ht_map ht key \<noteq> None) \<and> ht_invar ht' \<and>
    hash_function ht' = hash \<and> test_function ht' = test \<and>
    ht_count ht' = ht_count ht - (if ht_map ht key = None then 0 else 1) \<and>
    ht_map ht' = (\<lambda>q. if test q key then None else ht_map ht q)"
  using inv fns
proof (cases rule: find_cell_cases[of ht key])
  case (miss c k)
  have "ht_map ht q = None" if "test q key" for q
    using miss(4) cells_map_cong[OF that] by (simp add: ht_map_def fns)
  then have "ht_map ht = (\<lambda>q. if test q key then None else ht_map ht q)" by auto
  with miss inv fns show ?thesis by (simp add: hash_table_remove_def)
next
  case (hit c)
  note i = inv[unfolded ht_invar_def fns]
  let ?sz = "ht_size ht"
  let ?cs = "(cells ht)[c := clear_cell (cells ht ! c)]"
  have len: "length (cells ht) = ?sz" using i by simp
  obtain e where e: "e < ?sz" "\<not> cell_occupied (cells ht ! e)"
    using ht_invar_size(3)[OF inv] by blast
  have sz: "0 < ?sz" using e by simp
  define r where "r = coord ?sz e c"
  have r: "r < ?sz" "lin ?sz e r = c" using e hit by (simp_all add: r_def coord_less lin_coord)
  have ec: "e \<noteq> c" using e hit by auto
  have r1: "Suc r < ?sz"
    using r ec lin_last[OF e(1)] by (metis Suc_lessI diff_Suc_1)
  have clr: "occ_mset (cells ht) = add_mset (cells ht ! c) (occ_mset ?cs)"
    using occ_mset_clear[of c "cells ht"] len hit by simp
  then have oc: "occ_mset (cells ht) = occ_mset (cells ht ! c # ?cs)" using hit by simp
  have dC: "keys_distinct test (cells ht ! c # ?cs)" using i oc keys_distinct_mset by blast
  then have d: "keys_distinct test ?cs" by (simp add: keys_distinct_Cons)
  then have dp: "keys_distinct (=) ?cs"
    unfolding keys_distinct_def using test_refl by metis
  have "lin_ok hash ?sz e r 0 (cells ht)" using i e by (intro lin_ok_chains) auto
  then have "lin_ok hash ?sz e r (Suc r) ?cs" using lin_ok_clear[of hash ?sz e r "cells ht"] len r by simp
  then obtain cs' where cs': "rehash_following ?sz hash ?sz ?cs (lin ?sz e (Suc r)) = Some cs'"
    "length cs' = ?sz" "chains_ok hash ?sz cs'" "occ_mset cs' = occ_mset ?cs"
    using rehash_following_ok[of hash ?sz e r "Suc r" ?cs ?sz] len e ec r1 dp by auto
  have nx: "next_cell ?sz c = lin ?sz e (Suc r)" using next_cell_lin[OF sz, of e r] r by simp
  let ?ht = "ht\<lparr>cells := cs', ht_count := ht_count ht - 1\<rparr>"
  have rm: "hash_table_remove ht key = Inr (?ht, True)"
    using hit cs'(1) nx by (simp add: hash_table_remove_def fns)
  have "Suc (length (occupied_cells cs')) = ht_count ht"
    using clr cs'(4) i by (metis size_add_mset size_occ_mset)
  moreover have kd: "keys_distinct test cs'" using d cs'(4) keys_distinct_mset by blast
  ultimately have "ht_invar ?ht" using i cs' by (auto simp: ht_invar_def fns)
  moreover have "ht_map ?ht = (\<lambda>q. if test q key then None else ht_map ht q)"
  proof
    fix q
    have m: "ht_map ?ht q = cells_map test ?cs q"
      using cells_map_mset[OF kd cs'(4)] by (simp add: ht_map_def fns)
    have m0: "ht_map ht q = cells_map test (cells ht ! c # ?cs) q"
      using cells_map_mset[of "cells ht", OF _ oc] i by (simp add: ht_map_def fns)
    have same: "test q key \<longleftrightarrow> test q (cell_key (cells ht ! c))"
      using hit(4) test_sym test_trans by blast
    have "\<forall>c' \<in># occ_mset ?cs. \<not> test (cell_key (cells ht ! c)) (cell_key c')"
      using dC hit(3) by (simp add: keys_distinct_Cons)
    then have "cells_map test ?cs q = None" if "test q key"
      using that same cells_map_Some_iff[OF d, of q] test_sym test_trans by (metis not_Some_eq)
    then show "ht_map ?ht q = (if test q key then None else ht_map ht q)"
      using m m0 same hit(3) by (auto simp: cells_map_def)
  qed
  ultimately show ?thesis using rm hit(5) by (simp add: fns cong: if_cong)
qed

end

section \<open>The size stays bounded\<close>

lemma prime_search_least:
  assumes "prime_search ps i sz = Some (p, j)"
  shows "i < j \<and> j \<le> i + length ps \<and> p = ps ! (j - i - 1) \<and> (\<forall>m < j - i - 1. ps ! m < sz)"
  using assms
proof (induction ps arbitrary: i)
  case (Cons q ps)
  show ?case
  proof (cases "sz \<le> q")
    case True
    with Cons.prems show ?thesis by auto
  next
    case False
    with Cons.prems have "prime_search ps (i + 1) sz = Some (p, j)" by simp
    from Cons.IH[OF this] have j: "i + 1 < j" "j \<le> i + 1 + length ps" "p = ps ! (j - (i + 1) - 1)"
      "\<forall>m < j - (i + 1) - 1. ps ! m < sz" by auto
    have "(q # ps) ! m < sz" if "m < j - i - 1" for m
      using that j(1,4) False by (cases m) auto
    moreover have "p = (q # ps) ! (j - i - 1)"
      using j(1,3) by (simp add: nth_Cons')
    ultimately show ?thesis using j(1,2) by auto
  qed
qed simp

lemma primes_double: "i + 1 < length primes \<Longrightarrow> primes ! (i + 1) < 2 * primes ! i"
proof -
  have "list_all2 (\<lambda>a b. b < 2 * a) (butlast primes) (tl primes)"
    by (simp add: primes_def)
  then have "i < length (butlast primes) \<Longrightarrow> tl primes ! i < 2 * butlast primes ! i"
    by (simp add: list_all2_conv_all_nth)
  then show "i + 1 < length primes \<Longrightarrow> primes ! (i + 1) < 2 * primes ! i"
    by (simp add: nth_butlast nth_tl)
qed

lemma prime_size_lt:
  assumes "prime_size sz offset = Inr (p, offset')" "0 < offset" "primes ! (offset - 1) < sz"
  shows "p < 2 * sz"
proof -
  have "prime_search (drop offset primes) offset sz = Some (p, offset')"
    using assms(1) by (simp add: prime_size_def split: option.splits)
  note l = prime_search_least[OF this]
  define i where "i = offset' - 2"
  have j: "offset < offset'" "offset' \<le> offset + (length primes - offset)" using l by simp_all
  have len: "i + 1 < length primes" and io: "offset \<le> i + 1" "offset' = i + 2"
    using j assms(2) unfolding i_def by linarith+
  have "p = drop offset primes ! (offset' - offset - 1)" using l by blast
  then have p: "p = primes ! (i + 1)" using io len j by simp
  have "primes ! i < sz"
  proof (cases "offset \<le> i")
    case True
    then have "drop offset primes ! (i - offset) < sz" using l io by auto
    with True len show ?thesis by simp
  next
    case False
    with io have "i = offset - 1" by simp
    with assms(3) show ?thesis by simp
  qed
  with primes_double[OF len] p show ?thesis by simp
qed

lemma hash_table_put_size:
  assumes inv: "ht_invar ht" and put: "hash_table_put ht key v = Inr ht'"
    and cnt: "ht_count ht < 2 ^ 27" and small: "ht_size ht < 2 ^ 30"
  shows "ht_size ht' < 2 ^ 30"
proof (cases "ht_size ht' = ht_size ht")
  case True
  with small show ?thesis by simp
next
  case False
  have st: "ht_size (store_cell t c key v) = ht_size t" for t c by (simp add: store_cell_def)
  obtain c where c: "find_cell ht key = Some c"
    using put by (cases "find_cell ht key") (simp_all add: hash_table_put_def)
  have un: "\<not> cell_occupied (cells ht ! c)"
    using put False by (auto simp: hash_table_put_def c st)
  have thr: "resize_threshold ht \<le> ht_count ht"
    using put False un by (auto simp: hash_table_put_def c st split: if_splits)
  obtain g where g: "grow_hash_table ht = Inr g"
    using put un thr by (cases "grow_hash_table ht") (simp_all add: hash_table_put_def c)
  have sz: "ht_size ht' = ht_size g"
    using put un thr g by (cases "find_cell g key") (auto simp: hash_table_put_def c st)
  obtain p off where p: "prime_size (ht_size ht * 2) (prime_offset ht) = Inr (p, off)" "ht_size g = p"
    using g by (auto simp: grow_hash_table_def split: if_splits sum.splits option.splits)
  have "ht_sized ht" and t: "ht_size ht * 3 div 4 < 2 ^ 27"
    using inv thr cnt by (auto simp: ht_invar_def)
  then have "p < 2 * (ht_size ht * 2)"
    using ht_invar_size(1)[OF inv] by (intro prime_size_lt[OF p(1)]) (auto simp: ht_sized_def)
  with t sz p(2) show ?thesis by simp
qed

section \<open>New and cleared tables\<close>

lemma prime_size_from_0:
  assumes "prime_size sz 0 = Inr (p, off)"
  shows "p \<le> max 13 (2 * sz)"
proof -
  have "prime_search primes 0 sz = Some (p, off)"
    using assms by (simp add: prime_size_def split: option.splits)
  note l = prime_search_least[OF this]
  show ?thesis
  proof (cases "off = 1")
    case True
    with l show ?thesis by (simp add: primes_def)
  next
    case False
    define i where "i = off - 2"
    have i: "i + 1 < length primes" "off = i + 2" using l False by (auto simp: i_def)
    then have "primes ! i < sz" and "p = primes ! (i + 1)" using l by simp_all
    with primes_double[OF i(1)] show ?thesis by simp
  qed
qed

lemma empty_cells:
  "occupied_cells (replicate n empty_cell) = []"
  "keys_distinct test (replicate n empty_cell)"
  "cells_map test (replicate n empty_cell) = Map.empty"
proof -
  have un: "\<not> cell_occupied empty_cell"
    by (simp add: empty_cell_def cell_occupied_def INVALID_PTR_def)
  then show "occupied_cells (replicate n empty_cell) = []"
    and "keys_distinct test (replicate n empty_cell)"
    by (simp_all add: occupied_cells_def keys_distinct_def)
  have "find (\<lambda>c. cell_occupied c \<and> test q (cell_key c)) (replicate n empty_cell) = None" for q
    using un by (auto simp: find_None_iff)
  then show "cells_map test (replicate n empty_cell) = Map.empty"
    by (simp add: cells_map_def fun_eq_iff)
qed

lemma hash_table_new_ok:
  assumes "items < 2 ^ 28"
  shows "\<exists>ht. hash_table_new items hf tf = Inr ht \<and> ht_invar ht \<and> ht_map ht = Map.empty \<and>
    items \<le> resize_threshold ht \<and> ht_size ht < 2 ^ 30 \<and> ht_count ht = 0 \<and>
    hash_function ht = (case hf of None \<Rightarrow> hash_pointer | Some f \<Rightarrow> f) \<and>
    test_function ht = (case tf of None \<Rightarrow> cmp_pointer | Some f \<Rightarrow> f)"
proof -
  let ?n = "1 + items * 4 div 3"
  have n: "?n < 2 ^ 31" using assms by simp
  obtain p off where p: "prime_size ?n 0 = Inr (p, off)" "?n \<le> p" "0 < off" "off \<le> length primes"
    "p = primes ! (off - 1)"
    using prime_size_ok[of 0 ?n] n by (auto simp: primes_length)
  have p31: "p < 2 ^ 30" using prime_size_from_0[OF p(1)] assms by auto
  have th: "items \<le> p * 3 div 4" using p(2) by linarith
  show ?thesis
    using n p p31 th
    by (simp add: hash_table_new_def ht_invar_def ht_sized_def chains_ok_empty ht_map_def
        empty_cells)
qed

lemma hash_table_clear_ok:
  assumes "ht_invar ht"
  shows "ht_invar (hash_table_clear ht) \<and> ht_map (hash_table_clear ht) = Map.empty"
  using assms
  by (simp add: hash_table_clear_def ht_invar_def chains_ok_empty ht_map_def empty_cells)

section \<open>The table implements the map contract\<close>

lemma hash_table_remove_size:
  "hash_table_remove ht key = Inr (ht', b) \<Longrightarrow> ht_size ht' = ht_size ht"
  by (auto simp: hash_table_remove_def split: option.splits if_splits)

sublocale key_functions \<subseteq> table: map_store "table_invar hash test" ht_map test
  "\<lambda>k. k \<noteq> INVALID_PTR" "\<lambda>ht. 2 ^ 27 - ht_count ht" table_put table_remove
proof unfold_locales
  fix ht k v
  assume inv: "table_invar hash test ht" and k: "k \<noteq> INVALID_PTR" and room: "0 < 2 ^ 27 - ht_count ht"
  note i = inv[unfolded table_invar_def]
  obtain ht' where ht': "hash_table_put ht k v = Inr ht'" "ht_invar ht'" "hash_function ht' = hash"
    "test_function ht' = test" "ht_count ht' = ht_count ht + (if ht_map ht k = None then 1 else 0)"
    "ht_map ht' = (\<lambda>q. if test q k then Some v else ht_map ht q)"
    using hash_table_put_ok[of ht k v] i k by auto
  have sz: "ht_size ht' < 2 ^ 30" using hash_table_put_size[of ht k v ht'] ht'(1) i room by auto
  have "2 ^ 27 - ht_count ht - 1 \<le> 2 ^ 27 - ht_count ht'"
    using ht'(5) room by (simp split: if_splits)
  with ht' sz show "\<exists>s'. table_put ht k v = Some s' \<and> table_invar hash test s' \<and>
      2 ^ 27 - ht_count ht - 1 \<le> 2 ^ 27 - ht_count s' \<and>
      ht_map s' = (\<lambda>q. if test q k then Some v else ht_map ht q)"
    by (simp add: table_put_def table_invar_def cong: if_cong)
next
  fix ht k
  assume inv: "table_invar hash test ht"
  note i = inv[unfolded table_invar_def]
  obtain ht' where ht': "hash_table_remove ht k = Inr (ht', ht_map ht k \<noteq> None)" "ht_invar ht'"
    "hash_function ht' = hash" "test_function ht' = test"
    "ht_count ht' = ht_count ht - (if ht_map ht k = None then 0 else 1)"
    "ht_map ht' = (\<lambda>q. if test q k then None else ht_map ht q)"
    using hash_table_remove_ok[of ht k] i by auto
  have "ht_size ht' < 2 ^ 30" using hash_table_remove_size[OF ht'(1)] i by simp
  with ht' show "\<exists>s'. table_remove ht k = Some (s', ht_map ht k \<noteq> None) \<and>
      table_invar hash test s' \<and> 2 ^ 27 - ht_count ht \<le> 2 ^ 27 - ht_count s' \<and>
      ht_map s' = (\<lambda>q. if test q k then None else ht_map ht q)"
    by (simp add: table_remove_def table_invar_def del: not_None_eq cong: if_cong)
qed

interpretation pointer_keys: key_functions hash_pointer cmp_pointer
  by (rule key_functions_pointer)

interpretation string_keys: key_functions "hash_string mem" "cmp_string mem" for mem
  by (rule key_functions_string)

interpretation nocase_keys: key_functions "hash_string_nocase mem" "string_cmp_nocase mem" for mem
  by (rule key_functions_nocase)

lemma make_string_hash_table_ok:
  assumes "items < 2 ^ 28"
  shows "\<exists>ht. make_string_hash_table mem items = Inr ht \<and>
    table_invar (hash_string mem) (cmp_string mem) ht \<and> ht_map ht = Map.empty \<and> ht_count ht = 0"
  using hash_table_new_ok[OF assms, of "Some (hash_string mem)" "Some (cmp_string mem)"]
  by (auto simp: make_string_hash_table_def table_invar_def)


section \<open>Iteration\<close>

text \<open>The loop of a client: \<open>hash_table_iter_next\<close> until it answers 0, at most \<open>n\<close> calls.\<close>

fun iter_entries :: "nat \<Rightarrow> hash_table \<Rightarrow> hash_table_iterator \<Rightarrow> (u64 \<times> u64) list option" where
  "iter_entries 0 ht iter = None"
| "iter_entries (Suc n) ht iter =
     (let (iter', more) = hash_table_iter_next ht iter
      in if more then map_option ((#) (iter_key iter', iter_value iter')) (iter_entries n ht iter')
         else Some [])"

declare hash_table_iter_from.simps [simp del]

lemma hash_table_iter_from_eq:
  assumes "iter_end iter = length cs" "c \<le> length cs"
  shows "case occupied_cells (drop c cs) of
      [] \<Rightarrow> hash_table_iter_from cs iter c = (iter, False)
    | d # ds \<Rightarrow> \<exists>p \<le> length cs. occupied_cells (drop p cs) = ds \<and>
        hash_table_iter_from cs iter c =
          (iter\<lparr>iter_key := cell_key d, iter_value := cell_value d, iter_pos := p\<rparr>, True)"
  using assms
proof (induction cs iter c rule: hash_table_iter_from.induct)
  case (1 cs iter c)
  show ?case
  proof (cases "c < length cs")
    case False
    with "1.prems" show ?thesis
      by (subst hash_table_iter_from.simps) (simp add: occupied_cells_def)
  next
    case True
    have d: "occupied_cells (drop c cs) =
        (if cell_occupied (cs ! c) then [cs ! c] else []) @ occupied_cells (drop (Suc c) cs)"
      using True by (simp add: occupied_cells_def flip: Cons_nth_drop_Suc)
    show ?thesis
    proof (cases "cell_occupied (cs ! c)")
      case occ: True
      then have "hash_table_iter_from cs iter c =
          (iter\<lparr>iter_key := cell_key (cs ! c), iter_value := cell_value (cs ! c),
                iter_pos := Suc c\<rparr>, True)"
        using True "1.prems" by (subst hash_table_iter_from.simps) simp
      with d occ True show ?thesis by (auto intro: exI[of _ "Suc c"])
    next
      case un: False
      then have "hash_table_iter_from cs iter c = hash_table_iter_from cs iter (Suc c)"
        using True "1.prems" by (subst hash_table_iter_from.simps) simp
      with "1.IH" d un True "1.prems" show ?thesis by (simp split: list.splits)
    qed
  qed
qed

lemma iter_entries_eq:
  assumes "iter_end iter = length (cells ht)" "iter_pos iter \<le> length (cells ht)"
    "length (occupied_cells (drop (iter_pos iter) (cells ht))) < n"
  shows "iter_entries n ht iter =
    Some (map (\<lambda>c. (cell_key c, cell_value c)) (occupied_cells (drop (iter_pos iter) (cells ht))))"
  using assms
proof (induction n arbitrary: iter)
  case (Suc n)
  note f = hash_table_iter_from_eq[OF Suc.prems(1,2)]
  show ?case
  proof (cases "occupied_cells (drop (iter_pos iter) (cells ht))")
    case Nil
    with f show ?thesis by (simp add: hash_table_iter_next_def)
  next
    case (Cons d ds)
    with f obtain p where p: "p \<le> length (cells ht)" "occupied_cells (drop p (cells ht)) = ds"
      "hash_table_iter_next ht iter =
        (iter\<lparr>iter_key := cell_key d, iter_value := cell_value d, iter_pos := p\<rparr>, True)"
      by (auto simp: hash_table_iter_next_def)
    with Suc.IH[of "iter\<lparr>iter_key := cell_key d, iter_value := cell_value d, iter_pos := p\<rparr>"]
      Suc.prems Cons show ?thesis by simp
  qed
qed simp

section \<open>Properties\<close>



text \<open>
  \<open>hash_table_put\<close>, for every hash and test function that agree on equality: on a
  well-formed table the call ends, keeps the table well-formed (growing it first when the
  fullness limit is reached), counts the key once, and the table then maps every key equal to the
  given one to the new value and every other key as before.
\<close>

theorem hash_table_put_correct:
  assumes "key_functions (hash_function ht) (test_function ht)" "ht_invar ht"
    "ht_size ht < 2 ^ 30" "key \<noteq> INVALID_PTR"
  shows "\<exists>ht'. hash_table_put ht key v = Inr ht' \<and> ht_invar ht' \<and>
    hash_table_count ht' = hash_table_count ht + (if ht_map ht key = None then 1 else 0) \<and>
    ht_map ht' = (\<lambda>q. if test_function ht q key then Some v else ht_map ht q)"
  using key_functions.hash_table_put_ok[OF assms(1,2) refl refl assms(3,4), of v]
  unfolding hash_table_count_def by blast

theorem hash_table_put_correct_witness:
  "\<exists>ht ht'. hash_table_new 0 None None = Inr ht \<and> hash_table_put ht 7 9 = Inr ht' \<and>
     hash_table_count ht' = 1 \<and> ht_map ht' 7 = Some 9 \<and> ht_map ht' 8 = None"
proof -
  obtain ht where ht: "hash_table_new 0 None None = Inr ht" "ht_invar ht" "ht_map ht = Map.empty"
    "ht_size ht < 2 ^ 30" "ht_count ht = 0" "hash_function ht = hash_pointer"
    "test_function ht = cmp_pointer"
    using hash_table_new_ok[of 0 None None] by auto
  have k: "key_functions (hash_function ht) (test_function ht)"
    using ht(6,7) key_functions_pointer by simp
  show ?thesis
    using hash_table_put_correct[OF k ht(2,4), of 7 9] ht
    by (auto simp: INVALID_PTR_def cmp_pointer_def hash_table_count_def)
qed

text \<open>
  \<open>hash_table_remove\<close>: on a well-formed table the call ends (the rehash of the following
  cells included), answers whether the key was present, and leaves a well-formed table that has
  lost exactly the keys equal to the given one: no entry of the cluster that follows the
  cleared cell becomes unreachable.
\<close>

theorem hash_table_remove_correct:
  assumes "key_functions (hash_function ht) (test_function ht)" "ht_invar ht"
  shows "\<exists>ht'. hash_table_remove ht key = Inr (ht', ht_map ht key \<noteq> None) \<and> ht_invar ht' \<and>
    hash_table_count ht' = hash_table_count ht - (if ht_map ht key = None then 0 else 1) \<and>
    ht_map ht' = (\<lambda>q. if test_function ht q key then None else ht_map ht q)"
  using key_functions.hash_table_remove_ok[OF assms refl refl, of key]
  unfolding hash_table_count_def by blast

theorem hash_table_remove_correct_witness:
  "\<exists>ht ht'. hash_table_new 0 None None = Inr ht \<and> hash_table_remove ht 7 = Inr (ht', False)"
proof -
  obtain ht where ht: "hash_table_new 0 None None = Inr ht" "ht_invar ht" "ht_map ht = Map.empty"
    "hash_function ht = hash_pointer" "test_function ht = cmp_pointer"
    using hash_table_new_ok[of 0 None None] by auto
  have k: "key_functions (hash_function ht) (test_function ht)"
    using ht(4,5) key_functions_pointer by simp
  show ?thesis using hash_table_remove_correct[OF k ht(2), of 7] ht(1,3) by auto
qed

text \<open>
  \<open>hash_table_new\<close> gives an empty well-formed table whose growth threshold is at least the
  number of items asked for (the assertion the source has commented out), so that many
  insertions need no growth; null function pointers select comparison by pointer value.
\<close>

theorem hash_table_new_preallocates:
  assumes "items < 2 ^ 28"
  shows "\<exists>ht. hash_table_new items hf tf = Inr ht \<and> ht_invar ht \<and> ht_map ht = Map.empty \<and>
    items \<le> resize_threshold ht \<and> hash_table_count ht = 0 \<and>
    hash_function ht = (case hf of None \<Rightarrow> hash_pointer | Some f \<Rightarrow> f) \<and>
    test_function ht = (case tf of None \<Rightarrow> cmp_pointer | Some f \<Rightarrow> f)"
  using hash_table_new_ok[OF assms, of hf tf] unfolding hash_table_count_def by blast

theorem hash_table_new_preallocates_witness:
  "\<exists>ht. hash_table_new 1000 None None = Inr ht \<and> 1000 \<le> resize_threshold ht"
  using hash_table_new_preallocates[of 1000 None None] by auto

text \<open>
  Iteration: the loop over \<open>hash_table_iterate\<close> and \<open>hash_table_iter_next\<close> delivers the
  occupied cells, each exactly once in array order, and the \<open>count + 1\<close>-st call at the latest
  answers 0.
\<close>

theorem hash_table_iteration_complete:
  assumes "ht_invar ht"
  shows "iter_entries (Suc (hash_table_count ht)) ht (hash_table_iterate ht iter) =
    Some (map (\<lambda>c. (cell_key c, cell_value c)) (filter cell_occupied (cells ht)))"
  using assms
  by (subst iter_entries_eq)
    (simp_all add: hash_table_iterate_def hash_table_count_def ht_invar_def occupied_cells_def)

theorem hash_table_iteration_complete_witness:
  "\<exists>ht. hash_table_new 0 None None = Inr ht \<and>
     iter_entries 1 ht (hash_table_iterate ht \<lparr>iter_key = 0, iter_value = 0, iter_pos = 0, iter_end = 0\<rparr>) = Some []"
proof -
  obtain ht where ht: "hash_table_new 0 None None = Inr ht" "ht_invar ht" "ht_count ht = 0"
    using hash_table_new_ok[of 0 None None] by auto
  then have "filter cell_occupied (cells ht) = []" by (simp add: ht_invar_def occupied_cells_def)
  then show ?thesis
    using hash_table_iteration_complete[OF ht(2)] ht(1,3) by (simp add: hash_table_count_def)
qed

end
