(* ===== verification/Ringbuf.thy ===== *)
theory Ringbuf
  imports Ring
begin

text \<open>
  The ring buffer of the Bluetooth code, \<open>src/src/bt/btgatt_server/src/shared/ringbuf.c\<close>: a
  power-of-two buffer with free-running \<open>size_t\<close> counters, filled by \<open>ringbuf_vprintf\<close> (all of a
  formatted string or nothing) and \<open>ringbuf_read\<close> (from a descriptor), emptied by
  \<open>ringbuf_drain\<close> and \<open>ringbuf_write\<close> (to a descriptor).

  A null \<open>struct ringbuf *\<close> is \<open>None\<close>. The results of \<open>malloc\<close>, \<open>vasprintf\<close>, \<open>readv\<close> and
  \<open>writev\<close> are arguments. A call of the input tracer is recorded as the triple of the callback's
  address, the bytes it is shown and its user data; an operation returns the calls it makes. A
  null callback is address 0. The outer \<open>option\<close> of an operation is \<open>None\<close> for an access outside
  the buffer or an undefined shift.
\<close>

section \<open>State and operations\<close>

record ringbuf =
  rb_buffer :: "u8 list"
  rb_size :: u64
  rb_in :: u64
  rb_out :: u64
  rb_in_tracing :: u64
  rb_in_data :: u64

type_synonym trace_call = "u64 \<times> u8 list \<times> u64"

definition RINGBUF_RESET :: u64 where
  "RINGBUF_RESET = 0"

text \<open>\<open>__builtin_clz\<close>: the zero bits above the highest set one, among the low \<open>n\<close> bits.\<close>

fun clz_below :: "nat \<Rightarrow> u32 \<Rightarrow> nat" where
  "clz_below 0 x = 0"
| "clz_below (Suc n) x = (if bit x n then 0 else Suc (clz_below n x))"

definition fls :: "u32 \<Rightarrow> nat" where
  "fls x = (if x \<noteq> 0 then 4 * 8 - clz_below 32 x else 0)"

text \<open>
  \<open>1 << n\<close> on \<open>int\<close>: undefined for \<open>n >= 32\<close>; for \<open>n = 31\<close> the bit lands in the sign, and the
  conversion of the result to \<open>unsigned int\<close> gives 2^31 with every compiler that defines it.
\<close>

definition align_power2 :: "u32 \<Rightarrow> u32 option" where
  "align_power2 u = (if fls (u - 1) < 32 then Some (push_bit (fls (u - 1)) 1) else None)"

definition ringbuf_new :: "(nat \<Rightarrow> u8 list option) \<Rightarrow> u64 \<Rightarrow> ringbuf option option" where
  "ringbuf_new malloc sz =
     (if sz < 2 \<or> sz > 0xFFFFFFFF then Some None
      else do {
        real_size \<leftarrow> align_power2 (ucast sz);
        Some (case malloc (unat real_size) of None \<Rightarrow> None
              | Some buf \<Rightarrow>
                  Some \<lparr>rb_buffer = buf, rb_size = ucast real_size, rb_in = RINGBUF_RESET,
                        rb_out = RINGBUF_RESET, rb_in_tracing = 0, rb_in_data = 0\<rparr>)
      })"

definition ringbuf_set_input_tracing ::
  "ringbuf option \<Rightarrow> u64 \<Rightarrow> u64 \<Rightarrow> ringbuf option \<times> bool" where
  "ringbuf_set_input_tracing rb callback user_data =
     (case rb of None \<Rightarrow> (None, False)
      | Some r \<Rightarrow> (Some (r\<lparr>rb_in_tracing := callback, rb_in_data := user_data\<rparr>), True))"

definition ringbuf_capacity :: "ringbuf option \<Rightarrow> u64" where
  "ringbuf_capacity rb = (case rb of None \<Rightarrow> 0 | Some r \<Rightarrow> rb_size r)"

definition ringbuf_len :: "ringbuf option \<Rightarrow> u64" where
  "ringbuf_len rb = (case rb of None \<Rightarrow> 0 | Some r \<Rightarrow> rb_in r - rb_out r)"

definition ringbuf_avail :: "ringbuf option \<Rightarrow> u64" where
  "ringbuf_avail rb = (case rb of None \<Rightarrow> 0 | Some r \<Rightarrow> rb_size r - rb_in r + rb_out r)"

text \<open>The reset that \<open>ringbuf_drain\<close> and \<open>ringbuf_write\<close> end with.\<close>

definition reset_if_empty :: "ringbuf \<Rightarrow> ringbuf" where
  "reset_if_empty r =
     (if rb_out r = rb_in r then r\<lparr>rb_in := RINGBUF_RESET, rb_out := RINGBUF_RESET\<rparr> else r)"

definition ringbuf_drain :: "ringbuf option \<Rightarrow> u64 \<Rightarrow> ringbuf option \<times> u64" where
  "ringbuf_drain rb count =
     (case rb of None \<Rightarrow> (None, 0)
      | Some r \<Rightarrow>
          let len = min count (rb_in r - rb_out r)
          in if len = 0 then (Some r, 0)
             else (Some (reset_if_empty (r\<lparr>rb_out := rb_out r + len\<rparr>)), len))"

text \<open>The pointer that \<open>ringbuf_peek\<close> returns, as an index into the buffer, and \<open>*len_nowrap\<close>.\<close>

definition ringbuf_peek :: "ringbuf option \<Rightarrow> u64 \<Rightarrow> (u64 \<times> u64) option" where
  "ringbuf_peek rb offset0 =
     (case rb of None \<Rightarrow> None
      | Some r \<Rightarrow>
          let offset = (rb_out r + offset0) AND (rb_size r - 1);
              len = rb_in r - rb_out r
          in Some (offset, min len (rb_size r - offset)))"

text \<open>\<open>writev\<close> sees the contents of the two vectors and returns how many bytes it consumed.\<close>

definition ringbuf_write ::
  "(u8 list \<Rightarrow> u8 list \<Rightarrow> int) \<Rightarrow> ringbuf option \<Rightarrow> int \<Rightarrow> (ringbuf option \<times> int) option" where
  "ringbuf_write writev rb fd =
     (case rb of None \<Rightarrow> Some (None, - 1)
      | Some r \<Rightarrow>
          if fd < 0 then Some (rb, - 1)
          else let len = rb_in r - rb_out r
          in if len = 0 then Some (rb, 0)
          else let offset = rb_out r AND (rb_size r - 1);
                   end = min len (rb_size r - offset)
          in do {
            iov0 \<leftarrow> read_range (rb_buffer r) (unat offset) (unat end);
            iov1 \<leftarrow> read_range (rb_buffer r) 0 (unat (len - end));
            let consumed = writev iov0 iov1;
            Some (if consumed < 0 then (rb, - 1)
                  else (Some (reset_if_empty (r\<lparr>rb_out := rb_out r + word_of_int consumed\<rparr>)),
                        consumed))
          })"

text \<open>A null format is \<open>None\<close>; otherwise the pair is what \<open>vasprintf\<close> returns and stores.\<close>

definition ringbuf_vprintf ::
  "ringbuf option \<Rightarrow> (int \<times> u8 list) option \<Rightarrow> (ringbuf option \<times> int \<times> trace_call list) option" where
  "ringbuf_vprintf rb formatted =
     (case (rb, formatted) of
        (Some r, Some (len, str)) \<Rightarrow>
          let avail = rb_size r - rb_in r + rb_out r
          in if avail = 0 \<or> len < 0 \<or> word_of_int len > avail then Some (rb, - 1, [])
          else let offset = rb_in r AND (rb_size r - 1);
                   end = min (word_of_int len) (rb_size r - offset);
                   rest = word_of_int len - end;
                   call = (\<lambda>block. if rb_in_tracing r = 0 then []
                                   else [(rb_in_tracing r, block, rb_in_data r)])
          in do {
            b1 \<leftarrow> memcpy_at (rb_buffer r) (unat offset) str 0 (unat end);
            seen1 \<leftarrow> read_range b1 (unat offset) (unat end);
            (b2, calls2) \<leftarrow>
              (if rest > 0
               then do {
                 b2 \<leftarrow> memcpy_at b1 0 str (unat end) (unat rest);
                 seen2 \<leftarrow> read_range b2 0 (unat rest);
                 Some (b2, call seen2)
               } else Some (b1, []));
            Some (Some (r\<lparr>rb_buffer := b2, rb_in := rb_in r + word_of_int len\<rparr>), len,
                  call seen1 @ calls2)
          }
      | _ \<Rightarrow> Some (rb, - 1, []))"

text \<open>
  \<open>readv\<close> is given the lengths of the two vectors and returns its result and the bytes it
  delivers, which it stores into the first vector and then into the second.
\<close>

definition ringbuf_read ::
  "(nat \<Rightarrow> nat \<Rightarrow> int \<times> u8 list) \<Rightarrow> ringbuf option \<Rightarrow> int \<Rightarrow>
   (ringbuf option \<times> int \<times> trace_call list) option" where
  "ringbuf_read readv rb fd =
     (case rb of None \<Rightarrow> Some (None, - 1, [])
      | Some r \<Rightarrow>
          if fd < 0 then Some (rb, - 1, [])
          else let avail = rb_size r - rb_in r + rb_out r
          in if avail = 0 then Some (rb, - 1, [])
          else let offset = rb_in r AND (rb_size r - 1);
                   end = min avail (rb_size r - offset);
                   (consumed, data) = readv (unat end) (unat (avail - end))
          in if consumed < 0 then Some (rb, - 1, [])
          else let len = min (word_of_int consumed) end;
                   rest = word_of_int consumed - len;
                   call = (\<lambda>block. if rb_in_tracing r = 0 then []
                                   else [(rb_in_tracing r, block, rb_in_data r)])
          in do {
            b1 \<leftarrow> memcpy_at (rb_buffer r) (unat offset) data 0 (unat len);
            b2 \<leftarrow> memcpy_at b1 0 data (unat len) (unat rest);
            seen1 \<leftarrow> read_range b2 (unat offset) (unat len);
            seen2 \<leftarrow> read_range b2 0 (unat rest);
            Some (Some (r\<lparr>rb_buffer := b2, rb_in := rb_in r + word_of_int consumed\<rparr>), consumed,
                  call seen1 @ (if rest > 0 then call seen2 else []))
          })"

section \<open>Invariant and contents\<close>

definition ringbuf_invar :: "ringbuf \<Rightarrow> bool" where
  "ringbuf_invar r \<longleftrightarrow> (\<exists>k. unat (rb_size r) = 2 ^ k) \<and>
     length (rb_buffer r) = unat (rb_size r) \<and> rb_in r - rb_out r \<le> rb_size r"

definition ringbuf_contents :: "ringbuf \<Rightarrow> u8 list" where
  "ringbuf_contents r = ring_val (rb_buffer r) (rb_in r) (rb_out r)"

text \<open>The bytes shown to the tracer by a list of calls.\<close>

definition traced_bytes :: "trace_call list \<Rightarrow> u8 list" where
  "traced_bytes calls = concat (map (\<lambda>(f, block, d). block) calls)"

section \<open>Rounding up to a power of two\<close>

lemma clz_below_le: "clz_below n x \<le> n"
  by (induction n) auto

lemma clz_below_bits:
  assumes "\<exists>i < n. bit x i"
  shows "clz_below n x < n \<and> bit x (n - 1 - clz_below n x) \<and>
    (\<forall>i < n. n - 1 - clz_below n x < i \<longrightarrow> \<not> bit x i)"
  using assms
proof (induction n)
  case (Suc n)
  show ?case
  proof (cases "bit x n")
    case False
    with Suc.prems have "\<exists>i < n. bit x i" by (metis less_antisym)
    note ih = Suc.IH[OF this]
    with False have "bit x (n - 1 - clz_below n x)" "clz_below n x < n" by auto
    moreover have "\<not> bit x i" if "i < Suc n" "n - Suc (clz_below n x) < i" for i
      using that False ih by (cases "i = n") auto
    ultimately show ?thesis using False by auto
  qed simp
qed simp

lemma fls_bounds:
  assumes "x \<noteq> 0"
  shows "2 ^ (fls x - 1) \<le> unat x" "unat x < 2 ^ fls x" "0 < fls x" "fls x \<le> 32"
proof -
  obtain i where i: "bit x i" using assms by (auto simp: bit_eq_iff)
  with bit_imp_le_length[OF i] have "\<exists>i < 32. bit x i" by auto
  note b = clz_below_bits[OF this]
  have f: "fls x = 32 - clz_below 32 x" using assms by (simp add: fls_def)
  then show "0 < fls x" "fls x \<le> 32" using b by auto
  have "bit x (fls x - 1)" using b f by simp
  then have "bit (unat x) (fls x - 1)" by (simp add: bit_unsigned_iff)
  then show "2 ^ (fls x - 1) \<le> unat x"
    by (metis bit_iff_odd div_less even_zero not_le)
  have "\<not> bit (unat x) i" if "fls x \<le> i" for i
    using that b f bit_imp_le_length[of x i] by (auto simp: bit_unsigned_iff)
  then have "take_bit (fls x) (unat x) = unat x"
    by (intro bit_eqI) (use linorder_not_le in \<open>auto simp: bit_take_bit_iff\<close>)
  then show "unat x < 2 ^ fls x" by (metis take_bit_nat_less_exp)
qed

lemma align_power2_eq:
  assumes "2 \<le> unat u"
  shows "align_power2 u = (if unat u \<le> 2 ^ 31 then Some (push_bit (fls (u - 1)) 1) else None)"
    and "unat u \<le> 2 ^ fls (u - 1)" and "2 ^ fls (u - 1) < 2 * unat u"
proof -
  have "u \<noteq> 0" using assms by auto
  then have m: "unat (u - 1) = unat u - 1" by (rule unat_minus_one)
  have "u - 1 \<noteq> 0"
  proof
    assume "u - 1 = 0"
    with m assms show False by simp
  qed
  note f = fls_bounds[OF this, unfolded m]
  have p: "(2::nat) ^ fls (u - 1) = 2 * 2 ^ (fls (u - 1) - 1)"
    using f(3) by (simp flip: power_Suc)
  show u: "unat u \<le> 2 ^ fls (u - 1)" and "2 ^ fls (u - 1) < 2 * unat u"
    using f assms p by linarith+
  have "fls (u - 1) < 32 \<longleftrightarrow> unat u \<le> 2 ^ 31"
  proof
    assume "fls (u - 1) < 32"
    then have "(2::nat) ^ fls (u - 1) \<le> 2 ^ 31" by (intro power_increasing) auto
    with u show "unat u \<le> 2 ^ 31" by linarith
  next
    assume "unat u \<le> 2 ^ 31"
    with f(1) assms have "(2::nat) ^ (fls (u - 1) - 1) < 2 ^ 31" by linarith
    then have "fls (u - 1) - 1 < 31" by (rule power_less_imp_less_exp[rotated]) simp
    then show "fls (u - 1) < 32" by simp
  qed
  then show "align_power2 u = (if unat u \<le> 2 ^ 31 then Some (push_bit (fls (u - 1)) 1) else None)"
    by (simp add: align_power2_def)
qed

lemma unat_push_bit_1: "n < 32 \<Longrightarrow> unat (push_bit n 1 :: u32) = 2 ^ n"
proof -
  assume "n < 32"
  then have "(2::nat) ^ n < 2 ^ 32" by (intro power_strict_increasing) auto
  moreover have "(push_bit n 1 :: u32) = of_nat (2 ^ n)" by (simp add: push_bit_eq_mult)
  ultimately show ?thesis by (simp only: unat_of_nat) simp
qed

section \<open>The operations on the contents\<close>

lemma ringbuf_invar_ring:
  "ringbuf_invar r \<longleftrightarrow> ring_ok (rb_buffer r) (rb_size r) (rb_in r) (rb_out r)"
  by (simp add: ringbuf_invar_def ring_ok_def)

lemma reset_if_empty_ok:
  assumes "ringbuf_invar r"
  shows "ringbuf_invar (reset_if_empty r)"
    and "ringbuf_contents (reset_if_empty r) = ringbuf_contents r"
    and "rb_size (reset_if_empty r) = rb_size r"
proof -
  note ok = assms[unfolded ringbuf_invar_ring]
  show "ringbuf_invar (reset_if_empty r)"
    using ok ring_ok_reset(1)[OF ok]
    by (simp add: reset_if_empty_def ringbuf_invar_ring RINGBUF_RESET_def)
  show "ringbuf_contents (reset_if_empty r) = ringbuf_contents r"
    using ring_ok_reset(2,3)[OF ok]
    by (cases "rb_out r = rb_in r")
      (simp_all add: reset_if_empty_def ringbuf_contents_def RINGBUF_RESET_def)
  show "rb_size (reset_if_empty r) = rb_size r" by (simp add: reset_if_empty_def)
qed

lemma ringbuf_remove:
  assumes inv: "ringbuf_invar r" and n: "n \<le> rb_in r - rb_out r"
  defines "r' \<equiv> reset_if_empty (r\<lparr>rb_out := rb_out r + n\<rparr>)"
  shows "ringbuf_invar r'" and "ringbuf_contents r' = drop (unat n) (ringbuf_contents r)"
    and "rb_size r' = rb_size r"
proof -
  have "ringbuf_invar (r\<lparr>rb_out := rb_out r + n\<rparr>)"
    and c: "ringbuf_contents (r\<lparr>rb_out := rb_out r + n\<rparr>) = drop (unat n) (ringbuf_contents r)"
    using ring_ok_get[OF inv[unfolded ringbuf_invar_ring] n]
    by (simp_all add: ringbuf_invar_ring ringbuf_contents_def)
  from reset_if_empty_ok[OF this(1)] c
  show "ringbuf_invar r'" "ringbuf_contents r' = drop (unat n) (ringbuf_contents r)"
    "rb_size r' = rb_size r" by (simp_all add: r'_def)
qed

lemma length_ringbuf_contents: "length (ringbuf_contents r) = unat (rb_in r - rb_out r)"
  by (simp add: ringbuf_contents_def length_ring_val)

lemma ringbuf_drain_ok:
  assumes "ringbuf_invar r"
  shows "\<exists>r'. ringbuf_drain (Some r) count =
      (Some r', of_nat (min (unat count) (length (ringbuf_contents r)))) \<and>
    ringbuf_invar r' \<and> rb_size r' = rb_size r \<and>
    ringbuf_contents r' = drop (unat count) (ringbuf_contents r)"
proof -
  define n where "n = min count (rb_in r - rb_out r)"
  have un: "unat n = min (unat count) (length (ringbuf_contents r))"
    by (simp add: n_def unat_min length_ringbuf_contents)
  then have on: "n = of_nat (min (unat count) (length (ringbuf_contents r)))"
    by (simp flip: un)
  have d: "drop (unat n) (ringbuf_contents r) = drop (unat count) (ringbuf_contents r)"
    unfolding un by (auto simp: min_def)
  have n: "n \<le> rb_in r - rb_out r" by (simp add: n_def)
  show ?thesis
  proof (cases "n = 0")
    case True
    with d on assms show ?thesis by (simp add: ringbuf_drain_def flip: n_def)
  next
    case False
    with ringbuf_remove[OF assms n] d on show ?thesis
      by (auto simp: ringbuf_drain_def Let_def simp flip: n_def)
  qed
qed

text \<open>The pieces every insertion shares: two copies behind the contents.\<close>

lemma ringbuf_append:
  assumes inv: "ringbuf_invar r" and n: "unat n \<le> length xs"
    and fits: "n \<le> rb_size r - rb_in r + rb_out r"
    and l: "l = min n (rb_size r - (rb_in r AND (rb_size r - 1)))"
  obtains b1 b2 where
    "memcpy_at (rb_buffer r) (unat (rb_in r AND (rb_size r - 1))) xs 0 (unat l) = Some b1"
    "memcpy_at b1 0 xs (unat l) (unat (n - l)) = Some b2"
    "ringbuf_invar (r\<lparr>rb_buffer := b2, rb_in := rb_in r + n\<rparr>)"
    "ringbuf_contents (r\<lparr>rb_buffer := b2, rb_in := rb_in r + n\<rparr>) =
       ringbuf_contents r @ take (unat n) xs"
    "unat (n - l) \<le> unat (rb_in r AND (rb_size r - 1))"
    "unat l + unat (n - l) = unat n"
proof -
  let ?N = "length (rb_buffer r)" and ?i = "unat (rb_in r)"
  note ok = inv[unfolded ringbuf_invar_ring]
  have room: "unat n \<le> ?N - unat (rb_in r - rb_out r)"
    using fits ring_ok_room[OF ok] by (simp add: word_le_nat_alt length_ring_val)
  have cap: "unat (rb_in r - rb_out r) \<le> ?N"
    using ring_ok_le[OF ok] by (simp add: length_ring_val)
  have ul: "unat l = min (unat n) (?N - ?i mod ?N)"
    by (simp add: l unat_min ring_ok_block[OF ok])
  have nl: "unat (n - l) = unat n - unat l" by (intro unat_sub) (simp add: l)
  have "unat n \<le> ?N" using room by simp
  from ring_write_blocks[OF ring_ok_pos[OF ok] this n ul]
  obtain b1 where b: "memcpy_at (rb_buffer r) (?i mod ?N) xs 0 (unat l) = Some b1"
    "memcpy_at b1 0 xs (unat l) (unat n - unat l) = Some (ring_write (rb_buffer r) ?i (take (unat n) xs))"
    by (cases "memcpy_at (rb_buffer r) (?i mod ?N) xs 0 (unat l)") auto
  have "length (take (unat n) xs) = unat n" and "unat (rb_in r - rb_out r) + unat n \<le> ?N"
    using n room cap by auto
  note put = ring_ok_put[OF ok this]
  have "unat n - unat l \<le> ?i mod ?N" using ul \<open>unat n \<le> ?N\<close> by linarith
  with b put show thesis
    by (intro that[of b1]) (simp_all add: nl ring_ok_mask[OF ok] ringbuf_invar_ring ringbuf_contents_def ul)
qed

lemma ringbuf_avail_eq:
  "ringbuf_invar r \<Longrightarrow> unat (ringbuf_avail (Some r)) = unat (rb_size r) - length (ringbuf_contents r)"
  using ring_ok_room[of "rb_buffer r" "rb_size r" "rb_in r" "rb_out r"]
  by (simp add: ringbuf_avail_def ringbuf_invar_ring ringbuf_contents_def ring_ok_def)

lemma ringbuf_contents_le: "ringbuf_invar r \<Longrightarrow> length (ringbuf_contents r) \<le> unat (rb_size r)"
  by (simp add: ringbuf_invar_def length_ringbuf_contents word_le_nat_alt)

text \<open>The copies and the tracer calls of an insertion that fits.\<close>

lemma ringbuf_vprintf_fits:
  assumes inv: "ringbuf_invar r" and len: "len = int (length str)"
    and small: "length str < 2 ^ 31" and ne: "ringbuf_avail (Some r) \<noteq> 0"
    and fits: "length (ringbuf_contents r) + length str \<le> unat (rb_size r)"
  shows "\<exists>r' calls. ringbuf_vprintf (Some r) (Some (len, str)) = Some (Some r', len, calls) \<and>
    ringbuf_invar r' \<and> ringbuf_contents r' = ringbuf_contents r @ str \<and> rb_size r' = rb_size r \<and>
    traced_bytes calls = (if rb_in_tracing r = 0 then [] else str)"
proof -
  let ?off = "rb_in r AND (rb_size r - 1)"
  define n :: u64 where "n = word_of_int len"
  have un: "unat n = length str" using small len by (simp add: n_def unat_of_nat)
  have av: "n \<le> rb_size r - rb_in r + rb_out r"
    using ringbuf_avail_eq[OF inv] un fits by (simp add: word_le_nat_alt ringbuf_avail_def)
  define l where "l = min n (rb_size r - ?off)"
  have nn: "unat n \<le> length str" using un by simp
  obtain b1 b2 where b: "memcpy_at (rb_buffer r) (unat ?off) str 0 (unat l) = Some b1"
    "memcpy_at b1 0 str (unat l) (unat (n - l)) = Some b2"
    "ringbuf_invar (r\<lparr>rb_buffer := b2, rb_in := rb_in r + n\<rparr>)"
    "ringbuf_contents (r\<lparr>rb_buffer := b2, rb_in := rb_in r + n\<rparr>) = ringbuf_contents r @ str"
    "unat l + unat (n - l) = unat n"
    by (rule ringbuf_append[OF inv nn av l_def]) (rule that; simp add: un)
  note rd = memcpy_at_readback[OF b(1)] memcpy_at_readback[OF b(2)]
  have zero: "b1 = b2" if "\<not> 0 < n - l"
    using that b(2) memcpy_at_bounds[of b1 0 str "unat l" "unat (n - l)"]
    by (simp add: memcpy_at_Some word_gt_0)
  have str: "take (unat l) str @ take (unat (n - l)) (drop (unat l) str) = str"
    using b(5) un by (metis add.commute append_take_drop_id take_all take_take take_drop order_refl min.idem)
  have guard: "\<not> (rb_size r - rb_in r + rb_out r = 0 \<or> len < 0 \<or> n > rb_size r - rb_in r + rb_out r)"
    using ne len av by (auto simp: ringbuf_avail_def)
  have "ringbuf_vprintf (Some r) (Some (len, str)) =
      Some (Some (r\<lparr>rb_buffer := b2, rb_in := rb_in r + n\<rparr>), len,
        (if rb_in_tracing r = 0 then [] else [(rb_in_tracing r, take (unat l) str, rb_in_data r)]) @
        (if 0 < n - l then if rb_in_tracing r = 0 then []
         else [(rb_in_tracing r, take (unat (n - l)) (drop (unat l) str), rb_in_data r)] else []))"
    using guard b(1,2) rd zero
    unfolding ringbuf_vprintf_def Let_def option.case prod.case n_def[symmetric] l_def[symmetric]
    by (cases "0 < n - l") simp_all
  moreover have "take (unat (n - l)) (drop (unat l) str) = []" if "\<not> 0 < n - l"
    using that by (simp add: word_gt_0)
  ultimately show ?thesis
    using b(3,4) str by (cases "0 < n - l") (auto simp: traced_bytes_def)
qed

lemma ringbuf_vprintf_full:
  assumes inv: "ringbuf_invar r" and len: "len = int (length str)"
    and small: "length str < 2 ^ 31"
    and full: "ringbuf_avail (Some r) = 0 \<or> unat (rb_size r) < length (ringbuf_contents r) + length str"
  shows "ringbuf_vprintf (Some r) (Some (len, str)) = Some (Some r, - 1, [])"
proof -
  have "unat (word_of_int len :: u64) = length str"
    using small len by (simp add: unat_of_nat)
  then have "word_of_int len > ringbuf_avail (Some r)"
    if "unat (rb_size r) < length (ringbuf_contents r) + length str"
    using that ringbuf_avail_eq[OF inv] ringbuf_contents_le[OF inv]
    by (simp add: word_less_nat_alt)
  with full show ?thesis
    by (auto simp: ringbuf_vprintf_def Let_def ringbuf_avail_def)
qed

text \<open>What \<open>readv\<close> and \<open>writev\<close> promise: never more than the vectors hold.\<close>

definition readv_ok :: "(nat \<Rightarrow> nat \<Rightarrow> int \<times> u8 list) \<Rightarrow> bool" where
  "readv_ok readv \<longleftrightarrow> (\<forall>a b. fst (readv a b) \<le> int (a + b) \<and>
     (0 \<le> fst (readv a b) \<longrightarrow> int (length (snd (readv a b))) = fst (readv a b)))"

definition writev_ok :: "(u8 list \<Rightarrow> u8 list \<Rightarrow> int) \<Rightarrow> bool" where
  "writev_ok writev \<longleftrightarrow> (\<forall>x y. writev x y \<le> int (length x + length y))"

lemma ringbuf_read_ok:
  assumes inv: "ringbuf_invar r" and fd: "0 \<le> fd" and rv: "readv_ok readv"
  shows "\<exists>r' c calls data. ringbuf_read readv (Some r) fd = Some (Some r', c, calls) \<and>
    ringbuf_invar r' \<and> ringbuf_contents r' = ringbuf_contents r @ data \<and>
    rb_size r' = rb_size r \<and> length data = nat c \<and>
    traced_bytes calls = (if rb_in_tracing r = 0 then [] else data)"
proof -
  let ?off = "rb_in r AND (rb_size r - 1)" and ?av = "rb_size r - rb_in r + rb_out r"
  define e where "e = min ?av (rb_size r - ?off)"
  obtain c data where cd: "readv (unat e) (unat (?av - e)) = (c, data)" by fastforce
  have err: ?thesis if "ringbuf_read readv (Some r) fd = Some (Some r, - 1, [])"
    using that inv by (auto simp: traced_bytes_def)
  show ?thesis
  proof (cases "?av = 0 \<or> c < 0")
    case True
    then show ?thesis
      using fd cd by (intro err) (auto simp: ringbuf_read_def Let_def simp flip: e_def)
  next
    case False
    have sub: "unat e + unat (?av - e) = unat ?av"
      by (subst unat_sub) (simp_all add: e_def unat_min word_le_nat_alt[symmetric])
    have c: "c \<le> int (unat ?av)" "int (length data) = c"
      using rv[unfolded readv_ok_def, rule_format, of "unat e" "unat (?av - e)"] cd False sub
      by simp_all
    define n :: u64 where "n = word_of_int c"
    have "int (unat ?av) < 2 ^ 64" using unsigned_less[of ?av] by simp
    then have un: "unat n = length data"
      unfolding n_def using c False by (subst unat_word_of_int_small) auto
    moreover have "length data \<le> unat ?av" using c by linarith
    ultimately have nn: "unat n \<le> length data" and av: "n \<le> ?av"
      by (simp_all add: word_le_nat_alt)
    define l where "l = min n (rb_size r - ?off)"
    have le: "min n e = l" using av by (auto simp: l_def e_def min_def)
    obtain b1 b2 where b: "memcpy_at (rb_buffer r) (unat ?off) data 0 (unat l) = Some b1"
      "memcpy_at b1 0 data (unat l) (unat (n - l)) = Some b2"
      "ringbuf_invar (r\<lparr>rb_buffer := b2, rb_in := rb_in r + n\<rparr>)"
      "ringbuf_contents (r\<lparr>rb_buffer := b2, rb_in := rb_in r + n\<rparr>) = ringbuf_contents r @ data"
      "unat (n - l) \<le> unat ?off" "unat l + unat (n - l) = unat n"
      by (rule ringbuf_append[OF inv nn av l_def]) (rule that; simp add: un)
    have rd: "read_range b2 (unat ?off) (unat l) = Some (take (unat l) data)"
      using memcpy_at_before[OF b(2)] memcpy_at_readback[OF b(1)] b(5) by simp
    have d: "take (unat l) data @ take (unat (n - l)) (drop (unat l) data) = data"
      using b(6) un by (metis add.commute append_take_drop_id take_all take_take take_drop order_refl min.idem)
    have "ringbuf_read readv (Some r) fd = Some (Some (r\<lparr>rb_buffer := b2, rb_in := rb_in r + n\<rparr>), c,
        (if rb_in_tracing r = 0 then [] else [(rb_in_tracing r, take (unat l) data, rb_in_data r)]) @
        (if 0 < n - l then if rb_in_tracing r = 0 then []
         else [(rb_in_tracing r, take (unat (n - l)) (drop (unat l) data), rb_in_data r)] else []))"
      using False fd cd b(1,2) rd memcpy_at_readback[OF b(2)]
      by (simp add: ringbuf_read_def Let_def le flip: e_def n_def)
    moreover have "take (unat (n - l)) (drop (unat l) data) = []" if "\<not> 0 < n - l"
      using that by (simp add: word_gt_0)
    ultimately show ?thesis
      using b(3,4) c d by (cases "0 < n - l") (auto simp: traced_bytes_def)
  qed
qed

lemma ringbuf_write_ok:
  assumes inv: "ringbuf_invar r" and fd: "0 \<le> fd" and wv: "writev_ok writev"
  shows "\<exists>r' c x y. ringbuf_write writev (Some r) fd = Some (Some r', c) \<and> ringbuf_invar r' \<and>
    rb_size r' = rb_size r \<and> ringbuf_contents r = x @ y \<and>
    c = (if ringbuf_contents r = [] then 0 else if writev x y < 0 then - 1 else writev x y) \<and>
    ringbuf_contents r' = drop (nat c) (ringbuf_contents r)"
proof -
  let ?off = "rb_out r AND (rb_size r - 1)" and ?N = "length (rb_buffer r)"
  note ok = inv[unfolded ringbuf_invar_ring]
  define n where "n = rb_in r - rb_out r"
  define e where "e = min n (rb_size r - ?off)"
  have len: "length (ringbuf_contents r) = unat n"
    by (simp add: n_def length_ringbuf_contents)
  show ?thesis
  proof (cases "n = 0")
    case True
    then have "ringbuf_write writev (Some r) fd = Some (Some r, 0)"
      using fd by (simp add: ringbuf_write_def Let_def flip: n_def)
    with True inv len show ?thesis by simp
  next
    case False
    have nb: "unat n \<le> ?N" using ring_ok_le[OF ok] by (simp add: length_ring_val n_def)
    have ue: "unat e = min (unat n) (?N - unat (rb_out r) mod ?N)"
      by (simp add: e_def unat_min ring_ok_block[OF ok])
    have ne: "unat (n - e) = unat n - unat e" by (intro unat_sub) (simp add: e_def)
    define x where "x = take (unat e) (drop (unat (rb_out r) mod ?N) (rb_buffer r))"
    define y where "y = take (unat n - unat e) (rb_buffer r)"
    have xy: "x @ y = ringbuf_contents r"
      unfolding x_def y_def ringbuf_contents_def ring_val_def n_def[symmetric]
      by (rule ring_read_blocks[OF nb ue])
    have "unat (rb_out r) mod ?N < ?N" using ring_ok_pos[OF ok] by simp
    then have "unat (rb_out r) mod ?N + unat e \<le> ?N" "unat n - unat e \<le> ?N" using ue nb by linarith+
    then have rd: "read_range (rb_buffer r) (unat ?off) (unat e) = Some x"
      "read_range (rb_buffer r) 0 (unat (n - e)) = Some y"
      by (simp_all add: read_range_def x_def y_def ring_ok_mask[OF ok] ne)
    define c where "c = writev x y"
    have w: "ringbuf_write writev (Some r) fd = Some (if c < 0 then (Some r, - 1)
        else (Some (reset_if_empty (r\<lparr>rb_out := rb_out r + word_of_int c\<rparr>)), c))"
      using fd False rd unfolding ringbuf_write_def Let_def option.case n_def[symmetric] e_def[symmetric]
      by (simp add: c_def)
    have ce: "c \<le> int (unat n)"
      using wv[unfolded writev_ok_def, rule_format, of x y] xy len by (simp add: c_def flip: length_append)
    have cn: "ringbuf_contents r \<noteq> []" using False len by (auto simp: unat_eq_0)
    show ?thesis
    proof (cases "c < 0")
      case True
      then have "ringbuf_write writev (Some r) fd = Some (Some r, - 1)" "writev x y < 0"
        using w by (simp_all add: c_def)
      with inv xy cn show ?thesis by (intro exI[of _ r] exI[of _ "- 1"] exI[of _ x] exI[of _ y]) simp
    next
      case False
      have "int (unat n) < 2 ^ 64" using unsigned_less[of n] by simp
      then have uc: "unat (word_of_int c :: u64) = nat c"
        using ce False by (subst unat_word_of_int_small) auto
      moreover have "nat c \<le> unat n" using ce by linarith
      ultimately have "word_of_int c \<le> rb_in r - rb_out r"
        by (simp add: word_le_nat_alt flip: n_def)
      from ringbuf_remove[OF inv this] w xy cn False uc show ?thesis
        by (intro exI[of _ x] exI[of _ y] exI[of _ c] exI) (auto simp: c_def)
    qed
  qed
qed

section \<open>The ring buffer implements the byte-stream contract\<close>

text \<open>
  A client that prints whole strings and lets a descriptor take up to \<open>n\<close> bytes. A refused string
  counts as no byte accepted.
\<close>

definition rb_put :: "ringbuf \<Rightarrow> u8 list \<Rightarrow> (ringbuf \<times> nat) option" where
  "rb_put r str =
     (case ringbuf_vprintf (Some r) (Some (int (length str), str)) of
        Some (Some r', len, calls) \<Rightarrow> Some (r', nat len) | _ \<Rightarrow> None)"

definition rb_get :: "ringbuf \<Rightarrow> nat \<Rightarrow> (ringbuf \<times> u8 list) option" where
  "rb_get r n =
     (case ringbuf_write (\<lambda>x y. int (min n (length x + length y))) (Some r) 0 of
        Some (Some r', c) \<Rightarrow> Some (r', take (nat c) (ringbuf_contents r)) | _ \<Rightarrow> None)"

interpretation rb: byte_stream ringbuf_invar ringbuf_contents "2 ^ 31" rb_put rb_get
proof unfold_locales
  fix r and xs :: "u8 list"
  assume inv: "ringbuf_invar r" and len: "length xs < 2 ^ 31"
  show "\<exists>r' n. rb_put r xs = Some (r', n) \<and> ringbuf_invar r' \<and> n \<le> length xs \<and>
      ringbuf_contents r' = ringbuf_contents r @ take n xs"
  proof (cases "ringbuf_avail (Some r) = 0 \<or>
      unat (rb_size r) < length (ringbuf_contents r) + length xs")
    case True
    then show ?thesis using ringbuf_vprintf_full[OF inv refl len] inv by (simp add: rb_put_def)
  next
    case False
    then show ?thesis using ringbuf_vprintf_fits[OF inv refl len] by (auto simp: rb_put_def)
  qed
next
  fix r n
  assume inv: "ringbuf_invar r"
  have wv: "writev_ok (\<lambda>x y. int (min n (length x + length y)))" by (auto simp: writev_ok_def min_def)
  obtain r' c x y where w: "ringbuf_write (\<lambda>x y. int (min n (length x + length y))) (Some r) 0 =
      Some (Some r', c)" "ringbuf_invar r'" "ringbuf_contents r = x @ y"
    "c = (if ringbuf_contents r = [] then 0 else if int (min n (length x + length y)) < 0 then - 1
          else int (min n (length x + length y)))"
    "ringbuf_contents r' = drop (nat c) (ringbuf_contents r)"
    using ringbuf_write_ok[OF inv order_refl wv] by blast
  then have "nat c \<le> n" by (auto split: if_splits)
  with w(1,2,5) show "\<exists>r' ys. rb_get r n = Some (r', ys) \<and> ringbuf_invar r' \<and> length ys \<le> n \<and>
      ringbuf_contents r = ys @ ringbuf_contents r'"
    by (auto simp: rb_get_def)
qed

section \<open>Properties\<close>



text \<open>
  \<open>ringbuf_vprintf\<close> is all or nothing: a formatted string is appended to the contents when
  it fits into a buffer that is not full, and otherwise the call returns -1 and changes nothing.
  A tracer, when one is set, is shown exactly the appended bytes, in order.
\<close>

theorem ringbuf_vprintf_all_or_nothing:
  assumes "ringbuf_invar r" and "length str < 2 ^ 31"
  shows "\<exists>r' ret calls.
    ringbuf_vprintf (Some r) (Some (int (length str), str)) = Some (Some r', ret, calls) \<and>
    (if ringbuf_avail (Some r) \<noteq> 0 \<and> length (ringbuf_contents r) + length str \<le> unat (rb_size r)
     then ret = int (length str) \<and> ringbuf_invar r' \<and>
          ringbuf_contents r' = ringbuf_contents r @ str \<and>
          traced_bytes calls = (if rb_in_tracing r = 0 then [] else str)
     else ret = - 1 \<and> r' = r \<and> calls = [])"
  using ringbuf_vprintf_fits[OF assms(1) refl assms(2)] ringbuf_vprintf_full[OF assms(1) refl assms(2)]
  by (cases "ringbuf_avail (Some r) \<noteq> 0 \<and>
      length (ringbuf_contents r) + length str \<le> unat (rb_size r)") auto

theorem ringbuf_vprintf_all_or_nothing_witness:
  "\<exists>r' calls. ringbuf_vprintf (Some \<lparr>rb_buffer = [0, 0], rb_size = 2, rb_in = 1, rb_out = 1,
      rb_in_tracing = 5, rb_in_data = 6\<rparr>) (Some (2, [7, 8])) = Some (Some r', 2, calls) \<and>
      ringbuf_contents r' = [7, 8] \<and> traced_bytes calls = [7, 8]"
proof -
  let ?r = "\<lparr>rb_buffer = [0, 0], rb_size = 2, rb_in = 1, rb_out = 1, rb_in_tracing = 5,
    rb_in_data = 6\<rparr> :: ringbuf"
  have "ringbuf_invar ?r" by (auto simp: ringbuf_invar_def intro: exI[of _ 1])
  moreover have "ringbuf_contents ?r = []" by (simp add: ringbuf_contents_def ring_val_def)
  ultimately show ?thesis
    using ringbuf_vprintf_all_or_nothing[of ?r "[7, 8]"] by (auto simp: ringbuf_avail_def)
qed

text \<open>
  \<open>ringbuf_read\<close> appends exactly the bytes \<open>readv\<close> delivered, whatever the split between the
  two vectors, and shows them to the tracer in order.
\<close>

theorem ringbuf_read_appends:
  assumes "ringbuf_invar r" and "0 \<le> fd" and "readv_ok readv"
  shows "\<exists>r' c calls data. ringbuf_read readv (Some r) fd = Some (Some r', c, calls) \<and>
    ringbuf_invar r' \<and> ringbuf_contents r' = ringbuf_contents r @ data \<and> length data = nat c \<and>
    traced_bytes calls = (if rb_in_tracing r = 0 then [] else data)"
  using ringbuf_read_ok[OF assms] by blast

theorem ringbuf_read_appends_witness:
  "\<exists>r' c calls data. ringbuf_read (\<lambda>a b. (int (min 3 (a + b)), replicate (min 3 (a + b)) 9))
     (Some \<lparr>rb_buffer = [0, 0], rb_size = 2, rb_in = 1, rb_out = 1, rb_in_tracing = 0,
        rb_in_data = 0\<rparr>) 0 = Some (Some r', c, calls) \<and>
     ringbuf_contents r' = data \<and> length data = nat c"
proof -
  let ?r = "\<lparr>rb_buffer = [0, 0], rb_size = 2, rb_in = 1, rb_out = 1, rb_in_tracing = 0,
    rb_in_data = 0\<rparr> :: ringbuf"
  have "ringbuf_invar ?r" by (auto simp: ringbuf_invar_def intro: exI[of _ 1])
  moreover have "ringbuf_contents ?r = []" by (simp add: ringbuf_contents_def ring_val_def)
  moreover have "readv_ok (\<lambda>a b. (int (min 3 (a + b)), replicate (min 3 (a + b)) 9))"
    by (auto simp: readv_ok_def min_def)
  ultimately show ?thesis
    using ringbuf_read_appends[of ?r 0 "\<lambda>a b. (int (min 3 (a + b)), replicate (min 3 (a + b)) 9)"]
    by auto
qed

text \<open>
  \<open>ringbuf_new\<close> on every size: sizes below 2 and above \<open>UINT_MAX\<close> are refused; a size from 2
  to 2^31 gives an empty well-formed buffer whose capacity is the least power of two that is at
  least the size; a size above 2^31 that is still within \<open>UINT_MAX\<close> reaches the undefined shift
  by 32 of \<open>align_power2\<close>.
\<close>

theorem ringbuf_new_outcomes:
  assumes "\<forall>n buf. malloc n = Some buf \<longrightarrow> length buf = n"
  shows "if unat sz < 2 \<or> 2 ^ 32 \<le> unat sz then ringbuf_new malloc sz = Some None
    else if 2 ^ 31 < unat sz then ringbuf_new malloc sz = None
    else \<exists>k. unat sz \<le> 2 ^ k \<and> 2 ^ k < 2 * unat sz \<and>
      (case malloc (2 ^ k) of None \<Rightarrow> ringbuf_new malloc sz = Some None
       | Some buf \<Rightarrow> \<exists>r. ringbuf_new malloc sz = Some (Some r) \<and> ringbuf_invar r \<and>
           ringbuf_contents r = [] \<and> unat (ringbuf_capacity (Some r)) = 2 ^ k)"
proof (cases "unat sz < 2 \<or> 2 ^ 32 \<le> unat sz")
  case True
  then show ?thesis by (auto simp: ringbuf_new_def word_less_nat_alt)
next
  case False
  let ?u = "ucast sz :: u32" and ?k = "fls (ucast sz - 1 :: u32)"
  have u: "unat ?u = unat sz" using False by (simp add: unsigned_ucast_eq take_bit_nat_eq_self)
  have g: "\<not> (sz < 2 \<or> sz > 0xFFFFFFFF)" using False by (auto simp: word_less_nat_alt)
  have u2: "2 \<le> unat ?u" using u False by simp
  note a = align_power2_eq[OF u2, unfolded u]
  show ?thesis
  proof (cases "2 ^ 31 < unat sz")
    case True
    with a(1) g False show ?thesis by (simp add: ringbuf_new_def)
  next
    case le: False
    have k: "?k < 32"
    proof (rule ccontr)
      assume "\<not> ?k < 32"
      with a(1) le show False by (simp add: align_power2_def)
    qed
    define w :: u32 where "w = push_bit ?k 1"
    have s: "align_power2 ?u = Some w" "unat w = 2 ^ ?k"
      using a(1) le k unat_push_bit_1[OF k] by (simp_all add: w_def del: push_bit_of_1)
    then have s': "unat (ucast w :: u64) = 2 ^ ?k" by (simp add: unat_ucast_widen)
    have n: "ringbuf_new malloc sz = Some (case malloc (2 ^ ?k) of None \<Rightarrow> None
        | Some buf \<Rightarrow> Some \<lparr>rb_buffer = buf, rb_size = ucast w, rb_in = RINGBUF_RESET,
                            rb_out = RINGBUF_RESET, rb_in_tracing = 0, rb_in_data = 0\<rparr>)"
      using g s by (simp add: ringbuf_new_def)
    have "case malloc (2 ^ ?k) of None \<Rightarrow> ringbuf_new malloc sz = Some None
       | Some buf \<Rightarrow> \<exists>r. ringbuf_new malloc sz = Some (Some r) \<and> ringbuf_invar r \<and>
           ringbuf_contents r = [] \<and> unat (ringbuf_capacity (Some r)) = 2 ^ ?k"
      using n s' assms
      by (auto simp: ringbuf_invar_def ringbuf_contents_def ring_val_def ringbuf_capacity_def RINGBUF_RESET_def
          split: option.split)
    with a(2,3) le False show ?thesis by auto
  qed
qed

theorem ringbuf_new_outcomes_witness:
  "ringbuf_new (\<lambda>n. Some (replicate n 0)) 0x80000001 = None"
  using ringbuf_new_outcomes[of "\<lambda>n. Some (replicate n 0)" "0x80000001"] by simp

text \<open>
  \<open>ringbuf_peek\<close> at offset 0 points at the first stored byte, and the length it reports is
  the longest run of stored bytes that does not wrap.
\<close>

theorem ringbuf_peek_prefix:
  assumes "ringbuf_invar r"
  shows "\<exists>p n. ringbuf_peek (Some r) 0 = Some (p, n) \<and>
    read_range (rb_buffer r) (unat p) (unat n) = Some (take (unat n) (ringbuf_contents r)) \<and>
    unat n = min (length (ringbuf_contents r)) (unat (rb_size r) - unat p)"
proof -
  let ?N = "length (rb_buffer r)"
  note ok = assms[unfolded ringbuf_invar_ring]
  define n where "n = min (rb_in r - rb_out r) (rb_size r - (rb_out r AND (rb_size r - 1)))"
  have N: "?N = unat (rb_size r)" using assms by (simp add: ringbuf_invar_def)
  have un: "unat n = min (length (ringbuf_contents r)) (?N - unat (rb_out r) mod ?N)"
    by (simp add: n_def unat_min ring_ok_block[OF ok] length_ringbuf_contents)
  have nb: "unat n \<le> ?N" using un by simp
  have "unat n = min (unat n) (?N - unat (rb_out r) mod ?N)" using un by simp
  from ring_read_blocks[OF nb this]
  have "take (unat n) (drop (unat (rb_out r) mod ?N) (rb_buffer r)) =
      take (unat n) (ringbuf_contents r)"
    using un by (simp add: ringbuf_contents_def ring_val_def ring_slice_take)
  moreover have "unat (rb_out r) mod ?N + unat n \<le> ?N"
    using un ring_ok_pos[OF ok] mod_less_divisor[of ?N "unat (rb_out r)"] by linarith
  ultimately have "read_range (rb_buffer r) (unat (rb_out r) mod ?N) (unat n) =
      Some (take (unat n) (ringbuf_contents r))" by (simp add: read_range_def)
  then show ?thesis
    using un by (simp add: ringbuf_peek_def Let_def ring_ok_mask[OF ok] N flip: n_def)
qed

theorem ringbuf_peek_prefix_witness:
  "\<exists>p n. ringbuf_peek (Some \<lparr>rb_buffer = [0, 0], rb_size = 2, rb_in = 1, rb_out = 1,
     rb_in_tracing = 0, rb_in_data = 0\<rparr>) 0 = Some (p, n) \<and> unat n = 0"
proof -
  let ?r = "\<lparr>rb_buffer = [0, 0], rb_size = 2, rb_in = 1, rb_out = 1, rb_in_tracing = 0,
    rb_in_data = 0\<rparr> :: ringbuf"
  have "ringbuf_invar ?r" by (auto simp: ringbuf_invar_def intro: exI[of _ 1])
  moreover have "ringbuf_contents ?r = []" by (simp add: ringbuf_contents_def ring_val_def)
  ultimately show ?thesis using ringbuf_peek_prefix[of ?r] by auto
qed

text \<open>
  With a positive offset the reported length still counts from the first stored byte: on a
  buffer that holds the one byte 7, a peek at offset 1 reports one more byte, which is not part
  of the contents.
\<close>

lemma ringbuf_peek_offset_overruns:
  "ringbuf_invar \<lparr>rb_buffer = [7, 9], rb_size = 2, rb_in = 1, rb_out = 0, rb_in_tracing = 0, rb_in_data = 0\<rparr> \<and>
   ringbuf_contents \<lparr>rb_buffer = [7, 9], rb_size = 2, rb_in = 1, rb_out = 0, rb_in_tracing = 0, rb_in_data = 0\<rparr> = [7] \<and>
   ringbuf_peek (Some \<lparr>rb_buffer = [7, 9], rb_size = 2, rb_in = 1, rb_out = 0, rb_in_tracing = 0, rb_in_data = 0\<rparr>) 1 = Some (1, 1)"
proof -
  have "(1::u64) AND 1 = 1" by simp
  then show ?thesis
    by (auto simp: ringbuf_invar_def ringbuf_contents_def ring_val_def ring_slice_def
        ringbuf_peek_def intro: exI[of _ 1])
qed

end
