(* ===== verification/Utils.thy ===== *)
theory Utils
  imports Prelude
begin

text \<open>
  Helpers of \<open>src/src/util/utils.c\<close>: the allocator wrapper \<open>xmalloc\<close>, whose size parameter is an
  \<open>int\<close>, the exclusive-or \<open>swap\<close>, and the conversions between bytes and hexadecimal text.

  A C string is the list of its bytes before the terminating zero. \<open>to_hex_string\<close> and
  \<open>from_hex_string\<close> return \<open>None\<close> when they would touch a byte outside the destination.
  Sizes are natural numbers below 2^31, where the conversions between \<open>size_t\<close> and \<open>int\<close> of the
  source keep their value.
\<close>

section \<open>Operations\<close>

text \<open>
  \<open>xmalloc\<close> replaces a zero size by one, and passes the sign-extended size to \<open>malloc\<close>; the
  result \<open>None\<close> is the panic of an allocation that fails.
\<close>

definition xmalloc :: "(nat \<Rightarrow> u8 list option) \<Rightarrow> u32 \<Rightarrow> u8 list option" where
  "xmalloc malloc sz = malloc (unat (scast (if sz = 0 then sz + 1 else sz) :: u64))"

definition swap :: "u64 \<Rightarrow> u64 \<Rightarrow> u64 \<times> u64" where
  "swap a b =
     (let a = a XOR b;
          b = a XOR b;
          a = a XOR b
      in (a, b))"

definition hexdigits_upper :: "u8 list" where
  "hexdigits_upper = map of_char ''0123456789ABCDEF''"

definition hexdigits_lower :: "u8 list" where
  "hexdigits_lower = map of_char ''0123456789abcdef''"

definition hex_pair :: "u8 \<Rightarrow> u8 \<Rightarrow> u8 list" where
  "hex_pair flags v =
     (let digits = if bit flags 2 then hexdigits_upper else hexdigits_lower
      in [digits ! unat (drop_bit 4 v AND 0xF), digits ! unat (v AND 0xF)] @
         (if bit flags 0 then [32] else []))"

text \<open>\<open>char\<close> is signed: a byte above 127 is below \<open>' '\<close>.\<close>

definition printable :: "u8 \<Rightarrow> u8" where
  "printable v = (if v <s 32 \<or> 126 <s v then 46 else v)"

definition hex_max_len :: "nat \<Rightarrow> u8 \<Rightarrow> nat" where
  "hex_max_len sz flags =
     (if bit flags 1 then (if bit flags 0 then (sz - 1) div 4 else (sz - 2) div 3)
      else (if bit flags 0 then sz div 3 else (sz - 1) div 2))"

text \<open>A null destination is \<open>None\<close>.\<close>

definition to_hex_string ::
  "u8 list \<Rightarrow> u8 list option \<Rightarrow> nat \<Rightarrow> u8 \<Rightarrow> (u8 list option \<times> int) option" where
  "to_hex_string bytes dst sz flags =
     (case dst of None \<Rightarrow> Some (None, - 1)
      | Some buf \<Rightarrow>
          if sz < 3 then Some (dst, 0)
          else let max_len = hex_max_len sz flags
          in if max_len = 0 then Some (dst, 0)
          else let makeEllipsis = length bytes > max_len;
                   len = if makeEllipsis then max_len - 1 else length bytes;
                   xs = take len bytes;
                   hex = concat (map (hex_pair flags) xs) @ (if makeEllipsis then [46, 46] else []);
                   p1 = length hex
          in do {
            b1 \<leftarrow> write_range buf 0 hex;
            (b2, p2) \<leftarrow>
              (if bit flags 1
               then if p1 = 0 then None
                    else let ascii = (if b1 ! (p1 - 1) \<noteq> 32 then [32] else []) @ map printable xs @
                                     (if bit flags 0 then [32] else [])
                         in do {
                           b \<leftarrow> write_range b1 p1 ascii;
                           Some (b, p1 + length ascii)
                         }
               else Some (b1, p1));
            p3 \<leftarrow> (if bit flags 0 then if p2 = 0 then None else Some (p2 - 1) else Some p2);
            b3 \<leftarrow> write_range b2 p3 [0];
            Some (Some b3, int len)
          })"

text \<open>\<open>toupper\<close> of the C locale, then the two range adjustments of the source.\<close>

definition toupper8 :: "u8 \<Rightarrow> u8" where
  "toupper8 c = (if 97 \<le> c \<and> c \<le> 122 then c - 32 else c)"

definition hex_value :: "u8 \<Rightarrow> u8" where
  "hex_value c0 =
     (let c = toupper8 c0;
          c = if 65 \<le> c then c - (65 - 10) else c;
          c = if 48 \<le> c then c - 48 else c
      in c)"

text \<open>
  The loop of \<open>from_hex_string\<close> on a destination of \<open>cap\<close> bytes; \<open>acc\<close> is what has been stored.
  The \<open>size\<close> argument of the source is never read.
\<close>

function from_hex_loop :: "nat \<Rightarrow> u8 list \<Rightarrow> u8 list \<Rightarrow> (int \<times> u8 list) option" where
  "from_hex_loop cap s acc =
     (case dropWhile (\<lambda>c. c = 32) s of
        [] \<Rightarrow> Some (int (length acc), acc)
      | m # r \<Rightarrow>
          if hex_value m > 15 then Some (- int (length acc), acc)
          else (case r of
              [] \<Rightarrow> Some (int (length acc), acc)
            | l # r' \<Rightarrow>
                if hex_value l > 15 then Some (- int (length acc), acc)
                else if cap \<le> length acc then None
                else from_hex_loop cap r' (acc @ [push_bit 4 (hex_value m) OR hex_value l])))"
  by pat_completeness auto
termination
proof (relation "measure (\<lambda>(cap, s, acc). length s)")
  fix cap and s acc r r' :: "u8 list" and m l
  assume "dropWhile (\<lambda>c. c = 32) s = m # r" "r = l # r'"
  then have "length (dropWhile (\<lambda>c. c = 32) s) = length r' + 2" by simp
  moreover have "length (dropWhile (\<lambda>c. c = 32) s) \<le> length s" by (rule length_dropWhile_le)
  ultimately show "((cap, r', acc @ [push_bit 4 (hex_value m) OR hex_value l]), cap, s, acc)
      \<in> measure (\<lambda>(cap, s, acc). length s)" by simp
qed simp

definition from_hex_string :: "nat \<Rightarrow> u8 list \<Rightarrow> (int \<times> u8 list) option" where
  "from_hex_string cap hexstr = from_hex_loop cap hexstr []"

text \<open>The C string stored in a buffer.\<close>

definition c_string :: "u8 list \<Rightarrow> u8 list" where
  "c_string buf = takeWhile (\<lambda>c. c \<noteq> 0) buf"

declare from_hex_loop.simps [simp del]

section \<open>Hexadecimal digits\<close>

lemma hexdigits_values:
  "list_all (\<lambda>i. hex_value (hexdigits_upper ! i) = of_nat i \<and> hex_value (hexdigits_lower ! i) = of_nat i \<and>
     hexdigits_upper ! i \<noteq> 32 \<and> hexdigits_lower ! i \<noteq> 32 \<and>
     hexdigits_upper ! i \<noteq> 0 \<and> hexdigits_lower ! i \<noteq> 0) [0..<16]"
  by code_simp

definition hexdigit :: "u8 \<Rightarrow> nat \<Rightarrow> u8" where
  "hexdigit flags i = (if bit flags 2 then hexdigits_upper else hexdigits_lower) ! i"

lemma hexdigit_value:
  assumes "i < 16"
  shows "hex_value (hexdigit flags i) = of_nat i" "hexdigit flags i \<noteq> 32" "hexdigit flags i \<noteq> 0"
  using hexdigits_values assms by (auto simp: list_all_iff hexdigit_def)

lemma hex_pair_eq:
  "hex_pair flags v = [hexdigit flags (unat (drop_bit 4 v AND 0xF)), hexdigit flags (unat (v AND 0xF))] @
     (if bit flags 0 then [32] else [])"
  by (simp add: hex_pair_def hexdigit_def Let_def)

lemma nibble_less: "unat (v AND 0xF :: u8) < 16"
proof -
  have "v AND 0xF = take_bit 4 v" by (simp add: take_bit_eq_mask mask_eq_exp_minus_1)
  then have "unat (v AND 0xF) = take_bit 4 (unat v)" by (simp only: unsigned_take_bit_eq)
  then show ?thesis by (simp add: take_bit_eq_mod)
qed

lemma nibbles_join: "push_bit 4 (drop_bit 4 v AND 0xF) OR (v AND 0xF) = (v :: u8)"
proof -
  have m: "x AND 0xF = take_bit 4 x" for x :: u8 by (simp add: take_bit_eq_mask mask_eq_exp_minus_1)
  show ?thesis unfolding m by (rule bit_word_eqI) (auto simp: bit_simps)
qed

section \<open>Printing stays inside the buffer\<close>

lemma length_hex: "length (concat (map (hex_pair flags) xs)) = length xs * (if bit flags 0 then 3 else 2)"
  by (induction xs) (auto simp: hex_pair_eq)

lemma last_hex:
  assumes "xs \<noteq> []" "bit flags 0"
  shows "last (concat (map (hex_pair flags) xs)) = 32"
  using assms by (induction xs) (auto simp: hex_pair_eq last_append)

lemma write_at_0_last:
  assumes "write_range buf 0 xs = Some b" "xs \<noteq> []"
  shows "b ! (length xs - 1) = last xs"
  using assms by (auto simp: write_range_def nth_append last_conv_nth split: if_splits)

lemma to_hex_string_in_bounds:
  assumes ne: "bytes \<noteq> []" and big: "3 \<le> length buf"
    and m: "max_len = hex_max_len (length buf) flags" "max_len \<noteq> 0"
    and e: "ell = (length bytes > max_len)" and l: "len = (if ell then max_len - 1 else length bytes)"
    and h: "hex = concat (map (hex_pair flags) (take len bytes)) @ (if ell then [46, 46] else [])"
  shows "length hex \<le> length buf" and "hex \<noteq> []" and "len \<le> length bytes"
    and "bit flags 1 \<Longrightarrow> length hex + (if last hex \<noteq> 32 then 1 else 0) + len + 1 \<le> length buf"
    and "\<not> bit flags 0 \<Longrightarrow> length hex < length buf"
proof -
  have len: "len \<le> length bytes" using e l by auto
  then show "len \<le> length bytes" .
  have lh: "length hex = len * (if bit flags 0 then 3 else 2) + (if ell then 2 else 0)"
    using len by (simp add: h length_hex)
  have pos: "ell \<or> 0 < len" using ne l by auto
  then show "hex \<noteq> []" using lh by (cases "hex = []") (auto split: if_splits)
  have last: "last hex = 32" if "\<not> ell" "bit flags 0"
    using that last_hex[of "take len bytes" flags] pos ne by (simp add: h)
  have bound: "if ell then len + 1 = max_len else len \<le> max_len"
    using e l m(2) by auto
  show "length hex \<le> length buf" "\<not> bit flags 0 \<Longrightarrow> length hex < length buf"
    using bound m(1) big pos unfolding lh hex_max_len_def by (auto split: if_splits)
  show "bit flags 1 \<Longrightarrow> length hex + (if last hex \<noteq> 32 then 1 else 0) + len + 1 \<le> length buf"
    using bound m(1) big pos last unfolding lh hex_max_len_def by (auto split: if_splits)
qed

lemma to_hex_string_ok:
  assumes ne: "bytes \<noteq> []"
  shows "\<exists>b n. to_hex_string bytes (Some buf) (length buf) flags = Some (Some b, int n) \<and>
    length b = length buf \<and> n \<le> length bytes"
proof (cases "length buf < 3 \<or> hex_max_len (length buf) flags = 0")
  case True
  then show ?thesis by (auto simp: to_hex_string_def)
next
  case False
  define ell where "ell = (length bytes > hex_max_len (length buf) flags)"
  define len where "len = (if ell then hex_max_len (length buf) flags - 1 else length bytes)"
  define hex where "hex = concat (map (hex_pair flags) (take len bytes)) @ (if ell then [46, 46] else [])"
  have big: "3 \<le> length buf" "hex_max_len (length buf) flags \<noteq> 0" using False by auto
  note b = to_hex_string_in_bounds[OF ne big(1) refl big(2) ell_def len_def hex_def]
  obtain b1 where b1: "write_range buf 0 hex = Some b1" using b(1) by (simp add: write_range_def)
  note l1 = write_range_length[OF b1] write_at_0_last[OF b1 b(2)]
  define ascii where "ascii = (if b1 ! (length hex - 1) \<noteq> 32 then [32] else []) @
    map printable (take len bytes) @ (if bit flags 0 then [32] else [])"
  define p2 where "p2 = (if bit flags 1 then length hex + length ascii else length hex)"
  have la: "length ascii = (if last hex \<noteq> 32 then 1 else 0) + len + (if bit flags 0 then 1 else 0)"
    using b(3) l1(2) by (simp add: ascii_def)
  obtain b2 where b2: "(if bit flags 1 then write_range b1 (length hex) ascii else Some b1) = Some b2"
      "length b2 = length buf"
    using b(4) la l1 by (cases "bit flags 1"; cases "last hex = 32"; cases "bit flags 0") (auto simp: write_range_def)
  have p3: "0 < p2" "(if bit flags 0 then p2 - 1 else p2) < length buf"
    using b(1,2,4,5) la big(1) by (auto simp: p2_def)
  then obtain b3 where b3: "write_range b2 (if bit flags 0 then p2 - 1 else p2) [0] = Some b3"
    using b2(2) by (simp add: write_range_def)
  have "to_hex_string bytes (Some buf) (length buf) flags = Some (Some b3, int len)"
    using False b1 b2(1) b3 p3(1) b(2)
    unfolding to_hex_string_def Let_def option.case ell_def[symmetric] len_def[symmetric] hex_def[symmetric]
    by (cases "bit flags 1"; cases "bit flags 0") (simp_all add: ascii_def p2_def)
  with b(3) write_range_length[OF b3] b2(2) show ?thesis by auto
qed

section \<open>Reading back\<close>

lemma from_hex_space: "from_hex_loop cap (32 # s) acc = from_hex_loop cap s acc"
  by (simp add: from_hex_loop.simps[of cap "32 # s"] from_hex_loop.simps[of cap s])

lemma from_hex_digits:
  assumes "length acc < cap"
  shows "from_hex_loop cap (hexdigit flags (unat (drop_bit 4 v AND 0xF)) #
      hexdigit flags (unat (v AND 0xF)) # s) acc = from_hex_loop cap s (acc @ [v])"
proof -
  have d: "hex_value (hexdigit flags (unat (x AND 0xF))) = x AND 0xF" "\<not> 15 < x AND (0xF :: u8)" for x
    using hexdigit_value(1)[OF nibble_less[of x], of flags] nibble_less[of x]
    by (simp_all add: word_less_nat_alt)
  have "push_bit 4 (hex_value (hexdigit flags (unat (drop_bit 4 v AND 0xF)))) OR
      hex_value (hexdigit flags (unat (v AND 0xF))) = v"
    unfolding d(1) by (rule nibbles_join)
  with assms d show ?thesis
    by (subst from_hex_loop.simps) (simp add: hexdigit_value(2)[OF nibble_less] del: unsigned_and_eq)
qed

lemma from_hex_pairs:
  assumes "length acc + length xs \<le> cap"
  shows "from_hex_loop cap (concat (map (hex_pair flags) xs)) acc = Some (int (length (acc @ xs)), acc @ xs)"
    and "bit flags 0 \<Longrightarrow> from_hex_loop cap (butlast (concat (map (hex_pair flags) xs))) acc =
      Some (int (length (acc @ xs)), acc @ xs)"
  using assms
proof (induction xs arbitrary: acc)
  case Nil
  { case 1 show ?case by (simp add: from_hex_loop.simps) }
  { case 2 show ?case by (simp add: from_hex_loop.simps) }
next
  case (Cons v xs)
  { case 1
    with Cons.IH(1)[of "acc @ [v]"] show ?case
      by (cases "bit flags 0") (simp_all add: hex_pair_eq from_hex_space from_hex_digits) }
  { case 2
    have "concat (map (hex_pair flags) xs) \<noteq> []" if "xs \<noteq> []"
      using that by (cases xs) (auto simp: hex_pair_eq)
    with 2 Cons.IH(2)[of "acc @ [v]"] show ?case
      by (cases "xs = []")
        (simp_all add: hex_pair_eq butlast_append from_hex_space from_hex_digits from_hex_loop.simps[of _ "[]"]) }
qed

lemma hex_nonzero: "c \<in> set (concat (map (hex_pair flags) xs)) \<Longrightarrow> c \<noteq> 0"
  using hexdigit_value(3)[OF nibble_less] by (auto simp: hex_pair_eq split: if_splits)

lemma c_string_terminated:
  assumes "\<And>c. c \<in> set xs \<Longrightarrow> c \<noteq> 0"
  shows "c_string (xs @ 0 # ys) = xs"
  using assms by (simp add: c_string_def takeWhile_append2)

lemma to_hex_string_text:
  assumes ne: "bytes \<noteq> []" and plain: "\<not> bit flags 1"
    and fits: "length bytes \<le> hex_max_len (length buf) flags" and big: "3 \<le> length buf"
  shows "\<exists>b. to_hex_string bytes (Some buf) (length buf) flags = Some (Some b, int (length bytes)) \<and>
    c_string b = (if bit flags 0 then butlast else id) (concat (map (hex_pair flags) bytes))"
proof -
  define hex where "hex = concat (map (hex_pair flags) bytes)"
  have pos: "hex_max_len (length buf) flags \<noteq> 0" using fits ne by (cases bytes) auto
  note b = to_hex_string_in_bounds[OF ne big refl pos refl refl refl, unfolded if_not_P[OF leD[OF fits]]]
  have h: "length hex \<le> length buf" "hex \<noteq> []" "\<not> bit flags 0 \<Longrightarrow> length hex < length buf"
    using b(1,2,5) fits by (auto simp: hex_def)
  define p where "p = (if bit flags 0 then length hex - 1 else length hex)"
  have p: "p < length buf" "p \<le> length hex" using h big by (auto simp: p_def)
  define b1 where "b1 = hex @ drop (length hex) buf"
  have w: "write_range buf 0 hex = Some b1" "write_range b1 p [0] = Some (take p b1 @ 0 # drop (p + 1) b1)"
    using h p by (simp_all add: write_range_def b1_def)
  have "to_hex_string bytes (Some buf) (length buf) flags =
      Some (Some (take p b1 @ 0 # drop (p + 1) b1), int (length bytes))"
    using plain fits big pos h(2) w
    unfolding to_hex_string_def Let_def option.case
    by (cases "bit flags 0") (simp_all add: p_def flip: hex_def)
  moreover have t: "take p b1 = (if bit flags 0 then butlast else id) hex"
    using p h by (simp add: p_def b1_def butlast_conv_take)
  moreover have "c \<noteq> 0" if "c \<in> set (take p b1)" for c
    using that t hex_nonzero[of c flags bytes] in_set_butlastD[of c hex]
    by (cases "bit flags 0") (auto simp: hex_def)
  ultimately show ?thesis using c_string_terminated[of "take p b1"] by (simp add: hex_def)
qed

section \<open>Properties\<close>

text \<open>
  Printing a non-empty byte buffer as hexadecimal text never touches a byte outside the
  destination, for every combination of the space, ASCII and upper-case flags, every destination
  size and whether or not the text must be cut short with an ellipsis.
\<close>

theorem to_hex_string_safe:
  assumes "bytes \<noteq> []"
  shows "\<exists>b n. to_hex_string bytes (Some buf) (length buf) flags = Some (Some b, int n) \<and>
    length b = length buf \<and> n \<le> length bytes"
  using assms by (rule to_hex_string_ok)

theorem to_hex_string_safe_witness:
  "\<exists>b n. to_hex_string [1, 2, 3] (Some (replicate 5 0)) 5 3 = Some (Some b, int n) \<and> length b = 5"
  using to_hex_string_safe[of "[1, 2, 3]" "replicate 5 0" 3] by auto



text \<open>
  The digit test of \<open>from_hex_string\<close>, on every byte: it accepts the hexadecimal digits of both
  cases, refuses every printable character that is not one with the exception of the six
  characters \<open>: ; < = > ?\<close>, and also accepts the control characters up to 15 (among them tab and
  newline), which it reads as the digits of their own code.
\<close>

theorem hex_value_accepts:
  "hex_value c \<le> 15 \<longleftrightarrow>
     (48 \<le> c \<and> c \<le> 57 \<or> 65 \<le> c \<and> c \<le> 70 \<or> 97 \<le> c \<and> c \<le> 102) \<or> 58 \<le> c \<and> c \<le> 63 \<or> c \<le> 15"
proof -
  define P :: "u8 \<Rightarrow> bool" where "P = (\<lambda>c. hex_value c \<le> 15 \<longleftrightarrow>
     (48 \<le> c \<and> c \<le> 57 \<or> 65 \<le> c \<and> c \<le> 70 \<or> 97 \<le> c \<and> c \<le> 102) \<or> 58 \<le> c \<and> c \<le> 63 \<or> c \<le> 15)"
  have "list_all (\<lambda>n. P (of_nat n)) [0..<256]" unfolding P_def by code_simp
  then have all: "\<forall>n \<in> set [0..<256]. P (of_nat n)" by (simp only: list_all_iff)
  have "unat c < 256" using unsigned_less[of c] by simp
  with all[THEN bspec, of "unat c"] have "P c" by simp
  then show ?thesis by (simp add: P_def)
qed

text \<open>\<open>swap\<close> exchanges its arguments when they are two variables.\<close>

lemma swap_exchanges: "swap a b = (b, a)"
  by (simp add: swap_def xor.assoc)

text \<open>
  An empty input with the space flag moves the write position before the start of the
  destination.
\<close>

lemma to_hex_string_empty_underflow:
  "3 \<le> length buf \<Longrightarrow> to_hex_string [] (Some buf) (length buf) 1 = None"
  by (auto simp: to_hex_string_def hex_max_len_def bit_simps write_range_def Let_def)

text \<open>A destination that is too small is overrun, since its size is never read.\<close>

lemma from_hex_string_overruns: "from_hex_string 0 (map of_char ''3E'') = None"
  by code_simp

end
