(* ===== verification/Base64.thy ===== *)
theory Base64
  imports Utils
begin

text \<open>
  Base64 of \<open>src/src/util/base64.c\<close>. The file holds two implementations, selected by
  \<open>BASE64_ANDROID\<close>. The one that is compiled allocates its result; its functions keep
  their names here. The other one, taken from Android, writes into a buffer of the caller and has
  flags; its \<open>base64_encode\<close> and \<open>base64_decode\<close> are named \<open>android_encode\<close> and \<open>android_decode\<close>.

  Both write their output front to back, so the output is modelled as the list of
  the bytes written. The allocating functions check it against the size of the block that
  \<open>xmalloc\<close> returned: \<open>Overrun\<close> is a write past its end, \<open>Panic\<close> the failing allocation, and \<open>Inr None\<close> the
  result \<open>NULL\<close>.
\<close>

section \<open>The compiled implementation\<close>

datatype b64_error = Overrun | Panic

definition base64_table :: "u8 list" where
  "base64_table = map of_char ''ABCDEFGHIJKLMNOPQRSTUVWXYZabcdefghijklmnopqrstuvwxyz0123456789+/''"

text \<open>The loop over whole triples: the rest of the input, the line length and the output so far.\<close>

fun encode_triples :: "u8 list \<Rightarrow> nat \<Rightarrow> u8 list \<Rightarrow> u8 list \<times> nat \<times> u8 list" where
  "encode_triples (a # b # c # rest) line_len pos =
     (let pos = pos @ [base64_table ! unat (drop_bit 2 a AND 0x3f),
                       base64_table ! unat ((push_bit 4 (a AND 0x03) OR drop_bit 4 b) AND 0x3f),
                       base64_table ! unat ((push_bit 2 (b AND 0x0f) OR drop_bit 6 c) AND 0x3f),
                       base64_table ! unat (c AND 0x3f)];
          line_len = line_len + 4
      in if 72 \<le> line_len then encode_triples rest 0 (pos @ [10])
         else encode_triples rest line_len pos)"
| "encode_triples rest line_len pos = (rest, line_len, pos)"

fun encode_tail :: "u8 list \<Rightarrow> nat \<Rightarrow> u8 list \<Rightarrow> nat \<times> u8 list" where
  "encode_tail [] line_len pos = (line_len, pos)"
| "encode_tail [a] line_len pos =
     (line_len + 4,
      pos @ [base64_table ! unat (drop_bit 2 a AND 0x3f),
             base64_table ! unat (push_bit 4 (a AND 0x03) AND 0x3f), 61, 61])"
| "encode_tail (a # b # rest) line_len pos =
     (line_len + 4,
      pos @ [base64_table ! unat (drop_bit 2 a AND 0x3f),
             base64_table ! unat ((push_bit 4 (a AND 0x03) OR drop_bit 4 b) AND 0x3f),
             base64_table ! unat (push_bit 2 (b AND 0x0f) AND 0x3f), 61])"

definition encode_text :: "u8 list \<Rightarrow> u8 list" where
  "encode_text src =
     (let (rest, line_len, pos) = encode_triples src 0 [];
          (line_len, pos) = encode_tail rest line_len pos
      in if line_len \<noteq> 0 then pos @ [10] else pos)"

text \<open>The size computation, on \<open>size_t\<close>.\<close>

definition encode_size :: "u64 \<Rightarrow> u64" where
  "encode_size len = (let olen = len * 4 div 3 + 4; olen = olen + olen div 72 in olen + 1)"

definition base64_encode ::
  "(nat \<Rightarrow> u8 list option) \<Rightarrow> u8 list \<Rightarrow> b64_error + (u8 list \<times> nat) option" where
  "base64_encode malloc src =
     (let len = of_nat (length src); olen = encode_size len
      in if olen < len then Inr None
         else case xmalloc malloc (ucast olen) of None \<Rightarrow> Inl Panic
         | Some out \<Rightarrow>
             let text = encode_text src
             in case write_range out 0 (text @ [0]) of None \<Rightarrow> Inl Overrun
                | Some out' \<Rightarrow> Inr (Some (out', length text)))"

text \<open>The decoding table: \<open>memset\<close> to 0x80, the positions of the alphabet, zero for the padding.\<close>

definition dtable :: "u8 list" where
  "dtable =
     (let t = foldl (\<lambda>t i. t[unat (base64_table ! i) := of_nat i]) (replicate 256 0x80) [0..<64]
      in t[61 := 0])"

definition data_count :: "u8 list \<Rightarrow> nat" where
  "data_count src = length (filter (\<lambda>c. dtable ! unat c \<noteq> 0x80) src)"

text \<open>
  The second loop, on a block of \<open>cap\<close> allocated bytes: \<open>block\<close> holds the values read so far
  (\<open>block[0..count-1]\<close>), \<open>pad\<close> counts the padding characters. A complete block stores three bytes
  and then steps back over the padding; three or more padding characters are refused.
\<close>

fun decode_blocks ::
  "nat \<Rightarrow> u8 list \<Rightarrow> u8 list \<Rightarrow> nat \<Rightarrow> u8 list \<Rightarrow> b64_error + u8 list option" where
  "decode_blocks cap [] block pad pos = Inr (Some pos)"
| "decode_blocks cap (s # src) block pad pos =
     (let tmp = dtable ! unat s
      in if tmp = 0x80 then decode_blocks cap src block pad pos
         else let pad = (if s = 61 then pad + 1 else pad);
                  block = block @ [tmp]
         in if length block = 4
         then if cap < length pos + 3 then Inl Overrun
              else let pos' = pos @ [push_bit 2 (block ! 0) OR drop_bit 4 (block ! 1),
                                     push_bit 4 (block ! 1) OR drop_bit 2 (block ! 2),
                                     push_bit 6 (block ! 2) OR block ! 3]
              in if pad \<noteq> 0
                 then if pad = 1 then Inr (Some (take (length pos' - 1) pos'))
                      else if pad = 2 then Inr (Some (take (length pos' - 2) pos'))
                      else Inr None
                 else decode_blocks cap src [] pad pos'
         else decode_blocks cap src block pad pos)"

text \<open>The result is the bytes up to \<open>*out_len\<close>.\<close>

definition base64_decode ::
  "(nat \<Rightarrow> u8 list option) \<Rightarrow> u8 list \<Rightarrow> b64_error + u8 list option" where
  "base64_decode malloc src =
     (let count = data_count src
      in if count = 0 \<or> count mod 4 \<noteq> 0 then Inr None
         else let olen = count div 4 * 3
         in case xmalloc malloc (of_nat olen) of None \<Rightarrow> Inl Panic
         | Some out \<Rightarrow> decode_blocks (length out) src [] 0 [])"

section \<open>Sextets\<close>

lemma sextet_mask: "x AND 0x3f = take_bit 6 (x :: u8)"
  by (simp add: take_bit_eq_mask mask_eq_exp_minus_1)

lemma low_masks: "x AND 0x03 = take_bit 2 (x :: u8)" "x AND 0x0f = take_bit 4 (x :: u8)"
  by (simp_all add: take_bit_eq_mask mask_eq_exp_minus_1)

lemma sextet_less: "unat (x AND 0x3f :: u8) < 64"
  unfolding sextet_mask unsigned_take_bit_eq by (simp add: take_bit_eq_mod)

lemma table_values:
  "list_all (\<lambda>i. dtable ! unat (base64_table ! i) = of_nat i \<and> base64_table ! i \<noteq> 61) [0..<64]"
  by code_simp

lemma dtable_special: "dtable ! 61 = 0" "dtable ! 10 = 0x80"
  by code_simp+

lemma table_inverse:
  "dtable ! unat (base64_table ! unat (x AND 0x3f)) = x AND 0x3f"
  "base64_table ! unat (x AND 0x3f) \<noteq> 61"
proof -
  have "\<forall>i \<in> set [0..<64]. dtable ! unat (base64_table ! i) = of_nat i \<and> base64_table ! i \<noteq> 61"
    using table_values by (simp only: list_all_iff)
  from this[THEN bspec, of "unat (x AND 0x3f)"] sextet_less[of x]
  show "dtable ! unat (base64_table ! unat (x AND 0x3f)) = x AND 0x3f"
    "base64_table ! unat (x AND 0x3f) \<noteq> 61" by (simp_all del: unsigned_and_eq)
qed

lemma sextet_not_skip: "x AND 0x3f \<noteq> (0x80 :: u8)"
  using sextet_less[of x] by (auto dest: arg_cong[of _ _ unat] simp del: unsigned_and_eq)

lemma sextets_join:
  fixes a b c :: u8
  defines "s0 \<equiv> drop_bit 2 a AND 0x3f" and "s1 \<equiv> (push_bit 4 (a AND 0x03) OR drop_bit 4 b) AND 0x3f"
    and "s2 \<equiv> (push_bit 2 (b AND 0x0f) OR drop_bit 6 c) AND 0x3f" and "s3 \<equiv> c AND 0x3f"
  shows "push_bit 2 s0 OR drop_bit 4 s1 = a" and "push_bit 4 s1 OR drop_bit 2 s2 = b"
    and "push_bit 6 s2 OR s3 = c"
  unfolding assms sextet_mask low_masks
  by (rule u8_eqI; simp add: bit_simps u8_bit_high flip: numeral_2_eq_2 numeral_3_eq_3)+

lemma sextets_tail:
  fixes a b :: u8
  shows "push_bit 2 (drop_bit 2 a AND 0x3f) OR drop_bit 4 (push_bit 4 (a AND 0x03) AND 0x3f) = a"
    and "push_bit 2 (drop_bit 2 a AND 0x3f) OR
           drop_bit 4 ((push_bit 4 (a AND 0x03) OR drop_bit 4 b) AND 0x3f) = a"
    and "push_bit 4 ((push_bit 4 (a AND 0x03) OR drop_bit 4 b) AND 0x3f) OR
           drop_bit 2 (push_bit 2 (b AND 0x0f) AND 0x3f) = b"
  unfolding sextet_mask low_masks
  by (rule u8_eqI; simp add: bit_simps u8_bit_high flip: numeral_2_eq_2 numeral_3_eq_3)+

section \<open>Decoding what was encoded\<close>

abbreviation b64char :: "u8 \<Rightarrow> u8" where
  "b64char x \<equiv> base64_table ! unat (x AND 0x3f)"

lemma decode_newline: "decode_blocks cap (10 # rest) block pad pos = decode_blocks cap rest block pad pos"
  by (simp add: dtable_special)

lemmas b64_simps = table_inverse sextet_not_skip dtable_special Let_def

lemma decode_quad:
  assumes "length pos + 3 \<le> cap"
  shows "decode_blocks cap (b64char w # b64char x # b64char y # b64char z # rest) [] 0 pos =
    decode_blocks cap rest [] 0
      (pos @ [push_bit 2 (w AND 0x3f) OR drop_bit 4 (x AND 0x3f),
              push_bit 4 (x AND 0x3f) OR drop_bit 2 (y AND 0x3f),
              push_bit 6 (y AND 0x3f) OR z AND 0x3f])"
  using assms by (simp add: b64_simps del: unsigned_and_eq)

lemma decode_pad1:
  assumes "length pos + 3 \<le> cap"
  shows "decode_blocks cap (b64char w # b64char x # b64char y # 61 # rest) [] 0 pos =
    Inr (Some (pos @ [push_bit 2 (w AND 0x3f) OR drop_bit 4 (x AND 0x3f),
                      push_bit 4 (x AND 0x3f) OR drop_bit 2 (y AND 0x3f)]))"
  using assms by (simp add: b64_simps del: unsigned_and_eq)

lemma decode_pad2:
  assumes "length pos + 3 \<le> cap"
  shows "decode_blocks cap (b64char w # b64char x # 61 # 61 # rest) [] 0 pos =
    Inr (Some (pos @ [push_bit 2 (w AND 0x3f) OR drop_bit 4 (x AND 0x3f)]))"
  using assms by (simp add: b64_simps del: unsigned_and_eq)

text \<open>The four characters of a triple, and what the decoder makes of them.\<close>

definition quad :: "u8 \<Rightarrow> u8 \<Rightarrow> u8 \<Rightarrow> u8 list" where
  "quad a b c = [b64char (drop_bit 2 a), b64char (push_bit 4 (a AND 0x03) OR drop_bit 4 b),
     b64char (push_bit 2 (b AND 0x0f) OR drop_bit 6 c), b64char c]"

lemma decode_triple:
  assumes "length pos + 3 \<le> cap"
  shows "decode_blocks cap (quad a b c @ rest) [] 0 pos = decode_blocks cap rest [] 0 (pos @ [a, b, c])"
  unfolding quad_def append_Cons append_Nil decode_quad[OF assms] sextets_join ..

lemma data_count_simps:
  "data_count [] = 0" "data_count (10 # xs) = data_count xs" "data_count (61 # xs) = Suc (data_count xs)"
  "data_count (b64char x # xs) = Suc (data_count xs)" "data_count (xs @ ys) = data_count xs + data_count ys"
  by (simp_all add: data_count_def b64_simps del: unsigned_and_eq)

lemma quad_count: "data_count (quad a b c) = 4" "length (quad a b c) = 4"
  unfolding quad_def data_count_simps by simp_all

lemma encode_triples_step:
  "encode_triples (a # b # c # rest) l p =
     encode_triples rest (if 72 \<le> l + 4 then 0 else l + 4) (p @ quad a b c @ (if 72 \<le> l + 4 then [10] else []))"
  by (simp add: Let_def quad_def)

lemma encode_triples_spec:
  assumes "encode_triples src l p = (r, l', p')" and "l mod 4 = 0" "l < 72"
  shows "\<exists>c t. src = c @ r \<and> p' = p @ t \<and> length r < 3 \<and> length c mod 3 = 0 \<and>
    (\<forall>cap rest pos. length pos + length c \<le> cap \<longrightarrow>
       decode_blocks cap (t @ rest) [] 0 pos = decode_blocks cap rest [] 0 (pos @ c)) \<and>
    data_count t = 4 * (length c div 3) \<and>
    length t = 4 * (length c div 3) + (l + 4 * (length c div 3)) div 72 \<and> l' mod 4 = 0 \<and> l' < 72"
  using assms
proof (induction src l p arbitrary: r l' p' rule: encode_triples.induct)
  case (1 a b c rest l p)
  let ?nl = "if 72 \<le> l + 4 then [10 :: u8] else []" and ?l = "if 72 \<le> l + 4 then 0 else l + 4"
  have e: "encode_triples rest ?l (p @ quad a b c @ ?nl) = (r, l', p')"
    using "1.prems"(1) by (simp only: encode_triples_step)
  have l: "?l mod 4 = 0" "?l < 72" using "1.prems"(2) by (auto simp: mod_Suc)
  have "\<exists>c' t. rest = c' @ r \<and> p' = (p @ quad a b c @ ?nl) @ t \<and> length r < 3 \<and> length c' mod 3 = 0 \<and>
    (\<forall>cap rest pos. length pos + length c' \<le> cap \<longrightarrow>
       decode_blocks cap (t @ rest) [] 0 pos = decode_blocks cap rest [] 0 (pos @ c')) \<and>
    data_count t = 4 * (length c' div 3) \<and>
    length t = 4 * (length c' div 3) + (?l + 4 * (length c' div 3)) div 72 \<and> l' mod 4 = 0 \<and> l' < 72"
    using "1.IH"[OF refl refl, of r l' p'] e l
    by (cases "72 \<le> l + 4") (simp_all add: Let_def quad_def)
  then obtain d t where d: "rest = d @ r" "p' = p @ quad a b c @ ?nl @ t" "length r < 3" "length d mod 3 = 0"
    "\<forall>cap rest pos. length pos + length d \<le> cap \<longrightarrow>
       decode_blocks cap (t @ rest) [] 0 pos = decode_blocks cap rest [] 0 (pos @ d)"
    "data_count t = 4 * (length d div 3)"
    "length t = 4 * (length d div 3) + (?l + 4 * (length d div 3)) div 72" "l' mod 4 = 0" "l' < 72"
    by auto
  have dec: "decode_blocks cap ((quad a b c @ ?nl @ t) @ more) [] 0 pos =
      decode_blocks cap more [] 0 (pos @ a # b # c # d)"
    if "length pos + length (a # b # c # d) \<le> cap" for cap more pos
    using that d(5)[rule_format, of "pos @ [a, b, c]" cap more]
    by (simp add: decode_triple decode_newline del: decode_blocks.simps)
  have len: "length (quad a b c @ ?nl @ t) = 4 * (length (a # b # c # d) div 3) +
      (l + 4 * (length (a # b # c # d) div 3)) div 72"
  proof -
    define m where "m = length d div 3"
    have m: "length (a # b # c # d) div 3 = Suc m" by (simp add: m_def)
    have l: "l = 68" if "72 \<le> l + 4" using that "1.prems"(2,3) by presburger
    have "(68 + 4 * Suc m) div 72 = (4 * m + 72) div 72" by (rule arg_cong[where f = "\<lambda>x. x div 72"]) simp
    then have "(68 + 4 * Suc m) div 72 = Suc (4 * m div 72)" by simp
    then show ?thesis
      unfolding m using d(7)[folded m_def] l
      by (cases "72 \<le> l + 4") (simp_all add: quad_count add.assoc)
  qed
  have cnt: "data_count (quad a b c @ ?nl @ t) = 4 * (length (a # b # c # d) div 3)"
  proof -
    have "length (a # b # c # d) div 3 = Suc (length d div 3)" by simp
    then show ?thesis using d(6) by (simp only: data_count_simps quad_count) (simp add: data_count_simps)
  qed
  have mod3: "length (a # b # c # d) mod 3 = 0"
  proof -
    have "length (a # b # c # d) = length d + 3" by simp
    then show ?thesis using d(4) by (simp only: mod_add_self2)
  qed
  have src: "a # b # c # rest = (a # b # c # d) @ r" using d(1) by simp
  have out: "p' = p @ (quad a b c @ ?nl @ t)" using d(2) by simp
  show ?case
    using src out d(3) mod3 dec cnt len d(8,9)
    by (intro exI[of _ "a # b # c # d"] exI[of _ "quad a b c @ ?nl @ t"] conjI allI impI)
qed (auto simp: data_count_simps)

lemma encode_tail_spec:
  assumes "encode_tail r l p = (l', p')" and "length r < 3"
  shows "\<exists>t. p' = p @ t \<and> l' = (if r = [] then l else l + 4) \<and>
    (\<forall>cap rest pos. length pos + 3 \<le> cap \<longrightarrow> r \<noteq> [] \<longrightarrow>
       decode_blocks cap (t @ rest) [] 0 pos = Inr (Some (pos @ r))) \<and>
    data_count t = (if r = [] then 0 else 4) \<and> length t = (if r = [] then 0 else 4)"
  using assms
proof (induction r l p rule: encode_tail.induct)
  case (1 l p)
  then show ?case by (simp add: data_count_simps)
next
  case (2 a l p)
  let ?t = "[b64char (drop_bit 2 a), b64char (push_bit 4 (a AND 0x03)), 61, 61]"
  have "decode_blocks cap (?t @ rest) [] 0 pos = Inr (Some (pos @ [a]))"
    if "length pos + 3 \<le> cap" for cap rest pos
    unfolding append_Cons append_Nil decode_pad2[OF that] sextets_tail ..
  moreover have "data_count ?t = 4" unfolding data_count_simps by simp
  ultimately show ?case using 2 by (intro exI[of _ ?t]) auto
next
  case (3 a b rest l p)
  let ?t = "[b64char (drop_bit 2 a), b64char (push_bit 4 (a AND 0x03) OR drop_bit 4 b),
    b64char (push_bit 2 (b AND 0x0f)), 61]"
  have "decode_blocks cap (?t @ more) [] 0 pos = Inr (Some (pos @ [a, b]))"
    if "length pos + 3 \<le> cap" for cap more pos
    unfolding append_Cons append_Nil decode_pad1[OF that] sextets_tail ..
  moreover have "data_count ?t = 4" unfolding data_count_simps by simp
  ultimately show ?case using 3 by (intro exI[of _ ?t]) auto
qed

lemma encode_text_spec:
  shows "data_count (encode_text src) = 4 * ((length src + 2) div 3)"
    and "3 * ((length src + 2) div 3) \<le> cap \<Longrightarrow>
      decode_blocks cap (encode_text src) [] 0 [] = Inr (Some src)"
    and "length (encode_text src) \<le> 4 * ((length src + 2) div 3) + 4 * (length src div 3) div 72 + 1"
proof -
  obtain r l p where e: "encode_triples src 0 [] = (r, l, p)" by (metis prod_cases3)
  obtain l' p' where e': "encode_tail r l p = (l', p')" by fastforce
  obtain c where c: "src = c @ r" "length r < 3" "length c mod 3 = 0" "data_count p = 4 * (length c div 3)"
    "\<And>cap rest pos. length pos + length c \<le> cap \<Longrightarrow>
       decode_blocks cap (p @ rest) [] 0 pos = decode_blocks cap rest [] 0 (pos @ c)"
    "length p = 4 * (length c div 3) + (4 * (length c div 3)) div 72"
    using encode_triples_spec[OF e] by auto
  obtain t where t: "p' = p @ t" "data_count t = (if r = [] then 0 else 4)"
    "length t = (if r = [] then 0 else 4)"
    "\<And>cap rest pos. length pos + 3 \<le> cap \<Longrightarrow> r \<noteq> [] \<Longrightarrow>
       decode_blocks cap (t @ rest) [] 0 pos = Inr (Some (pos @ r))"
    using encode_tail_spec[OF e' c(2)] by auto
  have te: "encode_text src = p @ t @ (if l' = 0 then [] else [10])"
    by (simp add: encode_text_def e e' t(1))
  define m where "m = length c div 3"
  have m: "length c = 3 * m" "length src = 3 * m + length r" using c(1,3) by (auto simp: m_def)
  have k: "(length src + 2) div 3 = (if r = [] then m else m + 1)" "length src div 3 = m"
    using m c(2) by (cases r; auto)+
  show "data_count (encode_text src) = 4 * ((length src + 2) div 3)"
    unfolding te k using c(4) t(2) by (simp add: data_count_simps m_def[symmetric])
  show "length (encode_text src) \<le> 4 * ((length src + 2) div 3) + 4 * (length src div 3) div 72 + 1"
    unfolding te k using c(6) t(3) by (simp add: m_def[symmetric])
  assume cap: "3 * ((length src + 2) div 3) \<le> cap"
  show "decode_blocks cap (encode_text src) [] 0 [] = Inr (Some src)"
  proof (cases "r = []")
    case True
    with cap k m c(1) c(5)[of "[]" cap] t(3) show ?thesis unfolding te by (simp add: dtable_special)
  next
    case False
    with cap k m c(1) t(4)[of c cap] c(5)[of "[]" cap] show ?thesis unfolding te by simp
  qed
qed

lemma encode_size_eq:
  assumes "n < 2 ^ 30"
  shows "unat (encode_size (of_nat n)) = n * 4 div 3 + 4 + (n * 4 div 3 + 4) div 72 + 1"
proof -
  define m where "m = n * 4 div 3 + 4"
  have m: "m + m div 72 + 1 < 2 ^ 31" "n * 4 < 2 ^ 64" using assms by (simp_all add: m_def)
  define w :: u64 where "w = of_nat n * 4 div 3 + 4"
  have "unat (of_nat n * 4 :: u64) = n * 4"
    using m(2) by (simp add: unat_word_ariths(2) unat_of_nat)
  then have d: "unat (of_nat n * 4 div 3 :: u64) = n * 4 div 3" by (simp add: unat_div)
  have w: "unat w = m"
    unfolding w_def m_def using m(1) d by (subst unat_add_no_wrap) (simp_all add: m_def)
  then have wd: "unat (w div 72) = m div 72" by (simp add: unat_div)
  have "unat (w + w div 72) = m + m div 72"
    using m(1) w wd by (subst unat_add_no_wrap) simp_all
  then have "unat (w + w div 72 + 1) = m + m div 72 + 1"
    using m(1) by (subst unat_add_no_wrap) simp_all
  then show ?thesis by (simp add: encode_size_def Let_def w_def m_def)
qed

lemma decode_blocks_no_overrun:
  assumes "length pos + 3 * ((data_count src + length block) div 4) \<le> cap" and "length block < 4"
  shows "decode_blocks cap src block pad pos \<noteq> Inl Overrun"
  using assms
proof (induction cap src block pad pos rule: decode_blocks.induct)
  case (1 cap block pad pos)
  then show ?case by simp
next
  case (2 cap s src block pad pos)
  show ?case
  proof (cases "dtable ! unat s = 0x80")
    case True
    with 2 show ?thesis by (simp add: data_count_def)
  next
    case False
    then have c: "data_count (s # src) = Suc (data_count src)" by (simp add: data_count_def)
    show ?thesis
    proof (cases "length block = 3")
      case True
      then have "(data_count (s # src) + length block) div 4 = Suc (data_count src div 4)"
        using c by simp
      with "2.IH"(2)[OF refl False refl refl _ _ refl] "2.prems"(1) True False
      show ?thesis by (auto simp: Let_def data_count_def)
    next
      case F: False
      with "2.IH"(3)[OF refl False refl refl] "2.prems" False c show ?thesis by (simp add: Let_def)
    qed
  qed
qed

lemma xmalloc_size:
  assumes m: "\<And>n. n < 2 ^ 31 \<Longrightarrow> \<exists>b. malloc n = Some b \<and> length b = n" and n: "0 < n" "n < 2 ^ 31"
  shows "\<exists>b. xmalloc malloc (of_nat n) = Some b \<and> length b = n"
proof -
  have u: "unat (of_nat n :: u32) = n" using n by (simp add: unat_of_nat)
  have "unat (scast (of_nat n :: u32) :: u64) = n" using n(2) by (rule unat_scast_of_nat_small)
  moreover have "(of_nat n :: u32) \<noteq> 0" using u n by auto
  ultimately show ?thesis using m[of n] n by (simp add: xmalloc_def)
qed

section \<open>Properties of the compiled implementation\<close>

text \<open>
  What the proofs use of \<open>malloc\<close>: requests below 2^31 bytes succeed with a block of that size.
\<close>

definition malloc_ok :: "(nat \<Rightarrow> u8 list option) \<Rightarrow> bool" where
  "malloc_ok malloc \<longleftrightarrow> (\<forall>n < 2 ^ 31. \<exists>b. malloc n = Some b \<and> length b = n)"

lemma base64_encode_ok:
  assumes m: "malloc_ok malloc" and n: "length src < 2 ^ 30"
  shows "\<exists>out. base64_encode malloc src = Inr (Some (out, length (encode_text src))) \<and>
    take (length (encode_text src)) out = encode_text src \<and>
    out ! length (encode_text src) = 0 \<and> length (encode_text src) < length out"
proof -
  let ?n = "length src" and ?t = "encode_text src" and ?o = "encode_size (of_nat (length src))"
  have o: "unat ?o = ?n * 4 div 3 + 4 + (?n * 4 div 3 + 4) div 72 + 1" by (rule encode_size_eq[OF n])
  have small: "unat ?o < 2 ^ 31" "0 < unat ?o" unfolding o using n by simp_all
  have "\<not> ?o < of_nat ?n" using n unfolding word_less_nat_alt o by (simp add: unat_of_nat)
  moreover have "ucast ?o = (of_nat (unat ?o) :: u32)" by simp
  moreover obtain b where b: "xmalloc malloc (of_nat (unat ?o)) = Some b" "length b = unat ?o"
    using xmalloc_size[of malloc "unat ?o"] m small by (auto simp: malloc_ok_def)
  moreover have len: "length ?t < length b"
  proof -
    have "4 * ((?n + 2) div 3) \<le> ?n * 4 div 3 + 3" by linarith
    moreover have "4 * (?n div 3) div 72 \<le> (?n * 4 div 3 + 4) div 72" by (rule div_le_mono) linarith
    ultimately show ?thesis using encode_text_spec(3)[of src] b(2) o by linarith
  qed
  ultimately have "base64_encode malloc src = Inr (Some (?t @ [0] @ drop (length ?t + 1) b, length ?t))"
    by (simp add: base64_encode_def Let_def write_range_def)
  with len show ?thesis by simp
qed

text \<open>
  C18. Encoding and decoding are inverse: for every input shorter than 2^30 bytes, \<open>base64_encode\<close> stays inside
  the block it allocates, terminates the text with a zero, and \<open>base64_decode\<close> of the text stays inside its block
  and returns the original bytes, line feeds and padding included; only the empty input is not
  read back, its empty text is refused with \<open>NULL\<close>.
\<close>

theorem base64_roundtrip:
  assumes "malloc_ok malloc" and "length src < 2 ^ 30"
  shows "\<exists>out n. base64_encode malloc src = Inr (Some (out, n)) \<and> n < length out \<and> out ! n = 0 \<and>
    base64_decode malloc (take n out) = Inr (if src = [] then None else Some src)"
proof -
  let ?t = "encode_text src" and ?k = "(length src + 2) div 3"
  obtain out where out: "base64_encode malloc src = Inr (Some (out, length ?t))" "take (length ?t) out = ?t"
    "out ! length ?t = 0" "length ?t < length out"
    using base64_encode_ok[OF assms] by auto
  have k: "?k * 3 < 2 ^ 31" using assms(2) by simp
  have "base64_decode malloc ?t = Inr (if src = [] then None else Some src)"
  proof (cases "src = []")
    case True
    then show ?thesis using encode_text_spec(1)[of src] by (simp add: base64_decode_def Let_def)
  next
    case False
    then have "0 < ?k" by (cases src) auto
    then obtain b where "xmalloc malloc (of_nat (?k * 3)) = Some b" "length b = ?k * 3"
      using xmalloc_size[of malloc "?k * 3"] assms(1) k by (auto simp: malloc_ok_def)
    with False \<open>0 < ?k\<close> encode_text_spec(1,2)[of src] show ?thesis
      by (simp add: base64_decode_def Let_def mult.commute)
  qed
  with out show ?thesis by auto
qed

theorem base64_roundtrip_witness:
  "\<exists>out n. base64_encode (\<lambda>n. Some (replicate n 0)) [1, 2, 3, 4] = Inr (Some (out, n)) \<and>
    base64_decode (\<lambda>n. Some (replicate n 0)) (take n out) = Inr (Some [1, 2, 3, 4])"
  using base64_roundtrip[of "\<lambda>n. Some (replicate n 0)" "[1, 2, 3, 4]"] by (auto simp: malloc_ok_def)

text \<open>
  \<open>base64_decode\<close> on arbitrary input, valid or not, never writes past the block it
  allocated.
\<close>

theorem base64_decode_safe:
  assumes "malloc_ok malloc" and "length src < 2 ^ 31"
  shows "base64_decode malloc src \<noteq> Inl Overrun"
proof (cases "data_count src = 0 \<or> data_count src mod 4 \<noteq> 0")
  case True
  then show ?thesis by (auto simp: base64_decode_def Let_def)
next
  case False
  let ?o = "data_count src div 4 * 3"
  have "data_count src \<le> length src" by (simp add: data_count_def)
  then have "?o < 2 ^ 31" "0 < ?o" using False assms(2) by (simp, presburger)
  then obtain b where "xmalloc malloc (of_nat ?o) = Some b" "length b = ?o"
    using xmalloc_size[of malloc ?o] assms(1) by (auto simp: malloc_ok_def)
  moreover from this have "decode_blocks (length b) src [] 0 [] \<noteq> Inl Overrun"
    by (intro decode_blocks_no_overrun) simp_all
  ultimately show ?thesis using False by (simp add: base64_decode_def Let_def)
qed

theorem base64_decode_safe_witness:
  "base64_decode (\<lambda>n. Some (replicate n 0)) [61, 61, 61, 61] \<noteq> Inl Overrun"
  using base64_decode_safe[of "\<lambda>n. Some (replicate n 0)" "[61, 61, 61, 61]"] by (simp add: malloc_ok_def)

end
