(* ===== verification/Base64Android.thy ===== *)
theory Base64Android
  imports Prelude
begin

text \<open>
  The second implementation of \<open>src/src/util/base64.c\<close>, the one under \<open>BASE64_ANDROID\<close>. Encoder and
  decoder write front to back into a buffer of the caller, so the output is the list of bytes
  written; a bound on its length is a bound on the accesses to the buffer. The three globals that
  \<open>base64_encode\<close> sets from its flags are arguments of \<open>do_encode\<close>. \<open>int\<close> values are unbounded here:
  every intermediate value is below 2^24 in magnitude, or a count bounded by the input.

  The decoder is a state machine with a fast path for four data characters at a time. A comment
  of the source says that the fast path may be removed without changing the output;
  \<open>slow_run\<close> is the decoder without it.
\<close>

section \<open>Tables and flags\<close>

definition ENCODE :: "u8 list" where
  "ENCODE = map of_char ''ABCDEFGHIJKLMNOPQRSTUVWXYZabcdefghijklmnopqrstuvwxyz0123456789+/''"

definition ENCODE_WEBSAFE :: "u8 list" where
  "ENCODE_WEBSAFE = map of_char ''ABCDEFGHIJKLMNOPQRSTUVWXYZabcdefghijklmnopqrstuvwxyz0123456789-_''"

definition DECODE :: "int list" where
  "DECODE = [
     - 1, - 1, - 1, - 1, - 1, - 1, - 1, - 1, - 1, - 1, - 1, - 1, - 1, - 1, - 1, - 1,
     - 1, - 1, - 1, - 1, - 1, - 1, - 1, - 1, - 1, - 1, - 1, - 1, - 1, - 1, - 1, - 1,
     - 1, - 1, - 1, - 1, - 1, - 1, - 1, - 1, - 1, - 1, - 1, 62, - 1, - 1, - 1, 63,
     52, 53, 54, 55, 56, 57, 58, 59, 60, 61, - 1, - 1, - 1, - 2, - 1, - 1,
     - 1, 0, 1, 2, 3, 4, 5, 6, 7, 8, 9, 10, 11, 12, 13, 14,
     15, 16, 17, 18, 19, 20, 21, 22, 23, 24, 25, - 1, - 1, - 1, - 1, - 1,
     - 1, 26, 27, 28, 29, 30, 31, 32, 33, 34, 35, 36, 37, 38, 39, 40,
     41, 42, 43, 44, 45, 46, 47, 48, 49, 50, 51, - 1, - 1, - 1, - 1, - 1,
     - 1, - 1, - 1, - 1, - 1, - 1, - 1, - 1, - 1, - 1, - 1, - 1, - 1, - 1, - 1, - 1,
     - 1, - 1, - 1, - 1, - 1, - 1, - 1, - 1, - 1, - 1, - 1, - 1, - 1, - 1, - 1, - 1,
     - 1, - 1, - 1, - 1, - 1, - 1, - 1, - 1, - 1, - 1, - 1, - 1, - 1, - 1, - 1, - 1,
     - 1, - 1, - 1, - 1, - 1, - 1, - 1, - 1, - 1, - 1, - 1, - 1, - 1, - 1, - 1, - 1,
     - 1, - 1, - 1, - 1, - 1, - 1, - 1, - 1, - 1, - 1, - 1, - 1, - 1, - 1, - 1, - 1,
     - 1, - 1, - 1, - 1, - 1, - 1, - 1, - 1, - 1, - 1, - 1, - 1, - 1, - 1, - 1, - 1,
     - 1, - 1, - 1, - 1, - 1, - 1, - 1, - 1, - 1, - 1, - 1, - 1, - 1, - 1, - 1, - 1,
     - 1, - 1, - 1, - 1, - 1, - 1, - 1, - 1, - 1, - 1, - 1, - 1, - 1, - 1, - 1, - 1]"

definition DECODE_WEBSAFE :: "int list" where
  "DECODE_WEBSAFE = [
     - 1, - 1, - 1, - 1, - 1, - 1, - 1, - 1, - 1, - 1, - 1, - 1, - 1, - 1, - 1, - 1,
     - 1, - 1, - 1, - 1, - 1, - 1, - 1, - 1, - 1, - 1, - 1, - 1, - 1, - 1, - 1, - 1,
     - 1, - 1, - 1, - 1, - 1, - 1, - 1, - 1, - 1, - 1, - 1, - 1, - 1, 62, - 1, - 1,
     52, 53, 54, 55, 56, 57, 58, 59, 60, 61, - 1, - 1, - 1, - 2, - 1, - 1,
     - 1, 0, 1, 2, 3, 4, 5, 6, 7, 8, 9, 10, 11, 12, 13, 14,
     15, 16, 17, 18, 19, 20, 21, 22, 23, 24, 25, - 1, - 1, - 1, - 1, 63,
     - 1, 26, 27, 28, 29, 30, 31, 32, 33, 34, 35, 36, 37, 38, 39, 40,
     41, 42, 43, 44, 45, 46, 47, 48, 49, 50, 51, - 1, - 1, - 1, - 1, - 1,
     - 1, - 1, - 1, - 1, - 1, - 1, - 1, - 1, - 1, - 1, - 1, - 1, - 1, - 1, - 1, - 1,
     - 1, - 1, - 1, - 1, - 1, - 1, - 1, - 1, - 1, - 1, - 1, - 1, - 1, - 1, - 1, - 1,
     - 1, - 1, - 1, - 1, - 1, - 1, - 1, - 1, - 1, - 1, - 1, - 1, - 1, - 1, - 1, - 1,
     - 1, - 1, - 1, - 1, - 1, - 1, - 1, - 1, - 1, - 1, - 1, - 1, - 1, - 1, - 1, - 1,
     - 1, - 1, - 1, - 1, - 1, - 1, - 1, - 1, - 1, - 1, - 1, - 1, - 1, - 1, - 1, - 1,
     - 1, - 1, - 1, - 1, - 1, - 1, - 1, - 1, - 1, - 1, - 1, - 1, - 1, - 1, - 1, - 1,
     - 1, - 1, - 1, - 1, - 1, - 1, - 1, - 1, - 1, - 1, - 1, - 1, - 1, - 1, - 1, - 1,
     - 1, - 1, - 1, - 1, - 1, - 1, - 1, - 1, - 1, - 1, - 1, - 1, - 1, - 1, - 1, - 1]"

definition LINE_GROUPS :: int where
  "LINE_GROUPS = 19"

abbreviation no_padding_flag :: "u32 \<Rightarrow> bool" where
  "no_padding_flag flags \<equiv> flags AND 1 \<noteq> 0"

abbreviation no_wrap_flag :: "u32 \<Rightarrow> bool" where
  "no_wrap_flag flags \<equiv> flags AND 2 \<noteq> 0"

abbreviation crlf_flag :: "u32 \<Rightarrow> bool" where
  "crlf_flag flags \<equiv> flags AND 4 \<noteq> 0"

abbreviation url_safe_flag :: "u32 \<Rightarrow> bool" where
  "url_safe_flag flags \<equiv> flags AND 8 \<noteq> 0"

section \<open>Encoder\<close>

definition b64_char :: "u8 list \<Rightarrow> int \<Rightarrow> nat \<Rightarrow> u8" where
  "b64_char alphabet v sh = alphabet ! nat (drop_bit sh v AND 0x3f)"

definition line_end :: "bool \<Rightarrow> u8 list" where
  "line_end do_cr = (if do_cr then [13] else []) @ [10]"

fun encode_main :: "u8 list \<Rightarrow> bool \<Rightarrow> u8 list \<Rightarrow> int \<Rightarrow> u8 list \<Rightarrow> u8 list \<times> int \<times> u8 list" where
  "encode_main alphabet do_cr (a # b # c # rest) count out =
     (let v = push_bit 16 (uint a) OR push_bit 8 (uint b) OR uint c;
          out = out @ [b64_char alphabet v 18, b64_char alphabet v 12, b64_char alphabet v 6,
                       b64_char alphabet v 0];
          count = count - 1
      in if count = 0 then encode_main alphabet do_cr rest LINE_GROUPS (out @ line_end do_cr)
         else encode_main alphabet do_cr rest count out)"
| "encode_main alphabet do_cr rest count out = (rest, count, out)"

text \<open>\<open>tail_len\<close> is always zero, so the tail is what is left of the input.\<close>

fun encode_end ::
  "u8 list \<Rightarrow> bool \<Rightarrow> bool \<Rightarrow> bool \<Rightarrow> u8 list \<Rightarrow> int \<Rightarrow> u8 list \<Rightarrow> u8 list" where
  "encode_end alphabet do_padding do_newline do_cr [] count out =
     (if do_newline \<and> out \<noteq> [] \<and> count \<noteq> LINE_GROUPS then out @ line_end do_cr else out)"
| "encode_end alphabet do_padding do_newline do_cr [a] count out =
     (let v = push_bit 4 (uint a)
      in out @ [b64_char alphabet v 6, b64_char alphabet v 0] @
         (if do_padding then [61, 61] else []) @ (if do_newline then line_end do_cr else []))"
| "encode_end alphabet do_padding do_newline do_cr (a # b # rest) count out =
     (let v = push_bit 10 (uint a) OR push_bit 2 (uint b)
      in out @ [b64_char alphabet v 12, b64_char alphabet v 6, b64_char alphabet v 0] @
         (if do_padding then [61] else []) @ (if do_newline then line_end do_cr else []))"

definition do_encode :: "bool \<Rightarrow> bool \<Rightarrow> bool \<Rightarrow> u32 \<Rightarrow> u8 list \<Rightarrow> u8 list" where
  "do_encode do_padding do_newline do_cr flags input =
     (let alphabet = if \<not> url_safe_flag flags then ENCODE else ENCODE_WEBSAFE;
          (rest, count, out) =
            encode_main alphabet do_cr input (if do_newline then LINE_GROUPS else - 1) []
      in encode_end alphabet do_padding do_newline do_cr rest count out)"

text \<open>The bytes written and the length returned.\<close>

definition android_encode :: "u32 \<Rightarrow> u8 list \<Rightarrow> u8 list \<times> nat" where
  "android_encode flags input =
     (let do_padding = \<not> no_padding_flag flags;
          do_newline = \<not> no_wrap_flag flags;
          do_cr = crlf_flag flags;
          len = length input;
          output_len = len div 3 * 4 +
            (if do_padding then if len mod 3 > 0 then 4 else 0
             else if len mod 3 = 1 then 2 else if len mod 3 = 2 then 3 else 0);
          output_len = output_len +
            (if do_newline \<and> len > 0
             then ((len - 1) div (3 * 19) + 1) * (if do_cr then 2 else 1) else 0)
      in (do_encode do_padding do_newline do_cr flags input, output_len))"

section \<open>Decoder\<close>

definition low_byte :: "int \<Rightarrow> u8" where
  "low_byte v = word_of_int v"

text \<open>
  The \<open>switch\<close> on the state: the new state, value and output, or \<open>None\<close> for \<open>return false\<close>, which
  writes nothing. -1 is \<open>SKIP\<close> and -2 is \<open>EQUALS\<close>.
\<close>

definition decode_step :: "nat \<Rightarrow> int \<Rightarrow> u8 list \<Rightarrow> int \<Rightarrow> (nat \<times> int \<times> u8 list) option" where
  "decode_step state value out d =
     (if state = 0 then
        if 0 \<le> d then Some (1, d, out)
        else if d \<noteq> - 1 then None else Some (state, value, out)
      else if state = 1 then
        if 0 \<le> d then Some (2, push_bit 6 value OR d, out)
        else if d \<noteq> - 1 then None else Some (state, value, out)
      else if state = 2 then
        if 0 \<le> d then Some (3, push_bit 6 value OR d, out)
        else if d = - 2 then Some (4, value, out @ [low_byte (drop_bit 4 value)])
        else if d \<noteq> - 1 then None else Some (state, value, out)
      else if state = 3 then
        if 0 \<le> d then
          let value = push_bit 6 value OR d
          in Some (0, value, out @ [low_byte (drop_bit 16 value), low_byte (drop_bit 8 value), low_byte value])
        else if d = - 2 then
          Some (5, value, out @ [low_byte (drop_bit 10 value), low_byte (drop_bit 2 value)])
        else if d \<noteq> - 1 then None else Some (state, value, out)
      else if state = 4 then
        if d = - 2 then Some (5, value, out)
        else if d \<noteq> - 1 then None else Some (state, value, out)
      else if state = 5 then
        if d \<noteq> - 1 then None else Some (state, value, out)
      else Some (state, value, out))"

text \<open>The inner loop of the fast path: the input left, the last value computed and the output.\<close>

fun fast_path :: "int list \<Rightarrow> u8 list \<Rightarrow> int \<Rightarrow> u8 list \<Rightarrow> u8 list \<times> int \<times> u8 list" where
  "fast_path alphabet (w # x # y # z # rest) value out =
     (let value = push_bit 18 (alphabet ! unat w) OR push_bit 12 (alphabet ! unat x) OR
                  push_bit 6 (alphabet ! unat y) OR alphabet ! unat z
      in if 0 \<le> value
         then fast_path alphabet rest value
                (out @ [low_byte (drop_bit 16 value), low_byte (drop_bit 8 value), low_byte value])
         else (w # x # y # z # rest, value, out))"
| "fast_path alphabet input value out = (input, value, out)"

lemma fast_path_length: "length (fst (fast_path alphabet input v out)) \<le> length input"
  by (induction alphabet input v out rule: fast_path.induct) (auto simp: Let_def)

text \<open>The outer loop; \<open>Inl\<close> holds the bytes written before \<open>return false\<close>.\<close>

function decode_loop ::
  "int list \<Rightarrow> u8 list \<Rightarrow> nat \<Rightarrow> int \<Rightarrow> u8 list \<Rightarrow> u8 list + nat \<times> int \<times> u8 list" where
  "decode_loop alphabet input state value out =
     (case input of [] \<Rightarrow> Inr (state, value, out)
      | _ # _ \<Rightarrow>
          (case (if state = 0 then fast_path alphabet input value out else (input, value, out)) of
             ([], value, out) \<Rightarrow> Inr (state, value, out)
           | (b # rest, value, out) \<Rightarrow>
               (case decode_step state value out (alphabet ! unat b) of
                  None \<Rightarrow> Inl out
                | Some (state', value', out') \<Rightarrow> decode_loop alphabet rest state' value' out')))"
  by pat_completeness auto
termination
proof (relation "measure (\<lambda>(alphabet, input, state, value, out). length input)", goal_cases)
  case (2 alphabet input state v out a l p q b rest)
  then have "length (b # rest) \<le> length input"
    using fast_path_length[of alphabet input v out]
    by (auto split: if_splits dest: arg_cong[where f = "\<lambda>x. length (fst x)"])
  then show ?case by simp
qed simp

text \<open>The last \<open>switch\<close>.\<close>

definition decode_finish :: "nat \<Rightarrow> int \<Rightarrow> u8 list \<Rightarrow> u8 list + u8 list" where
  "decode_finish state value out =
     (if state = 1 \<or> state = 4 then Inl out
      else if state = 2 then Inr (out @ [low_byte (drop_bit 4 value)])
      else if state = 3 then Inr (out @ [low_byte (drop_bit 10 value), low_byte (drop_bit 2 value)])
      else Inr out)"

text \<open>
  The bytes written, with \<open>Inl\<close> for a refused input, and the value returned: 0 (\<open>false\<close>) or
  three quarters of the input length.
\<close>

definition do_decode :: "u32 \<Rightarrow> u8 list \<Rightarrow> (u8 list + u8 list) \<times> nat" where
  "do_decode flags input =
     (let alphabet = if \<not> url_safe_flag flags then DECODE else DECODE_WEBSAFE
      in case decode_loop alphabet input 0 0 [] of
           Inl out \<Rightarrow> (Inl out, 0)
         | Inr (state, value, out) \<Rightarrow>
             (case decode_finish state value out of
                Inl out \<Rightarrow> (Inl out, 0)
              | Inr out \<Rightarrow> (Inr out, length input * 3 div 4)))"

definition android_decode :: "u32 \<Rightarrow> u8 list \<Rightarrow> (u8 list + u8 list) \<times> nat" where
  "android_decode flags input = do_decode flags input"

section \<open>The decoder without the fast path\<close>

fun slow_run ::
  "int list \<Rightarrow> u8 list \<Rightarrow> nat \<Rightarrow> int \<Rightarrow> u8 list \<Rightarrow> u8 list + nat \<times> int \<times> u8 list" where
  "slow_run alphabet [] state v out = Inr (state, v, out)"
| "slow_run alphabet (b # rest) state v out =
     (case decode_step state v out (alphabet ! unat b) of
        None \<Rightarrow> Inl out
      | Some (state', v', out') \<Rightarrow> slow_run alphabet rest state' v' out')"

fun decode_result :: "u8 list + nat \<times> int \<times> u8 list \<Rightarrow> u8 list + u8 list" where
  "decode_result (Inl out) = Inl out"
| "decode_result (Inr (state, v, out)) = decode_finish state v out"

definition slow_decode :: "u32 \<Rightarrow> u8 list \<Rightarrow> u8 list + u8 list" where
  "slow_decode flags input =
     decode_result (slow_run (if \<not> url_safe_flag flags then DECODE else DECODE_WEBSAFE) input 0 0 [])"

declare decode_loop.simps [simp del]

lemma do_decode_result:
  "fst (do_decode flags input) =
     decode_result (decode_loop (if \<not> url_safe_flag flags then DECODE else DECODE_WEBSAFE) input 0 0 [])"
  by (auto simp: do_decode_def Let_def split: sum.splits)

text \<open>The value does not matter in state 0.\<close>

lemma slow_run_state0:
  "decode_result (slow_run alphabet input 0 v out) = decode_result (slow_run alphabet input 0 v' out)"
proof (induction input)
  case Nil
  then show ?case by (simp add: decode_finish_def)
next
  case (Cons b rest)
  then show ?case by (simp add: decode_step_def)
qed

lemma slow_run_quad:
  assumes "0 \<le> d0" "0 \<le> d1" "0 \<le> d2" "0 \<le> d3"
    and "alphabet ! unat w = d0" "alphabet ! unat x = d1" "alphabet ! unat y = d2" "alphabet ! unat z = d3"
  defines "v \<equiv> push_bit 18 d0 OR push_bit 12 d1 OR push_bit 6 d2 OR d3"
  shows "slow_run alphabet (w # x # y # z # rest) 0 u out = slow_run alphabet rest 0 v
    (out @ [low_byte (drop_bit 16 v), low_byte (drop_bit 8 v), low_byte v])"
  using assms by (simp add: decode_step_def push_bit_or push_bit_push_bit or.assoc Let_def)

lemma fast_path_slow:
  assumes "fast_path alphabet input v out = (input', v', out')"
  shows "decode_result (slow_run alphabet input 0 u out) = decode_result (slow_run alphabet input' 0 v' out')"
  using assms
proof (induction alphabet input v out arbitrary: u rule: fast_path.induct)
  case (1 alphabet w x y z rest v out)
  let ?v = "push_bit 18 (alphabet ! unat w) OR push_bit 12 (alphabet ! unat x) OR
    push_bit 6 (alphabet ! unat y) OR alphabet ! unat z"
  show ?case
  proof (cases "0 \<le> ?v")
    case True
    then have "0 \<le> alphabet ! unat w" "0 \<le> alphabet ! unat x" "0 \<le> alphabet ! unat y" "0 \<le> alphabet ! unat z"
      by simp_all
    from slow_run_quad[OF this refl refl refl refl] 1 True show ?thesis by (simp add: Let_def)
  next
    case False
    with "1.prems" have "input' = w # x # y # z # rest" "out' = out"
      by (auto simp: Let_def split: if_splits)
    then show ?thesis by (simp only: slow_run_state0[of _ _ u out v'])
  qed
qed (auto simp: decode_finish_def intro: slow_run_state0)

lemma decode_loop_slow:
  assumes "state \<noteq> 0 \<longrightarrow> u = v"
  shows "decode_result (decode_loop alphabet input state v out) = decode_result (slow_run alphabet input state u out)"
  using assms
proof (induction alphabet input state v out arbitrary: u rule: decode_loop.induct)
  case (1 alphabet input state v out)
  show ?case
  proof (cases input)
    case Nil
    with "1.prems" show ?thesis
      by (cases "state = 0") (simp_all add: decode_loop.simps[of alphabet "[]"] decode_finish_def)
  next
    case (Cons b0 r0)
    obtain input' v' out' where f: "(if state = 0 then fast_path alphabet input v out else (input, v, out)) =
      (input', v', out')" by (metis prod_cases3)
    have s: "decode_result (slow_run alphabet input state u out) =
        decode_result (slow_run alphabet input' state v' out')"
      using f "1.prems" fast_path_slow[of alphabet input v out input' v' out' u] by (cases "state = 0") auto
    show ?thesis
    proof (cases input')
      case Nil
      have "decode_loop alphabet input state v out = Inr (state, v', out')"
        using Cons f Nil by (subst decode_loop.simps) (auto split: list.split)
      with s Nil show ?thesis by simp
    next
      case (Cons b rest)
      note c = Cons
      have l: "decode_loop alphabet input state v out = (case decode_step state v' out' (alphabet ! unat b) of
          None \<Rightarrow> Inl out' | Some (state', value', out'') \<Rightarrow> decode_loop alphabet rest state' value' out'')"
        using \<open>input = b0 # r0\<close> f Cons by (subst decode_loop.simps) (simp only: list.case prod.case)
      show ?thesis
      proof (cases "decode_step state v' out' (alphabet ! unat b)")
        case None
        with l s Cons show ?thesis by simp
      next
        case (Some t)
        obtain st2 v2 out2 where t: "t = (st2, v2, out2)" by (metis prod_cases3)
        have "decode_result (decode_loop alphabet rest st2 v2 out2) = decode_result (slow_run alphabet rest st2 v2 out2)"
          using "1.IH"[OF \<open>input = b0 # r0\<close> f[symmetric, unfolded c] refl refl Some t[symmetric] refl, of v2]
          by simp
        with l s Some t Cons show ?thesis by simp
      qed
    qed
  qed
qed

section \<open>Decoding what was encoded\<close>

text \<open>What the proofs use of a pair of tables.\<close>

definition tables_match :: "u8 list \<Rightarrow> int list \<Rightarrow> bool" where
  "tables_match enc dec \<longleftrightarrow> (\<forall>i < 64. dec ! unat (enc ! i) = int i) \<and>
     dec ! 10 = - 1 \<and> dec ! 13 = - 1 \<and> dec ! 61 = - 2"

lemma tables_match_flags:
  "tables_match (if \<not> url_safe_flag flags then ENCODE else ENCODE_WEBSAFE)
     (if \<not> url_safe_flag flags then DECODE else DECODE_WEBSAFE)"
proof -
  have "list_all (\<lambda>i. DECODE ! unat (ENCODE ! i) = int i \<and> DECODE_WEBSAFE ! unat (ENCODE_WEBSAFE ! i) = int i) [0..<64]"
    by code_simp
  then have t: "\<forall>i \<in> set [0..<64]. DECODE ! unat (ENCODE ! i) = int i \<and>
      DECODE_WEBSAFE ! unat (ENCODE_WEBSAFE ! i) = int i" by (simp only: list_all_iff)
  have "DECODE ! 10 = - 1 \<and> DECODE ! 13 = - 1 \<and> DECODE ! 61 = - 2 \<and>
      DECODE_WEBSAFE ! 10 = - 1 \<and> DECODE_WEBSAFE ! 13 = - 1 \<and> DECODE_WEBSAFE ! 61 = - 2"
    by code_simp
  with t show ?thesis by (simp add: tables_match_def)
qed

lemma table_char:
  assumes "tables_match enc dec"
  shows "dec ! unat (b64_char enc v sh) = take_bit 6 (drop_bit sh v)"
proof -
  have m: "x AND 0x3f = take_bit 6 x" for x :: int by (simp add: take_bit_eq_mask mask_eq_exp_minus_1)
  have "take_bit 6 (drop_bit sh v) < 2 ^ 6" by (rule take_bit_int_less_exp)
  then have "nat (take_bit 6 (drop_bit sh v)) < 64" by simp
  with assms show ?thesis unfolding b64_char_def m tables_match_def by simp
qed

lemma slow_run_line_end:
  assumes "tables_match enc dec"
  shows "slow_run dec (line_end cr @ rest) state v out = slow_run dec rest state v out"
  using assms by (auto simp: line_end_def tables_match_def decode_step_def)

lemma triple_bytes:
  fixes a b c :: u8
  defines "v \<equiv> push_bit 16 (uint a) OR push_bit 8 (uint b) OR uint c"
  defines "r \<equiv> push_bit 18 (take_bit 6 (drop_bit 18 v)) OR push_bit 12 (take_bit 6 (drop_bit 12 v)) OR
    push_bit 6 (take_bit 6 (drop_bit 6 v)) OR take_bit 6 (drop_bit 0 v)"
  shows "low_byte (drop_bit 16 r) = a" "low_byte (drop_bit 8 r) = b" "low_byte r = c"
  unfolding r_def v_def low_byte_def
  by (rule u8_eqI; simp add: bit_simps u8_bit_high bit_word_of_int_iff flip: numeral_2_eq_2 numeral_3_eq_3)+

definition quad_chars :: "u8 list \<Rightarrow> u8 \<Rightarrow> u8 \<Rightarrow> u8 \<Rightarrow> u8 list" where
  "quad_chars enc a b c =
     (let v = push_bit 16 (uint a) OR push_bit 8 (uint b) OR uint c
      in [b64_char enc v 18, b64_char enc v 12, b64_char enc v 6, b64_char enc v 0])"

lemma slow_run_triple:
  assumes "tables_match enc dec"
  shows "decode_result (slow_run dec (quad_chars enc a b c @ rest) 0 u out) =
    decode_result (slow_run dec rest 0 0 (out @ [a, b, c]))"
proof -
  define v where "v = push_bit 16 (uint a) OR push_bit 8 (uint b) OR uint c"
  have q: "quad_chars enc a b c = [b64_char enc v 18, b64_char enc v 12, b64_char enc v 6, b64_char enc v 0]"
    by (simp only: quad_chars_def Let_def v_def)
  define w where "w = push_bit 18 (take_bit 6 (drop_bit 18 v)) OR push_bit 12 (take_bit 6 (drop_bit 12 v)) OR
    push_bit 6 (take_bit 6 (drop_bit 6 v)) OR take_bit 6 (drop_bit 0 v)"
  note t = triple_bytes[of a b c, folded v_def, folded w_def]
  have "slow_run dec (quad_chars enc a b c @ rest) 0 u out = slow_run dec rest 0 w (out @ [a, b, c])"
    unfolding q append_Cons append_Nil
    using slow_run_quad[OF _ _ _ _ table_char[OF assms, of v 18] table_char[OF assms, of v 12]
        table_char[OF assms, of v 6] table_char[OF assms, of v 0], of rest u out, folded w_def, unfolded t]
    by simp
  then show ?thesis using slow_run_state0[of dec rest w "out @ [a, b, c]" 0] by simp
qed

lemma encode_main_step:
  "encode_main enc cr (a # b # c # rest) count p =
     encode_main enc cr rest (if count = 1 then LINE_GROUPS else count - 1)
       (p @ quad_chars enc a b c @ (if count = 1 then line_end cr else []))"
  by (simp add: Let_def quad_chars_def)

lemma encode_main_decodes:
  assumes "encode_main enc cr src count p = (r, count', p')" and "tables_match enc dec"
  shows "\<exists>c t. src = c @ r \<and> p' = p @ t \<and> length r < 3 \<and> length c mod 3 = 0 \<and>
    (\<forall>rest u out. decode_result (slow_run dec (t @ rest) 0 u out) =
       decode_result (slow_run dec rest 0 0 (out @ c)))"
  using assms
proof (induction enc cr src count p arbitrary: r count' p' rule: encode_main.induct)
  case (1 enc cr a b c rest count p)
  let ?nl = "if count = 1 then line_end cr else []"
  note tm2 = "1.prems"(2)
  have e: "encode_main enc cr rest (if count = 1 then LINE_GROUPS else count - 1) (p @ quad_chars enc a b c @ ?nl)
      = (r, count', p')"
    using "1.prems"(1) by (simp only: encode_main_step)
  have "\<exists>d t. rest = d @ r \<and> p' = (p @ quad_chars enc a b c @ ?nl) @ t \<and> length r < 3 \<and> length d mod 3 = 0 \<and>
    (\<forall>rest u out. decode_result (slow_run dec (t @ rest) 0 u out) =
       decode_result (slow_run dec rest 0 0 (out @ d)))"
    using "1.IH"[OF refl refl refl, of r count' p'] e tm2 by (cases "count = 1") (simp_all add: Let_def quad_chars_def)
  then obtain d t where d: "rest = d @ r" "p' = p @ (quad_chars enc a b c @ ?nl @ t)" "length r < 3"
    "length d mod 3 = 0" "\<And>rest u out. decode_result (slow_run dec (t @ rest) 0 u out) =
       decode_result (slow_run dec rest 0 0 (out @ d))"
    by (metis append.assoc)
  have "decode_result (slow_run dec ((quad_chars enc a b c @ ?nl @ t) @ more) 0 u out) =
      decode_result (slow_run dec more 0 0 (out @ a # b # c # d))" for more u out
    using d(5)[of more 0 "out @ [a, b, c]"] slow_run_triple[OF tm2] slow_run_line_end[OF tm2]
    by (cases "count = 1") simp_all
  moreover have "length (a # b # c # d) mod 3 = 0"
  proof -
    have "length (a # b # c # d) = length d + 3" by simp
    then show ?thesis using d(4) by (simp only: mod_add_self2)
  qed
  ultimately show ?case using d(1-3)
    by (intro exI[of _ "a # b # c # d"] exI[of _ "quad_chars enc a b c @ ?nl @ t"]) (simp del: slow_run.simps)
qed (auto intro: slow_run_state0)

lemma length_line_end: "length (line_end cr) = (if cr then 2 else 1)"
  by (simp add: line_end_def)

lemma encode_main_length:
  assumes "encode_main enc cr src (19 - int k) p = (r, count', p')" and "k < 19"
  shows "length p' = length p + 4 * (length src div 3) +
      (if cr then 2 else 1) * ((k + length src div 3) div 19) \<and>
    count' = 19 - int ((k + length src div 3) mod 19)"
  using assms
proof (induction "length src" arbitrary: src k p rule: less_induct)
  case less
  show ?case
  proof (cases "\<exists>a b c rest. src = a # b # c # rest")
    case True
    then obtain a b c rest where src: "src = a # b # c # rest" by blast
    let ?k = "if k = 18 then 0 else Suc k" and ?m = "length rest div 3"
    have c1: "19 - int k = 1 \<longleftrightarrow> k = 18" using less.prems(2) by auto
    have e: "encode_main enc cr rest (19 - int ?k)
        (p @ quad_chars enc a b c @ (if k = 18 then line_end cr else [])) = (r, count', p')"
      using less.prems(1) unfolding src encode_main_step c1
      by (cases "k = 18") (simp_all add: LINE_GROUPS_def)
    have ih: "length p' = length (p @ quad_chars enc a b c @ (if k = 18 then line_end cr else [])) + 4 * ?m +
        (if cr then 2 else 1) * ((?k + ?m) div 19) \<and> count' = 19 - int ((?k + ?m) mod 19)"
      using less.prems(2) by (intro less.hyps[OF _ e]) (auto simp: src)
    have m: "length src div 3 = Suc ?m" by (simp add: src)
    have w: "(18 + Suc ?m) div 19 = Suc (?m div 19)" "(18 + Suc ?m) mod 19 = ?m mod 19" by simp_all
    show ?thesis
      using ih w unfolding m
      by (cases "k = 18") (simp_all add: quad_chars_def Let_def length_line_end)
  next
    case False
    have s: "encode_main enc cr src (19 - int k) p = (src, 19 - int k, p)"
      using False by (cases "(enc, cr, src, 19 - int k, p)" rule: encode_main.cases) auto
    have "length src < 3"
      using False by (metis Suc_le_length_iff not_le numeral_3_eq_3)
    with s less.prems show ?thesis by auto
  qed
qed

lemma encode_main_plain:
  assumes "encode_main enc cr src count p = (r, count', p')" and "count < 0"
  shows "length p' = length p + 4 * (length src div 3)"
  using assms
proof (induction enc cr src count p arbitrary: r count' p' rule: encode_main.induct)
  case (1 enc cr a b c rest count p)
  have d: "length (a # b # c # rest) div 3 = Suc (length rest div 3)" by simp
  have "length p' = length p + 4 + 4 * (length rest div 3)" using 1 by (auto simp: Let_def)
  then show ?case unfolding d by simp
qed auto

lemma tail_bytes:
  fixes a b :: u8
  shows "low_byte (drop_bit 4 (push_bit 6 (take_bit 6 (drop_bit 6 (push_bit 4 (uint a)))) OR
      take_bit 6 (drop_bit 0 (push_bit 4 (uint a))))) = a"
    and "low_byte (drop_bit 10 (push_bit 6 (push_bit 6 (take_bit 6 (drop_bit 12 (push_bit 10 (uint a) OR push_bit 2 (uint b)))) OR
      take_bit 6 (drop_bit 6 (push_bit 10 (uint a) OR push_bit 2 (uint b)))) OR
      take_bit 6 (drop_bit 0 (push_bit 10 (uint a) OR push_bit 2 (uint b))))) = a"
    and "low_byte (drop_bit 2 (push_bit 6 (push_bit 6 (take_bit 6 (drop_bit 12 (push_bit 10 (uint a) OR push_bit 2 (uint b)))) OR
      take_bit 6 (drop_bit 6 (push_bit 10 (uint a) OR push_bit 2 (uint b)))) OR
      take_bit 6 (drop_bit 0 (push_bit 10 (uint a) OR push_bit 2 (uint b))))) = b"
  unfolding low_byte_def
  by (rule u8_eqI; simp add: bit_simps u8_bit_high bit_word_of_int_iff flip: numeral_2_eq_2 numeral_3_eq_3)+

lemma slow_run_data2:
  assumes "tables_match enc dec"
  shows "slow_run dec (b64_char enc v s1 # b64_char enc v s2 # rest) 0 u out =
      slow_run dec rest 2 (push_bit 6 (take_bit 6 (drop_bit s1 v)) OR take_bit 6 (drop_bit s2 v)) out"
  using table_char[OF assms] by (simp add: decode_step_def)

lemma slow_run_data3:
  assumes "tables_match enc dec"
  shows "slow_run dec (b64_char enc v s1 # b64_char enc v s2 # b64_char enc v s3 # rest) 0 u out =
      slow_run dec rest 3 (push_bit 6 (push_bit 6 (take_bit 6 (drop_bit s1 v)) OR take_bit 6 (drop_bit s2 v)) OR
        take_bit 6 (drop_bit s3 v)) out"
  using table_char[OF assms] by (simp add: decode_step_def)

lemma slow_run_padding:
  assumes "tables_match enc dec"
  shows "slow_run dec (61 # 61 # rest) 2 v out = slow_run dec rest 5 v (out @ [low_byte (drop_bit 4 v)])"
    and "slow_run dec (61 # rest) 3 v out =
      slow_run dec rest 5 v (out @ [low_byte (drop_bit 10 v), low_byte (drop_bit 2 v)])"
  using assms by (simp_all add: tables_match_def decode_step_def)

lemma slow_run_finish:
  assumes "tables_match enc dec"
  shows "decode_result (slow_run dec ((if pad then [61, 61] else []) @ (if nl then line_end cr else [])) 2 v out) =
      Inr (out @ [low_byte (drop_bit 4 v)])"
    and "decode_result (slow_run dec ((if pad then [61] else []) @ (if nl then line_end cr else [])) 3 v out) =
      Inr (out @ [low_byte (drop_bit 10 v), low_byte (drop_bit 2 v)])"
  using slow_run_padding[OF assms] slow_run_line_end[OF assms, where rest = "[]"]
  by (cases pad; cases nl; simp add: decode_finish_def del: slow_run.simps(2))+

lemma encode_end_decodes:
  assumes tm: "tables_match enc dec" and "length r < 3"
  shows "\<exists>t. encode_end enc pad nl cr r count p = p @ t \<and>
    decode_result (slow_run dec t 0 u out) = Inr (out @ r)"
proof -
  note le = slow_run_line_end[OF tm, where rest = "[]", simplified]
  consider "r = []" | a where "r = [a]" | a b where "r = [a, b]"
    using assms(2) by (cases r rule: remdups_adj.cases) auto
  then show ?thesis
  proof cases
    case 1
    have "decode_result (slow_run dec (line_end cr) 0 u out) = Inr out" by (simp add: le decode_finish_def)
    with 1 show ?thesis by (auto simp: decode_finish_def)
  next
    case (2 a)
    let ?t = "[b64_char enc (push_bit 4 (uint a)) 6, b64_char enc (push_bit 4 (uint a)) 0] @
      (if pad then [61, 61] else []) @ (if nl then line_end cr else [])"
    have "decode_result (slow_run dec ?t 0 u out) = Inr (out @ [a])"
      unfolding append_Cons append_Nil slow_run_data2[OF tm] slow_run_finish[OF tm] tail_bytes ..
    with 2 show ?thesis by (intro exI[of _ ?t]) (simp add: Let_def)
  next
    case (3 a b)
    let ?v = "push_bit 10 (uint a) OR push_bit 2 (uint b)"
    let ?t = "[b64_char enc ?v 12, b64_char enc ?v 6, b64_char enc ?v 0] @
      (if pad then [61] else []) @ (if nl then line_end cr else [])"
    have "decode_result (slow_run dec ?t 0 u out) = Inr (out @ [a, b])"
      unfolding append_Cons append_Nil slow_run_data3[OF tm] slow_run_finish[OF tm] tail_bytes ..
    with 3 show ?thesis by (intro exI[of _ ?t]) (simp add: Let_def)
  qed
qed

lemma android_text_decodes:
  "\<exists>t. do_encode pad nl cr flags src = t \<and> slow_decode flags t = Inr src"
proof -
  let ?enc = "if \<not> url_safe_flag flags then ENCODE else ENCODE_WEBSAFE"
  let ?dec = "if \<not> url_safe_flag flags then DECODE else DECODE_WEBSAFE"
  note tm = tables_match_flags[of flags]
  obtain r count p where e: "encode_main ?enc cr src (if nl then LINE_GROUPS else - 1) [] = (r, count, p)"
    by (metis prod_cases3)
  obtain c where c: "src = c @ r" "length r < 3"
    "\<And>rest u out. decode_result (slow_run ?dec (p @ rest) 0 u out) = decode_result (slow_run ?dec rest 0 0 (out @ c))"
    using encode_main_decodes[OF e tm] by auto
  obtain t where t: "encode_end ?enc pad nl cr r count p = p @ t"
    "decode_result (slow_run ?dec t 0 0 c) = Inr (c @ r)"
    using encode_end_decodes[OF tm c(2), of pad nl cr count p 0 c] by auto
  have "do_encode pad nl cr flags src = p @ t"
    using e t(1) by (simp add: do_encode_def Let_def)
  then show ?thesis using c t by (simp add: slow_decode_def)
qed

lemma encode_end_length:
  assumes "length r < 3"
  shows "length (encode_end enc pad nl cr r count p) = length p +
    (if r = [] then 0 else if pad then 4 else length r + 1) +
    (if nl \<and> (r \<noteq> [] \<or> p \<noteq> [] \<and> count \<noteq> LINE_GROUPS) then if cr then 2 else 1 else 0)"
proof -
  consider "r = []" | a where "r = [a]" | a b where "r = [a, b]"
    using assms by (cases r rule: remdups_adj.cases) auto
  then show ?thesis by cases (auto simp: Let_def length_line_end)
qed

lemma line_count:
  assumes "n = 3 * m + q" "q < 3" "0 < n"
  shows "(n - 1) div (3 * 19) + 1 = m div 19 + (if 0 < q \<or> m mod 19 \<noteq> 0 then 1 else (0::nat))"
proof -
  have "(n - 1) div (3 * 19) = (n - 1) div 3 div 19" by (rule div_mult2_eq)
  also have "(n - 1) div 3 = (if 0 < q then m else m - 1)" using assms by auto
  finally have d: "(n - 1) div (3 * 19) = (if 0 < q then m else m - 1) div 19" .
  show ?thesis
  proof (cases "0 < q")
    case False
    with assms obtain k where k: "m = Suc k" by (cases m) auto
    show ?thesis unfolding d k using False div_Suc[of k 19] by simp
  next
    case True
    then show ?thesis unfolding d by simp
  qed
qed

lemma android_encode_length: "snd (android_encode flags src) = length (fst (android_encode flags src))"
proof -
  let ?enc = "if \<not> url_safe_flag flags then ENCODE else ENCODE_WEBSAFE"
  let ?nl = "\<not> no_wrap_flag flags" and ?cr = "crlf_flag flags" and ?pad = "\<not> no_padding_flag flags"
  obtain r count p where e: "encode_main ?enc ?cr src (if ?nl then LINE_GROUPS else - 1) [] = (r, count, p)"
    by (metis prod_cases3)
  obtain c where c: "src = c @ r" "length r < 3" "length c mod 3 = 0"
    using encode_main_decodes[OF e tables_match_flags] by auto
  define m where "m = length src div 3"
  have n: "length src = 3 * m + length r" "length src mod 3 = length r"
    using c by (auto simp: m_def mod_add_eq[symmetric])
  have te: "fst (android_encode flags src) = encode_end ?enc ?pad ?nl ?cr r count p"
    using e by (simp add: android_encode_def do_encode_def Let_def)
  note el = encode_end_length[OF c(2), of ?enc ?pad ?nl ?cr count p]
  have q: "r = [] \<longleftrightarrow> \<not> 0 < length r" by simp
  have out: "snd (android_encode flags src) = 4 * m + (if r = [] then 0 else if ?pad then 4 else length r + 1) +
      (if ?nl \<and> 0 < length src then ((length src - 1) div (3 * 19) + 1) * (if ?cr then 2 else 1) else 0)"
  proof -
    have "length r = 0 \<or> length r = 1 \<or> length r = 2" using c(2) by linarith
    then show ?thesis using n(2) unfolding q by (auto simp: android_encode_def Let_def m_def)
  qed
  show ?thesis
  proof (cases ?nl)
    case True
    then have "encode_main ?enc ?cr src (19 - int 0) [] = (r, count, p)" using e by (simp add: LINE_GROUPS_def)
    from encode_main_length[OF this] have l: "length p = 4 * m + (if ?cr then 2 else 1) * (m div 19)"
      "count = 19 - int (m mod 19)" by (simp_all add: m_def)
    have p: "p \<noteq> [] \<longleftrightarrow> m \<noteq> 0" using l(1) by (cases "m = 0") auto
    have k: "count \<noteq> LINE_GROUPS \<longleftrightarrow> m mod 19 \<noteq> 0" by (simp add: l(2) LINE_GROUPS_def)
    show ?thesis
    proof (cases "0 < length src")
      case pos: True
      note lc = line_count[OF n(1) c(2) pos]
      have "r \<noteq> [] \<or> p \<noteq> [] \<and> count \<noteq> LINE_GROUPS \<longleftrightarrow> 0 < length r \<or> m mod 19 \<noteq> 0"
        unfolding p k using q by (cases "m = 0") auto
      with True pos show ?thesis
        unfolding out te el l(1) lc by simp
    next
      case False
      with n(1) have "r = []" "m = 0" by auto
      with True False l(1) show ?thesis unfolding out te el p by simp
    qed
  next
    case False
    then have "encode_main ?enc ?cr src (- 1) [] = (r, count, p)" using e by simp
    from encode_main_plain[OF this] have "length p = 4 * m" by (simp add: m_def)
    with False show ?thesis unfolding out te el by simp
  qed
qed

section \<open>How much the decoder writes\<close>

text \<open>Three quarters of a byte per character, reserved for the characters held in the state.\<close>

definition held :: "nat \<Rightarrow> nat" where
  "held state = (if state = 1 then 3 else if state = 2 then 6 else if state = 3 then 9 else 0)"

lemma decode_step_writes:
  "decode_step state v out d = Some (state', v', out') \<Longrightarrow>
   4 * length out' + held state' \<le> 4 * length out + held state + 3"
  by (auto simp: decode_step_def held_def Let_def split: if_splits)

lemma slow_run_writes:
  "case decode_result (slow_run alphabet input state v out) of
     Inl o' \<Rightarrow> 4 * length o' \<le> 4 * length out + held state + 3 * length input
   | Inr o' \<Rightarrow> 4 * length o' \<le> 4 * length out + held state + 3 * length input"
proof (induction input arbitrary: state v out)
  case Nil
  then show ?case by (auto simp: decode_finish_def held_def)
next
  case (Cons b rest)
  show ?case
  proof (cases "decode_step state v out (alphabet ! unat b)")
    case None
    then show ?thesis by simp
  next
    case (Some t)
    obtain s1 v1 o1 where t: "t = (s1, v1, o1)" by (metis prod_cases3)
    with Some decode_step_writes[of state v out "alphabet ! unat b" s1 v1 o1]
    have w: "4 * length o1 + held s1 \<le> 4 * length out + held state + 3" by simp
    with Cons.IH[where state = s1 and v = v1 and out = o1] Some t show ?thesis
      by (auto split: sum.splits)
  qed
qed

section \<open>Properties\<close>

text \<open>
  The fast path of the decoder is an optimisation only: for every flag and every input the
  decoder writes the same bytes and accepts or refuses in the same way as the plain state
  machine, as the comment in the source claims.
\<close>

theorem android_decode_fast_path:
  "fst (android_decode flags input) = slow_decode flags input"
  unfolding android_decode_def do_decode_result slow_decode_def by (rule decode_loop_slow) simp


text \<open>
  On arbitrary input, refused or accepted, the decoder writes at most three quarters of the
  input length, so a caller's buffer of that size is never overrun.
\<close>

theorem android_decode_bound:
  "case fst (android_decode flags input) of
     Inl out \<Rightarrow> length out \<le> length input * 3 div 4
   | Inr out \<Rightarrow> length out \<le> length input * 3 div 4"
proof -
  have "fst (android_decode flags input) =
      decode_result (slow_run (if \<not> url_safe_flag flags then DECODE else DECODE_WEBSAFE) input 0 0 [])"
    unfolding android_decode_def do_decode_result by (rule decode_loop_slow) simp
  then show ?thesis
    using slow_run_writes[where state = 0 and v = 0 and out = "[]" and input = input and
        alphabet = "if \<not> url_safe_flag flags then DECODE else DECODE_WEBSAFE"]
    by (auto simp: held_def split: sum.splits)
qed

text \<open>
  The value that \<open>base64_decode\<close> returns is not the number of bytes it wrote: the padded text of
  one byte is answered with 3.
\<close>

lemma android_decode_return:
  "android_decode 0 (map of_char ''QQ=='') = (Inr [65], 3)"
  by code_simp

end
