(* ===== verification/DhcpPacket.thy ===== *)
theory DhcpPacket
  imports Prelude
begin

text \<open>
  DHCP messages and their UDP/IP packets: \<open>src/src/dhcpc/dhcpmsg.c\<close>, \<open>dhcpmsg.h\<close> and
  \<open>packet.c\<close>, on a little-endian host.

  The structures are records; \<open>msg_bytes\<close>, \<open>ip_bytes\<close> and \<open>udp_bytes\<close> are their layout in memory, which
  the Internet checksum runs over. \<open>send_packet\<close> gives the bytes handed to \<open>sendmsg\<close>.
  \<open>receive_packet\<close> reads a packet into a local structure whose former contents are an argument, and
  copies the payload into the caller's message; \<open>None\<close> is a copy outside one of the two.
\<close>

section \<open>Messages\<close>

record dhcp_msg =
  dm_op :: u8
  dm_htype :: u8
  dm_hlen :: u8
  dm_hops :: u8
  dm_xid :: u32
  dm_secs :: u16
  dm_flags :: u16
  dm_ciaddr :: u32
  dm_yiaddr :: u32
  dm_siaddr :: u32
  dm_giaddr :: u32
  dm_chaddr :: "u8 list"
  dm_sname :: "u8 list"
  dm_file :: "u8 list"
  dm_options :: "u8 list"

definition DHCP_MSG_FIXED_SIZE :: nat where
  "DHCP_MSG_FIXED_SIZE = 236"

definition dhcp_msg_size :: nat where
  "dhcp_msg_size = 1260"

definition msg_bytes :: "dhcp_msg \<Rightarrow> u8 list" where
  "msg_bytes m =
     [dm_op m, dm_htype m, dm_hlen m, dm_hops m] @ le32 (dm_xid m) @ le16 (dm_secs m) @ le16 (dm_flags m) @
     le32 (dm_ciaddr m) @ le32 (dm_yiaddr m) @ le32 (dm_siaddr m) @ le32 (dm_giaddr m) @
     dm_chaddr m @ dm_sname m @ dm_file m @ dm_options m"

definition msg_of_bytes :: "u8 list \<Rightarrow> dhcp_msg" where
  "msg_of_bytes p =
     \<lparr>dm_op = p ! 0, dm_htype = p ! 1, dm_hlen = p ! 2, dm_hops = p ! 3, dm_xid = load32 p 4,
      dm_secs = load16 p 8, dm_flags = load16 p 10, dm_ciaddr = load32 p 12, dm_yiaddr = load32 p 16,
      dm_siaddr = load32 p 20, dm_giaddr = load32 p 24, dm_chaddr = take 16 (drop 28 p),
      dm_sname = take 64 (drop 44 p), dm_file = take 128 (drop 108 p), dm_options = take 1024 (drop 236 p)\<rparr>"

definition msg_wf :: "dhcp_msg \<Rightarrow> bool" where
  "msg_wf m \<longleftrightarrow> length (dm_chaddr m) = 16 \<and> length (dm_sname m) = 64 \<and> length (dm_file m) = 128 \<and>
     length (dm_options m) = 1024"

text \<open>\<open>*x++ = b\<close> for a sequence of bytes: the message and the offset of \<open>x\<close> in its options.\<close>

definition emit :: "dhcp_msg \<times> nat \<Rightarrow> u8 list \<Rightarrow> dhcp_msg \<times> nat" where
  "emit mx bs =
     (let (m, x) = mx
      in (m\<lparr>dm_options := take x (dm_options m) @ bs @ drop (x + length bs) (dm_options m)\<rparr>, x + length bs))"

definition init_dhcp_msg :: "u8 \<Rightarrow> u8 list \<Rightarrow> u32 \<Rightarrow> dhcp_msg \<times> nat" where
  "init_dhcp_msg type hwaddr xid =
     (let m = \<lparr>dm_op = 1, dm_htype = 1, dm_hlen = 6, dm_hops = 0, dm_xid = xid, dm_secs = 0,
               dm_flags = htons 0x8000, dm_ciaddr = 0, dm_yiaddr = 0, dm_siaddr = 0, dm_giaddr = 0,
               dm_chaddr = take 6 hwaddr @ replicate 10 0, dm_sname = replicate 64 0,
               dm_file = replicate 128 0, dm_options = replicate 1024 0\<rparr>
      in emit (m, 0) [0x63, 0x82, 0x53, 0x63, 53, 1, type])"

definition init_dhcp_discover_msg :: "u8 list \<Rightarrow> u32 \<Rightarrow> dhcp_msg \<times> nat" where
  "init_dhcp_discover_msg hwaddr xid =
     (let (m, x) = emit (init_dhcp_msg 1 hwaddr xid) [55, 4, 1, 3, 6, 28, 255]
      in (m, DHCP_MSG_FIXED_SIZE + x))"

definition init_dhcp_request_msg :: "u8 list \<Rightarrow> u32 \<Rightarrow> u32 \<Rightarrow> u32 \<Rightarrow> dhcp_msg \<times> nat" where
  "init_dhcp_request_msg hwaddr xid ipaddr serveraddr =
     (let mx = emit (init_dhcp_msg 3 hwaddr xid) [55, 4, 1, 3, 6, 28];
          mx = emit mx ([50, 4] @ le32 ipaddr);
          mx = emit mx ([54, 4] @ le32 serveraddr);
          (m, x) = emit mx [255]
      in (m, DHCP_MSG_FIXED_SIZE + x))"

section \<open>Checksum\<close>

fun sum_words :: "u8 list \<Rightarrow> u32 \<Rightarrow> u32" where
  "sum_words (a # b # rest) acc = sum_words rest (acc + (ucast a OR push_bit 8 (ucast b)))"
| "sum_words [a] acc = acc + ucast a"
| "sum_words [] acc = acc"

lemma fold_carry_less:
  fixes acc :: u32
  assumes "drop_bit 16 acc \<noteq> 0"
  shows "unat ((acc AND 0xffff) + drop_bit 16 acc) < unat acc"
    and "unat ((acc AND 0xffff) + drop_bit 16 acc) = unat acc mod 65536 + unat acc div 65536"
proof -
  have m: "acc AND 0xffff = take_bit 16 acc" by (simp add: take_bit_eq_mask mask_eq_exp_minus_1)
  have l: "unat (acc AND 0xffff) = unat acc mod 65536" unfolding m unsigned_take_bit_eq by (simp add: take_bit_eq_mod)
  have h: "unat (drop_bit 16 acc) = unat acc div 65536" by (simp add: unat_div drop_bit_eq_div)
  have lt: "unat acc < 2 ^ 32" using unsigned_less[of acc] by simp
  then have "unat acc mod 65536 + unat acc div 65536 < 2 ^ 32" by linarith
  then show e: "unat ((acc AND 0xffff) + drop_bit 16 acc) = unat acc mod 65536 + unat acc div 65536"
    using l h by (subst unat_add_no_wrap) simp_all
  have "unat acc div 65536 \<noteq> 0" using assms h by (metis unat_eq_0)
  then have "unat acc mod 65536 + unat acc div 65536 < unat acc"
    using div_mult_mod_eq[of "unat acc" 65536] by linarith
  with e show "unat ((acc AND 0xffff) + drop_bit 16 acc) < unat acc" by simp
qed

function fold_carry :: "u32 \<Rightarrow> u32" where
  "fold_carry acc =
     (let upper16 = drop_bit 16 acc
      in if upper16 \<noteq> 0 then fold_carry ((acc AND 0xffff) + upper16) else acc)"
  by pat_completeness auto
termination
  by (relation "measure unat") (use fold_carry_less(1) in auto)

definition checksum :: "u8 list \<Rightarrow> u32 \<Rightarrow> u32" where
  "checksum buffer startsum = fold_carry (sum_words buffer startsum)"

definition finish_sum :: "u32 \<Rightarrow> u32" where
  "finish_sum acc = NOT acc AND 0xffff"

section \<open>Packets\<close>

record iphdr =
  ip_version :: u8
  ip_ihl :: u8
  ip_tos :: u8
  ip_tot_len :: u16
  ip_id :: u16
  ip_frag_off :: u16
  ip_ttl :: u8
  ip_protocol :: u8
  ip_check :: u16
  ip_saddr :: u32
  ip_daddr :: u32

record udphdr =
  udp_source :: u16
  udp_dest :: u16
  udp_len :: u16
  udp_check :: u16

definition ip_bytes :: "iphdr \<Rightarrow> u8 list" where
  "ip_bytes h =
     [ip_ihl h OR push_bit 4 (ip_version h), ip_tos h] @ le16 (ip_tot_len h) @ le16 (ip_id h) @
     le16 (ip_frag_off h) @ [ip_ttl h, ip_protocol h] @ le16 (ip_check h) @ le32 (ip_saddr h) @ le32 (ip_daddr h)"

definition udp_bytes :: "udphdr \<Rightarrow> u8 list" where
  "udp_bytes h = le16 (udp_source h) @ le16 (udp_dest h) @ le16 (udp_len h) @ le16 (udp_check h)"

definition send_packet ::
  "dhcp_msg \<Rightarrow> nat \<Rightarrow> u32 \<Rightarrow> u32 \<Rightarrow> u32 \<Rightarrow> u32 \<Rightarrow> u8 list" where
  "send_packet msg sz saddr daddr sport dport =
     (let ip = \<lparr>ip_version = 4, ip_ihl = 5, ip_tos = 0, ip_tot_len = htons (of_nat (20 + 8 + sz)),
                ip_id = 0, ip_frag_off = 0, ip_ttl = 64, ip_protocol = 17, ip_check = 0,
                ip_saddr = saddr, ip_daddr = daddr\<rparr>;
          ip = ip\<lparr>ip_check := ucast (finish_sum (checksum (ip_bytes ip) 0))\<rparr>;
          udp = \<lparr>udp_source = htons (ucast sport), udp_dest = htons (ucast dport),
                 udp_len = htons (of_nat (8 + sz)), udp_check = 0\<rparr>;
          data = take sz (msg_bytes msg);
          udpsum = checksum (le32 (ip_saddr ip)) 0;
          udpsum = checksum (le32 (ip_daddr ip)) udpsum;
          udpsum = checksum (le16 (htons 17)) udpsum;
          udpsum = checksum (le16 (udp_len udp)) udpsum;
          udpsum = checksum (udp_bytes udp) udpsum;
          udpsum = checksum data udpsum;
          udp = udp\<lparr>udp_check := ucast (finish_sum udpsum)\<rparr>
      in ip_bytes ip @ udp_bytes udp @ data)"

text \<open>
  \<open>stale\<close> is the former contents of the local packet structure, \<open>None\<close> a failing \<open>read\<close>. The checks
  and the borrowed pseudo header follow the source; field offsets are those of \<open>struct dhcp_packet\<close>.
\<close>

definition pseudo_packet :: "u8 list \<Rightarrow> u8 list" where
  "pseudo_packet p =
     ip_bytes \<lparr>ip_version = 0, ip_ihl = 0, ip_tos = 0, ip_tot_len = load16 p 24, ip_id = 0,
               ip_frag_off = 0, ip_ttl = 0, ip_protocol = 17, ip_check = 0,
               ip_saddr = load32 p 12, ip_daddr = load32 p 16\<rparr> @
     take 6 (drop 20 p) @ [0, 0] @ drop 28 p"

definition receive_packet ::
  "u8 list \<Rightarrow> u8 list option \<Rightarrow> u8 list \<Rightarrow> (int \<times> u8 list) option" where
  "receive_packet stale rd msg =
     (case rd of None \<Rightarrow> Some (- 1, msg)
      | Some data \<Rightarrow>
          let nread = length data;
              packet = data @ drop nread stale
          in if nread < 20 + 8 then Some (- 1, msg)
          else if drop_bit 4 (packet ! 0) \<noteq> 4 \<or> packet ! 0 AND 0xF \<noteq> 20 div 4 then Some (- 1, msg)
          else if nread < unat (htons (load16 packet 2)) then Some (- 1, msg)
          else if packet ! 9 \<noteq> 17 then Some (- 1, msg)
          else if load16 packet 22 \<noteq> htons 68 then Some (- 1, msg)
          else if finish_sum (checksum (take 20 packet) 0) \<noteq> 0 then Some (- 1, msg)
          else let dhcp_size = ucast (ucast (htons (load16 packet 24)) - 8 :: u64) :: u32;
                   tot_len = unat (htons (load16 packet 2));
                   temp = load16 packet 26;
                   sum = finish_sum (checksum (take tot_len (pseudo_packet packet)) 0);
                   sum = if sum = 0 then finish_sum sum else sum
          in if ucast temp \<noteq> sum then Some (- 1, msg)
          else do {
            msg' \<leftarrow> memcpy_at msg 0 packet 28 (unat (scast dhcp_size :: u64));
            Some (sint dhcp_size, msg')
          })"

declare fold_carry.simps [simp del]

section \<open>The checksum as one's-complement sum\<close>

text \<open>The 16-bit words of a buffer summed as numbers, and the end-around-carry residue of a number.\<close>

fun wsum :: "u8 list \<Rightarrow> nat" where
  "wsum (a # b # rest) = unat a + 256 * unat b + wsum rest"
| "wsum [a] = unat a"
| "wsum [] = 0"

definition norm16 :: "nat \<Rightarrow> nat" where
  "norm16 n = (if n = 0 then 0 else (n - 1) mod 65535 + 1)"

lemma u8_lt: "unat (a :: u8) < 256"
  using unsigned_less[of a] by simp

lemma pair_word:
  "unat (ucast a OR push_bit 8 (ucast b) :: 'w::len word) = unat (a :: u8) + 256 * unat (b :: u8)"
  if "16 \<le> LENGTH('w)"
proof -
  have d: "(ucast a OR push_bit 8 (ucast b) :: 'w word) = ucast a + push_bit 8 (ucast b)"
  proof (rule disjunctive_add [symmetric])
    fix n show "\<not> bit (ucast a :: 'w word) n \<or> \<not> bit (push_bit 8 (ucast b) :: 'w word) n"
      using u8_bit_high[of n a] by (auto simp: bit_simps)
  qed
  have lt: "unat a + 256 * unat b < 2 ^ LENGTH('w)"
  proof -
    have "unat a + 256 * unat b < 2 ^ 16" using u8_lt[of a] u8_lt[of b] by simp
    also have "\<dots> \<le> 2 ^ LENGTH('w)" using that by (intro power_increasing) auto
    finally show ?thesis .
  qed
  have a: "unat (ucast a :: 'w word) = unat a" "unat (ucast b :: 'w word) = unat b"
    using that by (auto intro: unat_ucast_widen)
  have "unat (push_bit 8 (ucast b) :: 'w word) = 256 * unat b"
    unfolding unsigned_push_bit_eq a using lt by (simp add: push_bit_eq_mult take_bit_nat_eq_self)
  then show ?thesis unfolding d using a lt by (subst unat_add_no_wrap) auto
qed

lemma wsum_le: "wsum bs \<le> 65535 * length bs"
proof (induction bs rule: wsum.induct)
  case (1 a b rest)
  then show ?case using u8_lt[of a] u8_lt[of b] by simp
next
  case (2 a)
  then show ?case using u8_lt[of a] by simp
qed simp

lemma sum_words_nat:
  "unat s + wsum bs < 2 ^ 32 \<Longrightarrow> unat (sum_words bs s) = unat s + wsum bs"
proof (induction bs s rule: sum_words.induct)
  case (1 a b rest s)
  have w: "unat (ucast a OR push_bit 8 (ucast b) :: u32) = unat a + 256 * unat b" by (rule pair_word) simp
  with 1 have "unat (s + (ucast a OR push_bit 8 (ucast b))) = unat s + (unat a + 256 * unat b)"
    by (subst unat_add_no_wrap) simp_all
  with 1 show ?case by simp
next
  case (2 a s)
  have "unat (ucast a :: u32) = unat a" by (rule unat_ucast_widen) simp
  with 2 show ?case by (simp add: unat_add_no_wrap)
qed simp

lemma norm16_cong:
  assumes "0 < x" "0 < y" "x mod 65535 = y mod 65535"
  shows "norm16 x = norm16 y"
proof -
  have le: "(a - 1) mod 65535 = (b - 1) mod 65535"
    if "a \<le> b" "0 < a" "a mod 65535 = b mod 65535" for a b :: nat
  proof -
    have "65535 dvd b - a" using that by (metis mod_eq_dvd_iff_nat)
    moreover have "(b - 1) - (a - 1) = b - a" using that by simp
    ultimately show ?thesis using that by (metis diff_le_mono mod_eq_dvd_iff_nat)
  qed
  from le[of x y] le[of y x] assms have "(x - 1) mod 65535 = (y - 1) mod 65535" by (metis nat_le_linear)
  with assms show ?thesis by (simp add: norm16_def)
qed

lemma norm16_small: "n < 65536 \<Longrightarrow> norm16 n = n"
  by (auto simp: norm16_def)

lemma norm16_le: "norm16 n < 65536"
  unfolding norm16_def using mod_less_divisor[of 65535 "n - 1"] by (auto simp: Suc_lessI less_Suc_eq_le)

lemma norm16_mod: "0 < n \<Longrightarrow> 0 < norm16 n \<and> norm16 n mod 65535 = n mod 65535"
  by (simp add: norm16_def mod_Suc_eq)

lemma norm16_add: "norm16 (norm16 a + b) = norm16 (a + b)"
proof (cases "a = 0")
  case True
  then show ?thesis by (simp add: norm16_def)
next
  case False
  with norm16_mod[of a] show ?thesis by (intro norm16_cong) (auto intro: mod_add_cong)
qed

lemma fold_carry_nat: "unat (fold_carry s) = norm16 (unat s)"
proof (induction s rule: fold_carry.induct)
  case (1 s)
  have h: "unat (drop_bit 16 s) = unat s div 65536" by (simp add: unat_div drop_bit_eq_div)
  show ?case
  proof (cases "drop_bit 16 s = 0")
    case True
    then have "unat s < 65536" using h by (simp add: div_eq_0_iff)
    with True show ?thesis by (subst fold_carry.simps) (simp add: norm16_small)
  next
    case False
    let ?n = "unat s"
    have n: "?n div 65536 \<noteq> 0" using False h by (metis unat_eq_0)
    have "norm16 (?n mod 65536 + ?n div 65536) = norm16 ?n"
    proof (rule norm16_cong)
      show "0 < ?n mod 65536 + ?n div 65536" "0 < ?n" using n by auto
      have "?n = (?n mod 65536 + ?n div 65536) + 65535 * (?n div 65536)"
        using div_mult_mod_eq[of ?n 65536] by linarith
      then show "(?n mod 65536 + ?n div 65536) mod 65535 = ?n mod 65535" by (metis mod_mult_self2)
    qed
    with 1[OF refl False] fold_carry_less(2)[OF False] False show ?thesis
      by (subst fold_carry.simps) (simp add: Let_def)
  qed
qed

lemma checksum_nat:
  assumes "unat s < 65536" "length bs \<le> 65000"
  shows "unat (checksum bs s) = norm16 (unat s + wsum bs)"
proof -
  have "unat s + wsum bs < 2 ^ 32" using assms wsum_le[of bs] by simp
  then show ?thesis by (simp add: checksum_def fold_carry_nat sum_words_nat)
qed

lemma checksum_lt: "unat s < 65536 \<Longrightarrow> length bs \<le> 65000 \<Longrightarrow> unat (checksum bs s) < 65536"
  by (simp add: checksum_nat norm16_le)

lemma finish_sum_nat:
  assumes "unat s < 65536"
  shows "unat (finish_sum s) = 65535 - unat s"
proof -
  have "unat (take_bit 16 s) = unat s"
    using assms unfolding unsigned_take_bit_eq by (simp add: take_bit_eq_mod)
  then have t: "take_bit 16 s = s" by (rule unsigned_word_eqI)
  have "finish_sum s = take_bit 16 (NOT s)" by (simp add: finish_sum_def take_bit_eq_mask mask_eq_exp_minus_1)
  also have "\<dots> = mask 16 - s" unfolding take_bit_not_eq_mask_diff t ..
  finally have "finish_sum s = 0xffff - s" by (simp add: mask_eq_exp_minus_1)
  then show ?thesis using assms by (simp add: unat_sub word_le_nat_alt)
qed

text \<open>A sum plus the complement of its residue has the residue of all ones.\<close>

lemma norm16_complement: "norm16 (t + (65535 - norm16 t)) = 65535"
proof (cases "t = 0")
  case True
  then show ?thesis by (simp add: norm16_def)
next
  case False
  have "t - 1 = 65535 * ((t - 1) div 65535) + (t - 1) mod 65535" by simp
  then have "t + (65535 - norm16 t) = 65535 * ((t - 1) div 65535) + 65535"
    using False norm16_le[of t] unfolding norm16_def by (simp only: if_False) linarith
  then have "norm16 (t + (65535 - norm16 t)) = norm16 65535"
    by (intro norm16_cong) auto
  then show ?thesis by (simp add: norm16_small)
qed

lemma wsum_append: "even (length xs) \<Longrightarrow> wsum (xs @ ys) = wsum xs + wsum ys"
  by (induction xs rule: wsum.induct) auto

lemma load16_le16: "i + 1 < length p \<Longrightarrow> le16 (load16 p i) = [p ! i, p ! (i + 1)]"
  unfolding le16_def load16_def
  by (intro arg_cong2[where f = "\<lambda>a b. [a, b]"]; rule u8_eqI; simp add: bit_simps u8_bit_high)

lemma le32_load32: "le32 (load32 p i) = [p ! i, p ! (i + 1), p ! (i + 2), p ! (i + 3)]"
  unfolding le32_def load32_def list.inject
  by (intro conjI refl; rule u8_eqI; simp add: bit_simps u8_bit_high)

lemma wsum_le16: "wsum (le16 w) = unat w"
proof -
  have "unat w = unat (load16 [ucast w, ucast (drop_bit 8 w)] 0)" by (simp only: le16_load16)
  also have "\<dots> = unat (ucast w :: u8) + 256 * unat (ucast (drop_bit 8 w) :: u8)"
    unfolding load16_def by (subst pair_word) simp_all
  finally show ?thesis by (simp add: le16_def)
qed

lemma load16_eqI: "p ! i = ucast w \<Longrightarrow> p ! (i + 1) = ucast (drop_bit 8 w) \<Longrightarrow> load16 p i = w"
  using le16_load16[of w] by (simp add: load16_def)

section \<open>Sending and receiving\<close>

lemma length_le [simp]: "length (le16 w) = 2" "length (le32 v) = 4"
  by (simp_all add: le16_def le32_def)

lemma length_headers [simp]: "length (ip_bytes h) = 20" "length (udp_bytes u) = 8"
  by (simp_all add: ip_bytes_def udp_bytes_def)

lemma length_msg_bytes: "msg_wf m \<Longrightarrow> length (msg_bytes m) = dhcp_msg_size"
  by (simp add: msg_wf_def msg_bytes_def dhcp_msg_size_def)

lemma wsum_ip_bytes:
  "wsum (ip_bytes h) = wsum [ip_ihl h OR push_bit 4 (ip_version h), ip_tos h] + unat (ip_tot_len h) +
     unat (ip_id h) + unat (ip_frag_off h) + wsum [ip_ttl h, ip_protocol h] + unat (ip_check h) +
     wsum (le32 (ip_saddr h)) + wsum (le32 (ip_daddr h))"
  unfolding ip_bytes_def by (simp add: wsum_append wsum_le16 del: append.simps wsum.simps)

lemma wsum_udp_bytes:
  "wsum (udp_bytes u) = unat (udp_source u) + unat (udp_dest u) + unat (udp_len u) + unat (udp_check u)"
  unfolding udp_bytes_def by (simp add: wsum_append wsum_le16)

lemma ucast_u16_small: "unat s < 65536 \<Longrightarrow> unat (ucast (s :: u32) :: u16) = unat s"
  by (simp add: unsigned_ucast_eq take_bit_nat_eq_self)

lemma ip_header_valid:
  assumes "ip_check h = 0"
  shows "finish_sum (checksum (ip_bytes (h\<lparr>ip_check := ucast (finish_sum (checksum (ip_bytes h) 0))\<rparr>)) 0) = 0"
proof -
  let ?t = "wsum (ip_bytes h)"
  define c :: u16 where "c = ucast (finish_sum (checksum (ip_bytes h) 0))"
  have r: "unat (checksum (ip_bytes h) 0) = norm16 ?t" by (subst checksum_nat) simp_all
  then have "unat (finish_sum (checksum (ip_bytes h) 0)) = 65535 - norm16 ?t"
    using norm16_le[of ?t] by (simp add: finish_sum_nat)
  then have "unat c = 65535 - norm16 ?t" unfolding c_def by (subst ucast_u16_small) simp_all
  then have "wsum (ip_bytes (h\<lparr>ip_check := c\<rparr>)) = ?t + (65535 - norm16 ?t)"
    using assms unfolding wsum_ip_bytes by simp
  then have "unat (checksum (ip_bytes (h\<lparr>ip_check := c\<rparr>)) 0) = 65535"
    using norm16_complement[of ?t] by (subst checksum_nat) simp_all
  then have "unat (finish_sum (checksum (ip_bytes (h\<lparr>ip_check := c\<rparr>)) 0)) = 0" by (simp add: finish_sum_nat)
  then show ?thesis unfolding c_def by (simp add: unat_eq_0)
qed

text \<open>The sum that both sides compute for UDP: addresses, protocol, length, header and data.\<close>

definition udp_total :: "u32 \<Rightarrow> u32 \<Rightarrow> udphdr \<Rightarrow> u8 list \<Rightarrow> nat" where
  "udp_total saddr daddr u d =
     wsum (le32 saddr) + wsum (le32 daddr) + 17 * 256 + unat (udp_len u) + wsum (udp_bytes u) + wsum d"

lemma udp_send_sum:
  assumes "length d \<le> 65000"
  shows "unat (checksum d (checksum (udp_bytes u) (checksum (le16 (udp_len u))
     (checksum (le16 (htons 17)) (checksum (le32 daddr) (checksum (le32 saddr) 0)))))) =
     norm16 (udp_total saddr daddr u d)"
proof -
  have h: "unat (htons 17) = 17 * 256" by (simp add: htons_def)
  show ?thesis
    using assms by (simp add: checksum_nat checksum_lt norm16_le norm16_add wsum_le16 h add.assoc udp_total_def)
qed

lemma wsum_pseudo:
  fixes h u d rest
  defines "p \<equiv> ip_bytes h @ udp_bytes u @ d @ rest"
  shows "wsum (take (28 + length d) (pseudo_packet p)) = udp_total (ip_saddr h) (ip_daddr h) (u\<lparr>udp_check := 0\<rparr>) d"
proof -
  have f: "p ! 12 = ucast (ip_saddr h)" "p ! 24 = ucast (udp_len u)" "p ! 25 = ucast (drop_bit 8 (udp_len u))"
    by (simp_all add: p_def ip_bytes_def udp_bytes_def le16_def le32_def)
  have l24: "load16 p 24 = udp_len u" using f by (intro load16_eqI) simp_all
  have sa: "le32 (load32 p 12) = le32 (ip_saddr h)" "le32 (load32 p 16) = le32 (ip_daddr h)"
    unfolding le32_load32 by (simp_all add: p_def ip_bytes_def udp_bytes_def le16_def le32_def)
  have u: "take 6 (drop 20 p) @ [0, 0] = udp_bytes (u\<lparr>udp_check := 0\<rparr>)"
    by (simp add: p_def udp_bytes_def le16_def)
  have d: "drop 28 p = d @ rest" by (simp add: p_def)
  let ?ph = "\<lparr>ip_version = 0, ip_ihl = 0, ip_tos = 0, ip_tot_len = load16 p 24, ip_id = 0,
      ip_frag_off = 0, ip_ttl = 0, ip_protocol = 17, ip_check = 0, ip_saddr = load32 p 12, ip_daddr = load32 p 16\<rparr>"
  have "take (28 + length d) (pseudo_packet p) = ip_bytes ?ph @ udp_bytes (u\<lparr>udp_check := 0\<rparr>) @ d"
    unfolding pseudo_packet_def append_assoc[symmetric] u unfolding append_assoc d by simp
  then show ?thesis
    by (simp add: wsum_append udp_total_def wsum_ip_bytes sa l24)
qed

lemma receive_packet_accepts:
  assumes data: "data = ip_bytes h @ udp_bytes u @ d" and n: "length d \<le> dhcp_msg_size"
    and stale: "length stale = 28 + dhcp_msg_size" and msg: "length msg = dhcp_msg_size"
    and ip: "ip_version h = 4" "ip_ihl h = 5" "ip_tot_len h = htons (of_nat (28 + length d))" "ip_protocol h = 17"
    and ck: "finish_sum (checksum (ip_bytes h) 0) = 0"
    and udp: "udp_dest u = htons 68" "udp_len u = htons (of_nat (8 + length d))"
    and uck: "unat (udp_check u) = 65535 - norm16 (udp_total (ip_saddr h) (ip_daddr h) (u\<lparr>udp_check := 0\<rparr>) d)"
    and nz: "udp_check u \<noteq> 0"
  shows "receive_packet stale (Some data) msg = Some (int (length d), d @ drop (length d) msg)"
proof -
  let ?k = "length d"
  define rest where "rest = drop (length data) stale"
  define p where "p = data @ rest"
  have pe: "p = ip_bytes h @ udp_bytes u @ d @ rest" by (simp add: p_def data)
  have nd: "length data = 28 + ?k" by (simp add: data)
  have k: "?k \<le> 1260" using n by (simp add: dhcp_msg_size_def)
  have f: "p ! 0 = 0x45" "p ! 9 = 17"
    by (simp_all add: pe ip_bytes_def udp_bytes_def le16_def le32_def ip)
  have l: "load16 p 2 = ip_tot_len h" "load16 p 22 = udp_dest u" "load16 p 24 = udp_len u" "load16 p 26 = udp_check u"
    by (rule load16_eqI; simp add: pe ip_bytes_def udp_bytes_def le16_def le32_def)+
  have tot: "unat (htons (load16 p 2)) = 28 + ?k" unfolding l ip(3) htons_htons unat_of_nat using k by simp
  have v: "drop_bit 4 (p ! 0) = 4" "p ! 0 AND 0xF = 20 div 4" unfolding f by simp_all
  have ipv: "finish_sum (checksum (take 20 p) 0) = 0" using ck by (simp add: pe)
  let ?t = "udp_total (ip_saddr h) (ip_daddr h) (u\<lparr>udp_check := 0\<rparr>) d"
  have "unat (checksum (take (28 + ?k) (pseudo_packet p)) 0) = norm16 ?t"
    using k wsum_pseudo[of d h u rest] by (subst checksum_nat) (simp_all add: pe)
  then have "unat (finish_sum (checksum (take (28 + ?k) (pseudo_packet p)) 0)) = unat (udp_check u)"
    using norm16_le[of ?t] by (simp add: finish_sum_nat uck)
  also have "\<dots> = unat (ucast (udp_check u) :: u32)" by (simp add: unat_ucast_widen)
  finally have sm: "finish_sum (checksum (take (28 + ?k) (pseudo_packet p)) 0) = ucast (udp_check u)"
    by (rule unsigned_word_eqI)
  have nz': "(ucast (udp_check u) :: u32) \<noteq> 0"
    using nz by (metis unat_ucast_widen unat_eq_0 len_num1 len_bit0 order.refl le_add2 mult_2)
  have "(ucast (of_nat (8 + ?k) :: u16) :: u64) = of_nat (8 + ?k)"
  proof (rule unsigned_word_eqI)
    have "unat (ucast (of_nat (8 + ?k) :: u16) :: u64) = unat (of_nat (8 + ?k) :: u16)" by (simp add: unat_ucast_widen)
    then show "unat (ucast (of_nat (8 + ?k) :: u16) :: u64) = unat (of_nat (8 + ?k) :: u64)"
      unfolding unat_of_nat using k by simp
  qed
  then have sz: "(ucast (ucast (htons (load16 p 24)) - 8 :: u64) :: u32) = of_nat ?k"
    unfolding l udp htons_htons using k by (simp add: unsigned_of_nat take_bit_nat_eq_self)
  have cp: "memcpy_at msg 0 p 28 ?k = Some (d @ drop ?k msg)"
    using msg n by (subst memcpy_at_Some) (simp_all add: pe dhcp_msg_size_def)
  have "sint (of_nat ?k :: u32) = int ?k" "unat (scast (of_nat ?k :: u32) :: u64) = ?k"
    using k by (intro sint_of_nat_small unat_scast_of_nat_small; simp)+
  with nd v tot f l ipv sm nz' sz cp udp(1) show ?thesis
    unfolding receive_packet_def option.case Let_def nd rest_def[symmetric, unfolded nd] p_def[symmetric] tot sm sz
    by simp
qed

text \<open>The headers of a sent packet.\<close>

lemma send_packet_eq:
  fixes msg sz saddr daddr sport dport
  defines "ip0 \<equiv> \<lparr>ip_version = 4, ip_ihl = 5, ip_tos = 0, ip_tot_len = htons (of_nat (20 + 8 + sz)),
                ip_id = 0, ip_frag_off = 0, ip_ttl = 64, ip_protocol = 17, ip_check = 0,
                ip_saddr = saddr, ip_daddr = daddr\<rparr>"
    and "u0 \<equiv> \<lparr>udp_source = htons (ucast (sport :: u32)), udp_dest = htons (ucast (dport :: u32)),
                 udp_len = htons (of_nat (8 + sz)), udp_check = 0\<rparr>"
    and "d \<equiv> take sz (msg_bytes msg)"
  assumes "length d \<le> 65000"
  obtains c where "send_packet msg sz saddr daddr sport dport =
      ip_bytes (ip0\<lparr>ip_check := ucast (finish_sum (checksum (ip_bytes ip0) 0))\<rparr>) @
      udp_bytes (u0\<lparr>udp_check := c\<rparr>) @ d"
    and "unat c = 65535 - norm16 (udp_total saddr daddr u0 d)"
proof -
  let ?s = "checksum d (checksum (udp_bytes u0) (checksum (le16 (udp_len u0))
     (checksum (le16 (htons 17)) (checksum (le32 daddr) (checksum (le32 saddr) 0)))))"
  define c :: u16 where "c = ucast (finish_sum ?s)"
  have s: "unat ?s = norm16 (udp_total saddr daddr u0 d)" by (rule udp_send_sum[OF assms(4)])
  then have "unat (finish_sum ?s) = 65535 - norm16 (udp_total saddr daddr u0 d)"
    using norm16_le by (simp add: finish_sum_nat)
  then have "unat c = 65535 - norm16 (udp_total saddr daddr u0 d)"
    unfolding c_def by (subst ucast_u16_small) simp_all
  moreover have "send_packet msg sz saddr daddr sport dport =
      ip_bytes (ip0\<lparr>ip_check := ucast (finish_sum (checksum (ip_bytes ip0) 0))\<rparr>) @
      udp_bytes (u0\<lparr>udp_check := c\<rparr>) @ d"
    unfolding send_packet_def Let_def c_def by (simp add: ip0_def u0_def d_def)
  ultimately show thesis by (rule that[rotated])
qed

section \<open>Properties\<close>

text \<open>
  C14. What \<open>send_packet\<close> sends to the DHCP client port is accepted by \<open>receive_packet\<close> and delivers
  exactly the message bytes and their number: both checksums verify and all header checks
  pass, for every message, size, address and source port. The one exception is a UDP checksum that
  comes out as zero, which the sender does not replace by all ones.
\<close>

theorem send_receive_roundtrip:
  assumes "msg_wf m" and "sz \<le> dhcp_msg_size"
    and "length stale = 28 + dhcp_msg_size" and "length buf = dhcp_msg_size"
    and "load16 (send_packet m sz saddr daddr sport 68) 26 \<noteq> 0"
  shows "receive_packet stale (Some (send_packet m sz saddr daddr sport 68)) buf =
    Some (int sz, take sz (msg_bytes m) @ drop sz buf)"
proof -
  let ?d = "take sz (msg_bytes m)"
  have d: "length ?d = sz" using length_msg_bytes[OF assms(1)] assms(2) by simp
  then have d': "length ?d \<le> 65000" using assms(2) by (simp add: dhcp_msg_size_def)
  let ?ip0 = "\<lparr>ip_version = 4, ip_ihl = 5, ip_tos = 0, ip_tot_len = htons (of_nat (20 + 8 + sz)),
                ip_id = 0, ip_frag_off = 0, ip_ttl = 64, ip_protocol = 17, ip_check = 0,
                ip_saddr = saddr, ip_daddr = daddr\<rparr>"
  let ?u0 = "\<lparr>udp_source = htons (ucast sport), udp_dest = htons (ucast (68 :: u32)),
                 udp_len = htons (of_nat (8 + sz)), udp_check = 0\<rparr>"
  let ?ip = "?ip0\<lparr>ip_check := ucast (finish_sum (checksum (ip_bytes ?ip0) 0))\<rparr>"
  obtain c where c: "send_packet m sz saddr daddr sport 68 = ip_bytes ?ip @ udp_bytes (?u0\<lparr>udp_check := c\<rparr>) @ ?d"
    "unat c = 65535 - norm16 (udp_total saddr daddr ?u0 ?d)"
    by (rule send_packet_eq[OF d'])
  have "load16 (send_packet m sz saddr daddr sport 68) 26 = c"
    unfolding c(1) by (rule load16_eqI; simp add: ip_bytes_def udp_bytes_def le16_def le32_def)
  with assms(5) have "c \<noteq> 0" by simp
  have ck: "finish_sum (checksum (ip_bytes ?ip) 0) = 0" by (rule ip_header_valid) simp
  have "receive_packet stale (Some (send_packet m sz saddr daddr sport 68)) buf =
      Some (int (length ?d), ?d @ drop (length ?d) buf)"
    by (rule receive_packet_accepts[OF c(1) _ assms(3,4)])
      (use ck c(2) \<open>c \<noteq> 0\<close> d assms(2) in simp_all)
  then show ?thesis by (simp only: d)
qed

theorem send_receive_roundtrip_witness:
  "receive_packet (replicate 1288 0)
     (Some (send_packet (fst (init_dhcp_discover_msg [2, 0, 0, 0, 0, 1] 7)) 250 0 0xffffffff 67 68)) (replicate 1260 0) =
   Some (250, take 250 (msg_bytes (fst (init_dhcp_discover_msg [2, 0, 0, 0, 0, 1] 7))) @ drop 250 (replicate 1260 0))"
proof -
  have "load16 (send_packet (fst (init_dhcp_discover_msg [2, 0, 0, 0, 0, 1] 7)) 250 0 0xffffffff 67 68) 26 \<noteq> 0"
    by code_simp
  then show ?thesis
    using send_receive_roundtrip[where m = "fst (init_dhcp_discover_msg [2, 0, 0, 0, 0, 1] 7)" and sz = 250 and
        stale = "replicate 1288 0" and buf = "replicate 1260 0" and saddr = 0 and daddr = "0xffffffff" and sport = 67]
    by (simp add: dhcp_msg_size_def msg_wf_def init_dhcp_discover_msg_def init_dhcp_msg_def emit_def Let_def)
qed

text \<open>
  \<open>receive_packet\<close> is memory safe on every packet whose UDP length field is between the size of the
  UDP header and that of the largest message: whatever the other bytes are, the call returns
  -1 and leaves the message alone, or returns the payload size and replaces that
  many bytes of the message.
\<close>

theorem receive_packet_safe:
  assumes "length data \<le> 28 + dhcp_msg_size" "length stale = 28 + dhcp_msg_size" "length buf = dhcp_msg_size"
    and "8 \<le> n" "n \<le> 8 + dhcp_msg_size"
    and "n = unat (htons (load16 (data @ drop (length data) stale) 24))"
  shows "receive_packet stale (Some data) buf = Some (- 1, buf) \<or>
    receive_packet stale (Some data) buf =
      Some (int (n - 8), take (n - 8) (drop 28 (data @ drop (length data) stale)) @ drop (n - 8) buf)"
proof -
  define p where "p = data @ drop (length data) stale"
  define k where "k = n - 8"
  have k: "k \<le> 1260" "n = k + 8" using assms(4,5) by (simp_all add: k_def dhcp_msg_size_def)
  have "(ucast (htons (load16 p 24)) :: u64) = of_nat n"
  proof (rule unsigned_word_eqI)
    have "unat (ucast (htons (load16 p 24)) :: u64) = unat (htons (load16 p 24))" by (simp add: unat_ucast_widen)
    then show "unat (ucast (htons (load16 p 24)) :: u64) = unat (of_nat n :: u64)"
      using assms(6) k by (simp only: unat_of_nat p_def) simp
  qed
  then have sz: "(ucast (ucast (htons (load16 p 24)) - 8 :: u64) :: u32) = of_nat k"
    using k by (simp add: unsigned_of_nat take_bit_nat_eq_self)
  have ss: "sint (of_nat k :: u32) = int k" "unat (scast (of_nat k :: u32) :: u64) = k"
    using k by (intro sint_of_nat_small unat_scast_of_nat_small; simp)+
  have "length p = 28 + dhcp_msg_size" using assms(1,2) by (simp add: p_def)
  then have "memcpy_at buf 0 p 28 k = Some (take k (drop 28 p) @ drop k buf)"
    using assms(3) k by (subst memcpy_at_Some) (simp_all add: dhcp_msg_size_def)
  then show ?thesis
    unfolding receive_packet_def option.case Let_def p_def[symmetric] k_def[symmetric] sz ss by simp
qed

theorem receive_packet_safe_witness:
  "receive_packet (replicate 1288 0) (Some (replicate 25 0 @ [8, 0, 0])) (replicate 1260 0) = Some (- 1, replicate 1260 0) \<or>
   receive_packet (replicate 1288 0) (Some (replicate 25 0 @ [8, 0, 0])) (replicate 1260 0) = Some (0, replicate 1260 0)"
proof -
  define st :: "u8 list" where "st = replicate 1288 0"
  define bf :: "u8 list" where "bf = replicate 1260 0"
  define dat :: "u8 list" where "dat = replicate 25 0 @ [8, 0, 0]"
  have l: "length st = 28 + dhcp_msg_size" "length bf = dhcp_msg_size" "length dat \<le> 28 + dhcp_msg_size"
    unfolding st_def bf_def dat_def dhcp_msg_size_def length_append length_replicate by simp_all
  have "dat ! 24 = 0" "dat ! 25 = 8" "length dat = 28" by (simp_all add: dat_def nth_append)
  then have "8 = unat (htons (load16 (dat @ drop (length dat) st) 24))"
    by (simp add: load16_def nth_append htons_def)
  from receive_packet_safe[OF l(3,1,2) _ _ this] show ?thesis
    unfolding st_def[symmetric] bf_def[symmetric] dat_def[symmetric] by simp
qed

text \<open>
  A UDP length field below 8 is accepted by every check, and the copy then runs with a negative
  size: the 28 bytes below are a well-formed packet with correct checksums and length field 7.
\<close>

abbreviation short_udp_packet :: "u8 list" where
  "short_udp_packet \<equiv>
     [69, 0, 0, 28, 0, 0, 0, 0, 64, 17, 112, 209, 10, 0, 0, 1, 255, 255, 255, 255, 0, 67, 0, 68, 0, 7, 245, 88]"

lemma receive_packet_short_udp:
  assumes "length buf = dhcp_msg_size"
  shows "receive_packet stale (Some short_udp_packet) buf = None"
proof -
  define p where "p = short_udp_packet @ drop 28 stale"
  have t: "take 20 p = take 20 short_udp_packet" by (simp add: p_def)
  have ip: "finish_sum (checksum (take 20 p) 0) = 0" unfolding t by code_simp
  have l: "unat (htons (load16 p 2)) = 28" "load16 p 22 = htons 68" "htons (load16 p 24) = 7" "load16 p 26 = 22773"
    by (simp_all add: p_def load16_def htons_def)
  have q: "take 28 (pseudo_packet p) = take 28 (pseudo_packet short_udp_packet)"
    by (simp add: pseudo_packet_def p_def load16_def load32_def)
  have udp: "finish_sum (checksum (take 28 (pseudo_packet p)) 0) = 22773" unfolding q by code_simp
  have "memcpy_at buf 0 p 28 (unat (scast (ucast (7 - 8 :: u64) :: u32) :: u64)) = None"
  proof -
    have e: "(scast (ucast (7 - 8 :: u64) :: u32) :: u64) = 0xFFFFFFFFFFFFFFFF" by code_simp
    have "\<not> unat (0xFFFFFFFFFFFFFFFF :: u64) \<le> length buf"
      using assms by (simp add: dhcp_msg_size_def)
    then show ?thesis
      unfolding e using memcpy_at_bounds[of buf 0 p 28 "unat (0xFFFFFFFFFFFFFFFF :: u64)"] by (metis add_0)
  qed
  moreover have "drop_bit 4 (p ! 0) = 4" "p ! 0 AND 0xF = 20 div 4" "p ! 9 = 17" by (simp_all add: p_def)
  moreover have n: "length short_udp_packet = 28" by simp
  ultimately show ?thesis
    using l ip udp unfolding receive_packet_def option.case Let_def n p_def[symmetric] by simp
qed

end
