(* ===== verification/DhcpClient.thy ===== *)
theory DhcpClient
  imports DhcpPacket
begin

text \<open>
  The DHCP client of \<open>src/src/dhcpc/dhcpclient.c\<close>: parsing of replies, their validation, and the
  state machine of \<open>dhcp_init_ifc\<close> with its timeouts and retransmissions; and the netmask
  conversions of \<open>ifc_utils.c\<close> that it uses.

  One iteration of the main loop is \<open>dhcp_step\<close>; what \<open>poll\<close> and \<open>receive_packet\<close> report is an event.
  The client record holds the local variables of \<open>dhcp_init_ifc\<close>, the global \<open>last_good_info\<close>, the
  messages handed to \<open>send_message\<close> so far and whether the socket is open. \<open>ifc_configure\<close> is a
  parameter. Logging (\<open>printerr\<close>, \<open>dump_dhcp_msg\<close>, \<open>dump_dhcp_info\<close>) is left out: the one structure
  it writes to, the host and file name of the reply, is not read afterwards.
\<close>

section \<open>Netmasks\<close>

definition prefixLengthToIpv4Netmask :: "int \<Rightarrow> u32" where
  "prefixLengthToIpv4Netmask prefix_length =
     (if prefix_length \<le> 0 \<or> prefix_length > 32 then 0
      else ntohl (push_bit (nat (32 - prefix_length)) (NOT 0)))"

lemma shift_out_top:
  fixes m :: u32
  assumes "m AND 0x80000000 \<noteq> 0"
  shows "unat (push_bit 1 m) < unat m"
proof -
  have e: "(0x80000000 :: u32) = 2 ^ 31" by simp
  have b: "bit m 31" using assms unfolding e and_exp_eq_0_iff_not_bit by simp
  have lt: "unat m < 2 ^ 32" using unsigned_less[of m] by simp
  have "bit (unat m) 31" using b by (simp add: bit_unsigned_iff)
  then have "odd (unat m div 2 ^ 31)" using bit_iff_odd[of "unat m" 31] by blast
  then have ge: "2 ^ 31 \<le> unat m" by (metis div_less even_zero not_le)
  have "unat (push_bit 1 m) = take_bit 32 (2 * unat m)"
    unfolding unsigned_push_bit_eq by (simp add: push_bit_eq_mult mult.commute)
  also have "\<dots> = 2 * unat m - 2 ^ 32"
    using ge lt by (simp add: take_bit_eq_mod mod_if)
  finally show ?thesis using ge lt by simp
qed

function leading_ones :: "u32 \<Rightarrow> nat" where
  "leading_ones m = (if m AND 0x80000000 \<noteq> 0 then Suc (leading_ones (push_bit 1 m)) else 0)"
  by pat_completeness auto
termination
  by (relation "measure unat") (use shift_out_top in auto)

definition ipv4NetmaskToPrefixLength :: "u32 \<Rightarrow> nat" where
  "ipv4NetmaskToPrefixLength m = leading_ones (ntohl m)"

declare leading_ones.simps [simp del]

section \<open>Parsing a reply\<close>

record dhcp_info =
  di_type :: u32
  di_ipaddr :: u32
  di_gateway :: u32
  di_prefixLength :: u32
  di_dns1 :: u32
  di_dns2 :: u32
  di_serveraddr :: u32
  di_lease :: u32

definition zero_info :: dhcp_info where
  "zero_info = \<lparr>di_type = 0, di_ipaddr = 0, di_gateway = 0, di_prefixLength = 0, di_dns1 = 0, di_dns2 = 0,
     di_serveraddr = 0, di_lease = 0\<rparr>"

text \<open>
  The \<open>switch\<close> on the option code, with \<open>x\<close> the options from the value of this one on. \<open>None\<close> is a
  read past the end of the options.
\<close>

definition decode_option :: "u8 \<Rightarrow> nat \<Rightarrow> u8 list \<Rightarrow> dhcp_info \<Rightarrow> dhcp_info option" where
  "decode_option opt optlen x info =
     (if opt = 1 then
        if optlen \<ge> 4 then if length x < 4 then None
          else Some (info\<lparr>di_prefixLength := of_nat (ipv4NetmaskToPrefixLength (load32 x 0))\<rparr>)
        else Some info
      else if opt = 3 then
        if optlen \<ge> 4 then if length x < 4 then None else Some (info\<lparr>di_gateway := load32 x 0\<rparr>)
        else Some info
      else if opt = 6 then
        if optlen \<ge> 4 then if length x < 4 then None
          else let info = info\<lparr>di_dns1 := load32 x 0\<rparr>
          in if optlen \<ge> 8 then if length x < 8 then None else Some (info\<lparr>di_dns2 := load32 x 4\<rparr>)
             else Some info
        else Some info
      else if opt = 51 then
        if optlen \<ge> 4 then if length x < 4 then None else Some (info\<lparr>di_lease := ntohl (load32 x 0)\<rparr>)
        else Some info
      else if opt = 54 then
        if optlen \<ge> 4 then if length x < 4 then None else Some (info\<lparr>di_serveraddr := load32 x 0\<rparr>)
        else Some info
      else if opt = 53 then
        if x = [] then None else Some (info\<lparr>di_type := ucast (x ! 0)\<rparr>)
      else Some info)"

function decode_options :: "u8 list \<Rightarrow> int \<Rightarrow> dhcp_info \<Rightarrow> dhcp_info option" where
  "decode_options x len info =
     (if len > 2
      then (case x of [] \<Rightarrow> None
            | opt # x1 \<Rightarrow>
                if opt = 0 then decode_options x1 (len - 1) info
                else if opt = 255 then Some info
                else (case x1 of [] \<Rightarrow> None
                  | optlen # x2 \<Rightarrow>
                      let len = len - 2
                      in if int (unat optlen) > len then Some info
                         else (case decode_option opt (unat optlen) x2 info of None \<Rightarrow> None
                           | Some info' \<Rightarrow> decode_options (drop (unat optlen) x2) (len - int (unat optlen)) info')))
      else Some info)"
  by pat_completeness auto
termination
  by (relation "measure (\<lambda>(x, len, info). length x)") auto

definition decode_dhcp_msg :: "dhcp_msg \<Rightarrow> int \<Rightarrow> (int \<times> dhcp_info) option" where
  "decode_dhcp_msg msg len =
     (if len < int DHCP_MSG_FIXED_SIZE + 4 then Some (- 1, zero_info)
      else if dm_options msg ! 0 \<noteq> 0x63 then Some (- 1, zero_info)
      else if dm_options msg ! 1 \<noteq> 0x82 then Some (- 1, zero_info)
      else if dm_options msg ! 2 \<noteq> 0x53 then Some (- 1, zero_info)
      else if dm_options msg ! 3 \<noteq> 0x63 then Some (- 1, zero_info)
      else map_option (\<lambda>info. (0, info\<lparr>di_ipaddr := dm_yiaddr msg\<rparr>))
             (decode_options (drop 4 (dm_options msg)) (len - (int DHCP_MSG_FIXED_SIZE + 4)) zero_info))"

definition is_valid_reply :: "dhcp_msg \<Rightarrow> dhcp_msg \<Rightarrow> int \<Rightarrow> bool" where
  "is_valid_reply msg reply sz \<longleftrightarrow>
     \<not> sz < int DHCP_MSG_FIXED_SIZE \<and> dm_op reply = 2 \<and> dm_xid reply = dm_xid msg \<and>
     dm_htype reply = dm_htype msg \<and> dm_hlen reply = dm_hlen msg \<and>
     take (unat (dm_hlen msg)) (dm_chaddr msg) = take (unat (dm_hlen msg)) (dm_chaddr reply)"

declare decode_options.simps [simp del]

section \<open>The state machine\<close>

datatype dhcp_state = STATE_SELECTING | STATE_REQUESTING

text \<open>
  The flag of \<open>Poll_error\<close> says whether \<open>errno\<close> is \<open>EAGAIN\<close> or \<open>EINTR\<close>, that of \<open>Recv_error\<close> (a negative
  result of \<open>receive_packet\<close>) whether it is \<open>ENETDOWN\<close> or \<open>ENXIO\<close>. \<open>Recv\<close> carries the size and the reply.
\<close>

datatype dhcp_event =
    Poll_timeout
  | Poll_error bool
  | Recv_error bool
  | Recv int dhcp_msg

record dhcp_client =
  c_state :: dhcp_state
  c_timeout :: nat
  c_xid :: u32
  c_info :: dhcp_info
  c_discover :: dhcp_msg
  c_request :: dhcp_msg
  c_last_good :: dhcp_info
  c_sent :: "(dhcp_msg \<times> nat) list"
  c_open :: bool

datatype dhcp_outcome =
    Running dhcp_client
  | Returned int dhcp_client
  | Undefined

definition TIMEOUT_INITIAL :: nat where
  "TIMEOUT_INITIAL = 4000"

definition TIMEOUT_MAX :: nat where
  "TIMEOUT_MAX = 32000"

text \<open>The code at the label \<open>transmit\<close>.\<close>

definition transmit :: "u8 list \<Rightarrow> dhcp_client \<Rightarrow> dhcp_client" where
  "transmit hwaddr c =
     (case c_state c of
        STATE_SELECTING \<Rightarrow>
          let (m, size) = init_dhcp_discover_msg hwaddr (c_xid c)
          in c\<lparr>c_discover := m, c_sent := c_sent c @ [(m, size)]\<rparr>
      | STATE_REQUESTING \<Rightarrow>
          let (m, size) = init_dhcp_request_msg hwaddr (c_xid c) (di_ipaddr (c_info c)) (di_serveraddr (c_info c))
          in c\<lparr>c_request := m, c_sent := c_sent c @ [(m, size)]\<rparr>)"

text \<open>\<open>ifc_configure\<close> sees the parameters and returns its result.\<close>

definition dhcp_configure :: "(dhcp_info \<Rightarrow> int) \<Rightarrow> dhcp_client \<Rightarrow> int \<times> dhcp_client" where
  "dhcp_configure ifc_configure c = (ifc_configure (c_info c), c\<lparr>c_last_good := c_info c\<rparr>)"

definition get_dhcp_info :: "dhcp_client \<Rightarrow> u32 \<times> u32 \<times> u32 \<times> u32 \<times> u32 \<times> u32 \<times> u32" where
  "get_dhcp_info c =
     (let i = c_last_good c
      in (di_ipaddr i, di_gateway i, di_prefixLength i, di_dns1 i, di_dns2 i, di_serveraddr i, di_lease i))"

definition dhcp_step ::
  "(dhcp_info \<Rightarrow> int) \<Rightarrow> u8 list \<Rightarrow> dhcp_client \<Rightarrow> dhcp_event \<Rightarrow> dhcp_outcome" where
  "dhcp_step ifc_configure hwaddr c ev =
     (case ev of
        Poll_timeout \<Rightarrow>
          if c_timeout c \<ge> TIMEOUT_MAX
          then if di_type (c_info c) = 2
               then let (r, c) = dhcp_configure ifc_configure c in Returned r c
               else Returned (- 1) (c\<lparr>c_open := False\<rparr>)
          else Running (transmit hwaddr (c\<lparr>c_timeout := c_timeout c * 2\<rparr>))
      | Poll_error transient \<Rightarrow> if transient then Running c else Returned (- 1) c
      | Recv_error down \<Rightarrow> if down then Returned (- 1) c else Running c
      | Recv r reply \<Rightarrow>
          (case decode_dhcp_msg reply r of None \<Rightarrow> Undefined
           | Some (_, info) \<Rightarrow>
               let c = c\<lparr>c_info := info\<rparr>;
                   valid_reply =
                     (if c_state c = STATE_SELECTING then is_valid_reply (c_discover c) reply r
                      else is_valid_reply (c_request c) reply r)
               in if \<not> valid_reply then Running c
               else (case c_state c of
                   STATE_SELECTING \<Rightarrow>
                     if di_type info = 2
                     then Running (transmit hwaddr
                       (c\<lparr>c_state := STATE_REQUESTING, c_timeout := TIMEOUT_INITIAL, c_xid := c_xid c + 1\<rparr>))
                     else Running c
                 | STATE_REQUESTING \<Rightarrow>
                     if di_type info = 5
                     then let (r, c) = dhcp_configure ifc_configure (c\<lparr>c_open := False\<rparr>) in Returned r c
                     else if di_type info = 6 then Returned (- 1) (c\<lparr>c_open := False\<rparr>)
                     else Running c)))"

text \<open>
  The start: \<open>hwaddr\<close> and \<open>if_index\<close> are \<open>None\<close> when the interface query fails; \<open>c\<close> holds the former
  contents of the variables, whose \<open>info.type\<close> is then cleared.
\<close>

definition dhcp_start :: "u8 list \<Rightarrow> u32 \<Rightarrow> dhcp_client \<Rightarrow> dhcp_client" where
  "dhcp_start hwaddr xid c =
     transmit hwaddr
       (c\<lparr>c_state := STATE_SELECTING, c_timeout := TIMEOUT_INITIAL, c_xid := xid,
          c_info := (c_info c)\<lparr>di_type := 0\<rparr>, c_open := True, c_sent := []\<rparr>)"

fun dhcp_run ::
  "(dhcp_info \<Rightarrow> int) \<Rightarrow> u8 list \<Rightarrow> dhcp_client \<Rightarrow> dhcp_event list \<Rightarrow> dhcp_outcome" where
  "dhcp_run ifc_configure hwaddr c [] = Running c"
| "dhcp_run ifc_configure hwaddr c (ev # evs) =
     (case dhcp_step ifc_configure hwaddr c ev of
        Running c' \<Rightarrow> dhcp_run ifc_configure hwaddr c' evs
      | out \<Rightarrow> out)"

definition dhcp_init_ifc ::
  "(dhcp_info \<Rightarrow> int) \<Rightarrow> u8 list option \<Rightarrow> int option \<Rightarrow> u32 \<Rightarrow> dhcp_client \<Rightarrow> dhcp_event list \<Rightarrow> dhcp_outcome" where
  "dhcp_init_ifc ifc_configure hwaddr if_index xid c evs =
     (case hwaddr of None \<Rightarrow> Returned (- 1) c
      | Some hw \<Rightarrow>
          (case if_index of None \<Rightarrow> Returned (- 1) c
           | Some i \<Rightarrow> dhcp_run ifc_configure hw (dhcp_start hw xid c) evs))"

definition do_dhcp ::
  "(dhcp_info \<Rightarrow> int) \<Rightarrow> int \<Rightarrow> int \<Rightarrow> u8 list option \<Rightarrow> int option \<Rightarrow> u32 \<Rightarrow> dhcp_client \<Rightarrow> dhcp_event list \<Rightarrow>
   dhcp_outcome" where
  "do_dhcp ifc_configure set_addr up hwaddr if_index xid c evs =
     (if set_addr \<noteq> 0 then Returned (- 1) c
      else if up \<noteq> 0 then Returned (- 1) c
      else dhcp_init_ifc ifc_configure hwaddr if_index xid c evs)"

section \<open>Parsing stays inside the message\<close>

lemma decode_option_safe:
  "optlen \<le> length x \<Longrightarrow> x \<noteq> [] \<Longrightarrow> decode_option opt optlen x info \<noteq> None"
  by (auto simp: decode_option_def Let_def)

lemma decode_options_safe: "len \<le> int (length x) \<Longrightarrow> decode_options x len info \<noteq> None"
proof (induction x len info rule: decode_options.induct)
  case (1 x len info)
  show ?case
  proof (cases "len > 2")
    case False
    then show ?thesis by (subst decode_options.simps) simp
  next
    case True
    with "1.prems" have "Suc (Suc (Suc 0)) \<le> length x" by linarith
    then obtain opt ol x2 where x: "x = opt # ol # x2" "x2 \<noteq> []" by (auto simp: Suc_le_length_iff)
    show ?thesis
    proof (cases "opt = 0 \<or> opt = 255 \<or> len - 2 < int (unat ol)")
      case T: True
      with 1 True x show ?thesis by (subst decode_options.simps) auto
    next
      case F: False
      have "int (unat ol) \<le> len - 2" using F by linarith
      moreover have l: "len \<le> int (length x2) + 2" using "1.prems" x by simp
      ultimately have ol: "unat ol \<le> length x2" by linarith
      then have "int (length (drop (unat ol) x2)) = int (length x2) - int (unat ol)"
        by (simp only: length_drop of_nat_diff)
      with l have le: "len - 2 - int (unat ol) \<le> int (length (drop (unat ol) x2))" by linarith
      from ol obtain info' where i: "decode_option opt (unat ol) x2 info = Some info'"
        using decode_option_safe x(2) by (metis not_None_eq)
      have "decode_options (drop (unat ol) x2) (len - 2 - int (unat ol)) info' \<noteq> None"
        using "1.IH"(2)[OF True x(1) _ _ refl refl _ i le] F by blast
      with F True x i show ?thesis by (subst decode_options.simps) simp
    qed
  qed
qed

lemma decode_dhcp_msg_safe:
  assumes "msg_wf msg" "len \<le> int dhcp_msg_size"
  shows "\<exists>r info. decode_dhcp_msg msg len = Some (r, info)"
proof -
  have "decode_options (drop 4 (dm_options msg)) (len - (int DHCP_MSG_FIXED_SIZE + 4)) zero_info \<noteq> None"
    using assms by (intro decode_options_safe) (auto simp: msg_wf_def DHCP_MSG_FIXED_SIZE_def dhcp_msg_size_def)
  then show ?thesis by (auto simp: decode_dhcp_msg_def)
qed

section \<open>Parsing a list of options\<close>

text \<open>
  A well-formed options field: code, length and value of each option, then the end mark. A
  message type has a value.
\<close>

definition tlv :: "u8 \<times> u8 list \<Rightarrow> u8 list" where
  "tlv o' = fst o' # of_nat (length (snd o')) # snd o'"

definition option_ok :: "u8 \<times> u8 list \<Rightarrow> bool" where
  "option_ok o' \<longleftrightarrow> fst o' \<noteq> 0 \<and> fst o' \<noteq> 255 \<and> length (snd o') < 256 \<and> (fst o' = 53 \<longrightarrow> snd o' \<noteq> [])"

definition apply_option :: "dhcp_info \<Rightarrow> u8 \<times> u8 list \<Rightarrow> dhcp_info" where
  "apply_option info o' =
     (case decode_option (fst o') (length (snd o')) (snd o') info of None \<Rightarrow> info | Some i \<Rightarrow> i)"

lemma load32_append: "i + 4 \<le> length xs \<Longrightarrow> load32 (xs @ ys) i = load32 xs i"
  by (simp add: load32_def nth_append)

lemma decode_option_value:
  assumes "option_ok (c, v)"
  shows "decode_option c (length v) (v @ rest) info = Some (apply_option info (c, v))"
  using assms
  by (cases v) (auto simp: decode_option_def apply_option_def option_ok_def Let_def load32_append[of _ "_ # _", simplified]
      nth_append)

lemma decode_options_tlv:
  assumes "\<forall>o' \<in> set opts. option_ok o'" and "int (length (concat (map tlv opts))) < len"
  shows "decode_options (concat (map tlv opts) @ 255 # rest) len info = Some (foldl apply_option info opts)"
  using assms
proof (induction opts arbitrary: len info)
  case Nil
  then show ?case by (subst decode_options.simps) simp
next
  case (Cons o' opts)
  obtain c v where o': "o' = (c, v)" by fastforce
  have ok: "option_ok (c, v)" using Cons.prems(1) o' by simp
  have u: "unat (of_nat (length v) :: u8) = length v" using ok by (simp add: option_ok_def unat_of_nat)
  have len: "2 < len" "\<not> len - 2 < int (length v)" using Cons.prems(2) by (simp_all add: o' tlv_def)
  have ih: "decode_options (concat (map tlv opts) @ 255 # rest) (len - 2 - int (length v)) (apply_option info o') =
      Some (foldl apply_option (apply_option info o') opts)"
    using Cons.prems by (intro Cons.IH) (auto simp: o' tlv_def)
  have "concat (map tlv (o' # opts)) @ 255 # rest = c # of_nat (length v) # v @ concat (map tlv opts) @ 255 # rest"
    by (simp add: o' tlv_def)
  then show ?case
    using ok len u ih decode_option_value[OF ok]
    by (subst decode_options.simps) (simp add: option_ok_def o')
qed

section \<open>Invariants of the client\<close>

text \<open>The states the loop passes through, for a given address and first transaction id.\<close>

inductive dhcp_reach :: "(dhcp_info \<Rightarrow> int) \<Rightarrow> u8 list \<Rightarrow> u32 \<Rightarrow> dhcp_client \<Rightarrow> bool"
  for cfg hw xid where
  start: "dhcp_reach cfg hw xid (dhcp_start hw xid c)"
| step: "dhcp_reach cfg hw xid c \<Longrightarrow> dhcp_step cfg hw c ev = Running c' \<Longrightarrow> dhcp_reach cfg hw xid c'"

inductive_cases dhcp_reachE: "dhcp_reach cfg hw xid c"

definition dhcp_invar :: "u8 list \<Rightarrow> u32 \<Rightarrow> dhcp_client \<Rightarrow> bool" where
  "dhcp_invar hw xid c \<longleftrightarrow>
     c_timeout c \<in> {4000, 8000, 16000, 32000} \<and> c_open c \<and>
     c_discover c = fst (init_dhcp_discover_msg hw xid) \<and>
     c_xid c = (case c_state c of STATE_SELECTING \<Rightarrow> xid | STATE_REQUESTING \<Rightarrow> xid + 1) \<and>
     (c_state c = STATE_REQUESTING \<longrightarrow>
        (\<exists>ip srv. c_request c = fst (init_dhcp_request_msg hw (xid + 1) ip srv))) \<and>
     c_sent c \<noteq> []"

lemma dhcp_start_invar: "dhcp_invar hw xid (dhcp_start hw xid c)"
  by (auto simp: dhcp_invar_def dhcp_start_def transmit_def TIMEOUT_INITIAL_def split: prod.splits)

lemma transmit_simps [simp]:
  "c_state (transmit hw c) = c_state c" "c_timeout (transmit hw c) = c_timeout c"
  "c_xid (transmit hw c) = c_xid c" "c_info (transmit hw c) = c_info c" "c_open (transmit hw c) = c_open c"
  "c_last_good (transmit hw c) = c_last_good c"
  by (auto simp: transmit_def Let_def split: dhcp_state.splits prod.splits)

lemma transmit_invar:
  assumes "c_timeout c \<in> {4000, 8000, 16000, 32000}" "c_open c"
    "c_state c = STATE_REQUESTING \<longrightarrow> c_discover c = fst (init_dhcp_discover_msg hw xid)"
    "c_xid c = (case c_state c of STATE_SELECTING \<Rightarrow> xid | STATE_REQUESTING \<Rightarrow> xid + 1)"
  shows "dhcp_invar hw xid (transmit hw c)"
  using assms
  by (cases "c_state c") (auto simp: dhcp_invar_def transmit_def Let_def case_prod_unfold)

lemma dhcp_step_invar:
  assumes inv: "dhcp_invar hw xid c" and st: "dhcp_step cfg hw c ev = Running c'"
  shows "dhcp_invar hw xid c'"
proof (cases ev)
  case Poll_timeout
  with st have c': "c' = transmit hw (c\<lparr>c_timeout := c_timeout c * 2\<rparr>)" "c_timeout c < 32000"
    by (auto simp: dhcp_step_def dhcp_configure_def TIMEOUT_MAX_def split: if_splits)
  show ?thesis unfolding c'(1)
    using inv c'(2) by (intro transmit_invar) (auto simp: dhcp_invar_def)
next
  case (Poll_error b)
  with inv st show ?thesis by (auto simp: dhcp_step_def split: if_splits)
next
  case (Recv_error b)
  with inv st show ?thesis by (auto simp: dhcp_step_def split: if_splits)
next
  case (Recv r reply)
  then obtain x info where d: "decode_dhcp_msg reply r = Some (x, info)"
    using st by (auto simp: dhcp_step_def split: option.splits)
  have i: "dhcp_invar hw xid (c\<lparr>c_info := info\<rparr>)" using inv by (simp add: dhcp_invar_def)
  have t: "dhcp_invar hw xid (transmit hw (c\<lparr>c_info := info, c_state := STATE_REQUESTING,
      c_timeout := TIMEOUT_INITIAL, c_xid := c_xid c + 1\<rparr>))" if "c_state c = STATE_SELECTING"
    using that inv by (intro transmit_invar) (auto simp: dhcp_invar_def TIMEOUT_INITIAL_def)
  show ?thesis
    using st d i t Recv unfolding dhcp_step_def dhcp_configure_def
    by (cases "c_state c") (auto simp: Let_def split: if_splits)
qed

lemma dhcp_reach_invar: "dhcp_reach cfg hw xid c \<Longrightarrow> dhcp_invar hw xid c"
  by (induction rule: dhcp_reach.induct) (auto intro: dhcp_start_invar dhcp_step_invar)

section \<open>Termination\<close>

text \<open>How many more timeouts a client survives.\<close>

definition timeouts_left :: "dhcp_client \<Rightarrow> nat" where
  "timeouts_left c =
     (if c_timeout c = 4000 then 4 else if c_timeout c = 8000 then 3 else if c_timeout c = 16000 then 2 else 1) +
     (case c_state c of STATE_SELECTING \<Rightarrow> 4 | STATE_REQUESTING \<Rightarrow> 0)"

lemma dhcp_step_timeouts:
  assumes inv: "dhcp_invar hw xid c" and st: "dhcp_step cfg hw c ev = Running c'"
  shows "timeouts_left c' + (if ev = Poll_timeout then 1 else 0) \<le> timeouts_left c"
proof (cases ev)
  case Poll_timeout
  with st have "c' = transmit hw (c\<lparr>c_timeout := c_timeout c * 2\<rparr>)" "c_timeout c < 32000"
    by (auto simp: dhcp_step_def dhcp_configure_def TIMEOUT_MAX_def split: if_splits)
  with inv Poll_timeout show ?thesis by (auto simp: timeouts_left_def dhcp_invar_def)
next
  case (Recv r reply)
  then obtain x info where d: "decode_dhcp_msg reply r = Some (x, info)"
    using st by (auto simp: dhcp_step_def split: option.splits)
  then show ?thesis
    using st Recv unfolding dhcp_step_def dhcp_configure_def
    by (cases "c_state c") (auto simp: Let_def timeouts_left_def TIMEOUT_INITIAL_def split: if_splits)
qed (use st in \<open>auto simp: dhcp_step_def split: if_splits\<close>)

lemma dhcp_run_ends:
  assumes "dhcp_invar hw xid c" "timeouts_left c \<le> count_list evs Poll_timeout"
  shows "\<not> (\<exists>c'. dhcp_run cfg hw c evs = Running c')"
  using assms
proof (induction evs arbitrary: c)
  case Nil
  then show ?case by (auto simp: timeouts_left_def split: if_splits)
next
  case (Cons ev evs)
  show ?case
  proof (cases "dhcp_step cfg hw c ev")
    case (Running c1)
    have "dhcp_invar hw xid c1" by (rule dhcp_step_invar[OF Cons.prems(1) Running])
    moreover have "timeouts_left c1 \<le> count_list evs Poll_timeout"
      using dhcp_step_timeouts[OF Cons.prems(1) Running] Cons.prems(2) by (auto split: if_splits)
    ultimately show ?thesis using Cons.IH Running by simp
  qed auto
qed

section \<open>Properties\<close>

text \<open>
  C21. The client gives up: whatever replies, errors and interruptions arrive and in
  whatever order, the loop of \<open>dhcp_init_ifc\<close> has returned once \<open>poll\<close> has timed out eight times,
  since the timeout doubles up to its maximum and is reset only once, by the first valid offer.
\<close>

theorem dhcp_init_ifc_ends:
  assumes "8 \<le> count_list evs Poll_timeout"
  shows "\<nexists>c'. dhcp_init_ifc cfg (Some hw) (Some i) xid c evs = Running c'"
proof -
  have "timeouts_left (dhcp_start hw xid c) = 8"
    by (simp add: timeouts_left_def dhcp_start_def TIMEOUT_INITIAL_def)
  then show ?thesis
    using dhcp_run_ends[OF dhcp_start_invar, of hw xid c evs cfg] assms by (simp add: dhcp_init_ifc_def)
qed

text \<open>A client whose variables are all zero, for concrete runs.\<close>

definition blank_client :: dhcp_client where
  "blank_client = \<lparr>c_state = STATE_SELECTING, c_timeout = 0, c_xid = 0, c_info = zero_info,
     c_discover = fst (init_dhcp_msg 0 [] 0), c_request = fst (init_dhcp_msg 0 [] 0),
     c_last_good = zero_info, c_sent = [], c_open = False\<rparr>"

theorem dhcp_init_ifc_ends_witness:
  "\<nexists>c'. dhcp_init_ifc (\<lambda>i. 0) (Some [2, 0, 0, 0, 0, 1]) (Some 1) 7 blank_client
     (replicate 8 Poll_timeout) = Running c'"
  using dhcp_init_ifc_ends[of "replicate 8 Poll_timeout" "\<lambda>i. 0" "[2, 0, 0, 0, 0, 1]" 1 7 blank_client]
  by (simp add: numeral_eq_Suc)

lemma emit_simps [simp]:
  "dm_op (fst (emit mx bs)) = dm_op (fst mx)" "dm_xid (fst (emit mx bs)) = dm_xid (fst mx)"
  "dm_hlen (fst (emit mx bs)) = dm_hlen (fst mx)" "dm_chaddr (fst (emit mx bs)) = dm_chaddr (fst mx)"
  "dm_yiaddr (fst (emit mx bs)) = dm_yiaddr (fst mx)" "snd (emit mx bs) = snd mx + length bs"
  "dm_options (fst (emit mx bs)) =
     take (snd mx) (dm_options (fst mx)) @ bs @ drop (snd mx + length bs) (dm_options (fst mx))"
  by (simp_all add: emit_def Let_def case_prod_unfold)

lemma init_dhcp_msg_simps [simp]:
  "dm_op (fst (init_dhcp_msg t hw xid)) = 1" "dm_xid (fst (init_dhcp_msg t hw xid)) = xid"
  "dm_hlen (fst (init_dhcp_msg t hw xid)) = 6" "dm_yiaddr (fst (init_dhcp_msg t hw xid)) = 0"
  "dm_chaddr (fst (init_dhcp_msg t hw xid)) = take 6 hw @ replicate 10 0"
  "snd (init_dhcp_msg t hw xid) = 7"
  by (simp_all add: init_dhcp_msg_def Let_def)

lemma init_dhcp_request_msg_simps [simp]:
  "dm_xid (fst (init_dhcp_request_msg hw xid ip srv)) = xid"
  "dm_hlen (fst (init_dhcp_request_msg hw xid ip srv)) = 6"
  "dm_chaddr (fst (init_dhcp_request_msg hw xid ip srv)) = take 6 hw @ replicate 10 0"
  by (simp_all add: init_dhcp_request_msg_def Let_def case_prod_unfold)


lemma dhcp_run_reach:
  assumes "dhcp_reach cfg hw xid c" "dhcp_run cfg hw c evs = Running c'"
  shows "dhcp_reach cfg hw xid c'"
  using assms
  by (induction evs arbitrary: c) (auto split: dhcp_outcome.splits intro: dhcp_reach.step)

lemma dhcp_step_timeout:
  "c_timeout c < 32000 \<Longrightarrow>
     dhcp_step cfg hw c Poll_timeout = Running (transmit hw (c\<lparr>c_timeout := c_timeout c * 2\<rparr>))"
  "c_timeout c = 32000 \<Longrightarrow> di_type (c_info c) = 2 \<Longrightarrow>
     dhcp_step cfg hw c Poll_timeout = Returned (cfg (c_info c)) (c\<lparr>c_last_good := c_info c\<rparr>)"
  by (simp_all add: dhcp_step_def dhcp_configure_def TIMEOUT_MAX_def)


text \<open>
  The second situation of the previous property needs no valid offer: \<open>decode_dhcp_msg\<close> overwrites the
  parameters before the reply is validated. Any packet that parses as an offer, even one that
  \<open>is_valid_reply\<close> rejects (another client's transaction, a wrong hardware address), followed by
  four timeouts, makes the client configure its interface with the parameters of that packet.
\<close>

theorem dhcp_configures_rejected_offer:
  assumes "decode_dhcp_msg reply r = Some (x, info)" and "di_type info = 2"
    and "\<not> is_valid_reply (fst (init_dhcp_discover_msg hw xid)) reply r"
  shows "\<exists>c'. dhcp_init_ifc cfg (Some hw) (Some i) xid c (Recv r reply # replicate 4 Poll_timeout) =
      Returned (cfg info) c' \<and> c_last_good c' = info"
proof -
  define c1 where "c1 = (dhcp_start hw xid c)\<lparr>c_info := info\<rparr>"
  have s: "c_state (dhcp_start hw xid c) = STATE_SELECTING" "c_timeout (dhcp_start hw xid c) = 4000"
    "c_discover (dhcp_start hw xid c) = fst (init_dhcp_discover_msg hw xid)"
    using dhcp_start_invar[of hw xid c] by (simp_all add: dhcp_invar_def dhcp_start_def TIMEOUT_INITIAL_def)
  have "dhcp_step cfg hw (dhcp_start hw xid c) (Recv r reply) = Running c1"
    using assms s by (simp add: dhcp_step_def Let_def c1_def)
  moreover have "c_info c1 = info" "c_timeout c1 = 4000" using s by (simp_all add: c1_def)
  moreover have "replicate 4 Poll_timeout = [Poll_timeout, Poll_timeout, Poll_timeout, Poll_timeout]"
    by (simp add: numeral_eq_Suc)
  ultimately show ?thesis
    using assms(2) by (simp add: dhcp_init_ifc_def dhcp_step_timeout)
qed

theorem dhcp_configures_rejected_offer_witness:
  "\<exists>c'. dhcp_init_ifc (\<lambda>i. 0) (Some [2, 0, 0, 0, 0, 1]) (Some 1) 7 blank_client
      (Recv 243 (fst (init_dhcp_msg 2 [9, 9, 9, 9, 9, 9] 99)) # replicate 4 Poll_timeout) = Returned 0 c' \<and>
    c_last_good c' = zero_info\<lparr>di_type := 2\<rparr>"
proof -
  let ?reply = "fst (init_dhcp_msg 2 [9, 9, 9, 9, 9, 9] 99)"
  have d: "decode_dhcp_msg ?reply 243 = Some (0, zero_info\<lparr>di_type := 2\<rparr>)" by code_simp
  have v: "\<not> is_valid_reply (fst (init_dhcp_discover_msg [2, 0, 0, 0, 0, 1] 7)) ?reply 243"
    by (simp add: is_valid_reply_def)
  show ?thesis
    using dhcp_configures_rejected_offer[OF d _ v, of "\<lambda>i. 0" 1 blank_client] by simp
qed

lemma decode_dhcp_msg_tlv:
  assumes "dm_options m = [0x63, 0x82, 0x53, 0x63] @ concat (map tlv opts) @ 255 # rest"
    and "\<forall>o' \<in> set opts. option_ok o'"
    and "241 + int (length (concat (map tlv opts))) \<le> len"
  shows "decode_dhcp_msg m len = Some (0, (foldl apply_option zero_info opts)\<lparr>di_ipaddr := dm_yiaddr m\<rparr>)"
proof -
  have "decode_options (concat (map tlv opts) @ 255 # rest) (len - (int DHCP_MSG_FIXED_SIZE + 4)) zero_info =
      Some (foldl apply_option zero_info opts)"
    using assms by (intro decode_options_tlv) (auto simp: DHCP_MSG_FIXED_SIZE_def)
  with assms(1,3) show ?thesis by (simp add: decode_dhcp_msg_def DHCP_MSG_FIXED_SIZE_def)
qed

text \<open>
  Parsing of a well-formed options field: on a message whose options are the magic cookie, any
  list of code/length/value options and the end mark, \<open>decode_dhcp_msg\<close> succeeds and the result is
  that of applying the options one after the other to a cleared structure, with the offered
  address taken from the fixed part; padding after the end mark does not matter.
\<close>

theorem decode_dhcp_msg_options:
  assumes "dm_options m = [0x63, 0x82, 0x53, 0x63] @ concat (map tlv opts) @ 255 # rest"
    and "\<forall>o' \<in> set opts. option_ok o'"
    and "241 + int (length (concat (map tlv opts))) \<le> len"
  shows "decode_dhcp_msg m len = Some (0, (foldl apply_option zero_info opts)\<lparr>di_ipaddr := dm_yiaddr m\<rparr>)"
  using assms by (rule decode_dhcp_msg_tlv)

theorem decode_dhcp_msg_options_witness:
  "decode_dhcp_msg ((fst (init_dhcp_msg 0 [] 0))\<lparr>dm_options := [0x63, 0x82, 0x53, 0x63] @
       concat (map tlv [(53, [5]), (54, [10, 0, 0, 1])]) @ 255 # [0, 0], dm_yiaddr := 9\<rparr>) 252 =
     Some (0, zero_info\<lparr>di_type := 5, di_serveraddr := 0x100000A, di_ipaddr := 9\<rparr>)"
proof -
  let ?m = "(fst (init_dhcp_msg 0 [] 0))\<lparr>dm_options := [0x63, 0x82, 0x53, 0x63] @
       concat (map tlv [(53, [5]), (54, [10, 0, 0, 1])]) @ 255 # [0, 0], dm_yiaddr := 9\<rparr>"
  have "decode_dhcp_msg ?m 252 =
      Some (0, (foldl apply_option zero_info [(53, [5]), (54, [10, 0, 0, 1])])\<lparr>di_ipaddr := dm_yiaddr ?m\<rparr>)"
    by (rule decode_dhcp_msg_options) (simp_all add: option_ok_def tlv_def)
  also have "foldl apply_option zero_info [(53, [5]), (54, [10, 0, 0, 1])] =
      zero_info\<lparr>di_type := 5, di_serveraddr := 0x100000A\<rparr>"
    by (simp add: apply_option_def decode_option_def load32_def)
  finally show ?thesis by simp
qed

text \<open>
  Parsing is memory safe for every message of at most the size of the structure: no option, however
  malformed its length, makes \<open>decode_dhcp_msg\<close> read outside the message.
\<close>

theorem decode_dhcp_msg_in_bounds:
  assumes "msg_wf msg" and "len \<le> int dhcp_msg_size"
  shows "decode_dhcp_msg msg len \<noteq> None"
  using decode_dhcp_msg_safe[OF assms] by auto

theorem decode_dhcp_msg_in_bounds_witness:
  "decode_dhcp_msg (msg_of_bytes (replicate 1260 255)) 1260 \<noteq> None"
proof -
  have "msg_wf (msg_of_bytes (replicate 1260 255))"
    unfolding msg_wf_def msg_of_bytes_def by (simp only: dhcp_msg.simps length_take length_drop length_replicate) simp
  then show ?thesis using decode_dhcp_msg_in_bounds[of "msg_of_bytes (replicate 1260 255)" 1260]
    by (simp only: dhcp_msg_size_def) simp
qed

text \<open>The options written so far, and that \<open>emit\<close> extends them.\<close>

definition options_start :: "dhcp_msg \<times> nat \<Rightarrow> u8 list \<Rightarrow> bool" where
  "options_start mx pre \<longleftrightarrow> snd mx = length pre \<and> take (length pre) (dm_options (fst mx)) = pre \<and>
     length (dm_options (fst mx)) = 1024"

lemma emit_layout:
  assumes "options_start mx pre" "length pre + length bs \<le> 1024"
  shows "options_start (emit mx bs) (pre @ bs)"
  using assms by (simp add: options_start_def min_def)

lemma init_layout: "options_start (init_dhcp_msg t hw xid) [0x63, 0x82, 0x53, 0x63, 53, 1, t]"
proof -
  have "options_start (m, 0) []" if "length (dm_options m) = 1024" for m
    using that by (simp add: options_start_def)
  from emit_layout[OF this, of _ "[0x63, 0x82, 0x53, 0x63, 53, 1, t]"] show ?thesis
    unfolding init_dhcp_msg_def Let_def by simp
qed

text \<open>
  The request the client sends says what it was built from: parsed as a DHCP message it has type
  DHCPREQUEST and the server identifier of the offer, and its options name the requested address.
\<close>

theorem dhcp_request_contents:
  "\<exists>rest. dm_options (fst (init_dhcp_request_msg hw xid ip srv)) = [0x63, 0x82, 0x53, 0x63] @
      concat (map tlv [(53, [3]), (55, [1, 3, 6, 28]), (50, le32 ip), (54, le32 srv)]) @ 255 # rest \<and>
    decode_dhcp_msg (fst (init_dhcp_request_msg hw xid ip srv)) (int (snd (init_dhcp_request_msg hw xid ip srv))) =
      Some (0, zero_info\<lparr>di_type := 3, di_serveraddr := srv\<rparr>)"
proof -
  let ?pre = "[0x63, 0x82, 0x53, 0x63] @ concat (map tlv [(53, [3]), (55, [1, 3, 6, 28]), (50, le32 ip), (54, le32 srv)]) @ [255]"
  have l: "length (le32 w) = 4" for w by simp
  have pre: "((([0x63, 0x82, 0x53, 0x63, 53, 1, 3] @ [55, 4, 1, 3, 6, 28]) @ ([50, 4] @ le32 ip)) @ ([54, 4] @ le32 srv)) @ [255] = ?pre"
    by (simp add: tlv_def)
  let ?mx = "emit (emit (emit (emit (init_dhcp_msg 3 hw xid) [55, 4, 1, 3, 6, 28]) ([50, 4] @ le32 ip)) ([54, 4] @ le32 srv)) [255]"
  have i: "init_dhcp_request_msg hw xid ip srv = (fst ?mx, DHCP_MSG_FIXED_SIZE + snd ?mx)"
    by (simp only: init_dhcp_request_msg_def Let_def case_prod_unfold)
  have "options_start ?mx (((([0x63, 0x82, 0x53, 0x63, 53, 1, 3] @ [55, 4, 1, 3, 6, 28]) @ ([50, 4] @ le32 ip)) @ ([54, 4] @ le32 srv)) @ [255])"
    by (intro emit_layout init_layout) (simp_all add: l)
  then have "options_start ?mx ?pre" by (simp only: pre)
  then have "take (length ?pre) (dm_options (fst ?mx)) = ?pre" and sn: "snd ?mx = length ?pre"
    by (simp_all only: options_start_def)
  then obtain rest where rest: "dm_options (fst ?mx) = ?pre @ rest" by (metis append_take_drop_id)
  have opts: "dm_options (fst (init_dhcp_request_msg hw xid ip srv)) = [0x63, 0x82, 0x53, 0x63] @
      concat (map tlv [(53, [3]), (55, [1, 3, 6, 28]), (50, le32 ip), (54, le32 srv)]) @ 255 # rest"
    unfolding i fst_conv rest by simp
  have sz: "int (snd (init_dhcp_request_msg hw xid ip srv)) = 262"
    unfolding i snd_conv sn by (simp add: DHCP_MSG_FIXED_SIZE_def tlv_def l)
  have "decode_dhcp_msg (fst (init_dhcp_request_msg hw xid ip srv)) 262 = Some (0, (foldl apply_option zero_info
      [(53, [3]), (55, [1, 3, 6, 28]), (50, le32 ip), (54, le32 srv)])\<lparr>di_ipaddr := dm_yiaddr (fst (init_dhcp_request_msg hw xid ip srv))\<rparr>)"
    by (rule decode_dhcp_msg_tlv[OF opts]) (simp_all add: option_ok_def tlv_def l)
  also have "foldl apply_option zero_info [(53, [3]), (55, [1, 3, 6, 28]), (50, le32 ip), (54, le32 srv)] =
      zero_info\<lparr>di_type := 3, di_serveraddr := srv\<rparr>"
    by (simp add: apply_option_def decode_option_def l load32_le32)
  finally have "decode_dhcp_msg (fst (init_dhcp_request_msg hw xid ip srv)) 262 =
      Some (0, zero_info\<lparr>di_type := 3, di_serveraddr := srv\<rparr>)"
    by (simp add: init_dhcp_request_msg_def Let_def case_prod_unfold zero_info_def)
  with opts sz show ?thesis by auto
qed

text \<open>
  Prefix lengths and netmasks correspond: for every prefix length from 0 to 32,
  \<open>ipv4NetmaskToPrefixLength\<close> recovers it from the netmask that \<open>prefixLengthToIpv4Netmask\<close> built.
\<close>

theorem netmask_roundtrip:
  assumes "p \<le> 32"
  shows "ipv4NetmaskToPrefixLength (prefixLengthToIpv4Netmask (int p)) = p"
proof -
  have "list_all (\<lambda>p. ipv4NetmaskToPrefixLength (prefixLengthToIpv4Netmask (int p)) = p) [0..<33]" by code_simp
  then have "\<forall>p \<in> set [0..<33]. ipv4NetmaskToPrefixLength (prefixLengthToIpv4Netmask (int p)) = p"
    by (simp only: list_all_iff)
  from this[THEN bspec, of p] assms show ?thesis by simp
qed

theorem netmask_roundtrip_witness: "ipv4NetmaskToPrefixLength (prefixLengthToIpv4Netmask 24) = 24"
  using netmask_roundtrip[of 24] by simp

end
