(* ===== verification/Aes.thy ===== *)
theory Aes
  imports AesTables "HOL-Library.Signed_Division"
begin

text \<open>
  AES and its CBC mode, \<open>src/src/crypto/aes_cbc.c\<close>. The functions keep their names. A
  pointer is the number of an array and an offset into it, so that the caller may pass the same
  array twice (\<open>aes_encrypt\<close> encrypts in place), and an access outside an array is \<open>None\<close>.
\<close>

section \<open>Words and bytes\<close>

definition GETBYTE :: "u32 \<Rightarrow> nat \<Rightarrow> u8" where
  "GETBYTE x y = ucast (drop_bit (8 * y) x)"

definition rotlFixed :: "u32 \<Rightarrow> nat \<Rightarrow> u32" where
  "rotlFixed x y = push_bit y x OR drop_bit (32 - y) x"

definition rotrFixed :: "u32 \<Rightarrow> nat \<Rightarrow> u32" where
  "rotrFixed x y = drop_bit y x OR push_bit (32 - y) x"

definition ByteReverseWord32 :: "u32 \<Rightarrow> u32" where
  "ByteReverseWord32 val =
     (let val = drop_bit 8 (val AND 0xff00ff00) OR push_bit 8 (val AND 0x00ff00ff)
      in rotlFixed val 16)"

text \<open>The loop in place, as the key schedule calls it.\<close>

definition ByteReverseWords :: "u32 list \<Rightarrow> nat \<Rightarrow> u32 list" where
  "ByteReverseWords ws byteCount =
     fold (\<lambda>i ws. ws[i := ByteReverseWord32 (ws ! i)]) [0..<byteCount div 4] ws"

definition XorWords :: "u32 list \<Rightarrow> u32 list \<Rightarrow> nat \<Rightarrow> u32 list" where
  "XorWords r a n = fold (\<lambda>i r. r[i := r ! i XOR a ! i]) [0..<n] r"

text \<open>\<open>xorbuf\<close>, with the addresses of its two buffers, on which the choice of the loop depends.\<close>

definition xorbuf :: "u32 \<Rightarrow> u32 \<Rightarrow> u8 list \<Rightarrow> u8 list \<Rightarrow> nat \<Rightarrow> u8 list" where
  "xorbuf bufp maskp buf msk count =
     (if (bufp OR maskp OR of_nat count) mod 4 = 0
      then bytes_of (XorWords (words_of buf) (words_of msk) (count div 4))
      else fold (\<lambda>i buf. buf[i := buf ! i XOR msk ! i]) [0..<count] buf)"

section \<open>The key schedule\<close>

text \<open>\<open>reg\<close> and \<open>tmp\<close> are only accessed as bytes: they are kept as their 16 bytes.\<close>

record Aes =
  aes_key :: "u32 list"
  aes_rounds :: u32
  aes_reg :: "u8 list"
  aes_tmp :: "u8 list"

abbreviation (input) BAD_FUNC_ARG :: int where "BAD_FUNC_ARG \<equiv> -173"
abbreviation (input) AES_ENCRYPTION :: int where "AES_ENCRYPTION \<equiv> 0"
abbreviation (input) AES_DECRYPTION :: int where "AES_DECRYPTION \<equiv> 1"

definition AesSetIV :: "Aes option \<Rightarrow> u8 list option \<Rightarrow> (Aes option \<times> int) option" where
  "AesSetIV aes iv =
     (case aes of
        None \<Rightarrow> Some (None, BAD_FUNC_ARG)
      | Some a \<Rightarrow>
          (case iv of
             None \<Rightarrow> Some (Some a, 0)
           | Some v \<Rightarrow> do { r \<leftarrow> read_range v 0 16; Some (Some (a\<lparr>aes_reg := r\<rparr>), 0) }))"

text \<open>The two substituted words of the schedule: rotated by a byte, and not rotated.\<close>

definition sub_rot :: "u32 \<Rightarrow> u32" where
  "sub_rot temp =
     (Te4 ! unat (GETBYTE temp 2) AND 0xff000000) XOR
     (Te4 ! unat (GETBYTE temp 1) AND 0x00ff0000) XOR
     (Te4 ! unat (GETBYTE temp 0) AND 0x0000ff00) XOR
     (Te4 ! unat (GETBYTE temp 3) AND 0x000000ff)"

definition sub_word :: "u32 \<Rightarrow> u32" where
  "sub_word temp =
     (Te4 ! unat (GETBYTE temp 3) AND 0xff000000) XOR
     (Te4 ! unat (GETBYTE temp 2) AND 0x00ff0000) XOR
     (Te4 ! unat (GETBYTE temp 1) AND 0x0000ff00) XOR
     (Te4 ! unat (GETBYTE temp 0) AND 0x000000ff)"

text \<open>
  The three loops. \<open>p\<close> is the offset of the pointer \<open>rk\<close> in the key array; the counter starts
  at 0, so \<open>++i == n\<close> is first true when \<open>i + 1 < n\<close> first fails.
\<close>

function key16 :: "nat \<Rightarrow> nat \<Rightarrow> u32 list \<Rightarrow> u32 list" where
  "key16 i p rk =
     (let rk = rk[p + 4 := rk ! p XOR sub_rot (rk ! (p + 3)) XOR rcon ! i];
          rk = rk[p + 5 := rk ! (p + 1) XOR rk ! (p + 4)];
          rk = rk[p + 6 := rk ! (p + 2) XOR rk ! (p + 5)];
          rk = rk[p + 7 := rk ! (p + 3) XOR rk ! (p + 6)]
      in if i + 1 < 10 then key16 (i + 1) (p + 4) rk else rk)"
  by pat_completeness auto
termination by (relation "measure (\<lambda>(i, p, rk). 10 - i)") auto

function key24 :: "nat \<Rightarrow> nat \<Rightarrow> u32 list \<Rightarrow> u32 list" where
  "key24 i p rk =
     (let rk = rk[p + 6 := rk ! p XOR sub_rot (rk ! (p + 5)) XOR rcon ! i];
          rk = rk[p + 7 := rk ! (p + 1) XOR rk ! (p + 6)];
          rk = rk[p + 8 := rk ! (p + 2) XOR rk ! (p + 7)];
          rk = rk[p + 9 := rk ! (p + 3) XOR rk ! (p + 8)]
      in if i + 1 < 8
         then let rk = rk[p + 10 := rk ! (p + 4) XOR rk ! (p + 9)];
                  rk = rk[p + 11 := rk ! (p + 5) XOR rk ! (p + 10)]
              in key24 (i + 1) (p + 6) rk
         else rk)"
  by pat_completeness auto
termination by (relation "measure (\<lambda>(i, p, rk). 8 - i)") auto

function key32 :: "nat \<Rightarrow> nat \<Rightarrow> u32 list \<Rightarrow> u32 list" where
  "key32 i p rk =
     (let rk = rk[p + 8 := rk ! p XOR sub_rot (rk ! (p + 7)) XOR rcon ! i];
          rk = rk[p + 9 := rk ! (p + 1) XOR rk ! (p + 8)];
          rk = rk[p + 10 := rk ! (p + 2) XOR rk ! (p + 9)];
          rk = rk[p + 11 := rk ! (p + 3) XOR rk ! (p + 10)]
      in if i + 1 < 7
         then let rk = rk[p + 12 := rk ! (p + 4) XOR sub_word (rk ! (p + 11))];
                  rk = rk[p + 13 := rk ! (p + 5) XOR rk ! (p + 12)];
                  rk = rk[p + 14 := rk ! (p + 6) XOR rk ! (p + 13)];
                  rk = rk[p + 15 := rk ! (p + 7) XOR rk ! (p + 14)]
              in key32 (i + 1) (p + 8) rk
         else rk)"
  by pat_completeness auto
termination by (relation "measure (\<lambda>(i, p, rk). 7 - i)") auto

definition swap_words :: "nat \<Rightarrow> nat \<Rightarrow> u32 list \<Rightarrow> u32 list" where
  "swap_words i j rk = (let temp = rk ! i; rk = rk[i := rk ! j] in rk[j := temp])"

function invert_order :: "nat \<Rightarrow> nat \<Rightarrow> u32 list \<Rightarrow> u32 list" where
  "invert_order i j rk =
     (if i < j
      then let rk = swap_words i j rk;
               rk = swap_words (i + 1) (j + 1) rk;
               rk = swap_words (i + 2) (j + 2) rk;
               rk = swap_words (i + 3) (j + 3) rk
           in invert_order (i + 4) (j - 4) rk
      else rk)"
  by pat_completeness auto
termination by (relation "measure (\<lambda>(i, j, rk). j - i)") auto

definition inv_mix_word :: "u32 \<Rightarrow> u32" where
  "inv_mix_word w =
     Td0 ! unat (Te4 ! unat (GETBYTE w 3) AND 0xff) XOR
     Td1 ! unat (Te4 ! unat (GETBYTE w 2) AND 0xff) XOR
     Td2 ! unat (Te4 ! unat (GETBYTE w 1) AND 0xff) XOR
     Td3 ! unat (Te4 ! unat (GETBYTE w 0) AND 0xff)"

definition inv_mix_keys :: "nat \<Rightarrow> u32 list \<Rightarrow> u32 list" where
  "inv_mix_keys nr rk =
     fold (\<lambda>i rk.
       let rk = rk[4 * i := inv_mix_word (rk ! (4 * i))];
           rk = rk[4 * i + 1 := inv_mix_word (rk ! (4 * i + 1))];
           rk = rk[4 * i + 2 := inv_mix_word (rk ! (4 * i + 2))]
       in rk[4 * i + 3 := inv_mix_word (rk ! (4 * i + 3))]) [1..<nr] rk"

text \<open>\<open>None\<close>: a read past the end of the user key or a write past \<open>key[60]\<close>.\<close>

definition AesSetKeyLocal ::
    "Aes \<Rightarrow> u8 list \<Rightarrow> u32 \<Rightarrow> u8 list option \<Rightarrow> int \<Rightarrow> (Aes \<times> int) option" where
  "AesSetKeyLocal aes userKey keylen iv dir =
     (let n = unat keylen; aes = aes\<lparr>aes_rounds := keylen div 4 + 6\<rparr> in
      do { kb \<leftarrow> memcpy_at (bytes_of (aes_key aes)) 0 userKey 0 n;
           let rk = ByteReverseWords (words_of kb) n;
           let rk' = (if n = 16 then key16 0 0 rk
                      else if n = 24 then key24 0 0 rk
                      else if n = 32 then key32 0 0 rk else rk);
           if n \<noteq> 16 \<and> n \<noteq> 24 \<and> n \<noteq> 32 then Some (aes\<lparr>aes_key := rk\<rparr>, BAD_FUNC_ARG)
           else do {
             let nr = unat (aes_rounds aes);
             let rk' = (if dir = AES_DECRYPTION then inv_mix_keys nr (invert_order 0 (4 * nr) rk')
                        else rk');
             (a, res) \<leftarrow> AesSetIV (Some (aes\<lparr>aes_key := rk'\<rparr>)) iv;
             a' \<leftarrow> a;
             Some (a', res) } })"

definition AesSetKey ::
    "Aes \<Rightarrow> u8 list \<Rightarrow> u32 \<Rightarrow> u8 list option \<Rightarrow> int \<Rightarrow> (Aes \<times> int) option" where
  "AesSetKey aes userKey keylen iv dir =
     (if \<not> (keylen = 16 \<or> keylen = 24 \<or> keylen = 32) then Some (aes, BAD_FUNC_ARG)
      else AesSetKeyLocal aes userKey keylen iv dir)"

section \<open>The block cipher\<close>

type_synonym aes_state = "u32 \<times> u32 \<times> u32 \<times> u32"

fun te_round :: "u32 list \<Rightarrow> nat \<Rightarrow> aes_state \<Rightarrow> aes_state" where
  "te_round rk p (s0, s1, s2, s3) =
     (Te0 ! unat (GETBYTE s0 3) XOR Te1 ! unat (GETBYTE s1 2) XOR
      Te2 ! unat (GETBYTE s2 1) XOR Te3 ! unat (GETBYTE s3 0) XOR rk ! p,
      Te0 ! unat (GETBYTE s1 3) XOR Te1 ! unat (GETBYTE s2 2) XOR
      Te2 ! unat (GETBYTE s3 1) XOR Te3 ! unat (GETBYTE s0 0) XOR rk ! (p + 1),
      Te0 ! unat (GETBYTE s2 3) XOR Te1 ! unat (GETBYTE s3 2) XOR
      Te2 ! unat (GETBYTE s0 1) XOR Te3 ! unat (GETBYTE s1 0) XOR rk ! (p + 2),
      Te0 ! unat (GETBYTE s3 3) XOR Te1 ! unat (GETBYTE s0 2) XOR
      Te2 ! unat (GETBYTE s1 1) XOR Te3 ! unat (GETBYTE s2 0) XOR rk ! (p + 3))"

fun te_last :: "u32 list \<Rightarrow> nat \<Rightarrow> aes_state \<Rightarrow> aes_state" where
  "te_last rk p (t0, t1, t2, t3) =
     ((Te4 ! unat (GETBYTE t0 3) AND 0xff000000) XOR (Te4 ! unat (GETBYTE t1 2) AND 0x00ff0000) XOR
      (Te4 ! unat (GETBYTE t2 1) AND 0x0000ff00) XOR (Te4 ! unat (GETBYTE t3 0) AND 0x000000ff) XOR rk ! p,
      (Te4 ! unat (GETBYTE t1 3) AND 0xff000000) XOR (Te4 ! unat (GETBYTE t2 2) AND 0x00ff0000) XOR
      (Te4 ! unat (GETBYTE t3 1) AND 0x0000ff00) XOR (Te4 ! unat (GETBYTE t0 0) AND 0x000000ff) XOR rk ! (p + 1),
      (Te4 ! unat (GETBYTE t2 3) AND 0xff000000) XOR (Te4 ! unat (GETBYTE t3 2) AND 0x00ff0000) XOR
      (Te4 ! unat (GETBYTE t0 1) AND 0x0000ff00) XOR (Te4 ! unat (GETBYTE t1 0) AND 0x000000ff) XOR rk ! (p + 2),
      (Te4 ! unat (GETBYTE t3 3) AND 0xff000000) XOR (Te4 ! unat (GETBYTE t0 2) AND 0x00ff0000) XOR
      (Te4 ! unat (GETBYTE t1 1) AND 0x0000ff00) XOR (Te4 ! unat (GETBYTE t2 0) AND 0x000000ff) XOR rk ! (p + 3))"

text \<open>
  The loop of two rounds per pass: the state \<open>t\<close> at its exit and the offset of \<open>rk\<close>. The caller
  has excluded \<open>r = 0\<close>.
\<close>

fun enc_rounds :: "u32 list \<Rightarrow> nat \<Rightarrow> nat \<Rightarrow> aes_state \<Rightarrow> aes_state \<times> nat" where
  "enc_rounds rk p 0 s = (s, p)"
| "enc_rounds rk p (Suc r) s =
     (let t = te_round rk (p + 4) s; p = p + 8 in
      if r = 0 then (t, p) else enc_rounds rk p r (te_round rk p t))"

fun add_key :: "u32 list \<Rightarrow> nat \<Rightarrow> aes_state \<Rightarrow> aes_state" where
  "add_key rk p (s0, s1, s2, s3) =
     (s0 XOR rk ! p, s1 XOR rk ! (p + 1), s2 XOR rk ! (p + 2), s3 XOR rk ! (p + 3))"

definition block_in :: "u8 list \<Rightarrow> aes_state" where
  "block_in b =
     (ByteReverseWord32 (load32 b 0), ByteReverseWord32 (load32 b 4),
      ByteReverseWord32 (load32 b 8), ByteReverseWord32 (load32 b 12))"

fun block_out :: "aes_state \<Rightarrow> u8 list" where
  "block_out (s0, s1, s2, s3) =
     le32 (ByteReverseWord32 s0) @ le32 (ByteReverseWord32 s1) @
     le32 (ByteReverseWord32 s2) @ le32 (ByteReverseWord32 s3)"

text \<open>The result is the block that \<open>outBlock\<close> holds afterwards.\<close>

definition AesEncrypt :: "Aes \<Rightarrow> u8 list \<Rightarrow> u8 list \<Rightarrow> u8 list" where
  "AesEncrypt aes inBlock outBlock =
     (let r = drop_bit 1 (aes_rounds aes); rk = aes_key aes in
      if r > 7 \<or> r = 0 then outBlock
      else let s = add_key rk 0 (block_in inBlock);
               (t, p) = enc_rounds rk 0 (unat r) s
           in block_out (te_last rk p t))"

fun td_round :: "u32 list \<Rightarrow> nat \<Rightarrow> aes_state \<Rightarrow> aes_state" where
  "td_round rk p (s0, s1, s2, s3) =
     (Td0 ! unat (GETBYTE s0 3) XOR Td1 ! unat (GETBYTE s3 2) XOR
      Td2 ! unat (GETBYTE s2 1) XOR Td3 ! unat (GETBYTE s1 0) XOR rk ! p,
      Td0 ! unat (GETBYTE s1 3) XOR Td1 ! unat (GETBYTE s0 2) XOR
      Td2 ! unat (GETBYTE s3 1) XOR Td3 ! unat (GETBYTE s2 0) XOR rk ! (p + 1),
      Td0 ! unat (GETBYTE s2 3) XOR Td1 ! unat (GETBYTE s1 2) XOR
      Td2 ! unat (GETBYTE s0 1) XOR Td3 ! unat (GETBYTE s3 0) XOR rk ! (p + 2),
      Td0 ! unat (GETBYTE s3 3) XOR Td1 ! unat (GETBYTE s2 2) XOR
      Td2 ! unat (GETBYTE s1 1) XOR Td3 ! unat (GETBYTE s0 0) XOR rk ! (p + 3))"

fun td_last :: "u32 list \<Rightarrow> nat \<Rightarrow> aes_state \<Rightarrow> aes_state" where
  "td_last rk p (t0, t1, t2, t3) =
     ((Td4 ! unat (GETBYTE t0 3) AND 0xff000000) XOR (Td4 ! unat (GETBYTE t3 2) AND 0x00ff0000) XOR
      (Td4 ! unat (GETBYTE t2 1) AND 0x0000ff00) XOR (Td4 ! unat (GETBYTE t1 0) AND 0x000000ff) XOR rk ! p,
      (Td4 ! unat (GETBYTE t1 3) AND 0xff000000) XOR (Td4 ! unat (GETBYTE t0 2) AND 0x00ff0000) XOR
      (Td4 ! unat (GETBYTE t3 1) AND 0x0000ff00) XOR (Td4 ! unat (GETBYTE t2 0) AND 0x000000ff) XOR rk ! (p + 1),
      (Td4 ! unat (GETBYTE t2 3) AND 0xff000000) XOR (Td4 ! unat (GETBYTE t1 2) AND 0x00ff0000) XOR
      (Td4 ! unat (GETBYTE t0 1) AND 0x0000ff00) XOR (Td4 ! unat (GETBYTE t3 0) AND 0x000000ff) XOR rk ! (p + 2),
      (Td4 ! unat (GETBYTE t3 3) AND 0xff000000) XOR (Td4 ! unat (GETBYTE t2 2) AND 0x00ff0000) XOR
      (Td4 ! unat (GETBYTE t1 1) AND 0x0000ff00) XOR (Td4 ! unat (GETBYTE t0 0) AND 0x000000ff) XOR rk ! (p + 3))"

fun dec_rounds :: "u32 list \<Rightarrow> nat \<Rightarrow> nat \<Rightarrow> aes_state \<Rightarrow> aes_state \<times> nat" where
  "dec_rounds rk p 0 s = (s, p)"
| "dec_rounds rk p (Suc r) s =
     (let t = td_round rk (p + 4) s; p = p + 8 in
      if r = 0 then (t, p) else dec_rounds rk p r (td_round rk p t))"

definition AesDecrypt :: "Aes \<Rightarrow> u8 list \<Rightarrow> u8 list \<Rightarrow> u8 list" where
  "AesDecrypt aes inBlock outBlock =
     (let r = drop_bit 1 (aes_rounds aes); rk = aes_key aes in
      if r > 7 \<or> r = 0 then outBlock
      else let s = add_key rk 0 (block_in inBlock);
               (t, p) = dec_rounds rk 0 (unat r) s
           in block_out (td_last rk p t))"

section \<open>CBC mode\<close>

text \<open>Arrays by number, and pointers into them.\<close>

type_synonym arrays = "nat \<Rightarrow> u8 list"
type_synonym ptr = "nat \<times> nat"

fun load :: "arrays \<Rightarrow> ptr \<Rightarrow> nat \<Rightarrow> u8 list option" where
  "load m (b, i) n = read_range (m b) i n"

fun store :: "arrays \<Rightarrow> ptr \<Rightarrow> u8 list \<Rightarrow> arrays option" where
  "store m (b, i) xs = map_option (\<lambda>buf. m(b := buf)) (write_range (m b) i xs)"

fun advance :: "ptr \<Rightarrow> nat \<Rightarrow> ptr" where
  "advance (b, i) n = (b, i + n)"

text \<open>The address of a pointer, given the addresses of the arrays.\<close>

fun address :: "(nat \<Rightarrow> u32) \<Rightarrow> ptr \<Rightarrow> u32" where
  "address base (b, i) = base b + of_nat i"

fun cbc_enc_loop ::
    "(nat \<Rightarrow> u32) \<Rightarrow> u32 \<Rightarrow> nat \<Rightarrow> Aes \<Rightarrow> ptr \<Rightarrow> ptr \<Rightarrow> arrays \<Rightarrow> (Aes \<times> arrays) option" where
  "cbc_enc_loop base regp 0 aes out inp m = Some (aes, m)"
| "cbc_enc_loop base regp (Suc blocks) aes out inp m =
     do { b \<leftarrow> load m inp 16;
          let aes = aes\<lparr>aes_reg := xorbuf regp (address base inp) (aes_reg aes) b 16\<rparr>;
          let aes = aes\<lparr>aes_reg := AesEncrypt aes (aes_reg aes) (aes_reg aes)\<rparr>;
          m \<leftarrow> store m out (aes_reg aes);
          cbc_enc_loop base regp blocks aes (advance out 16) (advance inp 16) m }"

definition AesCbcEncrypt ::
    "(nat \<Rightarrow> u32) \<Rightarrow> u32 \<Rightarrow> Aes \<Rightarrow> ptr \<Rightarrow> ptr \<Rightarrow> u32 \<Rightarrow> arrays \<Rightarrow> (Aes \<times> arrays) option" where
  "AesCbcEncrypt base regp aes out inp sz m =
     cbc_enc_loop base regp (unat (sz div 16)) aes out inp m"

fun cbc_dec_loop ::
    "(nat \<Rightarrow> u32) \<Rightarrow> u32 \<Rightarrow> nat \<Rightarrow> Aes \<Rightarrow> ptr \<Rightarrow> ptr \<Rightarrow> arrays \<Rightarrow> (Aes \<times> arrays) option" where
  "cbc_dec_loop base regp 0 aes out inp m = Some (aes, m)"
| "cbc_dec_loop base regp (Suc blocks) aes out inp m =
     do { b \<leftarrow> load m inp 16;
          let aes = aes\<lparr>aes_tmp := b\<rparr>;
          outBlock \<leftarrow> load m out 16;
          m \<leftarrow> store m out (AesDecrypt aes (aes_tmp aes) outBlock);
          outBlock \<leftarrow> load m out 16;
          m \<leftarrow> store m out (xorbuf (address base out) regp outBlock (aes_reg aes) 16);
          let aes = aes\<lparr>aes_reg := aes_tmp aes\<rparr>;
          cbc_dec_loop base regp blocks aes (advance out 16) (advance inp 16) m }"

definition AesCbcDecrypt ::
    "(nat \<Rightarrow> u32) \<Rightarrow> u32 \<Rightarrow> Aes \<Rightarrow> ptr \<Rightarrow> ptr \<Rightarrow> u32 \<Rightarrow> arrays \<Rightarrow> (Aes \<times> arrays) option" where
  "AesCbcDecrypt base regp aes out inp sz m =
     cbc_dec_loop base regp (unat (sz div 16)) aes out inp m"

section \<open>The external functions\<close>

text \<open>
  \<open>enc\<close> and \<open>dec\<close> are the uninitialised contents of the local \<open>Aes\<close> structure. \<open>None\<close> is undefined
  behaviour: an access outside an array, an overlapping \<open>memcpy\<close>, an overflow of \<open>int\<close>.
\<close>

definition fits_int :: "int \<Rightarrow> bool" where
  "fits_int x = (- (2 ^ 31) \<le> x \<and> x < 2 ^ 31)"

fun overlap :: "ptr \<Rightarrow> ptr \<Rightarrow> nat \<Rightarrow> bool" where
  "overlap (b, i) (c, j) n = (b = c \<and> i < j + n \<and> j < i + n)"

definition copy :: "arrays \<Rightarrow> ptr \<Rightarrow> ptr \<Rightarrow> int \<Rightarrow> arrays option" where
  "copy m dst src n =
     (if n < 0 \<or> overlap dst src (nat n) then None
      else do { xs \<leftarrow> load m src (nat n); store m dst xs })"

definition padded_length :: "int \<Rightarrow> int" where
  "padded_length dat_len =
     (if dat_len \<noteq> (dat_len sdiv 16) * 16 then (dat_len sdiv 16 + 1) * 16 else dat_len)"

definition aes_encrypt ::
    "(nat \<Rightarrow> u32) \<Rightarrow> u32 \<Rightarrow> Aes \<Rightarrow> u8 list \<Rightarrow> int \<Rightarrow> u8 list option \<Rightarrow> ptr \<Rightarrow> int \<Rightarrow> ptr \<Rightarrow> int \<Rightarrow>
     arrays \<Rightarrow> (int \<times> arrays) option" where
  "aes_encrypt base regp enc key keyLength iv pPlainIn plainLength pEncOut maxOutLen m =
     do { (enc, _) \<leftarrow> AesSetKey enc key (word_of_int keyLength) iv AES_ENCRYPTION;
          let dat_len = padded_length plainLength;
          if \<not> fits_int dat_len then None
          else if maxOutLen < dat_len then Some (-1, m)
          else do {
            m \<leftarrow> copy m pEncOut pPlainIn plainLength;
            (dat_len, m) \<leftarrow>
              (if dat_len - plainLength > 0
               then do { m \<leftarrow> store m (advance pEncOut (nat plainLength))
                           (replicate (nat (dat_len - plainLength)) (word_of_int (dat_len - plainLength)));
                         Some (dat_len, m) }
               else if dat_len - plainLength = 0
               then let dat_len = dat_len + 0x10 in
                    if \<not> fits_int (dat_len + 16) then None
                    else do { m \<leftarrow> store m (advance pEncOut (nat plainLength))
                                (replicate (nat (dat_len + 16 - plainLength)) 0x10);
                              Some (dat_len, m) }
               else Some (dat_len, m));
            (enc, m) \<leftarrow> AesCbcEncrypt base regp enc pEncOut pEncOut (word_of_int dat_len) m;
            Some (dat_len, m) } }"

definition aes_decrypt ::
    "(nat \<Rightarrow> u32) \<Rightarrow> u32 \<Rightarrow> Aes \<Rightarrow> u8 list \<Rightarrow> int \<Rightarrow> u8 list option \<Rightarrow> ptr \<Rightarrow> int \<Rightarrow> ptr \<Rightarrow> int \<Rightarrow>
     arrays \<Rightarrow> (int \<times> arrays) option" where
  "aes_decrypt base regp dec key keyLength iv pEncIn encLength pPlainOut maxOutLen m =
     (if maxOutLen < encLength then Some (-1, m)
      else do {
        (dec, _) \<leftarrow> AesSetKey dec key (word_of_int keyLength) iv AES_DECRYPTION;
        (dec, m) \<leftarrow> AesCbcDecrypt base regp dec pPlainOut pEncIn (word_of_int encLength) m;
        if int (snd pPlainOut) + (encLength - 1) < 0 then None
        else do { c \<leftarrow> load m (fst pPlainOut, nat (int (snd pPlainOut) + (encLength - 1))) 1;
                  Some (encLength - uint (hd c), m) } })"

end
