(* ===== verification/AesCorrect.thy ===== *)
theory AesCorrect
  imports Aes
begin

text \<open>
  The block functions of \<open>src/src/crypto/aes_cbc.c\<close> against a reference: the round functions of the
  AES standard on columns of four bytes. A table round is SubBytes, ShiftRows, MixColumns and AddRoundKey;
  the loops of \<open>AesEncrypt\<close> and \<open>AesDecrypt\<close> are \<open>Cipher\<close> and \<open>InvCipher\<close>, and \<open>InvCipher\<close> with the
  transformed round keys undoes \<open>Cipher\<close>.
\<close>

section \<open>Columns as four bytes\<close>

lemma GETBYTE_pack4 [simp]:
  "GETBYTE (pack4 a b c d) 3 = a" "GETBYTE (pack4 a b c d) 2 = b"
  "GETBYTE (pack4 a b c d) (Suc 0) = c" "GETBYTE (pack4 a b c d) 0 = d"
  by (rule bit_word_eqI; simp add: GETBYTE_def bit_simps bit_pack4)+

lemma pack4_GETBYTE [simp]:
  "pack4 (GETBYTE w 3) (GETBYTE w 2) (GETBYTE w (Suc 0)) (GETBYTE w 0) = w"
  by (rule bit_word_eqI) (auto simp: GETBYTE_def bit_simps bit_pack4)

lemma pack4_cases: obtains a b c d where "w = pack4 a b c d"
  using pack4_GETBYTE[of w] by metis

lemma pack4_mask:
  "pack4 a b c d AND 0xff000000 = pack4 a 0 0 0" "pack4 a b c d AND 0x00ff0000 = pack4 0 b 0 0"
  "pack4 a b c d AND 0x0000ff00 = pack4 0 0 c 0" "pack4 a b c d AND 0x000000ff = pack4 0 0 0 d"
proof -
  have m: "0xff000000 = pack4 (-1) 0 0 0" "0x00ff0000 = pack4 0 (-1) 0 0"
    "0x0000ff00 = pack4 0 0 (-1) 0" "0x000000ff = pack4 0 0 0 (-1)"
    by code_simp+
  show "pack4 a b c d AND 0xff000000 = pack4 a 0 0 0" "pack4 a b c d AND 0x00ff0000 = pack4 0 b 0 0"
    "pack4 a b c d AND 0x0000ff00 = pack4 0 0 c 0" "pack4 a b c d AND 0x000000ff = pack4 0 0 0 d"
    unfolding m pack4_and by simp_all
qed

lemma unat_pack4_low: "unat (pack4 0 0 0 d) = unat d"
proof -
  have "pack4 0 0 0 d = ucast d" by (simp add: pack4_def)
  then show ?thesis by (simp add: unat_ucast_widen)
qed

lemma le32_pack4: "le32 (pack4 a b c d) = [d, c, b, a]"
proof -
  have "le32 w = [GETBYTE w 0, GETBYTE w (Suc 0), GETBYTE w 2, GETBYTE w 3]" for w
    by (simp add: le32_def GETBYTE_def)
  then show ?thesis by simp
qed

lemma ByteReverseWord32_pack4 [simp]: "ByteReverseWord32 (pack4 a b c d) = pack4 d c b a"
  unfolding ByteReverseWord32_def rotlFixed_def Let_def pack4_mask2
  by (simp add: pack4_shift pack4_or)

section \<open>The reference cipher\<close>

text \<open>
  The round functions of AES on a state of four columns, from the S-box \<open>sub\<close> and the
  field operations: each column is a word, its first byte the most significant.
\<close>

fun each :: "(u32 \<Rightarrow> u32) \<Rightarrow> aes_state \<Rightarrow> aes_state" where
  "each f (s0, s1, s2, s3) = (f s0, f s1, f s2, f s3)"

fun xor4 :: "aes_state \<Rightarrow> aes_state \<Rightarrow> aes_state" where
  "xor4 (s0, s1, s2, s3) (k0, k1, k2, k3) = (s0 XOR k0, s1 XOR k1, s2 XOR k2, s3 XOR k3)"

definition on_bytes :: "(u8 \<Rightarrow> u8) \<Rightarrow> u32 \<Rightarrow> u32" where
  "on_bytes f w = pack4 (f (GETBYTE w 3)) (f (GETBYTE w 2)) (f (GETBYTE w 1)) (f (GETBYTE w 0))"

definition SubBytes :: "aes_state \<Rightarrow> aes_state" where
  "SubBytes = each (on_bytes sub)"

definition InvSubBytes :: "aes_state \<Rightarrow> aes_state" where
  "InvSubBytes = each (on_bytes inv_sub)"

fun ShiftRows :: "aes_state \<Rightarrow> aes_state" where
  "ShiftRows (s0, s1, s2, s3) =
     (pack4 (GETBYTE s0 3) (GETBYTE s1 2) (GETBYTE s2 1) (GETBYTE s3 0),
      pack4 (GETBYTE s1 3) (GETBYTE s2 2) (GETBYTE s3 1) (GETBYTE s0 0),
      pack4 (GETBYTE s2 3) (GETBYTE s3 2) (GETBYTE s0 1) (GETBYTE s1 0),
      pack4 (GETBYTE s3 3) (GETBYTE s0 2) (GETBYTE s1 1) (GETBYTE s2 0))"

fun InvShiftRows :: "aes_state \<Rightarrow> aes_state" where
  "InvShiftRows (s0, s1, s2, s3) =
     (pack4 (GETBYTE s0 3) (GETBYTE s3 2) (GETBYTE s2 1) (GETBYTE s1 0),
      pack4 (GETBYTE s1 3) (GETBYTE s0 2) (GETBYTE s3 1) (GETBYTE s2 0),
      pack4 (GETBYTE s2 3) (GETBYTE s1 2) (GETBYTE s0 1) (GETBYTE s3 0),
      pack4 (GETBYTE s3 3) (GETBYTE s2 2) (GETBYTE s1 1) (GETBYTE s0 0))"

definition MixColumn :: "u32 \<Rightarrow> u32" where
  "MixColumn w =
     (let a = GETBYTE w 3; b = GETBYTE w 2; c = GETBYTE w 1; d = GETBYTE w 0 in
      pack4 (xtime a XOR mul3 b XOR c XOR d) (a XOR xtime b XOR mul3 c XOR d)
            (a XOR b XOR xtime c XOR mul3 d) (mul3 a XOR b XOR c XOR xtime d))"

definition InvMixColumn :: "u32 \<Rightarrow> u32" where
  "InvMixColumn w =
     (let a = GETBYTE w 3; b = GETBYTE w 2; c = GETBYTE w 1; d = GETBYTE w 0 in
      pack4 (mul14 a XOR mul11 b XOR mul13 c XOR mul9 d) (mul9 a XOR mul14 b XOR mul11 c XOR mul13 d)
            (mul13 a XOR mul9 b XOR mul14 c XOR mul11 d) (mul11 a XOR mul13 b XOR mul9 c XOR mul14 d))"

text \<open>Round key \<open>i\<close> of a key schedule.\<close>

definition round_key :: "u32 list \<Rightarrow> nat \<Rightarrow> aes_state" where
  "round_key rk i = (rk ! (4 * i), rk ! (4 * i + 1), rk ! (4 * i + 2), rk ! (4 * i + 3))"

fun full_rounds :: "(nat \<Rightarrow> aes_state) \<Rightarrow> nat \<Rightarrow> nat \<Rightarrow> aes_state \<Rightarrow> aes_state" where
  "full_rounds k i 0 s = s"
| "full_rounds k i (Suc n) s =
     full_rounds k (Suc i) n (xor4 (each MixColumn (ShiftRows (SubBytes s))) (k i))"

text \<open>The cipher with \<open>nr\<close> rounds on a block.\<close>

definition Cipher :: "nat \<Rightarrow> (nat \<Rightarrow> aes_state) \<Rightarrow> aes_state \<Rightarrow> aes_state" where
  "Cipher nr k s =
     (let t = full_rounds k 1 (nr - 1) (xor4 s (k 0))
      in xor4 (ShiftRows (SubBytes t)) (k nr))"

lemmas xor_ac = xor.assoc xor.commute xor.left_commute

lemma InvMixColumn_MixColumn [simp]: "InvMixColumn (MixColumn w) = w"
proof -
  obtain a b c d where w: "w = pack4 a b c d" by (rule pack4_cases)
  show ?thesis unfolding w
    by (simp add: MixColumn_def InvMixColumn_def Let_def mul_xor)
      (simp add: mul_defs xtime_xor xor_ac)
qed

lemma InvMixColumn_xor: "InvMixColumn (v XOR w) = InvMixColumn v XOR InvMixColumn w"
proof -
  obtain a b c d where v: "v = pack4 a b c d" by (rule pack4_cases)
  obtain a' b' c' d' where w: "w = pack4 a' b' c' d'" by (rule pack4_cases)
  show ?thesis unfolding v w
    by (simp add: InvMixColumn_def Let_def mul_xor pack4_xor xor_ac)
qed

lemma te_column:
  "Te0 ! unat a XOR Te1 ! unat b XOR Te2 ! unat c XOR Te3 ! unat d XOR k =
   MixColumn (pack4 (sub a) (sub b) (sub c) (sub d)) XOR k"
proof -
  have "Te0 ! unat a XOR Te1 ! unat b XOR Te2 ! unat c XOR Te3 ! unat d =
        MixColumn (pack4 (sub a) (sub b) (sub c) (sub d))"
    by (simp add: Te_lookup MixColumn_def Let_def pack4_xor)
  then show ?thesis by (simp only: xor.assoc flip: xor.assoc)
qed

lemma td_column:
  "Td0 ! unat a XOR Td1 ! unat b XOR Td2 ! unat c XOR Td3 ! unat d XOR k =
   InvMixColumn (pack4 (inv_sub a) (inv_sub b) (inv_sub c) (inv_sub d)) XOR k"
proof -
  have "Td0 ! unat a XOR Td1 ! unat b XOR Td2 ! unat c XOR Td3 ! unat d =
        InvMixColumn (pack4 (inv_sub a) (inv_sub b) (inv_sub c) (inv_sub d))"
    by (simp add: Td_lookup InvMixColumn_def Let_def pack4_xor)
  then show ?thesis by (simp only: xor.assoc flip: xor.assoc)
qed

lemma te_round_eq:
  "te_round rk (4 * i) s = xor4 (each MixColumn (ShiftRows (SubBytes s))) (round_key rk i)"
  by (cases s) (simp add: te_column SubBytes_def on_bytes_def round_key_def)

lemma td_round_eq:
  "td_round rk (4 * i) s = xor4 (each InvMixColumn (InvShiftRows (InvSubBytes s))) (round_key rk i)"
  by (cases s) (simp add: td_column InvSubBytes_def on_bytes_def round_key_def)

lemma last_column:
  "(pack4 a a a a AND 0xff000000) XOR (pack4 b b b b AND 0x00ff0000) XOR
   (pack4 c c c c AND 0x0000ff00) XOR (pack4 d d d d AND 0x000000ff) = pack4 a b c d"
  unfolding pack4_mask pack4_xor by simp

lemma last_column_key:
  "(pack4 a a a a AND 0xff000000) XOR (pack4 b b b b AND 0x00ff0000) XOR
   (pack4 c c c c AND 0x0000ff00) XOR (pack4 d d d d AND 0x000000ff) XOR k = pack4 a b c d XOR k"
  using last_column[of a b c d] by (simp only: xor.assoc flip: xor.assoc)

lemma te_last_eq:
  "te_last rk (4 * i) s = xor4 (ShiftRows (SubBytes s)) (round_key rk i)"
  by (cases s) (simp add: Te_lookup last_column_key SubBytes_def on_bytes_def round_key_def)

lemma td_last_eq:
  "td_last rk (4 * i) s = xor4 (InvShiftRows (InvSubBytes s)) (round_key rk i)"
  by (cases s) (simp add: Td_lookup last_column_key InvSubBytes_def on_bytes_def round_key_def)

lemma sub_words:
  "sub_word w = on_bytes sub w" "sub_rot w = on_bytes sub (rotlFixed w 8)"
proof -
  obtain a b c d where w: "w = pack4 a b c d" by (rule pack4_cases)
  have r: "rotlFixed w 8 = pack4 b c d a" unfolding w
    by (rule bit_word_eqI) (auto simp: rotlFixed_def bit_simps bit_pack4 u8_bit_high)
  show "sub_word w = on_bytes sub w"
    by (simp add: w sub_word_def Te_lookup last_column on_bytes_def)
  show "sub_rot w = on_bytes sub (rotlFixed w 8)"
    unfolding r unfolding w by (simp add: sub_rot_def Te_lookup last_column on_bytes_def)
qed

lemma inv_mix_word_eq: "inv_mix_word w = InvMixColumn w"
proof -
  obtain a b c d where w: "w = pack4 a b c d" by (rule pack4_cases)
  show ?thesis unfolding w
    by (simp add: inv_mix_word_def Te_lookup pack4_mask unat_pack4_low)
      (simp add: Td_lookup InvMixColumn_def pack4_xor)
qed

lemma xor4_cancel [simp]: "xor4 (xor4 s k) k = s"
  by (cases s; cases k) (simp add: xor.assoc)

lemma each_xor4: "(\<And>v w. f (v XOR w) = f v XOR f w) \<Longrightarrow> each f (xor4 s k) = xor4 (each f s) (each f k)"
  by (cases s; cases k) simp

lemma each_InvMixColumn [simp]: "each InvMixColumn (each MixColumn s) = s"
  by (cases s) simp

lemma inv_rows [simp]: "InvShiftRows (InvSubBytes (ShiftRows (SubBytes s))) = s"
  by (cases s) (simp add: InvSubBytes_def SubBytes_def on_bytes_def)

section \<open>The table-driven cipher is the reference cipher\<close>

lemma enc_rounds_eq:
  "enc_rounds rk (4 * i) (Suc r) s =
     (full_rounds (round_key rk) (Suc i) (2 * r + 1) s, 4 * (i + 2 * r + 2))"
proof (induction r arbitrary: i s)
  case 0
  show ?case using te_round_eq[of rk "Suc i" s] by (simp add: Let_def add.commute)
next
  case (Suc r)
  have "te_round rk (4 * i + 8) (te_round rk (4 * i + 4) s) =
        full_rounds (round_key rk) (Suc i) 2 s"
    using te_round_eq[of rk "Suc i"] te_round_eq[of rk "Suc (Suc i)"]
    by (simp add: numeral_2_eq_2 add.commute)
  then have "enc_rounds rk (4 * i) (Suc (Suc r)) s =
        enc_rounds rk (4 * (i + 2)) (Suc r) (full_rounds (round_key rk) (Suc i) 2 s)"
    by (subst enc_rounds.simps(2)) (simp add: Let_def add.commute del: enc_rounds.simps)
  also have "\<dots> = (full_rounds (round_key rk) (Suc (i + 2)) (2 * r + 1)
        (full_rounds (round_key rk) (Suc i) 2 s), 4 * (i + 2 + 2 * r + 2))"
    by (rule Suc.IH)
  finally show ?case by (simp add: numeral_2_eq_2)
qed

fun inv_rounds :: "(nat \<Rightarrow> aes_state) \<Rightarrow> nat \<Rightarrow> nat \<Rightarrow> aes_state \<Rightarrow> aes_state" where
  "inv_rounds k i 0 s = s"
| "inv_rounds k i (Suc n) s =
     inv_rounds k (Suc i) n (xor4 (each InvMixColumn (InvShiftRows (InvSubBytes s))) (k i))"

lemma dec_rounds_eq:
  "dec_rounds rk (4 * i) (Suc r) s =
     (inv_rounds (round_key rk) (Suc i) (2 * r + 1) s, 4 * (i + 2 * r + 2))"
proof (induction r arbitrary: i s)
  case 0
  show ?case using td_round_eq[of rk "Suc i" s] by (simp add: Let_def add.commute)
next
  case (Suc r)
  have "td_round rk (4 * i + 8) (td_round rk (4 * i + 4) s) =
        inv_rounds (round_key rk) (Suc i) 2 s"
    using td_round_eq[of rk "Suc i"] td_round_eq[of rk "Suc (Suc i)"]
    by (simp add: numeral_2_eq_2 add.commute)
  then have "dec_rounds rk (4 * i) (Suc (Suc r)) s =
        dec_rounds rk (4 * (i + 2)) (Suc r) (inv_rounds (round_key rk) (Suc i) 2 s)"
    by (subst dec_rounds.simps(2)) (simp add: Let_def add.commute del: dec_rounds.simps)
  also have "\<dots> = (inv_rounds (round_key rk) (Suc (i + 2)) (2 * r + 1)
        (inv_rounds (round_key rk) (Suc i) 2 s), 4 * (i + 2 + 2 * r + 2))"
    by (rule Suc.IH)
  finally show ?case by (simp add: numeral_2_eq_2)
qed

text \<open>The equivalent inverse cipher, with its own round keys.\<close>

definition InvCipher :: "nat \<Rightarrow> (nat \<Rightarrow> aes_state) \<Rightarrow> aes_state \<Rightarrow> aes_state" where
  "InvCipher nr k s =
     (let t = inv_rounds k 1 (nr - 1) (xor4 s (k 0))
      in xor4 (InvShiftRows (InvSubBytes t)) (k nr))"

lemma full_rounds_snoc:
  "full_rounds k i (Suc n) s = xor4 (each MixColumn (ShiftRows (SubBytes (full_rounds k i n s)))) (k (i + n))"
  by (induction n arbitrary: i s) simp_all

lemma inv_rounds_full_rounds:
  assumes "\<And>j. i \<le> j \<Longrightarrow> j < i + n \<Longrightarrow> k' (nr - j) = each InvMixColumn (k j)" and "i + n \<le> nr"
  shows "inv_rounds k' (nr - (i + n) + 1) n (ShiftRows (SubBytes (full_rounds k i n s))) =
         ShiftRows (SubBytes s)"
  using assms
proof (induction n)
  case (Suc n)
  let ?e = "full_rounds k i n s"
  have "inv_rounds k' (nr - (i + Suc n) + 1) (Suc n) (ShiftRows (SubBytes (full_rounds k i (Suc n) s))) =
        inv_rounds k' (nr - (i + n) + 1) n
          (xor4 (xor4 (ShiftRows (SubBytes ?e)) (each InvMixColumn (k (i + n)))) (k' (nr - (i + n))))"
    using Suc.prems(2)
    by (simp add: full_rounds_snoc each_xor4 InvMixColumn_xor Suc_diff_Suc del: full_rounds.simps)
  also have "k' (nr - (i + n)) = each InvMixColumn (k (i + n))" using Suc.prems(1) by simp
  finally show ?case using Suc by simp
qed simp

lemma InvCipher_Cipher:
  assumes "0 < nr" and "k' 0 = k nr" and "k' nr = k 0"
    and "\<And>j. 0 < j \<Longrightarrow> j < nr \<Longrightarrow> k' (nr - j) = each InvMixColumn (k j)"
  shows "InvCipher nr k' (Cipher nr k s) = s"
proof -
  have "inv_rounds k' 1 (nr - 1) (ShiftRows (SubBytes (full_rounds k 1 (nr - 1) (xor4 s (k 0))))) =
        ShiftRows (SubBytes (xor4 s (k 0)))"
    using inv_rounds_full_rounds[of 1 "nr - 1" k' nr k "xor4 s (k 0)"] assms by simp
  then show ?thesis by (simp add: InvCipher_def Cipher_def Let_def assms)
qed

lemma add_key_eq: "add_key rk 0 s = xor4 s (round_key rk 0)"
  by (cases s) (simp add: round_key_def)

lemma rounds_half:
  assumes "unat (aes_rounds aes) = 2 * Suc r" and "r < 7"
  shows "unat (drop_bit 1 (aes_rounds aes)) = Suc r"
    and "\<not> (drop_bit 1 (aes_rounds aes) > 7 \<or> drop_bit 1 (aes_rounds aes) = 0)"
proof -
  show u: "unat (drop_bit 1 (aes_rounds aes)) = Suc r"
    using assms by (simp add: drop_bit_eq_div unat_div)
  show "\<not> (drop_bit 1 (aes_rounds aes) > 7 \<or> drop_bit 1 (aes_rounds aes) = 0)"
    using u assms(2) by (auto simp: word_less_nat_alt)
qed

lemma AesEncrypt_Cipher:
  assumes "unat (aes_rounds aes) = 2 * Suc r" and "r < 7"
  shows "AesEncrypt aes inBlock outBlock =
         block_out (Cipher (2 * Suc r) (round_key (aes_key aes)) (block_in inBlock))"
  unfolding AesEncrypt_def Let_def if_not_P[OF rounds_half(2)[OF assms]] rounds_half(1)[OF assms]
  using enc_rounds_eq[of "aes_key aes" 0 r] te_last_eq[of "aes_key aes" "2 * Suc r"]
  by (simp add: add_key_eq Cipher_def Let_def del: enc_rounds.simps full_rounds.simps)

lemma AesDecrypt_InvCipher:
  assumes "unat (aes_rounds aes) = 2 * Suc r" and "r < 7"
  shows "AesDecrypt aes inBlock outBlock =
         block_out (InvCipher (2 * Suc r) (round_key (aes_key aes)) (block_in inBlock))"
  unfolding AesDecrypt_def Let_def if_not_P[OF rounds_half(2)[OF assms]] rounds_half(1)[OF assms]
  using dec_rounds_eq[of "aes_key aes" 0 r] td_last_eq[of "aes_key aes" "2 * Suc r"]
  by (simp add: add_key_eq InvCipher_def Let_def del: dec_rounds.simps inv_rounds.simps)

lemma block_in_out [simp]: "block_in (block_out s) = s"
proof -
  obtain s0 s1 s2 s3 where s: "s = (s0, s1, s2, s3)" by (cases s)
  obtain a0 b0 c0 d0 where 0: "s0 = pack4 a0 b0 c0 d0" by (rule pack4_cases)
  obtain a1 b1 c1 d1 where 1: "s1 = pack4 a1 b1 c1 d1" by (rule pack4_cases)
  obtain a2 b2 c2 d2 where 2: "s2 = pack4 a2 b2 c2 d2" by (rule pack4_cases)
  obtain a3 b3 c3 d3 where 3: "s3 = pack4 a3 b3 c3 d3" by (rule pack4_cases)
  show ?thesis unfolding s 0 1 2 3
    by (simp add: block_in_def le32_pack4 load32_at_pack4)
qed

end
