(* ===== verification/AesKey.thy ===== *)
theory AesKey
  imports AesCorrect
begin

text \<open>
  The key schedule of \<open>src/src/crypto/aes_cbc.c\<close>: the three expansion loops compute the key expansion of
  the standard, the loops for decryption reverse the round keys and apply InvMixColumns to all but the first and the last.
\<close>

section \<open>Key expansion\<close>

text \<open>The key expansion of the standard: word \<open>i\<close> of the schedule of the \<open>nk\<close> words \<open>k\<close>.\<close>

function key_word :: "nat \<Rightarrow> u32 list \<Rightarrow> nat \<Rightarrow> u32" where
  "key_word nk k i =
     (if nk = 0 \<or> i < nk then k ! i
      else let temp = key_word nk k (i - 1) in
           key_word nk k (i - nk) XOR
           (if i mod nk = 0 then on_bytes sub (rotlFixed temp 8) XOR rcon ! (i div nk - 1)
            else if 6 < nk \<and> i mod nk = 4 then on_bytes sub temp
            else temp))"
  by pat_completeness auto
termination by (relation "measure (\<lambda>(nk, k, i). i)") auto

declare key_word.simps [simp del]

definition key_words :: "u8 list \<Rightarrow> u32 list" where
  "key_words key =
     map (\<lambda>i. pack4 (key ! (4 * i)) (key ! (4 * i + 1)) (key ! (4 * i + 2)) (key ! (4 * i + 3)))
         [0..<length key div 4]"

definition KeyExpansion :: "u8 list \<Rightarrow> nat \<Rightarrow> aes_state" where
  "KeyExpansion key i =
     (let w = key_word (length key div 4) (key_words key)
      in (w (4 * i), w (4 * i + 1), w (4 * i + 2), w (4 * i + 3)))"

text \<open>The first \<open>n\<close> words of the key array are those of the schedule.\<close>

definition expanded :: "nat \<Rightarrow> u32 list \<Rightarrow> nat \<Rightarrow> u32 list \<Rightarrow> bool" where
  "expanded nk k n rk = (length rk = 60 \<and> (\<forall>j < n. rk ! j = key_word nk k j))"

lemma expanded_update:
  "expanded nk k n rk \<Longrightarrow> n < 60 \<Longrightarrow> m = Suc n \<Longrightarrow> v = key_word nk k n \<Longrightarrow> expanded nk k m (rk[n := v])"
  by (auto simp: expanded_def nth_list_update less_Suc_eq)

lemma expanded_nth: "expanded nk k n rk \<Longrightarrow> j < n \<Longrightarrow> rk ! j = key_word nk k j"
  by (simp add: expanded_def)

lemma key_word_4:
  "key_word 4 k (4 * i + 4) =
     key_word 4 k (4 * i) XOR sub_rot (key_word 4 k (4 * i + 3)) XOR rcon ! i"
  "key_word 4 k (4 * i + 5) = key_word 4 k (4 * i + 1) XOR key_word 4 k (4 * i + 4)"
  "key_word 4 k (4 * i + 6) = key_word 4 k (4 * i + 2) XOR key_word 4 k (4 * i + 5)"
  "key_word 4 k (4 * i + 7) = key_word 4 k (4 * i + 3) XOR key_word 4 k (4 * i + 6)"
  by (subst key_word.simps, simp add: Let_def add.commute sub_words)+

lemma key_word_6:
  "key_word 6 k (6 * i + 6) =
     key_word 6 k (6 * i) XOR sub_rot (key_word 6 k (6 * i + 5)) XOR rcon ! i"
  "key_word 6 k (6 * i + 7) = key_word 6 k (6 * i + 1) XOR key_word 6 k (6 * i + 6)"
  "key_word 6 k (6 * i + 8) = key_word 6 k (6 * i + 2) XOR key_word 6 k (6 * i + 7)"
  "key_word 6 k (6 * i + 9) = key_word 6 k (6 * i + 3) XOR key_word 6 k (6 * i + 8)"
  "key_word 6 k (6 * i + 10) = key_word 6 k (6 * i + 4) XOR key_word 6 k (6 * i + 9)"
  "key_word 6 k (6 * i + 11) = key_word 6 k (6 * i + 5) XOR key_word 6 k (6 * i + 10)"
  by (subst key_word.simps, simp add: Let_def add.commute sub_words)+

lemma key_word_8:
  "key_word 8 k (8 * i + 8) =
     key_word 8 k (8 * i) XOR sub_rot (key_word 8 k (8 * i + 7)) XOR rcon ! i"
  "key_word 8 k (8 * i + 9) = key_word 8 k (8 * i + 1) XOR key_word 8 k (8 * i + 8)"
  "key_word 8 k (8 * i + 10) = key_word 8 k (8 * i + 2) XOR key_word 8 k (8 * i + 9)"
  "key_word 8 k (8 * i + 11) = key_word 8 k (8 * i + 3) XOR key_word 8 k (8 * i + 10)"
  "key_word 8 k (8 * i + 12) = key_word 8 k (8 * i + 4) XOR sub_word (key_word 8 k (8 * i + 11))"
  "key_word 8 k (8 * i + 13) = key_word 8 k (8 * i + 5) XOR key_word 8 k (8 * i + 12)"
  "key_word 8 k (8 * i + 14) = key_word 8 k (8 * i + 6) XOR key_word 8 k (8 * i + 13)"
  "key_word 8 k (8 * i + 15) = key_word 8 k (8 * i + 7) XOR key_word 8 k (8 * i + 14)"
  by (subst key_word.simps, simp add: Let_def add.commute sub_words)+

text \<open>A word that the loops compute from two earlier ones, and the first word of a pass.\<close>

lemma expanded_xor:
  assumes "expanded nk k n rk" and "n < 60" and "m = Suc n" and "a < n" and "b < n"
    and "key_word nk k n = key_word nk k a XOR key_word nk k b"
  shows "expanded nk k m (rk[n := rk ! a XOR rk ! b])"
  using assms by (intro expanded_update) (simp_all add: expanded_nth)

lemma expanded_rot:
  assumes "expanded nk k n rk" and "n < 60" and "m = Suc n" and "a < n" and "b < n"
    and "key_word nk k n = key_word nk k a XOR sub_rot (key_word nk k b) XOR r"
  shows "expanded nk k m (rk[n := rk ! a XOR sub_rot (rk ! b) XOR r])"
  using assms by (intro expanded_update) (simp_all add: expanded_nth)

lemma expanded_sub:
  assumes "expanded nk k n rk" and "n < 60" and "m = Suc n" and "a < n" and "b < n"
    and "key_word nk k n = key_word nk k a XOR sub_word (key_word nk k b)"
  shows "expanded nk k m (rk[n := rk ! a XOR sub_word (rk ! b)])"
  using assms by (intro expanded_update) (simp_all add: expanded_nth)

declare key16.simps [simp del] key24.simps [simp del] key32.simps [simp del]

lemma key16_expanded:
  assumes "expanded 4 k (4 * i + 4) rk" and "i < 10"
  shows "expanded 4 k 44 (key16 i (4 * i) rk)"
  using assms
proof (induction "10 - i" arbitrary: i rk rule: less_induct)
  case less
  define rk1 where "rk1 = rk[4 * i + 4 := rk ! (4 * i) XOR sub_rot (rk ! (4 * i + 3)) XOR rcon ! i]"
  define rk2 where "rk2 = rk1[4 * i + 5 := rk1 ! (4 * i + 1) XOR rk1 ! (4 * i + 4)]"
  define rk3 where "rk3 = rk2[4 * i + 6 := rk2 ! (4 * i + 2) XOR rk2 ! (4 * i + 5)]"
  define rk4 where "rk4 = rk3[4 * i + 7 := rk3 ! (4 * i + 3) XOR rk3 ! (4 * i + 6)]"
  note rks = rk1_def rk2_def rk3_def rk4_def
  have "expanded 4 k (4 * i + 5) rk1" unfolding rk1_def
    using less.prems(1) by (rule expanded_rot[OF _ _ _ _ _ key_word_4(1)]) (use less.prems(2) in simp_all)
  then have "expanded 4 k (4 * i + 6) rk2" unfolding rk2_def
    by (rule expanded_xor[OF _ _ _ _ _ key_word_4(2)]) (use less.prems(2) in simp_all)
  then have "expanded 4 k (4 * i + 7) rk3" unfolding rk3_def
    by (rule expanded_xor[OF _ _ _ _ _ key_word_4(3)]) (use less.prems(2) in simp_all)
  then have 4: "expanded 4 k (4 * i + 8) rk4" unfolding rk4_def
    by (rule expanded_xor[OF _ _ _ _ _ key_word_4(4)]) (use less.prems(2) in simp_all)
  have step: "key16 i (4 * i) rk = (if i + 1 < 10 then key16 (i + 1) (4 * i + 4) rk4 else rk4)"
    by (subst key16.simps) (simp only: Let_def rks)
  show ?case
  proof (cases "i + 1 < 10")
    case True
    have "expanded 4 k 44 (key16 (i + 1) (4 * i + 4) rk4)"
      using less.hyps[of "i + 1" rk4] True 4 by (simp add: add.commute)
    then show ?thesis using True step by simp
  next
    case False
    then have "i = 9" using less.prems(2) by simp
    then show ?thesis using step 4 by simp
  qed
qed

lemma key24_expanded:
  assumes "expanded 6 k (6 * i + 6) rk" and "i < 8"
  shows "expanded 6 k 52 (key24 i (6 * i) rk)"
  using assms
proof (induction "8 - i" arbitrary: i rk rule: less_induct)
  case less
  define rk1 where "rk1 = rk[6 * i + 6 := rk ! (6 * i) XOR sub_rot (rk ! (6 * i + 5)) XOR rcon ! i]"
  define rk2 where "rk2 = rk1[6 * i + 7 := rk1 ! (6 * i + 1) XOR rk1 ! (6 * i + 6)]"
  define rk3 where "rk3 = rk2[6 * i + 8 := rk2 ! (6 * i + 2) XOR rk2 ! (6 * i + 7)]"
  define rk4 where "rk4 = rk3[6 * i + 9 := rk3 ! (6 * i + 3) XOR rk3 ! (6 * i + 8)]"
  define rk5 where "rk5 = rk4[6 * i + 10 := rk4 ! (6 * i + 4) XOR rk4 ! (6 * i + 9)]"
  define rk6 where "rk6 = rk5[6 * i + 11 := rk5 ! (6 * i + 5) XOR rk5 ! (6 * i + 10)]"
  note rks = rk1_def rk2_def rk3_def rk4_def rk5_def rk6_def
  have "expanded 6 k (6 * i + 7) rk1" unfolding rk1_def
    using less.prems(1) by (rule expanded_rot[OF _ _ _ _ _ key_word_6(1)]) (use less.prems(2) in simp_all)
  then have "expanded 6 k (6 * i + 8) rk2" unfolding rk2_def
    by (rule expanded_xor[OF _ _ _ _ _ key_word_6(2)]) (use less.prems(2) in simp_all)
  then have "expanded 6 k (6 * i + 9) rk3" unfolding rk3_def
    by (rule expanded_xor[OF _ _ _ _ _ key_word_6(3)]) (use less.prems(2) in simp_all)
  then have 4: "expanded 6 k (6 * i + 10) rk4" unfolding rk4_def
    by (rule expanded_xor[OF _ _ _ _ _ key_word_6(4)]) (use less.prems(2) in simp_all)
  have 6: "expanded 6 k (6 * i + 12) rk6" if "i + 1 < 8"
  proof -
    from 4 have "expanded 6 k (6 * i + 11) rk5" unfolding rk5_def
      by (rule expanded_xor[OF _ _ _ _ _ key_word_6(5)]) (use less.prems(2) that in simp_all)
    then show ?thesis unfolding rk6_def
      by (rule expanded_xor[OF _ _ _ _ _ key_word_6(6)]) (use less.prems(2) that in simp_all)
  qed
  have step: "key24 i (6 * i) rk = (if i + 1 < 8 then key24 (i + 1) (6 * i + 6) rk6 else rk4)"
    by (subst key24.simps) (simp only: Let_def rks)
  show ?case
  proof (cases "i + 1 < 8")
    case True
    have "expanded 6 k 52 (key24 (i + 1) (6 * i + 6) rk6)"
      using less.hyps[of "i + 1" rk6] True 6 by (simp add: add.commute)
    then show ?thesis using True step by simp
  next
    case False
    then have "i = 7" using less.prems(2) by simp
    then show ?thesis using step 4 by simp
  qed
qed

lemma key32_expanded:
  assumes "expanded 8 k (8 * i + 8) rk" and "i < 7"
  shows "expanded 8 k 60 (key32 i (8 * i) rk)"
  using assms
proof (induction "7 - i" arbitrary: i rk rule: less_induct)
  case less
  define rk1 where "rk1 = rk[8 * i + 8 := rk ! (8 * i) XOR sub_rot (rk ! (8 * i + 7)) XOR rcon ! i]"
  define rk2 where "rk2 = rk1[8 * i + 9 := rk1 ! (8 * i + 1) XOR rk1 ! (8 * i + 8)]"
  define rk3 where "rk3 = rk2[8 * i + 10 := rk2 ! (8 * i + 2) XOR rk2 ! (8 * i + 9)]"
  define rk4 where "rk4 = rk3[8 * i + 11 := rk3 ! (8 * i + 3) XOR rk3 ! (8 * i + 10)]"
  define rk5 where "rk5 = rk4[8 * i + 12 := rk4 ! (8 * i + 4) XOR sub_word (rk4 ! (8 * i + 11))]"
  define rk6 where "rk6 = rk5[8 * i + 13 := rk5 ! (8 * i + 5) XOR rk5 ! (8 * i + 12)]"
  define rk7 where "rk7 = rk6[8 * i + 14 := rk6 ! (8 * i + 6) XOR rk6 ! (8 * i + 13)]"
  define rk8 where "rk8 = rk7[8 * i + 15 := rk7 ! (8 * i + 7) XOR rk7 ! (8 * i + 14)]"
  note rks = rk1_def rk2_def rk3_def rk4_def rk5_def rk6_def rk7_def rk8_def
  have "expanded 8 k (8 * i + 9) rk1" unfolding rk1_def
    using less.prems(1) by (rule expanded_rot[OF _ _ _ _ _ key_word_8(1)]) (use less.prems(2) in simp_all)
  then have "expanded 8 k (8 * i + 10) rk2" unfolding rk2_def
    by (rule expanded_xor[OF _ _ _ _ _ key_word_8(2)]) (use less.prems(2) in simp_all)
  then have "expanded 8 k (8 * i + 11) rk3" unfolding rk3_def
    by (rule expanded_xor[OF _ _ _ _ _ key_word_8(3)]) (use less.prems(2) in simp_all)
  then have 4: "expanded 8 k (8 * i + 12) rk4" unfolding rk4_def
    by (rule expanded_xor[OF _ _ _ _ _ key_word_8(4)]) (use less.prems(2) in simp_all)
  have 8: "expanded 8 k (8 * i + 16) rk8" if "i + 1 < 7"
  proof -
    from 4 have "expanded 8 k (8 * i + 13) rk5" unfolding rk5_def
      by (rule expanded_sub[OF _ _ _ _ _ key_word_8(5)]) (use less.prems(2) that in simp_all)
    then have "expanded 8 k (8 * i + 14) rk6" unfolding rk6_def
      by (rule expanded_xor[OF _ _ _ _ _ key_word_8(6)]) (use less.prems(2) that in simp_all)
    then have "expanded 8 k (8 * i + 15) rk7" unfolding rk7_def
      by (rule expanded_xor[OF _ _ _ _ _ key_word_8(7)]) (use less.prems(2) that in simp_all)
    then show ?thesis unfolding rk8_def
      by (rule expanded_xor[OF _ _ _ _ _ key_word_8(8)]) (use less.prems(2) that in simp_all)
  qed
  have step: "key32 i (8 * i) rk = (if i + 1 < 7 then key32 (i + 1) (8 * i + 8) rk8 else rk4)"
    by (subst key32.simps) (simp only: Let_def rks)
  show ?case
  proof (cases "i + 1 < 7")
    case True
    have "expanded 8 k 60 (key32 (i + 1) (8 * i + 8) rk8)"
      using less.hyps[of "i + 1" rk8] True 8 by (simp add: add.commute)
    then show ?thesis using True step by simp
  next
    case False
    then have "i = 6" using less.prems(2) by simp
    then show ?thesis using step 4 by simp
  qed
qed

section \<open>Setting the key\<close>

lemma words_of_bytes_of [simp]: "words_of (bytes_of ws) = ws"
proof (induction ws)
  case (Cons w ws)
  obtain a b c d where w: "w = pack4 a b c d" by (rule pack4_cases)
  show ?case using Cons by (simp add: bytes_of_def w le32_pack4 load32_pack4)
qed (simp add: bytes_of_def)

lemma bytes_of_words_of: "length bs = 4 * n \<Longrightarrow> bytes_of (words_of bs) = bs"
proof (induction n arbitrary: bs)
  case (Suc n)
  then obtain a b c d rest where bs: "bs = a # b # c # d # rest"
    by (auto simp: numeral_eq_Suc length_Suc_conv)
  with Suc have "bytes_of (words_of rest) = rest" by simp
  then show ?case by (simp add: bs bytes_of_def load32_pack4 le32_pack4)
qed (simp add: bytes_of_def)

lemma ByteReverseWords_nth:
  assumes "n div 4 \<le> length ws" and "j < length ws"
  shows "ByteReverseWords ws n ! j = (if j < n div 4 then ByteReverseWord32 (ws ! j) else ws ! j)"
    and "length (ByteReverseWords ws n) = length ws"
proof -
  have "m \<le> length ws \<Longrightarrow>
      length (fold (\<lambda>i ws. ws[i := ByteReverseWord32 (ws ! i)]) [0..<m] ws) = length ws \<and>
      (\<forall>j < length ws. fold (\<lambda>i ws. ws[i := ByteReverseWord32 (ws ! i)]) [0..<m] ws ! j =
        (if j < m then ByteReverseWord32 (ws ! j) else ws ! j))" for m
    by (induction m) (auto simp: nth_list_update less_Suc_eq)
  from this[OF assms(1)] show "ByteReverseWords ws n ! j = (if j < n div 4 then ByteReverseWord32 (ws ! j) else ws ! j)"
    "length (ByteReverseWords ws n) = length ws"
    using assms(2) by (auto simp: ByteReverseWords_def)
qed

text \<open>What the copied and byte-reversed user key is.\<close>

lemma user_key_expanded:
  assumes "length key = 4 * nk" and "nk \<le> 60" and "length ws = 60" and "0 < nk"
  shows "expanded nk (key_words key) nk (ByteReverseWords (words_of (key @ drop (4 * nk) (bytes_of ws))) (4 * nk))"
proof -
  let ?b = "key @ drop (4 * nk) (bytes_of ws)"
  have l: "length (words_of ?b) = 60" using assms by (simp add: length_words_of)
  have "ByteReverseWords (words_of ?b) (4 * nk) ! j = key_word nk (key_words key) j" if "j < nk" for j
  proof -
    have "words_of ?b ! j = load32 ?b (4 * j)" using that assms by (intro words_of_nth) simp
    then have "ByteReverseWord32 (words_of ?b ! j) =
        pack4 (key ! (4 * j)) (key ! (4 * j + 1)) (key ! (4 * j + 2)) (key ! (4 * j + 3))"
      using that assms by (simp add: load32_at_pack4 nth_append)
    then show ?thesis
      using that assms l ByteReverseWords_nth(1)[of "4 * nk" "words_of ?b" j]
      by (simp add: key_word.simps[of nk _ j] key_words_def)
  qed
  then show ?thesis using l assms ByteReverseWords_nth(2)[of "4 * nk" "words_of ?b" 0]
    by (simp add: expanded_def)
qed

lemma word_index_iff: "c < 4 \<Longrightarrow> (k::nat) = 4 * a + c \<longleftrightarrow> k div 4 = a \<and> k mod 4 = c"
  by (metis add.right_neutral div_mult_self4 div_less mod_mult_self4 mod_less mult_div_mod_eq zero_neq_numeral)

lemma div4_iff: "k div 4 = i \<longleftrightarrow> k = 4 * i \<or> k = 4 * i + 1 \<or> k = 4 * i + 2 \<or> k = 4 * i + (3::nat)"
proof -
  have "k mod 4 = 0 \<or> k mod 4 = 1 \<or> k mod 4 = 2 \<or> k mod 4 = 3" by linarith
  then show ?thesis
    using word_index_iff[of 0 k i] word_index_iff[of 1 k i] word_index_iff[of 2 k i] word_index_iff[of 3 k i]
    by auto
qed

lemma inv_mix_keys_nth:
  assumes "4 * nr \<le> length rk" and "k < length rk"
  shows "inv_mix_keys nr rk ! k =
     (if 0 < k div 4 \<and> k div 4 < nr then InvMixColumn (rk ! k) else rk ! k)"
    and "length (inv_mix_keys nr rk) = length rk"
proof -
  let ?f = "\<lambda>i rk. let rk = rk[4 * i := inv_mix_word (rk ! (4 * i))];
           rk = rk[4 * i + 1 := inv_mix_word (rk ! (4 * i + 1))];
           rk = rk[4 * i + 2 := inv_mix_word (rk ! (4 * i + 2))]
       in rk[4 * i + 3 := inv_mix_word (rk ! (4 * i + 3))]"
  have step: "k < length rk \<Longrightarrow> 4 * i + 3 < length rk \<Longrightarrow>
      ?f i rk ! k = (if k div 4 = i then inv_mix_word (rk ! k) else rk ! k)" for i rk k
    unfolding div4_iff Let_def by (auto simp: nth_list_update)
  have "4 * nr \<le> length rk \<Longrightarrow> length (fold ?f [1..<nr] rk) = length rk \<and>
      (\<forall>k < length rk. fold ?f [1..<nr] rk ! k =
        (if 0 < k div 4 \<and> k div 4 < nr then inv_mix_word (rk ! k) else rk ! k))"
  proof (induction nr)
    case (Suc nr)
    show ?case
    proof (cases "nr = 0")
      case False
      have "length (?f nr xs) = length xs" for xs by (simp add: Let_def)
      then show ?thesis using Suc False step[of _ "fold ?f [1..<nr] rk" nr] by (auto simp: less_Suc_eq)
    qed auto
  qed simp
  then show "inv_mix_keys nr rk ! k =
     (if 0 < k div 4 \<and> k div 4 < nr then InvMixColumn (rk ! k) else rk ! k)"
    "length (inv_mix_keys nr rk) = length rk"
    using assms unfolding inv_mix_keys_def inv_mix_word_eq by simp_all
qed

declare invert_order.simps [simp del]

lemma word_index:
  "(k::nat) = 4 * a \<longleftrightarrow> k div 4 = a \<and> k mod 4 = 0" "k = Suc (4 * a) \<longleftrightarrow> k div 4 = a \<and> k mod 4 = 1"
  "k = Suc (Suc (4 * a)) \<longleftrightarrow> k div 4 = a \<and> k mod 4 = 2" "k = 4 * a + 3 \<longleftrightarrow> k div 4 = a \<and> k mod 4 = 3"
  using word_index_iff[of 0 k a] word_index_iff[of 1 k a] word_index_iff[of 2 k a] word_index_iff[of 3 k a]
  by simp_all

lemma word_index_2: "Suc (Suc (4 * a)) div 4 = (a::nat)" "Suc (Suc (4 * a)) mod 4 = (2::nat)"
  using word_index_iff[of 2 "4 * a + 2" a] by simp_all

lemma swap_words_nth:
  "i \<noteq> j \<Longrightarrow> i < length rk \<Longrightarrow> j < length rk \<Longrightarrow> k < length rk \<Longrightarrow>
   swap_words i j rk ! k = (if k = i then rk ! j else if k = j then rk ! i else rk ! k)"
  by (simp add: swap_words_def nth_list_update)

lemma length_swap_words [simp]: "length (swap_words i j rk) = length rk"
  by (simp add: swap_words_def Let_def)

lemma swap4_nth:
  assumes "a < b" and "4 * b + 3 < length rk" and "k < length rk"
  shows "swap_words (4 * a + 3) (4 * b + 3) (swap_words (4 * a + 2) (4 * b + 2)
      (swap_words (4 * a + 1) (4 * b + 1) (swap_words (4 * a) (4 * b) rk))) ! k =
     (if k div 4 = a then rk ! (4 * b + k mod 4) else if k div 4 = b then rk ! (4 * a + k mod 4) else rk ! k)"
proof -
  have b: "4 * a + 3 < length rk" "4 * a < length rk" "4 * b < length rk" "4 * a + 1 < length rk"
    "4 * b + 1 < length rk" "4 * a + 2 < length rk" "4 * b + 2 < length rk"
    using assms by linarith+
  have "k mod 4 = 0 \<or> k mod 4 = 1 \<or> k mod 4 = 2 \<or> k mod 4 = 3" by linarith
  then show ?thesis
    using assms b by (elim disjE) (simp_all add: swap_words_nth word_index word_index_2)
qed

lemma invert_order_nth:
  assumes "4 * b + 3 < length rk" and "k < length rk" and "a \<le> b + 1"
  shows "invert_order (4 * a) (4 * b) rk ! k =
     (if a \<le> k div 4 \<and> k div 4 \<le> b then rk ! (4 * (a + b - k div 4) + k mod 4) else rk ! k)"
    and "length (invert_order (4 * a) (4 * b) rk) = length rk"
proof -
  have "4 * b + 3 < length rk \<Longrightarrow> a \<le> b + 1 \<Longrightarrow>
      length (invert_order (4 * a) (4 * b) rk) = length rk \<and>
      (\<forall>k < length rk. invert_order (4 * a) (4 * b) rk ! k =
        (if a \<le> k div 4 \<and> k div 4 \<le> b then rk ! (4 * (a + b - k div 4) + k mod 4) else rk ! k))"
  proof (induction "b + 1 - a" arbitrary: a b rk rule: less_induct)
    case less
    show ?case
    proof (cases "a < b")
      case True
      define rk' where "rk' = swap_words (4 * a + 3) (4 * b + 3) (swap_words (4 * a + 2) (4 * b + 2)
        (swap_words (4 * a + 1) (4 * b + 1) (swap_words (4 * a) (4 * b) rk)))"
      have e: "invert_order (4 * a) (4 * b) rk = invert_order (4 * (a + 1)) (4 * (b - 1)) rk'"
        using True by (subst invert_order.simps) (simp add: Let_def rk'_def diff_mult_distrib2 add.commute)
      have l: "length rk' = length rk" by (simp add: rk'_def)
      have n: "rk' ! k = (if k div 4 = a then rk ! (4 * b + k mod 4)
          else if k div 4 = b then rk ! (4 * a + k mod 4) else rk ! k)" if "k < length rk" for k
        unfolding rk'_def using swap4_nth[OF True less.prems(1) that] .
      have ih: "length (invert_order (4 * (a + 1)) (4 * (b - 1)) rk') = length rk' \<and>
        (\<forall>k < length rk'. invert_order (4 * (a + 1)) (4 * (b - 1)) rk' ! k =
         (if a + 1 \<le> k div 4 \<and> k div 4 \<le> b - 1
          then rk' ! (4 * (a + 1 + (b - 1) - k div 4) + k mod 4) else rk' ! k))"
        using True less.prems l by (intro less.hyps) auto
      show ?thesis unfolding e
      proof (intro conjI allI impI)
        fix k assume k: "k < length rk"
        consider "k div 4 = a" | "k div 4 = b" | "a + 1 \<le> k div 4 \<and> k div 4 \<le> b - 1" | "k div 4 < a \<or> b < k div 4"
          using True by linarith
        then show "invert_order (4 * (a + 1)) (4 * (b - 1)) rk' ! k =
          (if a \<le> k div 4 \<and> k div 4 \<le> b then rk ! (4 * (a + b - k div 4) + k mod 4) else rk ! k)"
        proof cases
          case 3
          have i: "4 * (a + b - k div 4) + k mod 4 < length rk"
            using 3 less.prems(1) True mod_less_divisor[of 4 k] by linarith
          have d: "(4 * (a + b - k div 4) + k mod 4) div 4 = a + b - k div 4" by simp
          show ?thesis using ih k l 3 True n[OF i] unfolding d by auto
        qed (use ih k l n[OF k] True in auto)
      qed (use ih l in simp)
    next
      case False
      then have "a = b \<or> a = b + 1" using less.prems by auto
      then show ?thesis by (subst (1 2) invert_order.simps) auto
    qed
  qed
  then show "invert_order (4 * a) (4 * b) rk ! k =
     (if a \<le> k div 4 \<and> k div 4 \<le> b then rk ! (4 * (a + b - k div 4) + k mod 4) else rk ! k)"
    "length (invert_order (4 * a) (4 * b) rk) = length rk"
    using assms by simp_all
qed

text \<open>The key lengths that \<open>AesSetKey\<close> accepts.\<close>

definition key_size :: "nat \<Rightarrow> bool" where
  "key_size n = (n = 16 \<or> n = 24 \<or> n = 32)"

definition rounds_of :: "u8 list \<Rightarrow> nat" where
  "rounds_of key = length key div 4 + 6"

lemma key_size_cases:
  assumes "key_size (length key)"
  obtains "length key = 16" "rounds_of key = 10" | "length key = 24" "rounds_of key = 12"
    | "length key = 32" "rounds_of key = 14"
  using assms by (auto simp: key_size_def rounds_of_def)

lemma AesSetKeyLocal_eq:
  assumes "key_size (length key)" and "length (aes_key aes) = 60"
  obtains rk rn where
    "AesSetKeyLocal aes key (of_nat (length key)) iv dir =
       do { (a, res) \<leftarrow> AesSetIV (Some (aes\<lparr>aes_rounds := rn, aes_key :=
              (if dir = AES_DECRYPTION then inv_mix_keys (rounds_of key) (invert_order 0 (4 * rounds_of key) rk)
               else rk)\<rparr>)) iv;
            a' \<leftarrow> a; Some (a', res) }"
    "unat rn = rounds_of key"
    "expanded (length key div 4) (key_words key) (4 * (rounds_of key + 1)) rk"
proof -
  let ?n = "length key" and ?nk = "length key div 4"
  let ?w = "of_nat ?n :: u32"
  define rk0 where "rk0 = ByteReverseWords (words_of (key @ drop ?n (bytes_of (aes_key aes)))) ?n"
  define rk where "rk = (if ?n = 16 then key16 0 0 rk0 else if ?n = 24 then key24 0 0 rk0 else key32 0 0 rk0)"
  have n4: "4 * ?nk = ?n" using assms(1) by (auto simp: key_size_def)
  have "expanded ?nk (key_words key) ?nk rk0"
    using user_key_expanded[of key ?nk "aes_key aes"] assms n4 unfolding rk0_def by (auto simp: key_size_def)
  then have ex: "expanded ?nk (key_words key) (4 * (rounds_of key + 1)) rk"
    by (rule_tac key_size_cases[OF assms(1)])
      (use key16_expanded[of "key_words key" 0 rk0] key24_expanded[of "key_words key" 0 rk0]
        key32_expanded[of "key_words key" 0 rk0] in \<open>simp_all add: rk_def\<close>)
  have u: "unat ?w = ?n" using assms(1) by (auto simp: key_size_def)
  have rn: "unat (?w div 4 + 6) = rounds_of key"
    using assms(1) by (auto simp: key_size_def rounds_of_def)
  have mc: "memcpy_at (bytes_of (aes_key aes)) 0 key 0 ?n = Some (key @ drop ?n (bytes_of (aes_key aes)))"
    using assms by (auto simp: memcpy_at_Some key_size_def)
  have sw: "(if ?n = 16 then key16 0 0 rk0 else if ?n = 24 then key24 0 0 rk0
      else if ?n = 32 then key32 0 0 rk0 else rk0) = rk" "\<not> (?n \<noteq> 16 \<and> ?n \<noteq> 24 \<and> ?n \<noteq> 32)"
    using assms(1) by (auto simp: rk_def key_size_def)
  have sel: "aes_key (aes\<lparr>aes_rounds := x\<rparr>) = aes_key aes" "aes_rounds (aes\<lparr>aes_rounds := x\<rparr>) = x" for x
    by simp_all
  have "AesSetKeyLocal aes key ?w iv dir =
       do { (a, res) \<leftarrow> AesSetIV (Some (aes\<lparr>aes_rounds := ?w div 4 + 6, aes_key :=
              (if dir = AES_DECRYPTION then inv_mix_keys (rounds_of key) (invert_order 0 (4 * rounds_of key) rk)
               else rk)\<rparr>)) iv;
            a' \<leftarrow> a; Some (a', res) }"
    unfolding AesSetKeyLocal_def Let_def u
    by (simp only: sel mc bind.simps rk0_def[symmetric] sw if_False rn)
  then show thesis using that ex rn by blast
qed

text \<open>What a structure holds once the key is set, for encryption and for decryption.\<close>

definition enc_ready :: "u8 list \<Rightarrow> Aes \<Rightarrow> bool" where
  "enc_ready key a = (unat (aes_rounds a) = rounds_of key \<and>
     (\<forall>i \<le> rounds_of key. round_key (aes_key a) i = KeyExpansion key i))"

definition dec_ready :: "u8 list \<Rightarrow> Aes \<Rightarrow> bool" where
  "dec_ready key a = (unat (aes_rounds a) = rounds_of key \<and>
     (\<forall>i \<le> rounds_of key. round_key (aes_key a) i =
        (if 0 < i \<and> i < rounds_of key then each InvMixColumn (KeyExpansion key (rounds_of key - i))
         else KeyExpansion key (rounds_of key - i))))"

lemma expanded_round_key:
  assumes "expanded (length key div 4) (key_words key) (4 * (nr + 1)) rk" and "i \<le> nr"
  shows "round_key rk i = KeyExpansion key i"
  using assms by (simp add: round_key_def KeyExpansion_def Let_def expanded_nth)

lemma AesSetKey_local: "key_size (length key) \<Longrightarrow>
    AesSetKey aes key (of_nat (length key)) iv dir = AesSetKeyLocal aes key (of_nat (length key)) iv dir"
  by (auto simp: AesSetKey_def key_size_def)

lemma AesSetKey_encryption:
  assumes "key_size (length key)" and "length (aes_key aes) = 60" and "16 \<le> length iv"
  obtains a where "AesSetKey aes key (of_nat (length key)) (Some iv) AES_ENCRYPTION = Some (a, 0)"
    "enc_ready key a" "aes_reg a = take 16 iv"
proof -
  obtain rk rn where s: "AesSetKeyLocal aes key (of_nat (length key)) (Some iv) AES_ENCRYPTION =
       do { (a, res) \<leftarrow> AesSetIV (Some (aes\<lparr>aes_rounds := rn, aes_key :=
              (if AES_ENCRYPTION = AES_DECRYPTION then inv_mix_keys (rounds_of key) (invert_order 0 (4 * rounds_of key) rk)
               else rk)\<rparr>)) (Some iv);
            a' \<leftarrow> a; Some (a', res) }"
    and rn: "unat rn = rounds_of key"
    and ex: "expanded (length key div 4) (key_words key) (4 * (rounds_of key + 1)) rk"
    by (rule AesSetKeyLocal_eq[OF assms(1,2)])
  let ?a = "aes\<lparr>aes_rounds := rn, aes_key := rk, aes_reg := take 16 iv\<rparr>"
  have "AesSetKey aes key (of_nat (length key)) (Some iv) AES_ENCRYPTION = Some (?a, 0)"
    using assms s by (simp add: AesSetKey_local AesSetIV_def mem_simps)
  moreover have "enc_ready key ?a"
    using rn expanded_round_key[OF ex] by (simp add: enc_ready_def)
  ultimately show thesis using that by simp
qed

lemma decryption_round_key:
  assumes "expanded (length key div 4) (key_words key) (4 * (nr + 1)) rk" and "i \<le> nr" and "nr \<le> 14"
  shows "round_key (inv_mix_keys nr (invert_order 0 (4 * nr) rk)) i =
    (if 0 < i \<and> i < nr then each InvMixColumn (KeyExpansion key (nr - i)) else KeyExpansion key (nr - i))"
proof -
  let ?r = "invert_order 0 (4 * nr) rk"
  have l: "length rk = 60" using assms(1) by (simp add: expanded_def)
  have lr: "length ?r = 60" using invert_order_nth(2)[of nr rk 0 0] l assms(3) by simp
  have w: "inv_mix_keys nr ?r ! (4 * i + c) =
      (if 0 < i \<and> i < nr then InvMixColumn (rk ! (4 * (nr - i) + c)) else rk ! (4 * (nr - i) + c))" if "c < 4" for c
  proof -
    have d: "(4 * i + c) div 4 = i" "(4 * i + c) mod 4 = c" using that by simp_all
    have "?r ! (4 * i + c) = rk ! (4 * (nr - i) + c)"
      using invert_order_nth(1)[of nr rk "4 * i + c" 0] l assms(2,3) that unfolding d by simp
    moreover have "inv_mix_keys nr ?r ! (4 * i + c) =
        (if 0 < i \<and> i < nr then InvMixColumn (?r ! (4 * i + c)) else ?r ! (4 * i + c))"
      using inv_mix_keys_nth(1)[of nr ?r "4 * i + c"] lr assms(2,3) that unfolding d by simp
    ultimately show ?thesis by (simp only:)
  qed
  have "round_key (inv_mix_keys nr ?r) i =
      (if 0 < i \<and> i < nr then each InvMixColumn (round_key rk (nr - i)) else round_key rk (nr - i))"
    using w[of 0] w[of 1] w[of 2] w[of 3] by (simp add: round_key_def)
  then show ?thesis using expanded_round_key[OF assms(1) diff_le_self[of nr i]] by (simp only:)
qed

lemma AesSetKey_decryption:
  assumes "key_size (length key)" and "length (aes_key aes) = 60" and "16 \<le> length iv"
  obtains a where "AesSetKey aes key (of_nat (length key)) (Some iv) AES_DECRYPTION = Some (a, 0)"
    "dec_ready key a" "aes_reg a = take 16 iv"
proof -
  obtain rk rn where s: "AesSetKeyLocal aes key (of_nat (length key)) (Some iv) AES_DECRYPTION =
       do { (a, res) \<leftarrow> AesSetIV (Some (aes\<lparr>aes_rounds := rn, aes_key :=
              (if AES_DECRYPTION = AES_DECRYPTION then inv_mix_keys (rounds_of key) (invert_order 0 (4 * rounds_of key) rk)
               else rk)\<rparr>)) (Some iv);
            a' \<leftarrow> a; Some (a', res) }"
    and rn: "unat rn = rounds_of key"
    and ex: "expanded (length key div 4) (key_words key) (4 * (rounds_of key + 1)) rk"
    by (rule AesSetKeyLocal_eq[OF assms(1,2)])
  have nr: "rounds_of key \<le> 14" by (rule key_size_cases[OF assms(1)]) simp_all
  let ?a = "aes\<lparr>aes_rounds := rn, aes_key := inv_mix_keys (rounds_of key) (invert_order 0 (4 * rounds_of key) rk),
    aes_reg := take 16 iv\<rparr>"
  have "AesSetKey aes key (of_nat (length key)) (Some iv) AES_DECRYPTION = Some (?a, 0)"
    using assms s by (simp add: AesSetKey_local AesSetIV_def mem_simps)
  moreover have "dec_ready key ?a"
    using rn decryption_round_key[OF ex] nr by (simp add: dec_ready_def)
  ultimately show thesis using that by simp
qed

lemma Cipher_cong: "(\<And>i. i \<le> nr \<Longrightarrow> k i = k' i) \<Longrightarrow> 0 < nr \<Longrightarrow> Cipher nr k s = Cipher nr k' s"
proof -
  assume eq: "\<And>i. i \<le> nr \<Longrightarrow> k i = k' i" and nr: "0 < nr"
  have "i + n \<le> nr + 1 \<Longrightarrow> full_rounds k i n s = full_rounds k' i n s" for i n s
    using eq by (induction n arbitrary: i s) auto
  then show ?thesis using eq nr by (simp add: Cipher_def)
qed

lemma InvCipher_cong: "(\<And>i. i \<le> nr \<Longrightarrow> k i = k' i) \<Longrightarrow> 0 < nr \<Longrightarrow> InvCipher nr k s = InvCipher nr k' s"
proof -
  assume eq: "\<And>i. i \<le> nr \<Longrightarrow> k i = k' i" and nr: "0 < nr"
  have "i + n \<le> nr + 1 \<Longrightarrow> inv_rounds k i n s = inv_rounds k' i n s" for i n s
    using eq by (induction n arbitrary: i s) auto
  then show ?thesis using eq nr by (simp add: InvCipher_def)
qed

lemma AesEncrypt_ready:
  assumes "key_size (length key)" and "enc_ready key a"
  shows "AesEncrypt a x out = block_out (Cipher (rounds_of key) (KeyExpansion key) (block_in x))"
proof -
  obtain r where r: "rounds_of key = 2 * Suc r" "r < 7"
    by (rule key_size_cases[OF assms(1)]; rule that[of "rounds_of key div 2 - 1"]; simp)
  have "AesEncrypt a x out = block_out (Cipher (rounds_of key) (round_key (aes_key a)) (block_in x))"
    unfolding r(1) using assms(2) r by (intro AesEncrypt_Cipher) (simp_all add: enc_ready_def)
  also have "Cipher (rounds_of key) (round_key (aes_key a)) (block_in x) =
      Cipher (rounds_of key) (KeyExpansion key) (block_in x)"
    using assms(2) r by (intro Cipher_cong) (simp_all add: enc_ready_def)
  finally show ?thesis .
qed

text \<open>Decryption with the schedule set for decryption undoes encryption.\<close>

lemma AesDecrypt_ready:
  assumes "key_size (length key)" and "dec_ready key a"
  shows "AesDecrypt a (block_out (Cipher (rounds_of key) (KeyExpansion key) s)) out = block_out s"
proof -
  obtain r where r: "rounds_of key = 2 * Suc r" "r < 7"
    by (rule key_size_cases[OF assms(1)]; rule that[of "rounds_of key div 2 - 1"]; simp)
  let ?c = "Cipher (rounds_of key) (KeyExpansion key) s"
  have "AesDecrypt a (block_out ?c) out = block_out (InvCipher (rounds_of key) (round_key (aes_key a)) ?c)"
    unfolding r(1) using assms(2) r AesDecrypt_InvCipher[of a r "block_out ?c" out]
    by (simp add: dec_ready_def)
  also have "InvCipher (rounds_of key) (round_key (aes_key a)) ?c = s"
    using assms(2) r by (intro InvCipher_Cipher) (auto simp: dec_ready_def)
  finally show ?thesis .
qed

end
