(* ===== verification/AesCbc.thy ===== *)
theory AesCbc
  imports AesKey
begin

text \<open>
  CBC mode: \<open>cbc_encrypt\<close> and \<open>cbc_decrypt\<close> on lists of bytes over any block cipher (the locale
  \<open>block_cipher\<close>, interpreted on the AES functions of \<open>src/src/crypto/aes_cbc.c\<close>), and the loops of \<open>AesCbcEncrypt\<close> and
  \<open>AesCbcDecrypt\<close> over memory, which compute them.
\<close>

section \<open>CBC mode as a function on bytes\<close>

definition xor_bytes :: "u8 list \<Rightarrow> u8 list \<Rightarrow> u8 list" where
  "xor_bytes = map2 (XOR)"

fun cbc_encrypt :: "(u8 list \<Rightarrow> u8 list) \<Rightarrow> u8 list \<Rightarrow> nat \<Rightarrow> u8 list \<Rightarrow> u8 list" where
  "cbc_encrypt E iv 0 xs = []"
| "cbc_encrypt E iv (Suc n) xs =
     (let c = E (xor_bytes iv (take 16 xs)) in c @ cbc_encrypt E c n (drop 16 xs))"

fun cbc_decrypt :: "(u8 list \<Rightarrow> u8 list) \<Rightarrow> u8 list \<Rightarrow> nat \<Rightarrow> u8 list \<Rightarrow> u8 list" where
  "cbc_decrypt D iv 0 xs = []"
| "cbc_decrypt D iv (Suc n) xs =
     xor_bytes (D (take 16 xs)) iv @ cbc_decrypt D (take 16 xs) n (drop 16 xs)"

lemma xor_bytes_cancel: "length a = length b \<Longrightarrow> xor_bytes (xor_bytes a b) a = b"
  by (induction a b rule: list_induct2) (simp_all add: xor_bytes_def xor.commute xor.left_commute)

lemma length_xor_bytes [simp]: "length (xor_bytes a b) = min (length a) (length b)"
  by (simp add: xor_bytes_def)

text \<open>The contract of a block cipher, with blocks of 16 bytes.\<close>

locale block_cipher =
  fixes enc dec :: "'k \<Rightarrow> u8 list \<Rightarrow> u8 list" and valid :: "'k \<Rightarrow> bool"
  assumes enc_length: "valid k \<Longrightarrow> length x = 16 \<Longrightarrow> length (enc k x) = 16"
    and dec_enc: "valid k \<Longrightarrow> length x = 16 \<Longrightarrow> dec k (enc k x) = x"
begin

lemma cbc_length:
  "valid k \<Longrightarrow> length iv = 16 \<Longrightarrow> length xs = 16 * n \<Longrightarrow> length (cbc_encrypt (enc k) iv n xs) = 16 * n"
  by (induction n arbitrary: iv xs) (simp_all add: Let_def enc_length)

lemma cbc_roundtrip:
  assumes "valid k" and "length iv = 16" and "length xs = 16 * n"
  shows "cbc_decrypt (dec k) iv n (cbc_encrypt (enc k) iv n xs) = xs"
  using assms(2,3)
proof (induction n arbitrary: iv xs)
  case (Suc n)
  let ?b = "take 16 xs" and ?c = "enc k (xor_bytes iv (take 16 xs))"
  have l: "length ?b = 16" "length (xor_bytes iv ?b) = 16" using Suc.prems by simp_all
  then have c: "length ?c = 16" using assms(1) by (simp add: enc_length)
  have "cbc_decrypt (dec k) iv (Suc n) (cbc_encrypt (enc k) iv (Suc n) xs) =
        xor_bytes (xor_bytes iv ?b) iv @ cbc_decrypt (dec k) ?c n (cbc_encrypt (enc k) ?c n (drop 16 xs))"
    using c l dec_enc[OF assms(1), of "xor_bytes iv ?b"] by (simp add: Let_def)
  also have "\<dots> = ?b @ drop 16 xs"
    using Suc.IH[OF c, of "drop 16 xs"] Suc.prems l by (simp add: xor_bytes_cancel)
  finally show ?case by simp
qed simp

end

section \<open>AES as a block cipher\<close>

definition aes_block :: "u8 list \<Rightarrow> u8 list \<Rightarrow> u8 list" where
  "aes_block key x = block_out (Cipher (rounds_of key) (KeyExpansion key) (block_in x))"

text \<open>A structure set up for decryption, from any initial contents of the right size.\<close>

definition blank_aes :: Aes where
  "blank_aes = \<lparr>aes_key = replicate 60 0, aes_rounds = 0, aes_reg = replicate 16 0, aes_tmp = replicate 16 0\<rparr>"

definition aes_unblock :: "u8 list \<Rightarrow> u8 list \<Rightarrow> u8 list" where
  "aes_unblock key x =
     (case AesSetKey blank_aes key (of_nat (length key)) (Some (replicate 16 0)) AES_DECRYPTION of
        Some (a, _) \<Rightarrow> AesDecrypt a x x
      | None \<Rightarrow> x)"

lemma list16:
  assumes "length x = 16"
  obtains x0 x1 x2 x3 x4 x5 x6 x7 x8 x9 x10 x11 x12 x13 x14 x15
  where "x = [x0, x1, x2, x3, x4, x5, x6, x7, x8, x9, x10, x11, x12, x13, x14, x15]"
  using assms by (auto simp: numeral_eq_Suc length_Suc_conv)

lemma block_out_in:
  assumes "length x = 16"
  shows "block_out (block_in x) = x"
  by (rule list16[OF assms]) (simp add: block_in_def le32_pack4 load32_at_pack4)

lemma length_block_out [simp]: "length (block_out s) = 16"
  by (cases s) (simp add: le32_def)

lemma AesDecrypt_cong:
  "aes_key a = aes_key b \<Longrightarrow> aes_rounds a = aes_rounds b \<Longrightarrow> AesDecrypt a x out = AesDecrypt b x out"
  by (simp add: AesDecrypt_def)

lemma dec_ready_unique:
  assumes "key_size (length key)" and "dec_ready key a"
  shows "AesDecrypt a x out = block_out (InvCipher (rounds_of key)
    (\<lambda>i. if 0 < i \<and> i < rounds_of key then each InvMixColumn (KeyExpansion key (rounds_of key - i))
         else KeyExpansion key (rounds_of key - i)) (block_in x))"
proof -
  obtain r where r: "rounds_of key = 2 * Suc r" "r < 7"
    by (rule key_size_cases[OF assms(1)]; rule that[of "rounds_of key div 2 - 1"]; simp)
  have "AesDecrypt a x out = block_out (InvCipher (rounds_of key) (round_key (aes_key a)) (block_in x))"
    unfolding r(1) using assms(2) r by (intro AesDecrypt_InvCipher) (simp_all add: dec_ready_def)
  also have "InvCipher (rounds_of key) (round_key (aes_key a)) (block_in x) = InvCipher (rounds_of key)
    (\<lambda>i. if 0 < i \<and> i < rounds_of key then each InvMixColumn (KeyExpansion key (rounds_of key - i))
         else KeyExpansion key (rounds_of key - i)) (block_in x)"
    using assms(2) r by (intro InvCipher_cong) (simp_all add: dec_ready_def)
  finally show ?thesis .
qed

lemma AesDecrypt_unblock:
  assumes "key_size (length key)" and "dec_ready key a"
  shows "AesDecrypt a x out = aes_unblock key x"
proof -
  obtain b where b: "AesSetKey blank_aes key (of_nat (length key)) (Some (replicate 16 0)) AES_DECRYPTION = Some (b, 0)"
    "dec_ready key b"
    by (rule AesSetKey_decryption[OF assms(1), of blank_aes "replicate 16 0"]) (simp_all add: blank_aes_def)
  show ?thesis
    using dec_ready_unique[OF assms] dec_ready_unique[OF assms(1) b(2)] b(1) by (simp add: aes_unblock_def)
qed

interpretation aes: block_cipher aes_block aes_unblock "\<lambda>key. key_size (length key)"
proof
  fix key x :: "u8 list"
  assume k: "key_size (length key)" and x: "length x = 16"
  show "length (aes_block key x) = 16" by (simp add: aes_block_def)
  obtain b where b: "AesSetKey blank_aes key (of_nat (length key)) (Some (replicate 16 0)) AES_DECRYPTION = Some (b, 0)"
    "dec_ready key b"
    by (rule AesSetKey_decryption[OF k, of blank_aes "replicate 16 0"]) (simp_all add: blank_aes_def)
  have "aes_unblock key (aes_block key x) = AesDecrypt b (aes_block key x) x"
    using AesDecrypt_unblock[OF k b(2)] by simp
  then show "aes_unblock key (aes_block key x) = x"
    using AesDecrypt_ready[OF k b(2), of "block_in x"] x by (simp add: aes_block_def block_out_in)
qed

section \<open>The exclusive or of buffers\<close>

lemma fold_xor_loop:
  fixes r a :: "'a::len word list"
  assumes "n \<le> length r"
  shows "fold (\<lambda>i r. r[i := r ! i XOR a ! i]) [0..<n] r = map (\<lambda>i. r ! i XOR a ! i) [0..<n] @ drop n r"
  using assms
proof (induction n)
  case (Suc n)
  let ?h = "map (\<lambda>i. r ! i XOR a ! i) [0..<n]"
  have "(?h @ drop n r)[n := (?h @ drop n r) ! n XOR a ! n] = ?h @ (drop n r)[0 := r ! n XOR a ! n]"
    using Suc.prems by (simp add: list_update_append nth_append)
  also have "(drop n r)[0 := r ! n XOR a ! n] = (r ! n XOR a ! n) # drop (Suc n) r"
    using Suc.prems by (simp add: Cons_nth_drop_Suc[symmetric])
  finally show ?case using Suc by simp
qed simp

lemma fold_xor_map2:
  fixes r a :: "'a::len word list"
  assumes "length r = n" and "length a = n"
  shows "fold (\<lambda>i r. r[i := r ! i XOR a ! i]) [0..<n] r = map2 (XOR) r a"
  unfolding fold_xor_loop[of n r a, OF eq_refl[OF assms(1)[symmetric]]]
  using assms by (intro nth_equalityI) simp_all

lemma le32_xor: "le32 (v XOR w) = map2 (XOR) (le32 v) (le32 w)"
proof -
  obtain a b c d where v: "v = pack4 a b c d" by (rule pack4_cases)
  obtain a' b' c' d' where w: "w = pack4 a' b' c' d'" by (rule pack4_cases)
  show ?thesis unfolding v w by (simp add: pack4_xor le32_pack4)
qed

lemma bytes_of_xor:
  "length v = length w \<Longrightarrow> bytes_of (map2 (XOR) v w) = xor_bytes (bytes_of v) (bytes_of w)"
proof (induction v w rule: list_induct2)
  case (Cons a v b w)
  have "length (le32 a) = length (le32 b)" by (simp add: le32_def)
  then show ?case using Cons by (simp add: bytes_of_def xor_bytes_def le32_xor)
qed (simp add: bytes_of_def xor_bytes_def)

text \<open>The aligned and the unaligned loop compute the same.\<close>

lemma xorbuf_eq:
  assumes "length buf = 16" and "length msk = 16"
  shows "xorbuf bufp maskp buf msk 16 = xor_bytes buf msk"
proof -
  have w: "length (words_of buf) = 4" "length (words_of msk) = 4"
    using assms by (simp_all add: length_words_of)
  have "bytes_of (XorWords (words_of buf) (words_of msk) 4) = xor_bytes buf msk"
    unfolding XorWords_def fold_xor_map2[OF w] using w assms
    by (simp add: bytes_of_xor bytes_of_words_of[of _ 4])
  then show ?thesis
    using fold_xor_map2[OF assms] by (simp add: xorbuf_def xor_bytes_def)
qed

section \<open>The loops over memory\<close>

text \<open>The room behind a pointer.\<close>

definition room :: "arrays \<Rightarrow> ptr \<Rightarrow> nat \<Rightarrow> bool" where
  "room m p n = (snd p + n \<le> length (m (fst p)))"

lemma load_append:
  "load m p (n + k) = do { xs \<leftarrow> load m p n; ys \<leftarrow> load m (advance p n) k; Some (xs @ ys) }"
proof (cases p)
  case (Pair b i)
  have "take (n + k) (drop i (m b)) = take n (drop i (m b)) @ take k (drop (i + n) (m b))"
    unfolding take_add drop_drop by (simp only: add.commute)
  then show ?thesis by (simp add: Pair read_range_def)
qed

lemma store_append:
  "store m p (xs @ ys) = do { m \<leftarrow> store m p xs; store m (advance p (length xs)) ys }"
  by (cases p) (auto simp: write_range_def add.commute add.left_commute)

lemma store_Some: "room m p (length xs) \<Longrightarrow> \<exists>m'. store m p xs = Some m'"
  by (cases p) (simp add: room_def write_range_def)

lemma load_Some: "room m p n \<Longrightarrow> \<exists>xs. load m p n = Some xs \<and> length xs = n"
  by (cases p) (simp add: room_def read_range_def)

lemma load_length: "load m p n = Some xs \<Longrightarrow> length xs = n \<and> room m p n"
  by (cases p) (auto simp: room_def read_range_def split: if_splits)

lemma store_frame:
  assumes "store m p xs = Some m'"
  shows "length (m' b) = length (m b)" and "b \<noteq> fst p \<Longrightarrow> m' b = m b"
    and "room m' q n = room m q n"
  using assms by (cases p; auto simp: write_range_def room_def split: if_splits)+

lemma load_store:
  assumes "store m p xs = Some m'"
  shows "load m' p (length xs) = Some xs"
  using assms by (cases p) (auto simp: write_range_def read_range_def split: if_splits)

lemma load_store_other:
  assumes "store m p xs = Some m'" and "fst q \<noteq> fst p \<or> snd p + length xs \<le> snd q"
  shows "load m' q n = load m q n"
  using assms by (cases p; cases q) (auto simp: write_range_def read_range_def split: if_splits)

lemma load_store_before:
  assumes "store m p xs = Some m'" and "snd q + n \<le> snd p"
  shows "load m' q n = load m q n"
  using assms
  by (cases p; cases q) (auto simp: write_range_def read_range_def drop_take min_def split: if_splits)

lemma store_store:
  assumes "store m p xs = Some m'" and "length ys = length xs"
  shows "store m' p ys = store m p ys"
  using assms by (cases p) (auto simp: write_range_def split: if_splits)

lemma load_prefix: "load m p n = Some xs \<Longrightarrow> k \<le> n \<Longrightarrow> load m p k = Some (take k xs)"
  by (cases p) (auto simp: read_range_def split: if_splits)

lemma load_block:
  assumes "load m p (16 * Suc n) = Some xs"
  shows "load m p 16 = Some (take 16 xs)" and "load m (advance p 16) (16 * n) = Some (drop 16 xs)"
  using assms load_append[of m p 16 "16 * n"] load_length[of m p 16]
  by (auto split: Option.bind_splits)

lemma room_advance: "room m p (n + k) \<Longrightarrow> room m p n \<and> room m (advance p n) k"
  by (cases p) (auto simp: room_def)

lemma AesEncrypt_block:
  "key_size (length key) \<Longrightarrow> enc_ready key a \<Longrightarrow> AesEncrypt a x out = aes_block key x"
  by (simp add: AesEncrypt_ready aes_block_def)

lemma ready_update [simp]:
  "enc_ready key (a\<lparr>aes_reg := x\<rparr>) = enc_ready key a" "dec_ready key (a\<lparr>aes_reg := x\<rparr>) = dec_ready key a"
  "dec_ready key (a\<lparr>aes_tmp := x\<rparr>) = dec_ready key a"
  by (simp_all add: enc_ready_def dec_ready_def)

text \<open>The output may go elsewhere or over the input.\<close>

lemma cbc_enc_loop_eq:
  assumes k: "key_size (length key)"
  shows "enc_ready key a \<Longrightarrow> length (aes_reg a) = 16 \<Longrightarrow> load m inp (16 * n) = Some xs \<Longrightarrow>
     room m out (16 * n) \<Longrightarrow> fst out \<noteq> fst inp \<or> out = inp \<Longrightarrow>
     \<exists>a' m'. cbc_enc_loop base regp n a out inp m = Some (a', m') \<and>
       store m out (cbc_encrypt (aes_block key) (aes_reg a) n xs) = Some m'"
proof (induction n arbitrary: a m inp out xs)
  case 0
  then show ?case by (cases out) (auto simp: room_def write_range_def)
next
  case (Suc n)
  let ?b = "take 16 xs" and ?c = "aes_block key (xor_bytes (aes_reg a) (take 16 xs))"
  have l: "load m inp 16 = Some ?b" "load m (advance inp 16) (16 * n) = Some (drop 16 xs)" "length ?b = 16"
    using load_block[OF Suc.prems(3)] load_length[OF Suc.prems(3)] by simp_all
  have r: "room m out 16" "room m (advance out 16) (16 * n)"
    using room_advance[of m out 16 "16 * n"] Suc.prems(4) by simp_all
  have c: "length ?c = 16" using aes.enc_length[OF k] Suc.prems(2) l(3) by simp
  then obtain m1 where m1: "store m out ?c = Some m1" using r(1) store_Some[of m out ?c] by auto
  define a1 where "a1 = a\<lparr>aes_reg := ?c\<rparr>"
  have step: "cbc_enc_loop base regp (Suc n) a out inp m =
      cbc_enc_loop base regp n a1 (advance out 16) (advance inp 16) m1"
    using l Suc.prems(1,2) m1 by (simp add: xorbuf_eq AesEncrypt_block[OF k] a1_def)
  have "load m1 (advance inp 16) (16 * n) = Some (drop 16 xs)"
    using load_store_other[OF m1, of "advance inp 16"] Suc.prems(5) l(2) c by (cases inp) auto
  then obtain a' m' where "cbc_enc_loop base regp n a1 (advance out 16) (advance inp 16) m1 = Some (a', m')"
      "store m1 (advance out 16) (cbc_encrypt (aes_block key) ?c n (drop 16 xs)) = Some m'"
    using Suc.IH[of a1 m1 "advance inp 16" "drop 16 xs" "advance out 16"] Suc.prems(1,5) c r(2)
      store_frame(3)[OF m1]
    by (cases inp; cases out) (auto simp: a1_def)
  then show ?case using step m1 c by (auto simp: Let_def store_append)
qed

lemma cbc_dec_loop_eq:
  assumes k: "key_size (length key)"
  shows "dec_ready key a \<Longrightarrow> length (aes_reg a) = 16 \<Longrightarrow> load m inp (16 * n) = Some xs \<Longrightarrow>
     room m out (16 * n) \<Longrightarrow> fst out \<noteq> fst inp \<or> out = inp \<Longrightarrow>
     \<exists>a' m'. cbc_dec_loop base regp n a out inp m = Some (a', m') \<and>
       store m out (cbc_decrypt (aes_unblock key) (aes_reg a) n xs) = Some m'"
proof (induction n arbitrary: a m inp out xs)
  case 0
  then show ?case by (cases out) (auto simp: room_def write_range_def)
next
  case (Suc n)
  let ?b = "take 16 xs" and ?d = "aes_unblock key (take 16 xs)"
  let ?x = "xor_bytes ?d (aes_reg a)"
  have l: "load m inp 16 = Some ?b" "load m (advance inp 16) (16 * n) = Some (drop 16 xs)" "length ?b = 16"
    using load_block[OF Suc.prems(3)] load_length[OF Suc.prems(3)] by simp_all
  have r: "room m out 16" "room m (advance out 16) (16 * n)"
    using room_advance[of m out 16 "16 * n"] Suc.prems(4) by simp_all
  have d: "length ?d = 16"
    unfolding AesDecrypt_unblock[OF k Suc.prems(1), of ?b ?b, symmetric] dec_ready_unique[OF k Suc.prems(1)] by simp
  then have x: "length ?x = 16" using Suc.prems(2) by simp
  obtain m1 where m1: "store m out ?d = Some m1" using d r(1) store_Some[of m out ?d] by auto
  obtain m2 where m2: "store m out ?x = Some m2" using x r(1) store_Some[of m out ?x] by auto
  obtain ob where ob: "load m out 16 = Some ob" using load_Some[OF r(1)] by auto
  have m2': "store m1 out ?x = Some m2" using store_store[OF m1, of ?x] m2 d x by simp
  define a1 where "a1 = a\<lparr>aes_tmp := ?b, aes_reg := ?b\<rparr>"
  have "load m1 out 16 = Some ?d" using load_store[OF m1] d by simp
  then have step: "cbc_dec_loop base regp (Suc n) a out inp m =
      cbc_dec_loop base regp n a1 (advance out 16) (advance inp 16) m2"
    using l Suc.prems(1,2) ob m1 m2' d by (simp add: xorbuf_eq AesDecrypt_unblock[OF k] a1_def)
  have "load m2 (advance inp 16) (16 * n) = Some (drop 16 xs)"
    using load_store_other[OF m2, of "advance inp 16"] Suc.prems(5) l(2) x by (cases inp) auto
  then obtain a' m' where "cbc_dec_loop base regp n a1 (advance out 16) (advance inp 16) m2 = Some (a', m')"
      "store m2 (advance out 16) (cbc_decrypt (aes_unblock key) ?b n (drop 16 xs)) = Some m'"
    using Suc.IH[of a1 m2 "advance inp 16" "drop 16 xs" "advance out 16"] Suc.prems(1,5) l(3) r(2)
      store_frame(3)[OF m2]
    by (cases inp; cases out) (auto simp: a1_def)
  then show ?case using step m2 x by (auto simp: store_append)
qed

end
