(* ===== verification/AesExternal.thy ===== *)
theory AesExternal
  imports AesCbc
begin

text \<open>
  The external functions \<open>aes_encrypt\<close> and \<open>aes_decrypt\<close> of \<open>src/src/crypto/aes_cbc.c\<close>: padding, the
  buffers of the caller, and the properties of the whole path from key and plain text to cipher text and back.
\<close>

section \<open>The external functions\<close>

lemma padded_length_nat:
  "padded_length (int n) = int (if n mod 16 = 0 then n else (n div 16 + 1) * 16)"
proof -
  have "int n sdiv 16 = int (n div 16)" by (cases "n = 0") (simp_all add: signed_divide_int_def zdiv_int)
  moreover have "int n = int (n div 16) * 16 \<longleftrightarrow> n mod 16 = 0"
  proof -
    have "int n = int (n div 16 * 16 + n mod 16)" by (simp only: div_mult_mod_eq)
    then have "int n = int (n div 16) * 16 + int (n mod 16)" by (simp only: of_nat_add of_nat_mult of_nat_numeral)
    then show ?thesis by linarith
  qed
  ultimately show ?thesis by (simp add: padded_length_def)
qed

lemma unat_blocks:
  assumes "16 * n < 2 ^ 32"
  shows "unat (of_nat (16 * n) div 16 :: u32) = n"
proof -
  have "unat (of_nat (16 * n) :: u32) = 16 * n"
    unfolding unat_of_nat using assms by simp
  then show ?thesis by (simp only: unat_div) simp
qed

lemma key_length_word: "word_of_int (int n) = (of_nat n :: u32)"
  by simp

text \<open>What the caller has to provide: the plain text, and room for what \<open>aes_encrypt\<close> writes.\<close>

definition cipher_length :: "nat \<Rightarrow> nat" where
  "cipher_length n = (n div 16 + 1) * 16"

definition padded :: "u8 list \<Rightarrow> u8 list" where
  "padded xs = (let k = cipher_length (length xs) - length xs in xs @ replicate k (of_nat k))"

definition write_extent :: "nat \<Rightarrow> nat" where
  "write_extent n = (if n mod 16 = 0 then n + 32 else cipher_length n)"

lemma cipher_length_mod: "cipher_length n + n mod 16 = n + 16"
  using div_mult_mod_eq[of n 16] by (simp add: cipher_length_def)

lemma cipher_length_bounds: "n < cipher_length n" "cipher_length n \<le> n + 16"
  using cipher_length_mod[of n] mod_less_divisor[of 16 n] by linarith+

text \<open>The length rounded up, which \<open>maxOutLen\<close> is compared with.\<close>

lemma rounded_up: "16 * ((n + 15) div 16) = (if n mod 16 = 0 then n else cipher_length n)"
proof -
  have "(n + 15) div 16 = (if n mod 16 = 0 then n div 16 else n div 16 + 1)"
  proof (rule div_nat_eqI)
    have "n = 16 * (n div 16) + n mod 16" "n mod 16 < 16" by simp_all
    then show "16 * (if n mod 16 = 0 then n div 16 else n div 16 + 1) \<le> n + 15"
      "n + 15 < 16 * Suc (if n mod 16 = 0 then n div 16 else n div 16 + 1)"
      unfolding mult_Suc_right by (auto simp: not_less; linarith)+
  qed
  then show ?thesis using div_mult_mod_eq[of n 16] by (auto simp: cipher_length_def)
qed

lemma length_padded: "length (padded xs) = cipher_length (length xs)"
  using cipher_length_bounds(1)[of "length xs"] by (simp add: padded_def Let_def)

text \<open>Copying and padding: the padded text is at the start of what is written.\<close>

definition pad_block :: "nat \<Rightarrow> u8 list" where
  "pad_block n = (if n mod 16 = 0 then replicate 32 0x10
     else replicate (cipher_length n - n) (of_nat (cipher_length n - n)))"

lemma pad_block_length: "n + length (pad_block n) = write_extent n"
  using cipher_length_bounds(1)[of n] by (simp add: pad_block_def write_extent_def)

lemma padded_pad_block: "take (cipher_length (length xs)) (xs @ pad_block (length xs)) = padded xs"
proof (cases "length xs mod 16 = 0")
  case True
  then have "cipher_length (length xs) = length xs + 16" using cipher_length_mod[of "length xs"] by simp
  then show ?thesis using True by (simp add: padded_def pad_block_def)
next
  case False
  then show ?thesis using cipher_length_bounds(1)[of "length xs"]
    by (simp add: padded_def pad_block_def Let_def)
qed

lemma aes_encrypt_prefix:
  assumes "key_size (length key)" and "length (aes_key enc) = 60" and "16 \<le> length iv"
    and "load m pPlainIn n = Some plain" and "fst pPlainIn \<noteq> fst pEncOut"
    and "n < 2 ^ 31 - 48" and "int (16 * ((n + 15) div 16)) \<le> maxOutLen"
  shows "aes_encrypt base regp enc key (int (length key)) (Some iv) pPlainIn (int n) pEncOut maxOutLen m =
     (case store m pEncOut (plain @ pad_block n) of
        None \<Rightarrow> None
      | Some m' \<Rightarrow>
          (case AesCbcEncrypt base regp
                  (fst (the (AesSetKey enc key (of_nat (length key)) (Some iv) AES_ENCRYPTION)))
                  pEncOut pEncOut (of_nat (cipher_length n)) m' of
             None \<Rightarrow> None | Some (a, m'') \<Rightarrow> Some (int (cipher_length n), m'')))"
proof -
  obtain a where a: "AesSetKey enc key (of_nat (length key)) (Some iv) AES_ENCRYPTION = Some (a, 0)"
    by (rule AesSetKey_encryption[OF assms(1-3)])
  have l: "length plain = n" using load_length[OF assms(4)] by simp
  have ov: "\<not> overlap pEncOut pPlainIn n" using assms(5) by (cases pEncOut; cases pPlainIn) simp
  have st: "store m pEncOut (plain @ pad_block n) =
      do { m \<leftarrow> copy m pEncOut pPlainIn (int n); store m (advance pEncOut n) (pad_block n) }"
    using ov assms(4) l by (simp add: store_append copy_def)
  show ?thesis
  proof (cases "n mod 16 = 0")
    case True
    then have c: "cipher_length n = n + 16" "16 * ((n + 15) div 16) = n"
      using cipher_length_mod[of n] rounded_up[of n] by simp_all
    have p: "padded_length (int n) = int n" using True by (simp add: padded_length_nat)
    show ?thesis unfolding st aes_encrypt_def key_length_word a p
      using assms(6,7) c True
      by (auto simp: fits_int_def pad_block_def split: Option.bind_splits option.splits)
  next
    case False
    have p: "padded_length (int n) = int (cipher_length n)"
      unfolding padded_length_nat cipher_length_def using False by simp
    have c: "int (cipher_length n) \<le> maxOutLen" "n < cipher_length n" "cipher_length n < 2 ^ 31"
    proof -
      have "16 * ((n + 15) div 16) = cipher_length n" using False rounded_up[of n] by simp
      then show "int (cipher_length n) \<le> maxOutLen" using assms(7) by simp
      show "n < cipher_length n" "cipher_length n < 2 ^ 31" using cipher_length_bounds[of n] assms(6) by simp_all
    qed
    have d: "nat (int (cipher_length n) - int n) = cipher_length n - n"
      "(word_of_int (int (cipher_length n) - int n) :: u8) = of_nat (cipher_length n - n)"
      using c by (simp_all add: nat_diff_distrib' of_nat_diff)
    show ?thesis unfolding st aes_encrypt_def key_length_word a p
      using c False
      by (auto simp: fits_int_def pad_block_def d split: Option.bind_splits option.splits)
  qed
qed


lemma cipher_length_blocks: "cipher_length n = 16 * (n div 16 + 1)"
  by (simp add: cipher_length_def)

lemma cipher_le_extent: "cipher_length n \<le> write_extent n"
  using cipher_length_bounds(2)[of n] by (simp add: write_extent_def)

lemma aes_encrypt_result:
  assumes "key_size (length key)" and "length (aes_key enc) = 60" and "16 \<le> length iv"
    and "load m pPlainIn n = Some plain" and "fst pPlainIn \<noteq> fst pEncOut"
    and "n < 2 ^ 31 - 48" and "int (16 * ((n + 15) div 16)) \<le> maxOutLen"
    and "room m pEncOut (write_extent n)"
  obtains m1 m2 where
    "aes_encrypt base regp enc key (int (length key)) (Some iv) pPlainIn (int n) pEncOut maxOutLen m =
       Some (int (cipher_length n), m2)"
    "store m pEncOut (plain @ pad_block n) = Some m1"
    "store m1 pEncOut (cbc_encrypt (aes_block key) (take 16 iv) (n div 16 + 1) (padded plain)) = Some m2"
proof -
  let ?k = "n div 16 + 1"
  obtain a where a: "AesSetKey enc key (of_nat (length key)) (Some iv) AES_ENCRYPTION = Some (a, 0)"
      "enc_ready key a" "aes_reg a = take 16 iv"
    by (rule AesSetKey_encryption[OF assms(1-3)])
  have l: "length plain = n" using load_length[OF assms(4)] by simp
  have lp: "length (plain @ pad_block n) = write_extent n" using l pad_block_length by simp
  obtain m1 where m1: "store m pEncOut (plain @ pad_block n) = Some m1"
    using store_Some[of m pEncOut "plain @ pad_block n"] assms(8) lp by auto
  have "load m1 pEncOut (write_extent n) = Some (plain @ pad_block n)" using load_store[OF m1] lp by simp
  then have "load m1 pEncOut (cipher_length n) = Some (padded plain)"
    using load_prefix[OF _ cipher_le_extent] padded_pad_block[of plain] l by fastforce
  moreover have "room m1 pEncOut (16 * ?k)"
    using load_length[OF calculation] by (simp add: cipher_length_blocks)
  ultimately obtain a' m2 where loop: "cbc_enc_loop base regp ?k a pEncOut pEncOut m1 = Some (a', m2)"
      "store m1 pEncOut (cbc_encrypt (aes_block key) (aes_reg a) ?k (padded plain)) = Some m2"
    using cbc_enc_loop_eq[OF assms(1) a(2), of m1 pEncOut ?k "padded plain" pEncOut base regp] a(3) assms(3)
    by (auto simp: cipher_length_blocks)
  have "unat (of_nat (cipher_length n) div 16 :: u32) = ?k"
    unfolding cipher_length_blocks using assms(6) by (intro unat_blocks) simp
  then have "AesCbcEncrypt base regp a pEncOut pEncOut (of_nat (cipher_length n)) m1 = Some (a', m2)"
    using loop(1) by (simp add: AesCbcEncrypt_def)
  then show thesis
    using that[OF _ m1] loop(2) a(1,3) aes_encrypt_prefix[OF assms(1-7), of base regp] m1 by simp
qed

lemma aes_decrypt_result:
  assumes "key_size (length key)" and "length (aes_key dec) = 60" and "16 \<le> length iv"
    and "load m pEncIn (16 * k) = Some c" and "0 < k" and "16 * k < 2 ^ 31" and "int (16 * k) \<le> maxOutLen"
    and "room m pPlainOut (16 * k)" and "fst pPlainOut \<noteq> fst pEncIn \<or> pPlainOut = pEncIn"
    and "cbc_decrypt (aes_unblock key) (take 16 iv) k c = p" and "length p = 16 * k"
  obtains m2 where
    "aes_decrypt base regp dec key (int (length key)) (Some iv) pEncIn (int (16 * k)) pPlainOut maxOutLen m =
       Some (int (16 * k) - uint (last p), m2)"
    "store m pPlainOut p = Some m2"
proof -
  obtain a where a: "AesSetKey dec key (of_nat (length key)) (Some iv) AES_DECRYPTION = Some (a, 0)"
      "dec_ready key a" "aes_reg a = take 16 iv"
    by (rule AesSetKey_decryption[OF assms(1-3)])
  obtain a' m2 where loop: "cbc_dec_loop base regp k a pPlainOut pEncIn m = Some (a', m2)"
      "store m pPlainOut p = Some m2"
    using cbc_dec_loop_eq[OF assms(1) a(2) _ assms(4,8,9), of base regp] a(3) assms(3,10) by auto
  have u: "unat (of_nat (16 * k) div 16 :: u32) = k" using assms(6) by (intro unat_blocks) simp
  have ix: "nat (int (snd pPlainOut) + (int (16 * k) - 1)) = snd pPlainOut + (16 * k - 1)"
    using assms(5) by simp
  have "load m2 pPlainOut (16 * k - 1 + 1) = Some p" using load_store[OF loop(2)] assms(5,11) by simp
  then have "load m2 (advance pPlainOut (16 * k - 1)) 1 = Some [last p]"
    unfolding load_append using assms(5,11) load_length[of m2 pPlainOut "16 * k - 1"]
    by (auto split: Option.bind_splits dest!: load_length simp: length_Suc_conv)
  then have c: "load m2 (fst pPlainOut, snd pPlainOut + (16 * k - 1)) 1 = Some [last p]"
    by (cases pPlainOut) simp
  have "aes_decrypt base regp dec key (int (length key)) (Some iv) pEncIn (int (16 * k)) pPlainOut maxOutLen m =
       Some (int (16 * k) - uint (last p), m2)"
    unfolding aes_decrypt_def AesCbcDecrypt_def key_length_word a(1) ix u
    using assms(5,7) loop(1) c by (simp del: load.simps of_nat_mult)
  then show thesis using that loop(2) by simp
qed

section \<open>Properties\<close>



text \<open>
  C35. \<open>aes_encrypt\<close> stores the CBC encryption of the plain text padded to the next multiple of 16, with at
  least one byte of padding, and returns its length; every other array is unchanged. It needs more room
  than that length when the plain text is a multiple of 16 long (\<open>write_extent\<close>).
\<close>

theorem aes_encrypt_correct:
  assumes "key_size (length key)" and "length (aes_key enc) = 60" and "16 \<le> length iv"
    and "load m pPlainIn n = Some plain" and "fst pPlainIn \<noteq> fst pEncOut"
    and "n < 2 ^ 31 - 48" and "int (16 * ((n + 15) div 16)) \<le> maxOutLen"
    and "room m pEncOut (write_extent n)"
  shows "\<exists>m'. aes_encrypt base regp enc key (int (length key)) (Some iv) pPlainIn (int n) pEncOut maxOutLen m =
       Some (int (cipher_length n), m') \<and>
     load m' pEncOut (cipher_length n) =
       Some (cbc_encrypt (aes_block key) (take 16 iv) (n div 16 + 1) (padded plain)) \<and>
     (\<forall>b. b \<noteq> fst pEncOut \<longrightarrow> m' b = m b)"
proof -
  obtain m1 m2 where m: "aes_encrypt base regp enc key (int (length key)) (Some iv) pPlainIn (int n) pEncOut maxOutLen m =
       Some (int (cipher_length n), m2)"
    "store m pEncOut (plain @ pad_block n) = Some m1"
    "store m1 pEncOut (cbc_encrypt (aes_block key) (take 16 iv) (n div 16 + 1) (padded plain)) = Some m2"
    by (rule aes_encrypt_result[OF assms])
  have lp: "length (padded plain) = 16 * (n div 16 + 1)"
    using load_length[OF assms(4)] by (simp add: length_padded cipher_length_def)
  have "length (cbc_encrypt (aes_block key) (take 16 iv) (n div 16 + 1) (padded plain)) = cipher_length n"
    unfolding cipher_length_blocks by (rule aes.cbc_length[OF assms(1) _ lp]) (use assms(3) in simp)
  then show ?thesis using m load_store[OF m(3)] store_frame(2)[OF m(2)] store_frame(2)[OF m(3)] by auto
qed

theorem aes_encrypt_correct_witness:
  "\<exists>m'. aes_encrypt (\<lambda>_. 0) 0 blank_aes (replicate 16 7) 16 (Some (replicate 16 9)) (0, 0) 3 (1, 0) 16
     (\<lambda>b. if b = 0 then [1, 2, 3] else replicate 16 0) = Some (16, m') \<and> m' 0 = [1, 2, 3]"
  using aes_encrypt_correct[of "replicate 16 7" blank_aes "replicate 16 9"
    "\<lambda>b. if b = 0 then [1, 2, 3] else replicate 16 0" "(0, 0)" 3 "[1, 2, 3]" "(1, 0)" 16 "\<lambda>_. 0" 0]
  by (auto simp: key_size_def blank_aes_def read_range_def room_def write_extent_def cipher_length_def)

text \<open>
  C16. Decrypting what \<open>aes_encrypt\<close> produced, with the same key and initialisation vector, gives the plain
  text back: \<open>aes_decrypt\<close> returns its length and the output array starts with it. The decryption may
  write to another array or in place; alignment of the buffers and the uninitialised contents of the
  two local structures do not matter.
\<close>

theorem aes_roundtrip:
  assumes "key_size (length key)" and "length (aes_key enc) = 60" and "length (aes_key dec) = 60" and "16 \<le> length iv"
    and "load m pPlainIn n = Some plain" and "fst pPlainIn \<noteq> fst pEncOut"
    and "n < 2 ^ 31 - 48" and "int (16 * ((n + 15) div 16)) \<le> maxEnc" and "int (cipher_length n) \<le> maxPlain"
    and "room m pEncOut (write_extent n)" and "room m pOut (cipher_length n)"
    and "fst pOut \<noteq> fst pEncOut \<or> pOut = pEncOut"
  shows "\<exists>m' m''. aes_encrypt base regp enc key (int (length key)) (Some iv) pPlainIn (int n) pEncOut maxEnc m =
       Some (int (cipher_length n), m') \<and>
     aes_decrypt base regq dec key (int (length key)) (Some iv) pEncOut (int (cipher_length n)) pOut maxPlain m' =
       Some (int n, m'') \<and>
     load m'' pOut n = Some plain"
proof -
  let ?k = "n div 16 + 1"
  let ?c = "cbc_encrypt (aes_block key) (take 16 iv) ?k (padded plain)"
  obtain m1 m2 where m: "aes_encrypt base regp enc key (int (length key)) (Some iv) pPlainIn (int n) pEncOut maxEnc m =
       Some (int (cipher_length n), m2)"
    "store m pEncOut (plain @ pad_block n) = Some m1" "store m1 pEncOut ?c = Some m2"
    by (rule aes_encrypt_result[OF assms(1,2,4-8,10)])
  have n: "length plain = n" using load_length[OF assms(5)] by simp
  have lp: "length (padded plain) = 16 * ?k" using n by (simp add: length_padded cipher_length_def)
  have lc: "length ?c = 16 * ?k" using aes.cbc_length[OF assms(1) _ lp, of "take 16 iv"] assms(4) by simp
  have d: "cbc_decrypt (aes_unblock key) (take 16 iv) ?k ?c = padded plain"
    using aes.cbc_roundtrip[OF assms(1) _ lp, of "take 16 iv"] assms(4) by simp
  have ld: "load m2 pEncOut (16 * ?k) = Some ?c" using load_store[OF m(3)] lc by simp
  have rm: "room m2 pOut (16 * ?k)"
    using assms(11) store_frame(3)[OF m(2)] store_frame(3)[OF m(3)] by (simp add: cipher_length_blocks)
  have sz: "16 * ?k < 2 ^ 31" using cipher_length_bounds(2)[of n] assms(7) by (simp add: cipher_length_blocks)
  obtain m3 where m3: "aes_decrypt base regq dec key (int (length key)) (Some iv) pEncOut (int (16 * ?k)) pOut maxPlain m2 =
       Some (int (16 * ?k) - uint (last (padded plain)), m3)" "store m2 pOut (padded plain) = Some m3"
    by (rule aes_decrypt_result[OF assms(1,3,4) ld _ sz _ rm assms(12) d lp,
        where base = base and regp = regq and maxOutLen = maxPlain])
      (use assms(9) in \<open>simp_all add: cipher_length_blocks\<close>)
  have pl: "cipher_length n - n \<le> 16" "0 < cipher_length n - n" using cipher_length_bounds[of n] by simp_all
  then have "last (padded plain) = of_nat (cipher_length n - n)" by (simp add: padded_def Let_def n)
  then have "uint (last (padded plain)) = int (cipher_length n - n)"
    using pl by (simp add: unsigned_of_nat take_bit_nat_eq_self del: of_nat_diff)
  then have "int (16 * ?k) - uint (last (padded plain)) = int n"
    using cipher_length_bounds(1)[of n] unfolding cipher_length_blocks by simp
  moreover have "load m3 pOut n = Some plain"
    using load_prefix[OF load_store[OF m3(2)], of n] cipher_length_bounds(1)[of n] n
    by (simp add: length_padded) (simp add: padded_def)
  ultimately show ?thesis using m(1) m3(1) by (simp add: cipher_length_blocks)
qed

theorem aes_roundtrip_witness:
  "\<exists>m' m''. aes_encrypt (\<lambda>_. 0) 0 blank_aes (replicate 32 7) 32 (Some (replicate 16 9)) (0, 0) 3 (1, 0) 16
     (\<lambda>b. if b = 0 then [1, 2, 3] else replicate 16 0) = Some (16, m') \<and>
     aes_decrypt (\<lambda>_. 0) 0 blank_aes (replicate 32 7) 32 (Some (replicate 16 9)) (1, 0) 16 (2, 0) 16 m' =
       Some (3, m'') \<and> load m'' (2, 0) 3 = Some [1, 2, 3]"
  using aes_roundtrip[of "replicate 32 7" blank_aes blank_aes "replicate 16 9"
    "\<lambda>b. if b = 0 then [1, 2, 3] else replicate 16 0" "(0, 0)" 3 "[1, 2, 3]" "(1, 0)" 16 16 "(2, 0)" "\<lambda>_. 0" 0 0]
  by (simp add: key_size_def blank_aes_def read_range_def room_def write_extent_def cipher_length_def)

text \<open>
  When the plain text is a multiple of 16 long, \<open>aes_encrypt\<close> accepts \<open>maxOutLen\<close> equal to the length of the
  plain text and then writes 32 bytes behind the plain text: with an output array smaller than that, even one that holds
  the 16 bytes of padding which belong to the result, it writes outside the array.
\<close>

theorem aes_encrypt_overrun:
  assumes "key_size (length key)" and "length (aes_key enc) = 60" and "16 \<le> length iv"
    and "load m pPlainIn n = Some plain" and "fst pPlainIn \<noteq> fst pEncOut"
    and "n < 2 ^ 31 - 48" and "n mod 16 = 0" and "int n \<le> maxOutLen"
    and "length (m (fst pEncOut)) < snd pEncOut + n + 32"
  shows "aes_encrypt base regp enc key (int (length key)) (Some iv) pPlainIn (int n) pEncOut maxOutLen m = None"
proof -
  have "16 * ((n + 15) div 16) = n" using assms(7) rounded_up[of n] by simp
  then have le: "int (16 * ((n + 15) div 16)) \<le> maxOutLen" using assms(8) by simp
  have "length (plain @ pad_block n) = n + 32"
    using load_length[OF assms(4)] assms(7) by (simp add: pad_block_def)
  then have "store m pEncOut (plain @ pad_block n) = None"
    using assms(9) by (cases pEncOut) (simp add: write_range_def)
  then show ?thesis using aes_encrypt_prefix[OF assms(1-6) le] by simp
qed

theorem aes_encrypt_overrun_witness:
  "aes_encrypt (\<lambda>_. 0) 0 blank_aes (replicate 16 7) 16 (Some (replicate 16 9)) (0, 0) 16 (1, 0) 32
     (\<lambda>b. if b = 0 then replicate 16 5 else replicate 32 0) = None"
  using aes_encrypt_overrun[of "replicate 16 7" blank_aes "replicate 16 9"
    "\<lambda>b. if b = 0 then replicate 16 5 else replicate 32 0" "(0, 0)" 16 "replicate 16 5" "(1, 0)" 32 "\<lambda>_. 0" 0]
  by (simp add: key_size_def blank_aes_def read_range_def)

end
