(* ===== verification/HashStream.thy ===== *)
theory HashStream
  imports Prelude
begin

text \<open>
  What SHA-1 and MD5 share: a message is cut into blocks of 64 bytes, a compression function
  is applied to block after block, and the bytes that do not fill a block wait in a buffer. The locale
  \<open>hash_stream\<close> is the contract of an update function over such a buffer; its lemmas show
  that the way a message is cut into updates does not matter.
\<close>

section \<open>Compressing whole blocks\<close>

function compress_blocks :: "('s \<Rightarrow> u8 list \<Rightarrow> 's) \<Rightarrow> 's \<Rightarrow> u8 list \<Rightarrow> 's" where
  "compress_blocks f s xs =
     (if length xs < 64 then s else compress_blocks f (f s (take 64 xs)) (drop 64 xs))"
  by pat_completeness auto
termination by (relation "measure (\<lambda>(f, s, xs). length xs)") auto

declare compress_blocks.simps [simp del]

definition rest :: "u8 list \<Rightarrow> u8 list" where
  "rest xs = drop (64 * (length xs div 64)) xs"

lemma compress_short: "length xs < 64 \<Longrightarrow> compress_blocks f s xs = s"
  by (simp add: compress_blocks.simps)

lemma compress_block: "length b = 64 \<Longrightarrow> compress_blocks f s (b @ xs) = compress_blocks f (f s b) xs"
  by (subst compress_blocks.simps) simp

lemma rest_short: "length xs < 64 \<Longrightarrow> rest xs = xs"
  by (simp add: rest_def)

lemma rest_block: "length b = 64 \<Longrightarrow> rest (b @ xs) = rest xs"
  by (simp add: rest_def div_add_self1)

lemma length_rest: "length (rest xs) = length xs mod 64"
  by (simp add: rest_def minus_mult_div_eq_mod)

text \<open>Every list of bytes is some whole blocks and its rest.\<close>

lemma block_induct [case_names short block]:
  assumes "\<And>xs. length xs < 64 \<Longrightarrow> P xs"
    and "\<And>b xs. length b = 64 \<Longrightarrow> P xs \<Longrightarrow> P (b @ xs)"
  shows "P (xs :: u8 list)"
proof (induction "length xs" arbitrary: xs rule: less_induct)
  case less
  show ?case
  proof (cases "length xs < 64")
    case False
    then have "P (take 64 xs @ drop 64 xs)"
      using less.hyps[of "drop 64 xs"] by (intro assms(2)) simp_all
    then show ?thesis by simp
  qed (rule assms(1))
qed

lemma compress_append:
  "compress_blocks f s (xs @ ys) = compress_blocks f (compress_blocks f s xs) (rest xs @ ys)"
  by (induction xs arbitrary: s rule: block_induct) (simp_all add: compress_short rest_short compress_block rest_block)

lemma rest_append: "rest (xs @ ys) = rest (rest xs @ ys)"
  by (induction xs rule: block_induct) (simp_all add: rest_short rest_block)

section \<open>The contract of an update function\<close>

locale hash_stream =
  fixes compress :: "'s \<Rightarrow> u8 list \<Rightarrow> 's"
    and state :: "'c \<Rightarrow> 's" and buffer :: "'c \<Rightarrow> u8 list" and used :: "'c \<Rightarrow> nat"
    and ok :: "'c \<Rightarrow> bool"
    and update :: "'c \<Rightarrow> u8 list \<Rightarrow> 'c option"
    and small :: "u8 list \<Rightarrow> bool"
  assumes update_law: "ok c \<Longrightarrow> small xs \<Longrightarrow>
      \<exists>c'. update c xs = Some c' \<and> ok c' \<and>
        state c' = compress_blocks compress (state c) (take (used c) (buffer c) @ xs) \<and>
        take (used c') (buffer c') = rest (take (used c) (buffer c) @ xs)"
    and ok_used: "ok c \<Longrightarrow> used c < 64 \<and> length (buffer c) = 64"
begin

text \<open>\<open>c\<close> has absorbed \<open>msg\<close>, starting from the chaining value \<open>s0\<close>.\<close>

definition absorbed :: "'s \<Rightarrow> u8 list \<Rightarrow> 'c \<Rightarrow> bool" where
  "absorbed s0 msg c = (ok c \<and> state c = compress_blocks compress s0 msg \<and>
     take (used c) (buffer c) = rest msg)"

lemma absorbed_used: "absorbed s0 msg c \<Longrightarrow> used c = length msg mod 64"
  using ok_used[of c] length_rest[of msg] by (auto simp: absorbed_def dest!: arg_cong[where f = length])

lemma absorbed_start: "ok c \<Longrightarrow> used c = 0 \<Longrightarrow> absorbed (state c) [] c"
  by (simp add: absorbed_def compress_short rest_short)

lemma absorbed_update:
  assumes "absorbed s0 msg c" and "small xs"
  shows "\<exists>c'. update c xs = Some c' \<and> absorbed s0 (msg @ xs) c'"
  using update_law[of c xs] assms compress_append[of compress s0 msg xs] rest_append[of msg xs]
  by (auto simp: absorbed_def)

text \<open>Any way of cutting a message into updates gives the same.\<close>

lemma absorbed_chunks:
  assumes "absorbed s0 msg c" and "\<forall>xs \<in> set xss. small xs"
  shows "\<exists>c'. foldl (\<lambda>r xs. Option.bind r (\<lambda>c. update c xs)) (Some c) xss = Some c' \<and>
     absorbed s0 (msg @ concat xss) c'"
  using assms
proof (induction xss arbitrary: msg c)
  case (Cons xs xss)
  then obtain c1 where "update c xs = Some c1" "absorbed s0 (msg @ xs) c1"
    using absorbed_update[OF Cons.prems(1), of xs] by auto
  then show ?case using Cons.IH[of "msg @ xs" c1] Cons.prems(2) by simp
qed simp

end

text \<open>The big-endian and little-endian bytes of a 64-bit length.\<close>

definition be64 :: "nat \<Rightarrow> u8 list" where
  "be64 n = map (\<lambda>i. of_nat (n div 2 ^ (8 * (7 - i)))) [0..<8]"

definition le64 :: "nat \<Rightarrow> u8 list" where
  "le64 n = map (\<lambda>i. of_nat (n div 2 ^ (8 * i))) [0..<8]"

text \<open>The padding of both algorithms: a one bit, zeros up to 56 bytes modulo 64, the length in bits.\<close>

definition zeros_needed :: "nat \<Rightarrow> nat" where
  "zeros_needed n = (119 - n mod 64) mod 64"

definition pad_with :: "(nat \<Rightarrow> u8 list) \<Rightarrow> u8 list \<Rightarrow> u8 list" where
  "pad_with enc msg = msg @ [0x80] @ replicate (zeros_needed (length msg)) 0 @ enc (8 * length msg)"

lemma zeros_needed_ends: "(n + 1 + zeros_needed n) mod 64 = 56"
proof -
  have "(n + 1 + (119 - n mod 64) mod 64) mod 64 = (n mod 64 + 1 + (119 - n mod 64)) mod 64"
    by (metis (no_types) add.assoc mod_add_left_eq mod_add_right_eq)
  also have "n mod 64 + 1 + (119 - n mod 64) = 120" using mod_less_divisor[of 64 n] by simp
  finally show ?thesis by (simp add: zeros_needed_def)
qed

section \<open>Bytes of words and of numbers\<close>

lemma take_bit_unat32: "take_bit 32 (unat (w :: u32)) = unat w"
  by (rule take_bit_nat_eq_self) (use unsigned_less[of w] in simp)

lemma ucast_drop_bit_nat: "(ucast (drop_bit k (w :: u32)) :: u8) = of_nat (unat w div 2 ^ k)"
proof -
  have "(ucast (drop_bit k w) :: u8) = of_nat (unat (drop_bit k w))" by (simp add: unsigned_of_nat)
  also have "unat (drop_bit k w) = unat w div 2 ^ k"
    unfolding unsigned_drop_bit_eq using take_bit_unat32[of w] by (simp add: drop_bit_eq_div)
  finally show ?thesis .
qed

lemma of_nat_low_byte:
  assumes "k + 8 \<le> 32"
  shows "(of_nat (n mod 2 ^ 32 div 2 ^ k) :: u8) = of_nat (n div 2 ^ k)"
proof -
  have "take_bit 8 (drop_bit k (take_bit 32 n)) = take_bit 8 (drop_bit k n)"
    using assms by (simp add: drop_bit_take_bit)
  then have "unat (of_nat (n mod 2 ^ 32 div 2 ^ k) :: u8) = unat (of_nat (n div 2 ^ k) :: u8)"
    by (simp add: unat_of_nat take_bit_eq_mod drop_bit_eq_div)
  then show ?thesis by (rule unsigned_word_eqI)
qed

end
