(* ===== verification/Sha1.thy ===== *)
theory Sha1
  imports HashStream
begin

text \<open>
  SHA-1, \<open>src/src/crypto/sha1.c\<close>. The functions keep their names. The registers \<open>a\<close> to \<open>e\<close> of
  \<open>SHA1Transform\<close> are numbered 0 to 4, and the unrolled rounds are the list of their macro calls;
  \<open>block->l\<close> is a list of 16 words. \<open>None\<close> is an access outside the input or the buffer.
\<close>

section \<open>The compression function\<close>

definition rol :: "u32 \<Rightarrow> nat \<Rightarrow> u32" where
  "rol val bits = push_bit bits val OR drop_bit (32 - bits) val"

text \<open>\<open>blk0\<close> and \<open>blk\<close> store into the block; their value is the word stored.\<close>

definition blk0 :: "u32 list \<Rightarrow> nat \<Rightarrow> u32 list" where
  "blk0 l i = l[i := (rol (l ! i) 24 AND 0xFF00FF00) OR (rol (l ! i) 8 AND 0x00FF00FF)]"

definition blk :: "u32 list \<Rightarrow> nat \<Rightarrow> u32 list" where
  "blk l i = l[i AND 15 := rol (l ! ((i + 13) AND 15) XOR l ! ((i + 8) AND 15) XOR
                               l ! ((i + 2) AND 15) XOR l ! (i AND 15)) 1]"

datatype sha1_op =
    R0 nat nat nat nat nat nat
  | R1 nat nat nat nat nat nat
  | R2 nat nat nat nat nat nat
  | R3 nat nat nat nat nat nat
  | R4 nat nat nat nat nat nat

text \<open>The common shape of the five macros: the register \<open>z\<close> is increased, \<open>w\<close> is rotated.\<close>

definition sha1_update :: "u32 list \<Rightarrow> nat \<Rightarrow> nat \<Rightarrow> nat \<Rightarrow> u32 \<Rightarrow> u32 list" where
  "sha1_update r v w z inc = (let r = r[z := r ! z + (inc + rol (r ! v) 5)] in r[w := rol (r ! w) 30])"

fun sha1_exec :: "sha1_op \<Rightarrow> u32 list \<times> u32 list \<Rightarrow> u32 list \<times> u32 list" where
  "sha1_exec (R0 v w x y z i) (r, l) =
     (let l = blk0 l i in
      (sha1_update r v w z (((r ! w AND (r ! x XOR r ! y)) XOR r ! y) + l ! i + 0x5A827999), l))"
| "sha1_exec (R1 v w x y z i) (r, l) =
     (let l = blk l i in
      (sha1_update r v w z (((r ! w AND (r ! x XOR r ! y)) XOR r ! y) + l ! (i AND 15) + 0x5A827999), l))"
| "sha1_exec (R2 v w x y z i) (r, l) =
     (let l = blk l i in
      (sha1_update r v w z ((r ! w XOR r ! x XOR r ! y) + l ! (i AND 15) + 0x6ED9EBA1), l))"
| "sha1_exec (R3 v w x y z i) (r, l) =
     (let l = blk l i in
      (sha1_update r v w z ((((r ! w OR r ! x) AND r ! y) OR (r ! w AND r ! x)) + l ! (i AND 15) + 0x8F1BBCDC), l))"
| "sha1_exec (R4 v w x y z i) (r, l) =
     (let l = blk l i in
      (sha1_update r v w z ((r ! w XOR r ! x XOR r ! y) + l ! (i AND 15) + 0xCA62C1D6), l))"

definition sha1_rounds :: "sha1_op list" where
  "sha1_rounds =
     [R0 0 1 2 3 4 0, R0 4 0 1 2 3 1, R0 3 4 0 1 2 2, R0 2 3 4 0 1 3,
      R0 1 2 3 4 0 4, R0 0 1 2 3 4 5, R0 4 0 1 2 3 6, R0 3 4 0 1 2 7,
      R0 2 3 4 0 1 8, R0 1 2 3 4 0 9, R0 0 1 2 3 4 10, R0 4 0 1 2 3 11,
      R0 3 4 0 1 2 12, R0 2 3 4 0 1 13, R0 1 2 3 4 0 14, R0 0 1 2 3 4 15,
      R1 4 0 1 2 3 16, R1 3 4 0 1 2 17, R1 2 3 4 0 1 18, R1 1 2 3 4 0 19,
      R2 0 1 2 3 4 20, R2 4 0 1 2 3 21, R2 3 4 0 1 2 22, R2 2 3 4 0 1 23,
      R2 1 2 3 4 0 24, R2 0 1 2 3 4 25, R2 4 0 1 2 3 26, R2 3 4 0 1 2 27,
      R2 2 3 4 0 1 28, R2 1 2 3 4 0 29, R2 0 1 2 3 4 30, R2 4 0 1 2 3 31,
      R2 3 4 0 1 2 32, R2 2 3 4 0 1 33, R2 1 2 3 4 0 34, R2 0 1 2 3 4 35,
      R2 4 0 1 2 3 36, R2 3 4 0 1 2 37, R2 2 3 4 0 1 38, R2 1 2 3 4 0 39,
      R3 0 1 2 3 4 40, R3 4 0 1 2 3 41, R3 3 4 0 1 2 42, R3 2 3 4 0 1 43,
      R3 1 2 3 4 0 44, R3 0 1 2 3 4 45, R3 4 0 1 2 3 46, R3 3 4 0 1 2 47,
      R3 2 3 4 0 1 48, R3 1 2 3 4 0 49, R3 0 1 2 3 4 50, R3 4 0 1 2 3 51,
      R3 3 4 0 1 2 52, R3 2 3 4 0 1 53, R3 1 2 3 4 0 54, R3 0 1 2 3 4 55,
      R3 4 0 1 2 3 56, R3 3 4 0 1 2 57, R3 2 3 4 0 1 58, R3 1 2 3 4 0 59,
      R4 0 1 2 3 4 60, R4 4 0 1 2 3 61, R4 3 4 0 1 2 62, R4 2 3 4 0 1 63,
      R4 1 2 3 4 0 64, R4 0 1 2 3 4 65, R4 4 0 1 2 3 66, R4 3 4 0 1 2 67,
      R4 2 3 4 0 1 68, R4 1 2 3 4 0 69, R4 0 1 2 3 4 70, R4 4 0 1 2 3 71,
      R4 3 4 0 1 2 72, R4 2 3 4 0 1 73, R4 1 2 3 4 0 74, R4 0 1 2 3 4 75,
      R4 4 0 1 2 3 76, R4 3 4 0 1 2 77, R4 2 3 4 0 1 78, R4 1 2 3 4 0 79]"

definition SHA1Transform :: "u32 list \<Rightarrow> u8 list \<Rightarrow> u32 list" where
  "SHA1Transform state buffer =
     (let (r, _) = fold sha1_exec sha1_rounds (state, words_of buffer)
      in map2 (+) state r)"

section \<open>The context\<close>

record SHA1_CTX =
  sha_state :: "u32 list"
  sha_count0 :: u32
  sha_count1 :: u32
  sha_buffer :: "u8 list"

definition SHA1Init :: "SHA1_CTX \<Rightarrow> SHA1_CTX" where
  "SHA1Init context = context
     \<lparr>sha_state := [0x67452301, 0xEFCDAB89, 0x98BADCFE, 0x10325476, 0xC3D2E1F0],
      sha_count0 := 0, sha_count1 := 0\<rparr>"

text \<open>
  The loop over the whole blocks of the input, from \<open>i\<close> on. The first argument bounds the number of
  passes; \<open>None\<close> is its exhaustion or a read behind the input.
\<close>

primrec transform_loop :: "nat \<Rightarrow> u32 list \<Rightarrow> u8 list \<Rightarrow> u32 \<Rightarrow> u32 \<Rightarrow> (u32 list \<times> u32) option" where
  "transform_loop 0 state data i len = None"
| "transform_loop (Suc n) state data i len =
     (if i + 63 < len
      then do { b \<leftarrow> read_range data (unat i) 64;
                transform_loop n (SHA1Transform state b) data (i + 64) len }
      else Some (state, i))"

definition SHA1Update :: "SHA1_CTX \<Rightarrow> u8 list \<Rightarrow> u32 \<Rightarrow> SHA1_CTX option" where
  "SHA1Update context data len =
     (let j = sha_count0 context;
          context = context\<lparr>sha_count0 := sha_count0 context + push_bit 3 len\<rparr>;
          context = (if sha_count0 context < j
                     then context\<lparr>sha_count1 := sha_count1 context + (drop_bit 29 len + 1)\<rparr>
                     else context);
          j = drop_bit 3 j AND 63
      in do {
        (context, i, j) \<leftarrow>
          (if j + len > 63
           then do {
             b \<leftarrow> memcpy_at (sha_buffer context) (unat j) data 0 (unat (64 - j));
             let state = SHA1Transform (sha_state context) b;
             (state, i) \<leftarrow> transform_loop (unat len div 64 + 1) state data (64 - j) len;
             Some (context\<lparr>sha_buffer := b, sha_state := state\<rparr>, i, 0) }
           else Some (context, 0, j));
        b \<leftarrow> memcpy_at (sha_buffer context) (unat j) data (unat i) (unat (len - i));
        Some (context\<lparr>sha_buffer := b\<rparr>) })"

text \<open>The padding loop of \<open>SHA1Final\<close>, with a bound on its passes.\<close>

primrec sha1_pad_loop :: "nat \<Rightarrow> SHA1_CTX \<Rightarrow> SHA1_CTX option" where
  "sha1_pad_loop 0 context = None"
| "sha1_pad_loop (Suc n) context =
     (if sha_count0 context AND 504 \<noteq> 448
      then do { context \<leftarrow> SHA1Update context [0] 1; sha1_pad_loop n context }
      else Some context)"

definition SHA1Final :: "SHA1_CTX \<Rightarrow> (u8 list \<times> SHA1_CTX) option" where
  "SHA1Final context =
     (let finalcount = map (\<lambda>i. ucast (drop_bit ((3 - i mod 4) * 8)
            (if 4 \<le> i then sha_count0 context else sha_count1 context) AND 255)) [0..<8]
      in do {
        context \<leftarrow> SHA1Update context [0x80] 1;
        context \<leftarrow> sha1_pad_loop 64 context;
        context \<leftarrow> SHA1Update context finalcount 8;
        Some (map (\<lambda>i. ucast (drop_bit ((3 - i mod 4) * 8) (sha_state context ! (i div 4)) AND 255)) [0..<20],
              context) })"

text \<open>\<open>ctx\<close> is the uninitialised local structure.\<close>

definition SHA1_digest :: "SHA1_CTX \<Rightarrow> u8 list \<Rightarrow> u32 \<Rightarrow> u8 list option" where
  "SHA1_digest ctx buf len =
     do { ctx \<leftarrow> SHA1Update (SHA1Init ctx) buf len;
          (digest, _) \<leftarrow> SHA1Final ctx;
          Some digest }"

section \<open>The standard\<close>

definition Ch :: "u32 \<Rightarrow> u32 \<Rightarrow> u32 \<Rightarrow> u32" where
  "Ch x y z = (x AND y) XOR (NOT x AND z)"

definition Parity :: "u32 \<Rightarrow> u32 \<Rightarrow> u32 \<Rightarrow> u32" where
  "Parity x y z = x XOR y XOR z"

definition Maj :: "u32 \<Rightarrow> u32 \<Rightarrow> u32 \<Rightarrow> u32" where
  "Maj x y z = (x AND y) XOR (x AND z) XOR (y AND z)"

definition sha1_f :: "nat \<Rightarrow> u32 \<Rightarrow> u32 \<Rightarrow> u32 \<Rightarrow> u32" where
  "sha1_f t = (if t < 20 then Ch else if t < 40 then Parity else if t < 60 then Maj else Parity)"

definition sha1_K :: "nat \<Rightarrow> u32" where
  "sha1_K t = (if t < 20 then 0x5A827999 else if t < 40 then 0x6ED9EBA1
               else if t < 60 then 0x8F1BBCDC else 0xCA62C1D6)"

text \<open>A word of the block, most significant byte first, and the message schedule.\<close>

definition be_word :: "u8 list \<Rightarrow> nat \<Rightarrow> u32" where
  "be_word b i = load32 [b ! (4 * i + 3), b ! (4 * i + 2), b ! (4 * i + 1), b ! (4 * i)] 0"

function sha1_W :: "u8 list \<Rightarrow> nat \<Rightarrow> u32" where
  "sha1_W b t =
     (if t < 16 then be_word b t
      else rol (sha1_W b (t - 3) XOR sha1_W b (t - 8) XOR sha1_W b (t - 14) XOR sha1_W b (t - 16)) 1)"
  by pat_completeness auto
termination by (relation "measure snd") auto

declare sha1_W.simps [simp del]

type_synonym sha1_regs = "u32 \<times> u32 \<times> u32 \<times> u32 \<times> u32"

fun sha1_step :: "(nat \<Rightarrow> u32) \<Rightarrow> nat \<Rightarrow> sha1_regs \<Rightarrow> sha1_regs" where
  "sha1_step W t (a, b, c, d, e) = (rol a 5 + sha1_f t b c d + e + sha1_K t + W t, a, rol b 30, c, d)"

primrec sha1_steps :: "(nat \<Rightarrow> u32) \<Rightarrow> nat \<Rightarrow> sha1_regs \<Rightarrow> sha1_regs" where
  "sha1_steps W 0 s = s"
| "sha1_steps W (Suc t) s = sha1_step W t (sha1_steps W t s)"

fun sha1_compress :: "sha1_regs \<Rightarrow> u8 list \<Rightarrow> sha1_regs" where
  "sha1_compress (h0, h1, h2, h3, h4) b =
     (let (a, b, c, d, e) = sha1_steps (sha1_W b) 80 (h0, h1, h2, h3, h4)
      in (a + h0, b + h1, c + h2, d + h3, e + h4))"

definition sha1_initial :: sha1_regs where
  "sha1_initial = (0x67452301, 0xEFCDAB89, 0x98BADCFE, 0x10325476, 0xC3D2E1F0)"

fun sha1_bytes :: "sha1_regs \<Rightarrow> u8 list" where
  "sha1_bytes (a, b, c, d, e) = rev (le32 a) @ rev (le32 b) @ rev (le32 c) @ rev (le32 d) @ rev (le32 e)"

text \<open>The digest of a message.\<close>

definition sha1 :: "u8 list \<Rightarrow> u8 list" where
  "sha1 msg = sha1_bytes (compress_blocks sha1_compress sha1_initial (pad_with be64 msg))"

end
