(* ===== verification/Sha1Correct.thy ===== *)
theory Sha1Correct
  imports Sha1
begin

text \<open>
  \<open>src/src/crypto/sha1.c\<close> computes SHA-1: the unrolled rounds over rotating registers and a 16-word
  schedule are the 80 steps of the standard, \<open>SHA1Update\<close> is an update function of \<open>hash_stream\<close>, and
  \<open>SHA1_digest\<close> returns the digest of the standard.
\<close>

section \<open>The rounds\<close>

text \<open>Round \<open>t\<close> of the unrolled code: the registers move by one place with every round.\<close>

definition sha1_op_at :: "nat \<Rightarrow> sha1_op" where
  "sha1_op_at t =
     (if t < 16 then R0 else if t < 20 then R1 else if t < 40 then R2 else if t < 60 then R3 else R4)
       (4 * t mod 5) ((4 * t + 1) mod 5) ((4 * t + 2) mod 5) ((4 * t + 3) mod 5) ((4 * t + 4) mod 5) t"

lemma sha1_rounds_eq: "sha1_rounds = map sha1_op_at [0..<80]"
  by code_simp

lemma nat_and_15: "(i::nat) AND 15 = i mod 16"
  using take_bit_eq_mask[of 4 i] by (simp add: take_bit_eq_mod mask_eq_exp_minus_1)

lemma sha1_functions:
  "(w AND (x XOR y)) XOR y = Ch w x y"
  "((w OR x) AND y) OR (w AND x) = Maj w x y"
  by (rule bit_word_eqI; auto simp: Ch_def Maj_def bit_simps)+

definition sha1_expand :: "nat \<Rightarrow> u32 list \<Rightarrow> u32 list" where
  "sha1_expand t l = (if t < 16 then blk0 l t else blk l t)"

lemma sha1_exec_at:
  assumes "t < 80"
  shows "sha1_exec (sha1_op_at t) (r, l) =
     (sha1_update r (4 * t mod 5) ((4 * t + 1) mod 5) ((4 * t + 4) mod 5)
        (sha1_f t (r ! ((4 * t + 1) mod 5)) (r ! ((4 * t + 2) mod 5)) (r ! ((4 * t + 3) mod 5)) +
         sha1_expand t l ! (t mod 16) + sha1_K t), sha1_expand t l)"
  using assms
  by (simp add: sha1_op_at_def sha1_expand_def sha1_f_def sha1_K_def sha1_functions Parity_def nat_and_15 Let_def)

section \<open>The schedule in sixteen words\<close>

lemma byte_swap: "(rol w 24 AND 0xFF00FF00) OR (rol w 8 AND 0x00FF00FF) = pack4 d c b a" if "w = pack4 a b c d"
  unfolding that rol_def by (simp add: pack4_shift pack4_or pack4_mask2)

lemma blk0_word:
  assumes "length b = 64" and "i < 16" and "l ! i = words_of b ! i"
  shows "blk0 l i = l[i := be_word b i]"
proof -
  have "words_of b ! i = load32 b (4 * i)" using assms by (intro words_of_nth) simp
  then show ?thesis
    using assms(3) by (simp add: blk0_def be_word_def load32_pack4 load32_at_pack4 byte_swap)
qed

text \<open>The last sixteen words of the schedule are in the block, and the words not yet reached.\<close>

definition schedule_in :: "u8 list \<Rightarrow> nat \<Rightarrow> u32 list \<Rightarrow> bool" where
  "schedule_in b t l = (length l = 16 \<and> (\<forall>u < t. t \<le> u + 16 \<longrightarrow> l ! (u mod 16) = sha1_W b u) \<and>
     (\<forall>i < 16. t \<le> i \<longrightarrow> l ! i = words_of b ! i))"

lemma mod_16_distinct:
  assumes "u < t" and "t \<le> u + 15"
  shows "u mod 16 \<noteq> (t mod 16 :: nat)"
proof
  assume "u mod 16 = t mod 16"
  then have "16 dvd t - u" using assms mod_eq_dvd_iff_nat[of u t 16] by simp
  then show False using assms dvd_imp_le[of 16 "t - u"] by simp
qed

lemma sha1_expand_word:
  assumes "length b = 64" and "schedule_in b t l"
  shows "sha1_expand t l = l[t mod 16 := sha1_W b t]"
proof (cases "t < 16")
  case True
  then show ?thesis using assms blk0_word[of b t l]
    by (simp add: schedule_in_def sha1_expand_def sha1_W.simps[of b t])
next
  case False
  have prev: "l ! ((t + k) mod 16) = sha1_W b (t - (16 - k))" if "k < 16" for k
  proof -
    have "(t + k) mod 16 = (t - (16 - k) + 16) mod 16" using False that by (intro arg_cong[where f = "\<lambda>x. x mod 16"]) simp
    then have "(t + k) mod 16 = (t - (16 - k)) mod 16" by simp
    then show ?thesis using assms(2) False that by (simp add: schedule_in_def)
  qed
  show ?thesis
    using prev[of 13] prev[of 8] prev[of 2] prev[of 0] False
    by (simp add: sha1_expand_def blk_def nat_and_15 sha1_W.simps[of b t])
qed

lemma schedule_step:
  assumes "schedule_in b t l"
  shows "schedule_in b (Suc t) (l[t mod 16 := sha1_W b t])"
  using assms by (auto simp: schedule_in_def nth_list_update less_Suc_eq dest: mod_16_distinct)

section \<open>The registers\<close>

definition registers_in :: "nat \<Rightarrow> u32 list \<Rightarrow> sha1_regs \<Rightarrow> bool" where
  "registers_in t r s = (length r = 5 \<and>
     (r ! (4 * t mod 5), r ! ((4 * t + 1) mod 5), r ! ((4 * t + 2) mod 5), r ! ((4 * t + 3) mod 5),
      r ! ((4 * t + 4) mod 5)) = s)"

lemma list5: "length r = 5 \<Longrightarrow> \<exists>a b c d e. r = [a, b, c, d, e]"
  by (auto simp: numeral_eq_Suc length_Suc_conv)

lemma registers_step:
  assumes "registers_in t r (a, b, c, d, e)"
  shows "registers_in (Suc t)
    (sha1_update r (4 * t mod 5) ((4 * t + 1) mod 5) ((4 * t + 4) mod 5) inc)
    (e + (inc + rol a 5), a, rol b 30, c, d)"
proof -
  obtain r0 r1 r2 r3 r4 where r: "r = [r0, r1, r2, r3, r4]"
    using assms list5[of r] by (auto simp: registers_in_def)
  have m0: "4 * t mod 5 = 4 * (t mod 5) mod 5" by (rule mod_mult_right_eq[symmetric])
  have m: "(4 * t + k) mod 5 = (4 * (t mod 5) + k) mod 5" for k
    using mod_add_left_eq[of "4 * t" 5 k] mod_add_left_eq[of "4 * (t mod 5)" 5 k] m0 by simp
  have S: "4 * Suc t mod 5 = (4 * t + 4) mod 5" "(4 * Suc t + k) mod 5 = (4 * t + (4 + k)) mod 5" for k
    by (simp_all add: algebra_simps)
  have "t mod 5 = 0 \<or> t mod 5 = 1 \<or> t mod 5 = 2 \<or> t mod 5 = 3 \<or> t mod 5 = 4" by linarith
  then show ?thesis
    using assms unfolding registers_in_def S unfolding m m0 r
    by (elim disjE) (auto simp: sha1_update_def Let_def)
qed

definition sha1_state :: "sha1_regs \<Rightarrow> u32 list" where
  "sha1_state s = (case s of (a, b, c, d, e) \<Rightarrow> [a, b, c, d, e])"

lemma sha1_fold:
  assumes "length b = 64" and "t \<le> 80"
  shows "\<exists>r l. fold sha1_exec (map sha1_op_at [0..<t]) (sha1_state s, words_of b) = (r, l) \<and>
     registers_in t r (sha1_steps (sha1_W b) t s) \<and> schedule_in b t l"
  using assms(2)
proof (induction t)
  case 0
  then show ?case
    using assms(1) by (cases s) (auto simp: registers_in_def schedule_in_def sha1_state_def length_words_of)
next
  case (Suc t)
  then obtain r l where IH: "fold sha1_exec (map sha1_op_at [0..<t]) (sha1_state s, words_of b) = (r, l)"
    "registers_in t r (sha1_steps (sha1_W b) t s)" "schedule_in b t l" by auto
  obtain va vb vc vd ve where v: "sha1_steps (sha1_W b) t s = (va, vb, vc, vd, ve)" by (metis prod.collapse)
  have l: "length l = 16" using IH(3) by (simp add: schedule_in_def)
  let ?inc = "sha1_f t vb vc vd + sha1_W b t + sha1_K t"
  have "fold sha1_exec (map sha1_op_at [0..<Suc t]) (sha1_state s, words_of b) = sha1_exec (sha1_op_at t) (r, l)"
    using IH(1) by simp
  also have "\<dots> = (sha1_update r (4 * t mod 5) ((4 * t + 1) mod 5) ((4 * t + 4) mod 5) ?inc,
      l[t mod 16 := sha1_W b t])"
    using sha1_exec_at[of t r l] Suc.prems IH(2) l v
    by (simp add: sha1_expand_word[OF assms(1) IH(3)] registers_in_def)
  finally show ?case
    using registers_step[of t r va vb vc vd ve ?inc] IH(2) schedule_step[OF IH(3)] v by (simp add: add_ac)
qed

lemma SHA1Transform_eq:
  assumes "length b = 64"
  shows "SHA1Transform (sha1_state s) b = sha1_state (sha1_compress s b)"
proof -
  obtain h0 h1 h2 h3 h4 where s: "s = (h0, h1, h2, h3, h4)" by (cases s) auto
  obtain va vb vc vd ve where v: "sha1_steps (sha1_W b) 80 s = (va, vb, vc, vd, ve)" by (metis prod.collapse)
  obtain r l where f: "fold sha1_exec (map sha1_op_at [0..<80]) (sha1_state s, words_of b) = (r, l)"
    "registers_in 80 r (va, vb, vc, vd, ve)"
    using sha1_fold[OF assms, of 80 s] v by auto
  have "r = [va, vb, vc, vd, ve]"
    using f(2) list5[of r] by (auto simp: registers_in_def)
  then show ?thesis
    unfolding SHA1Transform_def sha1_rounds_eq f(1) using v unfolding s
    by (simp add: sha1_state_def add.commute)
qed

section \<open>The update function\<close>

definition sha1_used :: "SHA1_CTX \<Rightarrow> nat" where
  "sha1_used c = unat (drop_bit 3 (sha_count0 c) AND 63)"

definition sha1_ok :: "SHA1_CTX \<Rightarrow> bool" where
  "sha1_ok c = (length (sha_buffer c) = 64)"

definition sha1_small :: "u8 list \<Rightarrow> bool" where
  "sha1_small xs = (length xs < 2 ^ 29)"

lemma and_63: "(w :: u32) AND 63 = take_bit 6 w"
  by (simp add: take_bit_eq_mask mask_eq_exp_minus_1)

lemma unat_used: "unat (drop_bit 3 w AND 63) = take_bit 6 (drop_bit 3 (unat (w :: u32)))"
  using take_bit_unat32[of w] by (simp add: and_63 unsigned_take_bit_eq unsigned_drop_bit_eq)

lemma sha1_used_less: "sha1_used c < 64"
  unfolding sha1_used_def unat_used using take_bit_nat_less_exp[of 6] by simp

lemma count_step:
  assumes "n < 2 ^ 29"
  shows "unat (w + push_bit 3 (of_nat n) :: u32) = (unat w + 8 * n) mod 2 ^ 32"
    and "unat (push_bit 3 (of_nat n) :: u32) = 8 * n"
proof -
  show p: "unat (push_bit 3 (of_nat n) :: u32) = 8 * n"
  proof -
    have "(push_bit 3 (of_nat n) :: u32) = of_nat (8 * n)"
      unfolding push_bit_of_nat by (simp add: push_bit_eq_mult mult.commute)
    then show ?thesis using assms by (simp only: unat_of_nat) simp
  qed
  show "unat (w + push_bit 3 (of_nat n) :: u32) = (unat w + 8 * n) mod 2 ^ 32"
    unfolding unat_word_ariths p by simp
qed

lemma used_step:
  assumes "n < 2 ^ 29"
  shows "unat (drop_bit 3 (w + push_bit 3 (of_nat n)) AND 63 :: u32) = (unat (drop_bit 3 w AND 63) + n) mod 64"
proof -
  have "unat (drop_bit 3 (w + push_bit 3 (of_nat n)) AND 63 :: u32) =
      take_bit 6 (drop_bit 3 (take_bit 32 (unat w + 8 * n)))"
    unfolding unat_used count_step(1)[OF assms] by (simp add: take_bit_eq_mod)
  also have "\<dots> = take_bit 6 (drop_bit 3 (unat w + 8 * n))"
    by (simp add: drop_bit_take_bit)
  also have "drop_bit 3 (unat w + 8 * n) = drop_bit 3 (unat w) + n"
    by (simp add: drop_bit_eq_div)
  also have "take_bit 6 (drop_bit 3 (unat w) + n) = (unat (drop_bit 3 w AND 63) + n) mod 64"
    unfolding unat_used by (simp add: take_bit_eq_mod mod_simps)
  finally show ?thesis .
qed

lemma transform_loop_eq:
  assumes "length xs < 2 ^ 29"
  shows "i \<le> length xs \<Longrightarrow> (length xs - i) div 64 < n \<Longrightarrow>
    transform_loop n st xs (of_nat i) (of_nat (length xs)) =
      Some (compress_blocks SHA1Transform st (drop i xs), of_nat (i + 64 * ((length xs - i) div 64)))"
proof (induction n arbitrary: st i)
  case (Suc n)
  have u: "unat (of_nat i :: u32) = i" "unat (of_nat i + 63 :: u32) = i + 63" "unat (of_nat (length xs) :: u32) = length xs"
    using Suc.prems assms by (simp_all add: unat_of_nat unat_word_ariths)
  show ?case
  proof (cases "i + 63 < length xs")
    case True
    have "transform_loop (Suc n) st xs (of_nat i) (of_nat (length xs)) =
        transform_loop n (SHA1Transform st (take 64 (drop i xs))) xs (of_nat (i + 64)) (of_nat (length xs))"
      using True u by (simp add: word_less_nat_alt mem_simps)
    also have "\<dots> = Some (compress_blocks SHA1Transform (SHA1Transform st (take 64 (drop i xs))) (drop (i + 64) xs),
        of_nat (i + 64 + 64 * ((length xs - (i + 64)) div 64)))"
    proof (rule Suc.IH)
      show "(length xs - (i + 64)) div 64 < n"
        using Suc.prems True le_div_geq[of 64 "length xs - i"] by simp
    qed (use True in simp)
    also have "compress_blocks SHA1Transform (SHA1Transform st (take 64 (drop i xs))) (drop (i + 64) xs) =
        compress_blocks SHA1Transform st (drop i xs)"
    proof -
      have "take 64 (drop i xs) @ drop (i + 64) xs = drop i xs"
        using append_take_drop_id[of 64 "drop i xs"] by (simp add: add.commute)
      then show ?thesis
        using True compress_block[of "take 64 (drop i xs)" SHA1Transform st "drop (i + 64) xs"] by simp
    qed
    also have "i + 64 + 64 * ((length xs - (i + 64)) div 64) = i + 64 * ((length xs - i) div 64)"
      using True le_div_geq[of 64 "length xs - i"] by simp
    finally show ?thesis .
  next
    case False
    then show ?thesis using u by (simp add: word_less_nat_alt compress_short)
  qed
qed simp

definition sha1_counted :: "SHA1_CTX \<Rightarrow> u32 \<Rightarrow> SHA1_CTX" where
  "sha1_counted c len =
     (let c' = c\<lparr>sha_count0 := sha_count0 c + push_bit 3 len\<rparr>
      in if sha_count0 c' < sha_count0 c then c'\<lparr>sha_count1 := sha_count1 c' + (drop_bit 29 len + 1)\<rparr> else c')"

lemma sha1_counted_simps [simp]:
  "sha_buffer (sha1_counted c len) = sha_buffer c" "sha_state (sha1_counted c len) = sha_state c"
  "sha_count0 (sha1_counted c len) = sha_count0 c + push_bit 3 len"
  by (simp_all add: sha1_counted_def Let_def)

lemma SHA1Update_eq:
  "SHA1Update c xs len =
     (let c' = sha1_counted c len; j = drop_bit 3 (sha_count0 c) AND 63
      in do {
        (c', i, j) \<leftarrow>
          (if j + len > 63
           then do {
             b \<leftarrow> memcpy_at (sha_buffer c) (unat j) xs 0 (unat (64 - j));
             (state, i) \<leftarrow> transform_loop (unat len div 64 + 1) (SHA1Transform (sha_state c) b) xs (64 - j) len;
             Some (c'\<lparr>sha_buffer := b, sha_state := state\<rparr>, i, 0) }
           else Some (c', 0, j));
        b \<leftarrow> memcpy_at (sha_buffer c') (unat j) xs (unat i) (unat (len - i));
        Some (c'\<lparr>sha_buffer := b\<rparr>) })"
  by (cases "sha_count0 c + push_bit 3 len < sha_count0 c")
    (simp_all add: SHA1Update_def sha1_counted_def Let_def del: transform_loop.simps)

lemma SHA1Update_short:
  assumes "sha1_ok c" and "sha1_used c + length xs < 64"
  shows "SHA1Update c xs (of_nat (length xs)) = Some ((sha1_counted c (of_nat (length xs)))
    \<lparr>sha_buffer := take (sha1_used c) (sha_buffer c) @ xs @ drop (sha1_used c + length xs) (sha_buffer c)\<rparr>)"
proof -
  let ?j = "drop_bit 3 (sha_count0 c) AND 63" and ?len = "of_nat (length xs) :: u32"
  have u: "unat ?len = length xs" using assms(2) by (simp add: unat_of_nat)
  have "unat (?j + ?len) = sha1_used c + length xs"
    using assms(2) u by (simp add: unat_word_ariths sha1_used_def)
  then have "\<not> ?j + ?len > 63" using assms(2) by (simp add: word_less_nat_alt)
  then show ?thesis
    using assms u by (simp add: SHA1Update_eq Let_def sha1_used_def sha1_ok_def mem_simps)
qed

lemma SHA1Update_long:
  assumes "sha1_ok c" and "64 \<le> sha1_used c + length xs" and "sha1_small xs"
  defines "i \<equiv> 64 - sha1_used c"
  defines "k \<equiv> i + 64 * ((length xs - i) div 64)"
  shows "SHA1Update c xs (of_nat (length xs)) = Some ((sha1_counted c (of_nat (length xs)))
    \<lparr>sha_buffer := drop k xs @ drop (length xs - k) (take (sha1_used c) (sha_buffer c) @ take i xs),
     sha_state := compress_blocks SHA1Transform (sha_state c) (take (sha1_used c) (sha_buffer c) @ xs)\<rparr>)"
proof -
  let ?j = "drop_bit 3 (sha_count0 c) AND 63" and ?len = "of_nat (length xs) :: u32"
  let ?b = "take (sha1_used c) (sha_buffer c) @ take i xs"
  have l: "length xs < 2 ^ 29" and j: "sha1_used c < 64"
    using assms(3) sha1_used_less[of c] by (simp_all add: sha1_small_def)
  have u: "unat ?len = length xs" "unat ?j = sha1_used c" using l by (simp_all add: unat_of_nat sha1_used_def)
  have "unat (?j + ?len) = sha1_used c + length xs"
    using l u j by (simp add: unat_word_ariths)
  then have c1: "?j + ?len > 63" using assms(2) by (simp add: word_less_nat_alt)
  have "?j \<le> 64" using u(2) j by (simp add: word_le_nat_alt)
  then have i: "unat (64 - ?j) = i" using u(2) by (simp add: unat_sub i_def)
  then have i': "64 - ?j = of_nat i" by (metis of_nat_unat ucast_id)
  have ix: "i \<le> length xs" using assms(2) by (simp add: i_def)
  have mc: "memcpy_at (sha_buffer c) (unat ?j) xs 0 (unat (64 - ?j)) = Some ?b" and lb: "length ?b = 64"
    using assms(1) i u(2) ix j by (simp_all add: mem_simps sha1_ok_def i_def)
  have k: "k \<le> length xs" unfolding k_def using ix div_times_less_eq_dividend[of "length xs - i" 64] by (simp add: mult.commute)
  have uk: "unat (of_nat k :: u32) = k" "unat (?len - of_nat k) = length xs - k"
  proof -
    show uk: "unat (of_nat k :: u32) = k" using k l by (simp add: unat_of_nat)
    show "unat (?len - of_nat k) = length xs - k"
      using k u(1) uk by (subst unat_sub) (simp_all add: word_le_nat_alt)
  qed
  have loop: "transform_loop (unat ?len div 64 + 1) (SHA1Transform (sha_state c) ?b) xs (64 - ?j) ?len =
      Some (compress_blocks SHA1Transform (sha_state c) (take (sha1_used c) (sha_buffer c) @ xs), of_nat k)"
  proof -
    have "transform_loop (unat ?len div 64 + 1) (SHA1Transform (sha_state c) ?b) xs (of_nat i) ?len =
        Some (compress_blocks SHA1Transform (SHA1Transform (sha_state c) ?b) (drop i xs), of_nat k)"
      unfolding k_def using l ix u(1) by (intro transform_loop_eq) (simp_all add: div_le_mono less_Suc_eq_le)
    also have "compress_blocks SHA1Transform (SHA1Transform (sha_state c) ?b) (drop i xs) =
        compress_blocks SHA1Transform (sha_state c) (take (sha1_used c) (sha_buffer c) @ xs)"
      using compress_block[OF lb, of SHA1Transform "sha_state c" "drop i xs"] by simp
    finally show ?thesis unfolding i' .
  qed
  have mc2: "memcpy_at ?b 0 xs k (length xs - k) = Some (drop k xs @ drop (length xs - k) ?b)"
  proof -
    have "length xs - k \<le> 64"
    proof -
      have "length xs - k = (length xs - i) mod 64"
        unfolding k_def by (simp add: minus_mult_div_eq_mod flip: diff_diff_left)
      then show ?thesis using mod_less_divisor[of 64 "length xs - i"] by simp
    qed
    then show ?thesis using lb k by (simp add: memcpy_at_Some)
  qed
  show ?thesis
    unfolding SHA1Update_eq Let_def if_P[OF c1] mc
    by (simp only: bind.simps prod.case loop unat_0 uk) (simp add: mc2)
qed

lemma sha1_used_counted:
  "length xs < 2 ^ 29 \<Longrightarrow> sha_count0 c' = sha_count0 c + push_bit 3 (of_nat (length xs)) \<Longrightarrow>
   sha1_used c' = (sha1_used c + length xs) mod 64"
  by (simp add: sha1_used_def used_step)

interpretation sha1: hash_stream SHA1Transform sha_state sha_buffer sha1_used sha1_ok
  "\<lambda>c xs. SHA1Update c xs (of_nat (length xs))" sha1_small
proof
  fix c :: SHA1_CTX and xs :: "u8 list"
  assume ok: "sha1_ok c" and small: "sha1_small xs"
  let ?p = "take (sha1_used c) (sha_buffer c)" and ?cc = "sha1_counted c (of_nat (length xs))"
  have lp: "length ?p = sha1_used c" using ok sha1_used_less[of c] by (simp add: sha1_ok_def)
  have l: "length xs < 2 ^ 29" using small by (simp add: sha1_small_def)
  show "\<exists>c'. SHA1Update c xs (of_nat (length xs)) = Some c' \<and> sha1_ok c' \<and>
      sha_state c' = compress_blocks SHA1Transform (sha_state c) (?p @ xs) \<and>
      take (sha1_used c') (sha_buffer c') = rest (?p @ xs)"
  proof (cases "sha1_used c + length xs < 64")
    case True
    let ?c = "?cc\<lparr>sha_buffer := ?p @ xs @ drop (sha1_used c + length xs) (sha_buffer c)\<rparr>"
    have "sha1_used ?c = sha1_used c + length xs"
      using sha1_used_counted[OF l, of ?c c] True by simp
    then show ?thesis
      using SHA1Update_short[OF ok True] True lp ok
      by (simp add: compress_short rest_short sha1_ok_def)
  next
    case False
    define i where "i = 64 - sha1_used c"
    define k where "k = i + 64 * ((length xs - i) div 64)"
    let ?st = "compress_blocks SHA1Transform (sha_state c) (?p @ xs)"
    let ?c = "?cc\<lparr>sha_buffer := drop k xs @ drop (length xs - k) (?p @ take i xs), sha_state := ?st\<rparr>"
    have i: "i \<le> length xs" "length (?p @ take i xs) = 64" "sha1_used c + i = 64"
      using False lp sha1_used_less[of c] by (simp_all add: i_def)
    have up: "SHA1Update c xs (of_nat (length xs)) = Some ?c"
      unfolding i_def k_def using False by (intro SHA1Update_long[OF ok _ small]) simp
    have lk: "length xs - k = (length xs - i) mod 64"
      unfolding k_def by (simp add: minus_mult_div_eq_mod flip: diff_diff_left)
    have "sha1_used ?c = (sha1_used c + length xs) mod 64" by (rule sha1_used_counted[OF l]) simp
    also have "sha1_used c + length xs = 64 + (length xs - i)" using i by simp
    finally have us: "sha1_used ?c = length xs - k" using lk by simp
    have "rest (?p @ xs) = rest (drop i xs)"
      using rest_block[OF i(2), of "drop i xs"] by simp
    also have "\<dots> = drop k xs" by (simp add: rest_def k_def add.commute)
    finally have r: "rest (?p @ xs) = drop k xs" .
    have "length xs - k \<le> 64" using lk mod_less_divisor[of 64 "length xs - i"] by simp
    then have "length (drop k xs @ drop (length xs - k) (?p @ take i xs)) = 64"
      unfolding length_append[of "drop k xs"] length_drop i(2) by simp
    then have "sha1_ok ?c" by (simp add: sha1_ok_def)
    then show ?thesis using up us r by simp
  qed
next
  fix c assume ok: "sha1_ok c"
  show "sha1_used c < 64 \<and> length (sha_buffer c) = 64"
    using ok sha1_used_less[of c] by (simp add: sha1_ok_def)
qed

text \<open>The number of bits absorbed, in the two counters.\<close>

definition sha1_bits :: "SHA1_CTX \<Rightarrow> nat" where
  "sha1_bits c = unat (sha_count1 c) * 2 ^ 32 + unat (sha_count0 c)"

lemma sha1_bits_counted:
  assumes "n < 2 ^ 29"
  shows "sha1_bits (sha1_counted c (of_nat n)) = (sha1_bits c + 8 * n) mod 2 ^ 64"
proof -
  let ?p = "push_bit 3 (of_nat n) :: u32" and ?w = "sha_count0 c" and ?h = "sha_count1 c"
  have d: "drop_bit 29 (of_nat n :: u32) = 0"
  proof -
    have "unat (drop_bit 29 (of_nat n :: u32)) = n div 2 ^ 29"
      using assms by (simp add: unat_div unat_of_nat drop_bit_eq_div)
    then have "unat (drop_bit 29 (of_nat n :: u32)) = 0" using assms by simp
    then show ?thesis by (simp only: unsigned_eq_0_iff)
  qed
  have s: "unat (?w + ?p) = (unat ?w + 8 * n) mod 2 ^ 32" by (rule count_step(1)[OF assms])
  have b: "unat ?w < 2 ^ 32" "8 * n < 2 ^ 32" "unat ?h < 2 ^ 32"
    using assms unsigned_less[of ?w] unsigned_less[of ?h] by simp_all
  show ?thesis
  proof (cases "unat ?w + 8 * n < 2 ^ 32")
    case True
    then have "\<not> ?w + ?p < ?w" using s by (simp add: word_less_nat_alt)
    then have "sha1_bits (sha1_counted c (of_nat n)) = sha1_bits c + 8 * n"
      using s True by (simp add: sha1_bits_def sha1_counted_def Let_def)
    moreover have "sha1_bits c + 8 * n < 2 ^ 64"
      unfolding sha1_bits_def using True b(3) by simp
    ultimately show ?thesis by simp
  next
    case False
    have m: "(unat ?w + 8 * n) mod 2 ^ 32 = unat ?w + 8 * n - 2 ^ 32"
      using False b by (simp add: le_mod_geq)
    then have "?w + ?p < ?w" using s b(2) False by (simp add: word_less_nat_alt)
    then have "sha1_bits (sha1_counted c (of_nat n)) = unat (?h + 1) * 2 ^ 32 + (unat ?w + 8 * n - 2 ^ 32)"
      using s m by (simp add: sha1_bits_def sha1_counted_def Let_def d)
    also have "unat (?h + 1) = (unat ?h + 1) mod 2 ^ 32" by (simp add: unat_word_ariths)
    also have "(unat ?h + 1) mod 2 ^ 32 * 2 ^ 32 + (unat ?w + 8 * n - 2 ^ 32) = (sha1_bits c + 8 * n) mod 2 ^ 64"
    proof (cases "unat ?h + 1 < 2 ^ 32")
      case True
      have "(unat ?h + 1) * 2 ^ 32 + (unat ?w + 8 * n - 2 ^ 32) < 2 ^ 64" using True b by simp
      moreover have "sha1_bits c + 8 * n = (unat ?h + 1) * 2 ^ 32 + (unat ?w + 8 * n - 2 ^ 32)"
        using False by (simp add: sha1_bits_def)
      ultimately show ?thesis using True by simp
    next
      case h: False
      then have h1: "unat ?h + 1 = 2 ^ 32" using b(3) by simp
      then have "sha1_bits c + 8 * n = 2 ^ 64 + (unat ?w + 8 * n - 2 ^ 32)"
        using False by (simp add: sha1_bits_def)
      then show ?thesis unfolding h1 using b by simp
    qed
    finally show ?thesis .
  qed
qed

lemma SHA1Update_counted:
  assumes "sha1_ok c" and "sha1_small xs" and "SHA1Update c xs (of_nat (length xs)) = Some c'"
  shows "sha1_bits c' = (sha1_bits c + 8 * length xs) mod 2 ^ 64"
proof -
  have "sha1_bits c' = sha1_bits (sha1_counted c (of_nat (length xs)))"
    using SHA1Update_short[OF assms(1), of xs] SHA1Update_long[OF assms(1) _ assms(2)] assms(3)
    by (cases "sha1_used c + length xs < 64") (auto simp: sha1_bits_def not_less)
  then show ?thesis using sha1_bits_counted[of "length xs" c] assms(2) by (simp add: sha1_small_def)
qed

section \<open>The digest\<close>

lemma sha1_absorb:
  assumes "sha1.absorbed s0 msg c" and "sha1_small xs"
  obtains c' where "SHA1Update c xs (of_nat (length xs)) = Some c'" "sha1.absorbed s0 (msg @ xs) c'"
    "sha1_bits c' = (sha1_bits c + 8 * length xs) mod 2 ^ 64"
  using sha1.absorbed_update[OF assms] SHA1Update_counted[OF _ assms(2)] assms(1)
  unfolding sha1.absorbed_def by blast

lemma pad_reached: "sha_count0 c AND 504 = 448 \<longleftrightarrow> sha1_used c = 56"
proof -
  have "w AND push_bit 3 m = push_bit 3 (drop_bit 3 w AND m)" for w m :: u32
    by (rule bit_word_eqI) (auto simp: bit_simps)
  moreover have "(504 :: u32) = push_bit 3 63" by code_simp
  ultimately have e: "w AND 504 = push_bit 3 (drop_bit 3 w AND 63)" for w :: u32
    by (simp only:)
  have "drop_bit 3 (push_bit 3 (drop_bit 3 w AND 63)) = drop_bit 3 w AND 63" for w :: u32
    by (rule bit_word_eqI) (auto simp: bit_simps and_63 dest: bit_imp_le_length)
  moreover have "drop_bit 3 (448 :: u32) = 56" "push_bit 3 (56 :: u32) = 448" by code_simp+
  ultimately have "sha_count0 c AND 504 = 448 \<longleftrightarrow> drop_bit 3 (sha_count0 c) AND 63 = 56"
    unfolding e by metis
  also have "\<dots> \<longleftrightarrow> sha1_used c = 56"
  proof -
    have u56: "unat (56 :: u32) = 56" by simp
    show ?thesis
    unfolding sha1_used_def by (metis u56 unsigned_word_eqI)
  qed
  finally show ?thesis .
qed

definition zeros_left :: "nat \<Rightarrow> nat" where
  "zeros_left u = (120 - u) mod 64"

lemma zeros_left_step: "u < 64 \<Longrightarrow> u \<noteq> 56 \<Longrightarrow> zeros_left u = Suc (zeros_left (Suc u mod 64))"
  by (cases "u < 56"; cases "u = 63") (auto simp: zeros_left_def mod_if[of "_ - _"])

lemma sha1_pad_loop_eq:
  assumes "sha1.absorbed s0 msg c" and "zeros_left (sha1_used c) < n"
  shows "\<exists>c'. sha1_pad_loop n c = Some c' \<and>
    sha1.absorbed s0 (msg @ replicate (zeros_left (sha1_used c)) 0) c'"
  using assms
proof (induction n arbitrary: msg c)
  case (Suc n)
  show ?case
  proof (cases "sha1_used c = 56")
    case True
    then show ?thesis using Suc.prems(1) pad_reached[of c] by (simp add: zeros_left_def)
  next
    case False
    obtain c1 where c1: "SHA1Update c [0] (of_nat (length [0 :: u8])) = Some c1" "sha1.absorbed s0 (msg @ [0]) c1"
      by (rule sha1_absorb[OF Suc.prems(1), of "[0]"]) (auto simp: sha1_small_def)
    have u: "sha1_used c < 64" "sha1_used c = length msg mod 64" "sha1_used c1 = Suc (length msg) mod 64"
      using sha1_used_less sha1.absorbed_used[OF Suc.prems(1)] sha1.absorbed_used[OF c1(2)] by auto
    then have z: "zeros_left (sha1_used c) = Suc (zeros_left (sha1_used c1))"
      using zeros_left_step[OF u(1) False] by (simp add: mod_Suc_eq)
    then obtain c' where "sha1_pad_loop n c1 = Some c'"
      "sha1.absorbed s0 ((msg @ [0]) @ replicate (zeros_left (sha1_used c1)) 0) c'"
      using Suc.IH[OF c1(2)] Suc.prems(2) by auto
    then show ?thesis using c1(1) False pad_reached[of c] z by simp
  qed
qed simp

lemma zeros_left_needed: "zeros_left (Suc n mod 64) = zeros_needed n"
proof -
  have "n mod 64 < 64" by simp
  then show ?thesis
    by (cases "n mod 64 = 63") (simp_all add: zeros_left_def zeros_needed_def mod_Suc)
qed

text \<open>The bytes that \<open>SHA1Final\<close> takes from the counters are the length in bits.\<close>

lemma ucast_and_255: "(ucast (w AND 255 :: u32) :: u8) = ucast w"
proof -
  have "w AND 255 = take_bit 8 w" by (simp add: take_bit_eq_mask mask_eq_exp_minus_1)
  then show ?thesis by (simp only:) (rule bit_word_eqI, auto simp: bit_simps)
qed

lemma sha1_finalcount:
  assumes "sha1_bits c = n"
  shows "map (\<lambda>i. ucast (drop_bit ((3 - i mod 4) * 8)
      (if 4 \<le> i then sha_count0 c else sha_count1 c) AND 255)) [0..<8] = be64 n"
proof -
  have c0: "unat (sha_count0 c) = n mod 2 ^ 32" and c1: "unat (sha_count1 c) = n div 2 ^ 32"
  proof -
    have "unat (sha_count0 c) < 2 ^ LENGTH(32)" by (rule unsigned_less)
    then show "unat (sha_count0 c) = n mod 2 ^ 32" "unat (sha_count1 c) = n div 2 ^ 32"
      using assms by (auto simp: sha1_bits_def)
  qed
  have "ucast (drop_bit ((3 - i mod 4) * 8) (if 4 \<le> i then sha_count0 c else sha_count1 c) AND 255) =
      (of_nat (n div 2 ^ (8 * (7 - i))) :: u8)" if "i < 8" for i
  proof (cases "4 \<le> i")
    case True
    have e: "(3 - i mod 4) * 8 = 8 * (7 - i)" using True that by (simp add: mod_if)
    show ?thesis
      using True that of_nat_low_byte[of "8 * (7 - i)" n]
      by (simp add: e ucast_and_255 ucast_drop_bit_nat c0 del: of_nat_div)
  next
    case False
    have e: "8 * (7 - i) = 32 + (3 - i mod 4) * 8" using False by simp
    show ?thesis
      using False by (simp add: e ucast_and_255 ucast_drop_bit_nat c1 power_add div_mult2_eq del: of_nat_div)
  qed
  then show ?thesis by (simp add: be64_def)
qed

lemma compress_sha1_state:
  "compress_blocks SHA1Transform (sha1_state s) xs = sha1_state (compress_blocks sha1_compress s xs)"
  by (induction xs arbitrary: s rule: block_induct) (simp_all add: compress_short compress_block SHA1Transform_eq)

lemma sha1_output:
  "map (\<lambda>i. ucast (drop_bit ((3 - i mod 4) * 8) (sha1_state s ! (i div 4)) AND 255)) [0..<20] = sha1_bytes s"
proof -
  have "[0..<20] = [0, 1, 2, 3, 4, 5, 6, 7, 8, 9, 10, 11, 12, 13, 14, 15, 16, 17, 18, 19]" by code_simp
  then show ?thesis by (cases s) (simp add: sha1_state_def ucast_and_255 le32_def)
qed

lemma SHA1Final_eq:
  assumes "sha1.absorbed (sha1_state sha1_initial) msg c" and "sha1_bits c = 8 * length msg"
  shows "\<exists>c'. SHA1Final c = Some (sha1 msg, c')"
proof -
  let ?s = "sha1_state sha1_initial" and ?z = "zeros_needed (length msg)"
  obtain c1 where c1: "SHA1Update c [0x80] (of_nat (length [0x80 :: u8])) = Some c1" "sha1.absorbed ?s (msg @ [0x80]) c1"
    by (rule sha1_absorb[OF assms(1), of "[0x80]"]) (auto simp: sha1_small_def)
  have z: "zeros_left (sha1_used c1) = ?z"
    using sha1.absorbed_used[OF c1(2)] by (simp add: zeros_left_needed)
  have "?z < 64" by (simp add: zeros_needed_def)
  then obtain c2 where c2: "sha1_pad_loop 64 c1 = Some c2" "sha1.absorbed ?s ((msg @ [0x80]) @ replicate ?z 0) c2"
    using sha1_pad_loop_eq[OF c1(2), of 64] z by auto
  let ?fc = "map (\<lambda>i. ucast (drop_bit ((3 - i mod 4) * 8) (if 4 \<le> i then sha_count0 c else sha_count1 c) AND 255)) [0..<8] :: u8 list"
  have fc: "?fc = be64 (8 * length msg)" by (rule sha1_finalcount[OF assms(2)])
  obtain c3 where c3: "SHA1Update c2 ?fc (of_nat (length ?fc)) = Some c3"
      "sha1.absorbed ?s (((msg @ [0x80]) @ replicate ?z 0) @ ?fc) c3"
    by (rule sha1_absorb[OF c2(2), of ?fc]) (auto simp: sha1_small_def)
  have "sha_state c3 = sha1_state (compress_blocks sha1_compress sha1_initial (pad_with be64 msg))"
    using c3(2) by (simp add: sha1.absorbed_def compress_sha1_state pad_with_def fc)
  then show ?thesis
    using c1(1) c2(1) c3(1) unfolding SHA1Final_def Let_def
    by (simp add: sha1_output sha1_def del: upt_rec_numeral)
qed

lemma sha1_start:
  assumes "length (sha_buffer c) = 64"
  shows "sha1.absorbed (sha1_state sha1_initial) [] (SHA1Init c)" and "sha1_bits (SHA1Init c) = 0"
proof -
  have "sha1.absorbed (sha_state (SHA1Init c)) [] (SHA1Init c)"
    using assms by (intro sha1.absorbed_start) (simp_all add: SHA1Init_def sha1_ok_def sha1_used_def)
  then show "sha1.absorbed (sha1_state sha1_initial) [] (SHA1Init c)"
    by (simp add: SHA1Init_def sha1_state_def sha1_initial_def)
  show "sha1_bits (SHA1Init c) = 0" by (simp add: SHA1Init_def sha1_bits_def)
qed

section \<open>Properties\<close>

text \<open>
  C29. \<open>SHA1_digest\<close> of a buffer of less than \<open>2 ^ 29\<close> bytes is the SHA-1 digest of the standard, with its padding, message
  schedule and eighty steps, whatever the uninitialised local context holds.
\<close>

theorem SHA1_digest_correct:
  assumes "length (sha_buffer ctx) = 64" and "length buf < 2 ^ 29"
  shows "SHA1_digest ctx buf (of_nat (length buf)) = Some (sha1 buf)"
proof -
  note st = sha1_start[OF assms(1)]
  obtain c where c: "SHA1Update (SHA1Init ctx) buf (of_nat (length buf)) = Some c"
      "sha1.absorbed (sha1_state sha1_initial) ([] @ buf) c"
      "sha1_bits c = (sha1_bits (SHA1Init ctx) + 8 * length buf) mod 2 ^ 64"
    by (rule sha1_absorb[OF st(1), of buf]) (use assms(2) in \<open>auto simp: sha1_small_def\<close>)
  have "sha1_bits c = 8 * length buf" using c(3) st(2) assms(2) by simp
  then obtain c' where "SHA1Final c = Some (sha1 buf, c')" using SHA1Final_eq[of buf c] c(2) by auto
  then show ?thesis using c(1) by (simp add: SHA1_digest_def)
qed

theorem SHA1_digest_correct_witness:
  "SHA1_digest \<lparr>sha_state = [], sha_count0 = 5, sha_count1 = 6, sha_buffer = replicate 64 9\<rparr> [0x61, 0x62, 0x63] 3 =
     Some (sha1 [0x61, 0x62, 0x63])"
  using SHA1_digest_correct[of "\<lparr>sha_state = [], sha_count0 = 5, sha_count1 = 6, sha_buffer = replicate 64 9\<rparr>"
    "[0x61, 0x62, 0x63]"] by simp

lemma sha1_absorb_chunks:
  assumes "sha1.absorbed s0 msg c" and "sha1_bits c = 8 * length msg mod 2 ^ 64"
    and "\<forall>xs \<in> set xss. sha1_small xs"
  shows "\<exists>c'. foldl (\<lambda>r xs. Option.bind r (\<lambda>c. SHA1Update c xs (of_nat (length xs)))) (Some c) xss = Some c' \<and>
     sha1.absorbed s0 (msg @ concat xss) c' \<and> sha1_bits c' = 8 * length (msg @ concat xss) mod 2 ^ 64"
  using assms
proof (induction xss arbitrary: msg c)
  case (Cons xs xss)
  obtain c1 where c1: "SHA1Update c xs (of_nat (length xs)) = Some c1" "sha1.absorbed s0 (msg @ xs) c1"
      "sha1_bits c1 = (sha1_bits c + 8 * length xs) mod 2 ^ 64"
    by (rule sha1_absorb[OF Cons.prems(1), of xs]) (use Cons.prems(3) in auto)
  then have "sha1_bits c1 = 8 * length (msg @ xs) mod 2 ^ 64"
    using Cons.prems(2) by (simp add: mod_add_left_eq)
  then show ?case using Cons.IH[OF c1(2)] Cons.prems(3) c1(1) by simp
qed simp

text \<open>
  C31. A message given to \<open>SHA1Update\<close> in pieces of less than \<open>2 ^ 29\<close> bytes, cut in any way, and finished by \<open>SHA1Final\<close>
  gives the digest of the whole message, up to the \<open>2 ^ 61\<close> bytes the standard allows.
\<close>

theorem SHA1_streaming:
  assumes "length (sha_buffer ctx) = 64" and "\<forall>xs \<in> set pieces. length xs < 2 ^ 29"
    and "length (concat pieces) < 2 ^ 61"
  shows "\<exists>c c'. foldl (\<lambda>r xs. Option.bind r (\<lambda>c. SHA1Update c xs (of_nat (length xs)))) (Some (SHA1Init ctx)) pieces = Some c \<and>
     SHA1Final c = Some (sha1 (concat pieces), c')"
proof -
  obtain c where c: "foldl (\<lambda>r xs. Option.bind r (\<lambda>c. SHA1Update c xs (of_nat (length xs)))) (Some (SHA1Init ctx)) pieces = Some c"
    "sha1.absorbed (sha1_state sha1_initial) (concat pieces) c" "sha1_bits c = 8 * length (concat pieces) mod 2 ^ 64"
    using sha1_absorb_chunks[OF sha1_start(1)[OF assms(1)], of pieces] sha1_start(2)[OF assms(1)] assms(2)
    by (auto simp: sha1_small_def)
  then show ?thesis using SHA1Final_eq[OF c(2)] assms(3) by auto
qed

theorem SHA1_streaming_witness:
  "\<exists>c c'. foldl (\<lambda>r xs. Option.bind r (\<lambda>c. SHA1Update c xs (of_nat (length xs))))
       (Some (SHA1Init \<lparr>sha_state = [], sha_count0 = 5, sha_count1 = 6, sha_buffer = replicate 64 9\<rparr>)) [[0x61], [0x62, 0x63]] = Some c \<and>
     SHA1Final c = Some (sha1 [0x61, 0x62, 0x63], c')"
  using SHA1_streaming[of "\<lparr>sha_state = [], sha_count0 = 5, sha_count1 = 6, sha_buffer = replicate 64 9\<rparr>"
    "[[0x61], [0x62, 0x63]]"] by simp

end
