(* ===== verification/Md5.thy ===== *)
theory Md5
  imports HashStream
begin

text \<open>
  MD5, \<open>src/src/crypto/md5.c\<close>, as it is compiled for x86-64: \<open>SET\<close> and \<open>GET\<close> read the words of the data
  in place, and the member \<open>block\<close> of the context is not used. The functions keep their names. The registers \<open>a\<close> to \<open>d\<close> are numbered 0 to 3 and
  the unrolled rounds are the list of their macro calls. \<open>None\<close> is an access outside the data.
\<close>

section \<open>The compression function\<close>

datatype md5_fn = MD5_F | MD5_G | MD5_H | MD5_H2 | MD5_I

fun md5_apply :: "md5_fn \<Rightarrow> u32 \<Rightarrow> u32 \<Rightarrow> u32 \<Rightarrow> u32" where
  "md5_apply MD5_F x y z = z XOR (x AND (y XOR z))"
| "md5_apply MD5_G x y z = y XOR (z AND (x XOR y))"
| "md5_apply MD5_H x y z = (x XOR y) XOR z"
| "md5_apply MD5_H2 x y z = x XOR (y XOR z)"
| "md5_apply MD5_I x y z = y XOR (x OR NOT z)"

datatype md5_op = STEP md5_fn nat nat nat nat nat u32 nat

text \<open>\<open>STEP(f, a, b, c, d, x, t, s)\<close>, where \<open>x\<close> is word \<open>n\<close> of the block.\<close>

fun md5_exec :: "u8 list \<Rightarrow> md5_op \<Rightarrow> u32 list \<Rightarrow> u32 list" where
  "md5_exec p (STEP f a b c d n t s) r =
     (let v = r ! a + (md5_apply f (r ! b) (r ! c) (r ! d) + load32 p (n * 4) + t);
          v = push_bit s v OR drop_bit (32 - s) (v AND 0xffffffff);
          v = v + r ! b
      in r[a := v])"

definition md5_rounds :: "md5_op list" where
  "md5_rounds =
     [STEP MD5_F 0 1 2 3 0 0xd76aa478 7, STEP MD5_F 3 0 1 2 1 0xe8c7b756 12,
      STEP MD5_F 2 3 0 1 2 0x242070db 17, STEP MD5_F 1 2 3 0 3 0xc1bdceee 22,
      STEP MD5_F 0 1 2 3 4 0xf57c0faf 7, STEP MD5_F 3 0 1 2 5 0x4787c62a 12,
      STEP MD5_F 2 3 0 1 6 0xa8304613 17, STEP MD5_F 1 2 3 0 7 0xfd469501 22,
      STEP MD5_F 0 1 2 3 8 0x698098d8 7, STEP MD5_F 3 0 1 2 9 0x8b44f7af 12,
      STEP MD5_F 2 3 0 1 10 0xffff5bb1 17, STEP MD5_F 1 2 3 0 11 0x895cd7be 22,
      STEP MD5_F 0 1 2 3 12 0x6b901122 7, STEP MD5_F 3 0 1 2 13 0xfd987193 12,
      STEP MD5_F 2 3 0 1 14 0xa679438e 17, STEP MD5_F 1 2 3 0 15 0x49b40821 22,
      STEP MD5_G 0 1 2 3 1 0xf61e2562 5, STEP MD5_G 3 0 1 2 6 0xc040b340 9,
      STEP MD5_G 2 3 0 1 11 0x265e5a51 14, STEP MD5_G 1 2 3 0 0 0xe9b6c7aa 20,
      STEP MD5_G 0 1 2 3 5 0xd62f105d 5, STEP MD5_G 3 0 1 2 10 0x02441453 9,
      STEP MD5_G 2 3 0 1 15 0xd8a1e681 14, STEP MD5_G 1 2 3 0 4 0xe7d3fbc8 20,
      STEP MD5_G 0 1 2 3 9 0x21e1cde6 5, STEP MD5_G 3 0 1 2 14 0xc33707d6 9,
      STEP MD5_G 2 3 0 1 3 0xf4d50d87 14, STEP MD5_G 1 2 3 0 8 0x455a14ed 20,
      STEP MD5_G 0 1 2 3 13 0xa9e3e905 5, STEP MD5_G 3 0 1 2 2 0xfcefa3f8 9,
      STEP MD5_G 2 3 0 1 7 0x676f02d9 14, STEP MD5_G 1 2 3 0 12 0x8d2a4c8a 20,
      STEP MD5_H 0 1 2 3 5 0xfffa3942 4, STEP MD5_H2 3 0 1 2 8 0x8771f681 11,
      STEP MD5_H 2 3 0 1 11 0x6d9d6122 16, STEP MD5_H2 1 2 3 0 14 0xfde5380c 23,
      STEP MD5_H 0 1 2 3 1 0xa4beea44 4, STEP MD5_H2 3 0 1 2 4 0x4bdecfa9 11,
      STEP MD5_H 2 3 0 1 7 0xf6bb4b60 16, STEP MD5_H2 1 2 3 0 10 0xbebfbc70 23,
      STEP MD5_H 0 1 2 3 13 0x289b7ec6 4, STEP MD5_H2 3 0 1 2 0 0xeaa127fa 11,
      STEP MD5_H 2 3 0 1 3 0xd4ef3085 16, STEP MD5_H2 1 2 3 0 6 0x04881d05 23,
      STEP MD5_H 0 1 2 3 9 0xd9d4d039 4, STEP MD5_H2 3 0 1 2 12 0xe6db99e5 11,
      STEP MD5_H 2 3 0 1 15 0x1fa27cf8 16, STEP MD5_H2 1 2 3 0 2 0xc4ac5665 23,
      STEP MD5_I 0 1 2 3 0 0xf4292244 6, STEP MD5_I 3 0 1 2 7 0x432aff97 10,
      STEP MD5_I 2 3 0 1 14 0xab9423a7 15, STEP MD5_I 1 2 3 0 5 0xfc93a039 21,
      STEP MD5_I 0 1 2 3 12 0x655b59c3 6, STEP MD5_I 3 0 1 2 3 0x8f0ccc92 10,
      STEP MD5_I 2 3 0 1 10 0xffeff47d 15, STEP MD5_I 1 2 3 0 1 0x85845dd1 21,
      STEP MD5_I 0 1 2 3 8 0x6fa87e4f 6, STEP MD5_I 3 0 1 2 15 0xfe2ce6e0 10,
      STEP MD5_I 2 3 0 1 6 0xa3014314 15, STEP MD5_I 1 2 3 0 13 0x4e0811a1 21,
      STEP MD5_I 0 1 2 3 4 0xf7537e82 6, STEP MD5_I 3 0 1 2 11 0xbd3af235 10,
      STEP MD5_I 2 3 0 1 2 0x2ad7d2bb 15, STEP MD5_I 1 2 3 0 9 0xeb86d391 21]"

type_synonym md5_regs = "u32 \<times> u32 \<times> u32 \<times> u32"

text \<open>One pass of the loop of \<open>body\<close>.\<close>

fun md5_block :: "md5_regs \<Rightarrow> u8 list \<Rightarrow> md5_regs" where
  "md5_block (a, b, c, d) p =
     (let r = fold (md5_exec p) md5_rounds [a, b, c, d]
      in (r ! 0 + a, r ! 1 + b, r ! 2 + c, r ! 3 + d))"

text \<open>
  The loop \<open>do ... while (size -= 64)\<close> from offset \<open>p\<close> of the data: the registers and the offset behind the last block.
\<close>

function body_loop :: "md5_regs \<Rightarrow> u8 list \<Rightarrow> nat \<Rightarrow> u64 \<Rightarrow> (md5_regs \<times> nat) option" where
  "body_loop s data p sz =
     (case read_range data p 64 of
        None \<Rightarrow> None
      | Some b \<Rightarrow>
          let s = md5_block s b in
          if sz - 64 = 0 then Some (s, p + 64) else body_loop s data (p + 64) (sz - 64))"
  by pat_completeness auto
termination
  by (relation "measure (\<lambda>(s, data, p, sz). length data - p)") (auto simp: read_range_def split: if_splits)

section \<open>The context\<close>

record MD5_CTX =
  md5_lo :: u32
  md5_hi :: u32
  md5_abcd :: md5_regs
  md5_buffer :: "u8 list"

definition body :: "MD5_CTX \<Rightarrow> u8 list \<Rightarrow> nat \<Rightarrow> u64 \<Rightarrow> (MD5_CTX \<times> nat) option" where
  "body ctx data p sz =
     (case body_loop (md5_abcd ctx) data p sz of
        None \<Rightarrow> None
      | Some (s, q) \<Rightarrow> Some (ctx\<lparr>md5_abcd := s\<rparr>, q))"

definition MD5_Init :: "MD5_CTX \<Rightarrow> MD5_CTX" where
  "MD5_Init ctx = ctx\<lparr>md5_abcd := (0x67452301, 0xefcdab89, 0x98badcfe, 0x10325476), md5_lo := 0, md5_hi := 0\<rparr>"

text \<open>The two counters: 29 bits of bytes in \<open>lo\<close>, the rest in \<open>hi\<close>.\<close>

definition md5_count :: "MD5_CTX \<Rightarrow> u64 \<Rightarrow> MD5_CTX" where
  "md5_count ctx sz =
     (let saved_lo = md5_lo ctx;
          ctx = ctx\<lparr>md5_lo := ucast ((ucast saved_lo + sz) AND 0x1fffffff)\<rparr>;
          ctx = (if md5_lo ctx < saved_lo then ctx\<lparr>md5_hi := md5_hi ctx + 1\<rparr> else ctx)
      in ctx\<lparr>md5_hi := ucast (ucast (md5_hi ctx) + drop_bit 29 sz)\<rparr>)"

text \<open>The part of \<open>MD5_Update\<close> behind the \<open>if (used)\<close>: whole blocks of the data from offset \<open>p\<close>, then the rest.\<close>

definition md5_tail :: "MD5_CTX \<Rightarrow> u8 list \<Rightarrow> nat \<Rightarrow> u64 \<Rightarrow> MD5_CTX option" where
  "md5_tail ctx data p sz =
     do { (ctx, p, sz) \<leftarrow>
            (if sz \<ge> 64
             then do { (ctx, p) \<leftarrow> body ctx data p (sz AND NOT 0x3f); Some (ctx, p, sz AND 0x3f) }
             else Some (ctx, p, sz));
          b \<leftarrow> memcpy_at (md5_buffer ctx) 0 data p (unat sz);
          Some (ctx\<lparr>md5_buffer := b\<rparr>) }"

definition MD5_Update :: "MD5_CTX \<Rightarrow> u8 list \<Rightarrow> u64 \<Rightarrow> MD5_CTX option" where
  "MD5_Update ctx data sz =
     (let used = ucast (md5_lo ctx AND 0x3f) :: u64;
          ctx = md5_count ctx sz
      in if used \<noteq> 0
         then let available = 64 - used in
              if sz < available
              then do { b \<leftarrow> memcpy_at (md5_buffer ctx) (unat used) data 0 (unat sz);
                        Some (ctx\<lparr>md5_buffer := b\<rparr>) }
              else do { b \<leftarrow> memcpy_at (md5_buffer ctx) (unat used) data 0 (unat available);
                        let ctx = ctx\<lparr>md5_buffer := b\<rparr>;
                        (ctx, _) \<leftarrow> body ctx (md5_buffer ctx) 0 64;
                        md5_tail ctx data (unat available) (sz - available) }
         else md5_tail ctx data 0 sz)"

text \<open>\<open>MD5_Final\<close>: the digest, and the context set to zeros.\<close>

definition MD5_Final :: "MD5_CTX \<Rightarrow> (u8 list \<times> MD5_CTX) option" where
  "MD5_Final ctx =
     (let used = unat (md5_lo ctx AND 0x3f) in
      do { buf \<leftarrow> write_range (md5_buffer ctx) used [0x80];
           let used = used + 1;
           let available = 64 - used;
           (ctx, buf, used, available) \<leftarrow>
             (if available < 8
              then do { buf \<leftarrow> memset_at buf used 0 available;
                        (ctx, _) \<leftarrow> body ctx buf 0 64;
                        Some (ctx, buf, 0, 64) }
              else Some (ctx, buf, used, available));
           buf \<leftarrow> memset_at buf used 0 (available - 8);
           let lo = push_bit 3 (md5_lo ctx);
           let hi = md5_hi ctx;
           buf \<leftarrow> write_range buf 56
             [ucast lo, ucast (drop_bit 8 lo), ucast (drop_bit 16 lo), ucast (drop_bit 24 lo),
              ucast hi, ucast (drop_bit 8 hi), ucast (drop_bit 16 hi), ucast (drop_bit 24 hi)];
           (ctx, _) \<leftarrow> body ctx buf 0 64;
           let (a, b, c, d) = md5_abcd ctx;
           Some (le32 a @ le32 b @ le32 c @ le32 d,
                 \<lparr>md5_lo = 0, md5_hi = 0, md5_abcd = (0, 0, 0, 0), md5_buffer = replicate 64 0\<rparr>) })"

section \<open>The standard\<close>

definition rotl32 :: "u32 \<Rightarrow> nat \<Rightarrow> u32" where
  "rotl32 x n = push_bit n x OR drop_bit (32 - n) x"

text \<open>The auxiliary function, the index of the word, the constant and the rotation of step \<open>i\<close>.\<close>

definition md5_f :: "nat \<Rightarrow> u32 \<Rightarrow> u32 \<Rightarrow> u32 \<Rightarrow> u32" where
  "md5_f i x y z =
     (if i < 16 then (x AND y) OR (NOT x AND z)
      else if i < 32 then (x AND z) OR (y AND NOT z)
      else if i < 48 then x XOR y XOR z
      else y XOR (x OR NOT z))"

definition md5_k :: "nat \<Rightarrow> nat" where
  "md5_k i = (if i < 16 then i else if i < 32 then (5 * i + 1) mod 16
              else if i < 48 then (3 * i + 5) mod 16 else 7 * i mod 16)"

definition md5_T :: "u32 list" where
  "md5_T =
    [0xd76aa478, 0xe8c7b756, 0x242070db, 0xc1bdceee, 0xf57c0faf, 0x4787c62a, 0xa8304613, 0xfd469501,
     0x698098d8, 0x8b44f7af, 0xffff5bb1, 0x895cd7be, 0x6b901122, 0xfd987193, 0xa679438e, 0x49b40821,
     0xf61e2562, 0xc040b340, 0x265e5a51, 0xe9b6c7aa, 0xd62f105d, 0x02441453, 0xd8a1e681, 0xe7d3fbc8,
     0x21e1cde6, 0xc33707d6, 0xf4d50d87, 0x455a14ed, 0xa9e3e905, 0xfcefa3f8, 0x676f02d9, 0x8d2a4c8a,
     0xfffa3942, 0x8771f681, 0x6d9d6122, 0xfde5380c, 0xa4beea44, 0x4bdecfa9, 0xf6bb4b60, 0xbebfbc70,
     0x289b7ec6, 0xeaa127fa, 0xd4ef3085, 0x04881d05, 0xd9d4d039, 0xe6db99e5, 0x1fa27cf8, 0xc4ac5665,
     0xf4292244, 0x432aff97, 0xab9423a7, 0xfc93a039, 0x655b59c3, 0x8f0ccc92, 0xffeff47d, 0x85845dd1,
     0x6fa87e4f, 0xfe2ce6e0, 0xa3014314, 0x4e0811a1, 0xf7537e82, 0xbd3af235, 0x2ad7d2bb, 0xeb86d391]"

definition md5_s :: "nat \<Rightarrow> nat" where
  "md5_s i = [[7, 12, 17, 22], [5, 9, 14, 20], [4, 11, 16, 23], [6, 10, 15, 21]] ! (i div 16) ! (i mod 4)"

fun md5_step :: "u8 list \<Rightarrow> nat \<Rightarrow> md5_regs \<Rightarrow> md5_regs" where
  "md5_step p i (a, b, c, d) =
     (d, b + rotl32 (a + md5_f i b c d + load32 p (4 * md5_k i) + md5_T ! i) (md5_s i), b, c)"

primrec md5_steps :: "u8 list \<Rightarrow> nat \<Rightarrow> md5_regs \<Rightarrow> md5_regs" where
  "md5_steps p 0 s = s"
| "md5_steps p (Suc i) s = md5_step p i (md5_steps p i s)"

fun md5_compress :: "md5_regs \<Rightarrow> u8 list \<Rightarrow> md5_regs" where
  "md5_compress (a, b, c, d) p =
     (let (a', b', c', d') = md5_steps p 64 (a, b, c, d) in (a' + a, b' + b, c' + c, d' + d))"

definition md5_initial :: md5_regs where
  "md5_initial = (0x67452301, 0xefcdab89, 0x98badcfe, 0x10325476)"

fun md5_bytes :: "md5_regs \<Rightarrow> u8 list" where
  "md5_bytes (a, b, c, d) = le32 a @ le32 b @ le32 c @ le32 d"

text \<open>The digest of a message.\<close>

definition md5 :: "u8 list \<Rightarrow> u8 list" where
  "md5 msg = md5_bytes (compress_blocks md5_compress md5_initial (pad_with le64 msg))"

end
