(* ===== verification/Md5Correct.thy ===== *)
theory Md5Correct
  imports Md5
begin

text \<open>
  \<open>src/src/crypto/md5.c\<close> computes MD5: the unrolled rounds over rotating registers are the 64 steps of
  the standard, \<open>MD5_Update\<close> is an update function of \<open>hash_stream\<close>, and \<open>MD5_Final\<close> returns the digest of the
  standard.
\<close>

section \<open>The rounds\<close>

definition md5_op_at :: "nat \<Rightarrow> md5_op" where
  "md5_op_at i =
     STEP (if i < 16 then MD5_F else if i < 32 then MD5_G
           else if i < 48 then (if i mod 2 = 0 then MD5_H else MD5_H2) else MD5_I)
       (3 * i mod 4) ((3 * i + 1) mod 4) ((3 * i + 2) mod 4) ((3 * i + 3) mod 4) (md5_k i) (md5_T ! i) (md5_s i)"

lemma md5_rounds_eq: "md5_rounds = map md5_op_at [0..<64]"
  by code_simp

lemma md5_functions:
  "z XOR (x AND (y XOR z)) = (x AND y) OR (NOT x AND (z :: u32))"
  "y XOR (z AND (x XOR y)) = (x AND z) OR (y AND NOT (z :: u32))"
  by (rule bit_word_eqI; auto simp: bit_simps)+

lemma and_full: "(w :: u32) AND 0xffffffff = w"
proof -
  have "(0xffffffff :: u32) = -1" by code_simp
  then show ?thesis by (simp only: and.right_neutral)
qed

lemma md5_apply_at:
  "md5_apply (if i < 16 then MD5_F else if i < 32 then MD5_G
           else if i < 48 then (if i mod 2 = 0 then MD5_H else MD5_H2) else MD5_I) x y z = md5_f i x y z"
  using md5_functions(1)[of z x y] md5_functions(2)[of y z x] by (simp add: md5_f_def xor.assoc)

lemma md5_exec_at:
  "md5_exec p (md5_op_at i) r =
     r[3 * i mod 4 := r ! ((3 * i + 1) mod 4) +
        rotl32 (r ! (3 * i mod 4) +
          md5_f i (r ! ((3 * i + 1) mod 4)) (r ! ((3 * i + 2) mod 4)) (r ! ((3 * i + 3) mod 4)) +
          load32 p (4 * md5_k i) + md5_T ! i) (md5_s i)]"
  unfolding md5_op_at_def md5_exec.simps md5_apply_at and_full Let_def rotl32_def
  by (simp add: add_ac mult.commute)

definition md5_regs_in :: "nat \<Rightarrow> u32 list \<Rightarrow> md5_regs \<Rightarrow> bool" where
  "md5_regs_in i r s = (length r = 4 \<and>
     (r ! (3 * i mod 4), r ! ((3 * i + 1) mod 4), r ! ((3 * i + 2) mod 4), r ! ((3 * i + 3) mod 4)) = s)"

lemma list4: "length r = 4 \<Longrightarrow> \<exists>a b c d. r = [a, b, c, d]"
  by (auto simp: numeral_eq_Suc length_Suc_conv)

lemma md5_regs_step:
  assumes "md5_regs_in i r (a, b, c, d)"
  shows "md5_regs_in (Suc i) (r[3 * i mod 4 := v]) (d, v, b, c)"
proof -
  obtain r0 r1 r2 r3 where r: "r = [r0, r1, r2, r3]"
    using assms list4[of r] by (auto simp: md5_regs_in_def)
  have m0: "3 * i mod 4 = 3 * (i mod 4) mod 4" by (rule mod_mult_right_eq[symmetric])
  have m: "(3 * i + k) mod 4 = (3 * (i mod 4) + k) mod 4" for k
    using mod_add_left_eq[of "3 * i" 4 k] mod_add_left_eq[of "3 * (i mod 4)" 4 k] m0 by simp
  have S: "3 * Suc i mod 4 = (3 * i + 3) mod 4" "(3 * Suc i + k) mod 4 = (3 * i + (3 + k)) mod 4" for k
    by (simp_all add: algebra_simps)
  have "i mod 4 = 0 \<or> i mod 4 = 1 \<or> i mod 4 = 2 \<or> i mod 4 = 3" by linarith
  then show ?thesis
    using assms unfolding md5_regs_in_def S unfolding m m0 r by (elim disjE) auto
qed

lemma md5_fold:
  assumes "n \<le> 64"
  shows "md5_regs_in n (fold (md5_exec p) (map md5_op_at [0..<n]) [a, b, c, d]) (md5_steps p n (a, b, c, d))"
  using assms
proof (induction n)
  case (Suc n)
  let ?r = "fold (md5_exec p) (map md5_op_at [0..<n]) [a, b, c, d]"
  obtain va vb vc vd where v: "md5_steps p n (a, b, c, d) = (va, vb, vc, vd)" by (metis prod.collapse)
  have IH: "md5_regs_in n ?r (va, vb, vc, vd)" using Suc v by simp
  then have "md5_exec p (md5_op_at n) ?r = ?r[3 * n mod 4 := vb +
      rotl32 (va + md5_f n vb vc vd + load32 p (4 * md5_k n) + md5_T ! n) (md5_s n)]"
    unfolding md5_exec_at by (simp add: md5_regs_in_def)
  then show ?case using md5_regs_step[OF IH] v by simp
qed (simp add: md5_regs_in_def)

lemma md5_block_eq: "md5_block s p = md5_compress s p"
proof -
  obtain a b c d where s: "s = (a, b, c, d)" by (cases s) auto
  obtain va vb vc vd where v: "md5_steps p 64 (a, b, c, d) = (va, vb, vc, vd)" by (metis prod.collapse)
  have "md5_regs_in 64 (fold (md5_exec p) md5_rounds [a, b, c, d]) (va, vb, vc, vd)"
    unfolding md5_rounds_eq using md5_fold[of 64 p a b c d] v by simp
  then show ?thesis unfolding s using v by (simp add: md5_regs_in_def)
qed

lemma md5_block_fun: "md5_block = md5_compress"
  by (intro ext md5_block_eq)

section \<open>Whole blocks\<close>

lemma body_loop_eq:
  assumes "p + 64 * Suc n \<le> length data" and "length data < 2 ^ 64"
  shows "body_loop s data p (of_nat (64 * Suc n)) =
    Some (compress_blocks md5_compress s (take (64 * Suc n) (drop p data)), p + 64 * Suc n)"
  using assms(1)
proof (induction n arbitrary: s p)
  case 0
  then show ?case
    by (subst body_loop.simps) (simp add: mem_simps md5_block_eq compress_blocks.simps[of _ _ "take 64 _"] compress_short)
next
  case (Suc n)
  let ?b = "take 64 (drop p data)"
  have nz: "of_nat (64 * Suc (Suc n)) - 64 = (of_nat (64 * Suc n) :: u64)" "(of_nat (64 * Suc n) :: u64) \<noteq> 0"
  proof -
    show "of_nat (64 * Suc (Suc n)) - 64 = (of_nat (64 * Suc n) :: u64)" by simp
    have "unat (of_nat (64 * Suc n) :: u64) = 64 * Suc n"
      using Suc.prems assms(2) by (simp only: unat_of_nat) simp
    then show "(of_nat (64 * Suc n) :: u64) \<noteq> 0" by (metis mult_eq_0_iff nat.distinct(1) unat_0 zero_neq_numeral)
  qed
  have "body_loop s data p (of_nat (64 * Suc (Suc n))) =
      body_loop (md5_compress s ?b) data (p + 64) (of_nat (64 * Suc n))"
    using Suc.prems nz by (subst body_loop.simps) (simp add: mem_simps md5_block_eq Let_def del: of_nat_mult of_nat_Suc)
  also have "\<dots> = Some (compress_blocks md5_compress (md5_compress s ?b) (take (64 * Suc n) (drop (p + 64) data)),
      p + 64 + 64 * Suc n)"
    using Suc.prems by (intro Suc.IH) simp
  also have "take (64 * Suc n) (drop (p + 64) data) = take (64 * Suc n) (drop 64 (drop p data))"
    by (simp add: add.commute)
  also have "compress_blocks md5_compress (md5_compress s ?b) (take (64 * Suc n) (drop 64 (drop p data))) =
      compress_blocks md5_compress s (take (64 * Suc (Suc n)) (drop p data))"
  proof -
    have "take (64 * Suc (Suc n)) (drop p data) = ?b @ take (64 * Suc n) (drop 64 (drop p data))"
      using take_add[of 64 "64 * Suc n" "drop p data"] by simp
    then show ?thesis using Suc.prems by (simp add: compress_block)
  qed
  finally show ?case by (simp add: add.assoc)
qed

lemma and_63_u64:
  assumes "n < 2 ^ 64"
  shows "unat (of_nat n AND 0x3f :: u64) = n mod 64"
    and "(of_nat n AND NOT 0x3f :: u64) = of_nat (64 * (n div 64))"
proof -
  have m: "(0x3f :: u64) = mask 6" by (simp add: mask_eq_exp_minus_1)
  have u: "unat (of_nat n :: u64) = n" using assms by (simp only: unat_of_nat) simp
  show *: "unat (of_nat n AND 0x3f :: u64) = n mod 64"
    unfolding m take_bit_eq_mask[symmetric] unsigned_take_bit_eq u by (simp add: take_bit_eq_mod)
  have "(of_nat n AND NOT 0x3f :: u64) = of_nat n - (of_nat n AND 0x3f)"
  proof -
    have "(w AND NOT v) + (w AND v) = w" for w v :: u64
    proof -
      have "(w AND NOT v) AND (w AND v) = 0" by (rule bit_word_eqI) (simp add: bit_simps)
      then have "(w AND NOT v) + (w AND v) = (w AND NOT v) OR (w AND v)" by (rule disjunctive_add_eq_or)
      also have "\<dots> = w" by (rule bit_word_eqI) (auto simp: bit_simps)
      finally show ?thesis .
    qed
    then show ?thesis by (metis add_diff_cancel_right')
  qed
  also have "of_nat n AND 0x3f = (of_nat (n mod 64) :: u64)"
    using * by (metis of_nat_unat ucast_id)
  also have "of_nat n - of_nat (n mod 64) = (of_nat (n - n mod 64) :: u64)" by (simp add: of_nat_diff)
  also have "n - n mod 64 = 64 * (n div 64)" by (simp add: minus_mod_eq_mult_div)
  finally show "(of_nat n AND NOT 0x3f :: u64) = of_nat (64 * (n div 64))" .
qed

text \<open>Only whole blocks matter for compression.\<close>

lemma compress_whole: "compress_blocks f s (take (64 * (length xs div 64)) xs) = compress_blocks f s xs"
proof -
  let ?k = "64 * (length xs div 64)"
  have l: "length (take ?k xs) = ?k" by simp
  have "rest (take ?k xs) = []" by (simp add: rest_def)
  then have "compress_blocks f s (take ?k xs @ drop ?k xs) =
      compress_blocks f (compress_blocks f s (take ?k xs)) (drop ?k xs)"
    by (simp only: compress_append append_Nil)
  moreover have "length (drop ?k xs) < 64" by (simp add: minus_mult_div_eq_mod)
  ultimately show ?thesis by (simp add: compress_short)
qed

lemma md5_tail_eq:
  assumes "p \<le> length data" and "length data < 2 ^ 64" and "length (md5_buffer ctx) = 64"
  defines "xs \<equiv> drop p data"
  shows "md5_tail ctx data p (of_nat (length data - p)) =
    Some (ctx\<lparr>md5_abcd := compress_blocks md5_compress (md5_abcd ctx) xs,
              md5_buffer := rest xs @ drop (length (rest xs)) (md5_buffer ctx)\<rparr>)"
proof -
  let ?n = "length data - p"
  have n: "?n < 2 ^ 64" "length xs = ?n" using assms(1,2) by (simp_all add: xs_def)
  have un: "unat (of_nat ?n :: u64) = ?n" using n(1) by (simp only: unat_of_nat) simp
  have ge: "(of_nat ?n :: u64) \<ge> 64 \<longleftrightarrow> ?n \<ge> 64" using un by (simp add: word_le_nat_alt)
  show ?thesis
  proof (cases "?n \<ge> 64")
    case False
    then have "rest xs = xs" "compress_blocks md5_compress (md5_abcd ctx) xs = md5_abcd ctx"
      using n by (simp_all add: rest_short compress_short)
    then show ?thesis
      unfolding md5_tail_def using False ge un assms(1,3) n
      by (simp add: memcpy_at_Some xs_def)
  next
    case True
    obtain k where k: "?n div 64 = Suc k" using True by (metis div_greater_zero_iff gr0_implies_Suc zero_less_numeral)
    have fits: "p + 64 * Suc k \<le> length data"
      using div_times_less_eq_dividend[of ?n 64] assms(1) unfolding k by simp
    have wb: "take (64 * Suc k) xs = take (64 * (length xs div 64)) xs" using n(2) k by simp
    have "body ctx data p (of_nat ?n AND NOT 0x3f) =
        Some (ctx\<lparr>md5_abcd := compress_blocks md5_compress (md5_abcd ctx) xs\<rparr>, p + 64 * Suc k)"
      unfolding body_def and_63_u64(2)[OF n(1)] k body_loop_eq[OF fits assms(2)] xs_def[symmetric] wb compress_whole
      by simp
    moreover have "length data - (p + 64 * Suc k) = ?n mod 64"
      using k minus_mult_div_eq_mod[of ?n 64] by simp
    moreover have "rest xs = drop (p + 64 * Suc k) data"
      using n(2) k by (simp add: rest_def xs_def add.commute)
    ultimately show ?thesis
      unfolding md5_tail_def using True ge fits assms(3) and_63_u64(1)[OF n(1)]
      by (simp add: memcpy_at_Some)
  qed
qed

section \<open>The counters\<close>

definition md5_total :: "MD5_CTX \<Rightarrow> nat" where
  "md5_total c = unat (md5_hi c) * 2 ^ 29 + unat (md5_lo c)"

definition md5_used :: "MD5_CTX \<Rightarrow> nat" where
  "md5_used c = unat (md5_lo c AND 0x3f)"

definition md5_ok :: "MD5_CTX \<Rightarrow> bool" where
  "md5_ok c = (length (md5_buffer c) = 64 \<and> unat (md5_lo c) < 2 ^ 29)"

definition md5_small :: "u8 list \<Rightarrow> bool" where
  "md5_small xs = (length xs < 2 ^ 64)"

lemma md5_used_mod: "md5_used c = unat (md5_lo c) mod 64"
proof -
  have "(0x3f :: u32) = mask 6" by (simp add: mask_eq_exp_minus_1)
  then show ?thesis
    unfolding md5_used_def by (simp only: take_bit_eq_mask[symmetric] unsigned_take_bit_eq) (simp add: take_bit_eq_mod)
qed

lemma md5_count_buffers [simp]:
  "md5_buffer (md5_count c sz) = md5_buffer c" "md5_abcd (md5_count c sz) = md5_abcd c"
  by (simp_all add: md5_count_def Let_def)

lemma md5_count_lo:
  assumes "n < 2 ^ 64" and "unat (md5_lo c) < 2 ^ 29"
  shows "unat (md5_lo (md5_count c (of_nat n))) = (unat (md5_lo c) + n) mod 2 ^ 29"
proof -
  let ?x = "ucast (md5_lo c) + of_nat n :: u64"
  have u: "unat (ucast (md5_lo c) :: u64) = unat (md5_lo c)" by (rule unat_ucast_widen) simp
  have n: "unat (of_nat n :: u64) = n" using assms(1) by (simp only: unat_of_nat) simp
  have x: "unat ?x = (unat (md5_lo c) + n) mod 2 ^ 64" unfolding unat_word_ariths u n by simp
  have "(0x1fffffff :: u64) = mask 29" by (simp add: mask_eq_exp_minus_1)
  then have a: "unat (?x AND 0x1fffffff) = take_bit 29 ((unat (md5_lo c) + n) mod 2 ^ 64)"
    by (simp only: take_bit_eq_mask[symmetric] unsigned_take_bit_eq x)
  also have "\<dots> = (unat (md5_lo c) + n) mod 2 ^ 29"
    by (simp add: take_bit_eq_mod mod_mod_cancel)
  finally have a: "unat (?x AND 0x1fffffff) = (unat (md5_lo c) + n) mod 2 ^ 29" .
  have "unat (ucast (?x AND 0x1fffffff) :: u32) = unat (?x AND 0x1fffffff) mod 2 ^ 32"
    by (simp add: unsigned_ucast_eq take_bit_eq_mod)
  also have "\<dots> = (unat (md5_lo c) + n) mod 2 ^ 29"
  proof -
    have "(unat (md5_lo c) + n) mod 2 ^ 29 < 2 ^ 32"
      by (rule less_trans[OF mod_less_divisor]) simp_all
    then show ?thesis unfolding a by simp
  qed
  finally show ?thesis by (simp add: md5_count_def Let_def)
qed

lemma md5_count_total:
  assumes "n < 2 ^ 64" and "unat (md5_lo c) < 2 ^ 29"
  shows "md5_total (md5_count c (of_nat n)) = (md5_total c + n) mod 2 ^ 61"
proof -
  let ?lo = "unat (md5_lo c)" and ?hi = "unat (md5_hi c)" and ?c = "md5_count c (of_nat n)"
  let ?carry = "if md5_lo ?c < md5_lo c then 1 else 0 :: nat"
  have lo: "unat (md5_lo ?c) = (?lo + n) mod 2 ^ 29" by (rule md5_count_lo[OF assms])
  have n: "unat (of_nat n :: u64) = n" using assms(1) by (simp only: unat_of_nat) simp
  have carry: "(?lo + n) div 2 ^ 29 = n div 2 ^ 29 + ?carry"
  proof -
    have e: "?lo + n = (?lo + n mod 2 ^ 29) + 2 ^ 29 * (n div 2 ^ 29)"
      by (simp only: add.assoc mod_mult_div_eq)
    have d: "(?lo + n) div 2 ^ 29 = n div 2 ^ 29 + (?lo + n mod 2 ^ 29) div 2 ^ 29"
      unfolding arg_cong[OF e, of "\<lambda>x. x div 2 ^ 29"] by (rule div_mult_self2) simp
    have m: "(?lo + n) mod 2 ^ 29 = (?lo + n mod 2 ^ 29) mod 2 ^ 29" by (simp add: mod_simps)
    have b: "n mod 2 ^ 29 < 2 ^ 29" by simp
    show ?thesis
    proof (cases "?lo + n mod 2 ^ 29 < 2 ^ 29")
      case True
      then show ?thesis unfolding d word_less_nat_alt lo m by simp
    next
      case False
      then have "(?lo + n mod 2 ^ 29) div 2 ^ 29 = 1" "(?lo + n mod 2 ^ 29) mod 2 ^ 29 = ?lo + n mod 2 ^ 29 - 2 ^ 29"
        using assms(2) b by (simp_all add: div_nat_eqI le_mod_geq)
      then show ?thesis unfolding d word_less_nat_alt lo m using False b by simp
    qed
  qed
  have hi: "unat (md5_hi ?c) = (?hi + (?lo + n) div 2 ^ 29) mod 2 ^ 32"
  proof -
    let ?h = "if md5_lo ?c < md5_lo c then md5_hi c + 1 else md5_hi c"
    have h: "unat ?h = (?hi + ?carry) mod 2 ^ 32"
    proof -
      have "?hi < 2 ^ LENGTH(32)" by (rule unsigned_less)
      then show ?thesis by (simp add: unat_word_ariths)
    qed
    have q: "unat (drop_bit 29 (of_nat n :: u64)) = n div 2 ^ 29"
      using n by (simp add: drop_bit_eq_div unat_div)
    have "md5_hi ?c = ucast (ucast ?h + drop_bit 29 (of_nat n :: u64))"
      by (simp add: md5_count_def Let_def)
    then have "unat (md5_hi ?c) = unat (ucast ?h + drop_bit 29 (of_nat n) :: u64) mod 2 ^ 32"
      by (simp only: unsigned_ucast_eq take_bit_eq_mod) simp
    also have "unat (ucast ?h + drop_bit 29 (of_nat n) :: u64) = (unat ?h + n div 2 ^ 29) mod 2 ^ 64"
      unfolding unat_word_ariths q unat_ucast_widen[where 'a = 32 and 'b = 64, simplified] by simp
    also have "(unat ?h + n div 2 ^ 29) mod 2 ^ 64 mod 2 ^ 32 = (?hi + (?lo + n) div 2 ^ 29) mod 2 ^ 32"
      unfolding h carry by (simp add: mod_mod_cancel mod_simps add_ac)
    finally show ?thesis .
  qed
  have N: "(md5_total c + n) div 2 ^ 29 = ?hi + (?lo + n) div 2 ^ 29" "(md5_total c + n) mod 2 ^ 29 = (?lo + n) mod 2 ^ 29"
    by (simp_all add: md5_total_def add.assoc)
  show ?thesis
    unfolding md5_total_def[of ?c] hi lo N[symmetric]
    using mod_mult2_eq[of "md5_total c + n" "2 ^ 29" "2 ^ 32"] by (simp add: mult.commute)
qed

section \<open>The update function\<close>

lemma body_block:
  assumes "length b = 64"
  shows "body ctx b 0 64 = Some (ctx\<lparr>md5_abcd := md5_compress (md5_abcd ctx) b\<rparr>, 64)"
  using body_loop_eq[of 0 0 b "md5_abcd ctx"] assms compress_block[OF assms, of md5_compress "md5_abcd ctx" "[]"]
  by (simp add: body_def compress_short)

lemma MD5_Update_eq:
  assumes "md5_ok c" and "md5_small xs"
  defines "p \<equiv> take (md5_used c) (md5_buffer c)"
  shows "\<exists>buf. MD5_Update c xs (of_nat (length xs)) =
      Some ((md5_count c (of_nat (length xs)))\<lparr>md5_abcd := compress_blocks md5_compress (md5_abcd c) (p @ xs), md5_buffer := buf\<rparr>) \<and>
    length buf = 64 \<and> take (length (rest (p @ xs))) buf = rest (p @ xs)"
proof -
  let ?n = "length xs" and ?used = "ucast (md5_lo c AND 0x3f) :: u64" and ?cc = "md5_count c (of_nat (length xs))"
  have lb: "length (md5_buffer c) = 64" and n: "?n < 2 ^ 64"
    using assms(1,2) by (simp_all add: md5_ok_def md5_small_def)
  have u: "unat ?used = md5_used c" unfolding md5_used_def by (rule unat_ucast_widen) simp
  have u64: "md5_used c < 64" by (simp add: md5_used_mod)
  have un: "unat (of_nat ?n :: u64) = ?n" using n by (simp only: unat_of_nat) simp
  have lp: "length p = md5_used c" using lb u64 by (simp add: p_def)
  have lr: "length (rest ys) < 64" for ys by (simp add: length_rest)
  show ?thesis
  proof (cases "md5_used c = 0")
    case True
    then have z: "?used = 0" using u by (metis unsigned_eq_0_iff)
    have "MD5_Update c xs (of_nat ?n) = md5_tail ?cc xs 0 (of_nat (?n - 0))"
      by (simp add: MD5_Update_def z)
    also have "\<dots> = Some (?cc\<lparr>md5_abcd := compress_blocks md5_compress (md5_abcd c) xs,
        md5_buffer := rest xs @ drop (length (rest xs)) (md5_buffer c)\<rparr>)"
      using md5_tail_eq[of 0 xs ?cc] n lb by simp
    finally show ?thesis using True lb lr[of xs]
      by (intro exI[of _ "rest xs @ drop (length (rest xs)) (md5_buffer c)"]) (simp add: p_def)
  next
    case False
    then have nz: "?used \<noteq> 0" using u by (metis unat_0)
    have "?used \<le> 64" using u u64 by (simp add: word_le_nat_alt)
    then have av: "unat (64 - ?used) = 64 - md5_used c" using u by (simp add: unat_sub)
    show ?thesis
    proof (cases "?n < 64 - md5_used c")
      case short: True
      then have "of_nat ?n < 64 - ?used" using av un by (simp add: word_less_nat_alt)
      moreover have "memcpy_at (md5_buffer c) (md5_used c) xs 0 ?n = Some (p @ xs @ drop (md5_used c + ?n) (md5_buffer c))"
        using short lb u64 by (simp add: memcpy_at_Some p_def)
      ultimately have "MD5_Update c xs (of_nat ?n) =
          Some (?cc\<lparr>md5_buffer := p @ xs @ drop (md5_used c + ?n) (md5_buffer c)\<rparr>)"
        by (simp add: MD5_Update_def nz un u Let_def)
      moreover have "length (p @ xs) < 64" using short lp by simp
      ultimately show ?thesis using lb lp
        by (intro exI[of _ "p @ xs @ drop (md5_used c + ?n) (md5_buffer c)"]) (simp add: compress_short rest_short)
    next
      case False
      let ?a = "64 - md5_used c"
      let ?b = "p @ take ?a xs"
      have b: "length ?b = 64" using False lp u64 by simp
      have "\<not> of_nat ?n < 64 - ?used" using False av un by (simp add: word_less_nat_alt)
      moreover have "memcpy_at (md5_buffer c) (md5_used c) xs 0 ?a = Some ?b"
        using False lb u64 by (simp add: memcpy_at_Some p_def)
      moreover have "of_nat ?n - (64 - ?used) = (of_nat (?n - ?a) :: u64)"
      proof -
        have "64 - ?used = of_nat ?a" using av by (metis of_nat_unat ucast_id)
        then show ?thesis using False by (simp add: of_nat_diff)
      qed
      ultimately have "MD5_Update c xs (of_nat ?n) =
          md5_tail (?cc\<lparr>md5_buffer := ?b, md5_abcd := md5_compress (md5_abcd c) ?b\<rparr>) xs ?a (of_nat (?n - ?a))"
        using b by (simp add: MD5_Update_def nz u av Let_def body_block)
      also have "\<dots> = Some (?cc\<lparr>md5_abcd := compress_blocks md5_compress (md5_compress (md5_abcd c) ?b) (drop ?a xs),
          md5_buffer := rest (drop ?a xs) @ drop (length (rest (drop ?a xs))) ?b\<rparr>)"
        using md5_tail_eq[of ?a xs "?cc\<lparr>md5_buffer := ?b, md5_abcd := md5_compress (md5_abcd c) ?b\<rparr>"] False n b by simp
      also have "compress_blocks md5_compress (md5_compress (md5_abcd c) ?b) (drop ?a xs) =
          compress_blocks md5_compress (md5_abcd c) (p @ xs)"
        using compress_block[OF b, of md5_compress "md5_abcd c" "drop ?a xs"] by simp
      also have "rest (drop ?a xs) = rest (p @ xs)" using rest_block[OF b, of "drop ?a xs"] by simp
      finally have "MD5_Update c xs (of_nat ?n) = Some (?cc\<lparr>md5_abcd := compress_blocks md5_compress (md5_abcd c) (p @ xs),
          md5_buffer := rest (p @ xs) @ drop (length (rest (p @ xs))) ?b\<rparr>)" .
      moreover have "length (rest (p @ xs) @ drop (length (rest (p @ xs))) ?b) = 64"
        unfolding length_append[of "rest (p @ xs)"] length_drop b using lr[of "p @ xs"] by simp
      ultimately show ?thesis by (intro exI[of _ "rest (p @ xs) @ drop (length (rest (p @ xs))) ?b"]) simp
    qed
  qed
qed

interpretation md5: hash_stream md5_compress md5_abcd md5_buffer md5_used md5_ok
  "\<lambda>c xs. MD5_Update c xs (of_nat (length xs))" md5_small
proof
  fix c :: MD5_CTX and xs :: "u8 list"
  assume ok: "md5_ok c" and small: "md5_small xs"
  let ?p = "take (md5_used c) (md5_buffer c)" and ?cc = "md5_count c (of_nat (length xs))"
  have lo: "unat (md5_lo c) < 2 ^ 29" and n: "length xs < 2 ^ 64" and lb: "length (md5_buffer c) = 64"
    using ok small by (simp_all add: md5_ok_def md5_small_def)
  obtain buf where b: "MD5_Update c xs (of_nat (length xs)) =
      Some (?cc\<lparr>md5_abcd := compress_blocks md5_compress (md5_abcd c) (?p @ xs), md5_buffer := buf\<rparr>)"
    "length buf = 64" "take (length (rest (?p @ xs))) buf = rest (?p @ xs)"
    using MD5_Update_eq[OF ok small] by auto
  let ?c = "?cc\<lparr>md5_abcd := compress_blocks md5_compress (md5_abcd c) (?p @ xs), md5_buffer := buf\<rparr>"
  have l: "unat (md5_lo ?c) = (unat (md5_lo c) + length xs) mod 2 ^ 29" using md5_count_lo[OF n lo] by simp
  have "length ?p = md5_used c" using lb md5_used_mod[of c] by simp
  then have "md5_used ?c = length (rest (?p @ xs))"
    unfolding md5_used_mod[of ?c] l length_rest by (simp add: mod_mod_cancel md5_used_mod mod_simps)
  moreover have "md5_ok ?c" using b(2) l by (simp add: md5_ok_def)
  ultimately show "\<exists>c'. MD5_Update c xs (of_nat (length xs)) = Some c' \<and> md5_ok c' \<and>
      md5_abcd c' = compress_blocks md5_compress (md5_abcd c) (?p @ xs) \<and>
      take (md5_used c') (md5_buffer c') = rest (?p @ xs)"
    using b by simp
next
  fix c assume "md5_ok c"
  then show "md5_used c < 64 \<and> length (md5_buffer c) = 64" by (simp add: md5_ok_def md5_used_mod)
qed

lemma md5_absorb:
  assumes "md5.absorbed s0 msg c" and "md5_small xs"
  obtains c' where "MD5_Update c xs (of_nat (length xs)) = Some c'" "md5.absorbed s0 (msg @ xs) c'"
    "md5_total c' = (md5_total c + length xs) mod 2 ^ 61"
proof -
  have ok: "md5_ok c" using assms(1) by (simp add: md5.absorbed_def)
  obtain c' where c': "MD5_Update c xs (of_nat (length xs)) = Some c'" "md5.absorbed s0 (msg @ xs) c'"
    using md5.absorbed_update[OF assms] by auto
  have "md5_total c' = md5_total (md5_count c (of_nat (length xs)))"
    using MD5_Update_eq[OF ok assms(2)] c'(1) by (auto simp: md5_total_def)
  then show thesis
    using that[OF c'] md5_count_total[of "length xs" c] ok assms(2) by (simp add: md5_ok_def md5_small_def)
qed

section \<open>The digest\<close>

lemma le64_words:
  fixes lo hi :: u32
  assumes "unat lo = n mod 2 ^ 32" and "unat hi = n div 2 ^ 32"
  shows "[ucast lo, ucast (drop_bit 8 lo), ucast (drop_bit 16 lo), ucast (drop_bit 24 lo),
     ucast hi, ucast (drop_bit 8 hi), ucast (drop_bit 16 hi), ucast (drop_bit 24 hi)] = le64 n"
proof -
  have l: "(ucast (drop_bit k lo) :: u8) = of_nat (n div 2 ^ k)" if "k + 8 \<le> 32" for k
    using of_nat_low_byte[OF that, of n] by (simp only: ucast_drop_bit_nat assms(1))
  have h: "(ucast (drop_bit k hi) :: u8) = of_nat (n div 2 ^ (32 + k))" for k
    by (simp only: ucast_drop_bit_nat assms(2) power_add div_mult2_eq)
  have u: "[0..<8] = [0, 1, 2, 3, 4, 5, 6, 7]" by code_simp
  show ?thesis
    using l[of 0] l[of 8] l[of 16] l[of 24] h[of 0] h[of 8] h[of 16] h[of 24]
    unfolding le64_def u by simp
qed

lemma zeros_needed_cases: "zeros_needed n = (if n mod 64 < 56 then 55 - n mod 64 else 119 - n mod 64)"
proof (cases "n mod 64 < 56")
  case True
  then have "119 - n mod 64 = 55 - n mod 64 + 64" by simp
  then have "zeros_needed n = (55 - n mod 64) mod 64" by (simp only: zeros_needed_def mod_add_self2)
  then show ?thesis using True by simp
next
  case False
  moreover have "n mod 64 < 64" by simp
  ultimately show ?thesis by (simp add: zeros_needed_def)
qed

lemma MD5_Final_eq:
  assumes "md5.absorbed md5_initial msg c" and "md5_total c = length msg" and "length msg < 2 ^ 61"
  shows "\<exists>c'. MD5_Final c = Some (md5 msg, c')"
proof -
  let ?u = "md5_used c" and ?len = "le64 (8 * length msg)" and ?s = "md5_abcd c"
  let ?lo = "push_bit 3 (md5_lo c)" and ?hi = "md5_hi c"
  have ok: "md5_ok c" and st: "?s = compress_blocks md5_compress md5_initial msg"
    and bf: "take ?u (md5_buffer c) = rest msg"
    using assms(1) by (simp_all add: md5.absorbed_def)
  have u: "?u = length msg mod 64" by (rule md5.absorbed_used[OF assms(1)])
  have lb: "length (md5_buffer c) = 64" and lo: "unat (md5_lo c) < 2 ^ 29" using ok by (simp_all add: md5_ok_def)
  have lr: "length (rest msg) = ?u" by (simp add: length_rest u)
  have ul: "?u < 64" by (simp add: u)
  have l8: "unat ?lo = 8 * unat (md5_lo c)"
    using lo by (simp add: push_bit_eq_mult unat_word_ariths mult.commute)
  have words: "[ucast ?lo, ucast (drop_bit 8 ?lo), ucast (drop_bit 16 ?lo), ucast (drop_bit 24 ?lo),
     ucast ?hi, ucast (drop_bit 8 ?hi), ucast (drop_bit 16 ?hi), ucast (drop_bit 24 ?hi)] = ?len"
  proof (intro le64_words)
    have N: "8 * length msg = unat ?hi * 2 ^ 32 + 8 * unat (md5_lo c)" using assms(2) by (simp add: md5_total_def)
    show "unat ?lo = 8 * length msg mod 2 ^ 32" "unat ?hi = 8 * length msg div 2 ^ 32"
      using l8 lo unfolding N by simp_all
  qed
  have ll: "length ?len = 8" by (simp add: le64_def)
  have cp: "compress_blocks md5_compress md5_initial (pad_with le64 msg) =
      compress_blocks md5_compress ?s (rest msg @ [0x80] @ replicate (zeros_needed (length msg)) 0 @ ?len)"
    unfolding pad_with_def st by (rule compress_append)
  obtain a b c' d where r: "compress_blocks md5_compress md5_initial (pad_with le64 msg) = (a, b, c', d)"
    by (metis prod.collapse)
  have w1: "write_range (md5_buffer c) ?u [0x80] = Some (rest msg @ [0x80] @ drop (?u + 1) (md5_buffer c))"
    using lb ul bf by (simp add: write_range_def)
  show ?thesis
  proof (cases "?u < 56")
    case True
    let ?blk = "rest msg @ [0x80] @ replicate (55 - ?u) 0 @ ?len"
    have z: "zeros_needed (length msg) = 55 - ?u" using True by (simp add: zeros_needed_cases u)
    have lblk: "length ?blk = 64" using lr ll True by simp
    have av: "\<not> 63 - ?u < 8" using True by simp
    have m: "memset_at (rest msg @ [0x80] @ drop (?u + 1) (md5_buffer c)) (?u + 1) 0 (55 - ?u) =
        Some (rest msg @ [0x80] @ replicate (55 - ?u) 0 @ drop 56 (md5_buffer c))"
      using True lr lb by (simp add: memset_at_def write_range_def drop_Cons')
    have w2: "write_range (rest msg @ [0x80] @ replicate (55 - ?u) 0 @ drop 56 (md5_buffer c)) 56 ?len = Some ?blk"
      using True lr lb ll by (simp add: write_range_def take_Cons')
    have "md5_compress ?s ?blk = (a, b, c', d)"
      using compress_block[OF lblk, of md5_compress ?s "[]"] r cp z by (simp add: compress_short)
    then have "MD5_Final c = Some (le32 a @ le32 b @ le32 c' @ le32 d,
        \<lparr>md5_lo = 0, md5_hi = 0, md5_abcd = (0, 0, 0, 0), md5_buffer = replicate 64 0\<rparr>)"
      using av w1 m w2 words lblk unfolding MD5_Final_def md5_used_def[symmetric]
      by (simp add: Let_def body_block)
    then show ?thesis by (simp add: md5_def r)
  next
    case False
    let ?b1 = "rest msg @ [0x80] @ replicate (63 - ?u) 0" and ?b2 = "replicate 56 0 @ ?len"
    have z: "zeros_needed (length msg) = (63 - ?u) + 56" using False ul by (simp add: zeros_needed_cases u)
    have av: "63 - ?u < 8" using False by simp
    have l1: "length ?b1 = 64" and l2: "length ?b2 = 64" using lr ll False ul by simp_all
    have m1: "memset_at (rest msg @ [0x80] @ drop (?u + 1) (md5_buffer c)) (?u + 1) 0 (63 - ?u) = Some ?b1"
      using False ul lr lb by (simp add: memset_at_def write_range_def)
    have m2: "memset_at ?b1 0 0 56 = Some (replicate 56 0 @ drop 56 ?b1)"
      unfolding memset_at_def write_range_def length_replicate l1 by simp
    have w2: "write_range (replicate 56 0 @ drop 56 ?b1) 56 ?len = Some ?b2"
    proof -
      have "length (drop 56 ?b1) = 8" unfolding length_drop l1 by simp
      then show ?thesis using ll by (simp add: write_range_def)
    qed
    have "rest msg @ [0x80] @ replicate (zeros_needed (length msg)) 0 @ ?len = ?b1 @ ?b2 @ []"
      unfolding z replicate_add by simp
    then have "md5_compress (md5_compress ?s ?b1) ?b2 = (a, b, c', d)"
      using r cp by (simp only: compress_block[OF l1] compress_block[OF l2]) (simp add: compress_short)
    then have "MD5_Final c = Some (le32 a @ le32 b @ le32 c' @ le32 d,
        \<lparr>md5_lo = 0, md5_hi = 0, md5_abcd = (0, 0, 0, 0), md5_buffer = replicate 64 0\<rparr>)"
      using av w1 m1 m2 w2 words body_block[OF l1] body_block[OF l2]
      unfolding MD5_Final_def md5_used_def[symmetric]
      by (simp add: Let_def del: append_assoc append_Cons)
    then show ?thesis by (simp add: md5_def r)
  qed
qed

lemma md5_start:
  assumes "length (md5_buffer c) = 64"
  shows "md5.absorbed md5_initial [] (MD5_Init c)" and "md5_total (MD5_Init c) = 0"
proof -
  have "md5.absorbed (md5_abcd (MD5_Init c)) [] (MD5_Init c)"
    using assms by (intro md5.absorbed_start) (simp_all add: MD5_Init_def md5_ok_def md5_used_def)
  then show "md5.absorbed md5_initial [] (MD5_Init c)" by (simp add: MD5_Init_def md5_initial_def)
  show "md5_total (MD5_Init c) = 0" by (simp add: MD5_Init_def md5_total_def)
qed

lemma md5_absorb_chunks:
  assumes "md5.absorbed s0 msg c" and "md5_total c = length msg mod 2 ^ 61"
    and "\<forall>xs \<in> set xss. md5_small xs"
  shows "\<exists>c'. foldl (\<lambda>r xs. Option.bind r (\<lambda>c. MD5_Update c xs (of_nat (length xs)))) (Some c) xss = Some c' \<and>
     md5.absorbed s0 (msg @ concat xss) c' \<and> md5_total c' = length (msg @ concat xss) mod 2 ^ 61"
  using assms
proof (induction xss arbitrary: msg c)
  case (Cons xs xss)
  obtain c1 where c1: "MD5_Update c xs (of_nat (length xs)) = Some c1" "md5.absorbed s0 (msg @ xs) c1"
      "md5_total c1 = (md5_total c + length xs) mod 2 ^ 61"
    by (rule md5_absorb[OF Cons.prems(1), of xs]) (use Cons.prems(3) in auto)
  then have "md5_total c1 = length (msg @ xs) mod 2 ^ 61"
    using Cons.prems(2) by (simp add: mod_add_left_eq)
  then show ?case using Cons.IH[OF c1(2)] Cons.prems(3) c1(1) by simp
qed simp

section \<open>Properties\<close>

text \<open>
  C32. A message given to \<open>MD5_Update\<close> in pieces, cut in any way, and finished by \<open>MD5_Final\<close> gives the MD5 digest
  of the whole message, up to the \<open>2 ^ 61\<close> bytes that the length field can express: the optimised round functions, the rotating
  registers and the two counters compute the 64 steps and the padding of the standard.
\<close>

theorem MD5_streaming:
  assumes "length (md5_buffer ctx) = 64" and "length (concat pieces) < 2 ^ 61"
  shows "\<exists>c c'. foldl (\<lambda>r xs. Option.bind r (\<lambda>c. MD5_Update c xs (of_nat (length xs)))) (Some (MD5_Init ctx)) pieces = Some c \<and>
     MD5_Final c = Some (md5 (concat pieces), c')"
proof -
  have sm: "\<forall>xs \<in> set pieces. md5_small xs"
  proof
    fix xs assume "xs \<in> set pieces"
    then have "length xs \<le> length (concat pieces)"
      by (simp add: length_concat member_le_sum_list)
    then show "md5_small xs" using assms(2) by (simp add: md5_small_def)
  qed
  obtain c where c: "foldl (\<lambda>r xs. Option.bind r (\<lambda>c. MD5_Update c xs (of_nat (length xs)))) (Some (MD5_Init ctx)) pieces = Some c"
    "md5.absorbed md5_initial (concat pieces) c" "md5_total c = length (concat pieces) mod 2 ^ 61"
    using md5_absorb_chunks[OF md5_start(1)[OF assms(1)] _ sm] md5_start(2)[OF assms(1)] by auto
  then show ?thesis using MD5_Final_eq[OF c(2)] assms(2) by auto
qed

theorem MD5_streaming_witness:
  "\<exists>c c'. foldl (\<lambda>r xs. Option.bind r (\<lambda>c. MD5_Update c xs (of_nat (length xs))))
       (Some (MD5_Init \<lparr>md5_lo = 5, md5_hi = 6, md5_abcd = (1, 2, 3, 4), md5_buffer = replicate 64 9\<rparr>)) [[0x61], [0x62, 0x63]] = Some c \<and>
     MD5_Final c = Some (md5 [0x61, 0x62, 0x63], c')"
  using MD5_streaming[of "\<lparr>md5_lo = 5, md5_hi = 6, md5_abcd = (1, 2, 3, 4), md5_buffer = replicate 64 9\<rparr>"
    "[[0x61], [0x62, 0x63]]"] by simp

end
