(* ===== verification/Uuid.thy ===== *)
theory Uuid
  imports Prelude
begin

text \<open>
  Bluetooth UUIDs, \<open>src/src/bt/btgatt_server/lib/uuid.c\<close> and \<open>uuid.h\<close>, on a little-endian host. The tagged union \<open>bt_uuid_t\<close> is a datatype; 128-bit values
  are the 16 bytes in the order of the wire, high byte first.
\<close>

datatype bt_uuid_t = BT_UUID_UNSPEC | BT_UUID16 u16 | BT_UUID32 u32 | BT_UUID128 "u8 list"

fun uuid_wf :: "bt_uuid_t \<Rightarrow> bool" where
  "uuid_wf (BT_UUID128 u) = (length u = 16)"
| "uuid_wf BT_UUID_UNSPEC = False"
| "uuid_wf _ = True"

definition bluetooth_base_uuid :: "u8 list" where
  "bluetooth_base_uuid = [0x00, 0x00, 0x00, 0x00, 0x00, 0x00, 0x10, 0x00, 0x80, 0x00, 0x00, 0x80, 0x5F, 0x9B, 0x34, 0xFB]"

definition BASE_UUID16_OFFSET :: nat where "BASE_UUID16_OFFSET = 2"

definition BASE_UUID32_OFFSET :: nat where "BASE_UUID32_OFFSET = 0"

definition overwrite :: "u8 list \<Rightarrow> nat \<Rightarrow> u8 list \<Rightarrow> u8 list" where
  "overwrite d off b = take off d @ b @ drop (off + length b) d"

definition bt_uuid16_to_uuid128 :: "u16 \<Rightarrow> bt_uuid_t" where
  "bt_uuid16_to_uuid128 u16 = BT_UUID128 (overwrite bluetooth_base_uuid BASE_UUID16_OFFSET (le16 (htons u16)))"

definition bt_uuid32_to_uuid128 :: "u32 \<Rightarrow> bt_uuid_t" where
  "bt_uuid32_to_uuid128 u32 = BT_UUID128 (overwrite bluetooth_base_uuid BASE_UUID32_OFFSET (le32 (ntohl u32)))"

text \<open>\<open>dst\<close> is the destination before the call: it stays when the source has no type.\<close>

fun bt_uuid_to_uuid128 :: "bt_uuid_t \<Rightarrow> bt_uuid_t \<Rightarrow> bt_uuid_t" where
  "bt_uuid_to_uuid128 (BT_UUID128 u) dst = BT_UUID128 u"
| "bt_uuid_to_uuid128 (BT_UUID32 u) dst = bt_uuid32_to_uuid128 u"
| "bt_uuid_to_uuid128 (BT_UUID16 u) dst = bt_uuid16_to_uuid128 u"
| "bt_uuid_to_uuid128 BT_UUID_UNSPEC dst = dst"

fun memcmp :: "u8 list \<Rightarrow> u8 list \<Rightarrow> int" where
  "memcmp (x # xs) (y # ys) = (if x < y then - 1 else if y < x then 1 else memcmp xs ys)"
| "memcmp _ _ = 0"

text \<open>The comparison of two 128-bit UUIDs; \<open>None\<close> when one of them was never written.\<close>

fun bt_uuid128_cmp :: "bt_uuid_t \<Rightarrow> bt_uuid_t \<Rightarrow> int option" where
  "bt_uuid128_cmp (BT_UUID128 u1) (BT_UUID128 u2) = Some (memcmp u1 u2)"
| "bt_uuid128_cmp _ _ = None"

definition bt_uuid16_create :: "u16 \<Rightarrow> bt_uuid_t" where "bt_uuid16_create v = BT_UUID16 v"

definition bt_uuid32_create :: "u32 \<Rightarrow> bt_uuid_t" where "bt_uuid32_create v = BT_UUID32 v"

definition bt_uuid128_create :: "u8 list \<Rightarrow> bt_uuid_t" where "bt_uuid128_create v = BT_UUID128 v"

definition bt_uuid_cmp :: "bt_uuid_t \<Rightarrow> bt_uuid_t \<Rightarrow> int option" where
  "bt_uuid_cmp uuid1 uuid2 =
     bt_uuid128_cmp (bt_uuid_to_uuid128 uuid1 BT_UUID_UNSPEC) (bt_uuid_to_uuid128 uuid2 BT_UUID_UNSPEC)"

text \<open>\<open>bswap_128\<close> copies 16 bytes in reverse order.\<close>

definition bswap_128 :: "u8 list \<Rightarrow> u8 list option" where
  "bswap_128 src = map_option rev (read_range src 0 16)"

fun bt_uuid_len :: "bt_uuid_t \<Rightarrow> nat" where
  "bt_uuid_len BT_UUID_UNSPEC = 0 div 8"
| "bt_uuid_len (BT_UUID16 _) = 16 div 8"
| "bt_uuid_len (BT_UUID32 _) = 32 div 8"
| "bt_uuid_len (BT_UUID128 _) = 128 div 8"

text \<open>\<open>bt_uuid_to_le\<close>: the bytes written to \<open>dst\<close>; the error code \<open>-EINVAL\<close> for a UUID without type.\<close>

fun bt_uuid_to_le :: "bt_uuid_t \<Rightarrow> (int + u8 list) option" where
  "bt_uuid_to_le (BT_UUID16 u) = Some (Inr (le16 u))"
| "bt_uuid_to_le (BT_UUID32 u) =
     (case bt_uuid32_to_uuid128 u of BT_UUID128 v \<Rightarrow> map_option Inr (bswap_128 v) | _ \<Rightarrow> None)"
| "bt_uuid_to_le (BT_UUID128 u) = map_option Inr (bswap_128 u)"
| "bt_uuid_to_le BT_UUID_UNSPEC = Some (Inl (- 22))"

section \<open>The 128-bit form\<close>

definition canonical :: "bt_uuid_t \<Rightarrow> u8 list" where
  "canonical u = (case bt_uuid_to_uuid128 u BT_UUID_UNSPEC of BT_UUID128 v \<Rightarrow> v | _ \<Rightarrow> [])"

lemma to_uuid128_canonical: "uuid_wf u \<Longrightarrow> bt_uuid_to_uuid128 u dst = BT_UUID128 (canonical u)"
  by (cases u) (simp_all add: canonical_def bt_uuid16_to_uuid128_def bt_uuid32_to_uuid128_def)

lemma length_canonical: "uuid_wf u \<Longrightarrow> length (canonical u) = 16"
  by (cases u) (simp_all add: canonical_def bt_uuid16_to_uuid128_def bt_uuid32_to_uuid128_def overwrite_def
      bluetooth_base_uuid_def le16_def le32_def BASE_UUID16_OFFSET_def BASE_UUID32_OFFSET_def)

lemma memcmp_0: "length xs = length ys \<Longrightarrow> memcmp xs ys = 0 \<longleftrightarrow> xs = ys"
  by (induction xs ys rule: memcmp.induct) (auto simp: not_less)

lemma bt_uuid_cmp_eq: "uuid_wf u \<Longrightarrow> uuid_wf v \<Longrightarrow> bt_uuid_cmp u v = Some (memcmp (canonical u) (canonical v))"
  by (simp add: bt_uuid_cmp_def to_uuid128_canonical)

lemma bt_uuid_cmp_0:
  "uuid_wf u \<Longrightarrow> uuid_wf v \<Longrightarrow> bt_uuid_cmp u v = Some 0 \<longleftrightarrow> canonical u = canonical v"
  by (simp add: bt_uuid_cmp_eq memcmp_0 length_canonical)

lemma le16_inj: "le16 a = le16 b \<longleftrightarrow> a = b"
  by (metis le16_def le16_load16)

lemma htons_inj: "htons a = htons b \<longleftrightarrow> a = b"
  by (metis htons_htons)

lemma canonical_uuid16: "canonical (BT_UUID16 a) = canonical (BT_UUID16 b) \<longleftrightarrow> a = b"
  by (simp add: canonical_def bt_uuid16_to_uuid128_def overwrite_def le16_def[of "htons a"] le16_def[of "htons b"])
    (metis le16_def le16_inj htons_inj)

lemma u16_bit_high: "16 \<le> n \<Longrightarrow> \<not> bit (w :: u16) n"
  using bit_imp_le_length[of w n] by auto

text \<open>A 16-bit UUID is the 32-bit UUID of the same number.\<close>

lemma canonical_widen: "canonical (BT_UUID32 (ucast v)) = canonical (BT_UUID16 v)"
proof -
  have "le32 (ntohl (ucast v)) = 0 # 0 # le16 (htons v)"
    unfolding le32_def le16_def ntohl_def htons_def
    unfolding list.inject by (intro conjI refl; rule u8_eqI) (simp_all add: bit_simps u16_bit_high)
  then show ?thesis
    by (simp add: canonical_def bt_uuid16_to_uuid128_def bt_uuid32_to_uuid128_def overwrite_def bluetooth_base_uuid_def
        BASE_UUID16_OFFSET_def BASE_UUID32_OFFSET_def le16_def)
qed

end
