(* ===== verification/Queue.thy ===== *)
theory Queue
  imports Prelude
begin

text \<open>
  The linked queue of the Bluetooth code, \<open>src/src/bt/btgatt_server/src/shared/queue.c\<close>. The functions keep their names and work on
  an explicit heap: queues and entries live at addresses, 0 is \<open>NULL\<close>, and an access to an
  address that is not allocated (a freed entry, a freed queue) gives \<open>None\<close>. The stored data are pointers of the client.
  \<open>new0\<close> calls \<open>abort\<close> when \<open>malloc\<close> fails, so an allocation that returns has succeeded; it returns
  an address that was never used before.

  The heap record can be extended by the client. Callbacks that only compare are predicates on the data; the
  callbacks of \<open>queue_foreach\<close> and \<open>queue_remove_all\<close> may change the heap, the queue itself included.
\<close>

section \<open>Heap\<close>

type_synonym ptr = nat

record queue_entry =
  qe_data :: ptr
  qe_next :: ptr

record queue =
  q_ref_count :: u32
  q_head :: ptr
  q_tail :: ptr
  q_entries :: u32

record q_heap =
  qh_entries :: "ptr \<Rightarrow> queue_entry option"
  qh_queues :: "ptr \<Rightarrow> queue option"
  qh_next :: ptr

definition put_entry :: "ptr \<Rightarrow> queue_entry option \<Rightarrow> 'a q_heap_scheme \<Rightarrow> 'a q_heap_scheme" where
  "put_entry p x h = h\<lparr>qh_entries := (qh_entries h)(p := x)\<rparr>"

definition put_queue :: "ptr \<Rightarrow> queue option \<Rightarrow> 'a q_heap_scheme \<Rightarrow> 'a q_heap_scheme" where
  "put_queue p x h = h\<lparr>qh_queues := (qh_queues h)(p := x)\<rparr>"

text \<open>An assignment to the \<open>next\<close> field of an allocated entry.\<close>

definition set_next :: "ptr \<Rightarrow> ptr \<Rightarrow> 'a q_heap_scheme \<Rightarrow> 'a q_heap_scheme option" where
  "set_next p n h = do { x \<leftarrow> qh_entries h p; Some (put_entry p (Some (x\<lparr>qe_next := n\<rparr>)) h) }"

section \<open>Operations\<close>

definition queue_ref :: "'a q_heap_scheme \<Rightarrow> ptr \<Rightarrow> (ptr \<times> 'a q_heap_scheme) option" where
  "queue_ref h queue =
     (if queue = 0 then Some (0, h)
      else do { q \<leftarrow> qh_queues h queue;
                Some (queue, put_queue queue (Some (q\<lparr>q_ref_count := q_ref_count q + 1\<rparr>)) h) })"

definition queue_unref :: "'a q_heap_scheme \<Rightarrow> ptr \<Rightarrow> 'a q_heap_scheme option" where
  "queue_unref h queue =
     do { q \<leftarrow> qh_queues h queue;
          let q = q\<lparr>q_ref_count := q_ref_count q - 1\<rparr>;
          if q_ref_count q \<noteq> 0 then Some (put_queue queue (Some q) h)
          else Some (put_queue queue None h) }"

definition queue_new :: "'a q_heap_scheme \<Rightarrow> (ptr \<times> 'a q_heap_scheme) option" where
  "queue_new h =
     (let queue = qh_next h;
          h = put_queue queue (Some \<lparr>q_ref_count = 0, q_head = 0, q_tail = 0, q_entries = 0\<rparr>)
                (h\<lparr>qh_next := queue + 1\<rparr>)
      in queue_ref h queue)"

definition queue_entry_new :: "'a q_heap_scheme \<Rightarrow> ptr \<Rightarrow> ptr \<times> 'a q_heap_scheme" where
  "queue_entry_new h data =
     (let entry = qh_next h
      in (entry, put_entry entry (Some \<lparr>qe_data = data, qe_next = 0\<rparr>) (h\<lparr>qh_next := entry + 1\<rparr>)))"

definition queue_push_tail :: "'a q_heap_scheme \<Rightarrow> ptr \<Rightarrow> ptr \<Rightarrow> (bool \<times> 'a q_heap_scheme) option" where
  "queue_push_tail h queue data =
     (if queue = 0 then Some (False, h)
      else do {
        let (entry, h) = queue_entry_new h data;
        q \<leftarrow> qh_queues h queue;
        h \<leftarrow> (if q_tail q \<noteq> 0 then set_next (q_tail q) entry h else Some h);
        let q = q\<lparr>q_tail := entry\<rparr>;
        let q = (if q_head q = 0 then q\<lparr>q_head := entry\<rparr> else q);
        let q = q\<lparr>q_entries := q_entries q + 1\<rparr>;
        Some (True, put_queue queue (Some q) h) })"

definition queue_push_head :: "'a q_heap_scheme \<Rightarrow> ptr \<Rightarrow> ptr \<Rightarrow> (bool \<times> 'a q_heap_scheme) option" where
  "queue_push_head h queue data =
     (if queue = 0 then Some (False, h)
      else do {
        let (entry, h) = queue_entry_new h data;
        q \<leftarrow> qh_queues h queue;
        h \<leftarrow> set_next entry (q_head q) h;
        let q = q\<lparr>q_head := entry\<rparr>;
        let q = (if q_tail q = 0 then q\<lparr>q_tail := entry\<rparr> else q);
        let q = q\<lparr>q_entries := q_entries q + 1\<rparr>;
        Some (True, put_queue queue (Some q) h) })"

text \<open>
  The search loops: the first entry whose data satisfies \<open>P\<close>, and the entry before it; 0 when there is none. A loop
  over a cyclic list does not return, which is \<open>None\<close> too.
\<close>

partial_function (option) find_entry ::
  "(ptr \<Rightarrow> queue_entry option) \<Rightarrow> (ptr \<Rightarrow> bool) \<Rightarrow> ptr \<Rightarrow> ptr \<Rightarrow> (ptr \<times> ptr) option" where
  "find_entry m P entry prev =
     (if entry = 0 then Some (0, prev)
      else do { x \<leftarrow> m entry;
                if P (qe_data x) then Some (entry, prev)
                else find_entry m P (qe_next x) entry })"

definition queue_push_after :: "'a q_heap_scheme \<Rightarrow> ptr \<Rightarrow> ptr \<Rightarrow> ptr \<Rightarrow> (bool \<times> 'a q_heap_scheme) option" where
  "queue_push_after h queue entry data =
     (if queue = 0 then Some (False, h)
      else do {
        q \<leftarrow> qh_queues h queue;
        (qentry, _) \<leftarrow> find_entry (qh_entries h) (\<lambda>d. d = entry) (q_head q) 0;
        if qentry = 0 then Some (False, h)
        else do {
          let (new_entry, h) = queue_entry_new h data;
          x \<leftarrow> qh_entries h qentry;
          h \<leftarrow> set_next new_entry (qe_next x) h;
          let q = (if qe_next x = 0 then q\<lparr>q_tail := new_entry\<rparr> else q);
          h \<leftarrow> set_next qentry new_entry h;
          let q = q\<lparr>q_entries := q_entries q + 1\<rparr>;
          Some (True, put_queue queue (Some q) h) } })"

definition queue_pop_head :: "'a q_heap_scheme \<Rightarrow> ptr \<Rightarrow> (ptr \<times> 'a q_heap_scheme) option" where
  "queue_pop_head h queue =
     (if queue = 0 then Some (0, h)
      else do {
        q \<leftarrow> qh_queues h queue;
        if q_head q = 0 then Some (0, h)
        else do {
          let entry = q_head q;
          x \<leftarrow> qh_entries h entry;
          let q = (if qe_next x = 0 then q\<lparr>q_head := 0, q_tail := 0\<rparr> else q\<lparr>q_head := qe_next x\<rparr>);
          let q = q\<lparr>q_entries := q_entries q - 1\<rparr>;
          Some (qe_data x, put_queue queue (Some q) (put_entry entry None h)) } })"

definition queue_peek_head :: "'a q_heap_scheme \<Rightarrow> ptr \<Rightarrow> ptr option" where
  "queue_peek_head h queue =
     (if queue = 0 then Some 0
      else do { q \<leftarrow> qh_queues h queue;
                if q_head q = 0 then Some 0
                else do { x \<leftarrow> qh_entries h (q_head q); Some (qe_data x) } })"

definition queue_peek_tail :: "'a q_heap_scheme \<Rightarrow> ptr \<Rightarrow> ptr option" where
  "queue_peek_tail h queue =
     (if queue = 0 then Some 0
      else do { q \<leftarrow> qh_queues h queue;
                if q_tail q = 0 then Some 0
                else do { x \<leftarrow> qh_entries h (q_tail q); Some (qe_data x) } })"

text \<open>\<open>queue_foreach\<close>; a missing callback is \<open>None\<close>.\<close>

partial_function (option) foreach_loop ::
  "(ptr \<Rightarrow> 'a q_heap_scheme \<Rightarrow> 'a q_heap_scheme option) \<Rightarrow> 'a q_heap_scheme \<Rightarrow> ptr \<Rightarrow> ptr \<Rightarrow> 'a q_heap_scheme option" where
  "foreach_loop f h queue entry =
     (if entry = 0 then Some h
      else do {
        q \<leftarrow> qh_queues h queue;
        if q_head q \<noteq> 0 \<and> sint (q_ref_count q) > 1
        then do { x \<leftarrow> qh_entries h entry;
                  h \<leftarrow> f (qe_data x) h;
                  foreach_loop f h queue (qe_next x) }
        else Some h })"

definition queue_foreach ::
  "'a q_heap_scheme \<Rightarrow> ptr \<Rightarrow> (ptr \<Rightarrow> 'a q_heap_scheme \<Rightarrow> 'a q_heap_scheme option) option \<Rightarrow> 'a q_heap_scheme option" where
  "queue_foreach h queue function =
     (case function of
        None \<Rightarrow> Some h
      | Some f \<Rightarrow>
          if queue = 0 then Some h
          else do {
            q \<leftarrow> qh_queues h queue;
            let entry = q_head q;
            if entry = 0 then Some h
            else do {
              (_, h) \<leftarrow> queue_ref h queue;
              h \<leftarrow> foreach_loop f h queue entry;
              queue_unref h queue } })"

definition direct_match :: "ptr \<Rightarrow> ptr \<Rightarrow> bool" where
  "direct_match a b = (a = b)"

definition match_func :: "(ptr \<Rightarrow> ptr \<Rightarrow> bool) option \<Rightarrow> ptr \<Rightarrow> ptr \<Rightarrow> bool" where
  "match_func function = (case function of None \<Rightarrow> direct_match | Some f \<Rightarrow> f)"

definition queue_find :: "'a q_heap_scheme \<Rightarrow> ptr \<Rightarrow> (ptr \<Rightarrow> ptr \<Rightarrow> bool) option \<Rightarrow> ptr \<Rightarrow> ptr option" where
  "queue_find h queue function match_data =
     (if queue = 0 then Some 0
      else do {
        q \<leftarrow> qh_queues h queue;
        (entry, _) \<leftarrow> find_entry (qh_entries h) (\<lambda>d. match_func function d match_data) (q_head q) 0;
        if entry = 0 then Some 0
        else do { x \<leftarrow> qh_entries h entry; Some (qe_data x) } })"

text \<open>The removal of \<open>entry\<close>, whose predecessor is \<open>prev\<close>, in \<open>queue_remove\<close> and \<open>queue_remove_if\<close>.\<close>

definition unlink_entry :: "'a q_heap_scheme \<Rightarrow> ptr \<Rightarrow> ptr \<Rightarrow> ptr \<Rightarrow> (ptr \<times> 'a q_heap_scheme) option" where
  "unlink_entry h queue entry prev =
     do { q \<leftarrow> qh_queues h queue;
          x \<leftarrow> qh_entries h entry;
          (q, h) \<leftarrow> (if prev \<noteq> 0 then do { h \<leftarrow> set_next prev (qe_next x) h; Some (q, h) }
                      else Some (q\<lparr>q_head := qe_next x\<rparr>, h));
          let q = (if qe_next x = 0 then q\<lparr>q_tail := prev\<rparr> else q);
          let h = put_entry entry None h;
          let q = q\<lparr>q_entries := q_entries q - 1\<rparr>;
          Some (qe_data x, put_queue queue (Some q) h) }"

definition queue_remove :: "'a q_heap_scheme \<Rightarrow> ptr \<Rightarrow> ptr \<Rightarrow> (bool \<times> 'a q_heap_scheme) option" where
  "queue_remove h queue data =
     (if queue = 0 then Some (False, h)
      else do {
        q \<leftarrow> qh_queues h queue;
        (entry, prev) \<leftarrow> find_entry (qh_entries h) (\<lambda>d. d = data) (q_head q) 0;
        if entry = 0 then Some (False, h)
        else do { (_, h) \<leftarrow> unlink_entry h queue entry prev; Some (True, h) } })"

definition queue_remove_if ::
  "'a q_heap_scheme \<Rightarrow> ptr \<Rightarrow> (ptr \<Rightarrow> ptr \<Rightarrow> bool) option \<Rightarrow> ptr \<Rightarrow> (ptr \<times> 'a q_heap_scheme) option" where
  "queue_remove_if h queue function user_data =
     (if queue = 0 then Some (0, h)
      else do {
        q \<leftarrow> qh_queues h queue;
        (entry, prev) \<leftarrow> find_entry (qh_entries h) (\<lambda>d. match_func function d user_data) (q_head q) 0;
        if entry = 0 then Some (0, h)
        else unlink_entry h queue entry prev })"

text \<open>A destroy callback that may be missing.\<close>

definition run_destroy ::
  "(ptr \<Rightarrow> 'a q_heap_scheme \<Rightarrow> 'a q_heap_scheme option) option \<Rightarrow> ptr \<Rightarrow> 'a q_heap_scheme \<Rightarrow> 'a q_heap_scheme option" where
  "run_destroy destroy data h = (case destroy of None \<Rightarrow> Some h | Some d \<Rightarrow> d data h)"

partial_function (option) remove_matching ::
  "(ptr \<Rightarrow> ptr \<Rightarrow> bool) \<Rightarrow> ptr \<Rightarrow> (ptr \<Rightarrow> 'a q_heap_scheme \<Rightarrow> 'a q_heap_scheme option) option \<Rightarrow>
     'a q_heap_scheme \<Rightarrow> ptr \<Rightarrow> u32 \<Rightarrow> (u32 \<times> 'a q_heap_scheme) option" where
  "remove_matching f user_data destroy h queue count =
     do { q \<leftarrow> qh_queues h queue;
          (data, h) \<leftarrow> queue_remove_if h queue (Some f) user_data;
          q' \<leftarrow> qh_queues h queue;
          if q_entries q = q_entries q' then Some (count, h)
          else do { h \<leftarrow> run_destroy destroy data h;
                    remove_matching f user_data destroy h queue (count + 1) } }"

partial_function (option) free_entries ::
  "(ptr \<Rightarrow> 'a q_heap_scheme \<Rightarrow> 'a q_heap_scheme option) option \<Rightarrow> 'a q_heap_scheme \<Rightarrow> ptr \<Rightarrow> u32 \<Rightarrow> (u32 \<times> 'a q_heap_scheme) option" where
  "free_entries destroy h entry count =
     (if entry = 0 then Some (count, h)
      else do {
        x \<leftarrow> qh_entries h entry;
        h \<leftarrow> run_destroy destroy (qe_data x) h;
        _ \<leftarrow> qh_entries h entry;
        free_entries destroy (put_entry entry None h) (qe_next x) (count + 1) })"

definition queue_remove_all ::
  "'a q_heap_scheme \<Rightarrow> ptr \<Rightarrow> (ptr \<Rightarrow> ptr \<Rightarrow> bool) option \<Rightarrow> ptr \<Rightarrow>
     (ptr \<Rightarrow> 'a q_heap_scheme \<Rightarrow> 'a q_heap_scheme option) option \<Rightarrow> (u32 \<times> 'a q_heap_scheme) option" where
  "queue_remove_all h queue function user_data destroy =
     (if queue = 0 then Some (0, h)
      else do {
        q \<leftarrow> qh_queues h queue;
        let entry = q_head q;
        case function of
          Some f \<Rightarrow> (if entry = 0 then Some (0, h) else remove_matching f user_data destroy h queue 0)
        | None \<Rightarrow>
            free_entries destroy (put_queue queue (Some (q\<lparr>q_head := 0, q_tail := 0, q_entries := 0\<rparr>)) h) entry 0 })"

definition queue_destroy ::
  "'a q_heap_scheme \<Rightarrow> ptr \<Rightarrow> (ptr \<Rightarrow> 'a q_heap_scheme \<Rightarrow> 'a q_heap_scheme option) option \<Rightarrow> 'a q_heap_scheme option" where
  "queue_destroy h queue destroy =
     (if queue = 0 then Some h
      else do { (_, h) \<leftarrow> queue_remove_all h queue None 0 destroy;
                queue_unref h queue })"

definition queue_get_entries :: "'a q_heap_scheme \<Rightarrow> ptr \<Rightarrow> ptr option" where
  "queue_get_entries h queue = (if queue = 0 then Some 0 else do { q \<leftarrow> qh_queues h queue; Some (q_head q) })"

definition queue_length :: "'a q_heap_scheme \<Rightarrow> ptr \<Rightarrow> u32 option" where
  "queue_length h queue = (if queue = 0 then Some 0 else do { q \<leftarrow> qh_queues h queue; Some (q_entries q) })"

definition queue_isempty :: "'a q_heap_scheme \<Rightarrow> ptr \<Rightarrow> bool option" where
  "queue_isempty h queue = (if queue = 0 then Some True else do { q \<leftarrow> qh_queues h queue; Some (q_entries q = 0) })"

end
