(* ===== verification/QueueCorrect.thy ===== *)
theory QueueCorrect
  imports Queue
begin

text \<open>
  The queues of \<open>src/src/bt/btgatt_server/src/shared/queue.c\<close> refine lists. \<open>heap_rep\<close> says that every queue of a heap is a list of its own
  entries and that there are no other entries; every operation keeps it, so no operation follows a dangling
  pointer, leaks an entry or touches another queue. The locale \<open>queue_store\<close> is the contract the users of the queue rely on.
\<close>

section \<open>List segments\<close>

primrec seg :: "(ptr \<Rightarrow> queue_entry option) \<Rightarrow> ptr \<Rightarrow> ptr list \<Rightarrow> ptr \<Rightarrow> bool" where
  "seg m p [] r = (p = r)"
| "seg m p (a # as) r = (p = a \<and> a \<noteq> 0 \<and> (\<exists>x. m a = Some x \<and> seg m (qe_next x) as r))"

lemma seg_append: "seg m p (as @ bs) r = (\<exists>s. seg m p as s \<and> seg m s bs r)"
  by (induction as arbitrary: p) auto

lemma seg_frame:
  assumes "seg m p as r" and "\<And>a. a \<in> set as \<Longrightarrow> m' a = m a"
  shows "seg m' p as r"
  using assms by (induction as arbitrary: p) fastforce+

lemma seg_nonzero: "seg m p as r \<Longrightarrow> a \<in> set as \<Longrightarrow> a \<noteq> 0"
  by (induction as arbitrary: p) auto

lemma seg_allocated: "seg m p as r \<Longrightarrow> a \<in> set as \<Longrightarrow> \<exists>x. m a = Some x"
  by (induction as arbitrary: p) auto

lemma seg_head: "seg m p as 0 \<Longrightarrow> p = 0 \<longleftrightarrow> as = []"
  by (cases as) auto

lemma seg_det: "seg m p as 0 \<Longrightarrow> seg m p bs 0 \<Longrightarrow> as = bs"
proof (induction as arbitrary: p bs)
  case (Cons a as)
  then show ?case by (cases bs) fastforce+
qed (auto dest: seg_head)

text \<open>The data of a list of entries.\<close>

definition data_of :: "(ptr \<Rightarrow> queue_entry option) \<Rightarrow> ptr list \<Rightarrow> ptr list" where
  "data_of m as = map (\<lambda>a. qe_data (the (m a))) as"

lemma data_of_simps [simp]:
  "data_of m [] = []" "data_of m (a # as) = qe_data (the (m a)) # data_of m as"
  "data_of m (as @ bs) = data_of m as @ data_of m bs" "length (data_of m as) = length as"
  by (simp_all add: data_of_def)

lemma data_of_frame:
  assumes "\<And>a. a \<in> set as \<Longrightarrow> map_option qe_data (m' a) = map_option qe_data (m a) \<and> m a \<noteq> None"
  shows "data_of m' as = data_of m as"
  unfolding data_of_def
proof (rule map_cong[OF refl])
  fix a assume "a \<in> set as"
  with assms[of a] show "qe_data (the (m' a)) = qe_data (the (m a))" by (cases "m a"; cases "m' a") auto
qed

section \<open>Well-formed heaps\<close>

definition queue_rep :: "(ptr \<Rightarrow> queue_entry option) \<Rightarrow> queue \<Rightarrow> ptr list \<Rightarrow> bool" where
  "queue_rep m q as = (seg m (q_head q) as 0 \<and> distinct as \<and>
     q_tail q = (if as = [] then 0 else last as) \<and> q_entries q = of_nat (length as))"

definition heap_rep :: "'a q_heap_scheme \<Rightarrow> (ptr \<Rightarrow> ptr list) \<Rightarrow> bool" where
  "heap_rep h A =
     ((\<forall>q Q. qh_queues h q = Some Q \<longrightarrow> q \<noteq> 0 \<and> q < qh_next h \<and> queue_rep (qh_entries h) Q (A q)) \<and>
      (\<forall>q. qh_queues h q = None \<longrightarrow> A q = []) \<and>
      (\<forall>q q'. q \<noteq> q' \<longrightarrow> set (A q) \<inter> set (A q') = {}) \<and>
      dom (qh_entries h) = (\<Union>q. set (A q)) \<and> (\<forall>p \<in> dom (qh_entries h). p < qh_next h) \<and> 0 < qh_next h)"

definition q_lists :: "'a q_heap_scheme \<Rightarrow> (ptr \<Rightarrow> ptr list) \<Rightarrow> ptr \<Rightarrow> ptr list option" where
  "q_lists h A q = (if qh_queues h q = None then None else Some (data_of (qh_entries h) (A q)))"

lemma heap_repD:
  assumes "heap_rep h A" and "qh_queues h q = Some Q"
  shows "q \<noteq> 0" and "q < qh_next h" and "seg (qh_entries h) (q_head Q) (A q) 0" and "distinct (A q)"
    and "q_tail Q = (if A q = [] then 0 else last (A q))" and "q_entries Q = of_nat (length (A q))"
    and "\<And>a. a \<in> set (A q) \<Longrightarrow> a < qh_next h" and "qh_entries h (qh_next h) = None"
  using assms by (auto simp: heap_rep_def queue_rep_def)

text \<open>
  The step of every operation: the entries of queue \<open>q\<close> change from \<open>A q\<close> to \<open>bs\<close>, new ones are fresh, and everything else stays.
\<close>

lemma heap_rep_update:
  assumes rep: "heap_rep h A" and q: "qh_queues h q = Some Q"
    and queues: "qh_queues h' = (qh_queues h)(q := Some Q')"
    and new: "queue_rep (qh_entries h') Q' bs"
    and frame: "\<And>a. a \<notin> set (A q) \<Longrightarrow> a \<notin> set bs \<Longrightarrow> qh_entries h' a = qh_entries h a"
    and gone: "\<And>a. a \<in> set (A q) \<Longrightarrow> a \<notin> set bs \<Longrightarrow> qh_entries h' a = None"
    and fresh: "\<And>a. a \<in> set bs \<Longrightarrow> a \<in> set (A q) \<or> qh_next h \<le> a \<and> a < qh_next h'"
    and mono: "qh_next h \<le> qh_next h'"
  shows "heap_rep h' (A(q := bs))"
    and "q_lists h' (A(q := bs)) = (q_lists h A)(q \<mapsto> data_of (qh_entries h') bs)"
proof -
  have disj: "q1 \<noteq> q2 \<Longrightarrow> set (A q1) \<inter> set (A q2) = {}" for q1 q2 using rep by (auto simp: heap_rep_def)
  have bound: "a \<in> set (A q1) \<Longrightarrow> a < qh_next h" for a q1 using rep by (auto simp: heap_rep_def)
  have other: "a \<notin> set bs" "a \<notin> set (A q)" if "a \<in> set (A q1)" "q1 \<noteq> q" for a q1
    using that disj[OF that(2)] bound[OF that(1)] fresh[of a] by force+
  have same: "qh_entries h' a = qh_entries h a" if "a \<in> set (A q1)" "q1 \<noteq> q" for a q1
    using frame other[OF that] by auto
  have alloc: "a \<in> dom (qh_entries h') \<longleftrightarrow> a \<in> set bs \<or> a \<notin> set (A q) \<and> a \<in> dom (qh_entries h)" for a
  proof (cases "a \<in> set bs")
    case True
    then show ?thesis using new seg_allocated[of "qh_entries h'" "q_head Q'" bs 0 a] by (auto simp: queue_rep_def)
  next
    case False
    then show ?thesis using frame[of a] gone[of a] by (cases "a \<in> set (A q)") (auto simp: dom_def)
  qed
  have dom: "dom (qh_entries h) = (\<Union>q. set (A q))" using rep by (simp add: heap_rep_def)
  have "dom (qh_entries h') = (\<Union>q1. set ((A(q := bs)) q1))"
  proof (rule set_eqI)
    fix a
    have "a \<in> dom (qh_entries h') \<longleftrightarrow> a \<in> set bs \<or> (\<exists>q1. q1 \<noteq> q \<and> a \<in> set (A q1))"
      unfolding alloc dom using other(2)[of a] by (auto; blast)
    then show "a \<in> dom (qh_entries h') \<longleftrightarrow> a \<in> (\<Union>q1. set ((A(q := bs)) q1))" by auto
  qed
  moreover have "a < qh_next h'" if "a \<in> dom (qh_entries h')" for a
    using that fresh[of a] bound[of a] mono unfolding alloc dom by fastforce
  moreover have "set ((A(q := bs)) q1) \<inter> set ((A(q := bs)) q2) = {}" if "q1 \<noteq> q2" for q1 q2
    using that disj[of q1 q2] other by auto
  moreover have "queue_rep (qh_entries h') Q1 (A q1)" if "qh_queues h q1 = Some Q1" "q1 \<noteq> q" for q1 Q1
  proof -
    have "queue_rep (qh_entries h) Q1 (A q1)" using rep that(1) by (auto simp: heap_rep_def)
    then show ?thesis unfolding queue_rep_def using seg_frame same that(2) by blast
  qed
  moreover have "p < qh_next h'" "p \<noteq> 0" if "qh_queues h p \<noteq> None" for p
    using rep that mono by (auto simp: heap_rep_def) (meson less_le_trans)
  moreover have "0 < qh_next h'" using rep mono by (auto simp: heap_rep_def)
  ultimately show "heap_rep h' (A(q := bs))"
    using rep new q unfolding heap_rep_def queues by (simp split: if_splits)
  show "q_lists h' (A(q := bs)) = (q_lists h A)(q \<mapsto> data_of (qh_entries h') bs)"
  proof (rule ext)
    fix q1
    show "q_lists h' (A(q := bs)) q1 = ((q_lists h A)(q \<mapsto> data_of (qh_entries h') bs)) q1"
      using same[of _ q1] by (auto simp: q_lists_def queues data_of_def)
  qed
qed

section \<open>Adding entries\<close>

lemmas heap_ops = put_entry_def put_queue_def set_next_def queue_entry_new_def Let_def

lemma queue_push_tail_rep:
  assumes rep: "heap_rep h A" and q: "qh_queues h q = Some Q"
  shows "\<exists>h' A'. queue_push_tail h q d = Some (True, h') \<and> heap_rep h' A' \<and>
    q_lists h' A' = (q_lists h A)(q \<mapsto> data_of (qh_entries h) (A q) @ [d])"
proof -
  note r = heap_repD[OF rep q]
  let ?n = "qh_next h"
  have n: "?n \<notin> set (A q)" "?n \<noteq> 0" using r by auto
  show ?thesis
  proof (cases "A q = []")
    case True
    define h' where "h' = put_queue q (Some (Q\<lparr>q_tail := ?n, q_head := ?n, q_entries := q_entries Q + 1\<rparr>))
      (put_entry ?n (Some \<lparr>qe_data = d, qe_next = 0\<rparr>) (h\<lparr>qh_next := ?n + 1\<rparr>))"
    have "queue_push_tail h q d = Some (True, h')"
      using True r q n by (simp add: queue_push_tail_def heap_ops h'_def)
    moreover have "queue_rep (qh_entries h') (Q\<lparr>q_tail := ?n, q_head := ?n, q_entries := q_entries Q + 1\<rparr>) [?n]"
      using True r n by (simp add: queue_rep_def h'_def heap_ops)
    ultimately show ?thesis
      using heap_rep_update[OF rep q, of h' _ "[?n]"] True r(1) by (auto simp: h'_def heap_ops)
  next
    case False
    then obtain bs l where A: "A q = bs @ [l]" using rev_exhaust by blast
    then obtain x where x: "qh_entries h l = Some x" "seg (qh_entries h) (q_head Q) bs l"
      using r(3) by (auto simp: seg_append)
    let ?Q = "Q\<lparr>q_tail := ?n, q_entries := q_entries Q + 1\<rparr>"
    define h' where "h' = put_queue q (Some ?Q) (put_entry l (Some (x\<lparr>qe_next := ?n\<rparr>))
      (put_entry ?n (Some \<lparr>qe_data = d, qe_next = 0\<rparr>) (h\<lparr>qh_next := ?n + 1\<rparr>)))"
    have l: "l \<noteq> 0" "l \<noteq> ?n" "l \<notin> set bs" "?n \<notin> set bs" using seg_nonzero[OF r(3), of l] n r(4) A by auto
    have "queue_push_tail h q d = Some (True, h')"
      using False A r q n l x seg_head[OF r(3)] by (simp add: queue_push_tail_def heap_ops h'_def)
    moreover have "seg (qh_entries h') (q_head Q) bs l"
      by (rule seg_frame[OF x(2)]) (use l in \<open>auto simp: h'_def heap_ops\<close>)
    then have "queue_rep (qh_entries h') ?Q (bs @ [l, ?n])"
      using r A n l by (auto simp: queue_rep_def h'_def heap_ops seg_append)
    moreover have "data_of (qh_entries h') bs = data_of (qh_entries h) bs"
      using l by (auto simp: data_of_def h'_def heap_ops)
    ultimately show ?thesis
      using heap_rep_update[OF rep q, of h' ?Q "bs @ [l, ?n]"] A r(1) x l by (auto simp: h'_def heap_ops)
  qed
qed

lemma queue_push_head_rep:
  assumes rep: "heap_rep h A" and q: "qh_queues h q = Some Q"
  shows "\<exists>h' A'. queue_push_head h q d = Some (True, h') \<and> heap_rep h' A' \<and>
    q_lists h' A' = (q_lists h A)(q \<mapsto> d # data_of (qh_entries h) (A q))"
proof -
  note r = heap_repD[OF rep q]
  let ?n = "qh_next h"
  have n: "?n \<notin> set (A q)" "?n \<noteq> 0" using r by auto
  define Q' where "Q' = (if A q = [] then Q\<lparr>q_head := ?n, q_tail := ?n\<rparr> else Q\<lparr>q_head := ?n\<rparr>)
    \<lparr>q_entries := q_entries Q + 1\<rparr>"
  define h' where "h' = put_queue q (Some Q')
      (put_entry ?n (Some \<lparr>qe_data = d, qe_next = q_head Q\<rparr>) (h\<lparr>qh_next := ?n + 1\<rparr>))"
  have t: "q_tail Q = 0 \<longleftrightarrow> A q = []" using r(5) seg_nonzero[OF r(3), of "last (A q)"] by auto
  have "queue_push_head h q d = Some (True, h')"
    using r q n t by (auto simp: queue_push_head_def heap_ops h'_def Q'_def)
  moreover have "seg (qh_entries h') (q_head Q) (A q) 0"
    by (rule seg_frame[OF r(3)]) (use n in \<open>auto simp: h'_def heap_ops\<close>)
  then have "queue_rep (qh_entries h') Q' (?n # A q)"
    using r n by (auto simp: queue_rep_def h'_def Q'_def heap_ops)
  moreover have "data_of (qh_entries h') (A q) = data_of (qh_entries h) (A q)"
    using n by (auto simp: data_of_def h'_def heap_ops)
  ultimately show ?thesis
    using heap_rep_update[OF rep q, of h' Q' "?n # A q"] by (auto simp: h'_def heap_ops)
qed

section \<open>Searching and removing\<close>

text \<open>The part of the heap that belongs to the client.\<close>

lemma more_put [simp]:
  "q_heap.more (put_entry p x h) = q_heap.more h" "q_heap.more (put_queue p y h) = q_heap.more h"
  by (simp_all add: put_entry_def put_queue_def)

lemma put_other [simp]: "qh_entries (put_queue p y h) = qh_entries h" "qh_next (put_queue p y h) = qh_next h"
  by (simp_all add: put_queue_def)

lemma unlink_more: "unlink_entry h q a p = Some (d, h') \<Longrightarrow> q_heap.more h' = q_heap.more h"
  by (cases "p = 0") (auto simp: unlink_entry_def set_next_def Let_def bind_eq_Some_conv)

lemma find_entry_none:
  assumes "seg m p as 0" and "\<forall>a \<in> set as. \<not> P (qe_data (the (m a)))"
  shows "find_entry m P p prev = Some (0, last (prev # as))"
  using assms by (induction as arbitrary: p prev) (auto simp: find_entry.simps)

lemma find_entry_some:
  assumes "seg m p (bs @ a # cs) 0" and "\<forall>b \<in> set bs. \<not> P (qe_data (the (m b)))" and "P (qe_data (the (m a)))"
  shows "find_entry m P p prev = Some (a, last (prev # bs))"
  using assms by (induction bs arbitrary: p prev) (auto simp: find_entry.simps[of m P])

lemma unlink_entry_rep:
  assumes rep: "heap_rep h A" and q: "qh_queues h q = Some Q" and A: "A q = bs @ a # cs"
  shows "\<exists>h' Q'. unlink_entry h q a (last (0 # bs)) = Some (qe_data (the (qh_entries h a)), h') \<and> heap_rep h' (A(q := bs @ cs)) \<and>
    qh_queues h' = (qh_queues h)(q \<mapsto> Q') \<and> q_entries Q' = q_entries Q - 1 \<and>
    q_lists h' (A(q := bs @ cs)) = (q_lists h A)(q \<mapsto> data_of (qh_entries h) (bs @ cs))"
proof -
  note r = heap_repD[OF rep q]
  obtain x where x: "qh_entries h a = Some x" "seg (qh_entries h) (q_head Q) bs a" "seg (qh_entries h) (qe_next x) cs 0"
    using r(3) A by (auto simp: seg_append)
  have d: "a \<notin> set bs" "a \<notin> set cs" "distinct bs" "distinct cs" "set bs \<inter> set cs = {}" "a \<noteq> 0"
    using r(4) A seg_nonzero[OF r(3), of a] by auto
  have nx: "qe_next x = 0 \<longleftrightarrow> cs = []" using seg_head[OF x(3)] .
  show ?thesis
  proof (cases bs rule: rev_cases)
    case Nil
    define Q' where "Q' = (if cs = [] then Q\<lparr>q_head := qe_next x, q_tail := 0\<rparr> else Q\<lparr>q_head := qe_next x\<rparr>)\<lparr>q_entries := q_entries Q - 1\<rparr>"
    define h' where "h' = put_queue q (Some Q') (put_entry a None h)"
    have u: "unlink_entry h q a (last (0 # bs)) = Some (qe_data x, h')"
      using q x Nil nx by (simp add: unlink_entry_def heap_ops h'_def Q'_def)
    have "seg (qh_entries h') (qe_next x) cs 0"
      by (rule seg_frame[OF x(3)]) (use d in \<open>auto simp: h'_def heap_ops\<close>)
    then have "queue_rep (qh_entries h') Q' (bs @ cs)"
      using r A d Nil nx by (auto simp: queue_rep_def Q'_def)
    moreover have "data_of (qh_entries h') (bs @ cs) = data_of (qh_entries h) (bs @ cs)"
      using d by (auto simp: data_of_def h'_def heap_ops)
    ultimately show ?thesis
      using heap_rep_update[OF rep q, of h' Q' "bs @ cs"] u A x(1) d
      by (auto simp: h'_def Q'_def heap_ops intro!: exI[of _ h'])
  next
    case (snoc bs' l)
    obtain y where y: "qh_entries h l = Some y" "seg (qh_entries h) (q_head Q) bs' l"
      using x(2) snoc by (auto simp: seg_append)
    have l: "l \<noteq> a" "l \<notin> set bs'" "l \<notin> set cs" "l \<noteq> 0" "a \<notin> set bs'" using d snoc seg_nonzero[OF r(3), of l] A by auto
    define Q' where "Q' = (if cs = [] then Q\<lparr>q_tail := l\<rparr> else Q)\<lparr>q_entries := q_entries Q - 1\<rparr>"
    define h' where "h' = put_queue q (Some Q') (put_entry a None (put_entry l (Some (y\<lparr>qe_next := qe_next x\<rparr>)) h))"
    have u: "unlink_entry h q a (last (0 # bs)) = Some (qe_data x, h')"
      using q x y snoc nx l by (simp add: unlink_entry_def heap_ops h'_def Q'_def)
    have "seg (qh_entries h') (qe_next x) cs 0"
      by (rule seg_frame[OF x(3)]) (use d l in \<open>auto simp: h'_def heap_ops\<close>)
    moreover have "seg (qh_entries h') (q_head Q) bs' l"
      by (rule seg_frame[OF y(2)]) (use d l in \<open>auto simp: h'_def heap_ops\<close>)
    moreover have "qh_entries h' l = Some (y\<lparr>qe_next := qe_next x\<rparr>)" using l by (simp add: h'_def heap_ops)
    ultimately have rep': "queue_rep (qh_entries h') Q' (bs @ cs)"
      using r A d l snoc by (auto simp: queue_rep_def Q'_def seg_append)
    have data: "data_of (qh_entries h') (bs @ cs) = data_of (qh_entries h) (bs @ cs)"
      using d l y snoc by (auto simp: data_of_def h'_def heap_ops)
    have queues: "qh_queues h' = (qh_queues h)(q := Some Q')" by (simp add: h'_def heap_ops)
    note up = heap_rep_update[OF rep q queues rep']
    have "heap_rep h' (A(q := bs @ cs))" by (rule up(1)) (use A l snoc in \<open>auto simp: h'_def heap_ops\<close>)
    moreover have "q_lists h' (A(q := bs @ cs)) = (q_lists h A)(q \<mapsto> data_of (qh_entries h') (bs @ cs))"
      by (rule up(2)) (use A l snoc in \<open>auto simp: h'_def heap_ops\<close>)
    ultimately show ?thesis using u x(1) queues unfolding data by (auto simp: Q'_def)
  qed
qed

section \<open>The operations on lists\<close>

primrec insert_after :: "'a \<Rightarrow> 'a \<Rightarrow> 'a list \<Rightarrow> 'a list" where
  "insert_after e d [] = []"
| "insert_after e d (x # xs) = (if x = e then x # d # xs else x # insert_after e d xs)"

primrec remove_first :: "('a \<Rightarrow> bool) \<Rightarrow> 'a list \<Rightarrow> 'a list" where
  "remove_first P [] = []"
| "remove_first P (x # xs) = (if P x then xs else x # remove_first P xs)"

lemma insert_after_split: "e \<notin> set xs \<Longrightarrow> insert_after e d (xs @ e # ys) = xs @ e # d # ys"
  by (induction xs) auto

lemma remove_first_split: "\<forall>x \<in> set xs. \<not> P x \<Longrightarrow> P y \<Longrightarrow> remove_first P (xs @ y # ys) = xs @ ys"
  by (induction xs) auto

lemma find_split: "\<forall>x \<in> set xs. \<not> P x \<Longrightarrow> P y \<Longrightarrow> find P (xs @ y # ys) = Some y"
  by (induction xs) auto

lemma remove_first_absent: "\<forall>x \<in> set xs. \<not> P x \<Longrightarrow> remove_first P xs = xs"
  by (induction xs) auto

lemma find_absent: "\<forall>x \<in> set xs. \<not> P x \<Longrightarrow> find P xs = None"
  by (induction xs) auto

lemma remove1_remove_first: "remove1 d xs = remove_first (\<lambda>x. x = d) xs"
  by (induction xs) auto

lemma set_data_of: "set (data_of m as) = (\<lambda>a. qe_data (the (m a))) ` set as"
  by (simp add: data_of_def)

text \<open>The first entry whose data satisfies a predicate, or none.\<close>

lemma first_entry_cases:
  obtains (none) "\<forall>a \<in> set as. \<not> P (qe_data (the (m a)))" "\<forall>d \<in> set (data_of m as). \<not> P d"
  | (some) bs a cs where "as = bs @ a # cs" "\<forall>b \<in> set bs. \<not> P (qe_data (the (m b)))" "P (qe_data (the (m a)))"
      "\<forall>d \<in> set (data_of m bs). \<not> P d"
proof (cases "\<exists>a \<in> set as. P (qe_data (the (m a)))")
  case True
  then show ?thesis using some split_list_first_prop[of as "\<lambda>a. P (qe_data (the (m a)))"] by (auto simp: set_data_of)
next
  case False
  then show ?thesis using none by (auto simp: set_data_of)
qed

lemma queue_find_rep:
  assumes rep: "heap_rep h A" and q: "qh_queues h q = Some Q"
  shows "queue_find h q f u = Some (case find (\<lambda>d. match_func f d u) (data_of (qh_entries h) (A q)) of None \<Rightarrow> 0 | Some d \<Rightarrow> d)"
proof -
  note r = heap_repD[OF rep q]
  show ?thesis
  proof (cases rule: first_entry_cases[of "A q" "\<lambda>d. match_func f d u" "qh_entries h"])
    case none
    then show ?thesis using r q find_entry_none[OF r(3) none(1)] by (simp add: queue_find_def find_absent)
  next
    case (some bs a cs)
    have x: "a \<noteq> 0" "\<exists>x. qh_entries h a = Some x" using seg_nonzero[OF r(3)] seg_allocated[OF r(3)] some by auto
    show ?thesis using r q x some find_entry_some[OF r(3)[unfolded some(1)] some(2,3)] find_split[OF some(4,3)]
      by (auto simp: queue_find_def)
  qed
qed

lemma queue_remove_if_rep:
  assumes rep: "heap_rep h A" and q: "qh_queues h q = Some Q"
    and P: "P = (\<lambda>d. match_func f d u)" and xs: "xs = data_of (qh_entries h) (A q)"
  shows "\<exists>h' A' Q'. queue_remove_if h q f u = Some (case find P xs of None \<Rightarrow> 0 | Some d \<Rightarrow> d, h') \<and> heap_rep h' A' \<and>
    q_lists h' A' = (q_lists h A)(q \<mapsto> remove_first P xs) \<and> qh_queues h' = (qh_queues h)(q \<mapsto> Q') \<and>
    q_entries Q' = (if find P xs = None then q_entries Q else q_entries Q - 1) \<and> q_heap.more h' = q_heap.more h"
proof -
  note r = heap_repD[OF rep q]
  show ?thesis
  proof (cases rule: first_entry_cases[of "A q" P "qh_entries h"])
    case none
    then have "queue_remove_if h q f u = Some (0, h)"
      using r q find_entry_none[OF r(3) none(1)] by (auto simp: queue_remove_if_def P)
    moreover have "q_lists h A = (q_lists h A)(q \<mapsto> remove_first P xs)"
      using none q xs by (auto simp: q_lists_def remove_first_absent fun_eq_iff)
    moreover have "find P xs = None" using none xs by (simp add: find_absent)
    moreover have "qh_queues h = (qh_queues h)(q \<mapsto> Q)" using q by (simp add: fun_upd_idem)
    ultimately show ?thesis using rep by (intro exI[of _ h] exI[of _ A] exI[of _ Q]) simp
  next
    case (some bs a cs)
    have a: "a \<noteq> 0" using seg_nonzero[OF r(3)] some by auto
    have f: "find P xs = Some (qe_data (the (qh_entries h a)))" "remove_first P xs = data_of (qh_entries h) (bs @ cs)"
      using some find_split[OF some(4,3)] remove_first_split[OF some(4,3)] by (simp_all add: xs)
    obtain h' Q' where u: "unlink_entry h q a (last (0 # bs)) = Some (qe_data (the (qh_entries h a)), h')"
      "heap_rep h' (A(q := bs @ cs))" "qh_queues h' = (qh_queues h)(q \<mapsto> Q')" "q_entries Q' = q_entries Q - 1"
      "q_lists h' (A(q := bs @ cs)) = (q_lists h A)(q \<mapsto> data_of (qh_entries h) (bs @ cs))"
      using unlink_entry_rep[OF rep q some(1)] by auto
    have "queue_remove_if h q f u = Some (qe_data (the (qh_entries h a)), h')"
      using r q a u(1) find_entry_some[OF r(3)[unfolded some(1)] some(2,3)] by (simp add: queue_remove_if_def P)
    moreover have "q_heap.more h' = q_heap.more h"
      using unlink_more[OF u(1)] .
    ultimately show ?thesis using u f by auto
  qed
qed

lemma queue_remove_via_if:
  "queue_remove h q d = (if q = 0 then Some (False, h) else
     do { Q \<leftarrow> qh_queues h q; (e, _) \<leftarrow> find_entry (qh_entries h) (\<lambda>x. x = d) (q_head Q) 0;
          (_, h) \<leftarrow> queue_remove_if h q None d; Some (e \<noteq> 0, h) })"
  by (auto simp: queue_remove_def queue_remove_if_def match_func_def direct_match_def split: option.splits bind_splits if_splits)

lemma queue_remove_rep:
  assumes rep: "heap_rep h A" and q: "qh_queues h q = Some Q" and xs: "xs = data_of (qh_entries h) (A q)"
  shows "\<exists>h' A'. queue_remove h q d = Some (d \<in> set xs, h') \<and> heap_rep h' A' \<and>
    q_lists h' A' = (q_lists h A)(q \<mapsto> remove1 d xs)"
proof -
  note r = heap_repD[OF rep q]
  have P: "(\<lambda>x. x = d) = (\<lambda>x. match_func None x d)" by (simp add: match_func_def direct_match_def fun_eq_iff)
  obtain h' A' where h': "queue_remove_if h q None d = Some (case find (\<lambda>x. x = d) xs of None \<Rightarrow> 0 | Some d \<Rightarrow> d, h')"
    "heap_rep h' A'" "q_lists h' A' = (q_lists h A)(q \<mapsto> remove1 d xs)"
    using queue_remove_if_rep[OF rep q P xs] unfolding remove1_remove_first by blast
  have "\<exists>e p. find_entry (qh_entries h) (\<lambda>x. x = d) (q_head Q) 0 = Some (e, p) \<and> (e \<noteq> 0 \<longleftrightarrow> d \<in> set xs)"
  proof (cases rule: first_entry_cases[of "A q" "\<lambda>x. x = d" "qh_entries h"])
    case none
    then show ?thesis using find_entry_none[OF r(3) none(1)] by (auto simp: xs)
  next
    case (some bs a cs)
    then show ?thesis using find_entry_some[OF r(3)[unfolded some(1)] some(2,3)] seg_nonzero[OF r(3), of a]
      by (auto simp: xs set_data_of)
  qed
  then show ?thesis using r(1) q h' by (auto simp: queue_remove_via_if)
qed

lemma queue_push_after_rep:
  assumes rep: "heap_rep h A" and q: "qh_queues h q = Some Q" and xs: "xs = data_of (qh_entries h) (A q)"
  shows "\<exists>h' A'. queue_push_after h q e d = Some (e \<in> set xs, h') \<and> heap_rep h' A' \<and>
    q_lists h' A' = (q_lists h A)(q \<mapsto> insert_after e d xs)"
proof -
  note r = heap_repD[OF rep q]
  let ?n = "qh_next h"
  have n: "?n \<notin> set (A q)" "?n \<noteq> 0" using r by auto
  show ?thesis
  proof (cases rule: first_entry_cases[of "A q" "\<lambda>x. x = e" "qh_entries h"])
    case none
    then have "queue_push_after h q e d = Some (False, h)"
      using r q find_entry_none[OF r(3) none(1)] by (auto simp: queue_push_after_def)
    moreover have "e \<notin> set xs" using none(2) xs by blast
    moreover from this have "insert_after e d xs = xs" by (induction xs) auto
    then have "q_lists h A = (q_lists h A)(q \<mapsto> insert_after e d xs)"
      using q xs by (auto simp: q_lists_def fun_eq_iff)
    ultimately show ?thesis using rep by auto
  next
    case (some bs a cs)
    obtain x where x: "qh_entries h a = Some x" "seg (qh_entries h) (q_head Q) bs a" "seg (qh_entries h) (qe_next x) cs 0"
      using r(3) some(1) by (auto simp: seg_append)
    have a: "a \<noteq> 0" "a \<noteq> ?n" "a \<notin> set bs" "a \<notin> set cs" "?n \<notin> set bs" "?n \<notin> set cs"
      using seg_nonzero[OF r(3), of a] r(4) n some(1) by auto
    define Q' where "Q' = (if cs = [] then Q\<lparr>q_tail := ?n\<rparr> else Q)\<lparr>q_entries := q_entries Q + 1\<rparr>"
    define h' where "h' = put_queue q (Some Q') (put_entry a (Some (x\<lparr>qe_next := ?n\<rparr>))
      (put_entry ?n (Some \<lparr>qe_data = d, qe_next = qe_next x\<rparr>) (h\<lparr>qh_next := ?n + 1\<rparr>)))"
    have u: "queue_push_after h q e d = Some (True, h')"
      using r q x a n seg_head[OF x(3)] find_entry_some[OF r(3)[unfolded some(1)] some(2,3)]
      by (auto simp: queue_push_after_def heap_ops h'_def Q'_def)
    have "seg (qh_entries h') (qe_next x) cs 0"
      by (rule seg_frame[OF x(3)]) (use a in \<open>auto simp: h'_def heap_ops\<close>)
    moreover have "seg (qh_entries h') (q_head Q) bs a"
      by (rule seg_frame[OF x(2)]) (use a in \<open>auto simp: h'_def heap_ops\<close>)
    moreover have at: "qh_entries h' a = Some (x\<lparr>qe_next := ?n\<rparr>)" "qh_entries h' ?n = Some \<lparr>qe_data = d, qe_next = qe_next x\<rparr>"
      using a by (simp_all add: h'_def heap_ops)
    ultimately have rep': "queue_rep (qh_entries h') Q' (bs @ a # ?n # cs)"
      using r some(1) a n by (auto simp: queue_rep_def Q'_def seg_append)
    have queues: "qh_queues h' = (qh_queues h)(q := Some Q')" by (simp add: h'_def heap_ops)
    note up = heap_rep_update[OF rep q queues rep']
    have "heap_rep h' (A(q := bs @ a # ?n # cs))" by (rule up(1)) (use some(1) a in \<open>auto simp: h'_def heap_ops\<close>)
    moreover have "q_lists h' (A(q := bs @ a # ?n # cs)) = (q_lists h A)(q \<mapsto> data_of (qh_entries h') (bs @ a # ?n # cs))"
      by (rule up(2)) (use some(1) a in \<open>auto simp: h'_def heap_ops\<close>)
    moreover have "data_of (qh_entries h') bs = data_of (qh_entries h) bs" "data_of (qh_entries h') cs = data_of (qh_entries h) cs"
      using a by (auto simp: data_of_def h'_def heap_ops)
    moreover have "e \<notin> set (data_of (qh_entries h) bs)" using some(4) by blast
    ultimately have "q_lists h' (A(q := bs @ a # ?n # cs)) = (q_lists h A)(q \<mapsto> insert_after e d xs)"
      using some(1,3) at x(1) by (simp add: xs insert_after_split)
    moreover have "e \<in> set xs" using some(1,3) x(1) by (auto simp: xs)
    ultimately show ?thesis using u \<open>heap_rep h' _\<close> by auto
  qed
qed

lemma queue_pop_head_rep:
  assumes rep: "heap_rep h A" and q: "qh_queues h q = Some Q" and xs: "xs = data_of (qh_entries h) (A q)"
  shows "\<exists>h' A'. queue_pop_head h q = Some (if xs = [] then 0 else hd xs, h') \<and> heap_rep h' A' \<and>
    q_lists h' A' = (q_lists h A)(q \<mapsto> tl xs)"
proof (cases "A q")
  case Nil
  then have "queue_pop_head h q = Some (0, h)" using heap_repD[OF rep q] q by (simp add: queue_pop_head_def)
  moreover have "q_lists h A = (q_lists h A)(q \<mapsto> tl xs)" using Nil q xs by (auto simp: q_lists_def fun_eq_iff)
  ultimately show ?thesis using rep xs Nil by auto
next
  case (Cons a cs)
  note r = heap_repD[OF rep q]
  have e: "q_head Q = a" "a \<noteq> 0" using r(3) Cons by auto
  obtain x where x: "qh_entries h a = Some x" "seg (qh_entries h) (qe_next x) cs 0" using r(3) Cons by auto
  obtain h' where u: "unlink_entry h q a 0 = Some (qe_data x, h')" "heap_rep h' (A(q := cs))"
      "q_lists h' (A(q := cs)) = (q_lists h A)(q \<mapsto> data_of (qh_entries h) cs)"
    using unlink_entry_rep[OF rep q, of "[]" a cs] Cons x(1) by auto
  have "queue_pop_head h q = unlink_entry h q a 0"
    using r(1) q e x(1) seg_head[OF x(2)] by (cases "cs = []") (simp_all add: queue_pop_head_def unlink_entry_def heap_ops)
  then show ?thesis using u xs Cons x(1) by auto
qed

lemma queue_peek_rep:
  assumes rep: "heap_rep h A" and q: "qh_queues h q = Some Q" and xs: "xs = data_of (qh_entries h) (A q)"
  shows "queue_peek_head h q = Some (if xs = [] then 0 else hd xs)"
    and "queue_peek_tail h q = Some (if xs = [] then 0 else last xs)"
    and "queue_length h q = Some (of_nat (length xs))"
    and "length xs < 2 ^ 32 \<Longrightarrow> queue_isempty h q = Some (xs = [])"
proof -
  note r = heap_repD[OF rep q]
  show "queue_peek_head h q = Some (if xs = [] then 0 else hd xs)"
    using r(1,3) q xs by (cases "A q") (auto simp: queue_peek_head_def)
  show "queue_peek_tail h q = Some (if xs = [] then 0 else last xs)"
  proof (cases "A q" rule: rev_cases)
    case (snoc bs l)
    then have "l \<noteq> 0" "\<exists>x. qh_entries h l = Some x" using seg_nonzero[OF r(3)] seg_allocated[OF r(3)] by auto
    then show ?thesis using r(1,5) q xs snoc by (auto simp: queue_peek_tail_def)
  qed (use r(1,5) q xs in \<open>auto simp: queue_peek_tail_def\<close>)
  show "queue_length h q = Some (of_nat (length xs))" using r(1,6) q xs by (simp add: queue_length_def)
  assume l: "length xs < 2 ^ 32"
  have "(of_nat (length xs) :: u32) = 0 \<longleftrightarrow> xs = []"
  proof
    assume "(of_nat (length xs) :: u32) = 0"
    then have "unat (of_nat (length xs) :: u32) = 0" by simp
    then show "xs = []" using l by (simp add: unat_of_nat)
  qed simp
  then show "queue_isempty h q = Some (xs = [])" using r(1,6) q xs by (simp add: queue_isempty_def)
qed

section \<open>Removing many entries\<close>

text \<open>
  A destroy callback that works on the part of the state outside the queues: \<open>g x\<close> is its effect there.
\<close>

definition client_destroy ::
  "(ptr \<Rightarrow> 'a q_heap_scheme \<Rightarrow> 'a q_heap_scheme option) option \<Rightarrow> (ptr \<Rightarrow> 'a \<Rightarrow> 'a) \<Rightarrow> bool" where
  "client_destroy destroy g = (\<forall>x h. run_destroy destroy x h = Some (q_heap.more_update (g x) h))"

lemma heap_rep_more [simp]:
  "heap_rep (q_heap.more_update f h) A = heap_rep h A" "q_lists (q_heap.more_update f h) A = q_lists h A"
  by (simp_all add: heap_rep_def q_lists_def fun_eq_iff)

lemma remove_matching_rep:
  assumes "client_destroy destroy g" and "heap_rep h A" and "qh_queues h q = Some Q"
    and "xs = data_of (qh_entries h) (A q)" and "P = (\<lambda>d. f d u)"
  shows "\<exists>h' A'. remove_matching f u destroy h q c = Some (c + of_nat (length (filter P xs)), h') \<and> heap_rep h' A' \<and>
    q_lists h' A' = (q_lists h A)(q \<mapsto> filter (\<lambda>d. \<not> P d) xs) \<and> q_heap.more h' = fold g (filter P xs) (q_heap.more h)"
  using assms(2-4)
proof (induction "length xs" arbitrary: h A Q xs c rule: less_induct)
  case less
  have P: "P = (\<lambda>d. match_func (Some f) d u)" by (simp add: assms(5) match_func_def)
  obtain h1 A1 Q1 where h1: "queue_remove_if h q (Some f) u = Some (case find P xs of None \<Rightarrow> 0 | Some d \<Rightarrow> d, h1)"
    "heap_rep h1 A1" "q_lists h1 A1 = (q_lists h A)(q \<mapsto> remove_first P xs)" "qh_queues h1 = (qh_queues h)(q \<mapsto> Q1)"
    "q_entries Q1 = (if find P xs = None then q_entries Q else q_entries Q - 1)" "q_heap.more h1 = q_heap.more h"
    using queue_remove_if_rep[OF less.prems(1,2) P less.prems(3)] by blast
  have q1: "qh_queues h1 q = Some Q1" using h1(4) by simp
  show ?case
  proof (cases "find P xs")
    case None
    then have "\<forall>x \<in> set xs. \<not> P x" by (simp add: find_None_iff)
    then have "filter P xs = []" "remove_first P xs = xs" "filter (\<lambda>d. \<not> P d) xs = xs"
      by (simp_all add: remove_first_absent filter_id_conv)
    then show ?thesis using h1 q1 less.prems(2) None by (subst remove_matching.simps) (auto simp: q1)
  next
    case (Some y)
    then obtain ys zs where s: "xs = ys @ y # zs" "P y" "\<forall>x \<in> set ys. \<not> P x"
      by (auto simp: find_Some_iff in_set_conv_nth) (metis id_take_nth_drop in_set_conv_nth length_take less_imp_le_nat min.absorb2 nth_take)
    then have rf: "remove_first P xs = ys @ zs" by (simp add: remove_first_split)
    have ne: "q_entries Q \<noteq> q_entries Q1" using h1(5) Some by simp
    let ?h = "q_heap.more_update (g y) h1"
    have "q_lists h1 A1 q = Some (ys @ zs)" using h1(3) rf by simp
    then have xs': "ys @ zs = data_of (qh_entries ?h) (A1 q)" by (simp add: q_lists_def q1)
    have lt: "length (ys @ zs) < length xs" using s(1) by simp
    have h: "heap_rep ?h A1" "qh_queues ?h q = Some Q1" using h1(2) q1 by simp_all
    obtain h2 A2 where h2: "remove_matching f u destroy ?h q (c + 1) = Some (c + 1 + of_nat (length (filter P (ys @ zs))), h2)"
      "heap_rep h2 A2" "q_lists h2 A2 = (q_lists ?h A1)(q \<mapsto> filter (\<lambda>d. \<not> P d) (ys @ zs))"
      "q_heap.more h2 = fold g (filter P (ys @ zs)) (q_heap.more ?h)"
      using less.hyps[OF lt h xs', of "c + 1"] by blast
    have fl: "filter P xs = y # filter P (ys @ zs)" "filter (\<lambda>d. \<not> P d) xs = filter (\<lambda>d. \<not> P d) (ys @ zs)"
      using s by (auto simp: filter_empty_conv)
    have "remove_matching f u destroy h q c = remove_matching f u destroy ?h q (c + 1)"
      using less.prems(2) h1(1) q1 ne Some assms(1)
      by (subst remove_matching.simps) (simp add: client_destroy_def)
    then show ?thesis using h2 fl h1(3,6) by (auto simp: add.assoc)
  qed
qed

lemma free_entries_seg:
  assumes "client_destroy destroy g" and "seg (qh_entries h) e as 0" and "distinct as"
  shows "free_entries destroy h e c = Some (c + of_nat (length as),
     q_heap.more_update (\<lambda>_. fold g (data_of (qh_entries h) as) (q_heap.more h))
       (h\<lparr>qh_entries := (\<lambda>a. if a \<in> set as then None else qh_entries h a)\<rparr>))"
  using assms(2,3)
proof (induction as arbitrary: h e c)
  case Nil
  then show ?case by (simp add: free_entries.simps)
next
  case (Cons a as)
  then obtain x where x: "e = a" "a \<noteq> 0" "qh_entries h a = Some x" "seg (qh_entries h) (qe_next x) as 0" by auto
  let ?h = "put_entry a None (q_heap.more_update (g (qe_data x)) h)"
  have s: "seg (qh_entries ?h) (qe_next x) as 0"
    by (rule seg_frame[OF x(4)]) (use Cons.prems(2) in \<open>auto simp: put_entry_def\<close>)
  have d: "data_of (qh_entries ?h) as = data_of (qh_entries h) as"
    using Cons.prems(2) by (auto simp: data_of_def put_entry_def)
  have "free_entries destroy h e c = free_entries destroy ?h (qe_next x) (c + 1)"
    using x assms(1) by (subst free_entries.simps) (simp add: client_destroy_def)
  also have "\<dots> = Some (c + 1 + of_nat (length as),
     q_heap.more_update (\<lambda>_. fold g (data_of (qh_entries ?h) as) (q_heap.more ?h))
       (?h\<lparr>qh_entries := (\<lambda>a. if a \<in> set as then None else qh_entries ?h a)\<rparr>))"
    using Cons.IH[OF s] Cons.prems(2) by simp
  finally show ?case using x unfolding d by (simp add: put_entry_def add.assoc fun_eq_iff)
qed

lemma queue_remove_all_rep:
  assumes cd: "client_destroy destroy g" and rep: "heap_rep h A" and q: "qh_queues h q = Some Q"
    and xs: "xs = data_of (qh_entries h) (A q)" and P: "P = (\<lambda>d. case f of None \<Rightarrow> True | Some f \<Rightarrow> f d u)"
  shows "\<exists>h' A'. queue_remove_all h q f u destroy = Some (of_nat (length (filter P xs)), h') \<and> heap_rep h' A' \<and>
    q_lists h' A' = (q_lists h A)(q \<mapsto> filter (\<lambda>d. \<not> P d) xs) \<and> q_heap.more h' = fold g (filter P xs) (q_heap.more h) \<and>
    (f = None \<longrightarrow> map_option q_ref_count (qh_queues h' q) = Some (q_ref_count Q))"
proof (cases f)
  case (Some f')
  note r = heap_repD[OF rep q]
  have P': "P = (\<lambda>d. f' d u)" by (simp add: P Some)
  show ?thesis
  proof (cases "A q = []")
    case True
    then have "queue_remove_all h q f u destroy = Some (0, h)"
      using r q Some seg_head[OF r(3)] by (simp add: queue_remove_all_def)
    moreover have "q_lists h A = (q_lists h A)(q \<mapsto> filter (\<lambda>d. \<not> P d) xs)"
      using q True xs by (auto simp: q_lists_def fun_eq_iff)
    ultimately show ?thesis using True xs rep Some by auto
  next
    case False
    then have "queue_remove_all h q f u destroy = remove_matching f' u destroy h q 0"
      using r q Some seg_head[OF r(3)] by (simp add: queue_remove_all_def)
    then show ?thesis using remove_matching_rep[OF cd rep q xs, of P f' u 0] P' Some by auto
  qed
next
  case None
  note r = heap_repD[OF rep q]
  let ?Q = "Q\<lparr>q_head := 0, q_tail := 0, q_entries := 0\<rparr>"
  let ?h = "put_queue q (Some ?Q) h"
  define h' where "h' = q_heap.more_update (\<lambda>_. fold g xs (q_heap.more h))
    (?h\<lparr>qh_entries := (\<lambda>a. if a \<in> set (A q) then None else qh_entries h a)\<rparr>)"
  have "queue_remove_all h q f u destroy = free_entries destroy ?h (q_head Q) 0"
    using r(1) q None by (simp add: queue_remove_all_def)
  also have "\<dots> = Some (of_nat (length xs), h')"
    using free_entries_seg[OF cd, of ?h "q_head Q" "A q" 0] r(3,4) xs by (simp add: h'_def cong: if_cong)
  finally have u: "queue_remove_all h q f u destroy = Some (of_nat (length xs), h')" .
  have queues: "qh_queues h' = (qh_queues h)(q := Some ?Q)" by (simp add: h'_def put_queue_def)
  have rep': "queue_rep (qh_entries h') ?Q []" by (simp add: queue_rep_def)
  note up = heap_rep_update[OF rep q queues rep']
  have "heap_rep h' (A(q := []))" by (rule up(1)) (auto simp: h'_def put_queue_def)
  moreover have "q_lists h' (A(q := [])) = (q_lists h A)(q \<mapsto> data_of (qh_entries h') [])"
    by (rule up(2)) (auto simp: h'_def put_queue_def)
  moreover have "filter P xs = xs" "filter (\<lambda>d. \<not> P d) xs = []" by (simp_all add: P None)
  moreover have "q_heap.more h' = fold g xs (q_heap.more h)" by (simp add: h'_def)
  ultimately show ?thesis using u queues by (intro exI[of _ h'] exI[of _ "A(q := [])"]) simp
qed

section \<open>Creating and destroying queues\<close>

lemma queue_new_rep:
  assumes rep: "heap_rep h A"
  shows "\<exists>q h'. queue_new h = Some (q, h') \<and> q \<noteq> 0 \<and> qh_queues h q = None \<and> heap_rep h' A \<and>
    q_lists h' A = (q_lists h A)(q \<mapsto> [])"
proof -
  let ?q = "qh_next h"
  define h' where "h' = put_queue ?q (Some \<lparr>q_ref_count = 1, q_head = 0, q_tail = 0, q_entries = 0\<rparr>) (h\<lparr>qh_next := ?q + 1\<rparr>)"
  have q: "?q \<noteq> 0" "qh_queues h ?q = None" using rep by (auto simp: heap_rep_def) (metis not_None_eq less_irrefl)
  then have A: "A ?q = []" using rep by (auto simp: heap_rep_def)
  have new: "queue_new h = Some (?q, h')" using q by (simp add: queue_new_def queue_ref_def put_queue_def Let_def h'_def)
  have queues: "qh_queues h' = (qh_queues h)(?q \<mapsto> \<lparr>q_ref_count = 1, q_head = 0, q_tail = 0, q_entries = 0\<rparr>)"
    and [simp]: "qh_entries h' = qh_entries h" "qh_next h' = ?q + 1" by (simp_all add: h'_def put_queue_def)
  have "heap_rep h' A" unfolding heap_rep_def queues
    using rep q A by (auto simp: heap_rep_def queue_rep_def less_SucI)
  moreover have "q_lists h' A = (q_lists h A)(?q \<mapsto> [])" using q A by (auto simp: q_lists_def queues fun_eq_iff)
  ultimately show ?thesis using new q by auto
qed

lemma queue_unref_rep:
  assumes rep: "heap_rep h A" and q: "qh_queues h q = Some Q"
  shows "\<exists>h'. queue_unref h q = Some h' \<and> q_heap.more h' = q_heap.more h \<and>
    (if q_ref_count Q = 1 \<and> A q = [] then heap_rep h' A \<and> q_lists h' A = (q_lists h A)(q := None)
     else q_ref_count Q \<noteq> 1 \<longrightarrow> heap_rep h' A \<and> q_lists h' A = q_lists h A)"
proof (cases "q_ref_count Q = 1")
  case True
  then have u: "queue_unref h q = Some (put_queue q None h)" using q by (simp add: queue_unref_def)
  show ?thesis
  proof (cases "A q = []")
    case A: True
    have "heap_rep (put_queue q None h) A" using rep A q by (auto simp: heap_rep_def put_queue_def)
    moreover have "q_lists (put_queue q None h) A = (q_lists h A)(q := None)" by (auto simp: q_lists_def put_queue_def fun_eq_iff)
    ultimately show ?thesis using u True A by auto
  qed (use u True in auto)
next
  case False
  then have "q_ref_count Q - 1 \<noteq> 0" by auto
  then have u: "queue_unref h q = Some (put_queue q (Some (Q\<lparr>q_ref_count := q_ref_count Q - 1\<rparr>)) h)"
    using q by (simp add: queue_unref_def)
  have "heap_rep (put_queue q (Some (Q\<lparr>q_ref_count := q_ref_count Q - 1\<rparr>)) h) A"
    using rep q by (auto simp: heap_rep_def put_queue_def queue_rep_def)
  moreover have "q_lists (put_queue q (Some (Q\<lparr>q_ref_count := q_ref_count Q - 1\<rparr>)) h) A = q_lists h A"
    using q by (auto simp: q_lists_def put_queue_def fun_eq_iff)
  ultimately show ?thesis using u False by auto
qed

lemma queue_destroy_rep:
  assumes cd: "client_destroy destroy g" and rep: "heap_rep h A" and q: "qh_queues h q = Some Q" and ref: "q_ref_count Q = 1"
    and xs: "xs = data_of (qh_entries h) (A q)"
  shows "\<exists>h' A'. queue_destroy h q destroy = Some h' \<and> heap_rep h' A' \<and>
    q_lists h' A' = (q_lists h A)(q := None) \<and> q_heap.more h' = fold g xs (q_heap.more h)"
proof -
  obtain h1 A1 where h1: "queue_remove_all h q None 0 destroy = Some (of_nat (length xs), h1)" "heap_rep h1 A1"
    "q_lists h1 A1 = (q_lists h A)(q \<mapsto> [])" "q_heap.more h1 = fold g xs (q_heap.more h)"
    "map_option q_ref_count (qh_queues h1 q) = Some 1"
    using queue_remove_all_rep[OF cd rep q xs refl, of None 0] ref by auto
  then obtain Q1 where Q1: "qh_queues h1 q = Some Q1" "q_ref_count Q1 = 1" by auto
  have "q_lists h1 A1 q = Some []" using h1(3) by simp
  then have "A1 q = []" using Q1 by (simp add: q_lists_def data_of_def)
  then obtain h2 where h2: "queue_unref h1 q = Some h2" "heap_rep h2 A1" "q_lists h2 A1 = (q_lists h1 A1)(q := None)"
    "q_heap.more h2 = q_heap.more h1"
    using queue_unref_rep[OF h1(2) Q1(1)] Q1(2) by auto
  have "queue_destroy h q destroy = Some h2"
    using heap_repD(1)[OF rep q] h1(1) h2(1) by (simp add: queue_destroy_def)
  then show ?thesis using h1 h2 by auto
qed

section \<open>The heap as a store of lists\<close>

text \<open>The entries of a queue, found by following the \<open>next\<close> pointers; there are fewer of them than addresses in use.\<close>

primrec chain_of :: "nat \<Rightarrow> (ptr \<Rightarrow> queue_entry option) \<Rightarrow> ptr \<Rightarrow> ptr list" where
  "chain_of 0 m p = []"
| "chain_of (Suc n) m p = (if p = 0 then [] else case m p of None \<Rightarrow> [] | Some x \<Rightarrow> p # chain_of n m (qe_next x))"

definition entry_addrs :: "'a q_heap_scheme \<Rightarrow> ptr \<Rightarrow> ptr list" where
  "entry_addrs h q = (case qh_queues h q of None \<Rightarrow> [] | Some Q \<Rightarrow> chain_of (qh_next h) (qh_entries h) (q_head Q))"

definition queue_heap :: "'a q_heap_scheme \<Rightarrow> bool" where
  "queue_heap h = heap_rep h (entry_addrs h)"

definition queue_lists :: "'a q_heap_scheme \<Rightarrow> ptr \<Rightarrow> ptr list option" where
  "queue_lists h = q_lists h (entry_addrs h)"

lemma chain_of_seg: "seg m p as 0 \<Longrightarrow> length as \<le> n \<Longrightarrow> chain_of n m p = as"
proof (induction as arbitrary: p n)
  case Nil
  then show ?case by (cases n) auto
next
  case (Cons a as)
  then obtain k where "n = Suc k" by (cases n) auto
  then show ?case using Cons by auto
qed

lemma heap_rep_addrs:
  assumes rep: "heap_rep h A"
  shows "entry_addrs h = A"
proof (rule ext)
  fix q
  show "entry_addrs h q = A q"
  proof (cases "qh_queues h q")
    case None
    then show ?thesis using rep by (auto simp: entry_addrs_def heap_rep_def)
  next
    case (Some Q)
    note r = heap_repD[OF rep Some]
    have "card (set (A q)) \<le> card {..<qh_next h}" using r(7) by (intro card_mono) auto
    then have "length (A q) \<le> qh_next h" using distinct_card[OF r(4)] by simp
    then show ?thesis using chain_of_seg[OF r(3)] by (simp add: entry_addrs_def Some)
  qed
qed

lemma queue_heapI:
  assumes "heap_rep h A" shows "queue_heap h" and "queue_lists h = q_lists h A"
  using assms heap_rep_addrs[OF assms] by (simp_all add: queue_heap_def queue_lists_def)

lemma queue_heapE:
  assumes "queue_heap h" and "queue_lists h q = Some xs"
  obtains Q where "qh_queues h q = Some Q" "heap_rep h (entry_addrs h)" "xs = data_of (qh_entries h) (entry_addrs h q)"
  using assms by (auto simp: queue_heap_def queue_lists_def q_lists_def split: if_splits)

section \<open>Interface\<close>

text \<open>Calls on one queue, what they return, and what they do to a list.\<close>

datatype queue_op =
    Push_tail ptr | Push_head ptr | Push_after ptr ptr | Pop_head | Peek_head | Peek_tail
  | Find "ptr \<Rightarrow> ptr \<Rightarrow> bool" ptr | Remove ptr | Remove_if "ptr \<Rightarrow> ptr \<Rightarrow> bool" ptr
  | Remove_all "ptr \<Rightarrow> ptr \<Rightarrow> bool" ptr | Clear | Length

datatype queue_out = Out_bool bool | Out_ptr ptr | Out_count u32

definition ptr_of :: "ptr option \<Rightarrow> ptr" where
  "ptr_of r = (case r of None \<Rightarrow> 0 | Some d \<Rightarrow> d)"

fun list_op :: "queue_op \<Rightarrow> ptr list \<Rightarrow> queue_out \<times> ptr list" where
  "list_op (Push_tail d) xs = (Out_bool True, xs @ [d])"
| "list_op (Push_head d) xs = (Out_bool True, d # xs)"
| "list_op (Push_after e d) xs = (Out_bool (e \<in> set xs), insert_after e d xs)"
| "list_op Pop_head xs = (Out_ptr (if xs = [] then 0 else hd xs), tl xs)"
| "list_op Peek_head xs = (Out_ptr (if xs = [] then 0 else hd xs), xs)"
| "list_op Peek_tail xs = (Out_ptr (if xs = [] then 0 else last xs), xs)"
| "list_op (Find f u) xs = (Out_ptr (ptr_of (find (\<lambda>d. f d u) xs)), xs)"
| "list_op (Remove d) xs = (Out_bool (d \<in> set xs), remove1 d xs)"
| "list_op (Remove_if f u) xs = (Out_ptr (ptr_of (find (\<lambda>d. f d u) xs)), remove_first (\<lambda>d. f d u) xs)"
| "list_op (Remove_all f u) xs = (Out_count (of_nat (length (filter (\<lambda>d. f d u) xs))), filter (\<lambda>d. \<not> f d u) xs)"
| "list_op Clear xs = (Out_count (of_nat (length xs)), [])"
| "list_op Length xs = (Out_count (of_nat (length xs)), xs)"

text \<open>The same calls on the heap.\<close>

fun queue_exec :: "ptr \<Rightarrow> queue_op \<Rightarrow> 'a q_heap_scheme \<Rightarrow> (queue_out \<times> 'a q_heap_scheme) option" where
  "queue_exec q (Push_tail d) h = map_option (map_prod Out_bool id) (queue_push_tail h q d)"
| "queue_exec q (Push_head d) h = map_option (map_prod Out_bool id) (queue_push_head h q d)"
| "queue_exec q (Push_after e d) h = map_option (map_prod Out_bool id) (queue_push_after h q e d)"
| "queue_exec q Pop_head h = map_option (map_prod Out_ptr id) (queue_pop_head h q)"
| "queue_exec q Peek_head h = map_option (\<lambda>d. (Out_ptr d, h)) (queue_peek_head h q)"
| "queue_exec q Peek_tail h = map_option (\<lambda>d. (Out_ptr d, h)) (queue_peek_tail h q)"
| "queue_exec q (Find f u) h = map_option (\<lambda>d. (Out_ptr d, h)) (queue_find h q (Some f) u)"
| "queue_exec q (Remove d) h = map_option (map_prod Out_bool id) (queue_remove h q d)"
| "queue_exec q (Remove_if f u) h = map_option (map_prod Out_ptr id) (queue_remove_if h q (Some f) u)"
| "queue_exec q (Remove_all f u) h = map_option (map_prod Out_count id) (queue_remove_all h q (Some f) u None)"
| "queue_exec q Clear h = map_option (map_prod Out_count id) (queue_remove_all h q None 0 None)"
| "queue_exec q Length h = map_option (\<lambda>n. (Out_count n, h)) (queue_length h q)"

text \<open>A sequence of calls on several queues.\<close>

primrec run_calls :: "(ptr \<Rightarrow> queue_op \<Rightarrow> 'h \<Rightarrow> (queue_out \<times> 'h) option) \<Rightarrow> (ptr \<times> queue_op) list \<Rightarrow> 'h \<Rightarrow> (queue_out list \<times> 'h) option" where
  "run_calls exec [] h = Some ([], h)"
| "run_calls exec (c # cs) h =
     do { (x, h) \<leftarrow> exec (fst c) (snd c) h; (out, h) \<leftarrow> run_calls exec cs h; Some (x # out, h) }"

primrec list_calls :: "(ptr \<times> queue_op) list \<Rightarrow> (ptr \<Rightarrow> ptr list option) \<Rightarrow> queue_out list \<times> (ptr \<Rightarrow> ptr list option)" where
  "list_calls [] L = ([], L)"
| "list_calls (c # cs) L =
     (let (x, xs) = list_op (snd c) (the (L (fst c))); (out, L) = list_calls cs (L(fst c \<mapsto> xs)) in (x # out, L))"

locale queue_store =
  fixes invar :: "'h \<Rightarrow> bool" and lists :: "'h \<Rightarrow> ptr \<Rightarrow> ptr list option"
    and exec :: "ptr \<Rightarrow> queue_op \<Rightarrow> 'h \<Rightarrow> (queue_out \<times> 'h) option"
  assumes exec: "invar h \<Longrightarrow> lists h q = Some xs \<Longrightarrow>
    \<exists>h'. exec q c h = Some (fst (list_op c xs), h') \<and> invar h' \<and> lists h' = (lists h)(q \<mapsto> snd (list_op c xs))"
begin

lemma run_refines:
  assumes "invar h" and "\<forall>c \<in> set cs. lists h (fst c) \<noteq> None"
  shows "\<exists>h'. run_calls exec cs h = Some (fst (list_calls cs (lists h)), h') \<and> invar h' \<and> lists h' = snd (list_calls cs (lists h))"
  using assms
proof (induction cs arbitrary: h)
  case (Cons c cs)
  obtain xs where xs: "lists h (fst c) = Some xs" using Cons.prems(2) by auto
  obtain h1 where h1: "exec (fst c) (snd c) h = Some (fst (list_op (snd c) xs), h1)" "invar h1"
    "lists h1 = (lists h)(fst c \<mapsto> snd (list_op (snd c) xs))"
    using exec[OF Cons.prems(1) xs, of "snd c"] by auto
  have "\<forall>c \<in> set cs. lists h1 (fst c) \<noteq> None" using Cons.prems(2) h1(3) by auto
  from Cons.IH[OF h1(2) this, unfolded h1(3)] show ?case
    using h1(1) xs by (auto simp: case_prod_beta Let_def simp del: fun_upd_apply)
qed simp

lemma fifo_order:
  assumes "invar h" and "lists h q = Some xs"
  shows "\<exists>h'. run_calls exec (map (\<lambda>d. (q, Push_tail d)) ds) h = Some (map (\<lambda>_. Out_bool True) ds, h') \<and> invar h' \<and>
    lists h' = (lists h)(q \<mapsto> xs @ ds)"
proof -
  have "list_calls (map (\<lambda>d. (q, Push_tail d)) ds) L = (map (\<lambda>_. Out_bool True) ds, L(q \<mapsto> xs @ ds))" if "L q = Some xs" for L
    using that
  proof (induction ds arbitrary: L xs)
    case (Cons d ds)
    then show ?case using Cons.IH[of "L(q \<mapsto> xs @ [d])" "xs @ [d]"] by (simp del: fun_upd_apply add: fun_upd_same)
  qed (simp add: fun_upd_idem)
  from this[of "lists h", OF assms(2)] run_refines[OF assms(1), of "map (\<lambda>d. (q, Push_tail d)) ds"] assms(2) show ?thesis by auto
qed

end

lemma match_func_Some [simp]: "match_func (Some f) = f"
  by (simp add: match_func_def)

lemma client_destroy_None: "client_destroy None (\<lambda>_. id)"
  by (simp add: client_destroy_def run_destroy_def)

lemma queue_exec_refines:
  assumes "queue_heap h" and "queue_lists h q = Some xs"
  shows "\<exists>h'. queue_exec q c h = Some (fst (list_op c xs), h') \<and> queue_heap h' \<and>
    queue_lists h' = (queue_lists h)(q \<mapsto> snd (list_op c xs))"
proof -
  obtain Q where Q: "qh_queues h q = Some Q" "heap_rep h (entry_addrs h)" "xs = data_of (qh_entries h) (entry_addrs h q)"
    using assms by (rule queue_heapE)
  have read: "queue_lists h = (queue_lists h)(q \<mapsto> xs)" using assms(2) by (simp add: fun_upd_idem)
  note L = queue_lists_def[of h]
  show ?thesis
  proof (cases c)
    case (Push_tail d)
    then show ?thesis using queue_push_tail_rep[OF Q(2,1), of d] queue_heapI Q(3) L by fastforce
  next
    case (Push_head d)
    then show ?thesis using queue_push_head_rep[OF Q(2,1), of d] queue_heapI Q(3) L by fastforce
  next
    case (Push_after e d)
    then show ?thesis using queue_push_after_rep[OF Q(2,1,3), of e d] queue_heapI L by fastforce
  next
    case Pop_head
    then show ?thesis using queue_pop_head_rep[OF Q(2,1,3)] queue_heapI L by fastforce
  next
    case (Find f u)
    then show ?thesis using queue_find_rep[OF Q(2,1), of "Some f" u] Q(3) read assms(1) by (auto simp: ptr_of_def)
  next
    case (Remove d)
    then show ?thesis using queue_remove_rep[OF Q(2,1,3), of d] queue_heapI L by fastforce
  next
    case (Remove_if f u)
    obtain h' A' where "queue_remove_if h q (Some f) u = Some (case find (\<lambda>d. f d u) xs of None \<Rightarrow> 0 | Some d \<Rightarrow> d, h')"
      and h': "heap_rep h' A'" "q_lists h' A' = (q_lists h (entry_addrs h))(q \<mapsto> remove_first (\<lambda>d. f d u) xs)"
      using queue_remove_if_rep[OF Q(2,1) refl Q(3), of "Some f" u] by auto
    then show ?thesis using queue_heapI[OF h'(1)] L Remove_if by (simp add: ptr_of_def h'(2))
  next
    case (Remove_all f u)
    obtain h' A' where "queue_remove_all h q (Some f) u None = Some (of_nat (length (filter (\<lambda>d. f d u) xs)), h')"
      and h': "heap_rep h' A'" "q_lists h' A' = (q_lists h (entry_addrs h))(q \<mapsto> filter (\<lambda>d. \<not> f d u) xs)"
      using queue_remove_all_rep[OF client_destroy_None Q(2,1,3) refl, of "Some f" u] by auto
    then show ?thesis using queue_heapI[OF h'(1)] L Remove_all by (simp add: h'(2))
  next
    case Clear
    obtain h' A' where "queue_remove_all h q None 0 None = Some (of_nat (length xs), h')"
      and h': "heap_rep h' A'" "q_lists h' A' = (q_lists h (entry_addrs h))(q \<mapsto> [])"
      using queue_remove_all_rep[OF client_destroy_None Q(2,1,3) refl, of None 0] by auto
    then show ?thesis using queue_heapI[OF h'(1)] L Clear by (simp add: h'(2))
  qed (use queue_peek_rep[OF Q(2,1,3)] read assms(1) in auto)
qed

interpretation q_heap: queue_store queue_heap queue_lists queue_exec
  by unfold_locales (rule queue_exec_refines)

section \<open>Iteration\<close>

lemma queue_ref_rep:
  assumes rep: "heap_rep h A" and q: "qh_queues h q = Some Q"
  obtains h' where "queue_ref h q = Some (q, h')" "heap_rep h' A" "q_lists h' A = q_lists h A"
    "qh_queues h' q = Some (Q\<lparr>q_ref_count := q_ref_count Q + 1\<rparr>)" "qh_entries h' = qh_entries h" "q_heap.more h' = q_heap.more h"
proof -
  let ?h = "put_queue q (Some (Q\<lparr>q_ref_count := q_ref_count Q + 1\<rparr>)) h"
  have "heap_rep ?h A" using rep q by (auto simp: heap_rep_def put_queue_def queue_rep_def)
  moreover have "q_lists ?h A = q_lists h A" using q by (auto simp: q_lists_def put_queue_def fun_eq_iff)
  moreover have "queue_ref h q = Some (q, ?h)" using heap_repD(1)[OF rep q] q by (simp add: queue_ref_def)
  ultimately show ?thesis using that[of ?h] by (simp add: put_queue_def)
qed

text \<open>A referenced queue: its counter is at least one and does not overflow when it is raised.\<close>

definition referenced :: "queue \<Rightarrow> bool" where
  "referenced Q = (1 \<le> unat (q_ref_count Q) \<and> unat (q_ref_count Q) < 2 ^ 31 - 1)"

lemma referenced_ref:
  assumes "referenced Q"
  shows "sint (q_ref_count Q + 1) > 1" and "q_ref_count Q + 1 \<noteq> 1"
proof -
  have u: "unat (q_ref_count Q + 1) = unat (q_ref_count Q) + unat (1 :: u32)"
    by (rule unat_add_no_wrap) (use assms in \<open>simp add: referenced_def\<close>)
  have "q_ref_count Q + 1 = of_nat (unat (q_ref_count Q) + 1)" by simp
  then have "sint (q_ref_count Q + 1) = int (unat (q_ref_count Q) + 1)"
    using sint_of_nat_small[of "unat (q_ref_count Q) + 1"] assms by (simp add: referenced_def add.commute)
  then show "sint (q_ref_count Q + 1) > 1" using assms unfolding referenced_def by linarith
  show "q_ref_count Q + 1 \<noteq> 1" using u assms by (auto simp: referenced_def)
qed

lemma more_update_id [simp]: "q_heap.more_update id h = h"
  by (cases h) simp

text \<open>The loop over entries whose callback changes only the state of the client.\<close>

lemma foreach_loop_seg:
  assumes "seg (qh_entries h) e as r" and "qh_queues h q = Some Q" and "q_head Q \<noteq> 0" and "sint (q_ref_count Q) > 1"
    and "\<forall>a \<in> set as. \<forall>h. f (qe_data (the (qh_entries h0 a))) h = Some (q_heap.more_update (g (qe_data (the (qh_entries h0 a)))) h)"
    and "qh_entries h = qh_entries h0"
  shows "foreach_loop f h q e = foreach_loop f (q_heap.more_update (fold g (data_of (qh_entries h0) as)) h) q r"
  using assms
proof (induction as arbitrary: e h)
  case (Cons a as)
  then obtain x where x: "e = a" "a \<noteq> 0" "qh_entries h a = Some x" "seg (qh_entries h) (qe_next x) as r" by auto
  let ?h = "q_heap.more_update (g (qe_data x)) h"
  have "foreach_loop f h q e = foreach_loop f ?h q (qe_next x)"
    using x Cons.prems by (subst foreach_loop.simps) auto
  also have "\<dots> = foreach_loop f (q_heap.more_update (fold g (data_of (qh_entries h0) as)) ?h) q r"
    by (rule Cons.IH) (use x Cons.prems in auto)
  finally show ?case using x Cons.prems(6) by (simp add: comp_def)
qed simp

text \<open>
  \<open>queue_foreach\<close> with a callback that works on the state of the caller visits every element once, in order, and leaves the
  queue as it was.
\<close>

theorem queue_foreach_visits_all:
  assumes "queue_heap h" and "queue_lists h q = Some xs" and "qh_queues h q = Some Q" and "referenced Q"
    and "\<forall>x \<in> set xs. \<forall>h. f x h = Some (q_heap.more_update (g x) h)"
  shows "queue_foreach h q (Some f) = Some (q_heap.more_update (fold g xs) h)"
proof -
  obtain rep: "heap_rep h (entry_addrs h)" and xs: "xs = data_of (qh_entries h) (entry_addrs h q)"
    using queue_heapE[OF assms(1,2)] by blast
  note r = heap_repD[OF rep assms(3)]
  show ?thesis
  proof (cases "q_head Q = 0")
    case True
    then have "xs = []" using seg_head[OF r(3)] xs by simp
    then show ?thesis using True r(1) assms(3) by (simp add: queue_foreach_def)
  next
    case False
    let ?Q = "Q\<lparr>q_ref_count := q_ref_count Q + 1\<rparr>"
    let ?h = "put_queue q (Some ?Q) h"
    have "foreach_loop f ?h q (q_head Q) = foreach_loop f (q_heap.more_update (fold g (data_of (qh_entries h) (entry_addrs h q))) ?h) q 0"
      by (rule foreach_loop_seg[of _ _ _ _ _ ?Q])
        (use r(3) False referenced_ref[OF assms(4)] assms(5) xs in \<open>auto simp: put_queue_def data_of_def\<close>)
    then have l: "foreach_loop f ?h q (q_head Q) = Some (q_heap.more_update (fold g xs) ?h)"
      by (simp add: foreach_loop.simps[of f _ q 0] xs)
    have "put_queue q (Some Q) (q_heap.more_update (fold g xs) ?h) = q_heap.more_update (fold g xs) h"
      using assms(3) by (simp add: put_queue_def fun_upd_idem)
    moreover have "q_ref_count Q \<noteq> 0" using assms(4) by (auto simp: referenced_def)
    ultimately have "queue_unref (q_heap.more_update (fold g xs) ?h) q = Some (q_heap.more_update (fold g xs) h)"
      by (simp add: queue_unref_def put_queue_def Let_def)
    then show ?thesis using False r(1) assms(3) l by (simp add: queue_foreach_def queue_ref_def)
  qed
qed

text \<open>
  C33. A callback of \<open>queue_foreach\<close> may destroy the queue it is called from: the reference taken by the loop keeps the queue alive until
  the loop has left it, no freed entry is read, and afterwards the queue and its entries are gone and no other queue has changed.
\<close>

theorem queue_foreach_destroy_safe:
  assumes "queue_heap h" and "queue_lists h q = Some xs" and "d \<in> set xs"
    and "qh_queues h q = Some Q" and "q_ref_count Q = 1"
  shows "\<exists>h'. queue_foreach h q (Some (\<lambda>x h. if x = d then queue_destroy h q None else Some h)) = Some h' \<and>
     queue_heap h' \<and> queue_lists h' = (queue_lists h)(q := None)"
proof -
  let ?f = "\<lambda>x h. if x = d then queue_destroy h q None else Some h"
  obtain rep: "heap_rep h (entry_addrs h)" and xs: "xs = data_of (qh_entries h) (entry_addrs h q)"
    using queue_heapE[OF assms(1,2)] by blast
  note r = heap_repD[OF rep assms(4)]
  obtain bs a cs where s: "entry_addrs h q = bs @ a # cs" "\<forall>b \<in> set bs. qe_data (the (qh_entries h b)) \<noteq> d" "qe_data (the (qh_entries h a)) = d"
    using assms(3) xs by (cases rule: first_entry_cases[of "entry_addrs h q" "\<lambda>x. x = d" "qh_entries h"]) auto
  obtain h1 where h1: "queue_ref h q = Some (q, h1)" "heap_rep h1 (entry_addrs h)" "q_lists h1 (entry_addrs h) = queue_lists h"
    "qh_queues h1 q = Some (Q\<lparr>q_ref_count := 2\<rparr>)" "qh_entries h1 = qh_entries h"
    using queue_ref_rep[OF rep assms(4)] assms(5) by (auto simp: queue_lists_def)
  obtain x where x: "a \<noteq> 0" "qh_entries h a = Some x" "seg (qh_entries h) (q_head Q) bs a" "q_head Q \<noteq> 0"
    using r(3) s(1) seg_nonzero[OF r(3)] by (cases bs) (auto simp: seg_append)
  obtain h2 A2 where h2: "queue_remove_all h1 q None 0 None = Some (of_nat (length xs), h2)" "heap_rep h2 A2"
    "q_lists h2 A2 = (queue_lists h)(q \<mapsto> [])" "map_option q_ref_count (qh_queues h2 q) = Some 2"
    using queue_remove_all_rep[OF client_destroy_None h1(2,4) _ refl, of xs None 0] xs h1(3,5) by auto
  then obtain Q2 where Q2: "qh_queues h2 q = Some Q2" "q_ref_count Q2 = 2" by auto
  let ?Q3 = "Q2\<lparr>q_ref_count := 1\<rparr>"
  let ?h3 = "put_queue q (Some ?Q3) h2"
  have "q_lists h2 A2 q = Some []" using h2(3) by simp
  then have A2: "A2 q = []" using Q2 by (simp add: q_lists_def data_of_def)
  then have head: "q_head Q2 = 0" using heap_repD(3)[OF h2(2) Q2(1)] by simp
  have destroy: "queue_destroy h1 q None = Some ?h3"
    using r(1) h2(1) Q2 by (simp add: queue_destroy_def queue_unref_def)
  have "foreach_loop ?f h1 q (q_head Q) = foreach_loop ?f (q_heap.more_update (fold (\<lambda>_. id) (data_of (qh_entries h) bs)) h1) q a"
    by (rule foreach_loop_seg[of _ _ _ _ _ "Q\<lparr>q_ref_count := 2\<rparr>"]) (use x h1 s(2) in auto)
  also have "fold (\<lambda>_. id) (data_of (qh_entries h) bs) = id" by (induction bs) auto
  also have "foreach_loop ?f (q_heap.more_update id h1) q a = foreach_loop ?f ?h3 q (qe_next x)"
    using x h1 s(3) destroy by (subst foreach_loop.simps) simp
  also have "\<dots> = Some ?h3" using head by (subst foreach_loop.simps) (simp add: put_queue_def)
  finally have loop: "foreach_loop ?f h1 q (q_head Q) = Some ?h3" .
  have rep3: "heap_rep ?h3 A2" "q_lists ?h3 A2 = q_lists h2 A2"
    using h2(2) Q2(1) by (auto simp: heap_rep_def put_queue_def queue_rep_def q_lists_def fun_eq_iff)
  have "\<exists>h4. queue_unref ?h3 q = Some h4 \<and> heap_rep h4 A2 \<and> q_lists h4 A2 = (q_lists ?h3 A2)(q := None)"
    using queue_unref_rep[OF rep3(1), of q ?Q3] A2 by (auto simp: put_queue_def)
  then obtain h4 where h4: "queue_unref ?h3 q = Some h4" "heap_rep h4 A2" "q_lists h4 A2 = (queue_lists h)(q := None)"
    using rep3(2) h2(3) by auto
  have "queue_foreach h q (Some ?f) = Some h4"
    using x(4) r(1) assms(4) h1(1) loop h4(1) by (simp add: queue_foreach_def)
  then show ?thesis using queue_heapI[OF h4(2)] h4(3) by auto
qed

section \<open>Properties\<close>

text \<open>
  C13. Any sequence of calls on the queues of a well-formed heap (pushing at both ends and after an element, popping, peeking, finding, removing one
  or all matching elements, clearing) returns and answers what the same calls answer on lists; afterwards the heap is well formed
  again: every queue is its own chain of entries and nothing else is allocated.
\<close>

theorem queue_refines_lists:
  assumes "queue_heap h" and "\<forall>c \<in> set calls. queue_lists h (fst c) \<noteq> None"
  shows "\<exists>h'. run_calls queue_exec calls h = Some (fst (list_calls calls (queue_lists h)), h') \<and> queue_heap h' \<and>
    queue_lists h' = snd (list_calls calls (queue_lists h))"
  by (rule q_heap.run_refines[OF assms])

text \<open>A heap with one queue at address 1 that holds 7 and 8, to run the theorems on.\<close>

definition sample_heap :: "nat list q_heap_scheme" where
  "sample_heap = \<lparr>qh_entries = [2 \<mapsto> \<lparr>qe_data = 7, qe_next = 3\<rparr>, 3 \<mapsto> \<lparr>qe_data = 8, qe_next = 0\<rparr>],
     qh_queues = [1 \<mapsto> \<lparr>q_ref_count = 1, q_head = 2, q_tail = 3, q_entries = 2\<rparr>], qh_next = 4, \<dots> = []\<rparr>"

lemma sample_heap_rep: "heap_rep sample_heap (\<lambda>q. if q = 1 then [2, 3] else [])"
  by (auto simp: heap_rep_def sample_heap_def queue_rep_def split: if_splits)

lemmas sample_heap_ok = queue_heapI[OF sample_heap_rep]

lemma sample_lists: "queue_lists sample_heap = [1 \<mapsto> [7, 8]]"
  unfolding sample_heap_ok(2) by (auto simp: q_lists_def sample_heap_def data_of_def fun_eq_iff)

theorem queue_refines_lists_witness:
  "\<exists>h'. run_calls queue_exec [(1, Push_after 7 9), (1, Remove 8), (1, Peek_tail), (1, Push_head 6), (1, Pop_head)] sample_heap =
      Some ([Out_bool True, Out_bool True, Out_ptr 9, Out_bool True, Out_ptr 6], h') \<and>
    queue_heap h' \<and> queue_lists h' = [1 \<mapsto> [7, 9]]"
  using queue_refines_lists[OF sample_heap_ok(1),
      of "[(1, Push_after 7 9), (1, Remove 8), (1, Peek_tail), (1, Push_head 6), (1, Pop_head)]"]
  by (simp add: sample_lists)

theorem queue_foreach_visits_all_witness:
  "queue_foreach sample_heap 1 (Some (\<lambda>x. Some \<circ> q_heap.more_update (\<lambda>l. x # l))) = Some (q_heap.more_update (\<lambda>_. [8, 7]) sample_heap)"
  using queue_foreach_visits_all[OF sample_heap_ok(1), of 1 "[7, 8]" "\<lparr>q_ref_count = 1, q_head = 2, q_tail = 3, q_entries = 2\<rparr>"
      "\<lambda>x. Some \<circ> q_heap.more_update (\<lambda>l. x # l)" "\<lambda>x l. x # l"]
  by (simp add: sample_lists referenced_def) (simp add: sample_heap_def)

theorem queue_foreach_destroy_safe_witness:
  "\<exists>h'. queue_foreach sample_heap 1 (Some (\<lambda>x h. if x = 7 then queue_destroy h 1 None else Some h)) = Some h' \<and>
     queue_heap h' \<and> queue_lists h' = Map.empty"
  using queue_foreach_destroy_safe[OF sample_heap_ok(1), of 1 "[7, 8]" 7 "\<lparr>q_ref_count = 1, q_head = 2, q_tail = 3, q_entries = 2\<rparr>"]
  by (simp add: sample_lists) (simp add: sample_heap_def)

end
