(* ===== verification/AttTypes.thy ===== *)
theory AttTypes
  imports Prelude
begin

text \<open>
  The numbers of the attribute protocol that the Bluetooth theories share: opcodes, errors, permissions and security levels of
  \<open>src/src/bt/btgatt_server/src/shared/att-types.h\<close>. Errors are \<open>int\<close>, as the functions that take them also take negative \<open>errno\<close> values.
\<close>

definition BT_ATT_DEFAULT_LE_MTU :: u16 where "BT_ATT_DEFAULT_LE_MTU = 23"

definition BT_ATT_OP_ERROR_RSP :: u8 where "BT_ATT_OP_ERROR_RSP = 0x01"
definition BT_ATT_OP_MTU_REQ :: u8 where "BT_ATT_OP_MTU_REQ = 0x02"
definition BT_ATT_OP_MTU_RSP :: u8 where "BT_ATT_OP_MTU_RSP = 0x03"
definition BT_ATT_OP_FIND_INFO_REQ :: u8 where "BT_ATT_OP_FIND_INFO_REQ = 0x04"
definition BT_ATT_OP_FIND_INFO_RSP :: u8 where "BT_ATT_OP_FIND_INFO_RSP = 0x05"
definition BT_ATT_OP_FIND_BY_TYPE_REQ :: u8 where "BT_ATT_OP_FIND_BY_TYPE_REQ = 0x06"
definition BT_ATT_OP_FIND_BY_TYPE_RSP :: u8 where "BT_ATT_OP_FIND_BY_TYPE_RSP = 0x07"
definition BT_ATT_OP_READ_BY_TYPE_REQ :: u8 where "BT_ATT_OP_READ_BY_TYPE_REQ = 0x08"
definition BT_ATT_OP_READ_BY_TYPE_RSP :: u8 where "BT_ATT_OP_READ_BY_TYPE_RSP = 0x09"
definition BT_ATT_OP_READ_REQ :: u8 where "BT_ATT_OP_READ_REQ = 0x0a"
definition BT_ATT_OP_READ_RSP :: u8 where "BT_ATT_OP_READ_RSP = 0x0b"
definition BT_ATT_OP_READ_BLOB_REQ :: u8 where "BT_ATT_OP_READ_BLOB_REQ = 0x0c"
definition BT_ATT_OP_READ_BLOB_RSP :: u8 where "BT_ATT_OP_READ_BLOB_RSP = 0x0d"
definition BT_ATT_OP_READ_MULT_REQ :: u8 where "BT_ATT_OP_READ_MULT_REQ = 0x0e"
definition BT_ATT_OP_READ_MULT_RSP :: u8 where "BT_ATT_OP_READ_MULT_RSP = 0x0f"
definition BT_ATT_OP_READ_BY_GRP_TYPE_REQ :: u8 where "BT_ATT_OP_READ_BY_GRP_TYPE_REQ = 0x10"
definition BT_ATT_OP_READ_BY_GRP_TYPE_RSP :: u8 where "BT_ATT_OP_READ_BY_GRP_TYPE_RSP = 0x11"
definition BT_ATT_OP_WRITE_REQ :: u8 where "BT_ATT_OP_WRITE_REQ = 0x12"
definition BT_ATT_OP_WRITE_RSP :: u8 where "BT_ATT_OP_WRITE_RSP = 0x13"
definition BT_ATT_OP_WRITE_CMD :: u8 where "BT_ATT_OP_WRITE_CMD = 0x52"
definition BT_ATT_OP_SIGNED_WRITE_CMD :: u8 where "BT_ATT_OP_SIGNED_WRITE_CMD = 0xD2"
definition BT_ATT_OP_PREP_WRITE_REQ :: u8 where "BT_ATT_OP_PREP_WRITE_REQ = 0x16"
definition BT_ATT_OP_PREP_WRITE_RSP :: u8 where "BT_ATT_OP_PREP_WRITE_RSP = 0x17"
definition BT_ATT_OP_EXEC_WRITE_REQ :: u8 where "BT_ATT_OP_EXEC_WRITE_REQ = 0x18"
definition BT_ATT_OP_EXEC_WRITE_RSP :: u8 where "BT_ATT_OP_EXEC_WRITE_RSP = 0x19"
definition BT_ATT_OP_HANDLE_VAL_NOT :: u8 where "BT_ATT_OP_HANDLE_VAL_NOT = 0x1B"
definition BT_ATT_OP_HANDLE_VAL_IND :: u8 where "BT_ATT_OP_HANDLE_VAL_IND = 0x1D"
definition BT_ATT_OP_HANDLE_VAL_CONF :: u8 where "BT_ATT_OP_HANDLE_VAL_CONF = 0x1E"
definition BT_ATT_ALL_REQUESTS :: u8 where "BT_ATT_ALL_REQUESTS = 0x00"

lemmas att_op_defs = BT_ATT_OP_ERROR_RSP_def BT_ATT_OP_MTU_REQ_def BT_ATT_OP_MTU_RSP_def BT_ATT_OP_FIND_INFO_REQ_def BT_ATT_OP_FIND_INFO_RSP_def
  BT_ATT_OP_FIND_BY_TYPE_REQ_def BT_ATT_OP_FIND_BY_TYPE_RSP_def BT_ATT_OP_READ_BY_TYPE_REQ_def BT_ATT_OP_READ_BY_TYPE_RSP_def BT_ATT_OP_READ_REQ_def
  BT_ATT_OP_READ_RSP_def BT_ATT_OP_READ_BLOB_REQ_def BT_ATT_OP_READ_BLOB_RSP_def BT_ATT_OP_READ_MULT_REQ_def BT_ATT_OP_READ_MULT_RSP_def
  BT_ATT_OP_READ_BY_GRP_TYPE_REQ_def BT_ATT_OP_READ_BY_GRP_TYPE_RSP_def BT_ATT_OP_WRITE_REQ_def BT_ATT_OP_WRITE_RSP_def BT_ATT_OP_WRITE_CMD_def
  BT_ATT_OP_PREP_WRITE_REQ_def BT_ATT_OP_PREP_WRITE_RSP_def BT_ATT_OP_EXEC_WRITE_REQ_def BT_ATT_OP_EXEC_WRITE_RSP_def BT_ATT_OP_HANDLE_VAL_NOT_def
  BT_ATT_OP_HANDLE_VAL_IND_def BT_ATT_OP_HANDLE_VAL_CONF_def BT_ATT_OP_SIGNED_WRITE_CMD_def

definition BT_ATT_ERROR_INVALID_HANDLE :: int where "BT_ATT_ERROR_INVALID_HANDLE = 0x01"
definition BT_ATT_ERROR_READ_NOT_PERMITTED :: int where "BT_ATT_ERROR_READ_NOT_PERMITTED = 0x02"
definition BT_ATT_ERROR_WRITE_NOT_PERMITTED :: int where "BT_ATT_ERROR_WRITE_NOT_PERMITTED = 0x03"
definition BT_ATT_ERROR_INVALID_PDU :: int where "BT_ATT_ERROR_INVALID_PDU = 0x04"
definition BT_ATT_ERROR_AUTHENTICATION :: int where "BT_ATT_ERROR_AUTHENTICATION = 0x05"
definition BT_ATT_ERROR_REQUEST_NOT_SUPPORTED :: int where "BT_ATT_ERROR_REQUEST_NOT_SUPPORTED = 0x06"
definition BT_ATT_ERROR_INVALID_OFFSET :: int where "BT_ATT_ERROR_INVALID_OFFSET = 0x07"
definition BT_ATT_ERROR_PREPARE_QUEUE_FULL :: int where "BT_ATT_ERROR_PREPARE_QUEUE_FULL = 0x09"
definition BT_ATT_ERROR_ATTRIBUTE_NOT_FOUND :: int where "BT_ATT_ERROR_ATTRIBUTE_NOT_FOUND = 0x0A"
definition BT_ATT_ERROR_INSUFFICIENT_ENCRYPTION_KEY_SIZE :: int where "BT_ATT_ERROR_INSUFFICIENT_ENCRYPTION_KEY_SIZE = 0x0C"
definition BT_ATT_ERROR_UNLIKELY :: int where "BT_ATT_ERROR_UNLIKELY = 0x0E"
definition BT_ATT_ERROR_INSUFFICIENT_ENCRYPTION :: int where "BT_ATT_ERROR_INSUFFICIENT_ENCRYPTION = 0x0F"
definition BT_ATT_ERROR_UNSUPPORTED_GROUP_TYPE :: int where "BT_ATT_ERROR_UNSUPPORTED_GROUP_TYPE = 0x10"
definition BT_ATT_ERROR_INSUFFICIENT_RESOURCES :: int where "BT_ATT_ERROR_INSUFFICIENT_RESOURCES = 0x11"

lemmas att_error_defs = BT_ATT_ERROR_INVALID_HANDLE_def BT_ATT_ERROR_READ_NOT_PERMITTED_def BT_ATT_ERROR_WRITE_NOT_PERMITTED_def
  BT_ATT_ERROR_INVALID_PDU_def BT_ATT_ERROR_AUTHENTICATION_def BT_ATT_ERROR_REQUEST_NOT_SUPPORTED_def BT_ATT_ERROR_PREPARE_QUEUE_FULL_def
  BT_ATT_ERROR_ATTRIBUTE_NOT_FOUND_def BT_ATT_ERROR_INSUFFICIENT_ENCRYPTION_KEY_SIZE_def BT_ATT_ERROR_UNLIKELY_def
  BT_ATT_ERROR_INSUFFICIENT_ENCRYPTION_def BT_ATT_ERROR_UNSUPPORTED_GROUP_TYPE_def BT_ATT_ERROR_INSUFFICIENT_RESOURCES_def

definition BT_ATT_PERM_READ :: u32 where "BT_ATT_PERM_READ = 0x01"
definition BT_ATT_PERM_WRITE :: u32 where "BT_ATT_PERM_WRITE = 0x02"
definition BT_ATT_PERM_READ_ENCRYPT :: u32 where "BT_ATT_PERM_READ_ENCRYPT = 0x04"
definition BT_ATT_PERM_WRITE_ENCRYPT :: u32 where "BT_ATT_PERM_WRITE_ENCRYPT = 0x08"
definition BT_ATT_PERM_ENCRYPT :: u32 where "BT_ATT_PERM_ENCRYPT = (BT_ATT_PERM_READ_ENCRYPT OR BT_ATT_PERM_WRITE_ENCRYPT)"
definition BT_ATT_PERM_READ_AUTHEN :: u32 where "BT_ATT_PERM_READ_AUTHEN = 0x10"
definition BT_ATT_PERM_WRITE_AUTHEN :: u32 where "BT_ATT_PERM_WRITE_AUTHEN = 0x20"
definition BT_ATT_PERM_AUTHEN :: u32 where "BT_ATT_PERM_AUTHEN = (BT_ATT_PERM_READ_AUTHEN OR BT_ATT_PERM_WRITE_AUTHEN)"
definition BT_ATT_PERM_READ_SECURE :: u32 where "BT_ATT_PERM_READ_SECURE = 0x0100"
definition BT_ATT_PERM_WRITE_SECURE :: u32 where "BT_ATT_PERM_WRITE_SECURE = 0x0200"
definition BT_ATT_PERM_SECURE :: u32 where "BT_ATT_PERM_SECURE = (BT_ATT_PERM_READ_SECURE OR BT_ATT_PERM_WRITE_SECURE)"

lemmas att_perm_defs = BT_ATT_PERM_READ_def BT_ATT_PERM_WRITE_def BT_ATT_PERM_READ_ENCRYPT_def BT_ATT_PERM_WRITE_ENCRYPT_def BT_ATT_PERM_ENCRYPT_def
  BT_ATT_PERM_READ_AUTHEN_def BT_ATT_PERM_WRITE_AUTHEN_def BT_ATT_PERM_AUTHEN_def BT_ATT_PERM_READ_SECURE_def BT_ATT_PERM_WRITE_SECURE_def
  BT_ATT_PERM_SECURE_def

definition BT_ATT_SECURITY_AUTO :: int where "BT_ATT_SECURITY_AUTO = 0"
definition BT_ATT_SECURITY_LOW :: int where "BT_ATT_SECURITY_LOW = 1"
definition BT_ATT_SECURITY_MEDIUM :: int where "BT_ATT_SECURITY_MEDIUM = 2"
definition BT_ATT_SECURITY_HIGH :: int where "BT_ATT_SECURITY_HIGH = 3"
definition BT_ATT_SECURITY_FIPS :: int where "BT_ATT_SECURITY_FIPS = 4"

lemmas att_security_defs = BT_ATT_SECURITY_AUTO_def BT_ATT_SECURITY_LOW_def BT_ATT_SECURITY_MEDIUM_def BT_ATT_SECURITY_HIGH_def BT_ATT_SECURITY_FIPS_def

definition BT_GATT_CHRC_PROP_EXT_PROP :: u8 where "BT_GATT_CHRC_PROP_EXT_PROP = 0x80"
definition BT_GATT_CHRC_EXT_PROP_RELIABLE_WRITE :: u16 where "BT_GATT_CHRC_EXT_PROP_RELIABLE_WRITE = 0x01"

end
