(* ===== verification/GattDb.thy ===== *)
theory GattDb
  imports Uuid QueueCorrect AttTypes
begin

text \<open>
  The attribute database of the GATT server, \<open>src/src/bt/btgatt_server/src/shared/gatt-db.c\<close>. The functions keep their names.

  A service lives at an address (\<open>db_svc\<close>), 0 is \<open>NULL\<close>; an attribute is named by its service and its index in the
  array of that service, which is where the code keeps the pointer to it. \<open>None\<close> as an
  attribute argument or result is \<open>NULL\<close>. The queues are the lists that theory \<open>QueueCorrect\<close> shows them to be. Callbacks are function pointers (0 is
  \<open>NULL\<close>); calling one is an event in the list of events an operation returns. Callbacks are taken not to change the database while an
  operation runs; a callback that answers a read at once is the same as an answer directly after the call, since the
  request is the last thing the operation does. The outer \<open>None\<close> of a result is undefined behaviour: a dangling or null pointer, a call of a
  null function pointer, an uninitialised UUID, an access outside a block.

  \<open>new0\<close> aborts the process when \<open>malloc\<close> fails; the allocations of values can fail, and \<open>mem\<close> says whether they succeed.
\<close>

section \<open>State\<close>

type_synonym aref = "ptr \<times> nat"

record pending =
  p_id :: u32
  p_timeout_id :: u32
  p_func :: ptr
  p_user_data :: ptr

record gatt_db_attribute =
  a_handle :: u16
  a_uuid :: bt_uuid_t
  a_permissions :: u32
  a_value_len :: u16
  a_value :: "u8 list option"
  a_read_func :: ptr
  a_write_func :: ptr
  a_user_data :: ptr
  a_read_id :: u32
  a_pending_reads :: "pending list"
  a_write_id :: u32
  a_pending_writes :: "pending list"

record gatt_db_service =
  s_active :: bool
  s_claimed :: bool
  s_num_handles :: u16
  s_attributes :: "gatt_db_attribute option list"

record notify =
  n_id :: u32
  n_service_added :: ptr
  n_service_removed :: ptr
  n_destroy :: ptr
  n_user_data :: ptr

record gatt_db =
  db_ref_count :: u32
  db_next_handle :: u16
  db_services :: "ptr list"
  db_notify_list :: "notify list"
  db_next_notify_id :: u32
  db_svc :: "ptr \<Rightarrow> gatt_db_service option"
  db_next_ptr :: ptr

datatype db_event =
    Service_added ptr aref ptr
  | Service_removed ptr aref ptr
  | Notify_destroyed ptr ptr
  | Timeout_removed u32
  | Read_request ptr aref u32 u16 u8 ptr
  | Read_done ptr aref int "u8 list" ptr
  | Write_request ptr aref u32 u16 "u8 list" u8 ptr
  | Write_done ptr aref int ptr

definition primary_service_uuid :: bt_uuid_t where "primary_service_uuid = BT_UUID16 0x2800"
definition secondary_service_uuid :: bt_uuid_t where "secondary_service_uuid = BT_UUID16 0x2801"
definition characteristic_uuid :: bt_uuid_t where "characteristic_uuid = BT_UUID16 0x2803"
definition included_service_uuid :: bt_uuid_t where "included_service_uuid = BT_UUID16 0x2802"
definition ECANCELED :: int where "ECANCELED = 125"
definition ETIMEDOUT :: int where "ETIMEDOUT = 110"

text \<open>The array of a service: a slot, the attribute in it, and a store into a slot.\<close>

definition slot :: "gatt_db_service \<Rightarrow> nat \<Rightarrow> gatt_db_attribute option option" where
  "slot S i = (if i < length (s_attributes S) then Some (s_attributes S ! i) else None)"

definition attr :: "gatt_db_service \<Rightarrow> nat \<Rightarrow> gatt_db_attribute option" where
  "attr S i = do { a \<leftarrow> slot S i; a }"

definition set_slot :: "gatt_db_service \<Rightarrow> nat \<Rightarrow> gatt_db_attribute option \<Rightarrow> gatt_db_service option" where
  "set_slot S i a = (if i < length (s_attributes S) then Some (S\<lparr>s_attributes := (s_attributes S)[i := a]\<rparr>) else None)"

definition put_service :: "gatt_db \<Rightarrow> ptr \<Rightarrow> gatt_db_service option \<Rightarrow> gatt_db" where
  "put_service db s S = db\<lparr>db_svc := (db_svc db)(s := S)\<rparr>"

definition attr_at :: "gatt_db \<Rightarrow> aref \<Rightarrow> gatt_db_attribute option" where
  "attr_at db r = do { S \<leftarrow> db_svc db (fst r); attr S (snd r) }"

definition put_attr :: "gatt_db \<Rightarrow> aref \<Rightarrow> gatt_db_attribute \<Rightarrow> gatt_db option" where
  "put_attr db r a = do { S \<leftarrow> db_svc db (fst r); S \<leftarrow> set_slot S (snd r) (Some a); Some (put_service db (fst r) (Some S)) }"

text \<open>\<open>queue_find\<close> and \<open>queue_remove_all\<close> with a comparison that may go wrong.\<close>

fun find_opt :: "('a \<Rightarrow> bool option) \<Rightarrow> 'a list \<Rightarrow> 'a option option" where
  "find_opt P [] = Some None"
| "find_opt P (x # xs) = do { b \<leftarrow> P x; if b then Some (Some x) else find_opt P xs }"

fun filter_opt :: "('a \<Rightarrow> bool option) \<Rightarrow> 'a list \<Rightarrow> 'a list option" where
  "filter_opt P [] = Some []"
| "filter_opt P (x # xs) = do { b \<leftarrow> P x; ys \<leftarrow> filter_opt P xs; Some (if b then x # ys else ys) }"

text \<open>The events of a callback run on every element.\<close>

fun concat_opt :: "('a \<Rightarrow> 'b list option) \<Rightarrow> 'a list \<Rightarrow> 'b list option" where
  "concat_opt f [] = Some []"
| "concat_opt f (x # xs) = do { ys \<leftarrow> f x; zs \<leftarrow> concat_opt f xs; Some (ys @ zs) }"

section \<open>Attributes\<close>

definition set_attribute_data :: "gatt_db_attribute \<Rightarrow> ptr \<Rightarrow> ptr \<Rightarrow> u32 \<Rightarrow> ptr \<Rightarrow> gatt_db_attribute" where
  "set_attribute_data a read_func write_func permissions user_data =
     a\<lparr>a_permissions := permissions, a_read_func := read_func, a_write_func := write_func, a_user_data := user_data\<rparr>"

definition pending_read_result :: "aref \<Rightarrow> pending \<Rightarrow> int \<Rightarrow> u8 list \<Rightarrow> db_event list" where
  "pending_read_result attrib p err data =
     (if p_timeout_id p > 0 then [Timeout_removed (p_timeout_id p)] else []) @
     [Read_done (p_func p) attrib err data (p_user_data p)]"

definition pending_read_free :: "aref \<Rightarrow> pending \<Rightarrow> db_event list" where
  "pending_read_free attrib p = pending_read_result attrib p (- ECANCELED) []"

definition pending_write_result :: "aref \<Rightarrow> pending \<Rightarrow> int \<Rightarrow> db_event list" where
  "pending_write_result attrib p err =
     (if p_timeout_id p > 0 then [Timeout_removed (p_timeout_id p)] else []) @
     [Write_done (p_func p) attrib err (p_user_data p)]"

definition pending_write_free :: "aref \<Rightarrow> pending \<Rightarrow> db_event list" where
  "pending_write_free attrib p = pending_write_result attrib p (- ECANCELED)"

definition attribute_destroy :: "aref \<Rightarrow> gatt_db_attribute option \<Rightarrow> db_event list" where
  "attribute_destroy attrib attribute =
     (case attribute of
        None \<Rightarrow> []
      | Some a \<Rightarrow> concat (map (pending_read_free attrib) (a_pending_reads a)) @
                  concat (map (pending_write_free attrib) (a_pending_writes a)))"

definition new_attribute :: "bool \<Rightarrow> u16 \<Rightarrow> bt_uuid_t \<Rightarrow> u8 list \<Rightarrow> u16 \<Rightarrow> gatt_db_attribute option option" where
  "new_attribute mem handle type val len =
     (let a = \<lparr>a_handle = handle, a_uuid = type, a_permissions = 0, a_value_len = len, a_value = None,
               a_read_func = 0, a_write_func = 0, a_user_data = 0, a_read_id = 0, a_pending_reads = [],
               a_write_id = 0, a_pending_writes = []\<rparr>
      in if len \<noteq> 0
         then if mem then do { v \<leftarrow> read_range val 0 (unat len); Some (Some (a\<lparr>a_value := Some v\<rparr>)) }
              else Some None
         else Some (Some a))"

section \<open>Database\<close>

definition gatt_db_ref :: "gatt_db \<Rightarrow> gatt_db" where
  "gatt_db_ref db = db\<lparr>db_ref_count := db_ref_count db + 1\<rparr>"

definition gatt_db_new :: gatt_db where
  "gatt_db_new = gatt_db_ref
     \<lparr>db_ref_count = 0, db_next_handle = 0x0001, db_services = [], db_notify_list = [], db_next_notify_id = 0,
      db_svc = (\<lambda>_. None), db_next_ptr = 1\<rparr>"

definition notify_destroy :: "notify \<Rightarrow> db_event list" where
  "notify_destroy n = (if n_destroy n \<noteq> 0 then [Notify_destroyed (n_destroy n) (n_user_data n)] else [])"

definition match_notify_id :: "u32 \<Rightarrow> notify \<Rightarrow> bool" where
  "match_notify_id nid n = (n_id n = nid)"

definition handle_notify :: "aref \<Rightarrow> bool \<Rightarrow> notify \<Rightarrow> db_event list option" where
  "handle_notify r added n =
     (if added then if n_service_added n = 0 then None else Some [Service_added (n_service_added n) r (n_user_data n)]
      else if n_service_removed n = 0 then None else Some [Service_removed (n_service_removed n) r (n_user_data n)])"

definition notify_service_changed :: "gatt_db \<Rightarrow> ptr \<Rightarrow> bool \<Rightarrow> db_event list option" where
  "notify_service_changed db s added =
     (if db_notify_list db = [] then Some []
      else concat_opt (handle_notify (s, 0) added) (db_notify_list db))"

definition gatt_db_service_destroy :: "gatt_db \<Rightarrow> ptr \<Rightarrow> (gatt_db \<times> db_event list) option" where
  "gatt_db_service_destroy db s =
     do { S \<leftarrow> db_svc db s;
          ev \<leftarrow> (if s_active S then notify_service_changed db s False else Some []);
          ev' \<leftarrow> concat_opt (\<lambda>i. map_option (attribute_destroy (s, i)) (slot S i)) [0..<unat (s_num_handles S)];
          Some (put_service db s None, ev @ ev') }"

text \<open>Services that were taken off the queue are destroyed one after the other.\<close>

fun destroy_services :: "gatt_db \<Rightarrow> ptr list \<Rightarrow> (gatt_db \<times> db_event list) option" where
  "destroy_services db [] = Some (db, [])"
| "destroy_services db (s # ss) =
     do { (db, ev) \<leftarrow> gatt_db_service_destroy db s; (db, ev') \<leftarrow> destroy_services db ss; Some (db, ev @ ev') }"

definition gatt_db_destroy :: "gatt_db \<Rightarrow> db_event list option" where
  "gatt_db_destroy db =
     (let ev = concat (map notify_destroy (db_notify_list db));
          db = db\<lparr>db_notify_list := []\<rparr>
      in do { (db, ev') \<leftarrow> destroy_services (db\<lparr>db_services := []\<rparr>) (db_services db); Some (ev @ ev') })"

text \<open>\<open>gatt_db_unref\<close>: the database, unless the last reference is gone.\<close>

definition gatt_db_unref :: "gatt_db \<Rightarrow> (gatt_db option \<times> db_event list) option" where
  "gatt_db_unref db =
     (let db = db\<lparr>db_ref_count := db_ref_count db - 1\<rparr>
      in if db_ref_count db \<noteq> 0 then Some (Some db, [])
         else do { ev \<leftarrow> gatt_db_destroy db; Some (None, ev) })"

definition gatt_db_isempty :: "gatt_db \<Rightarrow> bool" where
  "gatt_db_isempty db = (db_services db = [])"

text \<open>\<open>uuid_to_le\<close>: the bytes written; their number is the value returned.\<close>

definition uuid_to_le :: "bt_uuid_t \<Rightarrow> u8 list option" where
  "uuid_to_le uuid =
     (case uuid of
        BT_UUID16 v \<Rightarrow> Some (le16 v)
      | _ \<Rightarrow> (case bt_uuid_to_uuid128 uuid BT_UUID_UNSPEC of BT_UUID128 u \<Rightarrow> bswap_128 u | _ \<Rightarrow> None))"

definition le_to_uuid :: "u8 list \<Rightarrow> nat \<Rightarrow> bt_uuid_t option option" where
  "le_to_uuid src len =
     (if len = 2 then do { b \<leftarrow> read_range src 0 2; Some (Some (bt_uuid16_create (load16 b 0))) }
      else if len = 4 then do { b \<leftarrow> read_range src 0 4; Some (Some (bt_uuid32_create (load32 b 0))) }
      else if len \<noteq> 16 then Some None
      else do { u \<leftarrow> bswap_128 src; Some (Some (bt_uuid128_create u)) })"

definition service_type :: "bool \<Rightarrow> bt_uuid_t" where
  "service_type primary = (if primary then primary_service_uuid else secondary_service_uuid)"

definition gatt_db_service_create :: "bool \<Rightarrow> bt_uuid_t \<Rightarrow> u16 \<Rightarrow> bool \<Rightarrow> u16 \<Rightarrow> gatt_db_service option option" where
  "gatt_db_service_create mem uuid handle primary num_handles =
     (if num_handles < 1 then Some None
      else do {
        let S = \<lparr>s_active = False, s_claimed = False, s_num_handles = 0, s_attributes = replicate (unat num_handles) None\<rparr>;
        v \<leftarrow> uuid_to_le uuid;
        a \<leftarrow> new_attribute mem handle (service_type primary) v (of_nat (length v));
        case a of
          None \<Rightarrow> Some None
        | Some a \<Rightarrow> do { S \<leftarrow> set_slot S 0 (Some (set_attribute_data a 0 0 BT_ATT_PERM_READ 0)); Some (Some S) } })"

definition gatt_db_remove_service :: "gatt_db \<Rightarrow> aref option \<Rightarrow> (bool \<times> gatt_db \<times> db_event list) option" where
  "gatt_db_remove_service db attrib =
     (case attrib of
        None \<Rightarrow> Some (False, db, [])
      | Some r \<Rightarrow>
          do { _ \<leftarrow> attr_at db r;
               (db, ev) \<leftarrow> gatt_db_service_destroy (db\<lparr>db_services := remove1 (fst r) (db_services db)\<rparr>) (fst r);
               Some (True, db, ev) })"

definition gatt_db_service_get_handles :: "gatt_db_service \<Rightarrow> (u16 \<times> u16) option" where
  "gatt_db_service_get_handles S =
     do { a \<leftarrow> attr S 0; Some (a_handle a, a_handle a + s_num_handles S - 1) }"

definition match_range :: "gatt_db \<Rightarrow> u16 \<Rightarrow> u16 \<Rightarrow> ptr \<Rightarrow> bool option" where
  "match_range db start end' s =
     do { S \<leftarrow> db_svc db s;
          (svc_start, svc_end) \<leftarrow> gatt_db_service_get_handles S;
          Some (svc_start \<le> end' \<and> svc_end \<ge> start) }"

definition gatt_db_clear_range :: "gatt_db \<Rightarrow> u16 \<Rightarrow> u16 \<Rightarrow> (bool \<times> gatt_db \<times> db_event list) option" where
  "gatt_db_clear_range db start_handle end_handle =
     (if start_handle > end_handle then Some (False, db, [])
      else do {
        gone \<leftarrow> (if start_handle = 1 \<and> end_handle = 0xFFFF then Some (db_services db)
                  else filter_opt (match_range db start_handle end_handle) (db_services db));
        (db, ev) \<leftarrow> destroy_services (db\<lparr>db_services := filter (\<lambda>s. s \<notin> set gone) (db_services db)\<rparr>) gone;
        let db = (if gatt_db_isempty db then db\<lparr>db_next_handle := 0\<rparr> else db);
        Some (True, db, ev) })"

definition gatt_db_clear :: "gatt_db \<Rightarrow> (bool \<times> gatt_db \<times> db_event list) option" where
  "gatt_db_clear db = gatt_db_clear_range db 1 0xFFFF"

text \<open>\<open>find_insert_loc\<close>: the service that overlaps, or 0, and the service to insert after.\<close>

fun find_insert_loc :: "(ptr \<Rightarrow> gatt_db_service option) \<Rightarrow> u16 \<Rightarrow> u16 \<Rightarrow> ptr \<Rightarrow> ptr list \<Rightarrow> (ptr \<times> ptr) option" where
  "find_insert_loc m start end' after [] = Some (0, after)"
| "find_insert_loc m start end' after (s # ss) =
     do { S \<leftarrow> m s;
          (cur_start, cur_end) \<leftarrow> gatt_db_service_get_handles S;
          if start \<ge> cur_start \<and> start \<le> cur_end then Some (s, after)
          else if end' \<ge> cur_start \<and> end' \<le> cur_end then Some (s, after)
          else if end' < cur_start then Some (0, after)
          else find_insert_loc m start end' s ss }"

definition gatt_db_attribute_get_service_uuid :: "gatt_db \<Rightarrow> aref option \<Rightarrow> bt_uuid_t option option" where
  "gatt_db_attribute_get_service_uuid db attrib =
     (case attrib of
        None \<Rightarrow> Some None
      | Some r \<Rightarrow>
          do { _ \<leftarrow> attr_at db r;
               a \<leftarrow> attr_at db (fst r, 0);
               if a_value_len a = 2
               then do { v \<leftarrow> a_value a; b \<leftarrow> read_range v 0 2; Some (Some (bt_uuid16_create (load16 b 0))) }
               else if a_value_len a = 16
               then do { v \<leftarrow> a_value a; u \<leftarrow> bswap_128 v; Some (Some (bt_uuid128_create u)) }
               else Some None })"

definition gatt_db_insert_service :: "bool \<Rightarrow> gatt_db \<Rightarrow> u16 \<Rightarrow> bt_uuid_t \<Rightarrow> bool \<Rightarrow> u16 \<Rightarrow> (aref option \<times> gatt_db) option" where
  "gatt_db_insert_service mem db handle uuid primary num_handles =
     (if handle < 1 then Some (None, db)
      else if num_handles < 1 \<or> unat handle + unat num_handles - 1 > 0xFFFF then Some (None, db)
      else do {
        (s, after) \<leftarrow> find_insert_loc (db_svc db) handle (handle + num_handles - 1) 0 (db_services db);
        if s \<noteq> 0
        then do {
          S \<leftarrow> db_svc db s;
          a \<leftarrow> attr S 0;
          val \<leftarrow> gatt_db_attribute_get_service_uuid db (Some (s, 0));
          c \<leftarrow> bt_uuid_cmp (a_uuid a) (service_type primary);
          if c \<noteq> 0 then Some (None, db)
          else do {
            val \<leftarrow> val;
            c \<leftarrow> bt_uuid_cmp val uuid;
            if c = 0 \<and> s_num_handles S = num_handles \<and> a_handle a = handle then Some (Some (s, 0), db)
            else Some (None, db) } }
        else do {
          S \<leftarrow> gatt_db_service_create mem uuid handle primary num_handles;
          case S of
            None \<Rightarrow> Some (None, db)
          | Some S \<Rightarrow>
              let s = db_next_ptr db in
              if after \<noteq> 0 \<and> after \<notin> set (db_services db) then Some (None, db)
              else do {
                a \<leftarrow> attr S 0;
                S \<leftarrow> set_slot S 0 (Some (a\<lparr>a_handle := handle\<rparr>));
                let S = S\<lparr>s_num_handles := num_handles\<rparr>;
                Some (Some (s, 0),
                      db\<lparr>db_services := (if after \<noteq> 0 then insert_after after s (db_services db) else s # db_services db),
                         db_svc := (db_svc db)(s \<mapsto> S), db_next_ptr := s + 1,
                         db_next_handle := of_nat (max (unat handle + unat num_handles) (unat (db_next_handle db)))\<rparr>) } } })"

definition gatt_db_add_service :: "bool \<Rightarrow> gatt_db \<Rightarrow> bt_uuid_t \<Rightarrow> bool \<Rightarrow> u16 \<Rightarrow> (aref option \<times> gatt_db) option" where
  "gatt_db_add_service mem db uuid primary num_handles =
     gatt_db_insert_service mem db (db_next_handle db) uuid primary num_handles"

definition gatt_db_register :: "gatt_db \<Rightarrow> ptr \<Rightarrow> ptr \<Rightarrow> ptr \<Rightarrow> ptr \<Rightarrow> u32 \<times> gatt_db" where
  "gatt_db_register db service_added service_removed user_data destroy =
     (if \<not> (service_added \<noteq> 0 \<or> service_removed \<noteq> 0) then (0, db)
      else let db = (if db_next_notify_id db < 1 then db\<lparr>db_next_notify_id := 1\<rparr> else db);
               n = \<lparr>n_id = db_next_notify_id db, n_service_added = service_added, n_service_removed = service_removed,
                    n_destroy = destroy, n_user_data = user_data\<rparr>
           in (n_id n, db\<lparr>db_next_notify_id := db_next_notify_id db + 1, db_notify_list := db_notify_list db @ [n]\<rparr>))"

definition gatt_db_unregister :: "gatt_db \<Rightarrow> u32 \<Rightarrow> bool \<times> gatt_db \<times> db_event list" where
  "gatt_db_unregister db nid =
     (if nid = 0 then (False, db, [])
      else case find (match_notify_id nid) (db_notify_list db) of
             None \<Rightarrow> (False, db, [])
           | Some n \<Rightarrow> (True, db\<lparr>db_notify_list := remove_first (match_notify_id nid) (db_notify_list db)\<rparr>, notify_destroy n))"

section \<open>Adding attributes\<close>

text \<open>The loop of \<open>get_attribute_index\<close>: the first free slot below \<open>limit\<close>, from \<open>i\<close> on, or \<open>limit\<close>.\<close>

function free_index :: "gatt_db_service \<Rightarrow> nat \<Rightarrow> nat \<Rightarrow> nat option" where
  "free_index S limit i =
     (if i < limit
      then case slot S i of None \<Rightarrow> None | Some None \<Rightarrow> Some i | Some (Some _) \<Rightarrow> free_index S limit (i + 1)
      else Some i)"
  by pat_completeness auto
termination
  by (relation "measure (\<lambda>(S, limit, i). limit - i)") auto

definition get_attribute_index :: "gatt_db_service \<Rightarrow> nat \<Rightarrow> nat option" where
  "get_attribute_index S end_offset =
     do { let limit = unat (s_num_handles S) - end_offset;
          i \<leftarrow> free_index S limit 0;
          Some (if i = limit then 0 else i) }"

definition get_handle_at_index :: "gatt_db_service \<Rightarrow> nat \<Rightarrow> u16 option" where
  "get_handle_at_index S index = do { a \<leftarrow> attr S index; Some (a_handle a) }"

definition attribute_update :: "gatt_db_service \<Rightarrow> nat \<Rightarrow> gatt_db_service option" where
  "attribute_update S index =
     do { previous_handle \<leftarrow> get_handle_at_index S (index - 1);
          a \<leftarrow> attr S index;
          set_slot S index (Some (a\<lparr>a_handle := previous_handle + 1\<rparr>)) }"

text \<open>
  The value of a characteristic has no bytes yet, so its attribute is always created; the code behind a failure would leave a dangling pointer.
\<close>

definition service_insert_characteristic ::
  "bool \<Rightarrow> gatt_db \<Rightarrow> ptr \<Rightarrow> u16 \<Rightarrow> bt_uuid_t \<Rightarrow> u32 \<Rightarrow> u8 \<Rightarrow> ptr \<Rightarrow> ptr \<Rightarrow> ptr \<Rightarrow> (aref option \<times> gatt_db) option" where
  "service_insert_characteristic mem db s handle uuid permissions properties read_func write_func user_data =
     do { S \<leftarrow> db_svc db s;
          a0 \<leftarrow> attr S 0;
          if handle \<noteq> 0 \<and> handle \<le> a_handle a0 then Some (None, db)
          else if handle = 0xFFFF then Some (None, db)
          else do {
            i \<leftarrow> get_attribute_index S 1;
            if i = 0 then Some (None, db)
            else do {
              handle \<leftarrow> (if handle = 0 then do { h \<leftarrow> get_handle_at_index S (i - 1); Some (h + 2) } else Some handle);
              v \<leftarrow> uuid_to_le uuid;
              let val = properties # le16 handle @ v;
              a \<leftarrow> new_attribute mem (handle - 1) characteristic_uuid val (of_nat (length val));
              case a of
                None \<Rightarrow> do { S \<leftarrow> set_slot S i None; Some (None, put_service db s (Some S)) }
              | Some a \<Rightarrow>
                  do { S \<leftarrow> set_slot S i (Some (set_attribute_data a 0 0 BT_ATT_PERM_READ 0));
                       b \<leftarrow> new_attribute mem handle uuid [] 0;
                       b \<leftarrow> b;
                       S \<leftarrow> set_slot S (i + 1) (Some (set_attribute_data b read_func write_func permissions user_data));
                       Some (Some (s, i + 1), put_service db s (Some S)) } } } }"

text \<open>\<open>gatt_db_get_service\<close>: the first service whose range holds the handle.\<close>

definition find_service_for_handle :: "gatt_db \<Rightarrow> u16 \<Rightarrow> ptr \<Rightarrow> bool option" where
  "find_service_for_handle db handle s =
     do { S \<leftarrow> db_svc db s;
          (start, end') \<leftarrow> gatt_db_service_get_handles S;
          Some (start \<le> handle \<and> handle \<le> end') }"

definition gatt_db_get_service :: "gatt_db \<Rightarrow> u16 \<Rightarrow> aref option option" where
  "gatt_db_get_service db handle =
     (if handle = 0 then Some None
      else do { s \<leftarrow> find_opt (find_service_for_handle db handle) (db_services db);
                Some (case s of None \<Rightarrow> None | Some s \<Rightarrow> Some (s, 0)) })"

definition gatt_db_insert_characteristic ::
  "bool \<Rightarrow> gatt_db \<Rightarrow> u16 \<Rightarrow> bt_uuid_t \<Rightarrow> u32 \<Rightarrow> u8 \<Rightarrow> ptr \<Rightarrow> ptr \<Rightarrow> ptr \<Rightarrow> (aref option \<times> gatt_db) option" where
  "gatt_db_insert_characteristic mem db handle uuid permissions properties read_func write_func user_data =
     do { attrib \<leftarrow> gatt_db_get_service db handle;
          case attrib of
            None \<Rightarrow> Some (None, db)
          | Some r \<Rightarrow> service_insert_characteristic mem db (fst r) handle uuid permissions properties read_func write_func user_data }"

definition gatt_db_service_insert_characteristic ::
  "bool \<Rightarrow> gatt_db \<Rightarrow> aref option \<Rightarrow> u16 \<Rightarrow> bt_uuid_t \<Rightarrow> u32 \<Rightarrow> u8 \<Rightarrow> ptr \<Rightarrow> ptr \<Rightarrow> ptr \<Rightarrow> (aref option \<times> gatt_db) option" where
  "gatt_db_service_insert_characteristic mem db attrib handle uuid permissions properties read_func write_func user_data =
     (case attrib of
        None \<Rightarrow> Some (None, db)
      | Some r \<Rightarrow> if handle = 0 then Some (None, db)
                  else service_insert_characteristic mem db (fst r) handle uuid permissions properties read_func write_func user_data)"

definition gatt_db_service_add_characteristic ::
  "bool \<Rightarrow> gatt_db \<Rightarrow> aref option \<Rightarrow> bt_uuid_t \<Rightarrow> u32 \<Rightarrow> u8 \<Rightarrow> ptr \<Rightarrow> ptr \<Rightarrow> ptr \<Rightarrow> (aref option \<times> gatt_db) option" where
  "gatt_db_service_add_characteristic mem db attrib uuid permissions properties read_func write_func user_data =
     (case attrib of
        None \<Rightarrow> Some (None, db)
      | Some r \<Rightarrow> service_insert_characteristic mem db (fst r) 0 uuid permissions properties read_func write_func user_data)"

definition service_insert_descriptor ::
  "bool \<Rightarrow> gatt_db \<Rightarrow> ptr \<Rightarrow> u16 \<Rightarrow> bt_uuid_t \<Rightarrow> u32 \<Rightarrow> ptr \<Rightarrow> ptr \<Rightarrow> ptr \<Rightarrow> (aref option \<times> gatt_db) option" where
  "service_insert_descriptor mem db s handle uuid permissions read_func write_func user_data =
     do { S \<leftarrow> db_svc db s;
          i \<leftarrow> get_attribute_index S 0;
          if i = 0 then Some (None, db)
          else do {
            a0 \<leftarrow> attr S 0;
            if handle \<noteq> 0 \<and> handle \<le> a_handle a0 then Some (None, db)
            else do {
              handle \<leftarrow> (if handle = 0 then do { h \<leftarrow> get_handle_at_index S (i - 1); Some (h + 1) } else Some handle);
              a \<leftarrow> new_attribute mem handle uuid [] 0;
              case a of
                None \<Rightarrow> do { S \<leftarrow> set_slot S i None; Some (None, put_service db s (Some S)) }
              | Some a \<Rightarrow>
                  do { S \<leftarrow> set_slot S i (Some (set_attribute_data a read_func write_func permissions user_data));
                       Some (Some (s, i), put_service db s (Some S)) } } } }"

definition gatt_db_insert_descriptor ::
  "bool \<Rightarrow> gatt_db \<Rightarrow> u16 \<Rightarrow> bt_uuid_t \<Rightarrow> u32 \<Rightarrow> ptr \<Rightarrow> ptr \<Rightarrow> ptr \<Rightarrow> (aref option \<times> gatt_db) option" where
  "gatt_db_insert_descriptor mem db handle uuid permissions read_func write_func user_data =
     do { attrib \<leftarrow> gatt_db_get_service db handle;
          case attrib of
            None \<Rightarrow> Some (None, db)
          | Some r \<Rightarrow> service_insert_descriptor mem db (fst r) handle uuid permissions read_func write_func user_data }"

definition gatt_db_service_insert_descriptor ::
  "bool \<Rightarrow> gatt_db \<Rightarrow> aref option \<Rightarrow> u16 \<Rightarrow> bt_uuid_t \<Rightarrow> u32 \<Rightarrow> ptr \<Rightarrow> ptr \<Rightarrow> ptr \<Rightarrow> (aref option \<times> gatt_db) option" where
  "gatt_db_service_insert_descriptor mem db attrib handle uuid permissions read_func write_func user_data =
     (case attrib of
        None \<Rightarrow> Some (None, db)
      | Some r \<Rightarrow> if handle = 0 then Some (None, db)
                  else service_insert_descriptor mem db (fst r) handle uuid permissions read_func write_func user_data)"

definition gatt_db_service_add_descriptor ::
  "bool \<Rightarrow> gatt_db \<Rightarrow> aref option \<Rightarrow> bt_uuid_t \<Rightarrow> u32 \<Rightarrow> ptr \<Rightarrow> ptr \<Rightarrow> ptr \<Rightarrow> (aref option \<times> gatt_db) option" where
  "gatt_db_service_add_descriptor mem db attrib uuid permissions read_func write_func user_data =
     (case attrib of
        None \<Rightarrow> Some (None, db)
      | Some r \<Rightarrow> service_insert_descriptor mem db (fst r) 0 uuid permissions read_func write_func user_data)"

definition service_insert_included :: "bool \<Rightarrow> gatt_db \<Rightarrow> ptr \<Rightarrow> u16 \<Rightarrow> aref \<Rightarrow> (aref option \<times> gatt_db) option" where
  "service_insert_included mem db s handle include =
     do { _ \<leftarrow> attr_at db include;
          included \<leftarrow> db_svc db (fst include);
          inc \<leftarrow> attr included 0;
          let included_handle = a_handle inc;
          let val = le16 included_handle @ le16 (included_handle + s_num_handles included - 1);
          val \<leftarrow> (if a_value_len inc = 2
                   then do { v \<leftarrow> a_value inc; b \<leftarrow> read_range v 0 2; Some (val @ b) } else Some val);
          S \<leftarrow> db_svc db s;
          index \<leftarrow> get_attribute_index S 0;
          if index = 0 then Some (None, db)
          else do {
            a0 \<leftarrow> attr S 0;
            if handle \<noteq> 0 \<and> handle \<le> a_handle a0 then Some (None, db)
            else do {
              handle \<leftarrow> (if handle = 0 then do { h \<leftarrow> get_handle_at_index S (index - 1); Some (h + 1) } else Some handle);
              a \<leftarrow> new_attribute mem handle included_service_uuid val (of_nat (length val));
              case a of
                None \<Rightarrow> do { S \<leftarrow> set_slot S index None; Some (None, put_service db s (Some S)) }
              | Some a \<Rightarrow>
                  do { S \<leftarrow> set_slot S index (Some (set_attribute_data a 0 0 BT_ATT_PERM_READ 0));
                       S \<leftarrow> attribute_update S index;
                       Some (Some (s, index), put_service db s (Some S)) } } } }"

definition gatt_db_service_add_included :: "bool \<Rightarrow> gatt_db \<Rightarrow> aref option \<Rightarrow> aref option \<Rightarrow> (aref option \<times> gatt_db) option" where
  "gatt_db_service_add_included mem db attrib include =
     (case (attrib, include) of
        (Some r, Some inc) \<Rightarrow> service_insert_included mem db (fst r) 0 inc
      | _ \<Rightarrow> Some (None, db))"

definition gatt_db_service_insert_included ::
  "bool \<Rightarrow> gatt_db \<Rightarrow> aref option \<Rightarrow> u16 \<Rightarrow> aref option \<Rightarrow> (aref option \<times> gatt_db) option" where
  "gatt_db_service_insert_included mem db attrib handle include =
     (case (attrib, include) of
        (Some r, Some inc) \<Rightarrow> if handle = 0 then Some (None, db) else service_insert_included mem db (fst r) handle inc
      | _ \<Rightarrow> Some (None, db))"

definition gatt_db_insert_included :: "bool \<Rightarrow> gatt_db \<Rightarrow> u16 \<Rightarrow> aref \<Rightarrow> (aref option \<times> gatt_db) option" where
  "gatt_db_insert_included mem db handle include =
     do { attrib \<leftarrow> gatt_db_get_service db handle;
          case attrib of
            None \<Rightarrow> Some (None, db)
          | Some r \<Rightarrow> service_insert_included mem db (fst r) handle include }"

section \<open>Service flags\<close>

definition gatt_db_service_set_active :: "gatt_db \<Rightarrow> aref option \<Rightarrow> bool \<Rightarrow> (bool \<times> gatt_db \<times> db_event list) option" where
  "gatt_db_service_set_active db attrib active =
     (case attrib of
        None \<Rightarrow> Some (False, db, [])
      | Some r \<Rightarrow>
          do { _ \<leftarrow> attr_at db r;
               S \<leftarrow> db_svc db (fst r);
               if s_active S = active then Some (True, db, [])
               else do { let db = put_service db (fst r) (Some (S\<lparr>s_active := active\<rparr>));
                         ev \<leftarrow> notify_service_changed db (fst r) active;
                         Some (True, db, ev) } })"

definition gatt_db_service_get_active :: "gatt_db \<Rightarrow> aref option \<Rightarrow> bool option" where
  "gatt_db_service_get_active db attrib =
     (case attrib of None \<Rightarrow> Some False | Some r \<Rightarrow> do { _ \<leftarrow> attr_at db r; S \<leftarrow> db_svc db (fst r); Some (s_active S) })"

definition gatt_db_service_set_claimed :: "gatt_db \<Rightarrow> aref option \<Rightarrow> bool \<Rightarrow> (bool \<times> gatt_db) option" where
  "gatt_db_service_set_claimed db attrib claimed =
     (case attrib of
        None \<Rightarrow> Some (False, db)
      | Some r \<Rightarrow>
          do { _ \<leftarrow> attr_at db r; S \<leftarrow> db_svc db (fst r);
               Some (True, put_service db (fst r) (Some (S\<lparr>s_claimed := claimed\<rparr>))) })"

definition gatt_db_service_get_claimed :: "gatt_db \<Rightarrow> aref option \<Rightarrow> bool option" where
  "gatt_db_service_get_claimed db attrib =
     (case attrib of None \<Rightarrow> Some False | Some r \<Rightarrow> do { _ \<leftarrow> attr_at db r; S \<leftarrow> db_svc db (fst r); Some (s_claimed S) })"

end
