(* ===== verification/GattDbAccess.thy ===== *)
theory GattDbAccess
  imports GattDb
begin

text \<open>
  The second half of \<open>src/src/bt/btgatt_server/src/shared/gatt-db.c\<close>: the searches a server runs for its clients, the accessors, and reading and writing of values. The searches
  call a callback for, or queue, a number of attributes; the model gives the list of them in order.
\<close>

section \<open>Searches\<close>

text \<open>\<open>gatt_db_read_by_group_type\<close>: the loop over the services, with the size of the UUIDs found so far.\<close>

fun group_loop :: "gatt_db \<Rightarrow> u16 \<Rightarrow> u16 \<Rightarrow> bt_uuid_t \<Rightarrow> u16 \<Rightarrow> ptr list \<Rightarrow> aref list option" where
  "group_loop db start_handle end_handle type uuid_size [] = Some []"
| "group_loop db start_handle end_handle type uuid_size (s # ss) =
     do { S \<leftarrow> db_svc db s;
          if \<not> s_active S then group_loop db start_handle end_handle type uuid_size ss
          else do {
            a \<leftarrow> attr S 0;
            c \<leftarrow> bt_uuid_cmp type (a_uuid a);
            if c \<noteq> 0 then group_loop db start_handle end_handle type uuid_size ss
            else
              let grp_start = a_handle a; grp_end = grp_start + s_num_handles S - 1 in
              if grp_end < start_handle \<or> grp_start > end_handle
              then group_loop db start_handle end_handle type uuid_size ss
              else if grp_start < start_handle \<or> grp_start > end_handle
              then group_loop db start_handle end_handle type uuid_size ss
              else if uuid_size = 0
              then do { rs \<leftarrow> group_loop db start_handle end_handle type (a_value_len a) ss; Some ((s, 0) # rs) }
              else if uuid_size \<noteq> a_value_len a then Some []
              else do { rs \<leftarrow> group_loop db start_handle end_handle type uuid_size ss; Some ((s, 0) # rs) } } }"

definition gatt_db_read_by_group_type :: "gatt_db \<Rightarrow> u16 \<Rightarrow> u16 \<Rightarrow> bt_uuid_t \<Rightarrow> aref list option" where
  "gatt_db_read_by_group_type db start_handle end_handle type = group_loop db start_handle end_handle type 0 (db_services db)"

text \<open>
  \<open>find_by_type\<close>: the attributes of one service, by index. \<open>val\<close> is the value that is searched for, if any.
\<close>

fun find_by_type_loop :: "gatt_db_service \<Rightarrow> ptr \<Rightarrow> u16 \<Rightarrow> u16 \<Rightarrow> bt_uuid_t \<Rightarrow> u8 list option \<Rightarrow> nat list \<Rightarrow> aref list option" where
  "find_by_type_loop S s start_handle end_handle uuid val [] = Some []"
| "find_by_type_loop S s start_handle end_handle uuid val (i # is) =
     do { a \<leftarrow> slot S i;
          case a of
            None \<Rightarrow> find_by_type_loop S s start_handle end_handle uuid val is
          | Some a \<Rightarrow>
              if a_handle a < start_handle \<or> a_handle a > end_handle
              then find_by_type_loop S s start_handle end_handle uuid val is
              else do {
                c \<leftarrow> bt_uuid_cmp uuid (a_uuid a);
                if c \<noteq> 0 then find_by_type_loop S s start_handle end_handle uuid val is
                else do {
                  ok \<leftarrow> (case val of
                           None \<Rightarrow> Some True
                         | Some w \<Rightarrow>
                             if length w \<noteq> unat (a_value_len a) then Some False
                             else if w = [] then Some True
                             else do { v \<leftarrow> a_value a; b \<leftarrow> read_range v 0 (length w); Some (memcmp b w = 0) });
                  rs \<leftarrow> find_by_type_loop S s start_handle end_handle uuid val is;
                  Some (if ok then (s, i) # rs else rs) } } }"

definition find_by_type :: "gatt_db \<Rightarrow> u16 \<Rightarrow> u16 \<Rightarrow> bt_uuid_t \<Rightarrow> u8 list option \<Rightarrow> ptr \<Rightarrow> aref list option" where
  "find_by_type db start_handle end_handle uuid val s =
     do { S \<leftarrow> db_svc db s;
          if \<not> s_active S then Some []
          else find_by_type_loop S s start_handle end_handle uuid val [0..<unat (s_num_handles S)] }"

definition gatt_db_find_by_type :: "gatt_db \<Rightarrow> u16 \<Rightarrow> u16 \<Rightarrow> bt_uuid_t \<Rightarrow> (u32 \<times> aref list) option" where
  "gatt_db_find_by_type db start_handle end_handle type =
     do { rs \<leftarrow> concat_opt (find_by_type db start_handle end_handle type None) (db_services db);
          Some (of_nat (length rs), rs) }"

text \<open>\<open>gatt_db_find_by_type_value\<close> does not initialise its counter: \<open>junk\<close> is what the stack held there.\<close>

definition gatt_db_find_by_type_value :: "u32 \<Rightarrow> gatt_db \<Rightarrow> u16 \<Rightarrow> u16 \<Rightarrow> bt_uuid_t \<Rightarrow> u8 list option \<Rightarrow> (u32 \<times> aref list) option" where
  "gatt_db_find_by_type_value junk db start_handle end_handle type val =
     do { rs \<leftarrow> concat_opt (find_by_type db start_handle end_handle type val) (db_services db);
          Some (junk + of_nat (length rs), rs) }"

fun read_by_type_loop :: "gatt_db_service \<Rightarrow> ptr \<Rightarrow> u16 \<Rightarrow> u16 \<Rightarrow> bt_uuid_t \<Rightarrow> nat list \<Rightarrow> aref list option" where
  "read_by_type_loop S s start_handle end_handle uuid [] = Some []"
| "read_by_type_loop S s start_handle end_handle uuid (i # is) =
     do { a \<leftarrow> slot S i;
          case a of
            None \<Rightarrow> read_by_type_loop S s start_handle end_handle uuid is
          | Some a \<Rightarrow>
              if a_handle a < start_handle then read_by_type_loop S s start_handle end_handle uuid is
              else if a_handle a > end_handle then Some []
              else do {
                c \<leftarrow> bt_uuid_cmp uuid (a_uuid a);
                rs \<leftarrow> read_by_type_loop S s start_handle end_handle uuid is;
                Some (if c \<noteq> 0 then rs else (s, i) # rs) } }"

definition read_by_type :: "gatt_db \<Rightarrow> u16 \<Rightarrow> u16 \<Rightarrow> bt_uuid_t \<Rightarrow> ptr \<Rightarrow> aref list option" where
  "read_by_type db start_handle end_handle uuid s =
     do { S \<leftarrow> db_svc db s;
          if \<not> s_active S then Some []
          else read_by_type_loop S s start_handle end_handle uuid [0..<unat (s_num_handles S)] }"

definition gatt_db_read_by_type :: "gatt_db \<Rightarrow> u16 \<Rightarrow> u16 \<Rightarrow> bt_uuid_t \<Rightarrow> aref list option" where
  "gatt_db_read_by_type db start_handle end_handle type =
     concat_opt (read_by_type db start_handle end_handle type) (db_services db)"

fun find_information_loop :: "gatt_db_service \<Rightarrow> ptr \<Rightarrow> u16 \<Rightarrow> u16 \<Rightarrow> nat list \<Rightarrow> aref list option" where
  "find_information_loop S s start_handle end_handle [] = Some []"
| "find_information_loop S s start_handle end_handle (i # is) =
     do { a \<leftarrow> slot S i;
          case a of
            None \<Rightarrow> find_information_loop S s start_handle end_handle is
          | Some a \<Rightarrow>
              if a_handle a < start_handle then find_information_loop S s start_handle end_handle is
              else if a_handle a > end_handle then Some []
              else do { rs \<leftarrow> find_information_loop S s start_handle end_handle is; Some ((s, i) # rs) } }"

definition find_information :: "gatt_db \<Rightarrow> u16 \<Rightarrow> u16 \<Rightarrow> ptr \<Rightarrow> aref list option" where
  "find_information db start_handle end_handle s =
     do { S \<leftarrow> db_svc db s;
          if \<not> s_active S then Some []
          else do {
            a \<leftarrow> attr S 0;
            if unat (a_handle a) + unat (s_num_handles S) - 1 < unat start_handle then Some []
            else find_information_loop S s start_handle end_handle [0..<unat (s_num_handles S)] } }"

definition gatt_db_find_information :: "gatt_db \<Rightarrow> u16 \<Rightarrow> u16 \<Rightarrow> aref list option" where
  "gatt_db_find_information db start_handle end_handle =
     concat_opt (find_information db start_handle end_handle) (db_services db)"

definition foreach_service_in_range :: "gatt_db \<Rightarrow> bt_uuid_t option \<Rightarrow> u16 \<Rightarrow> u16 \<Rightarrow> ptr \<Rightarrow> aref list option" where
  "foreach_service_in_range db uuid start end' s =
     do { S \<leftarrow> db_svc db s;
          svc_start \<leftarrow> get_handle_at_index S 0;
          if svc_start > end' \<or> svc_start < start then Some []
          else case uuid of
                 None \<Rightarrow> Some [(s, 0)]
               | Some u \<Rightarrow>
                   do { v \<leftarrow> gatt_db_attribute_get_service_uuid db (Some (s, 0));
                        v \<leftarrow> v;
                        c \<leftarrow> bt_uuid_cmp v u;
                        Some (if c \<noteq> 0 then [] else [(s, 0)]) } }"

definition gatt_db_foreach_service_in_range :: "gatt_db \<Rightarrow> bt_uuid_t option \<Rightarrow> u16 \<Rightarrow> u16 \<Rightarrow> aref list option" where
  "gatt_db_foreach_service_in_range db uuid start_handle end_handle =
     (if start_handle > end_handle then Some []
      else concat_opt (foreach_service_in_range db uuid start_handle end_handle) (db_services db))"

definition gatt_db_foreach_service :: "gatt_db \<Rightarrow> bt_uuid_t option \<Rightarrow> aref list option" where
  "gatt_db_foreach_service db uuid = gatt_db_foreach_service_in_range db uuid 0x0001 0xffff"

definition gatt_db_service_foreach :: "gatt_db \<Rightarrow> aref option \<Rightarrow> bt_uuid_t option \<Rightarrow> aref list option" where
  "gatt_db_service_foreach db attrib uuid =
     (case attrib of
        None \<Rightarrow> Some []
      | Some r \<Rightarrow>
          do { _ \<leftarrow> attr_at db r;
               S \<leftarrow> db_svc db (fst r);
               concat_opt (\<lambda>i. do { a \<leftarrow> slot S i;
                    case (a, uuid) of
                      (None, _) \<Rightarrow> Some []
                    | (Some a, None) \<Rightarrow> Some [(fst r, i)]
                    | (Some a, Some u) \<Rightarrow> do { c \<leftarrow> bt_uuid_cmp u (a_uuid a); Some (if c \<noteq> 0 then [] else [(fst r, i)]) } })
                 [0..<unat (s_num_handles S)] })"

definition gatt_db_service_foreach_char :: "gatt_db \<Rightarrow> aref option \<Rightarrow> aref list option" where
  "gatt_db_service_foreach_char db attrib = gatt_db_service_foreach db attrib (Some characteristic_uuid)"

definition gatt_db_service_foreach_incl :: "gatt_db \<Rightarrow> aref option \<Rightarrow> aref list option" where
  "gatt_db_service_foreach_incl db attrib = gatt_db_service_foreach db attrib (Some included_service_uuid)"

text \<open>The second loop of \<open>gatt_db_service_foreach_desc\<close>.\<close>

fun desc_loop :: "gatt_db_service \<Rightarrow> ptr \<Rightarrow> nat list \<Rightarrow> aref list option" where
  "desc_loop S s [] = Some []"
| "desc_loop S s (i # is) =
     do { a \<leftarrow> slot S i;
          case a of
            None \<Rightarrow> desc_loop S s is
          | Some a \<Rightarrow>
              do { c \<leftarrow> bt_uuid_cmp characteristic_uuid (a_uuid a);
                   d \<leftarrow> bt_uuid_cmp included_service_uuid (a_uuid a);
                   if c = 0 \<or> d = 0 then Some []
                   else do { rs \<leftarrow> desc_loop S s is; Some ((s, i) # rs) } } }"

definition gatt_db_service_foreach_desc :: "gatt_db \<Rightarrow> aref option \<Rightarrow> aref list option" where
  "gatt_db_service_foreach_desc db attrib =
     (case attrib of
        None \<Rightarrow> Some []
      | Some r \<Rightarrow>
          do { a \<leftarrow> attr_at db r;
               c \<leftarrow> bt_uuid_cmp characteristic_uuid (a_uuid a);
               if c \<noteq> 0 then Some []
               else do { S \<leftarrow> db_svc db (fst r);
                         desc_loop S (fst r) [snd r + 2..<unat (s_num_handles S)] } })"

text \<open>\<open>gatt_db_get_attribute\<close>: the first attribute with the handle in the service whose range holds it.\<close>

fun handle_loop :: "gatt_db_service \<Rightarrow> ptr \<Rightarrow> u16 \<Rightarrow> nat list \<Rightarrow> aref option option" where
  "handle_loop S s handle [] = Some None"
| "handle_loop S s handle (i # is) =
     do { a \<leftarrow> slot S i;
          case a of
            None \<Rightarrow> handle_loop S s handle is
          | Some a \<Rightarrow> if a_handle a = handle then Some (Some (s, i)) else handle_loop S s handle is }"

definition gatt_db_get_attribute :: "gatt_db \<Rightarrow> u16 \<Rightarrow> aref option option" where
  "gatt_db_get_attribute db handle =
     do { attrib \<leftarrow> gatt_db_get_service db handle;
          case attrib of
            None \<Rightarrow> Some None
          | Some r \<Rightarrow> do { S \<leftarrow> db_svc db (fst r);
                           handle_loop S (fst r) handle [0..<unat (s_num_handles S)] } }"

definition find_service_with_uuid :: "gatt_db \<Rightarrow> bt_uuid_t \<Rightarrow> ptr \<Rightarrow> bool option" where
  "find_service_with_uuid db uuid s =
     do { v \<leftarrow> gatt_db_attribute_get_service_uuid db (Some (s, 0));
          v \<leftarrow> v;
          c \<leftarrow> bt_uuid_cmp uuid v;
          Some (c = 0) }"

definition gatt_db_get_service_with_uuid :: "gatt_db \<Rightarrow> bt_uuid_t \<Rightarrow> aref option option" where
  "gatt_db_get_service_with_uuid db uuid =
     do { s \<leftarrow> find_opt (find_service_with_uuid db uuid) (db_services db);
          Some (case s of None \<Rightarrow> None | Some s \<Rightarrow> Some (s, 0)) }"

section \<open>Accessors\<close>

definition gatt_db_attribute_get_type :: "gatt_db \<Rightarrow> aref option \<Rightarrow> bt_uuid_t option option" where
  "gatt_db_attribute_get_type db attrib =
     (case attrib of None \<Rightarrow> Some None | Some r \<Rightarrow> do { a \<leftarrow> attr_at db r; Some (Some (a_uuid a)) })"

definition gatt_db_attribute_get_handle :: "gatt_db \<Rightarrow> aref option \<Rightarrow> u16 option" where
  "gatt_db_attribute_get_handle db attrib =
     (case attrib of None \<Rightarrow> Some 0 | Some r \<Rightarrow> do { a \<leftarrow> attr_at db r; Some (a_handle a) })"

definition gatt_db_attribute_get_service_handles :: "gatt_db \<Rightarrow> aref option \<Rightarrow> (u16 \<times> u16) option option" where
  "gatt_db_attribute_get_service_handles db attrib =
     (case attrib of
        None \<Rightarrow> Some None
      | Some r \<Rightarrow> do { _ \<leftarrow> attr_at db r; S \<leftarrow> db_svc db (fst r); h \<leftarrow> gatt_db_service_get_handles S; Some (Some h) })"

text \<open>All out parameters are given; the UUID is missing when its length is wrong, and then the code returns false.\<close>

definition gatt_db_attribute_get_service_data ::
  "gatt_db \<Rightarrow> aref option \<Rightarrow> (u16 \<times> u16 \<times> bool \<times> bt_uuid_t option) option option" where
  "gatt_db_attribute_get_service_data db attrib =
     (case attrib of
        None \<Rightarrow> Some None
      | Some r \<Rightarrow>
          do { _ \<leftarrow> attr_at db r;
               S \<leftarrow> db_svc db (fst r);
               decl \<leftarrow> attr S 0;
               (start, end') \<leftarrow> gatt_db_service_get_handles S;
               c \<leftarrow> bt_uuid_cmp (a_uuid decl) secondary_service_uuid;
               u \<leftarrow> le_to_uuid (case a_value decl of None \<Rightarrow> [] | Some v \<Rightarrow> v) (unat (a_value_len decl));
               Some (Some (start, end', c \<noteq> 0, u)) })"

text \<open>\<open>gatt_db_attribute_get_char_data\<close>, called without \<open>ext_prop\<close>: handle, value handle, properties, UUID.\<close>

definition gatt_db_attribute_get_char_data ::
  "gatt_db \<Rightarrow> aref option \<Rightarrow> (u16 \<times> u16 \<times> u8 \<times> bt_uuid_t option) option option" where
  "gatt_db_attribute_get_char_data db attrib =
     (case attrib of
        None \<Rightarrow> Some None
      | Some r \<Rightarrow>
          do { a \<leftarrow> attr_at db r;
               c \<leftarrow> bt_uuid_cmp characteristic_uuid (a_uuid a);
               if c \<noteq> 0 then Some None
               else case a_value a of
                      None \<Rightarrow> Some None
                    | Some v \<Rightarrow>
                        if a_value_len a \<noteq> 5 \<and> a_value_len a \<noteq> 19 then Some None
                        else do {
                          p \<leftarrow> read_range v 0 1;
                          h \<leftarrow> read_range v 1 2;
                          u \<leftarrow> le_to_uuid (drop 3 v) (unat (a_value_len a) - 3);
                          Some (Some (a_handle a, load16 h 0, p ! 0, u)) } })"

definition gatt_db_attribute_get_incl_data :: "gatt_db \<Rightarrow> aref option \<Rightarrow> (u16 \<times> u16 \<times> u16) option option" where
  "gatt_db_attribute_get_incl_data db attrib =
     (case attrib of
        None \<Rightarrow> Some None
      | Some r \<Rightarrow>
          do { a \<leftarrow> attr_at db r;
               c \<leftarrow> bt_uuid_cmp included_service_uuid (a_uuid a);
               if c \<noteq> 0 then Some None
               else case a_value a of
                      None \<Rightarrow> Some None
                    | Some v \<Rightarrow>
                        if a_value_len a < 4 \<or> a_value_len a > 6 then Some None
                        else do {
                          b \<leftarrow> read_range v 0 4;
                          Some (Some (a_handle a, load16 b 0, load16 b 2)) } })"

definition gatt_db_attribute_get_permissions :: "gatt_db \<Rightarrow> aref option \<Rightarrow> u32 option" where
  "gatt_db_attribute_get_permissions db attrib =
     (case attrib of None \<Rightarrow> Some 0 | Some r \<Rightarrow> do { a \<leftarrow> attr_at db r; Some (a_permissions a) })"

definition gatt_db_attribute_get_user_data :: "gatt_db \<Rightarrow> aref option \<Rightarrow> ptr option" where
  "gatt_db_attribute_get_user_data db attrib =
     (case attrib of None \<Rightarrow> Some 0 | Some r \<Rightarrow> do { a \<leftarrow> attr_at db r; Some (a_user_data a) })"

section \<open>Reading and writing\<close>

text \<open>The value returned by \<open>timeout_add\<close> is the argument \<open>tid\<close>.\<close>

definition gatt_db_attribute_read ::
  "u32 \<Rightarrow> gatt_db \<Rightarrow> aref option \<Rightarrow> u16 \<Rightarrow> u8 \<Rightarrow> ptr \<Rightarrow> ptr \<Rightarrow> (bool \<times> gatt_db \<times> db_event list) option" where
  "gatt_db_attribute_read tid db attrib offset opcode func user_data =
     (case attrib of
        None \<Rightarrow> Some (False, db, [])
      | Some r \<Rightarrow>
          if func = 0 then Some (False, db, [])
          else do {
            a \<leftarrow> attr_at db r;
            if a_read_func a \<noteq> 0
            then do {
              let n = a_read_id a + 1;
              let p = \<lparr>p_id = n, p_timeout_id = tid, p_func = func, p_user_data = user_data\<rparr>;
              db \<leftarrow> put_attr db r (a\<lparr>a_read_id := n, a_pending_reads := a_pending_reads a @ [p]\<rparr>);
              Some (True, db, [Read_request (a_read_func a) r n offset opcode (a_user_data a)]) }
            else if offset > a_value_len a
            then Some (True, db, [Read_done func r BT_ATT_ERROR_INVALID_OFFSET [] user_data])
            else do {
              b \<leftarrow> (if offset = a_value_len a then Some []
                     else do { v \<leftarrow> a_value a; read_range v (unat offset) (unat (a_value_len a) - unat offset) });
              Some (True, db, [Read_done func r 0 b user_data]) } })"

definition find_pending :: "u32 \<Rightarrow> pending \<Rightarrow> bool" where
  "find_pending n p = (p_id p = n)"

definition gatt_db_attribute_read_result ::
  "gatt_db \<Rightarrow> aref option \<Rightarrow> u32 \<Rightarrow> int \<Rightarrow> u8 list \<Rightarrow> (bool \<times> gatt_db \<times> db_event list) option" where
  "gatt_db_attribute_read_result db attrib n err val =
     (case attrib of
        None \<Rightarrow> Some (False, db, [])
      | Some r \<Rightarrow>
          if n = 0 then Some (False, db, [])
          else do {
            a \<leftarrow> attr_at db r;
            case find (find_pending n) (a_pending_reads a) of
              None \<Rightarrow> Some (False, db, [])
            | Some p \<Rightarrow>
                do { db \<leftarrow> put_attr db r (a\<lparr>a_pending_reads := remove_first (find_pending n) (a_pending_reads a)\<rparr>);
                     Some (True, db, pending_read_result r p err val) } })"

text \<open>The timer of the pending read \<open>p\<close> has expired.\<close>

definition read_timeout :: "gatt_db \<Rightarrow> aref \<Rightarrow> pending \<Rightarrow> (gatt_db \<times> db_event list) option" where
  "read_timeout db r p =
     do { a \<leftarrow> attr_at db r;
          db \<leftarrow> put_attr db r (a\<lparr>a_pending_reads := remove1 p (a_pending_reads a)\<rparr>);
          Some (db, pending_read_result r (p\<lparr>p_timeout_id := 0\<rparr>) (- ETIMEDOUT) []) }"

definition write_timeout :: "gatt_db \<Rightarrow> aref \<Rightarrow> pending \<Rightarrow> (gatt_db \<times> db_event list) option" where
  "write_timeout db r p =
     do { a \<leftarrow> attr_at db r;
          db \<leftarrow> put_attr db r (a\<lparr>a_pending_writes := remove1 p (a_pending_writes a)\<rparr>);
          Some (db, pending_write_result r (p\<lparr>p_timeout_id := 0\<rparr>) (- ETIMEDOUT)) }"

text \<open>
  The stored value after a write of \<open>val\<close> at \<open>offset\<close>. \<open>realloc\<close> keeps the bytes of the old block and leaves the
  others unspecified: \<open>junk\<close>.
\<close>

definition grow_value :: "(nat \<Rightarrow> u8) \<Rightarrow> gatt_db_attribute \<Rightarrow> u16 \<Rightarrow> nat \<Rightarrow> gatt_db_attribute option" where
  "grow_value junk a offset len =
     (let old = (case a_value a of None \<Rightarrow> [] | Some v \<Rightarrow> v);
          n = len + unat offset;
          buf = take n old @ map junk [length old..<n]
      in do { buf \<leftarrow> (if a_value_len a = 0 then memset_at buf 0 0 (unat offset) else Some buf);
              Some (a\<lparr>a_value := Some buf, a_value_len := of_nat n\<rparr>) })"

definition gatt_db_attribute_write ::
  "bool \<Rightarrow> (nat \<Rightarrow> u8) \<Rightarrow> u32 \<Rightarrow> gatt_db \<Rightarrow> aref option \<Rightarrow> u16 \<Rightarrow> u8 list \<Rightarrow> u8 \<Rightarrow> ptr \<Rightarrow> ptr \<Rightarrow>
     (bool \<times> gatt_db \<times> db_event list) option" where
  "gatt_db_attribute_write mem junk tid db attrib offset val opcode func user_data =
     (case attrib of
        None \<Rightarrow> Some (False, db, [])
      | Some r \<Rightarrow>
          if func = 0 then Some (False, db, [])
          else do {
            a \<leftarrow> attr_at db r;
            if a_write_func a \<noteq> 0
            then do {
              let n = a_write_id a + 1;
              let p = \<lparr>p_id = n, p_timeout_id = tid, p_func = func, p_user_data = user_data\<rparr>;
              db \<leftarrow> put_attr db r (a\<lparr>a_write_id := n, a_pending_writes := a_pending_writes a @ [p]\<rparr>);
              Some (True, db, [Write_request (a_write_func a) r n offset val opcode (a_user_data a)]) }
            else if length val = 0 then Some (True, db, [Write_done func r 0 user_data])
            else if (a_value a = None \<or> offset \<ge> a_value_len a \<or> length val > unat (a_value_len a) - unat offset) \<and> \<not> mem
            then Some (False, db, [])
            else do {
              a \<leftarrow> (if a_value a = None \<or> offset \<ge> a_value_len a \<or> length val > unat (a_value_len a) - unat offset
                     then grow_value junk a offset (length val) else Some a);
              v \<leftarrow> a_value a;
              v \<leftarrow> write_range v (unat offset) val;
              db \<leftarrow> put_attr db r (a\<lparr>a_value := Some v\<rparr>);
              Some (True, db, [Write_done func r 0 user_data]) } })"

definition gatt_db_attribute_write_result :: "gatt_db \<Rightarrow> aref option \<Rightarrow> u32 \<Rightarrow> int \<Rightarrow> (bool \<times> gatt_db \<times> db_event list) option" where
  "gatt_db_attribute_write_result db attrib n err =
     (case attrib of
        None \<Rightarrow> Some (False, db, [])
      | Some r \<Rightarrow>
          if n = 0 then Some (False, db, [])
          else do {
            a \<leftarrow> attr_at db r;
            case find (find_pending n) (a_pending_writes a) of
              None \<Rightarrow> Some (False, db, [])
            | Some p \<Rightarrow>
                do { db \<leftarrow> put_attr db r (a\<lparr>a_pending_writes := remove_first (find_pending n) (a_pending_writes a)\<rparr>);
                     Some (True, db, pending_write_result r p err) } })"

definition gatt_db_attribute_reset :: "gatt_db \<Rightarrow> aref option \<Rightarrow> (bool \<times> gatt_db) option" where
  "gatt_db_attribute_reset db attrib =
     (case attrib of
        None \<Rightarrow> Some (False, db)
      | Some r \<Rightarrow>
          do { a \<leftarrow> attr_at db r;
               if a_value a = None \<or> a_value_len a = 0 then Some (True, db)
               else do { db \<leftarrow> put_attr db r (a\<lparr>a_value := None, a_value_len := 0\<rparr>); Some (True, db) } })"
section \<open>Extended properties\<close>

text \<open>
  The extended properties of a characteristic are read from a descriptor into a local variable of
  \<open>get_char_extended_prop\<close>: \<open>fn\<close> and \<open>sp\<close> are the addresses of \<open>read_ext_prop_value\<close> and of that variable. When the
  descriptor is answered by a callback of the application, the request stays pending with the address of a variable that is gone.
\<close>

definition ext_desc_uuid :: bt_uuid_t where "ext_desc_uuid = BT_UUID16 0x2900"

definition read_ext_prop_value :: "int \<Rightarrow> u8 list \<Rightarrow> u16 \<Rightarrow> u16" where
  "read_ext_prop_value err val ext_prop = (if err \<noteq> 0 \<or> length val \<noteq> 2 then ext_prop else ucast (val ! 0))"

definition read_ext_prop ::
  "u32 \<Rightarrow> ptr \<Rightarrow> ptr \<Rightarrow> aref \<Rightarrow> gatt_db \<times> u16 \<times> db_event list \<Rightarrow> (gatt_db \<times> u16 \<times> db_event list) option" where
  "read_ext_prop tid fn sp r st =
     (case st of (db, ext_prop, evs) \<Rightarrow>
        if ext_prop \<noteq> 0 then Some st
        else do {
          a \<leftarrow> attr_at db r;
          c \<leftarrow> bt_uuid_cmp ext_desc_uuid (a_uuid a);
          if c \<noteq> 0 then Some st
          else do {
            (_, db, ev) \<leftarrow> gatt_db_attribute_read tid db (Some r) 0 BT_ATT_OP_READ_REQ fn sp;
            case ev of
              [Read_done _ _ err v _] \<Rightarrow> Some (db, read_ext_prop_value err v ext_prop, evs)
            | _ \<Rightarrow> Some (db, ext_prop, evs @ ev) } })"

fun foreach_opt :: "('a \<Rightarrow> 's \<Rightarrow> 's option) \<Rightarrow> 'a list \<Rightarrow> 's \<Rightarrow> 's option" where
  "foreach_opt f [] s = Some s"
| "foreach_opt f (x # xs) s = do { s \<leftarrow> f x s; foreach_opt f xs s }"

definition get_char_extended_prop ::
  "u32 \<Rightarrow> ptr \<Rightarrow> ptr \<Rightarrow> gatt_db \<Rightarrow> aref option \<Rightarrow> (u8 \<times> gatt_db \<times> db_event list) option" where
  "get_char_extended_prop tid fn sp db attrib =
     (case attrib of
        None \<Rightarrow> Some (0, db, [])
      | Some r \<Rightarrow>
          do { a \<leftarrow> attr_at db r;
               c \<leftarrow> bt_uuid_cmp characteristic_uuid (a_uuid a);
               if c \<noteq> 0 then Some (0, db, [])
               else do {
                 v \<leftarrow> a_value a;
                 p \<leftarrow> read_range v 0 1;
                 if p ! 0 AND BT_GATT_CHRC_PROP_EXT_PROP = 0 then Some (0, db, [])
                 else do {
                   rs \<leftarrow> gatt_db_service_foreach_desc db (Some r);
                   (db, ext_prop, evs) \<leftarrow> foreach_opt (read_ext_prop tid fn sp) rs (db, 0, []);
                   Some (ucast ext_prop, db, evs) } } })"

text \<open>\<open>gatt_db_attribute_get_char_data\<close>, called for the extended properties alone.\<close>

definition gatt_db_attribute_get_char_ext ::
  "u32 \<Rightarrow> ptr \<Rightarrow> ptr \<Rightarrow> gatt_db \<Rightarrow> aref option \<Rightarrow> (u16 option \<times> gatt_db \<times> db_event list) option" where
  "gatt_db_attribute_get_char_ext tid fn sp db attrib =
     (case attrib of
        None \<Rightarrow> Some (None, db, [])
      | Some r \<Rightarrow>
          do { a \<leftarrow> attr_at db r;
               c \<leftarrow> bt_uuid_cmp characteristic_uuid (a_uuid a);
               if c \<noteq> 0 \<or> a_value a = None \<or> a_value_len a \<noteq> 5 \<and> a_value_len a \<noteq> 19 then Some (None, db, [])
               else do { (e, db, evs) \<leftarrow> get_char_extended_prop tid fn sp db (Some r); Some (Some (ucast e), db, evs) } })"

end
