(* ===== verification/GattServer.thy ===== *)
theory GattServer
  imports GattDbAccess
begin

text \<open>
  The GATT server, \<open>src/src/bt/btgatt_server/src/shared/gatt-server.c\<close>, on top of the attribute database: one handler for each request
  of the ATT protocol. The handlers keep their names.

  A handler gets the parameters of a request (the bytes behind the opcode) and returns the new state and what it does to the outside: PDUs that are sent,
  and calls of the application. The outer \<open>None\<close> is undefined behaviour. \<open>bt_att_send\<close> is the sending of a PDU; what \<open>att.c\<close> does with it
  is not part of this theory. The operations that wait for an answer of the application (\<open>async_read_op\<close>, \<open>async_write_op\<close>, the data of a multiple read
  and of a prepared write) live at addresses; their addresses are the user data of the requests to the database. An operation under way
  is passed along and is put back at its address when the handler leaves it waiting. \<open>new0\<close> aborts the process when memory runs out; \<open>e_mem\<close> says whether
  \<open>malloc\<close> and \<open>realloc\<close> succeed, \<open>e_junk\<close> is what they leave in a block, \<open>e_tid\<close> what \<open>timeout_add\<close> returns.
\<close>

section \<open>State\<close>

record env =
  e_mem :: bool
  e_junk :: "nat \<Rightarrow> u8"
  e_tid :: u32

record async_read_op =
  ro_opcode :: u8
  ro_done :: bool
  ro_pdu :: "u8 list"
  ro_pdu_len :: nat
  ro_value_len :: nat
  ro_db_data :: "aref list"

record read_multiple_resp_data =
  rm_handles :: "u16 list"
  rm_cur_handle :: nat
  rm_num_handles :: nat
  rm_rsp_data :: "u8 list"
  rm_length :: nat
  rm_mtu :: nat

record prep_write_data =
  pw_value :: "u8 list"
  pw_handle :: u16
  pw_offset :: u16
  pw_length :: u16
  pw_reliable_supported :: bool

datatype gatt_op = Read_op async_read_op | Mult_op read_multiple_resp_data | Write_op u8 | Prep_op "u8 list"

record bt_gatt_server =
  gs_db :: gatt_db
  gs_mtu :: u16
  gs_att_mtu :: u16
  gs_security :: int
  gs_enc_size :: u8
  gs_min_enc_size :: u8
  gs_prep_queue :: "prep_write_data list"
  gs_max_prep_queue_len :: u32
  gs_pending_read_op :: ptr
  gs_pending_write_op :: ptr
  gs_ops :: "ptr \<Rightarrow> gatt_op option"
  gs_next_op :: ptr

datatype att_out = Sent u8 "u8 list" | App db_event

type_synonym action = "(bt_gatt_server \<times> att_out list) option"

definition DEFAULT_MAX_PREP_QUEUE_LEN :: u32 where "DEFAULT_MAX_PREP_QUEUE_LEN = 30"

text \<open>The addresses of the callbacks the server gives to the database; \<open>ext_prop_fn\<close> is that of \<open>read_ext_prop_value\<close>.\<close>

definition attribute_read_fn :: ptr where "attribute_read_fn = 1"
definition read_by_type_fn :: ptr where "read_by_type_fn = 2"
definition read_fn :: ptr where "read_fn = 3"
definition read_multiple_fn :: ptr where "read_multiple_fn = 4"
definition write_fn :: ptr where "write_fn = 5"
definition prep_write_fn :: ptr where "prep_write_fn = 6"
definition exec_write_fn :: ptr where "exec_write_fn = 7"
definition ext_prop_fn :: ptr where "ext_prop_fn = 8"

lemmas fn_defs = attribute_read_fn_def read_by_type_fn_def read_fn_def read_multiple_fn_def write_fn_def prep_write_fn_def exec_write_fn_def ext_prop_fn_def

section \<open>Bytes\<close>

definition get_le16 :: "u8 list \<Rightarrow> nat \<Rightarrow> u16 option" where
  "get_le16 b i = do { x \<leftarrow> read_range b i 2; Some (load16 x 0) }"

definition put_le16 :: "u16 \<Rightarrow> u8 list \<Rightarrow> nat \<Rightarrow> u8 list option" where
  "put_le16 v b i = write_range b i (le16 v)"

definition get_uuid_le :: "u8 list \<Rightarrow> nat \<Rightarrow> bt_uuid_t option option" where
  "get_uuid_le uuid len =
     (if len = 2 then do { w \<leftarrow> get_le16 uuid 0; Some (Some (bt_uuid16_create w)) }
      else if len = 16 then do { u \<leftarrow> bswap_128 uuid; Some (Some (bt_uuid128_create u)) }
      else Some None)"

section \<open>Errors\<close>

definition att_ecode_from_error :: "int \<Rightarrow> u8" where
  "att_ecode_from_error err =
     (if err > 0 \<and> err < 255 then of_int err
      else if err = - 2 then of_int BT_ATT_ERROR_INVALID_HANDLE
      else if err = - 12 then of_int BT_ATT_ERROR_INSUFFICIENT_RESOURCES
      else if err = - 114 then 0xfe
      else if err = - 75 then 0xff
      else of_int BT_ATT_ERROR_UNLIKELY)"

definition bt_att_send_error_rsp :: "u8 \<Rightarrow> u16 \<Rightarrow> int \<Rightarrow> att_out list" where
  "bt_att_send_error_rsp opcode handle error =
     (if opcode = 0 then [] else [Sent BT_ATT_OP_ERROR_RSP (opcode # le16 handle @ [att_ecode_from_error error])])"

definition rsp_buffer :: "env \<Rightarrow> nat \<Rightarrow> u8 list" where
  "rsp_buffer e n = map (e_junk e) [0..<n]"

text \<open>Allocation and release of an operation.\<close>

definition new_op :: "gatt_op \<Rightarrow> bt_gatt_server \<Rightarrow> ptr \<times> bt_gatt_server" where
  "new_op x s = (gs_next_op s, s\<lparr>gs_ops := (gs_ops s)(gs_next_op s \<mapsto> x), gs_next_op := gs_next_op s + 1\<rparr>)"

definition put_op :: "ptr \<Rightarrow> gatt_op option \<Rightarrow> bt_gatt_server \<Rightarrow> bt_gatt_server" where
  "put_op p x s = s\<lparr>gs_ops := (gs_ops s)(p := x)\<rparr>"

definition async_read_op_destroy :: "ptr \<Rightarrow> bt_gatt_server \<Rightarrow> bt_gatt_server" where
  "async_read_op_destroy p s = put_op p None (s\<lparr>gs_pending_read_op := 0\<rparr>)"

definition async_write_op_destroy :: "ptr \<Rightarrow> bt_gatt_server \<Rightarrow> bt_gatt_server" where
  "async_write_op_destroy p s = put_op p None (s\<lparr>gs_pending_write_op := 0\<rparr>)"

section \<open>Permissions\<close>

definition check_min_key_size :: "u8 \<Rightarrow> u8 \<Rightarrow> bool" where
  "check_min_key_size min_size sz = (if min_size = 0 \<or> sz = 0 then True else min_size \<le> sz)"

definition check_permissions :: "bt_gatt_server \<Rightarrow> aref option \<Rightarrow> u32 \<Rightarrow> int option" where
  "check_permissions s attrib mask' =
     do { perm \<leftarrow> gatt_db_attribute_get_permissions (gs_db s) attrib;
          Some (
            if perm \<noteq> 0 \<and> mask' AND BT_ATT_PERM_READ \<noteq> 0 \<and> perm AND BT_ATT_PERM_READ = 0 then BT_ATT_ERROR_READ_NOT_PERMITTED
            else if perm \<noteq> 0 \<and> mask' AND BT_ATT_PERM_WRITE \<noteq> 0 \<and> perm AND BT_ATT_PERM_WRITE = 0 then BT_ATT_ERROR_WRITE_NOT_PERMITTED
            else
              let perm = perm AND mask'; key = check_min_key_size (gs_min_enc_size s) (gs_enc_size s) in
              if perm = 0 then 0
              else if gs_security s < 0 then BT_ATT_ERROR_UNLIKELY
              else if perm AND BT_ATT_PERM_SECURE \<noteq> 0 \<and> gs_security s < BT_ATT_SECURITY_FIPS then BT_ATT_ERROR_AUTHENTICATION
              else if perm AND BT_ATT_PERM_SECURE \<noteq> 0 \<and> \<not> key then BT_ATT_ERROR_INSUFFICIENT_ENCRYPTION_KEY_SIZE
              else if perm AND BT_ATT_PERM_AUTHEN \<noteq> 0 \<and> gs_security s < BT_ATT_SECURITY_HIGH then BT_ATT_ERROR_AUTHENTICATION
              else if perm AND BT_ATT_PERM_AUTHEN \<noteq> 0 \<and> \<not> key then BT_ATT_ERROR_INSUFFICIENT_ENCRYPTION_KEY_SIZE
              else if perm AND BT_ATT_PERM_ENCRYPT \<noteq> 0 \<and> gs_security s < BT_ATT_SECURITY_MEDIUM then BT_ATT_ERROR_INSUFFICIENT_ENCRYPTION
              else if perm AND BT_ATT_PERM_ENCRYPT \<noteq> 0 \<and> \<not> key then BT_ATT_ERROR_INSUFFICIENT_ENCRYPTION_KEY_SIZE
              else 0) }"

definition read_mask :: u32 where "read_mask = (BT_ATT_PERM_READ OR BT_ATT_PERM_READ_AUTHEN OR BT_ATT_PERM_READ_ENCRYPT)"
definition write_mask :: u32 where "write_mask = (BT_ATT_PERM_WRITE OR BT_ATT_PERM_WRITE_AUTHEN OR BT_ATT_PERM_WRITE_ENCRYPT)"
section \<open>Discovery\<close>

text \<open>The C expression \<open>(unsigned) mtu - k\<close>.\<close>

definition mtu_minus :: "u16 \<Rightarrow> u32 \<Rightarrow> nat" where
  "mtu_minus mtu k = unat (ucast mtu - k :: u32)"

text \<open>
  A read whose callback \<open>attribute_read_cb\<close> stores the value in a local variable; a value that is not there at once counts as empty.
\<close>

definition read_now :: "env \<Rightarrow> gatt_db \<Rightarrow> aref \<Rightarrow> u8 \<Rightarrow> (bool \<times> gatt_db \<times> u8 list) option" where
  "read_now e db r opcode =
     do { (ok, db, ev) \<leftarrow> gatt_db_attribute_read (e_tid e) db (Some r) 0 opcode attribute_read_fn 0;
          Some (ok, db, case ev of [Read_done _ _ _ v _] \<Rightarrow> v | _ \<Rightarrow> []) }"

text \<open>
  The loop of \<open>encode_read_by_grp_type_rsp\<close> over the queue, with the position, the length of a value and the buffer; the result is
  \<open>None\<close> when the function returns false.
\<close>

fun grp_loop :: "env \<Rightarrow> u16 \<Rightarrow> gatt_db \<Rightarrow> nat \<Rightarrow> nat \<Rightarrow> u8 list \<Rightarrow> aref list \<Rightarrow> (gatt_db \<times> (nat \<times> u8 list) option) option" where
  "grp_loop e mtu db iter data_val_len pdu [] = Some (db, Some (iter, pdu))"
| "grp_loop e mtu db iter data_val_len pdu (r # q) =
     do { (ok, db, val) \<leftarrow> read_now e db r BT_ATT_OP_READ_BY_GRP_TYPE_REQ;
          if \<not> ok \<or> length val = 0 then Some (db, None)
          else if iter \<noteq> 0 \<and> length val \<noteq> data_val_len then Some (db, Some (iter, pdu))
          else do {
            (iter, data_val_len, pdu) \<leftarrow>
              (if iter = 0
               then do { let n = min (min (mtu_minus mtu 6) 251) (length val);
                         pdu \<leftarrow> write_range pdu 0 [of_nat n + 4];
                         Some (1, n, pdu) }
               else Some (iter, data_val_len, pdu));
            if iter + data_val_len + 4 + 1 > unat mtu then Some (db, Some (iter, pdu))
            else do {
              hs \<leftarrow> gatt_db_attribute_get_service_handles db (Some r);
              (start_handle, end_handle) \<leftarrow> hs;
              pdu \<leftarrow> put_le16 start_handle pdu iter;
              pdu \<leftarrow> put_le16 end_handle pdu (iter + 2);
              v \<leftarrow> read_range val 0 data_val_len;
              pdu \<leftarrow> write_range pdu (iter + 4) v;
              grp_loop e mtu db (iter + data_val_len + 4) data_val_len pdu q } } }"

definition encode_read_by_grp_type_rsp :: "env \<Rightarrow> gatt_db \<Rightarrow> aref list \<Rightarrow> u16 \<Rightarrow> u8 list \<Rightarrow> (gatt_db \<times> (nat \<times> u8 list) option) option" where
  "encode_read_by_grp_type_rsp e db q mtu pdu = grp_loop e mtu db 0 0 pdu q"

definition read_by_grp_type_cb :: "env \<Rightarrow> u8 \<Rightarrow> u8 list \<Rightarrow> bt_gatt_server \<Rightarrow> action" where
  "read_by_grp_type_cb e opcode pdu s =
     (let mtu = gs_att_mtu s in
      if length pdu \<noteq> 6 \<and> length pdu \<noteq> 20 then Some (s, bt_att_send_error_rsp opcode 0 BT_ATT_ERROR_INVALID_PDU)
      else do {
        start \<leftarrow> get_le16 pdu 0;
        end' \<leftarrow> get_le16 pdu 2;
        type \<leftarrow> get_uuid_le (drop 4 pdu) (length pdu - 4);
        if start = 0 \<or> end' = 0 then Some (s, bt_att_send_error_rsp opcode 0 BT_ATT_ERROR_INVALID_HANDLE)
        else if start > end' then Some (s, bt_att_send_error_rsp opcode start BT_ATT_ERROR_INVALID_HANDLE)
        else do {
          type \<leftarrow> type;
          c1 \<leftarrow> bt_uuid_cmp type (bt_uuid16_create 0x2800);
          c2 \<leftarrow> bt_uuid_cmp type (bt_uuid16_create 0x2801);
          if c1 \<noteq> 0 \<and> c2 \<noteq> 0 then Some (s, bt_att_send_error_rsp opcode start BT_ATT_ERROR_UNSUPPORTED_GROUP_TYPE)
          else do {
            q \<leftarrow> gatt_db_read_by_group_type (gs_db s) start end' type;
            if q = [] then Some (s, bt_att_send_error_rsp opcode start BT_ATT_ERROR_ATTRIBUTE_NOT_FOUND)
            else do {
              (db, rsp) \<leftarrow> encode_read_by_grp_type_rsp e (gs_db s) q mtu (rsp_buffer e (unat mtu));
              let s = s\<lparr>gs_db := db\<rparr>;
              case rsp of
                None \<Rightarrow> Some (s, bt_att_send_error_rsp opcode start BT_ATT_ERROR_UNLIKELY)
              | Some (rsp_len, rsp_pdu) \<Rightarrow>
                  do { b \<leftarrow> read_range rsp_pdu 0 rsp_len; Some (s, [Sent BT_ATT_OP_READ_BY_GRP_TYPE_RSP b]) } } } } })"

text \<open>The loop of \<open>encode_find_info_rsp\<close>.\<close>

fun info_loop :: "u16 \<Rightarrow> gatt_db \<Rightarrow> nat \<Rightarrow> nat \<Rightarrow> u8 list \<Rightarrow> aref list \<Rightarrow> (nat \<times> u8 list) option option" where
  "info_loop mtu db iter uuid_len pdu [] = Some (Some (iter, pdu))"
| "info_loop mtu db iter uuid_len pdu (r # q) =
     do { handle \<leftarrow> gatt_db_attribute_get_handle db (Some r);
          type \<leftarrow> gatt_db_attribute_get_type db (Some r);
          case type of
            None \<Rightarrow> Some None
          | Some type \<Rightarrow>
              if handle = 0 then Some None
              else
                let cur_uuid_len = bt_uuid_len type in
                if iter = 0 \<and> cur_uuid_len \<noteq> 2 \<and> cur_uuid_len \<noteq> 4 \<and> cur_uuid_len \<noteq> 16 then Some None
                else if iter \<noteq> 0 \<and> cur_uuid_len \<noteq> uuid_len then Some (Some (iter, pdu))
                else do {
                  (iter, uuid_len, pdu) \<leftarrow>
                    (if iter = 0
                     then do { pdu \<leftarrow> write_range pdu 0 [if cur_uuid_len = 2 then 0x01 else 0x02];
                               Some (1, if cur_uuid_len = 2 then 2 else 16, pdu) }
                     else Some (iter, uuid_len, pdu));
                  if iter + uuid_len + 2 + 1 > unat mtu then Some (Some (iter, pdu))
                  else do {
                    pdu \<leftarrow> put_le16 handle pdu iter;
                    u \<leftarrow> bt_uuid_to_le type;
                    pdu \<leftarrow> (case u of Inl _ \<Rightarrow> Some pdu | Inr b \<Rightarrow> write_range pdu (iter + 2) b);
                    info_loop mtu db (iter + uuid_len + 2) uuid_len pdu q } } }"

definition encode_find_info_rsp :: "gatt_db \<Rightarrow> aref list \<Rightarrow> u16 \<Rightarrow> u8 list \<Rightarrow> (nat \<times> u8 list) option option" where
  "encode_find_info_rsp db q mtu pdu = info_loop mtu db 0 0 pdu q"

definition find_info_cb :: "env \<Rightarrow> u8 \<Rightarrow> u8 list \<Rightarrow> bt_gatt_server \<Rightarrow> action" where
  "find_info_cb e opcode pdu s =
     (let mtu = gs_att_mtu s in
      if length pdu \<noteq> 4 then Some (s, bt_att_send_error_rsp opcode 0 BT_ATT_ERROR_INVALID_PDU)
      else do {
        start \<leftarrow> get_le16 pdu 0;
        end' \<leftarrow> get_le16 pdu 2;
        if start = 0 \<or> end' = 0 then Some (s, bt_att_send_error_rsp opcode 0 BT_ATT_ERROR_INVALID_HANDLE)
        else if start > end' then Some (s, bt_att_send_error_rsp opcode start BT_ATT_ERROR_INVALID_HANDLE)
        else do {
          q \<leftarrow> gatt_db_find_information (gs_db s) start end';
          if q = [] then Some (s, bt_att_send_error_rsp opcode start BT_ATT_ERROR_ATTRIBUTE_NOT_FOUND)
          else do {
            rsp \<leftarrow> encode_find_info_rsp (gs_db s) q mtu (rsp_buffer e (unat mtu));
            case rsp of
              None \<Rightarrow> Some (s, bt_att_send_error_rsp opcode start BT_ATT_ERROR_UNLIKELY)
            | Some (rsp_len, rsp_pdu) \<Rightarrow>
                do { b \<leftarrow> read_range rsp_pdu 0 rsp_len; Some (s, [Sent BT_ATT_OP_FIND_INFO_RSP b]) } } } })"

text \<open>\<open>find_by_type_val_att_cb\<close>: the buffer, the length used and the error so far.\<close>

definition find_by_type_val_att_cb :: "gatt_db \<Rightarrow> u16 \<Rightarrow> aref \<Rightarrow> u8 list \<times> nat \<times> int \<Rightarrow> (u8 list \<times> nat \<times> int) option" where
  "find_by_type_val_att_cb db mtu r data =
     (case data of (pdu, len, ecode) \<Rightarrow>
        if ecode \<noteq> 0 then Some data
        else if len + 4 + 1 > unat mtu then Some data
        else do {
          d \<leftarrow> gatt_db_attribute_get_service_data db (Some r);
          (handle, end_handle, _) \<leftarrow> d;
          if handle = 0 \<or> end_handle = 0 then Some (pdu, len, BT_ATT_ERROR_UNLIKELY)
          else do {
            pdu \<leftarrow> put_le16 handle pdu len;
            pdu \<leftarrow> put_le16 end_handle pdu (len + 2);
            Some (pdu, len + 4, 0) } })"

definition find_by_type_val_cb :: "env \<Rightarrow> u8 \<Rightarrow> u8 list \<Rightarrow> bt_gatt_server \<Rightarrow> action" where
  "find_by_type_val_cb e opcode pdu s =
     (let mtu = gs_att_mtu s in
      if length pdu < 6 then Some (s, bt_att_send_error_rsp opcode 0 BT_ATT_ERROR_INVALID_PDU)
      else do {
        start \<leftarrow> get_le16 pdu 0;
        end' \<leftarrow> get_le16 pdu 2;
        uuid16 \<leftarrow> get_le16 pdu 4;
        if start > end' then Some (s, bt_att_send_error_rsp opcode start BT_ATT_ERROR_INVALID_HANDLE)
        else do {
          (_, rs) \<leftarrow> gatt_db_find_by_type_value 0 (gs_db s) start end' (bt_uuid16_create uuid16) (Some (drop 6 pdu));
          (rsp_pdu, len, ecode) \<leftarrow> foreach_opt (find_by_type_val_att_cb (gs_db s) mtu) rs (rsp_buffer e (unat mtu), 0, 0);
          let ecode = (if len = 0 then BT_ATT_ERROR_ATTRIBUTE_NOT_FOUND else ecode);
          if ecode \<noteq> 0 then Some (s, bt_att_send_error_rsp opcode start ecode)
          else do { b \<leftarrow> read_range rsp_pdu 0 len; Some (s, [Sent BT_ATT_OP_FIND_BY_TYPE_RSP b]) } } })"
section \<open>Reading\<close>

text \<open>
  \<open>read_by_type_read_complete_cb\<close>: \<open>Inl\<close> when the operation ends with an error response, \<open>Inr\<close> the operation that
  \<open>process_read_by_type\<close> goes on with.
\<close>

definition read_by_type_read_complete_cb :: "bt_gatt_server \<Rightarrow> async_read_op \<Rightarrow> aref \<Rightarrow> int \<Rightarrow> u8 list \<Rightarrow> (att_out list + async_read_op) option" where
  "read_by_type_read_complete_cb s op r err val =
     do { let mtu = gs_att_mtu s;
          handle \<leftarrow> gatt_db_attribute_get_handle (gs_db s) (Some r);
          if err \<noteq> 0 then Some (Inl (bt_att_send_error_rsp BT_ATT_OP_READ_BY_TYPE_REQ handle err))
          else if ro_pdu_len op \<noteq> 0 \<and> length val \<noteq> ro_value_len op then Some (Inr (op\<lparr>ro_done := True\<rparr>))
          else do {
            op \<leftarrow> (if ro_pdu_len op = 0
                    then do { let n = min (min (mtu_minus mtu 4) 253) (length val);
                              pdu \<leftarrow> write_range (ro_pdu op) 0 [of_nat n + 2];
                              Some (op\<lparr>ro_value_len := n, ro_pdu := pdu, ro_pdu_len := 1\<rparr>) }
                    else Some op);
            if ro_pdu_len op + ro_value_len op + 2 > mtu_minus mtu 1 then Some (Inr (op\<lparr>ro_done := True\<rparr>))
            else do {
              pdu \<leftarrow> put_le16 handle (ro_pdu op) (ro_pdu_len op);
              v \<leftarrow> read_range val 0 (ro_value_len op);
              pdu \<leftarrow> write_range pdu (ro_pdu_len op + 2) v;
              let op = op\<lparr>ro_pdu := pdu, ro_pdu_len := ro_pdu_len op + ro_value_len op + 2\<rparr>;
              Some (Inr (if ro_pdu_len op = mtu_minus mtu 1 then op\<lparr>ro_done := True\<rparr> else op)) } } }"

text \<open>\<open>process_read_by_type\<close>, with the queue of attributes as an argument of its own.\<close>

definition read_by_type_rsp :: "ptr \<Rightarrow> async_read_op \<Rightarrow> bt_gatt_server \<Rightarrow> action" where
  "read_by_type_rsp p op s =
     do { b \<leftarrow> read_range (ro_pdu op) 0 (ro_pdu_len op);
          Some (async_read_op_destroy p s, [Sent BT_ATT_OP_READ_BY_TYPE_RSP b]) }"

definition read_by_type_error :: "ptr \<Rightarrow> aref \<Rightarrow> int \<Rightarrow> bt_gatt_server \<Rightarrow> action" where
  "read_by_type_error p r ecode s =
     do { handle \<leftarrow> gatt_db_attribute_get_handle (gs_db s) (Some r);
          Some (async_read_op_destroy p s, bt_att_send_error_rsp BT_ATT_OP_READ_BY_TYPE_REQ handle ecode) }"

fun process_read_by_type :: "env \<Rightarrow> ptr \<Rightarrow> async_read_op \<Rightarrow> aref list \<Rightarrow> bt_gatt_server \<Rightarrow> action" where
  "process_read_by_type e p op [] s = read_by_type_rsp p op s"
| "process_read_by_type e p op (r # q) s =
     (if ro_done op then read_by_type_rsp p op s
      else do {
        ecode \<leftarrow> check_permissions s (Some r) read_mask;
        if ecode \<noteq> 0 then read_by_type_error p r ecode s
        else do {
          (ok, db, ev) \<leftarrow> gatt_db_attribute_read (e_tid e) (gs_db s) (Some r) 0 (ro_opcode op) read_by_type_fn p;
          let s = s\<lparr>gs_db := db\<rparr>;
          if \<not> ok then read_by_type_error p r BT_ATT_ERROR_UNLIKELY s
          else case ev of
                 [Read_done _ _ err val _] \<Rightarrow>
                   do { x \<leftarrow> read_by_type_read_complete_cb s op r err val;
                        case x of
                          Inl out \<Rightarrow> Some (async_read_op_destroy p s, out)
                        | Inr op \<Rightarrow> process_read_by_type e p op q s }
               | _ \<Rightarrow> Some (put_op p (Some (Read_op (op\<lparr>ro_db_data := q\<rparr>))) s, map App ev) } })"

definition read_by_type_cb :: "env \<Rightarrow> u8 \<Rightarrow> u8 list \<Rightarrow> bt_gatt_server \<Rightarrow> action" where
  "read_by_type_cb e opcode pdu s =
     (if length pdu \<noteq> 6 \<and> length pdu \<noteq> 20 then Some (s, bt_att_send_error_rsp opcode 0 BT_ATT_ERROR_INVALID_PDU)
      else do {
        start \<leftarrow> get_le16 pdu 0;
        end' \<leftarrow> get_le16 pdu 2;
        type \<leftarrow> get_uuid_le (drop 4 pdu) (length pdu - 4);
        if start = 0 \<or> end' = 0 then Some (s, bt_att_send_error_rsp opcode 0 BT_ATT_ERROR_INVALID_HANDLE)
        else if start > end' then Some (s, bt_att_send_error_rsp opcode start BT_ATT_ERROR_INVALID_HANDLE)
        else do {
          type \<leftarrow> type;
          q \<leftarrow> gatt_db_read_by_type (gs_db s) start end' type;
          if q = [] then Some (s, bt_att_send_error_rsp opcode start BT_ATT_ERROR_ATTRIBUTE_NOT_FOUND)
          else if gs_pending_read_op s \<noteq> 0 then Some (s, bt_att_send_error_rsp opcode start BT_ATT_ERROR_UNLIKELY)
          else if \<not> e_mem e then Some (s, bt_att_send_error_rsp opcode start BT_ATT_ERROR_INSUFFICIENT_RESOURCES)
          else
            let op = \<lparr>ro_opcode = opcode, ro_done = False, ro_pdu = rsp_buffer e (unat (gs_att_mtu s)), ro_pdu_len = 0,
                      ro_value_len = 0, ro_db_data = q\<rparr>;
                (p, s) = new_op (Read_op op) s
            in process_read_by_type e p op q (s\<lparr>gs_pending_read_op := p\<rparr>) } })"

definition get_read_rsp_opcode :: "u8 \<Rightarrow> u8" where
  "get_read_rsp_opcode opcode =
     (if opcode = BT_ATT_OP_READ_REQ then BT_ATT_OP_READ_RSP
      else if opcode = BT_ATT_OP_READ_BLOB_REQ then BT_ATT_OP_READ_BLOB_RSP else 0)"

definition read_complete_cb :: "ptr \<Rightarrow> async_read_op \<Rightarrow> aref \<Rightarrow> int \<Rightarrow> u8 list \<Rightarrow> bt_gatt_server \<Rightarrow> action" where
  "read_complete_cb p op r err val s =
     do { handle \<leftarrow> gatt_db_attribute_get_handle (gs_db s) (Some r);
          if err \<noteq> 0 then Some (async_read_op_destroy p s, bt_att_send_error_rsp (ro_opcode op) handle err)
          else Some (async_read_op_destroy p s,
                     [Sent (get_read_rsp_opcode (ro_opcode op)) (take (min (mtu_minus (gs_att_mtu s) 1) (length val)) val)]) }"

definition handle_read_req :: "env \<Rightarrow> u8 \<Rightarrow> u16 \<Rightarrow> u16 \<Rightarrow> bt_gatt_server \<Rightarrow> action" where
  "handle_read_req e opcode handle offset s =
     do { attrib \<leftarrow> gatt_db_get_attribute (gs_db s) handle;
          case attrib of
            None \<Rightarrow> Some (s, bt_att_send_error_rsp opcode handle BT_ATT_ERROR_INVALID_HANDLE)
          | Some r \<Rightarrow>
              do { ecode \<leftarrow> check_permissions s (Some r) read_mask;
                   if ecode \<noteq> 0 then Some (s, bt_att_send_error_rsp opcode handle ecode)
                   else if gs_pending_read_op s \<noteq> 0 then Some (s, bt_att_send_error_rsp opcode handle BT_ATT_ERROR_UNLIKELY)
                   else do {
                     let op = \<lparr>ro_opcode = opcode, ro_done = False, ro_pdu = [], ro_pdu_len = 0, ro_value_len = 0, ro_db_data = []\<rparr>;
                     let (p, s) = new_op (Read_op op) s;
                     let s = s\<lparr>gs_pending_read_op := p\<rparr>;
                     (ok, db, ev) \<leftarrow> gatt_db_attribute_read (e_tid e) (gs_db s) (Some r) offset opcode read_fn p;
                     let s = s\<lparr>gs_db := db\<rparr>;
                     if \<not> ok then Some (async_read_op_destroy p s, bt_att_send_error_rsp opcode handle BT_ATT_ERROR_UNLIKELY)
                     else case ev of
                            [Read_done _ _ err val _] \<Rightarrow> read_complete_cb p op r err val s
                          | _ \<Rightarrow> Some (s, map App ev) } } }"

definition read_cb :: "env \<Rightarrow> u8 \<Rightarrow> u8 list \<Rightarrow> bt_gatt_server \<Rightarrow> action" where
  "read_cb e opcode pdu s =
     (if length pdu \<noteq> 2 then Some (s, bt_att_send_error_rsp opcode 0 BT_ATT_ERROR_INVALID_PDU)
      else do { handle \<leftarrow> get_le16 pdu 0; handle_read_req e opcode handle 0 s })"

definition read_blob_cb :: "env \<Rightarrow> u8 \<Rightarrow> u8 list \<Rightarrow> bt_gatt_server \<Rightarrow> action" where
  "read_blob_cb e opcode pdu s =
     (if length pdu \<noteq> 4 then Some (s, bt_att_send_error_rsp opcode 0 BT_ATT_ERROR_INVALID_PDU)
      else do { handle \<leftarrow> get_le16 pdu 0; offset \<leftarrow> get_le16 pdu 2; handle_read_req e opcode handle offset s })"

text \<open>
  The first half of \<open>read_multiple_complete_cb\<close>: \<open>Inl\<close> when the operation ends, \<open>Inr\<close> the data with the value appended.
\<close>

definition mult_append :: "bt_gatt_server \<Rightarrow> read_multiple_resp_data \<Rightarrow> aref \<Rightarrow> int \<Rightarrow> u8 list \<Rightarrow> (att_out list + read_multiple_resp_data) option" where
  "mult_append s data r err val =
     do { handle \<leftarrow> gatt_db_attribute_get_handle (gs_db s) (Some r);
          if err \<noteq> 0 then Some (Inl (bt_att_send_error_rsp BT_ATT_OP_READ_MULT_REQ handle err))
          else do {
            ecode \<leftarrow> check_permissions s (Some r) read_mask;
            if ecode \<noteq> 0 then Some (Inl (bt_att_send_error_rsp BT_ATT_OP_READ_MULT_REQ handle ecode))
            else do {
              let len = min (length val) (rm_mtu data - rm_length data - 1);
              v \<leftarrow> read_range val 0 len;
              b \<leftarrow> write_range (rm_rsp_data data) (rm_length data) v;
              let data = data\<lparr>rm_rsp_data := b, rm_length := rm_length data + len, rm_cur_handle := rm_cur_handle data + 1\<rparr>;
              if rm_length data \<ge> rm_mtu data - 1 \<or> rm_cur_handle data = rm_num_handles data
              then do { b \<leftarrow> read_range (rm_rsp_data data) 0 (rm_length data); Some (Inl [Sent BT_ATT_OP_READ_MULT_RSP b]) }
              else Some (Inr data) } } }"

text \<open>
  \<open>read_multiple_complete_cb\<close> with the handles that are still to be read; the read of the next attribute runs the callback again.
\<close>

fun read_multiple_complete_cb ::
  "env \<Rightarrow> ptr \<Rightarrow> read_multiple_resp_data \<Rightarrow> u16 list \<Rightarrow> aref \<Rightarrow> int \<Rightarrow> u8 list \<Rightarrow> bt_gatt_server \<Rightarrow> action" where
  "read_multiple_complete_cb e p data [] r err val s =
     do { x \<leftarrow> mult_append s data r err val;
          case x of Inl out \<Rightarrow> Some (put_op p None s, out) | Inr _ \<Rightarrow> None }"
| "read_multiple_complete_cb e p data (next # rest) r err val s =
     do { x \<leftarrow> mult_append s data r err val;
          case x of
            Inl out \<Rightarrow> Some (put_op p None s, out)
          | Inr data \<Rightarrow>
              do { attrib \<leftarrow> gatt_db_get_attribute (gs_db s) next;
                   case attrib of
                     None \<Rightarrow> Some (put_op p None s, bt_att_send_error_rsp BT_ATT_OP_READ_MULT_REQ next BT_ATT_ERROR_INVALID_HANDLE)
                   | Some r' \<Rightarrow>
                       do { (ok, db, ev) \<leftarrow> gatt_db_attribute_read (e_tid e) (gs_db s) (Some r') 0 BT_ATT_OP_READ_MULT_REQ read_multiple_fn p;
                            let s = s\<lparr>gs_db := db\<rparr>;
                            if \<not> ok then Some (put_op p None s, bt_att_send_error_rsp BT_ATT_OP_READ_MULT_REQ next BT_ATT_ERROR_UNLIKELY)
                            else case ev of
                                   [Read_done _ _ err val _] \<Rightarrow> read_multiple_complete_cb e p data rest r' err val s
                                 | _ \<Rightarrow> Some (put_op p (Some (Mult_op data)) s, map App ev) } } }"

definition get_handles :: "u8 list \<Rightarrow> nat \<Rightarrow> u16 list option" where
  "get_handles pdu n = foreach_opt (\<lambda>i hs. do { h \<leftarrow> get_le16 pdu (i * 2); Some (hs @ [h]) }) [0..<n] []"

definition read_multiple_cb :: "env \<Rightarrow> u8 \<Rightarrow> u8 list \<Rightarrow> bt_gatt_server \<Rightarrow> action" where
  "read_multiple_cb e opcode pdu s =
     (if length pdu < 4 then Some (s, bt_att_send_error_rsp opcode 0 BT_ATT_ERROR_INVALID_PDU)
      else if \<not> e_mem e then Some (s, bt_att_send_error_rsp opcode 0 BT_ATT_ERROR_UNLIKELY)
      else do {
        let mtu = unat (gs_att_mtu s);
        handles \<leftarrow> get_handles pdu (length pdu div 2);
        let data = \<lparr>rm_handles = handles, rm_cur_handle = 0, rm_num_handles = length pdu div 2,
                    rm_rsp_data = rsp_buffer e (mtu - 1), rm_length = 0, rm_mtu = mtu\<rparr>;
        attrib \<leftarrow> gatt_db_get_attribute (gs_db s) (handles ! 0);
        case attrib of
          None \<Rightarrow> Some (s, bt_att_send_error_rsp opcode 0 BT_ATT_ERROR_INVALID_HANDLE)
        | Some r \<Rightarrow>
            do { let (p, s) = new_op (Mult_op data) s;
                 (ok, db, ev) \<leftarrow> gatt_db_attribute_read (e_tid e) (gs_db s) (Some r) 0 opcode read_multiple_fn p;
                 let s = s\<lparr>gs_db := db\<rparr>;
                 if \<not> ok then Some (put_op p None s, bt_att_send_error_rsp opcode 0 BT_ATT_ERROR_UNLIKELY)
                 else case ev of
                        [Read_done _ _ err val _] \<Rightarrow> read_multiple_complete_cb e p data (drop 1 handles) r err val s
                      | _ \<Rightarrow> Some (s, map App ev) } })"
section \<open>Writing\<close>

definition write_complete_cb :: "ptr \<Rightarrow> u8 \<Rightarrow> aref \<Rightarrow> int \<Rightarrow> bt_gatt_server \<Rightarrow> action" where
  "write_complete_cb p opcode r err s =
     (if opcode = BT_ATT_OP_WRITE_CMD then Some (async_write_op_destroy p s, [])
      else do {
        handle \<leftarrow> gatt_db_attribute_get_handle (gs_db s) (Some r);
        Some (async_write_op_destroy p s, if err \<noteq> 0 then bt_att_send_error_rsp opcode handle err else [Sent BT_ATT_OP_WRITE_RSP []]) })"

definition write_error :: "u8 \<Rightarrow> u16 \<Rightarrow> int \<Rightarrow> att_out list" where
  "write_error opcode handle ecode = (if opcode = BT_ATT_OP_WRITE_CMD then [] else bt_att_send_error_rsp opcode handle ecode)"

definition write_cb :: "env \<Rightarrow> u8 \<Rightarrow> u8 list \<Rightarrow> bt_gatt_server \<Rightarrow> action" where
  "write_cb e opcode pdu s =
     (if length pdu < 2 then Some (s, write_error opcode 0 BT_ATT_ERROR_INVALID_PDU)
      else do {
        handle \<leftarrow> get_le16 pdu 0;
        attrib \<leftarrow> gatt_db_get_attribute (gs_db s) handle;
        case attrib of
          None \<Rightarrow> Some (s, write_error opcode handle BT_ATT_ERROR_INVALID_HANDLE)
        | Some r \<Rightarrow>
            do { ecode \<leftarrow> check_permissions s (Some r) write_mask;
                 if ecode \<noteq> 0 then Some (s, write_error opcode handle ecode)
                 else if gs_pending_write_op s \<noteq> 0 then Some (s, write_error opcode handle BT_ATT_ERROR_UNLIKELY)
                 else do {
                   let (p, s) = new_op (Write_op opcode) s;
                   let s = s\<lparr>gs_pending_write_op := p\<rparr>;
                   (ok, db, ev) \<leftarrow> gatt_db_attribute_write (e_mem e) (e_junk e) (e_tid e) (gs_db s) (Some r) 0 (drop 2 pdu) opcode write_fn p;
                   let s = s\<lparr>gs_db := db\<rparr>;
                   if \<not> ok then Some (async_write_op_destroy p s, write_error opcode handle BT_ATT_ERROR_UNLIKELY)
                   else case ev of
                          [Write_done _ _ err _] \<Rightarrow> write_complete_cb p opcode r err s
                        | _ \<Rightarrow> Some (s, map App ev) } } })"

text \<open>
  \<open>append_prep_data\<close>. The new length is kept in 16 bits; \<open>realloc\<close> to length 0 frees the block, and the pointer to it is left behind.
\<close>

definition append_prep_data :: "env \<Rightarrow> prep_write_data \<Rightarrow> u16 \<Rightarrow> u8 list \<Rightarrow> (bool \<times> prep_write_data) option" where
  "append_prep_data e d len val =
     (if len = 0 then Some (True, d)
      else
        let n = pw_length d + len in
        if n = 0 then None
        else if \<not> e_mem e then Some (False, d)
        else do {
          b \<leftarrow> write_range (take (unat n) (pw_value d) @ map (e_junk e) [length (pw_value d)..<unat n]) (unat (pw_length d)) val;
          Some (True, d\<lparr>pw_value := b, pw_length := n\<rparr>) })"

definition is_reliable_write_supported :: "env \<Rightarrow> u16 \<Rightarrow> bt_gatt_server \<Rightarrow> (bool \<times> bt_gatt_server \<times> att_out list) option" where
  "is_reliable_write_supported e handle s =
     do { attrib \<leftarrow> gatt_db_get_attribute (gs_db s) handle;
          case attrib of
            None \<Rightarrow> Some (False, s, [])
          | Some r \<Rightarrow>
              do { (x, db, ev) \<leftarrow> gatt_db_attribute_get_char_ext (e_tid e) ext_prop_fn 0 (gs_db s) (Some r);
                   Some (case x of None \<Rightarrow> False | Some ext_prop \<Rightarrow> ext_prop AND BT_GATT_CHRC_EXT_PROP_RELIABLE_WRITE \<noteq> 0,
                         s\<lparr>gs_db := db\<rparr>, map App ev) } }"

definition prep_data_new :: "env \<Rightarrow> u16 \<Rightarrow> u16 \<Rightarrow> u16 \<Rightarrow> u8 list \<Rightarrow> bt_gatt_server \<Rightarrow> (bool \<times> bt_gatt_server \<times> att_out list) option" where
  "prep_data_new e handle offset len val s =
     do { (ok, d) \<leftarrow> append_prep_data e \<lparr>pw_value = [], pw_handle = 0, pw_offset = 0, pw_length = 0, pw_reliable_supported = False\<rparr> len val;
          if \<not> ok then Some (False, s, [])
          else do {
            (reliable, s, out) \<leftarrow> is_reliable_write_supported e (handle - 1) s;
            let d = d\<lparr>pw_handle := handle, pw_offset := offset, pw_reliable_supported := reliable\<rparr>;
            Some (True, s\<lparr>gs_prep_queue := gs_prep_queue s @ [d]\<rparr>, out) } }"

definition store_prep_data :: "env \<Rightarrow> u16 \<Rightarrow> u16 \<Rightarrow> u16 \<Rightarrow> u8 list \<Rightarrow> bt_gatt_server \<Rightarrow> (bool \<times> bt_gatt_server \<times> att_out list) option" where
  "store_prep_data e handle offset len val s =
     (if gs_prep_queue s \<noteq> [] \<and> pw_handle (last (gs_prep_queue s)) = handle \<and>
         unat offset = unat (pw_length (last (gs_prep_queue s))) + unat (pw_offset (last (gs_prep_queue s)))
      then do { (ok, d) \<leftarrow> append_prep_data e (last (gs_prep_queue s)) len val;
                Some (ok, s\<lparr>gs_prep_queue := butlast (gs_prep_queue s) @ [d]\<rparr>, []) }
      else prep_data_new e handle offset len val s)"

text \<open>The callback of a prepared write: after a failure to store the data it sends the response as well.\<close>

definition prep_write_complete_cb :: "env \<Rightarrow> ptr \<Rightarrow> u8 list \<Rightarrow> int \<Rightarrow> bt_gatt_server \<Rightarrow> action" where
  "prep_write_complete_cb e p pdu err s =
     do { handle \<leftarrow> get_le16 pdu 0;
          if err \<noteq> 0 then Some (put_op p None s, bt_att_send_error_rsp BT_ATT_OP_PREP_WRITE_REQ handle err)
          else do {
            offset \<leftarrow> get_le16 pdu 2;
            (ok, s, out) \<leftarrow> store_prep_data e handle offset (of_nat (length pdu) - 4) (drop 4 pdu) s;
            Some (put_op p None s,
                  out @ (if ok then [] else bt_att_send_error_rsp BT_ATT_OP_PREP_WRITE_RSP handle BT_ATT_ERROR_INSUFFICIENT_RESOURCES) @
                  [Sent BT_ATT_OP_PREP_WRITE_RSP pdu]) } }"

definition prep_write_cb :: "env \<Rightarrow> u8 \<Rightarrow> u8 list \<Rightarrow> bt_gatt_server \<Rightarrow> action" where
  "prep_write_cb e opcode pdu s =
     (if length pdu < 4 then Some (s, bt_att_send_error_rsp opcode 0 BT_ATT_ERROR_INVALID_PDU)
      else if length (gs_prep_queue s) \<ge> unat (gs_max_prep_queue_len s)
      then Some (s, bt_att_send_error_rsp opcode 0 BT_ATT_ERROR_PREPARE_QUEUE_FULL)
      else do {
        handle \<leftarrow> get_le16 pdu 0;
        offset \<leftarrow> get_le16 pdu 2;
        attrib \<leftarrow> gatt_db_get_attribute (gs_db s) handle;
        case attrib of
          None \<Rightarrow> Some (s, bt_att_send_error_rsp opcode handle BT_ATT_ERROR_INVALID_HANDLE)
        | Some r \<Rightarrow>
            do { ecode \<leftarrow> check_permissions s (Some r) write_mask;
                 if ecode \<noteq> 0 then Some (s, bt_att_send_error_rsp opcode handle ecode)
                 else if \<not> e_mem e then None
                 else do {
                   let (p, s) = new_op (Prep_op pdu) s;
                   (ok, db, ev) \<leftarrow> gatt_db_attribute_write (e_mem e) (e_junk e) (e_tid e) (gs_db s) (Some r) offset [] BT_ATT_OP_PREP_WRITE_REQ prep_write_fn p;
                   let s = s\<lparr>gs_db := db\<rparr>;
                   if \<not> ok then Some (s, bt_att_send_error_rsp opcode handle BT_ATT_ERROR_UNLIKELY)
                   else case ev of
                          [Write_done _ _ err _] \<Rightarrow> prep_write_complete_cb e p pdu err s
                        | _ \<Rightarrow> Some (s, map App ev) } } })"

text \<open>
  \<open>exec_next_prep_write\<close> with the queue as an argument of its own: the completion of a write, \<open>exec_write_complete_cb\<close>, runs it again
  for the next one.
\<close>

definition exec_error :: "u16 \<Rightarrow> int \<Rightarrow> bt_gatt_server \<Rightarrow> action" where
  "exec_error ehandle err s = Some (s\<lparr>gs_prep_queue := []\<rparr>, bt_att_send_error_rsp BT_ATT_OP_EXEC_WRITE_REQ ehandle err)"

fun exec_next_prep_write :: "env \<Rightarrow> prep_write_data list \<Rightarrow> u16 \<Rightarrow> int \<Rightarrow> bt_gatt_server \<Rightarrow> action" where
  "exec_next_prep_write e [] ehandle err s =
     (if err \<noteq> 0 then exec_error ehandle err s else Some (s\<lparr>gs_prep_queue := []\<rparr>, [Sent BT_ATT_OP_EXEC_WRITE_RSP []]))"
| "exec_next_prep_write e (d # q) ehandle err s =
     (if err \<noteq> 0 then exec_error ehandle err s
      else do {
        attrib \<leftarrow> gatt_db_get_attribute (gs_db s) (pw_handle d);
        case attrib of
          None \<Rightarrow> exec_error ehandle BT_ATT_ERROR_UNLIKELY s
        | Some r \<Rightarrow>
            do { v \<leftarrow> read_range (pw_value d) 0 (unat (pw_length d));
                 (ok, db, ev) \<leftarrow> gatt_db_attribute_write (e_mem e) (e_junk e) (e_tid e) (gs_db s) (Some r) (pw_offset d) v BT_ATT_OP_EXEC_WRITE_REQ exec_write_fn 0;
                 let s = s\<lparr>gs_db := db, gs_prep_queue := q\<rparr>;
                 if \<not> ok then exec_error ehandle BT_ATT_ERROR_UNLIKELY s
                 else case ev of
                        [Write_done _ _ err' _] \<Rightarrow>
                          do { handle \<leftarrow> gatt_db_attribute_get_handle (gs_db s) (Some r); exec_next_prep_write e q handle err' s }
                      | _ \<Rightarrow> Some (s, map App ev) } })"

definition exec_write_complete_cb :: "env \<Rightarrow> aref \<Rightarrow> int \<Rightarrow> bt_gatt_server \<Rightarrow> action" where
  "exec_write_complete_cb e r err s =
     do { handle \<leftarrow> gatt_db_attribute_get_handle (gs_db s) (Some r); exec_next_prep_write e (gs_prep_queue s) handle err s }"

definition find_no_reliable_characteristic :: "prep_write_data \<Rightarrow> bool" where
  "find_no_reliable_characteristic d = (\<not> pw_reliable_supported d)"

definition exec_write_cb :: "env \<Rightarrow> u8 \<Rightarrow> u8 list \<Rightarrow> bt_gatt_server \<Rightarrow> action" where
  "exec_write_cb e opcode pdu s =
     (let fail = (\<lambda>ehandle ecode. Some (s\<lparr>gs_prep_queue := []\<rparr>, bt_att_send_error_rsp opcode ehandle ecode)) in
      if length pdu \<noteq> 1 then fail 0 BT_ATT_ERROR_INVALID_PDU
      else if pdu ! 0 \<noteq> 0x00 \<and> pdu ! 0 \<noteq> 0x01 then fail 0 BT_ATT_ERROR_INVALID_PDU
      else if pdu ! 0 = 0x00 then Some (s\<lparr>gs_prep_queue := []\<rparr>, [Sent BT_ATT_OP_EXEC_WRITE_RSP []])
      else
        case (if length (gs_prep_queue s) > 1 then find find_no_reliable_characteristic (gs_prep_queue s) else None) of
          Some d \<Rightarrow> fail (pw_handle d) BT_ATT_ERROR_REQUEST_NOT_SUPPORTED
        | None \<Rightarrow> exec_next_prep_write e (gs_prep_queue s) 0 0 s)"

section \<open>MTU, notifications, indications\<close>

definition set_att_mtu :: "env \<Rightarrow> u16 \<Rightarrow> bt_gatt_server \<Rightarrow> bt_gatt_server" where
  "set_att_mtu e mtu s = (if mtu < BT_ATT_DEFAULT_LE_MTU \<or> \<not> e_mem e then s else s\<lparr>gs_att_mtu := mtu\<rparr>)"

definition exchange_mtu_cb :: "env \<Rightarrow> u8 \<Rightarrow> u8 list \<Rightarrow> bt_gatt_server \<Rightarrow> action" where
  "exchange_mtu_cb e opcode pdu s =
     (if length pdu \<noteq> 2 then Some (s, bt_att_send_error_rsp opcode 0 BT_ATT_ERROR_INVALID_PDU)
      else do {
        client_rx_mtu \<leftarrow> get_le16 pdu 0;
        let final_mtu = max (min client_rx_mtu (gs_mtu s)) BT_ATT_DEFAULT_LE_MTU;
        Some (set_att_mtu e final_mtu (s\<lparr>gs_mtu := final_mtu\<rparr>), [Sent BT_ATT_OP_MTU_RSP (le16 (gs_mtu s))]) })"

text \<open>The PDU of a notification or an indication.\<close>

definition handle_value_pdu :: "env \<Rightarrow> u16 \<Rightarrow> u8 list \<Rightarrow> bt_gatt_server \<Rightarrow> u8 list option" where
  "handle_value_pdu e handle val s =
     (let pdu_len = min (unat (gs_att_mtu s) - 1) (length val + 2)
      in do { pdu \<leftarrow> put_le16 handle (rsp_buffer e pdu_len) 0;
              v \<leftarrow> read_range val 0 (pdu_len - 2);
              write_range pdu 2 v })"

definition bt_gatt_server_send_notification :: "env \<Rightarrow> u16 \<Rightarrow> u8 list \<Rightarrow> bt_gatt_server \<Rightarrow> att_out list option" where
  "bt_gatt_server_send_notification e handle val s =
     (if \<not> e_mem e then Some []
      else do { pdu \<leftarrow> handle_value_pdu e handle val s; Some [Sent BT_ATT_OP_HANDLE_VAL_NOT pdu] })"

definition bt_gatt_server_send_indication :: "env \<Rightarrow> u16 \<Rightarrow> u8 list \<Rightarrow> bt_gatt_server \<Rightarrow> att_out list option" where
  "bt_gatt_server_send_indication e handle val s =
     (if \<not> e_mem e then Some []
      else do { pdu \<leftarrow> handle_value_pdu e handle val s; Some [Sent BT_ATT_OP_HANDLE_VAL_IND pdu] })"

section \<open>The server\<close>

definition bt_gatt_server_new :: "gatt_db \<Rightarrow> u16 \<Rightarrow> u16 \<Rightarrow> int \<Rightarrow> u8 \<Rightarrow> u8 \<Rightarrow> bt_gatt_server" where
  "bt_gatt_server_new db att_mtu mtu security enc_size min_enc_size =
     \<lparr>gs_db = gatt_db_ref db, gs_mtu = max mtu BT_ATT_DEFAULT_LE_MTU, gs_att_mtu = att_mtu, gs_security = security,
      gs_enc_size = enc_size, gs_min_enc_size = min_enc_size, gs_prep_queue = [], gs_max_prep_queue_len = DEFAULT_MAX_PREP_QUEUE_LEN,
      gs_pending_read_op = 0, gs_pending_write_op = 0, gs_ops = (\<lambda>_. None), gs_next_op = 1\<rparr>"

text \<open>The handler that \<open>gatt_server_register_att_handlers\<close> registers for an opcode.\<close>

definition att_handler :: "u8 \<Rightarrow> (env \<Rightarrow> u8 \<Rightarrow> u8 list \<Rightarrow> bt_gatt_server \<Rightarrow> action) option" where
  "att_handler opcode =
     (if opcode = BT_ATT_OP_MTU_REQ then Some exchange_mtu_cb
      else if opcode = BT_ATT_OP_READ_BY_GRP_TYPE_REQ then Some read_by_grp_type_cb
      else if opcode = BT_ATT_OP_READ_BY_TYPE_REQ then Some read_by_type_cb
      else if opcode = BT_ATT_OP_FIND_INFO_REQ then Some find_info_cb
      else if opcode = BT_ATT_OP_FIND_BY_TYPE_REQ then Some find_by_type_val_cb
      else if opcode = BT_ATT_OP_WRITE_REQ then Some write_cb
      else if opcode = BT_ATT_OP_WRITE_CMD then Some write_cb
      else if opcode = BT_ATT_OP_READ_REQ then Some read_cb
      else if opcode = BT_ATT_OP_READ_BLOB_REQ then Some read_blob_cb
      else if opcode = BT_ATT_OP_READ_MULT_REQ then Some read_multiple_cb
      else if opcode = BT_ATT_OP_PREP_WRITE_REQ then Some prep_write_cb
      else if opcode = BT_ATT_OP_EXEC_WRITE_REQ then Some exec_write_cb
      else None)"

text \<open>
  A callback of the database: the answer of the application, a timeout or the end of an attribute has come for a request that was left waiting.
\<close>

definition server_callback :: "env \<Rightarrow> db_event \<Rightarrow> bt_gatt_server \<Rightarrow> action" where
  "server_callback e ev s =
     (case ev of
        Read_done fn r err val p \<Rightarrow>
          if fn = read_by_type_fn then
            (case gs_ops s p of
               Some (Read_op op) \<Rightarrow>
                 do { x \<leftarrow> read_by_type_read_complete_cb s op r err val;
                      case x of
                        Inl out \<Rightarrow> Some (async_read_op_destroy p s, out)
                      | Inr op \<Rightarrow> process_read_by_type e p op (ro_db_data op) s }
             | _ \<Rightarrow> None)
          else if fn = read_fn then
            (case gs_ops s p of Some (Read_op op) \<Rightarrow> read_complete_cb p op r err val s | _ \<Rightarrow> None)
          else if fn = read_multiple_fn then
            (case gs_ops s p of
               Some (Mult_op d) \<Rightarrow> read_multiple_complete_cb e p d (drop (rm_cur_handle d + 1) (rm_handles d)) r err val s
             | _ \<Rightarrow> None)
          else if fn = attribute_read_fn \<or> fn = ext_prop_fn then None
          else Some (s, [App ev])
      | Write_done fn r err p \<Rightarrow>
          if fn = write_fn then (case gs_ops s p of Some (Write_op opcode) \<Rightarrow> write_complete_cb p opcode r err s | _ \<Rightarrow> None)
          else if fn = prep_write_fn then (case gs_ops s p of Some (Prep_op pdu) \<Rightarrow> prep_write_complete_cb e p pdu err s | _ \<Rightarrow> None)
          else if fn = exec_write_fn then exec_write_complete_cb e r err s
          else Some (s, [App ev])
      | _ \<Rightarrow> Some (s, [App ev]))"

end
