(* ===== verification/GattDbInv.thy ===== *)
theory GattDbInv
  imports GattDbAccess
begin

text \<open>
  The invariant of the attribute database of \<open>src/src/bt/btgatt_server/src/shared/gatt-db.c\<close>, and that every operation runs without undefined behaviour on a
  well-formed database and leaves it well formed.
\<close>

section \<open>Well-formed services and databases\<close>

text \<open>An attribute: its UUID is set and the stored block holds at least \<open>value_len\<close> bytes.\<close>

definition attr_ok :: "gatt_db_attribute \<Rightarrow> bool" where
  "attr_ok a = (uuid_wf (a_uuid a) \<and>
     (case a_value a of None \<Rightarrow> a_value_len a = 0 | Some v \<Rightarrow> unat (a_value_len a) \<le> length v))"

text \<open>A service declaration: its type, its value is a 16- or 128-bit UUID, and it can only be read.\<close>

definition decl_ok :: "gatt_db_attribute \<Rightarrow> bool" where
  "decl_ok a = (a_uuid a \<in> {primary_service_uuid, secondary_service_uuid} \<and> a_value_len a \<in> {2, 16} \<and>
     (\<exists>v. a_value a = Some v \<and> length v = unat (a_value_len a)) \<and> a_handle a \<noteq> 0 \<and> a_read_func a = 0 \<and> a_write_func a = 0 \<and>
     a_permissions a = BT_ATT_PERM_READ)"

text \<open>The first \<open>k\<close> slots of a service are used.\<close>

definition filled :: "gatt_db_service \<Rightarrow> nat \<Rightarrow> bool" where
  "filled S k = (1 \<le> k \<and> k \<le> length (s_attributes S) \<and>
     (\<forall>i < length (s_attributes S). s_attributes S ! i \<noteq> None \<longleftrightarrow> i < k))"

definition svc_ok :: "gatt_db_service \<Rightarrow> bool" where
  "svc_ok S = (length (s_attributes S) = unat (s_num_handles S) \<and> (\<exists>k. filled S k) \<and>
     (\<forall>i a. attr S i = Some a \<longrightarrow> attr_ok a) \<and> (\<forall>a. attr S 0 = Some a \<longrightarrow> decl_ok a \<and> unat (a_handle a) + unat (s_num_handles S) \<le> 2 ^ 16))"

text \<open>The range of handles of a service.\<close>

definition svc_start :: "gatt_db_service \<Rightarrow> nat" where
  "svc_start S = (case attr S 0 of None \<Rightarrow> 0 | Some a \<Rightarrow> unat (a_handle a))"

definition svc_last :: "gatt_db_service \<Rightarrow> nat" where
  "svc_last S = svc_start S + unat (s_num_handles S) - 1"

definition db_ok :: "gatt_db \<Rightarrow> bool" where
  "db_ok db = (distinct (db_services db) \<and> set (db_services db) = dom (db_svc db) \<and> 0 < db_next_ptr db \<and>
     (\<forall>s \<in> dom (db_svc db). s \<noteq> 0 \<and> s < db_next_ptr db) \<and> (\<forall>s S. db_svc db s = Some S \<longrightarrow> svc_ok S) \<and>
     (\<forall>n \<in> set (db_notify_list db). n_service_added n \<noteq> 0 \<and> n_service_removed n \<noteq> 0))"

lemma attr_nth: "attr S i = (if i < length (s_attributes S) then s_attributes S ! i else None)"
  by (simp add: attr_def slot_def)

lemma svc_okD:
  assumes "svc_ok S"
  obtains a where "attr S 0 = Some a" "decl_ok a" "attr_ok a" "unat (a_handle a) + unat (s_num_handles S) \<le> 2 ^ 16"
    "0 < unat (s_num_handles S)" "svc_start S = unat (a_handle a)" "svc_last S = unat (a_handle a) + unat (s_num_handles S) - 1"
proof -
  obtain k where k: "filled S k" using assms by (auto simp: svc_ok_def)
  then have "attr S 0 \<noteq> None" by (auto simp: filled_def attr_nth)
  then obtain a where a: "attr S 0 = Some a" by auto
  have "0 < unat (s_num_handles S)" using k assms by (auto simp: filled_def svc_ok_def)
  then show ?thesis using that[OF a] a assms by (auto simp: svc_ok_def svc_start_def svc_last_def)
qed

lemma svc_ok_length: "svc_ok S \<Longrightarrow> length (s_attributes S) = unat (s_num_handles S)"
  by (simp add: svc_ok_def)

lemma svc_ok_slot: "svc_ok S \<Longrightarrow> i < unat (s_num_handles S) \<Longrightarrow> slot S i = Some (s_attributes S ! i)"
  by (simp add: slot_def svc_ok_length)

lemma svc_ok_attr_ok: "svc_ok S \<Longrightarrow> attr S i = Some a \<Longrightarrow> attr_ok a"
  by (auto simp: svc_ok_def)

lemma get_handles_ok:
  assumes "svc_ok S"
  obtains e where "gatt_db_service_get_handles S = Some (of_nat (svc_start S), e)" "unat e = svc_last S"
    "svc_start S < 2 ^ 16" "svc_last S < 2 ^ 16" "1 \<le> svc_start S" "svc_start S \<le> svc_last S"
proof -
  obtain a where a: "attr S 0 = Some a" "decl_ok a" "unat (a_handle a) + unat (s_num_handles S) \<le> 2 ^ 16"
    "0 < unat (s_num_handles S)" "svc_start S = unat (a_handle a)" "svc_last S = unat (a_handle a) + unat (s_num_handles S) - 1"
    using svc_okD[OF assms] by metis
  have eq: "a_handle a + s_num_handles S - 1 = of_nat (unat (a_handle a) + unat (s_num_handles S) - 1)"
    using a(4) by (simp add: of_nat_diff)
  have u: "unat (a_handle a + s_num_handles S - 1) = svc_last S" unfolding eq unat_of_nat using a by simp
  have "1 \<le> unat (a_handle a)" using a(2) by (auto simp: decl_ok_def unat_gt_0 Suc_le_eq)
  moreover have "unat (a_handle a) < 2 ^ LENGTH(16)" by (rule unsigned_less)
  ultimately show ?thesis using that[of "a_handle a + s_num_handles S - 1"] a u by (simp add: gatt_db_service_get_handles_def)
qed

section \<open>Local changes\<close>

text \<open>An operation on the attributes of one service keeps its range.\<close>

definition svc_same :: "gatt_db_service \<Rightarrow> gatt_db_service \<Rightarrow> bool" where
  "svc_same S S' = (svc_start S' = svc_start S \<and> s_num_handles S' = s_num_handles S)"

lemma db_ok_put:
  assumes "db_ok db" and "db_svc db s = Some S" and "svc_ok S'"
  shows "db_ok (put_service db s (Some S'))"
  using assms by (auto simp: db_ok_def put_service_def)

lemma db_okD: "db_ok db \<Longrightarrow> db_svc db s = Some S \<Longrightarrow> svc_ok S"
  by (auto simp: db_ok_def)

lemma set_slot_ok:
  assumes "svc_ok S" and "filled S k" and "i \<noteq> 0" and "i \<le> k" and "i < unat (s_num_handles S)" and "attr_ok a"
  shows "\<exists>S'. set_slot S i (Some a) = Some S' \<and> svc_ok S' \<and> svc_same S S' \<and> filled S' (max k (i + 1)) \<and>
    (\<forall>j. attr S' j = (if j = i then Some a else attr S j)) \<and> s_active S' = s_active S"
proof -
  let ?S = "S\<lparr>s_attributes := (s_attributes S)[i := Some a]\<rparr>"
  have at: "attr ?S j = (if j = i then Some a else attr S j)" for j
    using assms(5) svc_ok_length[OF assms(1)] by (auto simp: attr_nth nth_list_update)
  have f: "filled ?S (max k (i + 1))"
    using assms svc_ok_length[OF assms(1)] by (auto simp: filled_def nth_list_update less_max_iff_disj)
  have "svc_ok ?S" unfolding svc_ok_def at using assms f by (auto simp: svc_ok_def)
  moreover have "svc_same S ?S" using assms(3) by (simp add: svc_same_def svc_start_def at)
  moreover have "set_slot S i (Some a) = Some ?S" using assms(5) svc_ok_length[OF assms(1)] by (simp add: set_slot_def)
  ultimately show ?thesis using f at by auto
qed

lemma set_decl_ok:
  assumes "svc_ok S" and "attr S 0 = Some b" and "attr_ok a" and "decl_ok a" and "a_handle a = a_handle b"
  shows "\<exists>S'. set_slot S 0 (Some a) = Some S' \<and> svc_ok S' \<and> svc_same S S' \<and> (\<forall>j. attr S' j = (if j = 0 then Some a else attr S j)) \<and>
    s_active S' = s_active S"
proof -
  let ?S = "S\<lparr>s_attributes := (s_attributes S)[0 := Some a]\<rparr>"
  have l: "0 < length (s_attributes S)" using assms(2) by (auto simp: attr_nth split: if_splits)
  have at: "attr ?S j = (if j = 0 then Some a else attr S j)" for j
    using l by (auto simp: attr_nth nth_list_update)
  obtain k where k: "filled S k" using assms(1) by (auto simp: svc_ok_def)
  have "filled ?S k" using k l by (auto simp: filled_def nth_list_update)
  then have "svc_ok ?S" unfolding svc_ok_def at using assms k by (auto simp: svc_ok_def)
  moreover have "svc_same S ?S" using assms(2,5) by (simp add: svc_same_def svc_start_def at)
  moreover have "set_slot S 0 (Some a) = Some ?S" using l by (simp add: set_slot_def)
  ultimately show ?thesis using at by auto
qed

text \<open>A change of an attribute that is in its slot already.\<close>

lemma put_attr_ok:
  assumes "db_ok db" and "attr_at db r = Some a" and "attr_ok a'" and "snd r = 0 \<longrightarrow> decl_ok a' \<and> a_handle a' = a_handle a"
  obtains S S' where "db_svc db (fst r) = Some S" "svc_ok S'" "svc_same S S'" "put_attr db r a' = Some (put_service db (fst r) (Some S'))"
    "\<And>j. attr S' j = (if j = snd r then Some a' else attr S j)" "s_active S' = s_active S"
proof -
  obtain S where S: "db_svc db (fst r) = Some S" "attr S (snd r) = Some a" using assms(2) by (auto simp: attr_at_def bind_eq_Some_conv)
  note ok = db_okD[OF assms(1) S(1)]
  obtain k where k: "filled S k" using ok by (auto simp: svc_ok_def)
  have i: "snd r < length (s_attributes S)" "snd r < k" using S(2) k by (auto simp: attr_nth filled_def split: if_splits)
  show ?thesis
  proof (cases "snd r = 0")
    case True
    then show ?thesis using set_decl_ok[OF ok, of a a'] that S assms(3,4) by (auto simp: put_attr_def)
  next
    case False
    obtain S' where S': "set_slot S (snd r) (Some a') = Some S'" "svc_ok S'" "svc_same S S'" "s_active S' = s_active S"
      "\<forall>j. attr S' j = (if j = snd r then Some a' else attr S j)"
      using set_slot_ok[OF ok k False _ _ assms(3)] i svc_ok_length[OF ok] by auto
    show ?thesis by (rule that[OF S(1) S'(2,3)]) (use S S' in \<open>auto simp: put_attr_def\<close>)
  qed
qed

section \<open>Adding attributes\<close>

lemma put_service_same: "db_svc db s = Some S \<Longrightarrow> put_service db s (Some S) = db"
  by (cases db) (simp add: put_service_def fun_upd_idem)

declare free_index.simps [simp del]

lemma free_index_filled:
  assumes "svc_ok S" and "filled S k" and "limit \<le> unat (s_num_handles S)"
  shows "i \<le> min k limit \<Longrightarrow> free_index S limit i = Some (min k limit)"
proof (induction "limit - i" arbitrary: i)
  case 0
  then show ?case by (subst free_index.simps) auto
next
  case (Suc d)
  then have i: "i < limit" "i < length (s_attributes S)" using assms(1,3) by (auto simp: svc_ok_length)
  show ?case
  proof (cases "i = k")
    case True
    then have "slot S i = Some None" using i assms(2) by (auto simp: slot_def filled_def)
    then show ?thesis using i True by (subst free_index.simps) simp
  next
    case False
    then obtain a where "slot S i = Some (Some a)" using i Suc.prems assms(2) by (fastforce simp: slot_def filled_def)
    then show ?thesis using i False Suc.hyps(1)[of "i + 1"] Suc.hyps(2) Suc.prems by (subst free_index.simps) simp
  qed
qed

lemma get_attribute_index_filled:
  assumes "svc_ok S" and "filled S k"
  shows "get_attribute_index S off = Some (if k < unat (s_num_handles S) - off then k else 0)"
  using free_index_filled[OF assms, of "unat (s_num_handles S) - off" 0] by (auto simp: get_attribute_index_def Let_def min_def)

lemma set_slot_free:
  assumes "svc_ok S" and "filled S k" and "k < unat (s_num_handles S)"
  shows "set_slot S k None = Some S"
proof -
  have "s_attributes S ! k = None" using assms svc_ok_length[OF assms(1)] by (auto simp: filled_def)
  then have "(s_attributes S)[k := None] = s_attributes S" using list_update_id[of "s_attributes S" k] by simp
  then show ?thesis using assms(3) svc_ok_length[OF assms(1)] by (simp add: set_slot_def)
qed

lemma uuid_to_le_ok:
  assumes "uuid_wf u"
  obtains v where "uuid_to_le u = Some v" "length v = (case u of BT_UUID16 _ \<Rightarrow> 2 | _ \<Rightarrow> 16)"
    "v = (case u of BT_UUID16 w \<Rightarrow> le16 w | _ \<Rightarrow> rev (canonical u))"
proof (cases u)
  case (BT_UUID16 w)
  then show ?thesis using that[of "le16 w"] by (simp add: uuid_to_le_def le16_def)
next
  case (BT_UUID32 w)
  then show ?thesis using that[of "rev (canonical u)"] to_uuid128_canonical[of u] length_canonical[of u] assms
    by (auto simp: uuid_to_le_def bswap_128_def read_range_def simp del: bt_uuid_to_uuid128.simps)
next
  case (BT_UUID128 w)
  then show ?thesis using that[of "rev (canonical u)"] to_uuid128_canonical[of u] length_canonical[of u] assms
    by (auto simp: uuid_to_le_def bswap_128_def read_range_def simp del: bt_uuid_to_uuid128.simps)
qed (use assms in auto)

text \<open>A fresh attribute with a value of less than \<open>2 ^ 16\<close> bytes.\<close>

definition fresh_attr :: "u16 \<Rightarrow> bt_uuid_t \<Rightarrow> u8 list \<Rightarrow> gatt_db_attribute" where
  "fresh_attr handle type val =
     \<lparr>a_handle = handle, a_uuid = type, a_permissions = 0, a_value_len = of_nat (length val),
      a_value = (if val = [] then None else Some val), a_read_func = 0, a_write_func = 0, a_user_data = 0, a_read_id = 0,
      a_pending_reads = [], a_write_id = 0, a_pending_writes = []\<rparr>"

lemma new_attribute_eq:
  assumes "length val < 2 ^ 16"
  shows "new_attribute mem handle type val (of_nat (length val)) =
    Some (if val = [] \<or> mem then Some (fresh_attr handle type val) else None)"
proof -
  have u: "unat (of_nat (length val) :: u16) = length val" using assms by (simp add: unat_of_nat)
  have z: "(of_nat (length val) :: u16) = 0 \<longleftrightarrow> val = []"
  proof -
    have "unat (of_nat (length val) :: u16) = 0 \<longleftrightarrow> (of_nat (length val) :: u16) = 0" by (rule unsigned_eq_0_iff)
    then show ?thesis using u by simp
  qed
  show ?thesis using u z by (cases "val = []") (simp_all add: new_attribute_def fresh_attr_def read_range_def)
qed

lemma new_attribute_empty [simp]: "new_attribute mem handle type [] 0 = Some (Some (fresh_attr handle type []))"
  using new_attribute_eq[of "[]" mem handle type] by simp

lemma fresh_attr_ok: "uuid_wf type \<Longrightarrow> length val < 2 ^ 16 \<Longrightarrow> attr_ok (set_attribute_data (fresh_attr handle type val) rdf wrf perm ud)"
  by (simp add: attr_ok_def fresh_attr_def set_attribute_data_def unat_of_nat)

lemma fixed_uuids_wf [simp]:
  "uuid_wf primary_service_uuid" "uuid_wf secondary_service_uuid" "uuid_wf characteristic_uuid" "uuid_wf included_service_uuid"
  by (simp_all add: primary_service_uuid_def secondary_service_uuid_def characteristic_uuid_def included_service_uuid_def)

text \<open>The declaration and the value that a new characteristic puts into its two slots.\<close>

definition char_decl :: "u16 \<Rightarrow> u8 \<Rightarrow> u8 list \<Rightarrow> gatt_db_attribute" where
  "char_decl handle properties v =
     set_attribute_data (fresh_attr (handle - 1) characteristic_uuid (properties # le16 handle @ v)) 0 0 BT_ATT_PERM_READ 0"

lemma service_insert_characteristic_cases:
  assumes db: "db_ok db" and S: "db_svc db s = Some S" and u: "uuid_wf uuid"
  obtains (refused) "service_insert_characteristic mem db s handle uuid perm props rdf wrf ud = Some (None, db)"
  | (added) S' k h v where "filled S k" "k + 1 < unat (s_num_handles S)" "mem"
      "h = (if handle = 0 then a_handle (the (attr S (k - 1))) + 2 else handle)" "uuid_to_le uuid = Some v"
      "service_insert_characteristic mem db s handle uuid perm props rdf wrf ud = Some (Some (s, k + 1), put_service db s (Some S'))"
      "svc_ok S'" "svc_same S S'" "s_active S' = s_active S"
      "\<And>j. attr S' j = (if j = k + 1 then Some (set_attribute_data (fresh_attr h uuid []) rdf wrf perm ud)
         else if j = k then Some (char_decl h props v) else attr S j)"
proof -
  note ok = db_okD[OF db S]
  obtain k where k: "filled S k" using ok by (auto simp: svc_ok_def)
  obtain a0 where a0: "attr S 0 = Some a0" using svc_okD[OF ok] by metis
  note idx = get_attribute_index_filled[OF ok k, of 1]
  obtain v where v: "uuid_to_le uuid = Some v" "length v \<le> 16" 
    by (rule uuid_to_le_ok[OF u]) (auto split: bt_uuid_t.splits)
  show ?thesis
  proof (cases "handle \<noteq> 0 \<and> handle \<le> a_handle a0 \<or> handle = 0xFFFF \<or> \<not> k + 1 < unat (s_num_handles S)")
    case True
    then have "service_insert_characteristic mem db s handle uuid perm props rdf wrf ud = Some (None, db)"
      using S a0 idx by (auto simp: service_insert_characteristic_def)
    then show ?thesis by (rule refused)
  next
    case False
    define h where "h = (if handle = 0 then a_handle (the (attr S (k - 1))) + 2 else handle)"
    have n: "k < unat (s_num_handles S)" "k + 1 < unat (s_num_handles S)" "1 \<le> k" using False k by (auto simp: filled_def)
    have "attr S (k - 1) \<noteq> None" using k n svc_ok_length[OF ok] by (auto simp: filled_def attr_nth)
    then have h: "(if handle = 0 then do { h \<leftarrow> get_handle_at_index S (k - 1); Some (h + 2) } else Some handle) = Some h"
      by (auto simp: h_def get_handle_at_index_def)
    let ?v = "props # le16 h @ v"
    have nv: "new_attribute mem (h - 1) characteristic_uuid ?v (of_nat (length ?v)) =
        Some (if mem then Some (fresh_attr (h - 1) characteristic_uuid ?v) else None)"
      by (subst new_attribute_eq) (use v(2) in \<open>auto simp: le16_def\<close>)
    have ev: "service_insert_characteristic mem db s handle uuid perm props rdf wrf ud =
      (if mem then do { S \<leftarrow> set_slot S k (Some (char_decl h props v));
           S \<leftarrow> set_slot S (k + 1) (Some (set_attribute_data (fresh_attr h uuid []) rdf wrf perm ud));
           Some (Some (s, k + 1), put_service db s (Some S)) }
       else do { S \<leftarrow> set_slot S k None; Some (None, put_service db s (Some S)) })"
    proof -
      have idx': "get_attribute_index S 1 = Some k" using idx n by simp
      have g: "(handle \<noteq> 0 \<and> handle \<le> a_handle a0) = False" "(handle = 0xFFFF) = False" "(k = 0) = False" using False n by auto
      show ?thesis
        unfolding service_insert_characteristic_def S a0 idx' bind.simps g if_False h v(1) Let_def nv
        by (simp add: char_decl_def)
    qed
    show ?thesis
    proof (cases mem)
      case True
      have "attr_ok (char_decl h props v)" unfolding char_decl_def
        by (rule fresh_attr_ok) (use v(2) in \<open>auto simp: le16_def\<close>)
      from set_slot_ok[OF ok k _ _ n(1) this] n obtain S1 where S1: "set_slot S k (Some (char_decl h props v)) = Some S1" "svc_ok S1"
        "svc_same S S1" "filled S1 (k + 1)" "\<forall>j. attr S1 j = (if j = k then Some (char_decl h props v) else attr S j)" "s_active S1 = s_active S"
        by auto
      have "attr_ok (set_attribute_data (fresh_attr h uuid []) rdf wrf perm ud)" by (rule fresh_attr_ok) (use u in auto)
      from set_slot_ok[OF S1(2,4) _ _ _ this, of "k + 1"] n S1(3) obtain S2 where S2:
        "set_slot S1 (k + 1) (Some (set_attribute_data (fresh_attr h uuid []) rdf wrf perm ud)) = Some S2" "svc_ok S2" "svc_same S1 S2"
        "\<forall>j. attr S2 j = (if j = k + 1 then Some (set_attribute_data (fresh_attr h uuid []) rdf wrf perm ud) else attr S1 j)"
        "s_active S2 = s_active S1"
        by (auto simp: svc_same_def)
      show ?thesis
        by (rule added[where S' = S2, OF k n(2) True h_def v(1)]) (use ev True S1 S2 in \<open>auto simp: svc_same_def\<close>)
    next
      case no: False
      show ?thesis using refused ev no put_service_same[OF S] set_slot_free[OF ok k n(1)] by simp
    qed
  qed
qed


lemma service_insert_descriptor_cases:
  assumes db: "db_ok db" and S: "db_svc db s = Some S" and u: "uuid_wf uuid"
  obtains (refused) "service_insert_descriptor mem db s handle uuid perm rdf wrf ud = Some (None, db)"
  | (added) S' k h where "filled S k" "k < unat (s_num_handles S)"
      "h = (if handle = 0 then a_handle (the (attr S (k - 1))) + 1 else handle)"
      "service_insert_descriptor mem db s handle uuid perm rdf wrf ud = Some (Some (s, k), put_service db s (Some S'))"
      "svc_ok S'" "svc_same S S'" "s_active S' = s_active S"
      "\<And>j. attr S' j = (if j = k then Some (set_attribute_data (fresh_attr h uuid []) rdf wrf perm ud) else attr S j)"
proof -
  note ok = db_okD[OF db S]
  obtain k where k: "filled S k" using ok by (auto simp: svc_ok_def)
  obtain a0 where a0: "attr S 0 = Some a0" using svc_okD[OF ok] by metis
  note idx = get_attribute_index_filled[OF ok k, of 0]
  show ?thesis
  proof (cases "handle \<noteq> 0 \<and> handle \<le> a_handle a0 \<or> \<not> k < unat (s_num_handles S)")
    case True
    then have "service_insert_descriptor mem db s handle uuid perm rdf wrf ud = Some (None, db)"
      using S a0 idx by (auto simp: service_insert_descriptor_def)
    then show ?thesis by (rule refused)
  next
    case False
    define h where "h = (if handle = 0 then a_handle (the (attr S (k - 1))) + 1 else handle)"
    have n: "k < unat (s_num_handles S)" "1 \<le> k" using False k by (auto simp: filled_def)
    have "attr S (k - 1) \<noteq> None" using k n svc_ok_length[OF ok] by (auto simp: filled_def attr_nth)
    then have h: "(if handle = 0 then do { h \<leftarrow> get_handle_at_index S (k - 1); Some (h + 1) } else Some handle) = Some h"
      by (auto simp: h_def get_handle_at_index_def)
    have idx': "get_attribute_index S 0 = Some k" using idx n by simp
    have g: "(handle \<noteq> 0 \<and> handle \<le> a_handle a0) = False" "(k = 0) = False" using False n by auto
    have ev: "service_insert_descriptor mem db s handle uuid perm rdf wrf ud =
      do { S \<leftarrow> set_slot S k (Some (set_attribute_data (fresh_attr h uuid []) rdf wrf perm ud)); Some (Some (s, k), put_service db s (Some S)) }"
      unfolding service_insert_descriptor_def S a0 idx' bind.simps g if_False h by simp
    have "attr_ok (set_attribute_data (fresh_attr h uuid []) rdf wrf perm ud)" by (rule fresh_attr_ok) (use u in auto)
    from set_slot_ok[OF ok k _ _ n(1) this] n obtain S' where S': "set_slot S k (Some (set_attribute_data (fresh_attr h uuid []) rdf wrf perm ud)) = Some S'"
      "svc_ok S'" "svc_same S S'" "\<forall>j. attr S' j = (if j = k then Some (set_attribute_data (fresh_attr h uuid []) rdf wrf perm ud) else attr S j)"
      "s_active S' = s_active S"
      by auto
    show ?thesis by (rule added[where S' = S', OF k n(1) h_def]) (use ev S' in auto)
  qed
qed

text \<open>The value of an include declaration: the range of the included service, and its UUID when that is a 16-bit one.\<close>

definition incl_value :: "gatt_db_service \<Rightarrow> u8 list" where
  "incl_value I = (let a = the (attr I 0) in le16 (a_handle a) @ le16 (a_handle a + s_num_handles I - 1) @
     (if a_value_len a = 2 then the (a_value a) else []))"

lemma service_insert_included_cases:
  assumes db: "db_ok db" and S: "db_svc db s = Some S" and inc: "attr_at db r = Some x" and I: "db_svc db (fst r) = Some I"
  obtains (refused) "service_insert_included mem db s handle r = Some (None, db)"
  | (added) S' k where "filled S k" "k < unat (s_num_handles S)" "mem"
      "service_insert_included mem db s handle r = Some (Some (s, k), put_service db s (Some S'))"
      "svc_ok S'" "svc_same S S'" "s_active S' = s_active S"
      "\<And>j. attr S' j = (if j = k then Some (set_attribute_data (fresh_attr (a_handle (the (attr S (k - 1))) + 1) included_service_uuid
         (incl_value I)) 0 0 BT_ATT_PERM_READ 0) else attr S j)"
proof -
  note ok = db_okD[OF db S] and okI = db_okD[OF db I]
  obtain k where k: "filled S k" using ok by (auto simp: svc_ok_def)
  obtain a0 where a0: "attr S 0 = Some a0" using svc_okD[OF ok] by metis
  obtain i0 where i0: "attr I 0 = Some i0" "decl_ok i0" using svc_okD[OF okI] by metis
  obtain w where w: "a_value i0 = Some w" "length w = unat (a_value_len i0)" using i0(2) by (auto simp: decl_ok_def)
  note idx = get_attribute_index_filled[OF ok k, of 0]
  let ?b = "le16 (a_handle i0) @ le16 (a_handle i0 + s_num_handles I - 1)"
  have val: "(if a_value_len i0 = 2 then do { v \<leftarrow> a_value i0; b \<leftarrow> read_range v 0 2; Some (?b @ b) } else Some ?b) = Some (incl_value I)"
    using w by (simp add: incl_value_def i0 read_range_def)
  have len: "length (incl_value I) < 2 ^ 16" "incl_value I \<noteq> []" using w by (auto simp: incl_value_def i0 le16_def)
  show ?thesis
  proof (cases "handle \<noteq> 0 \<and> handle \<le> a_handle a0 \<or> \<not> k < unat (s_num_handles S)")
    case True
    then have "service_insert_included mem db s handle r = Some (None, db)"
      unfolding service_insert_included_def inc I i0(1) bind.simps Let_def val S idx by (auto simp: a0)
    then show ?thesis by (rule refused)
  next
    case False
    let ?p = "a_handle (the (attr S (k - 1))) + 1"
    let ?h = "if handle = 0 then ?p else handle"
    let ?a = "\<lambda>h. set_attribute_data (fresh_attr h included_service_uuid (incl_value I)) 0 0 BT_ATT_PERM_READ 0"
    have n: "k < unat (s_num_handles S)" "1 \<le> k" using False k by (auto simp: filled_def)
    obtain q where q: "attr S (k - 1) = Some q" using k n svc_ok_length[OF ok] by (fastforce simp: filled_def attr_nth)
    then have h: "(if handle = 0 then do { h \<leftarrow> get_handle_at_index S (k - 1); Some (h + 1) } else Some handle) = Some ?h"
      by (auto simp: get_handle_at_index_def)
    have idx': "get_attribute_index S 0 = Some k" using idx n by simp
    have g: "(handle \<noteq> 0 \<and> handle \<le> a_handle a0) = False" "(k = 0) = False" using False n by auto
    have nv: "new_attribute mem ?h included_service_uuid (incl_value I) (of_nat (length (incl_value I))) =
        Some (if mem then Some (fresh_attr ?h included_service_uuid (incl_value I)) else None)"
      by (subst new_attribute_eq) (use len in auto)
    have ev: "service_insert_included mem db s handle r =
      (if mem then do { S \<leftarrow> set_slot S k (Some (?a ?h)); S \<leftarrow> attribute_update S k; Some (Some (s, k), put_service db s (Some S)) }
       else do { S \<leftarrow> set_slot S k None; Some (None, put_service db s (Some S)) })"
      unfolding service_insert_included_def inc I i0(1) bind.simps Let_def val S idx' a0 g if_False h nv by simp
    show ?thesis
    proof (cases mem)
      case True
      have aok: "attr_ok (?a h)" for h by (rule fresh_attr_ok) (use len in auto)
      from set_slot_ok[OF ok k _ _ n(1) aok] n obtain S1 where S1: "set_slot S k (Some (?a ?h)) = Some S1" "svc_ok S1"
        "svc_same S S1" "filled S1 (k + 1)" "\<forall>j. attr S1 j = (if j = k then Some (?a ?h) else attr S j)" "s_active S1 = s_active S"
        by auto
      from set_slot_ok[OF S1(2,4) _ _ _ aok[of ?p], of k] n S1(3) obtain S2 where S2: "set_slot S1 k (Some (?a ?p)) = Some S2" "svc_ok S2"
        "svc_same S1 S2" "\<forall>j. attr S2 j = (if j = k then Some (?a ?p) else attr S1 j)" "s_active S2 = s_active S1"
        by (auto simp: svc_same_def)
      have "attr S1 (k - 1) = Some q" "attr S1 k = Some (?a ?h)" using S1(5) q n by auto
      then have "attribute_update S1 k = Some S2"
        using S2(1) q by (simp add: attribute_update_def get_handle_at_index_def fresh_attr_def set_attribute_data_def)
      then show ?thesis by (intro added[where S' = S2, OF k n(1) True]) (use ev True S1 S2 in \<open>auto simp: svc_same_def\<close>)
    next
      case no: False
      show ?thesis using refused ev no put_service_same[OF S] set_slot_free[OF ok k n(1)] by simp
    qed
  qed
qed

section \<open>Services\<close>

lemma concat_opt_total:
  assumes "\<forall>x \<in> set xs. f x = Some (g x)"
  shows "concat_opt f xs = Some (concat (map g xs))"
  using assms by (induction xs) auto

lemma find_opt_total:
  assumes "\<forall>x \<in> set xs. P x = Some (Q x)"
  shows "find_opt P xs = Some (find Q xs)"
  using assms by (induction xs) auto

lemma filter_opt_total:
  assumes "\<forall>x \<in> set xs. P x = Some (Q x)"
  shows "filter_opt P xs = Some (filter Q xs)"
  using assms by (induction xs) auto

text \<open>The notifications and cancellations that the end of a service causes.\<close>

definition change_events :: "gatt_db \<Rightarrow> ptr \<Rightarrow> bool \<Rightarrow> db_event list" where
  "change_events db s added = map (\<lambda>n. if added then Service_added (n_service_added n) (s, 0) (n_user_data n)
     else Service_removed (n_service_removed n) (s, 0) (n_user_data n)) (db_notify_list db)"

definition end_events :: "gatt_db \<Rightarrow> ptr \<Rightarrow> db_event list" where
  "end_events db s = (case db_svc db s of None \<Rightarrow> [] | Some S \<Rightarrow>
     (if s_active S then change_events db s False else []) @
     concat (map (\<lambda>i. attribute_destroy (s, i) (s_attributes S ! i)) [0..<unat (s_num_handles S)]))"

lemma events_services [simp]:
  "change_events (db\<lparr>db_services := x\<rparr>) = change_events db" "end_events (db\<lparr>db_services := x\<rparr>) = end_events db"
  by (simp_all add: end_events_def change_events_def fun_eq_iff split: option.split)

lemma notify_service_changed_eq:
  assumes "\<forall>n \<in> set (db_notify_list db). n_service_added n \<noteq> 0 \<and> n_service_removed n \<noteq> 0"
  shows "notify_service_changed db s added = Some (change_events db s added)"
proof -
  have "\<forall>n \<in> set (db_notify_list db). handle_notify (s, 0) added n =
      Some [if added then Service_added (n_service_added n) (s, 0) (n_user_data n) else Service_removed (n_service_removed n) (s, 0) (n_user_data n)]"
    using assms by (auto simp: handle_notify_def)
  from concat_opt_total[OF this] show ?thesis
    by (simp add: notify_service_changed_def change_events_def)
qed

lemma service_destroy_eq:
  assumes "\<forall>n \<in> set (db_notify_list db). n_service_added n \<noteq> 0 \<and> n_service_removed n \<noteq> 0" and "db_svc db s = Some S" and "svc_ok S"
  shows "gatt_db_service_destroy db s = Some (put_service db s None, end_events db s)"
proof -
  have "\<forall>i \<in> set [0..<unat (s_num_handles S)]. map_option (attribute_destroy (s, i)) (slot S i) = Some (attribute_destroy (s, i) (s_attributes S ! i))"
    using svc_ok_slot[OF assms(3)] by simp
  from concat_opt_total[OF this] show ?thesis
    using assms(2) notify_service_changed_eq[OF assms(1), of s False] by (auto simp: gatt_db_service_destroy_def end_events_def)
qed

lemma destroy_services_eq:
  assumes "\<forall>n \<in> set (db_notify_list db). n_service_added n \<noteq> 0 \<and> n_service_removed n \<noteq> 0"
    and "\<forall>s S. db_svc db s = Some S \<longrightarrow> svc_ok S" and "set ss \<subseteq> dom (db_svc db)" and "distinct ss"
  shows "destroy_services db ss = Some (db\<lparr>db_svc := (\<lambda>s. if s \<in> set ss then None else db_svc db s)\<rparr>, concat (map (end_events db) ss))"
  using assms
proof (induction ss arbitrary: db)
  case (Cons s ss)
  then obtain S where S: "db_svc db s = Some S" by auto
  let ?db = "put_service db s None"
  have d: "gatt_db_service_destroy db s = Some (?db, end_events db s)"
    using service_destroy_eq[OF Cons.prems(1) S] Cons.prems(2) S by auto
  have "destroy_services ?db ss = Some (?db\<lparr>db_svc := (\<lambda>s. if s \<in> set ss then None else db_svc ?db s)\<rparr>, concat (map (end_events ?db) ss))"
    by (rule Cons.IH) (use Cons.prems in \<open>auto simp: put_service_def split: if_splits\<close>)
  moreover have "end_events ?db t = end_events db t" if "t \<in> set ss" for t
    using that Cons.prems(4) by (auto simp: end_events_def put_service_def change_events_def split: option.splits)
  then have "map (end_events ?db) ss = map (end_events db) ss" by simp
  moreover have "(\<lambda>t. if t \<in> set ss then None else db_svc ?db t) = (\<lambda>t. if t \<in> set (s # ss) then None else db_svc db t)"
    by (auto simp: put_service_def)
  moreover have "?db\<lparr>db_svc := m\<rparr> = db\<lparr>db_svc := m\<rparr>" for m by (simp add: put_service_def)
  ultimately show ?case using d by simp
qed simp

text \<open>Taking services off the queue and destroying them.\<close>

lemma db_ok_remove:
  assumes "db_ok db"
  shows "db_ok (db\<lparr>db_services := filter (\<lambda>s. s \<notin> X) (db_services db), db_svc := (\<lambda>s. if s \<in> X then None else db_svc db s)\<rparr>)"
  using assms by (auto simp: db_ok_def split: if_splits)

definition without :: "gatt_db \<Rightarrow> ptr set \<Rightarrow> gatt_db" where
  "without db X = db\<lparr>db_services := filter (\<lambda>s. s \<notin> X) (db_services db), db_svc := (\<lambda>s. if s \<in> X then None else db_svc db s)\<rparr>"

lemma remove_service_eq:
  assumes db: "db_ok db" and r: "attr_at db r = Some a"
  shows "gatt_db_remove_service db (Some r) = Some (True, without db {fst r}, end_events db (fst r))"
proof -
  obtain S where S: "db_svc db (fst r) = Some S" using r by (auto simp: attr_at_def bind_eq_Some_conv)
  let ?db = "db\<lparr>db_services := remove1 (fst r) (db_services db)\<rparr>"
  have "gatt_db_service_destroy ?db (fst r) = Some (put_service ?db (fst r) None, end_events ?db (fst r))"
    by (rule service_destroy_eq) (use db S in \<open>auto simp: db_ok_def\<close>)
  moreover have "remove1 (fst r) (db_services db) = filter (\<lambda>s. s \<notin> {fst r}) (db_services db)"
    using db by (simp add: db_ok_def distinct_remove1_removeAll removeAll_filter_not_eq) metis
  moreover have "(db_svc db)(fst r := None) = (\<lambda>s. if s \<in> {fst r} then None else db_svc db s)" by auto
  ultimately show ?thesis using r by (simp add: gatt_db_remove_service_def put_service_def without_def)
qed

text \<open>The services whose range meets a range of handles.\<close>

definition meets :: "gatt_db \<Rightarrow> nat \<Rightarrow> nat \<Rightarrow> ptr \<Rightarrow> bool" where
  "meets db a b s = (case db_svc db s of None \<Rightarrow> False | Some S \<Rightarrow> svc_start S \<le> b \<and> a \<le> svc_last S)"

lemma match_range_eq:
  assumes "db_ok db" and "s \<in> set (db_services db)"
  shows "match_range db a b s = Some (meets db (unat a) (unat b) s)"
proof -
  obtain S where S: "db_svc db s = Some S" using assms by (auto simp: db_ok_def)
  obtain e where e: "gatt_db_service_get_handles S = Some (of_nat (svc_start S), e)" "unat e = svc_last S" "svc_start S < 2 ^ 16"
    using get_handles_ok[OF db_okD[OF assms(1) S]] by metis
  then have "unat (of_nat (svc_start S) :: u16) = svc_start S" by (simp add: unat_of_nat)
  then show ?thesis using S e by (simp add: match_range_def meets_def word_le_nat_alt)
qed

definition cleared :: "gatt_db \<Rightarrow> u16 \<Rightarrow> u16 \<Rightarrow> ptr list" where
  "cleared db a b = (if a = 1 \<and> b = 0xFFFF then db_services db else filter (meets db (unat a) (unat b)) (db_services db))"

lemma clear_range_eq:
  assumes db: "db_ok db" and ab: "a \<le> b"
  shows "gatt_db_clear_range db a b =
    (let db' = without db (set (cleared db a b))
     in Some (True, if db_services db' = [] then db'\<lparr>db_next_handle := 0\<rparr> else db', concat (map (end_events db) (cleared db a b))))"
proof -
  let ?gone = "cleared db a b"
  have g: "(if a = 1 \<and> b = 0xFFFF then Some (db_services db) else filter_opt (match_range db a b) (db_services db)) = Some ?gone"
    using filter_opt_total[of "db_services db" "match_range db a b" "meets db (unat a) (unat b)"] match_range_eq[OF db] by (auto simp: cleared_def)
  let ?db = "db\<lparr>db_services := filter (\<lambda>s. s \<notin> set ?gone) (db_services db)\<rparr>"
  have d: "destroy_services ?db ?gone = Some (?db\<lparr>db_svc := (\<lambda>s. if s \<in> set ?gone then None else db_svc ?db s)\<rparr>, concat (map (end_events ?db) ?gone))"
    by (rule destroy_services_eq) (use db in \<open>auto simp: db_ok_def cleared_def\<close>)
  have ab': "(b < a) = False" using ab by simp
  show ?thesis
    unfolding gatt_db_clear_range_def g d bind.simps prod.case ab' if_False Let_def gatt_db_isempty_def without_def
    by (simp cong: if_cong)
qed


section \<open>Inserting a service\<close>

lemma decl_uuid:
  assumes "db_ok db" and "db_svc db s = Some S" and "attr S 0 = Some a"
  obtains u where "gatt_db_attribute_get_service_uuid db (Some (s, 0)) = Some (Some u)" "uuid_wf u"
    "u = (if a_value_len a = 2 then BT_UUID16 (load16 (the (a_value a)) 0) else BT_UUID128 (rev (the (a_value a))))"
proof -
  have d: "decl_ok a" using db_okD[OF assms(1,2)] assms(3) by (simp add: svc_ok_def)
  then obtain v where v: "a_value a = Some v" "length v = unat (a_value_len a)" "a_value_len a \<in> {2, 16}" by (auto simp: decl_ok_def)
  have l: "load16 (take 2 v) 0 = load16 v 0" by (simp add: load16_def)
  show ?thesis
  proof (cases "a_value_len a = 2")
    case True
    show ?thesis by (rule that[of "BT_UUID16 (load16 v 0)"])
      (use True assms(2,3) v(1,2) l in \<open>simp_all add: gatt_db_attribute_get_service_uuid_def attr_at_def read_range_def bt_uuid16_create_def\<close>)
  next
    case False
    then have a: "a_value_len a = 16" "length v = 16" using v by auto
    show ?thesis by (rule that[of "BT_UUID128 (rev v)"])
      (use a assms(2,3) v(1) in \<open>simp_all add: gatt_db_attribute_get_service_uuid_def attr_at_def read_range_def bt_uuid128_create_def bswap_128_def\<close>)
  qed
qed

text \<open>The new service that \<open>gatt_db_insert_service\<close> puts into the database.\<close>

definition service_decl :: "u16 \<Rightarrow> bool \<Rightarrow> u8 list \<Rightarrow> gatt_db_attribute" where
  "service_decl handle primary v = set_attribute_data (fresh_attr handle (service_type primary) v) 0 0 BT_ATT_PERM_READ 0"

definition new_service :: "u16 \<Rightarrow> bool \<Rightarrow> u16 \<Rightarrow> u8 list \<Rightarrow> gatt_db_service" where
  "new_service handle primary num v =
     \<lparr>s_active = False, s_claimed = False, s_num_handles = num,
      s_attributes = (replicate (unat num) None)[0 := Some (service_decl handle primary v)]\<rparr>"

lemma new_service_attr: "0 < unat num \<Longrightarrow> attr (new_service handle primary num v) i = (if i = 0 then Some (service_decl handle primary v) else None)"
  by (auto simp: attr_nth new_service_def nth_list_update)

lemma new_service_ok:
  assumes "0 < unat num" and "handle \<noteq> 0" and "unat handle + unat num \<le> 2 ^ 16" and "length v \<in> {2, 16}"
  shows "svc_ok (new_service handle primary num v)" and "svc_start (new_service handle primary num v) = unat handle"
proof -
  note at = new_service_attr[OF assms(1), of handle primary v]
  have l: "unat (of_nat (length v) :: u16) = length v" using assms(4) by (auto simp: unat_of_nat)
  have a: "decl_ok (service_decl handle primary v)" "attr_ok (service_decl handle primary v)"
    using assms(2,4) l by (auto simp: decl_ok_def attr_ok_def service_decl_def fresh_attr_def set_attribute_data_def service_type_def)
  have h: "a_handle (service_decl handle primary v) = handle" by (simp add: service_decl_def fresh_attr_def set_attribute_data_def)
  have "filled (new_service handle primary num v) 1" using assms(1) by (auto simp: filled_def new_service_def nth_list_update)
  then show "svc_ok (new_service handle primary num v)" unfolding svc_ok_def at using a h assms(3)
    by (auto simp: new_service_def)
  show "svc_start (new_service handle primary num v) = unat handle" using h by (simp add: svc_start_def at)
qed

lemma service_create_eq:
  assumes "0 < unat num" and "uuid_to_le uuid = Some v" and "length v \<in> {2, 16}"
  shows "gatt_db_service_create mem uuid handle primary num =
    Some (if mem then Some (new_service handle primary num v\<lparr>s_num_handles := 0\<rparr>) else None)"
proof -
  have "new_attribute mem handle (service_type primary) v (of_nat (length v)) = Some (if mem then Some (fresh_attr handle (service_type primary) v) else None)"
    by (subst new_attribute_eq) (use assms(3) in auto)
  moreover have "\<not> num < 1" using assms(1) by (simp add: word_less_nat_alt)
  ultimately show ?thesis using assms(1,2)
    by (simp add: gatt_db_service_create_def set_slot_def new_service_def service_decl_def)
qed

lemma find_insert_loc_in:
  assumes "db_ok db" and "set ss \<subseteq> set (db_services db)"
  shows "\<exists>s b. find_insert_loc (db_svc db) h e after ss = Some (s, b) \<and> (s = 0 \<or> s \<in> set ss) \<and> (b = after \<or> b \<in> set ss)"
  using assms(2)
proof (induction ss arbitrary: after)
  case (Cons s ss)
  then obtain S where S: "db_svc db s = Some S" using assms(1) by (auto simp: db_ok_def)
  obtain e' where "gatt_db_service_get_handles S = Some (of_nat (svc_start S), e')" using get_handles_ok[OF db_okD[OF assms(1) S]] by metis
  then show ?case using Cons.IH[of s] Cons.prems S by auto
qed simp

definition insert_place :: "gatt_db \<Rightarrow> ptr \<Rightarrow> ptr list" where
  "insert_place db after = (if after \<noteq> 0 then insert_after after (db_next_ptr db) (db_services db) else db_next_ptr db # db_services db)"

lemma insert_service_free:
  assumes db: "db_ok db" and u: "uuid_wf uuid" and n: "handle \<noteq> 0" "0 < unat num" "unat handle + unat num \<le> 2 ^ 16"
    and loc: "find_insert_loc (db_svc db) handle (handle + num - 1) 0 (db_services db) = Some (0, after)"
  obtains v where "uuid_to_le uuid = Some v" "length v \<in> {2, 16}" "after = 0 \<or> after \<in> set (db_services db)"
    "gatt_db_insert_service mem db handle uuid primary num =
      Some (if mem then (Some (db_next_ptr db, 0), db\<lparr>db_services := insert_place db after,
          db_svc := (db_svc db)(db_next_ptr db \<mapsto> new_service handle primary num v), db_next_ptr := db_next_ptr db + 1,
          db_next_handle := of_nat (max (unat handle + unat num) (unat (db_next_handle db)))\<rparr>) else (None, db))"
proof -
  have m: "\<not> handle < 1" "\<not> (num < 1 \<or> unat handle + unat num - 1 > 0xFFFF)"
    using n by (auto simp: word_less_nat_alt unat_gt_0)
  have at: "after = 0 \<or> after \<in> set (db_services db)"
    using find_insert_loc_in[OF db subset_refl, of handle "handle + num - 1" 0] loc by auto
  obtain v where v: "uuid_to_le uuid = Some v" "length v \<in> {2, 16}"
    by (rule uuid_to_le_ok[OF u]) (auto split: bt_uuid_t.splits)
  note cr = service_create_eq[OF n(2) v, of mem handle primary]
  have z: "\<not> (0::nat) \<noteq> 0" by simp
  have g: "(after \<noteq> 0 \<and> after \<notin> set (db_services db)) = False" using at by auto
  note ev = gatt_db_insert_service_def[of mem db handle uuid primary num, unfolded if_not_P[OF m(1)] if_not_P[OF m(2)] loc bind.simps prod.case
      if_not_P[OF z] cr]
  have d: "attr (new_service handle primary num v\<lparr>s_num_handles := 0\<rparr>) 0 = Some (service_decl handle primary v)"
    using n(2) by (simp add: attr_nth new_service_def)
  have st: "set_slot (new_service handle primary num v\<lparr>s_num_handles := 0\<rparr>) 0 (Some (service_decl handle primary v\<lparr>a_handle := handle\<rparr>)) =
      Some (new_service handle primary num v\<lparr>s_num_handles := 0\<rparr>)"
    using n(2) by (simp add: set_slot_def new_service_def service_decl_def fresh_attr_def set_attribute_data_def)
  have num: "new_service handle primary num v\<lparr>s_num_handles := num\<rparr> = new_service handle primary num v" by (simp add: new_service_def)
  show ?thesis
    by (rule that[OF v at], unfold ev) (use at in \<open>auto simp: g d st num insert_place_def Let_def\<close>)
qed

lemma insert_service_cases:
  assumes db: "db_ok db" and u: "uuid_wf uuid"
  obtains (refused) "gatt_db_insert_service mem db handle uuid primary num = Some (None, db)"
  | (found) s S where "db_svc db s = Some S" "svc_start S = unat handle" "s_num_handles S = num"
      "gatt_db_insert_service mem db handle uuid primary num = Some (Some (s, 0), db)"
  | (added) v after where "handle \<noteq> 0" "0 < unat num" "unat handle + unat num \<le> 2 ^ 16" "mem" "uuid_to_le uuid = Some v" "length v \<in> {2, 16}"
      "find_insert_loc (db_svc db) handle (handle + num - 1) 0 (db_services db) = Some (0, after)" "after = 0 \<or> after \<in> set (db_services db)"
      "gatt_db_insert_service mem db handle uuid primary num =
        Some (Some (db_next_ptr db, 0), db\<lparr>db_services := insert_place db after,
          db_svc := (db_svc db)(db_next_ptr db \<mapsto> new_service handle primary num v), db_next_ptr := db_next_ptr db + 1,
          db_next_handle := of_nat (max (unat handle + unat num) (unat (db_next_handle db)))\<rparr>)"
proof (cases "handle = 0 \<or> num = 0 \<or> unat handle + unat num > 2 ^ 16")
  case True
  have z: "(handle < 1) = (handle = 0)" "(num < 1) = (num = 0)" by (simp_all add: word_less_nat_alt unat_eq_zero)
  have "gatt_db_insert_service mem db handle uuid primary num = Some (None, db)"
    using True unfolding gatt_db_insert_service_def z by auto
  then show ?thesis by (rule refused)
next
  case False
  have n: "0 < unat num" "\<not> handle < 1" "\<not> (num < 1 \<or> unat handle + unat num - 1 > 0xFFFF)" "unat handle + unat num \<le> 2 ^ 16" "handle \<noteq> 0"
    using False by (auto simp: word_less_nat_alt unat_gt_0)
  obtain s after where loc: "find_insert_loc (db_svc db) handle (handle + num - 1) 0 (db_services db) = Some (s, after)"
    "s = 0 \<or> s \<in> set (db_services db)" "after = 0 \<or> after \<in> set (db_services db)"
    using find_insert_loc_in[OF db subset_refl] by metis
  show ?thesis
  proof (cases "s = 0")
    case False
    then obtain S where S: "db_svc db s = Some S" using loc(2) db by (auto simp: db_ok_def)
    obtain a where a: "attr S 0 = Some a" "attr_ok a" "svc_start S = unat (a_handle a)" using svc_okD[OF db_okD[OF db S]] by metis
    obtain w where w: "gatt_db_attribute_get_service_uuid db (Some (s, 0)) = Some (Some w)" "uuid_wf w" using decl_uuid[OF db S a(1)] by metis
    have c: "bt_uuid_cmp (a_uuid a) (service_type primary) = Some (memcmp (canonical (a_uuid a)) (canonical (service_type primary)))"
      by (rule bt_uuid_cmp_eq) (use a(2) in \<open>auto simp: attr_ok_def service_type_def\<close>)
    note ev = gatt_db_insert_service_def[of mem db handle uuid primary num, unfolded if_not_P[OF n(2)] if_not_P[OF n(3)] loc(1) bind.simps prod.case
        if_P[OF False] S a(1) w(1) c bt_uuid_cmp_eq[OF w(2) u]]
    show ?thesis
    proof (cases "gatt_db_insert_service mem db handle uuid primary num = Some (None, db)")
      case False
      then have "gatt_db_insert_service mem db handle uuid primary num = Some (Some (s, 0), db) \<and> s_num_handles S = num \<and> a_handle a = handle"
        unfolding ev by (auto split: if_splits)
      then show ?thesis using found[OF S] a(3) by simp
    qed (rule refused)
  next
    case True
    show ?thesis
      by (rule insert_service_free[OF db u n(5,1,4) loc(1)[unfolded True], of mem primary])
        (use added[OF n(5,1,4) _ _ _ _ loc(3)] refused loc(1) True in \<open>cases mem; simp\<close>)
  qed
qed

end
