(* ===== verification/GattDbReach.thy ===== *)
theory GattDbReach
  imports GattDbInv
begin

text \<open>
  The calls a server makes on the attribute database of \<open>src/src/bt/btgatt_server/src/shared/gatt-db.c\<close>, the states they lead to, and the invariants of these
  states: well-formedness, and services in ascending, disjoint ranges of handles.
\<close>

section \<open>Calls\<close>

datatype db_call =
    Insert_service bool u16 bt_uuid_t bool u16
  | Add_service bool bt_uuid_t bool u16
  | Remove_service aref
  | Clear_range u16 u16
  | Register ptr ptr ptr ptr
  | Unregister u32
  | Add_characteristic bool aref bt_uuid_t u32 u8 ptr ptr ptr
  | Insert_characteristic bool aref u16 bt_uuid_t u32 u8 ptr ptr ptr
  | Insert_characteristic_at bool u16 bt_uuid_t u32 u8 ptr ptr ptr
  | Add_descriptor bool aref bt_uuid_t u32 ptr ptr ptr
  | Insert_descriptor bool aref u16 bt_uuid_t u32 ptr ptr ptr
  | Insert_descriptor_at bool u16 bt_uuid_t u32 ptr ptr ptr
  | Add_included bool aref aref
  | Insert_included bool aref u16 aref
  | Insert_included_at bool u16 aref
  | Set_active aref bool
  | Set_claimed aref bool
  | Read u32 aref u16 u8 ptr ptr
  | Read_result aref u32 int "u8 list"
  | Read_timeout aref pending
  | Write bool "nat \<Rightarrow> u8" u32 aref u16 "u8 list" u8 ptr ptr
  | Write_result aref u32 int
  | Write_timeout aref pending
  | Reset aref

text \<open>The database and the callbacks run after a call.\<close>

fun db_exec :: "db_call \<Rightarrow> gatt_db \<Rightarrow> (gatt_db \<times> db_event list) option" where
  "db_exec (Insert_service mem h u p n) db = map_option (\<lambda>(_, db). (db, [])) (gatt_db_insert_service mem db h u p n)"
| "db_exec (Add_service mem u p n) db = map_option (\<lambda>(_, db). (db, [])) (gatt_db_add_service mem db u p n)"
| "db_exec (Remove_service r) db = map_option snd (gatt_db_remove_service db (Some r))"
| "db_exec (Clear_range a b) db = map_option snd (gatt_db_clear_range db a b)"
| "db_exec (Register a b ud d) db = Some (snd (gatt_db_register db a b ud d), [])"
| "db_exec (Unregister n) db = Some (snd (gatt_db_unregister db n))"
| "db_exec (Add_characteristic mem r u perm props rd wr ud) db =
     map_option (\<lambda>(_, db). (db, [])) (gatt_db_service_add_characteristic mem db (Some r) u perm props rd wr ud)"
| "db_exec (Insert_characteristic mem r h u perm props rd wr ud) db =
     map_option (\<lambda>(_, db). (db, [])) (gatt_db_service_insert_characteristic mem db (Some r) h u perm props rd wr ud)"
| "db_exec (Insert_characteristic_at mem h u perm props rd wr ud) db =
     map_option (\<lambda>(_, db). (db, [])) (gatt_db_insert_characteristic mem db h u perm props rd wr ud)"
| "db_exec (Add_descriptor mem r u perm rd wr ud) db =
     map_option (\<lambda>(_, db). (db, [])) (gatt_db_service_add_descriptor mem db (Some r) u perm rd wr ud)"
| "db_exec (Insert_descriptor mem r h u perm rd wr ud) db =
     map_option (\<lambda>(_, db). (db, [])) (gatt_db_service_insert_descriptor mem db (Some r) h u perm rd wr ud)"
| "db_exec (Insert_descriptor_at mem h u perm rd wr ud) db =
     map_option (\<lambda>(_, db). (db, [])) (gatt_db_insert_descriptor mem db h u perm rd wr ud)"
| "db_exec (Add_included mem r i) db = map_option (\<lambda>(_, db). (db, [])) (gatt_db_service_add_included mem db (Some r) (Some i))"
| "db_exec (Insert_included mem r h i) db = map_option (\<lambda>(_, db). (db, [])) (gatt_db_service_insert_included mem db (Some r) h (Some i))"
| "db_exec (Insert_included_at mem h i) db = map_option (\<lambda>(_, db). (db, [])) (gatt_db_insert_included mem db h i)"
| "db_exec (Set_active r b) db = map_option snd (gatt_db_service_set_active db (Some r) b)"
| "db_exec (Set_claimed r b) db = map_option (\<lambda>(_, db). (db, [])) (gatt_db_service_set_claimed db (Some r) b)"
| "db_exec (Read tid r off opc f ud) db = map_option snd (gatt_db_attribute_read tid db (Some r) off opc f ud)"
| "db_exec (Read_result r n err v) db = map_option snd (gatt_db_attribute_read_result db (Some r) n err v)"
| "db_exec (Read_timeout r p) db = read_timeout db r p"
| "db_exec (Write mem junk tid r off v opc f ud) db = map_option snd (gatt_db_attribute_write mem junk tid db (Some r) off v opc f ud)"
| "db_exec (Write_result r n err) db = map_option snd (gatt_db_attribute_write_result db (Some r) n err)"
| "db_exec (Write_timeout r p) db = write_timeout db r p"
| "db_exec (Reset r) db = map_option (\<lambda>(_, db). (db, [])) (gatt_db_attribute_reset db (Some r))"

text \<open>
  What a caller has to see to: attributes exist, UUIDs are set, both notification callbacks are given, a service declaration is not overwritten, and
  a timer belongs to a pending request.
\<close>

definition is_attr :: "gatt_db \<Rightarrow> aref \<Rightarrow> bool" where
  "is_attr db r = (attr_at db r \<noteq> None)"

fun call_ok :: "gatt_db \<Rightarrow> db_call \<Rightarrow> bool" where
  "call_ok db (Insert_service mem h u p n) = uuid_wf u"
| "call_ok db (Add_service mem u p n) = uuid_wf u"
| "call_ok db (Remove_service r) = is_attr db r"
| "call_ok db (Clear_range a b) = True"
| "call_ok db (Register a b ud d) = (a \<noteq> 0 \<and> b \<noteq> 0)"
| "call_ok db (Unregister n) = True"
| "call_ok db (Add_characteristic mem r u perm props rd wr ud) = (is_attr db r \<and> uuid_wf u)"
| "call_ok db (Insert_characteristic mem r h u perm props rd wr ud) = (is_attr db r \<and> uuid_wf u)"
| "call_ok db (Insert_characteristic_at mem h u perm props rd wr ud) = uuid_wf u"
| "call_ok db (Add_descriptor mem r u perm rd wr ud) = (is_attr db r \<and> uuid_wf u)"
| "call_ok db (Insert_descriptor mem r h u perm rd wr ud) = (is_attr db r \<and> uuid_wf u)"
| "call_ok db (Insert_descriptor_at mem h u perm rd wr ud) = uuid_wf u"
| "call_ok db (Add_included mem r i) = (is_attr db r \<and> is_attr db i)"
| "call_ok db (Insert_included mem r h i) = (is_attr db r \<and> is_attr db i)"
| "call_ok db (Insert_included_at mem h i) = is_attr db i"
| "call_ok db (Set_active r b) = is_attr db r"
| "call_ok db (Set_claimed r b) = is_attr db r"
| "call_ok db (Read tid r off opc f ud) = is_attr db r"
| "call_ok db (Read_result r n err v) = is_attr db r"
| "call_ok db (Read_timeout r p) = (\<exists>a. attr_at db r = Some a \<and> p \<in> set (a_pending_reads a))"
| "call_ok db (Write mem junk tid r off v opc f ud) = (is_attr db r \<and> snd r \<noteq> 0)"
| "call_ok db (Write_result r n err) = is_attr db r"
| "call_ok db (Write_timeout r p) = (\<exists>a. attr_at db r = Some a \<and> p \<in> set (a_pending_writes a))"
| "call_ok db (Reset r) = (is_attr db r \<and> snd r \<noteq> 0)"

section \<open>The effect of a call\<close>

text \<open>Services may go, those that stay keep their place and their range.\<close>

definition shrinks :: "gatt_db \<Rightarrow> gatt_db \<Rightarrow> bool" where
  "shrinks db db' = (\<exists>P. db_services db' = filter P (db_services db) \<and>
     (\<forall>s \<in> set (db_services db'). \<exists>S S'. db_svc db s = Some S \<and> db_svc db' s = Some S' \<and> svc_same S S'))"

definition good_step :: "gatt_db \<Rightarrow> gatt_db \<Rightarrow> bool" where
  "good_step db db' = (db_ok db' \<and> shrinks db db')"

lemma svc_same_refl [simp]: "svc_same S S"
  by (simp add: svc_same_def)

lemma good_step_refl: "db_ok db \<Longrightarrow> good_step db db"
  by (auto simp: good_step_def shrinks_def db_ok_def intro!: exI[of _ "\<lambda>_. True"])

lemma good_step_put:
  assumes "db_ok db" and "db_svc db s = Some S" and "svc_ok S'" and "svc_same S S'"
  shows "good_step db (put_service db s (Some S'))"
proof -
  have "shrinks db (put_service db s (Some S'))"
    unfolding shrinks_def using assms by (intro exI[of _ "\<lambda>_. True"]) (auto simp: put_service_def db_ok_def)
  then show ?thesis using db_ok_put[OF assms(1-3)] by (simp add: good_step_def)
qed

lemma good_step_without:
  assumes "db_ok db"
  shows "good_step db (without db X)"
  using assms db_ok_remove[OF assms, of X] unfolding good_step_def shrinks_def without_def
  by (auto simp: db_ok_def intro!: exI[of _ "\<lambda>s. s \<notin> X"])

text \<open>Fields that no property of the services depends on.\<close>

lemma good_step_next_handle: "good_step db db' \<Longrightarrow> good_step db (db'\<lparr>db_next_handle := h\<rparr>)"
  by (auto simp: good_step_def db_ok_def shrinks_def)

lemma good_step_notify:
  assumes "db_ok db" and "\<forall>n \<in> set ns. n_service_added n \<noteq> 0 \<and> n_service_removed n \<noteq> 0"
  shows "good_step db (db\<lparr>db_notify_list := ns\<rparr>)" and "good_step db (db\<lparr>db_next_notify_id := i, db_notify_list := ns\<rparr>)"
  using assms by (auto simp: good_step_def db_ok_def shrinks_def intro!: exI[of _ "\<lambda>_. True"])

lemma good_step_put_attr:
  assumes "db_ok db" and "attr_at db r = Some a" and "attr_ok a'" and "snd r = 0 \<longrightarrow> decl_ok a' \<and> a_handle a' = a_handle a"
  shows "\<exists>db'. put_attr db r a' = Some db' \<and> good_step db db'"
  using put_attr_ok[OF assms] good_step_put[OF assms(1)] by metis

lemma is_attrE:
  assumes "is_attr db r"
  obtains a S where "attr_at db r = Some a" "db_svc db (fst r) = Some S" "attr S (snd r) = Some a"
  using assms by (auto simp: is_attr_def attr_at_def bind_eq_Some_conv)

lemma attr_at_ok:
  assumes "db_ok db" and "attr_at db r = Some a"
  shows "attr_ok a" and "snd r = 0 \<longrightarrow> decl_ok a"
proof -
  obtain S where S: "db_svc db (fst r) = Some S" "attr S (snd r) = Some a" using assms(2) by (auto simp: attr_at_def bind_eq_Some_conv)
  show "attr_ok a" by (rule svc_ok_attr_ok[OF db_okD[OF assms(1) S(1)] S(2)])
  show "snd r = 0 \<longrightarrow> decl_ok a" using db_okD[OF assms(1) S(1)] S(2) by (auto simp: svc_ok_def)
qed

text \<open>Changes to the bookkeeping of requests keep an attribute well formed.\<close>

lemma pending_ok:
  "attr_ok (a\<lparr>a_pending_reads := ps\<rparr>) = attr_ok a" "decl_ok (a\<lparr>a_pending_reads := ps\<rparr>) = decl_ok a"
  "attr_ok (a\<lparr>a_pending_writes := ps\<rparr>) = attr_ok a" "decl_ok (a\<lparr>a_pending_writes := ps\<rparr>) = decl_ok a"
  "attr_ok (a\<lparr>a_read_id := i\<rparr>) = attr_ok a" "decl_ok (a\<lparr>a_read_id := i\<rparr>) = decl_ok a"
  "attr_ok (a\<lparr>a_write_id := i\<rparr>) = attr_ok a" "decl_ok (a\<lparr>a_write_id := i\<rparr>) = decl_ok a"
  by (simp_all add: attr_ok_def decl_ok_def split: option.split)

section \<open>Every call but the insertion of a service\<close>

lemma exec_characteristic:
  assumes "db_ok db" and "db_svc db s = Some S" and "uuid_wf u"
  shows "\<exists>r db'. service_insert_characteristic mem db s h u perm props rd wr ud = Some (r, db') \<and> good_step db db'"
  using service_insert_characteristic_cases[OF assms, of mem h perm props rd wr ud] good_step_put[OF assms(1,2)] good_step_refl[OF assms(1)]
  by metis

lemma exec_descriptor:
  assumes "db_ok db" and "db_svc db s = Some S" and "uuid_wf u"
  shows "\<exists>r db'. service_insert_descriptor mem db s h u perm rd wr ud = Some (r, db') \<and> good_step db db'"
  using service_insert_descriptor_cases[OF assms, of mem h perm rd wr ud] good_step_put[OF assms(1,2)] good_step_refl[OF assms(1)]
  by metis

lemma exec_included:
  assumes "db_ok db" and "db_svc db s = Some S" and "is_attr db i"
  shows "\<exists>r db'. service_insert_included mem db s h i = Some (r, db') \<and> good_step db db'"
proof -
  obtain a I where "attr_at db i = Some a" "db_svc db (fst i) = Some I" using assms(3) by (rule is_attrE)
  from service_insert_included_cases[OF assms(1,2) this, of mem h] show ?thesis
    using good_step_put[OF assms(1,2)] good_step_refl[OF assms(1)] by metis
qed

text \<open>\<open>gatt_db_get_service\<close> finds a service of the database or none.\<close>

definition holds_handle :: "gatt_db \<Rightarrow> nat \<Rightarrow> ptr \<Rightarrow> bool" where
  "holds_handle db h s = (case db_svc db s of None \<Rightarrow> False | Some S \<Rightarrow> svc_start S \<le> h \<and> h \<le> svc_last S)"

lemma get_service_eq:
  assumes "db_ok db"
  shows "gatt_db_get_service db h = Some (if h = 0 then None else map_option (\<lambda>s. (s, 0)) (find (holds_handle db (unat h)) (db_services db)))"
proof -
  have "find_service_for_handle db h s = Some (holds_handle db (unat h) s)" if s: "s \<in> set (db_services db)" for s
  proof -
    obtain S where S: "db_svc db s = Some S" using assms s by (auto simp: db_ok_def)
    obtain e where e: "gatt_db_service_get_handles S = Some (of_nat (svc_start S), e)" "unat e = svc_last S" "svc_start S < 2 ^ 16"
      using get_handles_ok[OF db_okD[OF assms S]] by metis
    then have "unat (of_nat (svc_start S) :: u16) = svc_start S" by (simp add: unat_of_nat)
    then show ?thesis using S e by (simp add: find_service_for_handle_def holds_handle_def word_le_nat_alt)
  qed
  then show ?thesis
    using find_opt_total[of "db_services db" "find_service_for_handle db h" "holds_handle db (unat h)"]
    by (auto simp: gatt_db_get_service_def split: option.split)
qed

lemma get_service_cases:
  assumes "db_ok db"
  obtains (none) "gatt_db_get_service db h = Some None"
  | (some) s S where "gatt_db_get_service db h = Some (Some (s, 0))" "db_svc db s = Some S" "svc_start S \<le> unat h" "unat h \<le> svc_last S" "h \<noteq> 0"
proof (cases "h = 0 \<or> find (holds_handle db (unat h)) (db_services db) = None")
  case True
  then show ?thesis using none get_service_eq[OF assms, of h] by auto
next
  case False
  then obtain s where s: "find (holds_handle db (unat h)) (db_services db) = Some s" by auto
  then have "holds_handle db (unat h) s" by (auto simp: find_Some_iff)
  then show ?thesis using some[of s] get_service_eq[OF assms, of h] s False by (auto simp: holds_handle_def split: option.splits)
qed

lemma good_step_pending:
  assumes "db_ok db" and "attr_at db r = Some a"
  shows "\<exists>db'. put_attr db r (a\<lparr>a_pending_reads := ps\<rparr>) = Some db' \<and> good_step db db'"
    and "\<exists>db'. put_attr db r (a\<lparr>a_pending_writes := ps\<rparr>) = Some db' \<and> good_step db db'"
    and "\<exists>db'. put_attr db r (a\<lparr>a_read_id := i, a_pending_reads := ps\<rparr>) = Some db' \<and> good_step db db'"
    and "\<exists>db'. put_attr db r (a\<lparr>a_write_id := i, a_pending_writes := ps\<rparr>) = Some db' \<and> good_step db db'"
  by (rule good_step_put_attr[OF assms]; use attr_at_ok[OF assms] in \<open>simp add: pending_ok\<close>)+

lemma exec_set_active:
  assumes "db_ok db" and "is_attr db r"
  shows "\<exists>x db' ev. gatt_db_service_set_active db (Some r) b = Some (x, db', ev) \<and> good_step db db'"
proof -
  obtain a S where a: "attr_at db r = Some a" "db_svc db (fst r) = Some S" using assms(2) by (rule is_attrE)
  let ?S = "S\<lparr>s_active := b\<rparr>"
  have "attr ?S = attr S" by (auto simp: attr_nth fun_eq_iff)
  then have "svc_ok ?S" "svc_same S ?S" using db_okD[OF assms(1) a(2)] by (auto simp: svc_ok_def filled_def svc_same_def svc_start_def)
  from good_step_put[OF assms(1) a(2) this] have g: "good_step db (put_service db (fst r) (Some ?S))" .
  have "notify_service_changed (put_service db (fst r) (Some ?S)) (fst r) b =
      Some (change_events (put_service db (fst r) (Some ?S)) (fst r) b)"
    by (rule notify_service_changed_eq) (use g in \<open>simp add: good_step_def db_ok_def\<close>)
  then show ?thesis using a g good_step_refl[OF assms(1)] by (auto simp: gatt_db_service_set_active_def Let_def)
qed

lemma exec_set_claimed:
  assumes "db_ok db" and "is_attr db r"
  shows "\<exists>x db'. gatt_db_service_set_claimed db (Some r) b = Some (x, db') \<and> good_step db db'"
proof -
  obtain a S where a: "attr_at db r = Some a" "db_svc db (fst r) = Some S" using assms(2) by (rule is_attrE)
  let ?S = "S\<lparr>s_claimed := b\<rparr>"
  have "attr ?S = attr S" by (auto simp: attr_nth fun_eq_iff)
  then have "svc_ok ?S" "svc_same S ?S" using db_okD[OF assms(1) a(2)] by (auto simp: svc_ok_def filled_def svc_same_def svc_start_def)
  from good_step_put[OF assms(1) a(2) this] show ?thesis using a by (auto simp: gatt_db_service_set_claimed_def)
qed

lemma exec_read:
  assumes "db_ok db" and "is_attr db r"
  shows "\<exists>x db' ev. gatt_db_attribute_read tid db (Some r) off opc f ud = Some (x, db', ev) \<and> good_step db db'"
proof -
  obtain a where a: "attr_at db r = Some a" using assms(2) by (auto simp: is_attr_def)
  note ok = attr_at_ok[OF assms(1) a]
  show ?thesis
  proof (cases "f \<noteq> 0 \<and> a_read_func a \<noteq> 0")
    case True
    let ?n = "a_read_id a + 1"
    obtain db' where "put_attr db r (a\<lparr>a_read_id := ?n, a_pending_reads := a_pending_reads a @
        [\<lparr>p_id = ?n, p_timeout_id = tid, p_func = f, p_user_data = ud\<rparr>]\<rparr>) = Some db'" "good_step db db'"
      using good_step_pending(3)[OF assms(1) a] by blast
    then show ?thesis using a True by (auto simp: gatt_db_attribute_read_def Let_def)
  next
    case False
    show ?thesis
    proof (cases "off < a_value_len a")
      case True
      then obtain v where "a_value a = Some v" "unat (a_value_len a) \<le> length v"
        using ok(1) by (auto simp: attr_ok_def split: option.splits)
      then show ?thesis using a False True good_step_refl[OF assms(1)]
        by (auto simp: gatt_db_attribute_read_def read_range_def word_less_nat_alt)
    qed (use a False good_step_refl[OF assms(1)] in \<open>auto simp: gatt_db_attribute_read_def\<close>)
  qed
qed

lemma exec_results:
  assumes "db_ok db" and "is_attr db r"
  shows "\<exists>x db' ev. gatt_db_attribute_read_result db (Some r) n err v = Some (x, db', ev) \<and> good_step db db'"
    and "\<exists>x db' ev. gatt_db_attribute_write_result db (Some r) n err = Some (x, db', ev) \<and> good_step db db'"
    and "\<exists>db' ev. read_timeout db r p = Some (db', ev) \<and> good_step db db'"
    and "\<exists>db' ev. write_timeout db r p = Some (db', ev) \<and> good_step db db'"
proof -
  obtain a where a: "attr_at db r = Some a" using assms(2) by (auto simp: is_attr_def)
  note same = good_step_refl[OF assms(1)]
  obtain db1 where p1: "put_attr db r (a\<lparr>a_pending_reads := remove_first (find_pending n) (a_pending_reads a)\<rparr>) = Some db1" "good_step db db1"
    using good_step_pending(1)[OF assms(1) a] by blast
  obtain db2 where p2: "put_attr db r (a\<lparr>a_pending_writes := remove_first (find_pending n) (a_pending_writes a)\<rparr>) = Some db2" "good_step db db2"
    using good_step_pending(2)[OF assms(1) a] by blast
  obtain db3 where p3: "put_attr db r (a\<lparr>a_pending_reads := remove1 p (a_pending_reads a)\<rparr>) = Some db3" "good_step db db3"
    using good_step_pending(1)[OF assms(1) a] by blast
  obtain db4 where p4: "put_attr db r (a\<lparr>a_pending_writes := remove1 p (a_pending_writes a)\<rparr>) = Some db4" "good_step db db4"
    using good_step_pending(2)[OF assms(1) a] by blast
  show "\<exists>x db' ev. gatt_db_attribute_read_result db (Some r) n err v = Some (x, db', ev) \<and> good_step db db'"
    using a p1 same by (auto simp: gatt_db_attribute_read_result_def split: option.split)
  show "\<exists>x db' ev. gatt_db_attribute_write_result db (Some r) n err = Some (x, db', ev) \<and> good_step db db'"
    using a p2 same by (auto simp: gatt_db_attribute_write_result_def split: option.split)
  show "\<exists>db' ev. read_timeout db r p = Some (db', ev) \<and> good_step db db'" using a p3 by (auto simp: read_timeout_def)
  show "\<exists>db' ev. write_timeout db r p = Some (db', ev) \<and> good_step db db'" using a p4 by (auto simp: write_timeout_def)
qed


text \<open>The value after a write that is kept in the database.\<close>

lemma grow_value_eq:
  assumes "attr_ok a"
  obtains b where "grow_value junk a off n = Some (a\<lparr>a_value := Some b, a_value_len := of_nat (n + unat off)\<rparr>)" "length b = n + unat off"
    "\<forall>i < unat off. b ! i = (if a_value_len a = 0 then 0 else case a_value a of None \<Rightarrow> 0 | Some v \<Rightarrow> if i < length v then v ! i else junk i)"
proof -
  let ?old = "case a_value a of None \<Rightarrow> [] | Some v \<Rightarrow> v"
  let ?b = "take (n + unat off) ?old @ map junk [length ?old..<n + unat off]"
  have l: "length ?b = n + unat off" by auto
  show ?thesis
  proof (cases "a_value_len a = 0")
    case True
    then have "grow_value junk a off n = Some (a\<lparr>a_value := Some (replicate (unat off) 0 @ drop (unat off) ?b), a_value_len := of_nat (n + unat off)\<rparr>)"
      using l by (simp add: grow_value_def memset_at_def write_range_def Let_def)
    then show ?thesis using that[of "replicate (unat off) 0 @ drop (unat off) ?b"] True l by (auto simp: nth_append)
  next
    case False
    then obtain v where v: "a_value a = Some v" using assms by (auto simp: attr_ok_def split: option.splits)
    have "grow_value junk a off n = Some (a\<lparr>a_value := Some ?b, a_value_len := of_nat (n + unat off)\<rparr>)"
      using False by (simp add: grow_value_def Let_def)
    then show ?thesis using that[of ?b] False l v by (auto simp: nth_append)
  qed
qed

lemma exec_write:
  assumes "db_ok db" and "is_attr db r" and "snd r \<noteq> 0"
  shows "\<exists>x db' ev. gatt_db_attribute_write mem junk tid db (Some r) off v opc f ud = Some (x, db', ev) \<and> good_step db db'"
proof -
  obtain a where a: "attr_at db r = Some a" using assms(2) by (auto simp: is_attr_def)
  note ok = attr_at_ok[OF assms(1) a] and same = good_step_refl[OF assms(1)]
  let ?grow = "a_value a = None \<or> off \<ge> a_value_len a \<or> length v > unat (a_value_len a) - unat off"
  consider (early) "f = 0 \<or> a_write_func a = 0 \<and> (length v = 0 \<or> ?grow \<and> \<not> mem)" | (request) "f \<noteq> 0" "a_write_func a \<noteq> 0"
    | (store) "f \<noteq> 0" "a_write_func a = 0" "length v \<noteq> 0" "\<not> (?grow \<and> \<not> mem)" by blast
  then show ?thesis
  proof cases
    case early
    then show ?thesis using a same by (auto simp: gatt_db_attribute_write_def)
  next
    case request
    let ?n = "a_write_id a + 1"
    obtain db' where "put_attr db r (a\<lparr>a_write_id := ?n, a_pending_writes := a_pending_writes a @
        [\<lparr>p_id = ?n, p_timeout_id = tid, p_func = f, p_user_data = ud\<rparr>]\<rparr>) = Some db'" "good_step db db'"
      using good_step_pending(4)[OF assms(1) a] by blast
    then show ?thesis using a request by (auto simp: gatt_db_attribute_write_def Let_def)
  next
    case store
    obtain a' b where a': "(if ?grow then grow_value junk a off (length v) else Some a) = Some a'" "a_value a' = Some b"
      "unat off + length v \<le> length b" "uuid_wf (a_uuid a')" "unat (a_value_len a') \<le> length b"
    proof (cases ?grow)
      case True
      let ?a = "\<lambda>b. a\<lparr>a_value := Some b, a_value_len := of_nat (length v + unat off)\<rparr>"
      obtain b where b: "grow_value junk a off (length v) = Some (?a b)" "length b = length v + unat off"
        by (rule grow_value_eq[OF ok(1), of junk])
      have u: "unat (of_nat (length v + unat off) :: u16) \<le> length v + unat off" unfolding unat_of_nat by (rule mod_less_eq_dividend)
      have "uuid_wf (a_uuid a)" using ok(1) by (simp add: attr_ok_def)
      then show ?thesis using b u True by (intro that[of "?a b" b]) (simp_all del: of_nat_add)
    next
      case False
      then obtain b where "a_value a = Some b" by auto
      then show ?thesis using that[of a b] False ok(1) by (auto simp: attr_ok_def word_le_nat_alt not_le)
    qed
    let ?v = "take (unat off) b @ v @ drop (unat off + length v) b"
    have w: "write_range b (unat off) v = Some ?v" using a'(3) by (simp add: write_range_def)
    have aok: "attr_ok (a'\<lparr>a_value := Some ?v\<rparr>)" using a' by (simp add: attr_ok_def)
    obtain db' where "put_attr db r (a'\<lparr>a_value := Some ?v\<rparr>) = Some db'" "good_step db db'"
      using good_step_put_attr[OF assms(1) a aok] assms(3) by auto
    moreover have "gatt_db_attribute_write mem junk tid db (Some r) off v opc f ud =
        do { db \<leftarrow> put_attr db r (a'\<lparr>a_value := Some ?v\<rparr>); Some (True, db, [Write_done f r 0 ud]) }"
    proof -
      have g: "(?grow \<and> \<not> mem) = False" "(f = 0) = False" "(a_write_func a \<noteq> 0) = False" "(length v = 0) = False" using store by auto
      show ?thesis unfolding gatt_db_attribute_write_def option.case a bind.simps g if_False a'(1,2) w ..
    qed
    ultimately show ?thesis by auto
  qed
qed

lemma exec_reset:
  assumes "db_ok db" and "is_attr db r" and "snd r \<noteq> 0"
  shows "\<exists>x db'. gatt_db_attribute_reset db (Some r) = Some (x, db') \<and> good_step db db'"
proof -
  obtain a where a: "attr_at db r = Some a" using assms(2) by (auto simp: is_attr_def)
  have "attr_ok (a\<lparr>a_value := None, a_value_len := 0\<rparr>)" using attr_at_ok(1)[OF assms(1) a] by (simp add: attr_ok_def)
  from good_step_put_attr[OF assms(1) a this] show ?thesis
    using a assms(3) good_step_refl[OF assms(1)] by (auto simp: gatt_db_attribute_reset_def)
qed

section \<open>Insertion of a service\<close>

text \<open>Services in ascending order of disjoint ranges.\<close>

definition start_of :: "gatt_db \<Rightarrow> ptr \<Rightarrow> nat" where
  "start_of db s = (case db_svc db s of None \<Rightarrow> 0 | Some S \<Rightarrow> svc_start S)"

definition last_of :: "gatt_db \<Rightarrow> ptr \<Rightarrow> nat" where
  "last_of db s = (case db_svc db s of None \<Rightarrow> 0 | Some S \<Rightarrow> svc_last S)"

definition db_ordered :: "gatt_db \<Rightarrow> bool" where
  "db_ordered db = sorted_wrt (\<lambda>s t. last_of db s < start_of db t) (db_services db)"

text \<open>The range \<open>h\<close> to \<open>h + n - 1\<close> has a service strictly inside.\<close>

definition encloses :: "gatt_db \<Rightarrow> u16 \<Rightarrow> u16 \<Rightarrow> bool" where
  "encloses db h n = (\<exists>s \<in> set (db_services db). unat h < start_of db s \<and> last_of db s < unat h + unat n - 1)"

lemma shrinks_ordered:
  assumes "shrinks db db'" and "db_ordered db"
  shows "db_ordered db'"
proof -
  obtain P where P: "db_services db' = filter P (db_services db)"
    "\<forall>s \<in> set (db_services db'). \<exists>S S'. db_svc db s = Some S \<and> db_svc db' s = Some S' \<and> svc_same S S'"
    using assms(1) by (auto simp: shrinks_def)
  have "start_of db' s = start_of db s" "last_of db' s = last_of db s" if "s \<in> set (db_services db')" for s
    using P(2) that by (auto simp: start_of_def last_of_def svc_same_def svc_last_def)
  moreover have "sorted_wrt (\<lambda>s t. last_of db s < start_of db t) (db_services db')"
    unfolding P(1) using assms(2) by (simp add: db_ordered_def sorted_wrt_filter)
  ultimately show ?thesis unfolding db_ordered_def
    by (auto elim!: sorted_wrt_mono_rel[rotated])
qed

lemma find_insert_loc_split:
  assumes db: "db_ok db" and "set ss \<subseteq> set (db_services db)" and "sorted_wrt (\<lambda>s t. last_of db s < start_of db t) ss"
    and "find_insert_loc (db_svc db) h e after ss = Some (0, b)" and "h \<le> e"
    and "\<forall>s \<in> set ss. \<not> (unat h < start_of db s \<and> last_of db s < unat e)"
  shows "\<exists>xs ys. ss = xs @ ys \<and> b = last (after # xs) \<and> (\<forall>s \<in> set xs. last_of db s < unat h) \<and> (\<forall>s \<in> set ys. unat e < start_of db s)"
  using assms(2-4,6)
proof (induction ss arbitrary: after)
  case Nil
  then show ?case by simp
next
  case (Cons s ss)
  then obtain S where S: "db_svc db s = Some S" using db by (auto simp: db_ok_def)
  have s0: "s \<noteq> 0" using db S by (auto simp: db_ok_def)
  obtain e' where g: "gatt_db_service_get_handles S = Some (of_nat (svc_start S), e')" "unat e' = svc_last S" "svc_start S < 2 ^ 16"
    "svc_start S \<le> svc_last S"
    using get_handles_ok[OF db_okD[OF db S]] by metis
  then have st: "unat (of_nat (svc_start S) :: u16) = svc_start S" by (simp add: unat_of_nat)
  have so: "start_of db s = svc_start S" "last_of db s = svc_last S" using S by (simp_all add: start_of_def last_of_def)
  have he: "unat h \<le> unat e" using assms(5) by (simp add: word_le_nat_alt)
  show ?case
  proof (cases "unat e < svc_start S")
    case True
    then have "b = after" using Cons.prems(3) S g st he s0 by (auto simp: word_le_nat_alt word_less_nat_alt split: if_splits)
    moreover have "\<forall>t \<in> set (s # ss). unat e < start_of db t" using Cons.prems(2) True so g(4) by fastforce
    ultimately show ?thesis by (intro exI[of _ "[]"] exI[of _ "s # ss"]) simp
  next
    case False
    have n: "find_insert_loc (db_svc db) h e s ss = Some (0, b)"
      "\<not> (svc_start S \<le> unat h \<and> unat h \<le> svc_last S)" "\<not> (svc_start S \<le> unat e \<and> unat e \<le> svc_last S)"
      using Cons.prems(3) S g st s0 False by (auto simp: word_le_nat_alt word_less_nat_alt split: if_splits)
    have "svc_last S < unat h" using n(2,3) False he Cons.prems(4) so by auto
    moreover obtain xs ys where "ss = xs @ ys" "b = last (s # xs)" "\<forall>s \<in> set xs. last_of db s < unat h" "\<forall>s \<in> set ys. unat e < start_of db s"
      using Cons.IH[OF _ _ n(1)] Cons.prems(1,2,4) by auto
    ultimately show ?thesis using so by (intro exI[of _ "s # xs"] exI[of _ ys]) auto
  qed
qed

lemma insert_after_last:
  assumes "distinct (xs @ ys)" and "b = last (0 # xs)" and "0 \<notin> set xs"
  shows "(if b \<noteq> 0 then insert_after b n (xs @ ys) else n # xs @ ys) = xs @ n # ys"
proof (cases xs rule: rev_cases)
  case (snoc zs z)
  then show ?thesis using assms insert_after_split[of z zs n ys] by auto
qed (use assms in auto)

lemma set_insert_after: "b \<in> set xs \<Longrightarrow> set (insert_after b n xs) = insert n (set xs)"
  by (induction xs) auto

lemma distinct_insert_after: "distinct xs \<Longrightarrow> n \<notin> set xs \<Longrightarrow> distinct (insert_after b n xs)"
proof (induction xs)
  case (Cons x xs)
  have "set (insert_after b n xs) \<subseteq> insert n (set xs)" for xs by (induction xs) auto
  then show ?case using Cons by auto
qed simp

text \<open>The state after a successful insertion.\<close>

definition inserted :: "gatt_db \<Rightarrow> u16 \<Rightarrow> bool \<Rightarrow> u16 \<Rightarrow> u8 list \<Rightarrow> ptr \<Rightarrow> gatt_db" where
  "inserted db h primary n v after = db\<lparr>db_services := insert_place db after,
     db_svc := (db_svc db)(db_next_ptr db \<mapsto> new_service h primary n v), db_next_ptr := db_next_ptr db + 1,
     db_next_handle := of_nat (max (unat h + unat n) (unat (db_next_handle db)))\<rparr>"

lemma fresh_ptr: "db_ok db \<Longrightarrow> db_next_ptr db \<notin> set (db_services db) \<and> db_svc db (db_next_ptr db) = None"
  by (auto simp: db_ok_def)

lemma inserted_ok:
  assumes db: "db_ok db" and "after = 0 \<or> after \<in> set (db_services db)" and "svc_ok (new_service h primary n v)"
  shows "db_ok (inserted db h primary n v after)"
proof -
  note f = fresh_ptr[OF db]
  have d: "distinct (db_services db)" using db by (simp add: db_ok_def)
  have "distinct (insert_place db after)" "set (insert_place db after) = insert (db_next_ptr db) (set (db_services db))"
    using assms(2) d f by (auto simp: insert_place_def distinct_insert_after set_insert_after)
  then show ?thesis using db assms(3) f by (auto simp: db_ok_def inserted_def less_SucI)
qed

lemma inserted_ordered:
  assumes db: "db_ok db" and ord: "db_ordered db" and ok: "svc_ok (new_service h primary n v)" "svc_start (new_service h primary n v) = unat h"
    and loc: "find_insert_loc (db_svc db) h (h + n - 1) 0 (db_services db) = Some (0, after)"
    and n: "0 < unat n" "unat h + unat n \<le> 2 ^ 16" and enc: "\<not> encloses db h n"
  shows "db_ordered (inserted db h primary n v after)"
proof -
  let ?d = "inserted db h primary n v after" and ?p = "db_next_ptr db"
  note f = fresh_ptr[OF db]
  have e: "unat (h + n - 1) = unat h + unat n - 1"
  proof -
    have eq: "h + n - 1 = of_nat (unat h + unat n - 1)" using n(1) by (simp add: of_nat_diff)
    show ?thesis unfolding eq unat_of_nat using n by simp
  qed
  have he: "h \<le> h + n - 1" unfolding word_le_nat_alt e using n by simp
  obtain xs ys where s: "db_services db = xs @ ys" "after = last (0 # xs)" "\<forall>s \<in> set xs. last_of db s < unat h"
    "\<forall>s \<in> set ys. unat h + unat n - 1 < start_of db s"
    using find_insert_loc_split[OF db subset_refl ord[unfolded db_ordered_def] loc he] enc e by (auto simp: encloses_def)
  have d: "distinct (xs @ ys)" "0 \<notin> set xs" using db s(1) unfolding db_ok_def by (metis, metis Un_iff set_append)
  have "insert_place db after = xs @ ?p # ys"
    unfolding insert_place_def s(1) by (rule insert_after_last[OF d(1) s(2) d(2)])
  then have sv: "db_services ?d = xs @ ?p # ys" by (simp add: inserted_def)
  have old: "start_of ?d s = start_of db s" "last_of ?d s = last_of db s" if "s \<noteq> ?p" for s
    using that by (simp_all add: inserted_def start_of_def last_of_def)
  have new: "start_of ?d ?p = unat h" "last_of ?d ?p = unat h + unat n - 1"
    using ok(2) by (simp_all add: inserted_def start_of_def last_of_def svc_last_def new_service_def)
  have ne: "?p \<notin> set xs" "?p \<notin> set ys" using f s(1) by auto
  have "sorted_wrt (\<lambda>s t. last_of db s < start_of db t) (xs @ ys)" using ord s(1) by (simp add: db_ordered_def)
  then have "sorted_wrt (\<lambda>s t. last_of ?d s < start_of ?d t) xs" "sorted_wrt (\<lambda>s t. last_of ?d s < start_of ?d t) ys"
    "\<forall>s \<in> set xs. \<forall>t \<in> set ys. last_of ?d s < start_of ?d t"
    using ne old unfolding sorted_wrt_append by (auto elim!: sorted_wrt_mono_rel[rotated]) (metis old)+
  then show ?thesis unfolding db_ordered_def sv using s(3,4) ne old new by (auto simp: sorted_wrt_append) (metis old)+
qed

section \<open>Every call\<close>

lemma exec_insert:
  assumes "db_ok db" and "uuid_wf u"
  shows "\<exists>r db'. gatt_db_insert_service mem db h u p n = Some (r, db') \<and> db_ok db' \<and>
    (db_ordered db \<and> \<not> encloses db h n \<longrightarrow> db_ordered db')"
  using assms
proof (cases rule: insert_service_cases[of db u mem h p n])
  case (added v after)
  have ok: "svc_ok (new_service h p n v)" "svc_start (new_service h p n v) = unat h"
    using new_service_ok[OF added(2,1,3,6)] by auto
  have "gatt_db_insert_service mem db h u p n = Some (Some (db_next_ptr db, 0), inserted db h p n v after)"
    using added(9) by (simp add: inserted_def)
  then show ?thesis using inserted_ok[OF assms(1) added(8) ok(1)] inserted_ordered[OF assms(1) _ ok added(7,2,3)] by auto
qed (use assms(1) in auto)

text \<open>The range a call wants for a new service, and the calls that do not enclose a service there is.\<close>

fun wanted_range :: "gatt_db \<Rightarrow> db_call \<Rightarrow> (u16 \<times> u16) option" where
  "wanted_range db (Insert_service mem h u p n) = Some (h, n)"
| "wanted_range db (Add_service mem u p n) = Some (db_next_handle db, n)"
| "wanted_range db _ = None"

definition tight :: "gatt_db \<Rightarrow> db_call \<Rightarrow> bool" where
  "tight db c = (case wanted_range db c of None \<Rightarrow> True | Some (h, n) \<Rightarrow> \<not> encloses db h n)"

definition call_result :: "gatt_db \<Rightarrow> db_call \<Rightarrow> gatt_db \<Rightarrow> bool" where
  "call_result db c db' = (db_ok db' \<and> (db_ordered db \<and> tight db c \<longrightarrow> db_ordered db'))"

lemma good_step_result: "good_step db db' \<Longrightarrow> call_result db c db'"
  using shrinks_ordered by (auto simp: good_step_def call_result_def)

lemma exec_at:
  assumes "db_ok db" and "\<And>s S. db_svc db s = Some S \<Longrightarrow> \<exists>r db'. f s = Some (r, db') \<and> good_step db db'"
  shows "\<exists>r db'. (do { attrib \<leftarrow> gatt_db_get_service db h; case attrib of None \<Rightarrow> Some (None, db) | Some r \<Rightarrow> f (fst r) }) = Some (r, db') \<and> good_step db db'"
  using assms(1)
proof (cases rule: get_service_cases[of db h])
  case none
  then show ?thesis using good_step_refl[OF assms(1)] by simp
next
  case (some s S)
  then show ?thesis using assms(2)[OF some(2)] by simp
qed

lemma call_ok_result:
  assumes db: "db_ok db" and c: "call_ok db c"
  shows "\<exists>db' ev. db_exec c db = Some (db', ev) \<and> call_result db c db'"
proof (cases "wanted_range db c")
  case (Some r)
  then obtain mem h u p n where "db_exec c db = map_option (\<lambda>(_, db). (db, [])) (gatt_db_insert_service mem db h u p n)" "r = (h, n)" "uuid_wf u"
    using c by (cases c) (auto simp: gatt_db_add_service_def)
  then show ?thesis using exec_insert[OF db, of u mem h p n] Some by (auto simp: call_result_def tight_def)
next
  case None
  have "\<exists>db' ev. db_exec c db = Some (db', ev) \<and> good_step db db'"
  proof (cases c)
    case (Remove_service r)
    then obtain a where "attr_at db r = Some a" using c by (auto simp: is_attr_def)
    then show ?thesis using remove_service_eq[OF db] good_step_without[OF db] Remove_service by simp
  next
    case (Clear_range a b)
    show ?thesis
    proof (cases "a \<le> b")
      case True
      then show ?thesis using clear_range_eq[OF db True] good_step_without[OF db] good_step_next_handle Clear_range by (auto simp: Let_def)
    next
      case False
      then have "b < a" by simp
      then show ?thesis using good_step_refl[OF db] Clear_range by (auto simp: gatt_db_clear_range_def)
    qed
  next
    case (Register a b ud d)
    then show ?thesis using c good_step_notify(2)[OF db] db
      by (auto simp: gatt_db_register_def Let_def db_ok_def)
  next
    case (Unregister n)
    have sub: "set (remove_first P xs) \<subseteq> set xs" for P :: "notify \<Rightarrow> bool" and xs by (induction xs) auto
    have "good_step db (db\<lparr>db_notify_list := remove_first (match_notify_id n) (db_notify_list db)\<rparr>)"
      by (rule good_step_notify(1)[OF db]) (use db sub in \<open>fastforce simp: db_ok_def\<close>)
    then show ?thesis using Unregister good_step_refl[OF db] by (auto simp: gatt_db_unregister_def split: option.splits)
  next
    case (Insert_characteristic_at mem h u perm props rd wr ud)
    then show ?thesis using exec_at[OF db, of "\<lambda>s. service_insert_characteristic mem db s h u perm props rd wr ud" h] exec_characteristic[OF db] c by (auto simp: gatt_db_insert_characteristic_def)
  next
    case (Insert_descriptor_at mem h u perm rd wr ud)
    then show ?thesis using exec_at[OF db, of "\<lambda>s. service_insert_descriptor mem db s h u perm rd wr ud" h] exec_descriptor[OF db] c by (auto simp: gatt_db_insert_descriptor_def)
  next
    case (Insert_included_at mem h i)
    then show ?thesis using exec_at[OF db, of "\<lambda>s. service_insert_included mem db s h i" h] exec_included[OF db] c by (auto simp: gatt_db_insert_included_def)
  next
    case (Add_characteristic mem r u perm props rd wr ud)
    then obtain S where "db_svc db (fst r) = Some S" using c by (auto elim: is_attrE)
    then show ?thesis using exec_characteristic[OF db] c Add_characteristic by (fastforce simp: gatt_db_service_add_characteristic_def)
  next
    case (Insert_characteristic mem r h u perm props rd wr ud)
    then obtain S where "db_svc db (fst r) = Some S" using c by (auto elim: is_attrE)
    then show ?thesis using exec_characteristic[OF db] c Insert_characteristic good_step_refl[OF db]
      by (cases "h = 0") (fastforce simp: gatt_db_service_insert_characteristic_def)+
  next
    case (Add_descriptor mem r u perm rd wr ud)
    then obtain S where "db_svc db (fst r) = Some S" using c by (auto elim: is_attrE)
    then show ?thesis using exec_descriptor[OF db] c Add_descriptor by (fastforce simp: gatt_db_service_add_descriptor_def)
  next
    case (Insert_descriptor mem r h u perm rd wr ud)
    then obtain S where "db_svc db (fst r) = Some S" using c by (auto elim: is_attrE)
    then show ?thesis using exec_descriptor[OF db] c Insert_descriptor good_step_refl[OF db]
      by (cases "h = 0") (fastforce simp: gatt_db_service_insert_descriptor_def)+
  next
    case (Add_included mem r i)
    then obtain S where "db_svc db (fst r) = Some S" using c by (auto elim: is_attrE)
    then show ?thesis using exec_included[OF db] c Add_included by (fastforce simp: gatt_db_service_add_included_def)
  next
    case (Insert_included mem r h i)
    then obtain S where "db_svc db (fst r) = Some S" using c by (auto elim: is_attrE)
    then show ?thesis using exec_included[OF db] c Insert_included good_step_refl[OF db]
      by (cases "h = 0") (fastforce simp: gatt_db_service_insert_included_def)+
  next
    case (Set_active r b)
    then show ?thesis using exec_set_active[OF db, of r b] c by auto
  next
    case (Set_claimed r b)
    then show ?thesis using exec_set_claimed[OF db, of r b] c by auto
  next
    case (Read tid r off opc f ud)
    then show ?thesis using exec_read[OF db, of r tid off opc f ud] c by auto
  next
    case (Read_result r n err v)
    then show ?thesis using exec_results(1)[OF db, of r n err v] c by auto
  next
    case (Read_timeout r p)
    then show ?thesis using exec_results(3)[OF db, of r p] c by (auto simp: is_attr_def)
  next
    case (Write mem junk tid r off v opc f ud)
    then show ?thesis using exec_write[OF db, of r mem junk tid off v opc f ud] c by auto
  next
    case (Write_result r n err)
    then show ?thesis using exec_results(2)[OF db, of r n err] c by auto
  next
    case (Write_timeout r p)
    then show ?thesis using exec_results(4)[OF db, of r p] c by (auto simp: is_attr_def)
  next
    case (Reset r)
    then show ?thesis using exec_reset[OF db, of r] c by auto
  qed (use None in auto)
  then show ?thesis using good_step_result by blast
qed

section \<open>Reachable databases\<close>

inductive reachable :: "gatt_db \<Rightarrow> bool" where
  start: "reachable gatt_db_new"
| call: "reachable db \<Longrightarrow> call_ok db c \<Longrightarrow> tight db c \<Longrightarrow> db_exec c db = Some (db', ev) \<Longrightarrow> reachable db'"

lemma new_ok: "db_ok gatt_db_new" "db_ordered gatt_db_new"
  by (simp_all add: db_ok_def db_ordered_def gatt_db_new_def gatt_db_ref_def)

lemma reachable_inv:
  assumes "reachable db"
  shows "db_ok db \<and> db_ordered db"
  using assms
proof induction
  case start
  then show ?case using new_ok by simp
next
  case (call db c db' ev)
  then obtain db'' ev' where "db_exec c db = Some (db'', ev')" "call_result db c db''" using call_ok_result[of db c] by auto
  then show ?case using call by (simp add: call_result_def)
qed


lemma ordered_unique:
  assumes "db_ok db" and "db_ordered db" and "s \<in> set (db_services db)" "t \<in> set (db_services db)"
    and "start_of db s \<le> h" "h \<le> last_of db s" "start_of db t \<le> h" "h \<le> last_of db t"
  shows "s = t"
proof (rule ccontr)
  assume "s \<noteq> t"
  from assms(3,4) obtain i j where ij: "i < length (db_services db)" "j < length (db_services db)" "db_services db ! i = s" "db_services db ! j = t"
    by (auto simp: in_set_conv_nth)
  have lt: "last_of db (db_services db ! a) < start_of db (db_services db ! b)" if "a < b" "b < length (db_services db)" for a b
    using assms(2) that by (auto simp: db_ordered_def sorted_wrt_iff_nth_less)
  have "i \<noteq> j" using ij \<open>s \<noteq> t\<close> by auto
  then show False using lt[of i j] lt[of j i] ij assms(5-8) by (cases "i < j") auto
qed

text \<open>A database with one primary service, 0x1800, on the handles 10 to 14.\<close>

definition sample_call :: db_call where
  "sample_call = Insert_service True 10 (BT_UUID16 0x1800) True 5"

definition sample_db :: gatt_db where
  "sample_db = inserted gatt_db_new 10 True 5 [0, 0x18] 0"

lemma sample_inserted: "gatt_db_insert_service True gatt_db_new 10 (BT_UUID16 0x1800) True 5 = Some (Some (1, 0), sample_db)"
proof -
  have "find_insert_loc (db_svc gatt_db_new) 10 (10 + 5 - 1) 0 (db_services gatt_db_new) = Some (0, 0)"
    by (simp add: gatt_db_new_def gatt_db_ref_def)
  note loc = this
  have w: "uuid_wf (BT_UUID16 0x1800)" "(10::u16) \<noteq> 0" "0 < unat (5::u16)" "unat (10::u16) + unat (5::u16) \<le> 2 ^ 16" by simp_all
  obtain v where v: "uuid_to_le (BT_UUID16 0x1800) = Some v"
    "gatt_db_insert_service True gatt_db_new 10 (BT_UUID16 0x1800) True 5 = Some (Some (db_next_ptr gatt_db_new, 0), inserted gatt_db_new 10 True 5 v 0)"
    by (rule insert_service_free[OF new_ok(1) w loc, of True True]) (simp add: inserted_def)
  have "v = [0, 0x18]" using v(1) by (auto simp: uuid_to_le_def le16_def)
  then show ?thesis using v(2) by (simp add: sample_db_def gatt_db_new_def gatt_db_ref_def)
qed

lemma sample_exec: "db_exec sample_call gatt_db_new = Some (sample_db, [])"
  using sample_inserted by (simp add: sample_call_def)

lemma sample_reachable: "reachable sample_db"
  by (rule reachable.call[OF reachable.start _ _ sample_exec])
    (simp_all add: sample_call_def tight_def encloses_def gatt_db_new_def gatt_db_ref_def)

lemma sample_state: "db_services sample_db = [1]" "start_of sample_db 1 = 10" "last_of sample_db 1 = 14" "is_attr sample_db (1, 0)"
  by (simp_all add: sample_db_def inserted_def gatt_db_new_def gatt_db_ref_def insert_place_def start_of_def last_of_def
      svc_start_def svc_last_def attr_nth nth_list_update service_decl_def fresh_attr_def set_attribute_data_def new_service_def is_attr_def attr_at_def)

section \<open>Properties\<close>



text \<open>
  C10. In every database that calls can build from an empty one the services lie in ascending order and their ranges of handles are disjoint, as long as no
  call asks for a range with a whole service strictly inside.
\<close>

theorem gatt_db_ranges_disjoint:
  assumes "reachable db"
  shows "sorted_wrt (\<lambda>s t. last_of db s < start_of db t) (db_services db) \<and>
    (\<forall>s \<in> set (db_services db). 1 \<le> start_of db s \<and> start_of db s \<le> last_of db s \<and> last_of db s \<le> 0xFFFF)"
proof
  show "sorted_wrt (\<lambda>s t. last_of db s < start_of db t) (db_services db)"
    using reachable_inv[OF assms] by (simp add: db_ordered_def)
  show "\<forall>s \<in> set (db_services db). 1 \<le> start_of db s \<and> start_of db s \<le> last_of db s \<and> last_of db s \<le> 0xFFFF"
  proof
    fix s assume s: "s \<in> set (db_services db)"
    obtain S where S: "db_svc db s = Some S" "svc_ok S" using reachable_inv[OF assms] s by (auto simp: db_ok_def)
    show "1 \<le> start_of db s \<and> start_of db s \<le> last_of db s \<and> last_of db s \<le> 0xFFFF"
      by (rule get_handles_ok[OF S(2)]) (simp add: start_of_def last_of_def S(1))
  qed
qed

theorem gatt_db_ranges_disjoint_witness: "reachable sample_db \<and> 1 \<le> start_of sample_db 1 \<and> start_of sample_db 1 \<le> last_of sample_db 1"
  using gatt_db_ranges_disjoint[OF sample_reachable] sample_reachable sample_state(1) by simp

text \<open>
  In such a database \<open>gatt_db_get_service\<close> answers for the one service whose range holds the handle: no other service of the
  database holds it, and there is none when the answer is \<open>NULL\<close>.
\<close>

theorem gatt_db_get_service_unique:
  assumes "reachable db" and "h \<noteq> 0"
  shows "\<exists>r. gatt_db_get_service db h = Some r \<and>
    (\<forall>s \<in> set (db_services db). start_of db s \<le> unat h \<and> unat h \<le> last_of db s \<longleftrightarrow> r = Some (s, 0))"
proof -
  have db: "db_ok db" "db_ordered db" using reachable_inv[OF assms(1)] by auto
  have hh: "holds_handle db (unat h) s \<longleftrightarrow> start_of db s \<le> unat h \<and> unat h \<le> last_of db s" if "s \<in> set (db_services db)" for s
    using that db(1) by (auto simp: holds_handle_def start_of_def last_of_def db_ok_def split: option.split)
  note g = get_service_eq[OF db(1), of h]
  show ?thesis
  proof (cases "find (holds_handle db (unat h)) (db_services db)")
    case None
    then have "\<forall>s \<in> set (db_services db). \<not> (start_of db s \<le> unat h \<and> unat h \<le> last_of db s)"
      using hh by (auto simp: find_None_iff)
    then show ?thesis using g assms(2) None by auto
  next
    case (Some t)
    then have t: "t \<in> set (db_services db)" "holds_handle db (unat h) t" by (auto simp: find_Some_iff)
    have "start_of db s \<le> unat h \<and> unat h \<le> last_of db s \<longleftrightarrow> s = t" if "s \<in> set (db_services db)" for s
      using ordered_unique[OF db that t(1), of "unat h"] hh[OF t(1)] t(2) by auto
    then show ?thesis using g assms(2) Some by auto
  qed
qed

theorem gatt_db_get_service_unique_witness: "reachable sample_db \<and> gatt_db_get_service sample_db 12 = Some (Some (1, 0))"
  using gatt_db_get_service_unique[OF sample_reachable, of 12] sample_reachable sample_state(1-3) by auto

text \<open>
  C40. \<open>find_insert_loc\<close> compares only the two ends of the wanted range with each service. A range with the only service of the database
  strictly inside is taken for free, and \<open>gatt_db_insert_service\<close> adds a second service over the handles of the first.
\<close>

theorem gatt_db_insert_overlaps:
  assumes "db_ok db" and "db_services db = [s]" and "uuid_wf uuid"
    and "1 \<le> unat h" and "unat h < start_of db s" and "last_of db s < unat h + unat n - 1" and "unat h + unat n \<le> 2 ^ 16"
  shows "\<exists>t db'. gatt_db_insert_service True db h uuid primary n = Some (Some (t, 0), db') \<and> db_services db' = [s, t] \<and>
    start_of db' t < start_of db' s \<and> last_of db' s < last_of db' t"
proof -
  have "s \<in> dom (db_svc db)" using assms(1,2) by (auto simp: db_ok_def)
  then obtain S where S: "db_svc db s = Some S" "svc_ok S" using db_okD[OF assms(1)] by auto
  have s0: "s \<noteq> 0" using assms(1) S(1) by (auto simp: db_ok_def)
  obtain e where g: "gatt_db_service_get_handles S = Some (of_nat (svc_start S), e)" "unat e = svc_last S" "svc_start S < 2 ^ 16"
    "svc_start S \<le> svc_last S" using get_handles_ok[OF S(2)] by metis
  then have st: "unat (of_nat (svc_start S) :: u16) = svc_start S" by (simp add: unat_of_nat)
  have so: "start_of db s = svc_start S" "last_of db s = svc_last S" using S by (simp_all add: start_of_def last_of_def)
  have n: "0 < unat n" using assms(5,6) so g(4) by simp
  have u: "unat (h + n - 1) = unat h + unat n - 1"
  proof -
    have eq: "h + n - 1 = of_nat (unat h + unat n - 1)" using n by (simp add: of_nat_diff)
    show ?thesis unfolding eq unat_of_nat using n assms(7) by simp
  qed
  have loc: "find_insert_loc (db_svc db) h (h + n - 1) 0 (db_services db) = Some (0, s)"
    using S(1) g(1,2,4) st u assms(2,5,6) so by (auto simp: word_le_nat_alt word_less_nat_alt)
  have h: "h \<noteq> 0" using assms(4) by auto
  obtain v where v: "length v \<in> {2, 16}" "gatt_db_insert_service True db h uuid primary n = Some (Some (db_next_ptr db, 0), inserted db h primary n v s)"
    by (rule insert_service_free[OF assms(1,3) h n assms(7) loc, of True primary]) (auto simp: inserted_def)
  note ok = new_service_ok[OF n h assms(7) v(1), of primary]
  have f: "db_next_ptr db \<noteq> s" using fresh_ptr[OF assms(1)] assms(2) by auto
  show ?thesis using v(2) ok f s0 assms(2,5,6) S(1)
    by (auto simp: inserted_def insert_place_def start_of_def last_of_def svc_last_def new_service_def)
qed

theorem gatt_db_insert_overlaps_witness:
  "db_ok sample_db \<and> (\<exists>t db'. gatt_db_insert_service True sample_db 5 (BT_UUID16 0x1801) True 20 = Some (Some (t, 0), db') \<and>
    db_services db' = [1, t])"
  using gatt_db_insert_overlaps[of sample_db 1 "BT_UUID16 0x1801" 5 20 True] reachable_inv[OF sample_reachable] sample_state(1-3) by auto

text \<open>
  After \<open>gatt_db_clear\<close> the next handle is 0, which \<open>gatt_db_insert_service\<close> refuses: \<open>gatt_db_add_service\<close> fails
  on every cleared database.
\<close>

theorem gatt_db_clear_then_add_fails:
  assumes "db_ok db"
  shows "\<exists>db' ev. gatt_db_clear db = Some (True, db', ev) \<and> db_services db' = [] \<and>
    gatt_db_add_service mem db' uuid primary n = Some (None, db')"
proof -
  have "cleared db 1 0xFFFF = db_services db" by (simp add: cleared_def)
  then show ?thesis using clear_range_eq[OF assms, of 1 "0xFFFF"]
    by (auto simp: gatt_db_clear_def Let_def without_def gatt_db_add_service_def gatt_db_insert_service_def)
qed

theorem gatt_db_clear_then_add_fails_witness:
  "db_ok sample_db \<and> (\<exists>db' ev. gatt_db_clear sample_db = Some (True, db', ev) \<and>
    gatt_db_add_service True db' (BT_UUID16 0x1800) True 3 = Some (None, db'))"
  using gatt_db_clear_then_add_fails[of sample_db True "BT_UUID16 0x1800" True 3] reachable_inv[OF sample_reachable] by auto

end
