(* ===== verification/GattDbPending.thy ===== *)
theory GattDbPending
  imports GattDbReach "HOL-Library.Multiset"
begin

text \<open>
  The requests of \<open>src/src/bt/btgatt_server/src/shared/gatt-db.c\<close>. A read or write of an attribute with a callback of its own is kept in a
  queue until a result, a timeout or the end of the attribute answers it. The tokens below name a request
  by its callback, its attribute and its user data; they are neither lost nor answered twice.
\<close>

section \<open>Tokens\<close>

datatype token = Read_token ptr aref ptr | Write_token ptr aref ptr

definition read_tokens :: "aref \<Rightarrow> pending list \<Rightarrow> token multiset" where
  "read_tokens r ps = image_mset (\<lambda>p. Read_token (p_func p) r (p_user_data p)) (mset ps)"

definition write_tokens :: "aref \<Rightarrow> pending list \<Rightarrow> token multiset" where
  "write_tokens r ps = image_mset (\<lambda>p. Write_token (p_func p) r (p_user_data p)) (mset ps)"

definition attr_tokens :: "aref \<Rightarrow> gatt_db_attribute \<Rightarrow> token multiset" where
  "attr_tokens r a = read_tokens r (a_pending_reads a) + write_tokens r (a_pending_writes a)"

text \<open>The requests a map of attributes still holds.\<close>

definition tokens :: "(aref \<Rightarrow> gatt_db_attribute option) \<Rightarrow> token multiset" where
  "tokens m = (\<Sum>r \<in> dom m. attr_tokens r (the (m r)))"

fun answer :: "db_event \<Rightarrow> token multiset" where
  "answer (Read_done f r err v ud) = {#Read_token f r ud#}"
| "answer (Write_done f r err ud) = {#Write_token f r ud#}"
| "answer _ = {#}"

definition answers :: "db_event list \<Rightarrow> token multiset" where
  "answers evs = (\<Sum>e \<leftarrow> evs. answer e)"

lemma answers_simps [simp]:
  "answers [] = {#}" "answers (e # es) = answer e + answers es" "answers (es @ fs) = answers es + answers fs"
  "answers (concat xss) = (\<Sum>xs \<leftarrow> xss. answers xs)"
  by (simp_all add: answers_def) (induction xss; simp)

lemma token_simps [simp]:
  "read_tokens r [] = {#}" "write_tokens r [] = {#}"
  "read_tokens r (p # ps) = add_mset (Read_token (p_func p) r (p_user_data p)) (read_tokens r ps)"
  "write_tokens r (p # ps) = add_mset (Write_token (p_func p) r (p_user_data p)) (write_tokens r ps)"
  "read_tokens r (ps @ qs) = read_tokens r ps + read_tokens r qs" "write_tokens r (ps @ qs) = write_tokens r ps + write_tokens r qs"
  by (simp_all add: read_tokens_def write_tokens_def)

lemma answers_pending [simp]:
  "answers (pending_read_result r p err v) = {#Read_token (p_func p) r (p_user_data p)#}"
  "answers (pending_write_result r p err) = {#Write_token (p_func p) r (p_user_data p)#}"
  by (simp_all add: pending_read_result_def pending_write_result_def)

lemma answers_destroy: "answers (attribute_destroy r a) = (case a of None \<Rightarrow> {#} | Some a \<Rightarrow> attr_tokens r a)"
proof -
  have "(\<Sum>p \<leftarrow> ps. answers (pending_read_free r p)) = read_tokens r ps" "(\<Sum>p \<leftarrow> ps. answers (pending_write_free r p)) = write_tokens r ps" for ps
    by (induction ps) (simp_all add: pending_read_free_def pending_write_free_def)
  then show ?thesis by (simp add: attribute_destroy_def attr_tokens_def comp_def split: option.split)
qed

lemma answers_change [simp]: "answers (change_events db s b) = {#}"
proof -
  have "answers (map (\<lambda>n. if b then Service_added (f n) r (g n) else Service_removed (h n) r (g n)) ns) = {#}" for f g h r and ns :: "notify list"
    by (induction ns) auto
  then show ?thesis by (simp add: change_events_def)
qed

section \<open>Tokens of an updated map\<close>

lemma tokens_upd:
  assumes "finite (dom m)" and "m r = Some a"
  shows "tokens (m(r \<mapsto> a')) + attr_tokens r a = tokens m + attr_tokens r a'"
proof -
  have d: "dom (m(r \<mapsto> a')) = dom m" "r \<in> dom m" using assms(2) by auto
  have "tokens (m(r \<mapsto> a')) = attr_tokens r a' + (\<Sum>x \<in> dom m - {r}. attr_tokens x (the ((m(r \<mapsto> a')) x)))"
    unfolding tokens_def d(1) by (subst sum.remove[OF assms(1) d(2)]) simp
  moreover have "(\<Sum>x \<in> dom m - {r}. attr_tokens x (the ((m(r \<mapsto> a')) x))) = (\<Sum>x \<in> dom m - {r}. attr_tokens x (the (m x)))"
    by (rule sum.cong) auto
  moreover have "tokens m = attr_tokens r a + (\<Sum>x \<in> dom m - {r}. attr_tokens x (the (m x)))"
    unfolding tokens_def using assms(2) by (subst sum.remove[OF assms(1) d(2)]) simp
  ultimately show ?thesis by (simp add: ac_simps)
qed

lemma tokens_same:
  assumes "finite (dom m)" and "m r = Some a" and "attr_tokens r a' = attr_tokens r a"
  shows "tokens (m(r \<mapsto> a')) = tokens m"
  using tokens_upd[OF assms(1,2), of a'] assms(3) by simp

lemma tokens_new:
  assumes "finite (dom m)" and "m r = None" and "attr_tokens r a = {#}"
  shows "tokens (m(r \<mapsto> a)) = tokens m"
proof -
  have r: "r \<notin> dom m" using assms(2) by auto
  have "(\<Sum>x \<in> dom m. attr_tokens x (the ((m(r \<mapsto> a)) x))) = (\<Sum>x \<in> dom m. attr_tokens x (the (m x)))"
    by (rule sum.cong) (use r in auto)
  then show ?thesis using assms r by (simp add: tokens_def del: fun_upd_apply) simp
qed

lemma tokens_split:
  assumes "finite (dom m)"
  shows "tokens m = tokens (m |` X) + tokens (m |` (- X))"
proof -
  have "tokens (m |` Y) = (\<Sum>x \<in> dom m \<inter> Y. attr_tokens x (the (m x)))" for Y
    unfolding tokens_def by (rule sum.cong) (auto simp: restrict_map_def split: if_splits)
  moreover have "dom m = (dom m \<inter> X) \<union> (dom m \<inter> - X)" by auto
  ultimately show ?thesis
    using sum.union_disjoint[of "dom m \<inter> X" "dom m \<inter> - X" "\<lambda>x. attr_tokens x (the (m x))"] assms
    by (metis (no_types, lifting) Compl_disjoint Int_left_commute finite_Int inf_bot_right inf_commute tokens_def)
qed

section \<open>The attributes of a database\<close>

lemma attr_at_put: "attr_at (put_service db s (Some S)) r = (if fst r = s then attr S (snd r) else attr_at db r)"
  by (simp add: attr_at_def put_service_def)

lemma attr_at_simps [simp]:
  "attr_at (db\<lparr>db_services := x\<rparr>) = attr_at db" "attr_at (db\<lparr>db_next_handle := h\<rparr>) = attr_at db" "attr_at (db\<lparr>db_notify_list := n\<rparr>) = attr_at db"
  "attr_at (db\<lparr>db_next_notify_id := i\<rparr>) = attr_at db" "attr_at (db\<lparr>db_next_ptr := p\<rparr>) = attr_at db"
  by (simp_all add: attr_at_def fun_eq_iff)

lemma finite_attrs:
  assumes "db_ok db"
  shows "finite (dom (attr_at db))"
proof -
  have "dom (attr_at db) \<subseteq> (\<Union>s \<in> set (db_services db). (\<lambda>i. (s, i)) ` {..<length (s_attributes (the (db_svc db s)))})"
  proof
    fix r assume "r \<in> dom (attr_at db)"
    then obtain S a where "db_svc db (fst r) = Some S" "attr S (snd r) = Some a" by (auto simp: attr_at_def bind_eq_Some_conv)
    moreover from this(1) have "fst r \<in> set (db_services db)" using assms by (auto simp: db_ok_def)
    ultimately show "r \<in> (\<Union>s \<in> set (db_services db). (\<lambda>i. (s, i)) ` {..<length (s_attributes (the (db_svc db s)))})"
      by (cases r) (force simp: attr_nth split: if_splits)
  qed
  then show ?thesis by (rule finite_subset) auto
qed

lemma put_attr_map:
  assumes "db_ok db" and "attr_at db r = Some a" and "put_attr db r a' = Some db'"
  shows "attr_at db' = (attr_at db)(r \<mapsto> a')"
proof -
  obtain S where S: "db_svc db (fst r) = Some S" "snd r < length (s_attributes S)"
    "db' = put_service db (fst r) (Some (S\<lparr>s_attributes := (s_attributes S)[snd r := Some a']\<rparr>))"
    using assms(3) by (auto simp: put_attr_def set_slot_def bind_eq_Some_conv split: if_splits)
  show ?thesis
  proof
    fix x show "attr_at db' x = ((attr_at db)(r \<mapsto> a')) x"
      using S by (cases x; cases r) (auto simp: put_service_def attr_nth nth_list_update attr_at_def)
  qed
qed

text \<open>The events at the end of services answer what their attributes hold.\<close>

lemma answers_end:
  assumes "db_ok db"
  shows "answers (end_events db s) = tokens (attr_at db |` {r. fst r = s})"
proof (cases "db_svc db s")
  case None
  then have "dom (attr_at db |` {r. fst r = s}) = {}" by (auto simp: attr_at_def restrict_map_def split: if_splits)
  then show ?thesis using None by (simp add: end_events_def tokens_def)
next
  case (Some S)
  let ?n = "unat (s_num_handles S)" and ?m = "attr_at db |` {r. fst r = s}"
  have l: "length (s_attributes S) = ?n" using svc_ok_length[OF db_okD[OF assms Some]] .
  let ?t = "\<lambda>i. case s_attributes S ! i of None \<Rightarrow> {#} | Some a \<Rightarrow> attr_tokens (s, i) a"
  have dom: "dom ?m = (\<lambda>i. (s, i)) ` {i. i < ?n \<and> s_attributes S ! i \<noteq> None}"
    using Some l by (auto simp: attr_at_def attr_nth restrict_map_def split: if_splits)
  have "tokens ?m = (\<Sum>i \<in> {i. i < ?n \<and> s_attributes S ! i \<noteq> None}. ?t i)"
    unfolding tokens_def dom by (subst sum.reindex) (use Some l in \<open>auto simp: inj_on_def attr_at_def attr_nth intro!: sum.cong\<close>)
  also have "\<dots> = (\<Sum>i \<in> {0..<?n}. ?t i)"
    by (rule sum.mono_neutral_left) (auto split: option.splits)
  also have "\<dots> = answers (concat (map (\<lambda>i. attribute_destroy (s, i) (s_attributes S ! i)) [0..<?n]))"
    by (simp add: answers_destroy comp_def interv_sum_list_conv_sum_set_nat)
  finally show ?thesis using Some by (simp add: end_events_def)
qed

lemma answers_ends:
  assumes "db_ok db" and "distinct ss"
  shows "answers (concat (map (end_events db) ss)) = tokens (attr_at db |` {r. fst r \<in> set ss})"
  using assms(2)
proof (induction ss)
  case Nil
  then show ?case by (simp add: tokens_def)
next
  case (Cons s ss)
  let ?m = "attr_at db |` {r. fst r \<in> set (s # ss)}"
  have "finite (dom ?m)" using finite_attrs[OF assms(1)] by (rule rev_finite_subset) (auto simp: restrict_map_def split: if_splits)
  from tokens_split[OF this, of "{r. fst r = s}"]
  have "tokens ?m = tokens (attr_at db |` {r. fst r = s}) + tokens (attr_at db |` {r. fst r \<in> set ss})"
  proof -
    have "?m |` {r. fst r = s} = attr_at db |` {r. fst r = s}" "?m |` (- {r. fst r = s}) = attr_at db |` {r. fst r \<in> set ss}"
      using Cons.prems by (auto simp: restrict_map_def fun_eq_iff)
    then show ?thesis using tokens_split[OF \<open>finite (dom ?m)\<close>, of "{r. fst r = s}"] by simp
  qed
  then show ?case using Cons answers_end[OF assms(1), of s] by simp
qed

lemma attr_at_without: "attr_at (without db X) = attr_at db |` (- {r. fst r \<in> X})"
  by (auto simp: without_def attr_at_def restrict_map_def fun_eq_iff)

lemma without_tokens:
  assumes "db_ok db" and "distinct ss"
  shows "tokens (attr_at (without db (set ss))) + answers (concat (map (end_events db) ss)) = tokens (attr_at db)"
  using tokens_split[OF finite_attrs[OF assms(1)], of "{r. fst r \<in> set ss}"] answers_ends[OF assms] by (simp add: attr_at_without ac_simps)

section \<open>Every call\<close>

definition accepted :: "(bool \<times> 'a) option \<Rightarrow> bool" where
  "accepted x = (case x of Some (b, _) \<Rightarrow> b | None \<Rightarrow> False)"

text \<open>The request that a call makes and the database accepts.\<close>

fun requested :: "gatt_db \<Rightarrow> db_call \<Rightarrow> token multiset" where
  "requested db (Read tid r off opc f ud) =
     (if accepted (gatt_db_attribute_read tid db (Some r) off opc f ud) then {#Read_token f r ud#} else {#})"
| "requested db (Write mem junk tid r off v opc f ud) =
     (if accepted (gatt_db_attribute_write mem junk tid db (Some r) off v opc f ud) then {#Write_token f r ud#} else {#})"
| "requested db _ = {#}"

definition conserves :: "gatt_db \<Rightarrow> token multiset \<Rightarrow> gatt_db \<Rightarrow> db_event list \<Rightarrow> bool" where
  "conserves db A db' ev = (tokens (attr_at db') + answers ev = tokens (attr_at db) + A)"

lemma conserves_same: "attr_at db' = attr_at db \<Longrightarrow> answers ev = A \<Longrightarrow> conserves db A db' ev"
  by (simp add: conserves_def)

lemma conserves_upd:
  assumes "db_ok db" and "attr_at db r = Some a" and "put_attr db r a' = Some db'"
    and "attr_tokens r a' + answers ev = attr_tokens r a + A"
  shows "conserves db A db' ev"
proof -
  have "tokens (attr_at db') + attr_tokens r a = tokens (attr_at db) + attr_tokens r a'"
    using tokens_upd[OF finite_attrs[OF assms(1)] assms(2)] put_attr_map[OF assms(1-3)] by simp
  then have "tokens (attr_at db') + answers ev + attr_tokens r a = tokens (attr_at db) + A + attr_tokens r a"
    using assms(4) by (metis add.assoc add.commute)
  then show ?thesis by (simp add: conserves_def)
qed

lemma conserves_without:
  assumes "db_ok db" and "distinct ss"
  shows "conserves db {#} (without db (set ss)) (concat (map (end_events db) ss))"
  using without_tokens[OF assms] by (simp add: conserves_def)

text \<open>A service with new attributes in free slots.\<close>

lemma conserves_grown:
  assumes "db_ok db" and "db_svc db s = Some S" and "\<And>j. attr S' j = (if j \<in> J then Some (f j) else attr S j)"
    and "finite J" and "\<And>j. j \<in> J \<Longrightarrow> attr S j = None" and "\<And>j. j \<in> J \<Longrightarrow> a_pending_reads (f j) = [] \<and> a_pending_writes (f j) = []"
  shows "conserves db {#} (put_service db s (Some S')) []"
proof -
  let ?m = "attr_at (put_service db s (Some S'))" and ?X = "Pair s ` J"
  have at: "attr_at db (s, j) = attr S j" for j using assms(2) by (simp add: attr_at_def)
  have sub: "dom ?m \<subseteq> dom (attr_at db) \<union> ?X"
    using assms(3) at by (auto simp: attr_at_put split: if_splits)
  have fin: "finite (dom ?m)" by (rule finite_subset[OF sub]) (use finite_attrs[OF assms(1)] assms(4) in simp)
  have none: "tokens (?m |` ?X) = {#}"
    unfolding tokens_def by (rule sum.neutral) (use assms(3,6) in \<open>auto simp: attr_at_put attr_tokens_def restrict_map_def split: if_splits\<close>)
  have "?m |` (- ?X) = attr_at db"
  proof
    fix r show "(?m |` (- ?X)) r = attr_at db r"
      using assms(3,5) at by (cases r) (auto simp: restrict_map_def attr_at_put image_iff)
  qed
  then show ?thesis using tokens_split[OF fin, of ?X] none by (simp add: conserves_def)
qed

lemma filled_free: "filled S k \<Longrightarrow> k \<le> j \<Longrightarrow> attr S j = None"
  by (auto simp: filled_def attr_nth)

lemma new_tokens [simp]:
  "a_pending_reads (set_attribute_data (fresh_attr h u v) rdf wrf perm ud) = []" "a_pending_writes (set_attribute_data (fresh_attr h u v) rdf wrf perm ud) = []"
  "a_pending_reads (char_decl h p w) = []" "a_pending_writes (char_decl h p w) = []"
  "a_pending_reads (service_decl h b w) = []" "a_pending_writes (service_decl h b w) = []"
  by (simp_all add: char_decl_def service_decl_def set_attribute_data_def fresh_attr_def)

lemma conserves_characteristic:
  assumes "db_ok db" and "db_svc db s = Some S" and "uuid_wf u"
    and "service_insert_characteristic mem db s h u perm props rd wr ud = Some (x, db')"
  shows "conserves db {#} db' []"
  using assms(1-3)
proof (cases rule: service_insert_characteristic_cases[of db s S u mem h perm props rd wr ud])
  case (added S' k h' v)
  have "conserves db {#} (put_service db s (Some S')) []"
    by (rule conserves_grown[OF assms(1,2), where J = "{k, k + 1}" and
        f = "\<lambda>j. if j = k + 1 then set_attribute_data (fresh_attr h' u []) rd wr perm ud else char_decl h' props v"])
      (use added(10) filled_free[OF added(1)] in auto)
  then show ?thesis using added(6) assms(4) by simp
qed (use assms(4) conserves_same in auto)

lemma conserves_descriptor:
  assumes "db_ok db" and "db_svc db s = Some S" and "uuid_wf u"
    and "service_insert_descriptor mem db s h u perm rd wr ud = Some (x, db')"
  shows "conserves db {#} db' []"
  using assms(1-3)
proof (cases rule: service_insert_descriptor_cases[of db s S u mem h perm rd wr ud])
  case (added S' k h')
  have "conserves db {#} (put_service db s (Some S')) []"
    by (rule conserves_grown[OF assms(1,2), where J = "{k}" and f = "\<lambda>_. set_attribute_data (fresh_attr h' u []) rd wr perm ud"])
      (use added(8) filled_free[OF added(1)] in auto)
  then show ?thesis using added(4) assms(4) by simp
qed (use assms(4) conserves_same in auto)

lemma conserves_included:
  assumes "db_ok db" and "db_svc db s = Some S" and "is_attr db i" and "service_insert_included mem db s h i = Some (x, db')"
  shows "conserves db {#} db' []"
proof -
  obtain a I where "attr_at db i = Some a" "db_svc db (fst i) = Some I" using assms(3) by (rule is_attrE)
  with assms(1,2) show ?thesis
  proof (cases rule: service_insert_included_cases[of db s S i a I mem h])
    case (added S' k)
    have "conserves db {#} (put_service db s (Some S')) []"
      by (rule conserves_grown[OF assms(1,2), where J = "{k}" and f = "\<lambda>_. set_attribute_data (fresh_attr (a_handle (the (attr S (k - 1))) + 1)
          included_service_uuid (incl_value I)) 0 0 BT_ATT_PERM_READ 0"])
        (use added(8) filled_free[OF added(1)] in auto)
    then show ?thesis using added(4) assms(4) by simp
  qed (use assms(4) conserves_same in auto)
qed

lemma conserves_insert:
  assumes "db_ok db" and "uuid_wf u" and "gatt_db_insert_service mem db h u p n = Some (x, db')"
  shows "conserves db {#} db' []"
  using assms(1,2)
proof (cases rule: insert_service_cases[of db u mem h p n])
  case (added v after)
  let ?s = "db_next_ptr db" and ?S = "new_service h p n v"
  have none: "attr_at db (?s, i) = None" for i using fresh_ptr[OF assms(1)] by (simp add: attr_at_def)
  have "attr_at db' = (attr_at db)((?s, 0) \<mapsto> service_decl h p v)"
  proof
    fix r show "attr_at db' r = ((attr_at db)((?s, 0) \<mapsto> service_decl h p v)) r"
      using added(9) assms(3) none new_service_attr[OF added(2), of h p v] by (cases r) (auto simp: attr_at_def)
  qed
  then show ?thesis using tokens_new[OF finite_attrs[OF assms(1)] none] by (simp add: conserves_def attr_tokens_def)
qed (use assms(3) conserves_same in auto)

lemma conserves_read:
  assumes "db_ok db" and "is_attr db r" and "gatt_db_attribute_read tid db (Some r) off opc f ud = Some (x, db', ev)"
  shows "conserves db (if x then {#Read_token f r ud#} else {#}) db' ev"
proof -
  obtain a where a: "attr_at db r = Some a" using assms(2) by (auto simp: is_attr_def)
  show ?thesis
  proof (cases "f \<noteq> 0 \<and> a_read_func a \<noteq> 0")
    case True
    let ?n = "a_read_id a + 1"
    have "put_attr db r (a\<lparr>a_read_id := ?n, a_pending_reads := a_pending_reads a @
        [\<lparr>p_id = ?n, p_timeout_id = tid, p_func = f, p_user_data = ud\<rparr>]\<rparr>) = Some db'" "x" "answers ev = {#}"
      using assms(3) a True by (auto simp: gatt_db_attribute_read_def Let_def bind_eq_Some_conv)
    then show ?thesis by (intro conserves_upd[OF assms(1) a]) (auto simp: attr_tokens_def)
  next
    case False
    then show ?thesis using assms(3) a
      by (intro conserves_same) (auto simp: gatt_db_attribute_read_def bind_eq_Some_conv split: if_splits)
  qed
qed

lemma conserves_write:
  assumes "db_ok db" and "is_attr db r" and "gatt_db_attribute_write mem junk tid db (Some r) off v opc f ud = Some (x, db', ev)"
  shows "conserves db (if x then {#Write_token f r ud#} else {#}) db' ev"
proof -
  obtain a where a: "attr_at db r = Some a" using assms(2) by (auto simp: is_attr_def)
  show ?thesis
  proof (cases "f \<noteq> 0 \<and> a_write_func a \<noteq> 0")
    case True
    let ?n = "a_write_id a + 1"
    have "put_attr db r (a\<lparr>a_write_id := ?n, a_pending_writes := a_pending_writes a @
        [\<lparr>p_id = ?n, p_timeout_id = tid, p_func = f, p_user_data = ud\<rparr>]\<rparr>) = Some db'" "x" "answers ev = {#}"
      using assms(3) a True by (auto simp: gatt_db_attribute_write_def Let_def bind_eq_Some_conv)
    then show ?thesis by (intro conserves_upd[OF assms(1) a]) (auto simp: attr_tokens_def)
  next
    case False
    then consider "attr_at db' = attr_at db" "answers ev = (if x then {#Write_token f r ud#} else {#})"
      | a' w where "put_attr db r (a'\<lparr>a_value := Some w\<rparr>) = Some db'" "a' = a \<or> grow_value junk a off (length v) = Some a'"
          "x" "answers ev = {#Write_token f r ud#}"
      using assms(3) a by (auto simp: gatt_db_attribute_write_def bind_eq_Some_conv split: if_splits)
    then show ?thesis
    proof cases
      case 1
      then show ?thesis by (rule conserves_same)
    next
      case 2
      have "attr_tokens r (a'\<lparr>a_value := Some w\<rparr>) = attr_tokens r a"
        using 2(2) by (auto simp: attr_tokens_def grow_value_def Let_def bind_eq_Some_conv)
      then show ?thesis using 2(3,4) by (intro conserves_upd[OF assms(1) a 2(1)]) simp
    qed
  qed
qed

lemma found_tokens:
  assumes "find P ps = Some p"
  shows "read_tokens r (remove_first P ps) + {#Read_token (p_func p) r (p_user_data p)#} = read_tokens r ps"
    and "write_tokens r (remove_first P ps) + {#Write_token (p_func p) r (p_user_data p)#} = write_tokens r ps"
  using assms by (induction ps) (auto split: if_splits)

lemma removed_tokens:
  assumes "p \<in> set ps"
  shows "read_tokens r (remove1 p ps) + {#Read_token (p_func p) r (p_user_data p)#} = read_tokens r ps"
    and "write_tokens r (remove1 p ps) + {#Write_token (p_func p) r (p_user_data p)#} = write_tokens r ps"
  using assms by (induction ps) auto

lemma conserves_results:
  assumes db: "db_ok db" and a: "attr_at db r = Some a"
  shows "gatt_db_attribute_read_result db (Some r) n err v = Some (x, db', ev) \<Longrightarrow> conserves db {#} db' ev"
    and "gatt_db_attribute_write_result db (Some r) n err = Some (x, db', ev) \<Longrightarrow> conserves db {#} db' ev"
    and "read_timeout db r p = Some (db', ev) \<Longrightarrow> p \<in> set (a_pending_reads a) \<Longrightarrow> conserves db {#} db' ev"
    and "write_timeout db r p = Some (db', ev) \<Longrightarrow> p \<in> set (a_pending_writes a) \<Longrightarrow> conserves db {#} db' ev"
proof -
  assume "gatt_db_attribute_read_result db (Some r) n err v = Some (x, db', ev)"
  then consider "db' = db" "ev = []" | q where "find (find_pending n) (a_pending_reads a) = Some q" "ev = pending_read_result r q err v"
      "put_attr db r (a\<lparr>a_pending_reads := remove_first (find_pending n) (a_pending_reads a)\<rparr>) = Some db'"
    using a by (auto simp: gatt_db_attribute_read_result_def bind_eq_Some_conv split: if_splits option.splits)
  then show "conserves db {#} db' ev"
  proof cases
    case 2
    show ?thesis by (rule conserves_upd[OF db a 2(3)]) (use found_tokens(1)[OF 2(1), of r] 2(2) in \<open>simp add: attr_tokens_def\<close>)
  qed (simp add: conserves_same)
next
  assume "gatt_db_attribute_write_result db (Some r) n err = Some (x, db', ev)"
  then consider "db' = db" "ev = []" | q where "find (find_pending n) (a_pending_writes a) = Some q" "ev = pending_write_result r q err"
      "put_attr db r (a\<lparr>a_pending_writes := remove_first (find_pending n) (a_pending_writes a)\<rparr>) = Some db'"
    using a by (auto simp: gatt_db_attribute_write_result_def bind_eq_Some_conv split: if_splits option.splits)
  then show "conserves db {#} db' ev"
  proof cases
    case 2
    show ?thesis by (rule conserves_upd[OF db a 2(3)]) (use found_tokens(2)[OF 2(1), of r] 2(2) in \<open>simp add: attr_tokens_def\<close>)
  qed (simp add: conserves_same)
next
  assume t: "read_timeout db r p = Some (db', ev)" "p \<in> set (a_pending_reads a)"
  then have u: "put_attr db r (a\<lparr>a_pending_reads := remove1 p (a_pending_reads a)\<rparr>) = Some db'"
    using a by (auto simp: read_timeout_def bind_eq_Some_conv)
  show "conserves db {#} db' ev"
    by (rule conserves_upd[OF db a u]) (use t a removed_tokens(1)[OF t(2), of r] in \<open>auto simp: read_timeout_def bind_eq_Some_conv attr_tokens_def\<close>)
next
  assume t: "write_timeout db r p = Some (db', ev)" "p \<in> set (a_pending_writes a)"
  then have u: "put_attr db r (a\<lparr>a_pending_writes := remove1 p (a_pending_writes a)\<rparr>) = Some db'"
    using a by (auto simp: write_timeout_def bind_eq_Some_conv)
  show "conserves db {#} db' ev"
    by (rule conserves_upd[OF db a u]) (use t a removed_tokens(2)[OF t(2), of r] in \<open>auto simp: write_timeout_def bind_eq_Some_conv attr_tokens_def\<close>)
qed
lemma put_same_attrs:
  assumes "db_svc db s = Some S" and "attr S' = attr S"
  shows "attr_at (put_service db s (Some S')) = attr_at db"
  using assms by (auto simp: put_service_def attr_at_def fun_eq_iff)

lemma conserves_flags:
  assumes "db_ok db" and "is_attr db r"
  shows "gatt_db_service_set_active db (Some r) b = Some (x, db', ev) \<Longrightarrow> conserves db {#} db' ev"
    and "gatt_db_service_set_claimed db (Some r) b = Some (y, db') \<Longrightarrow> conserves db {#} db' []"
proof -
  obtain a S where a: "attr_at db r = Some a" "db_svc db (fst r) = Some S" using assms(2) by (rule is_attrE)
  have same: "attr_at (put_service db (fst r) (Some (S\<lparr>s_active := b\<rparr>))) = attr_at db" "attr_at (put_service db (fst r) (Some (S\<lparr>s_claimed := b\<rparr>))) = attr_at db"
    by (rule put_same_attrs[OF a(2)], simp add: attr_nth fun_eq_iff)+
  let ?db = "put_service db (fst r) (Some (S\<lparr>s_active := b\<rparr>))"
  have n: "notify_service_changed ?db (fst r) b = Some (change_events ?db (fst r) b)"
    by (rule notify_service_changed_eq) (use assms(1) in \<open>simp add: db_ok_def put_service_def\<close>)
  show "gatt_db_service_set_active db (Some r) b = Some (x, db', ev) \<Longrightarrow> conserves db {#} db' ev"
    using a same(1) n by (auto simp: gatt_db_service_set_active_def Let_def intro!: conserves_same split: if_splits)
  show "gatt_db_service_set_claimed db (Some r) b = Some (y, db') \<Longrightarrow> conserves db {#} db' []"
    using a same(2) by (auto simp: gatt_db_service_set_claimed_def intro!: conserves_same)
qed

lemma conserves_reset:
  assumes "db_ok db" and "is_attr db r" and "gatt_db_attribute_reset db (Some r) = Some (x, db')"
  shows "conserves db {#} db' []"
proof -
  obtain a where a: "attr_at db r = Some a" using assms(2) by (auto simp: is_attr_def)
  then consider "db' = db" | "put_attr db r (a\<lparr>a_value := None, a_value_len := 0\<rparr>) = Some db'"
    using assms(3) by (auto simp: gatt_db_attribute_reset_def bind_eq_Some_conv split: if_splits)
  then show ?thesis
  proof cases
    case 2
    show ?thesis by (rule conserves_upd[OF assms(1) a 2]) (simp add: attr_tokens_def)
  qed (simp add: conserves_same)
qed

text \<open>The operations that look for the service of a handle first.\<close>

lemma conserves_at:
  assumes "db_ok db" and "\<And>s S x db'. db_svc db s = Some S \<Longrightarrow> f s = Some (x, db') \<Longrightarrow> conserves db {#} db' []"
    and "(do { attrib \<leftarrow> gatt_db_get_service db h; case attrib of None \<Rightarrow> Some (None, db) | Some r \<Rightarrow> f (fst r) }) = Some (x, db')"
  shows "conserves db {#} db' []"
  using assms(1)
proof (cases rule: get_service_cases[of db h])
  case none
  then show ?thesis using assms(3) by (auto intro: conserves_same)
next
  case (some s S)
  then show ?thesis using assms(2)[OF some(2)] assms(3) by simp
qed

lemma conserves_adding:
  assumes "db_ok db" and "call_ok db c" and "db_exec c db = Some (db', ev)"
    and "c = Add_characteristic mem r u perm props rd wr ud \<or> c = Insert_characteristic mem r h u perm props rd wr ud \<or>
      c = Insert_characteristic_at mem h u perm props rd wr ud \<or> c = Add_descriptor mem r u perm rd wr ud \<or>
      c = Insert_descriptor mem r h u perm rd wr ud \<or> c = Insert_descriptor_at mem h u perm rd wr ud \<or>
      c = Add_included mem r i \<or> c = Insert_included mem r h i \<or> c = Insert_included_at mem h i"
  shows "conserves db {#} db' ev"
proof -
  note ch = conserves_characteristic[OF assms(1)] and de = conserves_descriptor[OF assms(1)] and inc = conserves_included[OF assms(1), where i = i]
  have refl: "conserves db {#} db []" by (simp add: conserves_same)
  from assms(4) show ?thesis
  proof (elim disjE)
    assume c: "c = Insert_characteristic_at mem h u perm props rd wr ud"
    then show ?thesis using assms(2,3) conserves_at[OF assms(1), of "\<lambda>s. service_insert_characteristic mem db s h u perm props rd wr ud" h] ch
      by (auto simp: gatt_db_insert_characteristic_def)
  next
    assume c: "c = Insert_descriptor_at mem h u perm rd wr ud"
    then show ?thesis using assms(2,3) conserves_at[OF assms(1), of "\<lambda>s. service_insert_descriptor mem db s h u perm rd wr ud" h] de
      by (auto simp: gatt_db_insert_descriptor_def)
  next
    assume c: "c = Insert_included_at mem h i"
    then show ?thesis using assms(2,3) conserves_at[OF assms(1), of "\<lambda>s. service_insert_included mem db s h i" h] inc
      by (auto simp: gatt_db_insert_included_def)
  next
    assume c: "c = Add_included mem r i"
    then obtain S where "db_svc db (fst r) = Some S" using assms(2) by (auto elim: is_attrE)
    then show ?thesis using c assms(2,3) inc by (auto simp: gatt_db_service_add_included_def)
  next
    assume c: "c = Insert_included mem r h i"
    then obtain S where "db_svc db (fst r) = Some S" using assms(2) by (auto elim: is_attrE)
    then show ?thesis using c assms(2,3) inc refl by (auto simp: gatt_db_service_insert_included_def split: if_splits)
  qed (use assms(2,3) ch de refl in \<open>auto elim!: is_attrE split: if_splits simp: gatt_db_service_add_characteristic_def
      gatt_db_service_insert_characteristic_def gatt_db_service_add_descriptor_def gatt_db_service_insert_descriptor_def\<close>)
qed

lemma conserves_call:
  assumes db: "db_ok db" and c: "call_ok db c" and e: "db_exec c db = Some (db', ev)"
  shows "conserves db (requested db c) db' ev"
proof (cases c)
  case (Insert_service mem h u p n)
  then show ?thesis using e c conserves_insert[OF db] by auto
next
  case (Add_service mem u p n)
  then show ?thesis using e c conserves_insert[OF db] by (auto simp: gatt_db_add_service_def)
next
  case (Remove_service r)
  then obtain a where "attr_at db r = Some a" using c by (auto simp: is_attr_def)
  then show ?thesis using remove_service_eq[OF db] conserves_without[OF db, of "[fst r]"] Remove_service e by auto
next
  case (Clear_range a b)
  have d: "distinct (cleared db a b)" using db by (auto simp: cleared_def db_ok_def)
  show ?thesis
  proof (cases "a \<le> b")
    case True
    then show ?thesis using clear_range_eq[OF db True] conserves_without[OF db d] Clear_range e
      by (auto simp: Let_def conserves_def split: if_splits)
  next
    case False
    then have "b < a" by simp
    then show ?thesis using Clear_range e by (auto simp: gatt_db_clear_range_def intro: conserves_same)
  qed
next
  case (Register a b ud d)
  then show ?thesis using e by (auto simp: gatt_db_register_def Let_def intro!: conserves_same)
next
  case (Unregister n)
  then show ?thesis using e by (auto simp: gatt_db_unregister_def notify_destroy_def intro!: conserves_same split: if_splits option.splits)
next
  case (Set_active r b)
  then show ?thesis using e c conserves_flags(1)[OF db, of r b] by auto
next
  case (Set_claimed r b)
  then show ?thesis using e c conserves_flags(2)[OF db, of r b] by auto
next
  case (Read tid r off opc f ud)
  then show ?thesis using e c conserves_read[OF db, of r tid off opc f ud] by (auto simp: accepted_def)
next
  case (Write mem junk tid r off v opc f ud)
  then show ?thesis using e c conserves_write[OF db, of r mem junk tid off v opc f ud] by (auto simp: accepted_def)
next
  case (Reset r)
  then show ?thesis using e c conserves_reset[OF db, of r] by auto
qed (use conserves_adding[OF db c e] e c conserves_results[OF db] in \<open>auto simp: is_attr_def\<close>)

section \<open>Runs\<close>

text \<open>A run of calls from a new database: the database, the requests accepted so far, the callbacks run so far.\<close>

inductive db_run :: "gatt_db \<Rightarrow> token multiset \<Rightarrow> db_event list \<Rightarrow> bool" where
  start: "db_run gatt_db_new {#} []"
| call: "db_run db A E \<Longrightarrow> call_ok db c \<Longrightarrow> db_exec c db = Some (db', ev) \<Longrightarrow> db_run db' (A + requested db c) (E @ ev)"

lemma db_run_inv:
  assumes "db_run db A E"
  shows "db_ok db \<and> tokens (attr_at db) + answers E = A"
  using assms
proof induction
  case start
  have "attr_at gatt_db_new = Map.empty" by (auto simp: gatt_db_new_def gatt_db_ref_def attr_at_def)
  then show ?case using new_ok by (simp add: tokens_def)
next
  case (call db A E c db' ev)
  then have "conserves db (requested db c) db' ev" "db_ok db'" using conserves_call[of db c] call_ok_result[of db c] by (auto simp: call_result_def)
  then show ?case using call.IH by (simp add: conserves_def) (metis add.assoc add.commute)
qed

lemma destroy_answers:
  assumes "db_ok db"
  shows "\<exists>ev. gatt_db_destroy db = Some ev \<and> answers ev = tokens (attr_at db)"
proof -
  let ?db = "db\<lparr>db_notify_list := []\<rparr>"
  have ok: "db_ok ?db" using assms by (simp add: db_ok_def)
  have d: "\<exists>db'. destroy_services (?db\<lparr>db_services := []\<rparr>) (db_services db) = Some (db', concat (map (end_events ?db) (db_services db)))"
    by (subst destroy_services_eq) (use assms in \<open>auto simp: db_ok_def\<close>)
  have n: "answers (concat (map notify_destroy ns)) = {#}" for ns by (induction ns) (simp_all add: notify_destroy_def)
  have "attr_at db |` {r. fst r \<in> set (db_services db)} = attr_at db"
    using assms by (auto simp: restrict_map_def attr_at_def fun_eq_iff db_ok_def)
  then have "answers (concat (map (end_events ?db) (db_services db))) = tokens (attr_at db)"
    using answers_ends[OF ok, of "db_services db"] assms by (simp add: db_ok_def)
  then show ?thesis using d n by (auto simp: gatt_db_destroy_def)
qed

section \<open>Properties\<close>

text \<open>
  C7. Every accepted read or write is answered exactly once. Whatever calls are made on a new database, the callbacks run so far are a part of the
  requests accepted so far, and when the database is destroyed the callbacks that are still missing are run: in total each
  request has had its callback, on its attribute and with its user data, as often as it was accepted.
\<close>

theorem gatt_db_requests_answered:
  assumes "db_run db A E"
  shows "\<exists>ev. gatt_db_destroy db = Some ev \<and> answers E \<subseteq># A \<and> answers (E @ ev) = A"
  using db_run_inv[OF assms] destroy_answers[of db] by (auto simp: ac_simps)

text \<open>
  A run that ends with an open read: a characteristic with the read callback 5 is added to the service, and read with the callback 7.
\<close>

definition sample_value :: "ptr \<Rightarrow> gatt_db_attribute" where
  "sample_value rdf = set_attribute_data (fresh_attr 12 (BT_UUID16 0x2A00) []) rdf 0 1 0"

definition sample_char :: "ptr \<Rightarrow> gatt_db" where
  "sample_char rdf = put_service sample_db 1 (Some \<lparr>s_active = False, s_claimed = False, s_num_handles = 5,
     s_attributes = [Some (service_decl 10 True [0, 0x18]), Some (char_decl 12 2 [0, 0x2A]), Some (sample_value rdf), None, None]\<rparr>)"

lemma sample_svc: "db_svc sample_db 1 = Some \<lparr>s_active = False, s_claimed = False, s_num_handles = 5,
    s_attributes = [Some (service_decl 10 True [0, 0x18]), None, None, None, None]\<rparr>"
proof -
  have "(replicate 5 None)[0 := Some a] = [Some a, None, None, None, None]" for a :: gatt_db_attribute by (simp add: numeral_eq_Suc)
  then show ?thesis by (simp add: sample_db_def inserted_def gatt_db_new_def gatt_db_ref_def new_service_def)
qed

lemma sample_insert:
  "service_insert_characteristic True sample_db 1 0 (BT_UUID16 0x2A00) 1 2 rdf 0 0 = Some (Some (1, 2), sample_char rdf)"
proof -
  have "le16 0x2A00 = [0, 0x2A]" "le16 12 = [12, 0]" by (simp_all add: le16_def)
  then show ?thesis
    by (simp add: sample_char_def sample_svc[simplified One_nat_def] service_insert_characteristic_def attr_nth slot_def
      get_attribute_index_def free_index.simps get_handle_at_index_def set_slot_def uuid_to_le_def new_attribute_def read_range_def
      Let_def char_decl_def sample_value_def fresh_attr_def set_attribute_data_def service_decl_def)
qed

lemma sample_add: "db_exec (Add_characteristic True (1, 0) (BT_UUID16 0x2A00) 1 2 rdf 0 0) sample_db = Some (sample_char rdf, [])"
  using sample_insert[of rdf] by (simp add: gatt_db_service_add_characteristic_def del: One_nat_def)

lemma sample_attr: "attr_at (sample_char rdf) (1, 2) = Some (sample_value rdf)"
  by (simp add: sample_char_def attr_at_put attr_nth)

lemma sample_run: "db_run (sample_char rdf) {#} []"
proof -
  have "call_ok sample_db (Add_characteristic True (1, 0) (BT_UUID16 0x2A00) 1 2 rdf 0 0)" "call_ok gatt_db_new sample_call"
    using sample_state(4) by (simp_all add: sample_call_def)
  from db_run.call[OF db_run.call[OF db_run.start this(2) sample_exec] this(1) sample_add] show ?thesis by (simp add: sample_call_def)
qed


theorem gatt_db_requests_answered_witness:
  "db_run (the (map_option fst (db_exec (Read 3 (1, 2) 0 0 7 9) (sample_char 5)))) {#Read_token 7 (1, 2) 9#} [Read_request 5 (1, 2) 1 0 0 0] \<and>
   (\<exists>ev. gatt_db_destroy (the (map_option fst (db_exec (Read 3 (1, 2) 0 0 7 9) (sample_char 5)))) = Some ev \<and> answers ev = {#Read_token 7 (1, 2) 9#})"
proof -
  have ok: "call_ok (sample_char 5) (Read 3 (1, 2) 0 0 7 9)" using sample_attr by (simp add: is_attr_def)
  obtain db' where e: "db_exec (Read 3 (1, 2) 0 0 7 9) (sample_char 5) = Some (db', [Read_request 5 (1, 2) 1 0 0 0])"
    "requested (sample_char 5) (Read 3 (1, 2) 0 0 7 9) = {#Read_token 7 (1, 2) 9#}"
  proof -
    have "db_ok (sample_char 5)" using db_run_inv[OF sample_run] by simp
    then obtain db' ev where r: "gatt_db_attribute_read 3 (sample_char 5) (Some (1, 2)) 0 0 7 9 = Some (True, db', [Read_request 5 (1, 2) 1 0 0 0])"
      using exec_read[of "sample_char 5" "(1, 2)" 3 0 0 7 9] sample_attr[of 5]
      by (auto simp: is_attr_def gatt_db_attribute_read_def sample_value_def fresh_attr_def set_attribute_data_def Let_def bind_eq_Some_conv)
    show ?thesis by (rule that[of db']) (use r in \<open>simp_all add: accepted_def\<close>)
  qed
  show ?thesis using gatt_db_requests_answered[OF db_run.call[OF sample_run ok e(1)]] db_run.call[OF sample_run ok e(1)] by (simp add: e del: db_exec.simps requested.simps One_nat_def)
qed

end
