(* ===== verification/GattDbValues.thy ===== *)
theory GattDbValues
  imports GattDbPending
begin

text \<open>
  What is put into the attribute database comes out of it again: services, characteristics, included services and values.
\<close>

section \<open>UUIDs in attribute values\<close>

lemma le_to_uuid_to_le:
  assumes "uuid_wf u" and "uuid_to_le u = Some v"
  obtains w where "le_to_uuid v (length v) = Some (Some w)" "uuid_wf w" "bt_uuid_cmp w u = Some 0"
proof (rule uuid_to_le_ok[OF assms(1)])
  fix x assume x: "uuid_to_le u = Some x" "length x = (case u of BT_UUID16 _ \<Rightarrow> 2 | _ \<Rightarrow> 16)"
    "x = (case u of BT_UUID16 w \<Rightarrow> le16 w | _ \<Rightarrow> rev (canonical u))"
  then have v: "v = x" using assms(2) by simp
  show thesis
  proof (cases "\<exists>w. u = BT_UUID16 w")
    case True
    then obtain w where w: "u = BT_UUID16 w" "v = [ucast w, ucast (drop_bit 8 w)]" using x v by (auto simp: le16_def)
    show ?thesis
      by (rule that[of u]) (use w bt_uuid_cmp_0[of u u] in \<open>simp_all add: le_to_uuid_def read_range_def le16_load16 bt_uuid16_create_def\<close>)
  next
    case False
    then have w: "v = rev (canonical u)" "length v = 16" using x v by (auto split: bt_uuid_t.splits)
    have "canonical (BT_UUID128 (canonical u)) = canonical u" by (simp add: canonical_def)
    then show ?thesis
      by (intro that[of "BT_UUID128 (canonical u)"])
        (use w assms(1) bt_uuid_cmp_0[of "BT_UUID128 (canonical u)" u] length_canonical[OF assms(1)] in
          \<open>simp_all add: le_to_uuid_def bswap_128_def read_range_def bt_uuid128_create_def\<close>)
  qed
qed
section \<open>Characteristics and services\<close>

lemma char_decl_data:
  assumes u: "uuid_wf u" and v: "uuid_to_le u = Some v" and at: "attr_at db r = Some (char_decl h props v)"
  obtains w where "gatt_db_attribute_get_char_data db (Some r) = Some (Some (h - 1, h, props, Some w))" "bt_uuid_cmp w u = Some 0"
proof -
  obtain w where w: "le_to_uuid v (length v) = Some (Some w)" "bt_uuid_cmp w u = Some 0" by (rule le_to_uuid_to_le[OF u v])
  have l: "length v = 2 \<or> length v = 16" by (rule uuid_to_le_ok[OF u]) (use v in \<open>auto split: bt_uuid_t.splits\<close>)
  let ?b = "props # le16 h @ v"
  have vl: "a_value_len (char_decl h props v) = of_nat (3 + length v)" "a_value (char_decl h props v) = Some ?b"
    "a_handle (char_decl h props v) = h - 1" "a_uuid (char_decl h props v) = characteristic_uuid"
    by (simp_all add: char_decl_def set_attribute_data_def fresh_attr_def le16_def)
  have n: "a_value_len (char_decl h props v) = 5 \<or> a_value_len (char_decl h props v) = 19" "unat (a_value_len (char_decl h props v)) - 3 = length v"
    using l unfolding vl by auto
  have rd: "read_range ?b 0 1 = Some [props]" "read_range ?b 1 2 = Some (le16 h)" "drop 3 ?b = v"
    by (simp_all add: read_range_def le16_def)
  have ld: "load16 (le16 h) 0 = h" by (simp add: le16_def le16_load16)
  have c: "bt_uuid_cmp characteristic_uuid characteristic_uuid = Some 0" by (simp add: bt_uuid_cmp_0)
  show ?thesis
    by (rule that[OF _ w(2)]) (use n at w(1) c vl rd ld in \<open>auto simp: gatt_db_attribute_get_char_data_def\<close>)
qed

lemma service_decl_data:
  assumes S: "db_svc db s = Some S" and a: "attr S 0 = Some a" "a_uuid a = service_type primary" and v: "a_value a = Some v" "unat (a_value_len a) = length v"
    and w: "le_to_uuid v (length v) = Some (Some w)"
  shows "gatt_db_attribute_get_service_data db (Some (s, 0)) = Some (Some (a_handle a, a_handle a + s_num_handles S - 1, primary, Some w))"
proof -
  have "bt_uuid_cmp (service_type primary) secondary_service_uuid = Some 0 \<longleftrightarrow> \<not> primary"
    by (cases primary) (simp_all add: service_type_def bt_uuid_cmp_0 canonical_uuid16 primary_service_uuid_def secondary_service_uuid_def)
  moreover obtain c where "bt_uuid_cmp (service_type primary) secondary_service_uuid = Some c"
    using bt_uuid_cmp_eq[of "service_type primary" secondary_service_uuid] by (auto simp: service_type_def)
  ultimately show ?thesis using S a v w
    by (auto simp: gatt_db_attribute_get_service_data_def attr_at_def gatt_db_service_get_handles_def)
qed

lemma found_data:
  assumes db: "db_ok db" and S: "db_svc db s = Some S" and f: "gatt_db_insert_service mem db handle uuid primary num = Some (Some (s, 0), db)"
  obtains w where "gatt_db_attribute_get_service_data db (Some (s, 0)) = Some (Some (handle, handle + num - 1, primary, Some w))" "bt_uuid_cmp w uuid = Some 0"
proof -
  obtain a where a: "attr S 0 = Some a" "decl_ok a" "attr_ok a" using svc_okD[OF db_okD[OF db S]] by metis
  have new: "s \<noteq> db_next_ptr db" using fresh_ptr[OF db] S by auto
  obtain w where w: "gatt_db_attribute_get_service_uuid db (Some (s, 0)) = Some (Some w)"
    "w = (if a_value_len a = 2 then BT_UUID16 (load16 (the (a_value a)) 0) else BT_UUID128 (rev (the (a_value a))))"
    by (rule decl_uuid[OF db S a(1)])
  have c: "bt_uuid_cmp (a_uuid a) (service_type primary) = Some 0" "bt_uuid_cmp w uuid = Some 0" "a_handle a = handle" "s_num_handles S = num"
    using f a(1) S w(1) new by (auto simp: gatt_db_insert_service_def bind_eq_Some_conv Let_def split: if_splits option.splits)
  have "a_uuid a = service_type primary"
    using a(2) c(1) by (auto simp: decl_ok_def service_type_def bt_uuid_cmp_0 canonical_uuid16 primary_service_uuid_def secondary_service_uuid_def split: if_splits)
  moreover obtain v where v: "a_value a = Some v" "length v = unat (a_value_len a)" "a_value_len a = 2 \<or> a_value_len a = 16" using a(2) by (auto simp: decl_ok_def)
  moreover have "le_to_uuid v (length v) = Some (Some w)"
    using v w(2) by (auto simp: le_to_uuid_def read_range_def bswap_128_def bt_uuid16_create_def bt_uuid128_create_def load16_def)
  ultimately show ?thesis using service_decl_data[OF S a(1)] that[OF _ c(2)] c(3,4) by simp
qed

section \<open>Values\<close>

text \<open>The bytes of a value, and those after a write: a gap behind an empty value is filled with zeros.\<close>

definition stored :: "gatt_db_attribute \<Rightarrow> u8 list" where
  "stored a = (case a_value a of None \<Rightarrow> [] | Some v \<Rightarrow> take (unat (a_value_len a)) v)"

definition overwritten :: "u8 list \<Rightarrow> nat \<Rightarrow> u8 list \<Rightarrow> u8 list" where
  "overwritten old off v = take off (old @ replicate (off - length old) 0) @ v @ drop (off + length v) old"

lemma length_stored: "attr_ok a \<Longrightarrow> length (stored a) = unat (a_value_len a)"
  by (auto simp: stored_def attr_ok_def split: option.splits)

lemma read_stored:
  assumes "attr_ok a" and "attr_at db r = Some a" and "a_read_func a = 0" and "f \<noteq> 0"
  shows "gatt_db_attribute_read tid db (Some r) off opc f ud =
    Some (True, db, [if unat off > length (stored a) then Read_done f r BT_ATT_ERROR_INVALID_OFFSET [] ud
      else Read_done f r 0 (drop (unat off) (stored a)) ud])"
proof (cases "unat (a_value_len a) \<le> unat off")
  case True
  then show ?thesis using assms length_stored[OF assms(1)]
    by (auto simp: gatt_db_attribute_read_def word_less_nat_alt word_unat_eq_iff)
next
  case False
  then obtain v where v: "a_value a = Some v" "unat (a_value_len a) \<le> length v"
    using assms(1) by (auto simp: attr_ok_def split: option.splits)
  have "take (unat (a_value_len a) - unat off) (drop (unat off) v) = drop (unat off) (take (unat (a_value_len a)) v)"
    by (simp add: drop_take)
  then show ?thesis using False assms length_stored[OF assms(1)] v
    by (auto simp: gatt_db_attribute_read_def word_less_nat_alt read_range_def stored_def)
qed

text \<open>A write that the database stores itself, with room in the block or a new block.\<close>

lemma write_stored:
  assumes db: "db_ok db" and a: "attr_at db r = Some a" "a_write_func a = 0" and off: "off \<le> a_value_len a \<or> a_value_len a = 0"
    and len: "unat off + length v < 2 ^ 16" "v \<noteq> []"
    and w: "gatt_db_attribute_write mem junk tid db (Some r) off v opc f ud = Some (True, db', ev)"
  obtains a' where "attr_at db' r = Some a'" "attr_ok a'" "a_read_func a' = a_read_func a" "stored a' = overwritten (stored a) (unat off) v"
proof -
  note ok = attr_at_ok(1)[OF db a(1)]
  let ?grow = "a_value a = None \<or> off \<ge> a_value_len a \<or> length v > unat (a_value_len a) - unat off"
  obtain a1 b c where s: "(if ?grow then grow_value junk a off (length v) else Some a) = Some a1" "a_value a1 = Some b"
    "write_range b (unat off) v = Some c" "put_attr db r (a1\<lparr>a_value := Some c\<rparr>) = Some db'"
    using w a len(2) by (auto simp: gatt_db_attribute_write_def bind_eq_Some_conv split: if_splits)
  have c: "unat off + length v \<le> length b" "c = take (unat off) b @ v @ drop (unat off + length v) b"
    using s(3) by (auto simp: write_range_def split: if_splits)
  have at: "attr_at db' r = Some (a1\<lparr>a_value := Some c\<rparr>)" using put_attr_map[OF db a(1) s(4)] by simp
  show ?thesis
  proof (cases ?grow)
    case True
    obtain b' where g: "grow_value junk a off (length v) = Some (a\<lparr>a_value := Some b', a_value_len := of_nat (length v + unat off)\<rparr>)"
      "length b' = length v + unat off" "\<forall>i < unat off. b' ! i = (if a_value_len a = 0 then 0 else case a_value a of None \<Rightarrow> 0 | Some v \<Rightarrow> if i < length v then v ! i else junk i)"
      by (rule grow_value_eq[OF ok, of junk])
    have a1: "a1 = a\<lparr>a_value := Some b', a_value_len := of_nat (length v + unat off)\<rparr>" "b = b'" using s(1,2) g(1) True by auto
    have u: "unat (of_nat (length v + unat off) :: u16) = length v + unat off" unfolding unat_of_nat using len(1) by simp
    have "unat (a_value_len a) \<le> unat off + length v" using True ok off len by (auto simp: attr_ok_def word_le_nat_alt)
    then have d: "drop (unat off + length v) (stored a) = []" using length_stored[OF ok] by simp
    have t: "take (unat off) b' = take (unat off) (stored a @ replicate (unat off - length (stored a)) 0)"
    proof (rule nth_equalityI)
      show "length (take (unat off) b') = length (take (unat off) (stored a @ replicate (unat off - length (stored a)) 0))" using g(2) by simp
      fix i assume "i < length (take (unat off) b')"
      then have i: "i < unat off" by simp
      show "take (unat off) b' ! i = take (unat off) (stored a @ replicate (unat off - length (stored a)) 0) ! i"
        using g(3) i length_stored[OF ok] off ok by (auto simp: nth_append stored_def attr_ok_def word_le_nat_alt split: option.splits)
    qed
    have "c = overwritten (stored a) (unat off) v" using c(2) a1(2) g(2) t d by (simp add: overwritten_def)
    moreover have "length c = length v + unat off" using c a1(2) g(2) by simp
    ultimately show ?thesis using ok u
      by (intro that[OF at]) (simp_all add: a1 attr_ok_def stored_def del: of_nat_add)
  next
    case False
    have "a1 = a" using s(1) unfolding if_not_P[OF False] by simp
    then have a1: "a1 = a" "a_value a = Some b" "length v \<le> unat (a_value_len a) - unat off" "unat off < unat (a_value_len a)"
      using s(2) False by (auto simp: not_le word_less_nat_alt)
    have b: "unat (a_value_len a) \<le> length b" "stored a = take (unat (a_value_len a)) b" using ok a1(2) by (auto simp: attr_ok_def stored_def)
    have "take (unat (a_value_len a)) c = overwritten (stored a) (unat off) v"
      using a1(3,4) b by (simp add: c(2) overwritten_def drop_take min_def)
    then show ?thesis using ok a1(1) b c
      by (intro that[OF at]) (simp_all add: attr_ok_def stored_def)
  qed
qed

section \<open>Properties\<close>

text \<open>
  C30. A characteristic that was added can be read back: its declaration gives the requested value handle, or the one behind the declaration,
  the properties and a UUID equal to the given one; the attribute returned carries that handle, the UUID, the permissions and the user data.
\<close>

theorem gatt_db_char_roundtrip:
  assumes "db_ok db" and "db_svc db s = Some S" and "uuid_wf uuid"
    and "service_insert_characteristic mem db s handle uuid perm props rdf wrf ud = Some (Some r, db')"
  shows "\<exists>h w. gatt_db_attribute_get_char_data db' (Some (fst r, snd r - 1)) = Some (Some (h - 1, h, props, Some w)) \<and> bt_uuid_cmp w uuid = Some 0 \<and>
    (handle \<noteq> 0 \<longrightarrow> h = handle) \<and> gatt_db_attribute_get_handle db' (Some r) = Some h \<and>
    gatt_db_attribute_get_type db' (Some r) = Some (Some uuid) \<and> gatt_db_attribute_get_permissions db' (Some r) = Some perm \<and>
    gatt_db_attribute_get_user_data db' (Some r) = Some ud"
  using assms(1-3)
proof (cases rule: service_insert_characteristic_cases[of db s S uuid mem handle perm props rdf wrf ud])
  case (added S' k h v)
  then have r: "r = (s, k + 1)" "db' = put_service db s (Some S')" using assms(4) by auto
  have at: "attr_at db' (s, k) = Some (char_decl h props v)" "attr_at db' r = Some (set_attribute_data (fresh_attr h uuid []) rdf wrf perm ud)"
    using r added(10) by (simp_all add: attr_at_put)
  obtain w where "gatt_db_attribute_get_char_data db' (Some (s, k)) = Some (Some (h - 1, h, props, Some w))" "bt_uuid_cmp w uuid = Some 0"
    by (rule char_decl_data[OF assms(3) added(5) at(1)])
  then show ?thesis using r(1) at(2) added(4)
    by (intro exI[of _ h] exI[of _ w]) (simp add: gatt_db_attribute_get_handle_def gatt_db_attribute_get_type_def
        gatt_db_attribute_get_permissions_def gatt_db_attribute_get_user_data_def set_attribute_data_def fresh_attr_def)
qed (use assms(4) in simp)

theorem gatt_db_char_roundtrip_witness:
  "\<exists>h w. gatt_db_attribute_get_char_data (sample_char 5) (Some (1, 1)) = Some (Some (h - 1, h, 2, Some w)) \<and> bt_uuid_cmp w (BT_UUID16 0x2A00) = Some 0"
proof -
  from gatt_db_char_roundtrip[OF _ sample_svc _ sample_insert[of 5]] reachable_inv[OF sample_reachable] show ?thesis by auto
qed

text \<open>
  A service that was inserted, or found to be there already, has the range of handles, the kind and a UUID equal to those given.
\<close>

theorem gatt_db_service_roundtrip:
  assumes "db_ok db" and "uuid_wf uuid" and "gatt_db_insert_service mem db handle uuid primary num = Some (Some r, db')"
  shows "\<exists>w. gatt_db_attribute_get_service_data db' (Some r) = Some (Some (handle, handle + num - 1, primary, Some w)) \<and> bt_uuid_cmp w uuid = Some 0"
  using assms(1,2)
proof (cases rule: insert_service_cases[of db uuid mem handle primary num])
  case refused
  then show ?thesis using assms(3) by simp
next
  case (found s S)
  have r: "r = (s, 0)" "db' = db" using found(4) assms(3) by auto
  show ?thesis by (rule found_data[OF assms(1) found(1,4)]) (use r in auto)
next
  case (added v after)
  obtain w where w: "le_to_uuid v (length v) = Some (Some w)" "bt_uuid_cmp w uuid = Some 0" by (rule le_to_uuid_to_le[OF assms(2) added(5)])
  let ?a = "service_decl handle primary v"
  have a: "a_handle ?a = handle" "a_uuid ?a = service_type primary" "a_value ?a = Some v" "unat (a_value_len ?a) = length v"
    using added(6) by (auto simp: service_decl_def set_attribute_data_def fresh_attr_def unat_of_nat)
  have r: "r = (db_next_ptr db, 0)" "db_svc db' (db_next_ptr db) = Some (new_service handle primary num v)" using added(9) assms(3) by auto
  have "attr (new_service handle primary num v) 0 = Some ?a" using new_service_attr[OF added(2), of handle primary v] by simp
  from service_decl_data[OF r(2) this a(2,3,4) w(1)] show ?thesis using w(2) r(1) a(1) by (simp add: new_service_def)
qed

theorem gatt_db_service_roundtrip_witness:
  "\<exists>w. gatt_db_attribute_get_service_data sample_db (Some (1, 0)) = Some (Some (10, 14, True, Some w)) \<and> bt_uuid_cmp w (BT_UUID16 0x1800) = Some 0"
proof -
  from gatt_db_service_roundtrip[OF new_ok(1) _ sample_inserted] show ?thesis by auto
qed

text \<open>
  C27. A value that was written is read back. After a write that starts inside or at the end of the stored value, or on an empty value, a
  read at any offset gives the rest of the value with the written bytes in place, and an invalid offset behind its end.
\<close>

theorem gatt_db_write_read_roundtrip:
  assumes "db_ok db" and "attr_at db r = Some a" and "a_write_func a = 0" and "a_read_func a = 0"
    and "offset \<le> a_value_len a \<or> a_value_len a = 0" and "unat offset + length val < 2 ^ 16" and "val \<noteq> []" and "g \<noteq> 0"
    and "gatt_db_attribute_write mem junk tid db (Some r) offset val opcode f ud = Some (True, db', ev)"
  shows "gatt_db_attribute_read tid' db' (Some r) off opcode' g ud' =
    Some (True, db', [if unat off > length (overwritten (stored a) (unat offset) val) then Read_done g r BT_ATT_ERROR_INVALID_OFFSET [] ud'
      else Read_done g r 0 (drop (unat off) (overwritten (stored a) (unat offset) val)) ud'])"
proof -
  obtain a' where "attr_at db' r = Some a'" "attr_ok a'" "a_read_func a' = a_read_func a" "stored a' = overwritten (stored a) (unat offset) val"
    by (rule write_stored[OF assms(1,2,3,5,6,7,9)])
  then show ?thesis using read_stored[of a' db' r g] assms(4,8) by simp
qed

theorem gatt_db_write_read_roundtrip_witness:
  "\<exists>db' ev. gatt_db_attribute_write True (\<lambda>_. 0) 0 (sample_char 0) (Some (1, 2)) 0 [1, 2, 3] 0 7 0 = Some (True, db', ev) \<and>
    gatt_db_attribute_read 0 db' (Some (1, 2)) 1 0 8 0 = Some (True, db', [Read_done 8 (1, 2) 0 [2, 3] 0])"
proof -
  note at = sample_attr[of 0] and ok = conjunct1[OF db_run_inv[OF sample_run[of 0]]]
  have a: "a_write_func (sample_value 0) = 0" "a_read_func (sample_value 0) = 0" "a_value_len (sample_value 0) = 0" "a_value (sample_value 0) = None"
    by (simp_all add: sample_value_def set_attribute_data_def fresh_attr_def)
  have "is_attr (sample_char 0) (1, 2)" using at by (simp add: is_attr_def)
  then obtain x db' ev where w: "gatt_db_attribute_write True (\<lambda>_. 0) 0 (sample_char 0) (Some (1, 2)) 0 [1, 2, 3] 0 7 0 = Some (x, db', ev)"
    using exec_write[OF ok, of "(1, 2)" True "\<lambda>_. 0" 0 0 "[1, 2, 3]" 0 7 0] by auto
  then have "x" using at a by (auto simp: gatt_db_attribute_write_def bind_eq_Some_conv)
  then show ?thesis
    using gatt_db_write_read_roundtrip[OF ok at a(1,2), of 0 "[1, 2, 3]" 8 True "\<lambda>_. 0" 0 0 7 0 db' ev 0 1 0 0] w a(3,4)
    by (auto simp: overwritten_def stored_def)
qed

end
