(* ===== verification/GattDbHandles.thy ===== *)
theory GattDbHandles
  imports GattDbValues
begin

text \<open>
  The handles of attributes. As long as no caller asks for the handle of a characteristic or descriptor itself, the attributes of a service have consecutive
  handles; then handles name attributes, and the searches over ranges of handles give all attributes there are, in ascending order.
\<close>

section \<open>Consecutive handles\<close>

definition dense :: "gatt_db \<Rightarrow> bool" where
  "dense db = (\<forall>r a. attr_at db r = Some a \<longrightarrow>
     (\<exists>d. attr_at db (fst r, 0) = Some d \<and> unat (a_handle a) = unat (a_handle d) + snd r))"

lemma denseD:
  assumes "dense db" and "attr_at db r = Some a"
  obtains d where "attr_at db (fst r, 0) = Some d" "unat (a_handle a) = unat (a_handle d) + snd r"
  using assms unfolding dense_def by blast

text \<open>The calls that place an attribute at a handle the caller gives.\<close>

fun placing :: "db_call \<Rightarrow> bool" where
  "placing (Insert_characteristic mem r h u perm props rd wr ud) = True"
| "placing (Insert_characteristic_at mem h u perm props rd wr ud) = True"
| "placing (Insert_descriptor mem r h u perm rd wr ud) = True"
| "placing (Insert_descriptor_at mem h u perm rd wr ud) = True"
| "placing _ = False"

definition keeps_handles :: "gatt_db \<Rightarrow> gatt_db \<Rightarrow> bool" where
  "keeps_handles db db' = (\<exists>X. \<forall>r. map_option a_handle (attr_at db' r) = (if fst r \<in> X then None else map_option a_handle (attr_at db r)))"

lemma keeps_same: "attr_at db' = attr_at db \<Longrightarrow> keeps_handles db db'"
  by (auto simp: keeps_handles_def intro!: exI[of _ "{}"])

lemma keeps_put:
  assumes "db_ok db" and "attr_at db r = Some a" and "put_attr db r a' = Some db'" and "a_handle a' = a_handle a"
  shows "keeps_handles db db'"
  using put_attr_map[OF assms(1-3)] assms(2,4) by (auto simp: keeps_handles_def intro!: exI[of _ "{}"])

lemma keeps_without: "keeps_handles db (without db X)"
  by (auto simp: keeps_handles_def attr_at_without restrict_map_def intro!: exI[of _ X])

lemma dense_keeps:
  assumes "dense db" and "keeps_handles db db'"
  shows "dense db'"
proof -
  obtain X where X: "\<And>r. map_option a_handle (attr_at db' r) = (if fst r \<in> X then None else map_option a_handle (attr_at db r))"
    using assms(2) by (auto simp: keeps_handles_def)
  show ?thesis unfolding dense_def
  proof (intro allI impI)
    fix r a assume a: "attr_at db' r = Some a"
    then obtain a0 where a0: "attr_at db r = Some a0" "a_handle a0 = a_handle a" "fst r \<notin> X" using X[of r] by (cases "attr_at db r") (auto split: if_splits)
    obtain d where d: "attr_at db (fst r, 0) = Some d" "unat (a_handle a0) = unat (a_handle d) + snd r" by (rule denseD[OF assms(1) a0(1)])
    then show "\<exists>d. attr_at db' (fst r, 0) = Some d \<and> unat (a_handle a) = unat (a_handle d) + snd r" using X[of "(fst r, 0)"] a0 by auto
  qed
qed

text \<open>Reading, writing and their answers change one attribute and keep its handle.\<close>

lemma keeps_access:
  assumes db: "db_ok db" and a: "attr_at db r = Some a"
  shows "gatt_db_attribute_read tid db (Some r) off opc f ud = Some (x, db', ev) \<Longrightarrow> keeps_handles db db'"
    and "gatt_db_attribute_write mem junk tid db (Some r) off v opc f ud = Some (x, db', ev) \<Longrightarrow> keeps_handles db db'"
    and "gatt_db_attribute_read_result db (Some r) n err v = Some (x, db', ev) \<Longrightarrow> keeps_handles db db'"
    and "gatt_db_attribute_write_result db (Some r) n err = Some (x, db', ev) \<Longrightarrow> keeps_handles db db'"
    and "read_timeout db r p = Some (db', ev) \<Longrightarrow> keeps_handles db db'"
    and "write_timeout db r p = Some (db', ev) \<Longrightarrow> keeps_handles db db'"
    and "gatt_db_attribute_reset db (Some r) = Some (x, db') \<Longrightarrow> keeps_handles db db'"
proof -
  note put = keeps_put[OF db a] and same = keeps_same[OF refl]
  note grow = grow_value_def Let_def bind_eq_Some_conv
  show "gatt_db_attribute_read tid db (Some r) off opc f ud = Some (x, db', ev) \<Longrightarrow> keeps_handles db db'"
    using a by (auto simp: gatt_db_attribute_read_def Let_def bind_eq_Some_conv intro: put same split: if_splits)
  show "gatt_db_attribute_write mem junk tid db (Some r) off v opc f ud = Some (x, db', ev) \<Longrightarrow> keeps_handles db db'"
    using a by (auto simp: gatt_db_attribute_write_def grow intro: put same split: if_splits)
  show "gatt_db_attribute_read_result db (Some r) n err v = Some (x, db', ev) \<Longrightarrow> keeps_handles db db'"
    using a by (auto simp: gatt_db_attribute_read_result_def bind_eq_Some_conv intro: put same split: if_splits option.splits)
  show "gatt_db_attribute_write_result db (Some r) n err = Some (x, db', ev) \<Longrightarrow> keeps_handles db db'"
    using a by (auto simp: gatt_db_attribute_write_result_def bind_eq_Some_conv intro: put same split: if_splits option.splits)
  show "read_timeout db r p = Some (db', ev) \<Longrightarrow> keeps_handles db db'"
    using a by (auto simp: read_timeout_def bind_eq_Some_conv intro: put)
  show "write_timeout db r p = Some (db', ev) \<Longrightarrow> keeps_handles db db'"
    using a by (auto simp: write_timeout_def bind_eq_Some_conv intro: put)
  show "gatt_db_attribute_reset db (Some r) = Some (x, db') \<Longrightarrow> keeps_handles db db'"
    using a by (auto simp: gatt_db_attribute_reset_def bind_eq_Some_conv intro: put same split: if_splits)
qed

lemma keeps_flags:
  assumes "is_attr db r"
  shows "gatt_db_service_set_active db (Some r) b = Some (x, db', ev) \<Longrightarrow> keeps_handles db db'"
    and "gatt_db_service_set_claimed db (Some r) b = Some (x, db') \<Longrightarrow> keeps_handles db db'"
proof -
  obtain a S where a: "attr_at db r = Some a" "db_svc db (fst r) = Some S" using assms by (rule is_attrE)
  have same: "attr_at (put_service db (fst r) (Some (S\<lparr>s_active := b\<rparr>))) = attr_at db" "attr_at (put_service db (fst r) (Some (S\<lparr>s_claimed := b\<rparr>))) = attr_at db"
    by (rule put_same_attrs[OF a(2)], simp add: attr_nth fun_eq_iff)+
  show "gatt_db_service_set_active db (Some r) b = Some (x, db', ev) \<Longrightarrow> keeps_handles db db'"
    using a same(1) by (auto simp: gatt_db_service_set_active_def Let_def bind_eq_Some_conv intro!: keeps_same split: if_splits)
  show "gatt_db_service_set_claimed db (Some r) b = Some (x, db') \<Longrightarrow> keeps_handles db db'"
    using a same(2) by (auto simp: gatt_db_service_set_claimed_def intro!: keeps_same)
qed

section \<open>New attributes\<close>

text \<open>A new attribute behind the last one of a service.\<close>

lemma dense_grown:
  assumes db: "db_ok db" and d: "dense db" and S: "db_svc db s = Some S" and k: "filled S k" "k + n \<le> unat (s_num_handles S)"
    and at: "\<And>j. attr S' j = (if k \<le> j \<and> j < k + n then Some (f j) else attr S j)"
    and h: "\<And>j. k \<le> j \<Longrightarrow> j < k + n \<Longrightarrow> a_handle (f j) = a_handle (the (attr S (k - 1))) + of_nat (j - k + 1)"
  shows "dense (put_service db s (Some S'))"
proof -
  obtain d0 where d0: "attr S 0 = Some d0" "unat (a_handle d0) + unat (s_num_handles S) \<le> 2 ^ 16" using svc_okD[OF db_okD[OF db S]] by metis
  have k1: "1 \<le> k" using k(1) by (simp add: filled_def)
  have "attr S (k - 1) \<noteq> None" using k(1) by (auto simp: filled_def attr_nth)
  then obtain p where p: "attr S (k - 1) = Some p" by auto
  have dn: "unat (a_handle a) = unat (a_handle d0) + j" if "attr S j = Some a" for j a
    by (rule denseD[OF d, of "(s, j)" a]) (use that d0(1) S in \<open>auto simp: attr_at_def\<close>)
  have new: "unat (a_handle (f j)) = unat (a_handle d0) + j" if "k \<le> j" "j < k + n" for j
  proof -
    have "a_handle (f j) = of_nat (unat (a_handle d0) + j)"
    proof -
      have "a_handle p = of_nat (unat (a_handle d0) + (k - 1))" unfolding dn[OF p, symmetric] by simp
      then have "a_handle (f j) = of_nat (unat (a_handle d0) + (k - 1) + (j - k + 1))" using h[OF that] p by simp
      then show ?thesis using k1 that by simp
    qed
    then show ?thesis using d0(2) k(2) that by (simp add: unat_of_nat del: of_nat_add)
  qed
  show ?thesis unfolding dense_def
  proof (intro allI impI)
    fix r a assume a: "attr_at (put_service db s (Some S')) r = Some a"
    show "\<exists>d. attr_at (put_service db s (Some S')) (fst r, 0) = Some d \<and> unat (a_handle a) = unat (a_handle d) + snd r"
    proof (cases "fst r = s")
      case True
      have "attr S' 0 = Some d0" using at[of 0] d0(1) k1 by simp
      moreover have "unat (a_handle a) = unat (a_handle d0) + snd r"
        using a True at[of "snd r"] dn[of "snd r" a] new[of "snd r"] by (cases "k \<le> snd r \<and> snd r < k + n") (auto simp: attr_at_put)
      ultimately show ?thesis using True by (simp add: attr_at_put)
    next
      case False
      then have "attr_at db r = Some a" using a by (simp add: attr_at_put)
      then show ?thesis by (rule denseD[OF d]) (use False in \<open>auto simp: attr_at_put\<close>)
    qed
  qed
qed

lemma dense_characteristic:
  assumes "db_ok db" and "dense db" and "db_svc db s = Some S" and "uuid_wf u"
    and "service_insert_characteristic mem db s 0 u perm props rd wr ud = Some (x, db')"
  shows "dense db'"
  using assms(1,3,4)
proof (cases rule: service_insert_characteristic_cases[of db s S u mem 0 perm props rd wr ud])
  case (added S' k h v)
  have "dense (put_service db s (Some S'))"
    by (rule dense_grown[OF assms(1-3) added(1), where n = 2 and
        f = "\<lambda>j. if j = k + 1 then set_attribute_data (fresh_attr h u []) rd wr perm ud else char_decl h props v"])
      (use added(2,4,10) in \<open>auto simp: char_decl_def set_attribute_data_def fresh_attr_def less_Suc_eq\<close>)
  then show ?thesis using added(6) assms(5) by simp
qed (use assms in auto)

lemma dense_descriptor:
  assumes "db_ok db" and "dense db" and "db_svc db s = Some S" and "uuid_wf u"
    and "service_insert_descriptor mem db s 0 u perm rd wr ud = Some (x, db')"
  shows "dense db'"
  using assms(1,3,4)
proof (cases rule: service_insert_descriptor_cases[of db s S u mem 0 perm rd wr ud])
  case (added S' k h)
  have "dense (put_service db s (Some S'))"
    by (rule dense_grown[OF assms(1-3) added(1), where n = 1 and f = "\<lambda>j. set_attribute_data (fresh_attr h u []) rd wr perm ud"])
      (use added(2,3,8) in \<open>auto simp: set_attribute_data_def fresh_attr_def\<close>)
  then show ?thesis using added(4) assms(5) by simp
qed (use assms in auto)

lemma dense_included:
  assumes "db_ok db" and "dense db" and "db_svc db s = Some S" and "is_attr db i" and "service_insert_included mem db s h i = Some (x, db')"
  shows "dense db'"
proof -
  obtain a I where "attr_at db i = Some a" "db_svc db (fst i) = Some I" using assms(4) by (rule is_attrE)
  with assms(1,3) show ?thesis
  proof (cases rule: service_insert_included_cases[of db s S i a I mem h])
    case (added S' k)
    have "dense (put_service db s (Some S'))"
      by (rule dense_grown[OF assms(1-3) added(1), where n = 1 and f = "\<lambda>_. set_attribute_data (fresh_attr (a_handle (the (attr S (k - 1))) + 1)
          included_service_uuid (incl_value I)) 0 0 BT_ATT_PERM_READ 0"])
        (use added(2,8) in \<open>auto simp: set_attribute_data_def fresh_attr_def\<close>)
    then show ?thesis using added(4) assms(5) by simp
  qed (use assms in auto)
qed

lemma dense_insert:
  assumes "db_ok db" and "dense db" and "uuid_wf u" and "gatt_db_insert_service mem db h u p n = Some (x, db')"
  shows "dense db'"
  using assms(1,3)
proof (cases rule: insert_service_cases[of db u mem h p n])
  case (added v after)
  let ?s = "db_next_ptr db"
  have none: "attr_at db (?s, i) = None" for i using fresh_ptr[OF assms(1)] by (simp add: attr_at_def)
  have "attr_at db' = (attr_at db)((?s, 0) \<mapsto> service_decl h p v)"
  proof
    fix r show "attr_at db' r = ((attr_at db)((?s, 0) \<mapsto> service_decl h p v)) r"
      using added(9) assms(4) none new_service_attr[OF added(2), of h p v] by (cases r) (auto simp: attr_at_def)
  qed
  then show ?thesis using assms(2) none by (auto simp: dense_def)
qed (use assms in auto)

lemma dense_call:
  assumes db: "db_ok db" and c: "call_ok db c" and e: "db_exec c db = Some (db', ev)" and np: "\<not> placing c" and d: "dense db"
  shows "dense db'"
proof (cases c)
  case (Insert_service mem h u p n)
  then show ?thesis using e c dense_insert[OF db d] by auto
next
  case (Add_service mem u p n)
  then show ?thesis using e c dense_insert[OF db d] by (auto simp: gatt_db_add_service_def)
next
  case (Remove_service r)
  then obtain a where "attr_at db r = Some a" using c by (auto simp: is_attr_def)
  then show ?thesis using remove_service_eq[OF db] dense_keeps[OF d keeps_without] Remove_service e by auto
next
  case (Clear_range a b)
  show ?thesis
  proof (cases "a \<le> b")
    case True
    then show ?thesis using clear_range_eq[OF db True] dense_keeps[OF d keeps_without] Clear_range e
      by (auto simp: Let_def dense_def split: if_splits)
  next
    case False
    then have "b < a" by simp
    then show ?thesis using Clear_range e d by (auto simp: gatt_db_clear_range_def)
  qed
next
  case (Register a b ud k)
  then have "attr_at db' = attr_at db" using e by (auto simp: gatt_db_register_def Let_def split: if_splits)
  then show ?thesis using dense_keeps[OF d keeps_same] by simp
next
  case (Unregister n)
  then have "attr_at db' = attr_at db" using e by (auto simp: gatt_db_unregister_def split: if_splits option.splits)
  then show ?thesis using dense_keeps[OF d keeps_same] by simp
next
  case (Add_characteristic mem r u perm props rd wr ud)
  then obtain S where "db_svc db (fst r) = Some S" using c by (auto elim: is_attrE)
  then show ?thesis using Add_characteristic e c dense_characteristic[OF db d] by (auto simp: gatt_db_service_add_characteristic_def)
next
  case (Add_descriptor mem r u perm rd wr ud)
  then obtain S where "db_svc db (fst r) = Some S" using c by (auto elim: is_attrE)
  then show ?thesis using Add_descriptor e c dense_descriptor[OF db d] by (auto simp: gatt_db_service_add_descriptor_def)
next
  case (Add_included mem r i)
  then obtain S where "db_svc db (fst r) = Some S" using c by (auto elim: is_attrE)
  then show ?thesis using Add_included e c dense_included[OF db d, where i = i] by (auto simp: gatt_db_service_add_included_def)
next
  case (Insert_included mem r h i)
  then obtain S where "db_svc db (fst r) = Some S" using c by (auto elim: is_attrE)
  then show ?thesis using Insert_included e c d dense_included[OF db d, where i = i]
    by (auto simp: gatt_db_service_insert_included_def split: if_splits)
next
  case (Insert_included_at mem h i)
  show ?thesis using db
  proof (cases rule: get_service_cases[of db h])
    case (some s S)
    then show ?thesis using Insert_included_at e c dense_included[OF db d, where i = i] by (auto simp: gatt_db_insert_included_def)
  qed (use Insert_included_at e d in \<open>auto simp: gatt_db_insert_included_def\<close>)
next
  case (Set_active r b)
  then show ?thesis using e c keeps_flags(1)[of db r b] dense_keeps[OF d] by auto
next
  case (Set_claimed r b)
  then show ?thesis using e c keeps_flags(2)[of db r b] dense_keeps[OF d] by auto
qed (use e c np keeps_access[OF db] dense_keeps[OF d] in \<open>auto simp: is_attr_def\<close>)
section \<open>Databases built without placing attributes\<close>

inductive built :: "gatt_db \<Rightarrow> bool" where
  start: "built gatt_db_new"
| call: "built db \<Longrightarrow> call_ok db c \<Longrightarrow> tight db c \<Longrightarrow> \<not> placing c \<Longrightarrow> db_exec c db = Some (db', ev) \<Longrightarrow> built db'"

lemma built_reachable: "built db \<Longrightarrow> reachable db"
  by (induction rule: built.induct) (auto intro: reachable.intros)

lemma built_dense:
  assumes "built db"
  shows "dense db"
  using assms
proof induction
  case start
  then show ?case by (auto simp: dense_def gatt_db_new_def gatt_db_ref_def attr_at_def)
next
  case (call db c db' ev)
  then show ?case using dense_call[of db c db' ev] reachable_inv[OF built_reachable[OF call.hyps(1)]] by simp
qed

text \<open>The handle of an attribute lies in the range of its service.\<close>

lemma dense_handle:
  assumes db: "db_ok db" and d: "dense db" and S: "db_svc db s = Some S" and a: "attr S i = Some a"
  shows "unat (a_handle a) = svc_start S + i" "start_of db s \<le> unat (a_handle a)" "unat (a_handle a) \<le> last_of db s" "i < unat (s_num_handles S)"
    "s \<in> set (db_services db)"
proof -
  have at: "attr_at db (s, i) = Some a" using S a by (simp add: attr_at_def)
  show h: "unat (a_handle a) = svc_start S + i"
    by (rule denseD[OF d at]) (use S in \<open>auto simp: attr_at_def svc_start_def\<close>)
  show i: "i < unat (s_num_handles S)" using a svc_ok_length[OF db_okD[OF db S]] by (auto simp: attr_nth split: if_splits)
  show "start_of db s \<le> unat (a_handle a)" "unat (a_handle a) \<le> last_of db s" using h i S by (auto simp: start_of_def last_of_def svc_last_def)
  show "s \<in> set (db_services db)" using S db by (auto simp: db_ok_def)
qed

lemma handle_loop_eq:
  assumes "\<forall>i \<in> set is. slot S i \<noteq> None"
  shows "handle_loop S s h is = Some (map_option (Pair s) (find (\<lambda>i. case attr S i of None \<Rightarrow> False | Some a \<Rightarrow> a_handle a = h) is))"
  using assms by (induction "is") (auto simp: attr_def split: option.splits)

lemma find_handle:
  assumes "db_ok db" and "dense db" and "db_svc db s = Some S" and "attr S i = Some a"
  shows "find (\<lambda>i. case attr S i of None \<Rightarrow> False | Some b \<Rightarrow> a_handle b = a_handle a) [0..<unat (s_num_handles S)] = Some i"
proof -
  note i = dense_handle(1,4)[OF assms]
  have "j = i" if "attr S j = Some b" "a_handle b = a_handle a" for j b using dense_handle(1)[OF assms(1-3) that(1)] that(2) i(1) by simp
  then have "\<not> (case attr S j of None \<Rightarrow> False | Some b \<Rightarrow> a_handle b = a_handle a)" if "j < i" for j using that by (cases "attr S j") auto
  then show ?thesis unfolding find_Some_iff using i(2) assms(4) by (intro exI[of _ i]) simp
qed

section \<open>Searches\<close>

definition in_range :: "u16 \<Rightarrow> u16 \<Rightarrow> gatt_db_service \<Rightarrow> nat \<Rightarrow> bool" where
  "in_range lo hi S i = (case attr S i of None \<Rightarrow> False | Some a \<Rightarrow> lo \<le> a_handle a \<and> a_handle a \<le> hi)"

definition has_type :: "bt_uuid_t \<Rightarrow> gatt_db_service \<Rightarrow> nat \<Rightarrow> bool" where
  "has_type u S i = (case attr S i of None \<Rightarrow> False | Some a \<Rightarrow> bt_uuid_cmp u (a_uuid a) = Some 0)"

text \<open>In a service with ascending handles a loop that stops at the first handle above the range misses nothing.\<close>

lemma above_stays:
  assumes "sorted_wrt (\<lambda>i j. \<forall>a b. attr S i = Some a \<longrightarrow> attr S j = Some b \<longrightarrow> a_handle a < a_handle b) (i # is)" and "attr S i = Some a" and "hi < a_handle a"
  shows "filter (\<lambda>i. in_range lo hi S i \<and> Q i) is = []"
  using assms by (fastforce simp: filter_empty_conv in_range_def not_le split: option.splits)

lemma read_by_type_loop_eq:
  assumes "\<forall>i \<in> set is. slot S i \<noteq> None" and "\<And>i a. attr S i = Some a \<Longrightarrow> uuid_wf (a_uuid a)" and "uuid_wf u"
    and "sorted_wrt (\<lambda>i j. \<forall>a b. attr S i = Some a \<longrightarrow> attr S j = Some b \<longrightarrow> a_handle a < a_handle b) is"
  shows "read_by_type_loop S s lo hi u is = Some (map (Pair s) (filter (\<lambda>i. in_range lo hi S i \<and> has_type u S i) is))"
  using assms(1,4)
proof (induction "is")
  case (Cons i "is")
  then obtain x where x: "slot S i = Some x" by auto
  show ?case
  proof (cases x)
    case None
    then show ?thesis using Cons x by (simp add: in_range_def attr_def)
  next
    case (Some a)
    then have a: "attr S i = Some a" using x by (simp add: attr_def)
    obtain c where c: "bt_uuid_cmp u (a_uuid a) = Some c" using bt_uuid_cmp_eq[OF assms(3) assms(2)[OF a]] by simp
    show ?thesis using Cons x Some a c above_stays[OF Cons.prems(2) a, of hi lo "has_type u S"]
      by (auto simp: in_range_def[of _ _ _ i] has_type_def[of _ _ i] not_less)
  qed
qed simp

lemma find_information_loop_eq:
  assumes "\<forall>i \<in> set is. slot S i \<noteq> None"
    and "sorted_wrt (\<lambda>i j. \<forall>a b. attr S i = Some a \<longrightarrow> attr S j = Some b \<longrightarrow> a_handle a < a_handle b) is"
  shows "find_information_loop S s lo hi is = Some (map (Pair s) (filter (in_range lo hi S) is))"
  using assms
proof (induction "is")
  case (Cons i "is")
  then obtain x where x: "slot S i = Some x" by auto
  show ?case
  proof (cases x)
    case None
    then show ?thesis using Cons x by (simp add: in_range_def attr_def)
  next
    case (Some a)
    then have a: "attr S i = Some a" using x by (simp add: attr_def)
    show ?thesis using Cons x Some a above_stays[OF Cons.prems(2) a, of hi lo "\<lambda>_. True"]
      by (auto simp: in_range_def[of _ _ _ i] not_less)
  qed
qed simp

text \<open>All attributes of active services in a range of handles that satisfy a condition, service by service.\<close>

definition hits :: "gatt_db \<Rightarrow> u16 \<Rightarrow> u16 \<Rightarrow> (gatt_db_service \<Rightarrow> nat \<Rightarrow> bool) \<Rightarrow> ptr \<Rightarrow> aref list" where
  "hits db lo hi Q s = (case db_svc db s of None \<Rightarrow> [] | Some S \<Rightarrow>
     if s_active S then map (Pair s) (filter (\<lambda>i. in_range lo hi S i \<and> Q S i) [0..<unat (s_num_handles S)]) else [])"

definition handle_at :: "gatt_db \<Rightarrow> aref \<Rightarrow> u16" where
  "handle_at db r = (case attr_at db r of None \<Rightarrow> 0 | Some a \<Rightarrow> a_handle a)"

lemma dense_ascending:
  assumes "db_ok db" and "dense db" and "db_svc db s = Some S"
  shows "sorted_wrt (\<lambda>i j. \<forall>a b. attr S i = Some a \<longrightarrow> attr S j = Some b \<longrightarrow> a_handle a < a_handle b) [0..<n]"
  using dense_handle(1)[OF assms] by (auto simp: sorted_wrt_iff_nth_less word_less_nat_alt)

lemma sorted_wrt_concat:
  assumes "\<forall>xs \<in> set xss. sorted_wrt R xs" and "sorted_wrt (\<lambda>xs ys. \<forall>x \<in> set xs. \<forall>y \<in> set ys. R x y) xss"
  shows "sorted_wrt R (concat xss)"
  using assms by (induction xss) (auto simp: sorted_wrt_append)

lemma hits_iff:
  "r \<in> set (hits db lo hi Q s) \<longleftrightarrow> fst r = s \<and> (\<exists>S a. db_svc db s = Some S \<and> s_active S \<and> attr S (snd r) = Some a \<and>
     lo \<le> a_handle a \<and> a_handle a \<le> hi \<and> snd r < unat (s_num_handles S) \<and> Q S (snd r))"
  by (cases r; cases "db_svc db s") (auto simp: hits_def in_range_def split: option.splits)

lemma hits_member:
  assumes db: "db_ok db" and d: "dense db" and r: "r \<in> set (hits db lo hi Q s)"
  shows "start_of db s \<le> unat (handle_at db r)" "unat (handle_at db r) \<le> last_of db s"
proof -
  obtain S a where "fst r = s" "db_svc db s = Some S" "attr S (snd r) = Some a" using r by (auto simp: hits_iff)
  then show "start_of db s \<le> unat (handle_at db r)" "unat (handle_at db r) \<le> last_of db s"
    using dense_handle(2,3)[OF db d] by (auto simp: handle_at_def attr_at_def)
qed

lemma hits_sorted:
  assumes db: "db_ok db" "db_ordered db" and d: "dense db"
  shows "sorted_wrt (\<lambda>r q. handle_at db r < handle_at db q) (concat (map (hits db lo hi Q) (db_services db)))"
proof (rule sorted_wrt_concat)
  show "\<forall>xs \<in> set (map (hits db lo hi Q) (db_services db)). sorted_wrt (\<lambda>r q. handle_at db r < handle_at db q) xs"
  proof
    fix xs assume "xs \<in> set (map (hits db lo hi Q) (db_services db))"
    then obtain s where xs: "xs = hits db lo hi Q s" by auto
    show "sorted_wrt (\<lambda>r q. handle_at db r < handle_at db q) xs"
    proof (cases "db_svc db s")
      case (Some S)
      let ?is = "filter (\<lambda>i. in_range lo hi S i \<and> Q S i) [0..<unat (s_num_handles S)]"
      have "sorted_wrt (\<lambda>i j. \<forall>a b. attr S i = Some a \<longrightarrow> attr S j = Some b \<longrightarrow> a_handle a < a_handle b) ?is"
        by (rule sorted_wrt_filter[OF dense_ascending[OF db(1) d Some]])
      then have "sorted_wrt (\<lambda>i j. handle_at db (s, i) < handle_at db (s, j)) ?is"
        by (rule sorted_wrt_mono_rel[rotated]) (use Some in \<open>auto simp: in_range_def handle_at_def attr_at_def split: option.splits\<close>)
      then show ?thesis using Some xs by (simp add: hits_def sorted_wrt_map)
    qed (simp add: xs hits_def)
  qed
  have "sorted_wrt (\<lambda>s t. last_of db s < start_of db t) (db_services db)" using db(2) by (simp add: db_ordered_def)
  then have "sorted_wrt (\<lambda>s t. \<forall>x \<in> set (hits db lo hi Q s). \<forall>y \<in> set (hits db lo hi Q t). handle_at db x < handle_at db y) (db_services db)"
    by (rule sorted_wrt_mono_rel[rotated]) (use hits_member[OF db(1) d] in \<open>fastforce simp: word_less_nat_alt\<close>)
  then show "sorted_wrt (\<lambda>xs ys. \<forall>x \<in> set xs. \<forall>y \<in> set ys. handle_at db x < handle_at db y) (map (hits db lo hi Q) (db_services db))"
    by (simp add: sorted_wrt_map)
qed

lemma hits_set:
  assumes "db_ok db"
  shows "r \<in> set (concat (map (hits db lo hi Q) (db_services db))) \<longleftrightarrow>
    (\<exists>S a. db_svc db (fst r) = Some S \<and> s_active S \<and> attr_at db r = Some a \<and> lo \<le> a_handle a \<and> a_handle a \<le> hi \<and> Q S (snd r))"
proof -
  have "fst r \<in> set (db_services db)" if "db_svc db (fst r) = Some S" for S using that assms by (auto simp: db_ok_def)
  moreover have "snd r < unat (s_num_handles S)" if "db_svc db (fst r) = Some S" "attr S (snd r) = Some a" for S a
    using that svc_ok_length[OF db_okD[OF assms that(1)]] by (auto simp: attr_nth split: if_splits)
  ultimately show ?thesis unfolding set_concat set_map UN_iff bex_simps hits_iff attr_at_def by auto
qed

lemma read_by_type_eq:
  assumes db: "db_ok db" and d: "dense db" and u: "uuid_wf u"
  shows "gatt_db_read_by_type db lo hi u = Some (concat (map (hits db lo hi (has_type u)) (db_services db)))"
  unfolding gatt_db_read_by_type_def
proof (rule concat_opt_total, rule ballI)
  fix s assume "s \<in> set (db_services db)"
  then obtain S where S: "db_svc db s = Some S" using db by (auto simp: db_ok_def)
  note ok = db_okD[OF db S]
  have "read_by_type_loop S s lo hi u [0..<unat (s_num_handles S)] =
      Some (map (Pair s) (filter (\<lambda>i. in_range lo hi S i \<and> has_type u S i) [0..<unat (s_num_handles S)]))"
    by (rule read_by_type_loop_eq[OF _ _ u dense_ascending[OF db d S]]) (use svc_ok_slot[OF ok] svc_ok_attr_ok[OF ok] in \<open>auto simp: attr_ok_def\<close>)
  then show "read_by_type db lo hi u s = Some (hits db lo hi (has_type u) s)" using S by (simp add: read_by_type_def hits_def)
qed

lemma find_information_eq:
  assumes db: "db_ok db" and d: "dense db"
  shows "gatt_db_find_information db lo hi = Some (concat (map (hits db lo hi (\<lambda>_ _. True)) (db_services db)))"
  unfolding gatt_db_find_information_def
proof (rule concat_opt_total, rule ballI)
  fix s assume "s \<in> set (db_services db)"
  then obtain S where S: "db_svc db s = Some S" using db by (auto simp: db_ok_def)
  note ok = db_okD[OF db S]
  obtain a where a: "attr S 0 = Some a" "svc_last S = unat (a_handle a) + unat (s_num_handles S) - 1" using svc_okD[OF ok] by metis
  have loop: "find_information_loop S s lo hi [0..<unat (s_num_handles S)] = Some (map (Pair s) (filter (in_range lo hi S) [0..<unat (s_num_handles S)]))"
    by (rule find_information_loop_eq[OF _ dense_ascending[OF db d S]]) (use svc_ok_slot[OF ok] in auto)
  have "filter (in_range lo hi S) [0..<unat (s_num_handles S)] = []" if "svc_last S < unat lo"
    using that dense_handle(3)[OF db d S] S by (fastforce simp: filter_empty_conv in_range_def last_of_def word_le_nat_alt split: option.splits)
  then show "find_information db lo hi s = Some (hits db lo hi (\<lambda>_ _. True) s)"
    using S a loop by (auto simp: find_information_def hits_def)
qed

text \<open>The database of the examples, with its service switched on.\<close>

lemma sample_built: "built (sample_char rdf)"
proof -
  have ok: "call_ok sample_db (Add_characteristic True (1, 0) (BT_UUID16 0x2A00) 1 2 rdf 0 0)" "call_ok gatt_db_new sample_call" "tight gatt_db_new sample_call"
    using sample_state(4) by (simp_all add: sample_call_def tight_def encloses_def gatt_db_new_def gatt_db_ref_def)
  have "built sample_db" by (rule built.call[OF built.start ok(2,3) _ sample_exec]) (simp add: sample_call_def)
  then show ?thesis by (rule built.call[OF _ ok(1) _ _ sample_add]) (simp_all add: tight_def)
qed

definition sample_active :: gatt_db where
  "sample_active = put_service (sample_char 5) 1 (Some ((the (db_svc (sample_char 5) 1))\<lparr>s_active := True\<rparr>))"

lemma sample_active_attr: "attr_at sample_active (1, 2) = Some (sample_value 5)" "\<exists>S. db_svc sample_active 1 = Some S \<and> s_active S"
  by (simp_all add: sample_active_def sample_char_def put_service_def attr_at_def attr_nth)

lemma sample_active_built: "built sample_active"
proof -
  have "is_attr (sample_char 5) (1, 0)" by (simp add: is_attr_def sample_char_def attr_at_put attr_nth)
  moreover have "db_notify_list (sample_char 5) = []"
    by (simp add: sample_char_def sample_db_def inserted_def gatt_db_new_def gatt_db_ref_def put_service_def)
  then have "db_exec (Set_active (1, 0) True) (sample_char 5) = Some (sample_active, [])"
    by (simp add: gatt_db_service_set_active_def sample_active_def sample_char_def put_service_def attr_at_def attr_nth notify_service_changed_def Let_def)
  ultimately show ?thesis by (intro built.call[OF sample_built[of 5], of "Set_active (1, 0) True" sample_active "[]"]) (simp_all add: tight_def del: One_nat_def)
qed

section \<open>Properties\<close>







end
