(* ===== verification/GattServerInv.thy ===== *)
theory GattServerInv
  imports GattServer GattDbHandles
begin

text \<open>
  What the handlers of the GATT server leave as it is, and the invariant of the server they keep.
\<close>

section \<open>The shape of a database\<close>

text \<open>What reading and writing of values keep: the services and, of every attribute, all but its value and its pending requests.\<close>

definition fixed_part :: "gatt_db_attribute \<Rightarrow> u16 \<times> bt_uuid_t \<times> u32 \<times> ptr \<times> ptr" where
  "fixed_part a = (a_handle a, a_uuid a, a_permissions a, a_read_func a, a_write_func a)"

definition svc_shape :: "gatt_db_service \<Rightarrow> bool \<times> u16 \<times> (u16 \<times> bt_uuid_t \<times> u32 \<times> ptr \<times> ptr) option list" where
  "svc_shape S = (s_active S, s_num_handles S, map (map_option fixed_part) (s_attributes S))"

definition same_shape :: "gatt_db \<Rightarrow> gatt_db \<Rightarrow> bool" where
  "same_shape db db' = (db_services db' = db_services db \<and> (\<forall>s. map_option svc_shape (db_svc db' s) = map_option svc_shape (db_svc db s)))"

lemma same_shape_refl [simp]: "same_shape db db"
  by (simp add: same_shape_def)

lemma same_shape_trans: "same_shape a b \<Longrightarrow> same_shape b c \<Longrightarrow> same_shape a c"
  by (simp add: same_shape_def)

lemma same_shape_put:
  assumes "attr_at db r = Some a" and "put_attr db r a' = Some db'" and "fixed_part a' = fixed_part a"
  shows "same_shape db db'"
proof -
  obtain S where S: "db_svc db (fst r) = Some S" "snd r < length (s_attributes S)"
    "db' = put_service db (fst r) (Some (S\<lparr>s_attributes := (s_attributes S)[snd r := Some a']\<rparr>))"
    using assms(2) by (auto simp: put_attr_def set_slot_def bind_eq_Some_conv split: if_splits)
  have "s_attributes S ! snd r = Some a" using assms(1) S(1,2) by (simp add: attr_at_def attr_nth)
  then have "svc_shape (S\<lparr>s_attributes := (s_attributes S)[snd r := Some a']\<rparr>) = svc_shape S"
    using assms(3) S(2) list_update_id[of "map (map_option fixed_part) (s_attributes S)" "snd r"]
    by (simp add: svc_shape_def map_update)
  then show ?thesis using S by (simp add: same_shape_def put_service_def)
qed

lemma shape_none: "same_shape db db' \<Longrightarrow> db_svc db s = None \<Longrightarrow> db_svc db' s = None"
  unfolding same_shape_def by (metis map_option_is_None)

lemma shape_svc:
  assumes "same_shape db db'" and "db_svc db s = Some S"
  obtains S' where "db_svc db' s = Some S'" "svc_shape S' = svc_shape S"
proof -
  have "map_option svc_shape (db_svc db' s) = Some (svc_shape S)" using assms by (simp add: same_shape_def)
  then show ?thesis using that by (cases "db_svc db' s") auto
qed

lemma shape_attr:
  assumes "svc_shape S' = svc_shape S"
  shows "\<And>i. map_option fixed_part (attr S' i) = map_option fixed_part (attr S i)" "s_num_handles S' = s_num_handles S" "s_active S' = s_active S"
    "length (s_attributes S') = length (s_attributes S)"
proof -
  have m: "map (map_option fixed_part) (s_attributes S') = map (map_option fixed_part) (s_attributes S)" using assms by (simp add: svc_shape_def)
  from m show l: "length (s_attributes S') = length (s_attributes S)" by (metis length_map)
  fix i
  have "map_option fixed_part (s_attributes S' ! i) = map_option fixed_part (s_attributes S ! i)" if "i < length (s_attributes S)"
    using arg_cong[OF m, of "\<lambda>xs. xs ! i"] that l by simp
  then show "map_option fixed_part (attr S' i) = map_option fixed_part (attr S i)" using l by (simp add: attr_nth)
qed (use assms in \<open>simp_all add: svc_shape_def\<close>)

lemma shape_sym: "same_shape db db' \<Longrightarrow> same_shape db' db"
  by (simp add: same_shape_def)

lemma shape_attr_at:
  assumes "same_shape db db'"
  shows "map_option fixed_part (attr_at db' r) = map_option fixed_part (attr_at db r)"
proof (cases "db_svc db (fst r)")
  case None
  then have "db_svc db' (fst r) = None" by (rule shape_none[OF assms])
  then show ?thesis using None by (simp add: attr_at_def)
next
  case (Some S)
  obtain S' where "db_svc db' (fst r) = Some S'" "svc_shape S' = svc_shape S" by (rule shape_svc[OF assms Some])
  then show ?thesis using Some shape_attr(1)[of S' S] by (simp add: attr_at_def)
qed

lemma shape_some:
  assumes "same_shape db db'" and "attr_at db r = Some a"
  obtains a' where "attr_at db' r = Some a'" "fixed_part a' = fixed_part a"
  using shape_attr_at[OF assms(1), of r] assms(2) by (cases "attr_at db' r") auto

lemma shape_get_service:
  assumes "same_shape db db'"
  shows "gatt_db_get_service db' h = gatt_db_get_service db h"
proof -
  have "find_service_for_handle db' h s = find_service_for_handle db h s" for s
  proof (cases "db_svc db s")
    case None
    then have "db_svc db' s = None" by (rule shape_none[OF assms])
    then show ?thesis using None by (simp add: find_service_for_handle_def)
  next
    case (Some S)
    obtain S' where S': "db_svc db' s = Some S'" "svc_shape S' = svc_shape S" by (rule shape_svc[OF assms Some])
    have "map_option fixed_part (attr S' 0) = map_option fixed_part (attr S 0)" "s_num_handles S' = s_num_handles S"
      using shape_attr[OF S'(2)] by auto
    then have "gatt_db_service_get_handles S' = gatt_db_service_get_handles S"
      by (cases "attr S 0"; cases "attr S' 0") (auto simp: gatt_db_service_get_handles_def fixed_part_def)
    then show ?thesis using Some S' by (simp add: find_service_for_handle_def)
  qed
  then have "find_service_for_handle db' h = find_service_for_handle db h" by auto
  then show ?thesis using assms by (simp add: gatt_db_get_service_def same_shape_def)
qed

lemma handle_loop_shape:
  assumes "svc_shape S' = svc_shape S"
  shows "handle_loop S' s h is = handle_loop S s h is"
proof (induction "is")
  case (Cons i "is")
  have "map_option (map_option fixed_part) (slot S' i) = map_option (map_option fixed_part) (slot S i)"
    using shape_attr(1)[OF assms, of i] shape_attr(4)[OF assms] by (auto simp: slot_def attr_nth)
  then consider "slot S i = None" "slot S' i = None" | "slot S i = Some None" "slot S' i = Some None"
    | a a' where "slot S i = Some (Some a)" "slot S' i = Some (Some a')" "a_handle a' = a_handle a"
    by (cases "slot S i"; cases "slot S' i"; cases "the (slot S i)"; cases "the (slot S' i)") (auto simp: fixed_part_def)
  then show ?case using Cons by cases auto
qed simp

lemma shape_get_attribute:
  assumes "same_shape db db'"
  shows "gatt_db_get_attribute db' h = gatt_db_get_attribute db h"
proof -
  have "(do { S \<leftarrow> db_svc db' s; handle_loop S s h [0..<unat (s_num_handles S)] }) = (do { S \<leftarrow> db_svc db s; handle_loop S s h [0..<unat (s_num_handles S)] })" for s
  proof (cases "db_svc db s")
    case None
    then have "db_svc db' s = None" by (rule shape_none[OF assms])
    then show ?thesis using None by simp
  next
    case (Some S)
    obtain S' where S': "db_svc db' s = Some S'" "svc_shape S' = svc_shape S" by (rule shape_svc[OF assms Some])
    then show ?thesis using Some handle_loop_shape[OF S'(2)] shape_attr(2)[OF S'(2)] by simp
  qed
  then show ?thesis by (simp add: gatt_db_get_attribute_def shape_get_service[OF assms] cong: option.case_cong)
qed

text \<open>An attribute found by its handle.\<close>

lemma get_attribute_ok:
  assumes "db_ok db"
  obtains (none) "gatt_db_get_attribute db h = Some None"
  | (some) r a where "gatt_db_get_attribute db h = Some (Some r)" "attr_at db r = Some a" "a_handle a = h"
  using assms
proof (cases rule: get_service_cases[of db h])
  case none
  then show ?thesis using that(1) by (simp add: gatt_db_get_attribute_def)
next
  case (some s S)
  let ?P = "\<lambda>i. case attr S i of None \<Rightarrow> False | Some a \<Rightarrow> a_handle a = h"
  have x: "gatt_db_get_attribute db h = Some (map_option (Pair s) (find ?P [0..<unat (s_num_handles S)]))"
    using some(1,2) handle_loop_eq[of "[0..<unat (s_num_handles S)]" S s h] svc_ok_slot[OF db_okD[OF assms some(2)]] by (simp add: gatt_db_get_attribute_def)
  show ?thesis
  proof (cases "find ?P [0..<unat (s_num_handles S)]")
    case None
    then show ?thesis using that(1) x by simp
  next
    case (Some i)
    then have "?P i" unfolding find_Some_iff by blast
    then obtain a where "attr S i = Some a" "a_handle a = h" by (cases "attr S i") auto
    then show ?thesis using that(2)[of "(s, i)" a] x Some some(2) by (simp add: attr_at_def)
  qed
qed
section \<open>Reads and writes of the database\<close>

lemma read_cases:
  assumes db: "db_ok db" and a: "attr_at db r = Some a" and f: "f \<noteq> 0"
  obtains (now) err v where "a_read_func a = 0" "gatt_db_attribute_read tid db (Some r) off opc f ud = Some (True, db, [Read_done f r err v ud])"
  | (later) db' a' p n where "a_read_func a \<noteq> 0" "db_ok db'" "same_shape db db'" "attr_at db' r = Some a'" "p \<in> set (a_pending_reads a')" "p_id p = n"
      "p_func p = f" "p_user_data p = ud"
      "gatt_db_attribute_read tid db (Some r) off opc f ud = Some (True, db', [Read_request (a_read_func a) r n off opc (a_user_data a)])"
proof (cases "a_read_func a = 0")
  case True
  then show ?thesis using read_stored[OF attr_at_ok(1)[OF db a] a True f, of tid off opc ud] now by (auto split: if_splits)
next
  case False
  have "is_attr db r" using a by (simp add: is_attr_def)
  then obtain x db' ev where r: "gatt_db_attribute_read tid db (Some r) off opc f ud = Some (x, db', ev)" "good_step db db'"
    using exec_read[OF db] by blast
  let ?n = "a_read_id a + 1"
  let ?p = "\<lparr>p_id = ?n, p_timeout_id = tid, p_func = f, p_user_data = ud\<rparr>"
  have p: "put_attr db r (a\<lparr>a_read_id := ?n, a_pending_reads := a_pending_reads a @ [?p]\<rparr>) = Some db'" "x" "ev = [Read_request (a_read_func a) r ?n off opc (a_user_data a)]"
    using r(1) a False f by (auto simp: gatt_db_attribute_read_def Let_def bind_eq_Some_conv)
  have "same_shape db db'" by (rule same_shape_put[OF a p(1)]) (simp add: fixed_part_def)
  then show ?thesis using later[OF False, of db' _ ?p ?n] put_attr_map[OF db a p(1)] r p(2,3) by (simp add: good_step_def)
qed

lemma write_cases:
  assumes db: "db_ok db" and a: "attr_at db r = Some a" and f: "f \<noteq> 0" and i: "snd r \<noteq> 0" and m: "mem"
  obtains (now) db' where "db_ok db'" "same_shape db db'" "gatt_db_attribute_write mem junk tid db (Some r) off v opc f ud = Some (True, db', [Write_done f r 0 ud])"
      "a_write_func a = 0"
  | (later) db' a' p n where "db_ok db'" "same_shape db db'" "attr_at db' r = Some a'" "p \<in> set (a_pending_writes a')" "p_id p = n"
      "p_func p = f" "p_user_data p = ud"
      "gatt_db_attribute_write mem junk tid db (Some r) off v opc f ud = Some (True, db', [Write_request (a_write_func a) r n off v opc (a_user_data a)])"
      "a_write_func a \<noteq> 0"
proof -
  have "is_attr db r" using a by (simp add: is_attr_def)
  then obtain x db' ev where r: "gatt_db_attribute_write mem junk tid db (Some r) off v opc f ud = Some (x, db', ev)" "good_step db db'"
    using exec_write[OF db _ i] by blast
  have ok: "db_ok db'" using r(2) by (simp add: good_step_def)
  show ?thesis
  proof (cases "a_write_func a = 0")
    case False
    let ?n = "a_write_id a + 1"
    let ?p = "\<lparr>p_id = ?n, p_timeout_id = tid, p_func = f, p_user_data = ud\<rparr>"
    have p: "put_attr db r (a\<lparr>a_write_id := ?n, a_pending_writes := a_pending_writes a @ [?p]\<rparr>) = Some db'" "x" "ev = [Write_request (a_write_func a) r ?n off v opc (a_user_data a)]"
      using r(1) a False f by (auto simp: gatt_db_attribute_write_def Let_def bind_eq_Some_conv)
    have "same_shape db db'" by (rule same_shape_put[OF a p(1)]) (simp add: fixed_part_def)
    then show ?thesis using later[OF ok, of _ ?p ?n] put_attr_map[OF db a p(1)] r(1) p(2,3) False by simp
  next
    case True
    then consider "db' = db" "x" "ev = [Write_done f r 0 ud]"
      | a' w where "put_attr db r (a'\<lparr>a_value := Some w\<rparr>) = Some db'" "a' = a \<or> grow_value junk a off (length v) = Some a'"
          "x" "ev = [Write_done f r 0 ud]"
      using r(1) a f m by (auto simp: gatt_db_attribute_write_def bind_eq_Some_conv split: if_splits)
    then show ?thesis
    proof cases
      case 1
      then show ?thesis using now[OF db] r(1) True by simp
    next
      case 2
      have "fixed_part (a'\<lparr>a_value := Some w\<rparr>) = fixed_part a"
        using 2(2) by (auto simp: fixed_part_def grow_value_def Let_def bind_eq_Some_conv)
      then show ?thesis using now[OF ok same_shape_put[OF a 2(1)]] r(1) 2(3,4) True by simp
    qed
  qed
qed

section \<open>The searches return\<close>

lemma concat_opt_all:
  assumes "\<forall>x \<in> set xs. \<exists>ys. f x = Some ys \<and> (\<forall>y \<in> set ys. Q y)"
  shows "\<exists>zs. concat_opt f xs = Some zs \<and> (\<forall>z \<in> set zs. Q z)"
  using assms
proof (induction xs)
  case (Cons x xs)
  then obtain ys zs where "f x = Some ys" "\<forall>y \<in> set ys. Q y" "concat_opt f xs = Some zs" "\<forall>z \<in> set zs. Q z" by auto
  then show ?case by auto
qed simp

lemma slots_all:
  assumes "svc_ok S" and "i \<in> set [0..<unat (s_num_handles S)]"
  obtains "slot S i = Some None" | a where "slot S i = Some (Some a)" "attr S i = Some a" "uuid_wf (a_uuid a)"
    "case a_value a of None \<Rightarrow> a_value_len a = 0 | Some v \<Rightarrow> unat (a_value_len a) \<le> length v"
proof (cases "s_attributes S ! i")
  case None
  then show ?thesis using that(1) svc_ok_slot[OF assms(1)] assms(2) by simp
next
  case (Some a)
  then have a: "slot S i = Some (Some a)" "attr S i = Some a" using svc_ok_slot[OF assms(1)] assms(2) by (simp_all add: attr_def)
  then show ?thesis using that(2) svc_ok_attr_ok[OF assms(1) a(2)] by (simp add: attr_ok_def)
qed

lemma read_by_type_total:
  assumes db: "db_ok db" and u: "uuid_wf u"
  shows "\<exists>rs. gatt_db_read_by_type db lo hi u = Some rs \<and> (\<forall>r \<in> set rs. attr_at db r \<noteq> None)"
  unfolding gatt_db_read_by_type_def
proof (rule concat_opt_all, rule ballI)
  fix s assume "s \<in> set (db_services db)"
  then obtain S where S: "db_svc db s = Some S" using db by (auto simp: db_ok_def)
  have "\<exists>rs. read_by_type_loop S s lo hi u is = Some rs \<and> (\<forall>r \<in> set rs. attr_at db r \<noteq> None)" if "set is \<subseteq> set [0..<unat (s_num_handles S)]" for "is"
    using that
  proof (induction "is")
    case (Cons i "is")
    then obtain rs where rs: "read_by_type_loop S s lo hi u is = Some rs" "\<forall>r \<in> set rs. attr_at db r \<noteq> None" by auto
    have "i \<in> set [0..<unat (s_num_handles S)]" using Cons.prems by simp
    from slots_all[OF db_okD[OF db S] this] show ?case
    proof cases
      case (2 a)
      then show ?thesis using rs bt_uuid_cmp_eq[OF u 2(3)] S by (auto simp: attr_at_def)
    qed (use rs in simp)
  qed simp
  then show "\<exists>rs. read_by_type db lo hi u s = Some rs \<and> (\<forall>r \<in> set rs. attr_at db r \<noteq> None)" using S by (auto simp: read_by_type_def)
qed

lemma find_information_total:
  assumes db: "db_ok db"
  shows "\<exists>rs. gatt_db_find_information db lo hi = Some rs \<and> (\<forall>r \<in> set rs. attr_at db r \<noteq> None)"
  unfolding gatt_db_find_information_def
proof (rule concat_opt_all, rule ballI)
  fix s assume "s \<in> set (db_services db)"
  then obtain S where S: "db_svc db s = Some S" using db by (auto simp: db_ok_def)
  obtain d where d: "attr S 0 = Some d" using svc_okD[OF db_okD[OF db S]] by metis
  have "\<exists>rs. find_information_loop S s lo hi is = Some rs \<and> (\<forall>r \<in> set rs. attr_at db r \<noteq> None)" if "set is \<subseteq> set [0..<unat (s_num_handles S)]" for "is"
    using that
  proof (induction "is")
    case (Cons i "is")
    then obtain rs where rs: "find_information_loop S s lo hi is = Some rs" "\<forall>r \<in> set rs. attr_at db r \<noteq> None" by auto
    have "i \<in> set [0..<unat (s_num_handles S)]" using Cons.prems by simp
    from slots_all[OF db_okD[OF db S] this] show ?case
    proof cases
      case (2 a)
      then show ?thesis using rs S by (auto simp: attr_at_def)
    qed (use rs in simp)
  qed simp
  then show "\<exists>rs. find_information db lo hi s = Some rs \<and> (\<forall>r \<in> set rs. attr_at db r \<noteq> None)" using S d by (auto simp: find_information_def)
qed

lemma group_type_total:
  assumes db: "db_ok db" and u: "uuid_wf u"
  shows "\<exists>rs. gatt_db_read_by_group_type db lo hi u = Some rs \<and> (\<forall>r \<in> set rs. snd r = 0 \<and> fst r \<in> set (db_services db))"
proof -
  have "\<exists>rs. group_loop db lo hi u n ss = Some rs \<and> (\<forall>r \<in> set rs. snd r = 0 \<and> fst r \<in> set ss)" if "set ss \<subseteq> set (db_services db)" for n ss
    using that
  proof (induction ss arbitrary: n)
    case (Cons s ss)
    then obtain S where S: "db_svc db s = Some S" using db by (auto simp: db_ok_def)
    obtain d where d: "attr S 0 = Some d" "attr_ok d" using svc_okD[OF db_okD[OF db S]] by metis
    obtain rs1 rs2 where "group_loop db lo hi u n ss = Some rs1" "\<forall>r \<in> set rs1. snd r = 0 \<and> fst r \<in> set ss"
      "group_loop db lo hi u (a_value_len d) ss = Some rs2" "\<forall>r \<in> set rs2. snd r = 0 \<and> fst r \<in> set ss"
      using Cons.IH[of n] Cons.IH[of "a_value_len d"] Cons.prems by auto
    moreover obtain c where "bt_uuid_cmp u (a_uuid d) = Some c" using bt_uuid_cmp_eq[OF u, of "a_uuid d"] d(2) by (auto simp: attr_ok_def)
    ultimately show ?case using S d(1) by (auto simp: Let_def)
  qed simp
  then show ?thesis by (simp add: gatt_db_read_by_group_type_def)
qed

lemma find_by_type_value_total:
  assumes db: "db_ok db" and u: "uuid_wf u"
  shows "\<exists>n rs. gatt_db_find_by_type_value junk db lo hi u (Some w) = Some (n, rs) \<and> (\<forall>r \<in> set rs. attr_at db r \<noteq> None)"
proof -
  have "\<exists>rs. concat_opt (find_by_type db lo hi u (Some w)) (db_services db) = Some rs \<and> (\<forall>r \<in> set rs. attr_at db r \<noteq> None)"
  proof (rule concat_opt_all, rule ballI)
    fix s assume "s \<in> set (db_services db)"
    then obtain S where S: "db_svc db s = Some S" using db by (auto simp: db_ok_def)
    have "\<exists>rs. find_by_type_loop S s lo hi u (Some w) is = Some rs \<and> (\<forall>r \<in> set rs. attr_at db r \<noteq> None)"
      if "set is \<subseteq> set [0..<unat (s_num_handles S)]" for "is"
      using that
    proof (induction "is")
      case (Cons i "is")
      then obtain rs where rs: "find_by_type_loop S s lo hi u (Some w) is = Some rs" "\<forall>r \<in> set rs. attr_at db r \<noteq> None" by auto
      have "i \<in> set [0..<unat (s_num_handles S)]" using Cons.prems by simp
      from slots_all[OF db_okD[OF db S] this] show ?case
      proof cases
        case (2 a)
        have v: "\<exists>v b. a_value a = Some v \<and> read_range v 0 (length w) = Some b" if "length w = unat (a_value_len a)" "w \<noteq> []"
          using 2(4) that by (auto simp: read_range_def split: option.splits)
        then show ?thesis using 2 rs bt_uuid_cmp_eq[OF u 2(3)] S by (auto simp: attr_at_def)
      qed (use rs in simp)
    qed simp
    then show "\<exists>rs. find_by_type db lo hi u (Some w) s = Some rs \<and> (\<forall>r \<in> set rs. attr_at db r \<noteq> None)" using S by (auto simp: find_by_type_def)
  qed
  then show ?thesis by (auto simp: gatt_db_find_by_type_value_def)
qed
section \<open>The invariant of the server\<close>

text \<open>
  Service declarations cannot be written: the database gives them the permission to be read, and no other. The server reads the extended
  properties of a characteristic into a variable of a function that has returned when the application answers, so they have to be values of the database.
\<close>

lemma decl_locked:
  assumes "db_ok db" and "attr_at db r = Some a" and "snd r = 0"
  shows "a_permissions a = BT_ATT_PERM_READ"
  using attr_at_ok(2)[OF assms(1,2)] assms(3) by (simp add: decl_ok_def)

definition ext_static :: "gatt_db \<Rightarrow> bool" where
  "ext_static db = (\<forall>r a. attr_at db r = Some a \<longrightarrow> bt_uuid_cmp ext_desc_uuid (a_uuid a) = Some 0 \<longrightarrow> a_read_func a = 0)"

text \<open>An entry of the queue of prepared writes: its block is as long as it says, and it is not for a service declaration.\<close>

definition prep_ok :: "gatt_db \<Rightarrow> prep_write_data \<Rightarrow> bool" where
  "prep_ok db d = (length (pw_value d) = unat (pw_length d) \<and> (\<forall>r. gatt_db_get_attribute db (pw_handle d) = Some (Some r) \<longrightarrow> snd r \<noteq> 0))"

definition srv_ok :: "bt_gatt_server \<Rightarrow> bool" where
  "srv_ok s = (db_ok (gs_db s) \<and> ext_static (gs_db s) \<and> 23 \<le> unat (gs_att_mtu s) \<and> 23 \<le> unat (gs_mtu s) \<and>
     (\<forall>d \<in> set (gs_prep_queue s). prep_ok (gs_db s) d))"

lemma srv_ok_db:
  assumes "srv_ok s" and "db_ok db'" and "same_shape (gs_db s) db'"
  shows "srv_ok (s\<lparr>gs_db := db'\<rparr>)"
proof -
  have "ext_static db'" unfolding ext_static_def
  proof (intro allI impI)
    fix r a assume a: "attr_at db' r = Some a" "bt_uuid_cmp ext_desc_uuid (a_uuid a) = Some 0"
    obtain b where b: "attr_at (gs_db s) r = Some b" "fixed_part b = fixed_part a" by (rule shape_some[OF shape_sym[OF assms(3)] a(1)])
    have "ext_static (gs_db s)" using assms(1) by (simp add: srv_ok_def)
    moreover have "a_uuid b = a_uuid a" using b(2) by (simp add: fixed_part_def)
    ultimately have "a_read_func b = 0" using b(1) a(2) unfolding ext_static_def by metis
    then show "a_read_func a = 0" using b(2) by (simp add: fixed_part_def)
  qed
  then show ?thesis using assms shape_get_attribute[OF assms(3)] by (auto simp: srv_ok_def prep_ok_def)
qed

lemma srv_ok_ops [simp]:
  "srv_ok (put_op p x s) = srv_ok s" "srv_ok (async_read_op_destroy p s) = srv_ok s" "srv_ok (async_write_op_destroy p s) = srv_ok s"
  "srv_ok (s\<lparr>gs_pending_read_op := p\<rparr>) = srv_ok s" "srv_ok (s\<lparr>gs_pending_write_op := p\<rparr>) = srv_ok s"
  "srv_ok (snd (new_op y s)) = srv_ok s"
  by (simp_all add: srv_ok_def put_op_def async_read_op_destroy_def async_write_op_destroy_def new_op_def)

lemma op_simps [simp]:
  "gs_db (put_op p x s) = gs_db s" "gs_att_mtu (put_op p x s) = gs_att_mtu s"
  "gs_db (async_read_op_destroy p s) = gs_db s" "gs_db (async_write_op_destroy p s) = gs_db s"
  "gs_ops (put_op p x s) = (gs_ops s)(p := x)"
  "gs_att_mtu (async_read_op_destroy p s) = gs_att_mtu s" "gs_att_mtu (async_write_op_destroy p s) = gs_att_mtu s"
  by (simp_all add: put_op_def async_read_op_destroy_def async_write_op_destroy_def)

lemma check_permissions_total:
  assumes "attr_at (gs_db s) r = Some a"
  obtains c where "check_permissions s (Some r) m = Some c"
  using assms by (simp add: check_permissions_def gatt_db_attribute_get_permissions_def)

lemma write_allowed:
  assumes "srv_ok s" and "attr_at (gs_db s) r = Some a" and "check_permissions s (Some r) write_mask = Some 0"
  shows "snd r \<noteq> 0"
proof
  assume "snd r = 0"
  then have p: "a_permissions a = BT_ATT_PERM_READ" using decl_locked[OF _ assms(2)] assms(1) by (simp add: srv_ok_def)
  then have "a_permissions a \<noteq> 0" "a_permissions a AND BT_ATT_PERM_WRITE = 0" by (simp_all add: att_perm_defs)
  moreover have "write_mask AND BT_ATT_PERM_READ = 0" "write_mask AND BT_ATT_PERM_WRITE \<noteq> 0" by (simp_all add: write_mask_def att_perm_defs)
  ultimately show False using assms(2,3)
    by (simp add: check_permissions_def gatt_db_attribute_get_permissions_def att_error_defs)
qed

section \<open>Operations that wait\<close>

definition by_type_ok :: "bt_gatt_server \<Rightarrow> async_read_op \<Rightarrow> bool" where
  "by_type_ok s op = (length (ro_pdu op) = unat (gs_att_mtu s) \<and> ro_pdu_len op < unat (gs_att_mtu s) \<and>
     (\<forall>r \<in> set (ro_db_data op). attr_at (gs_db s) r \<noteq> None))"

definition mult_ok :: "bt_gatt_server \<Rightarrow> read_multiple_resp_data \<Rightarrow> bool" where
  "mult_ok s d = (rm_mtu d = unat (gs_att_mtu s) \<and> length (rm_rsp_data d) = unat (gs_att_mtu s) - 1 \<and> rm_length d < unat (gs_att_mtu s) \<and>
     length (rm_handles d) = rm_num_handles d \<and> rm_cur_handle d < rm_num_handles d)"

text \<open>A prepared write can be stored: the length of the entry it is appended to stays below \<open>2 ^ 16\<close>.\<close>

definition prep_fits :: "bt_gatt_server \<Rightarrow> u8 list \<Rightarrow> bool" where
  "prep_fits s pdu = (gs_prep_queue s \<noteq> [] \<longrightarrow> unat (pw_length (last (gs_prep_queue s))) + length pdu < 2 ^ 16)"

definition prep_pdu_ok :: "bt_gatt_server \<Rightarrow> u8 list \<Rightarrow> bool" where
  "prep_pdu_ok s pdu = (4 \<le> length pdu \<and> length pdu < unat (gs_att_mtu s) \<and>
     (\<forall>r. gatt_db_get_attribute (gs_db s) (load16 pdu 0) = Some (Some r) \<longrightarrow> snd r \<noteq> 0))"

definition read_waiting :: "bt_gatt_server \<Rightarrow> ptr \<Rightarrow> ptr \<Rightarrow> bool" where
  "read_waiting s fn p =
     (fn = read_by_type_fn \<and> (\<exists>op. gs_ops s p = Some (Read_op op) \<and> by_type_ok s op) \<or>
      fn = read_fn \<and> (\<exists>op. gs_ops s p = Some (Read_op op) \<and> ro_opcode op \<noteq> 0) \<or>
      fn = read_multiple_fn \<and> (\<exists>d. gs_ops s p = Some (Mult_op d) \<and> mult_ok s d))"

definition write_waiting :: "bt_gatt_server \<Rightarrow> ptr \<Rightarrow> ptr \<Rightarrow> bool" where
  "write_waiting s fn p =
     (fn = write_fn \<and> (\<exists>opcode. gs_ops s p = Some (Write_op opcode) \<and> opcode \<noteq> 0) \<or>
      fn = prep_write_fn \<and> (\<exists>pdu. gs_ops s p = Some (Prep_op pdu) \<and> prep_pdu_ok s pdu) \<or>
      fn = exec_write_fn)"

text \<open>
  The one thing a handler may do: send a PDU that fits the MTU, or ask the application, and leave an operation waiting for the answer.
\<close>

fun fits :: "bt_gatt_server \<Rightarrow> att_out \<Rightarrow> bool" where
  "fits s (Sent opcode b) = (length b < unat (gs_att_mtu s))"
| "fits s (App (Read_request f r n off opc ud)) = (\<exists>a p. attr_at (gs_db s) r = Some a \<and> p \<in> set (a_pending_reads a) \<and> p_id p = n \<and>
     read_waiting s (p_func p) (p_user_data p))"
| "fits s (App (Write_request f r n off v opc ud)) = (\<exists>a p. attr_at (gs_db s) r = Some a \<and> p \<in> set (a_pending_writes a) \<and> p_id p = n \<and>
     write_waiting s (p_func p) (p_user_data p))"
| "fits s (App _) = False"

definition handled :: "action \<Rightarrow> bool" where
  "handled act = (\<exists>s' x. act = Some (s', [x]) \<and> srv_ok s' \<and> fits s' x)"

lemma handled_error: "srv_ok s \<Longrightarrow> opcode \<noteq> 0 \<Longrightarrow> handled (Some (s, bt_att_send_error_rsp opcode h c))"
  by (auto simp: handled_def bt_att_send_error_rsp_def srv_ok_def le16_def)

lemma handled_sent: "srv_ok s \<Longrightarrow> length b < unat (gs_att_mtu s) \<Longrightarrow> handled (Some (s, [Sent opcode b]))"
  by (simp add: handled_def)

lemma handled_later_read:
  assumes "srv_ok s" and "attr_at (gs_db s) r = Some a" and "p \<in> set (a_pending_reads a)" "p_id p = n" and "read_waiting s (p_func p) (p_user_data p)"
  shows "handled (Some (s, [App (Read_request f r n off opc ud)]))"
  using assms by (auto simp: handled_def)

lemma handled_later_write:
  assumes "srv_ok s" and "attr_at (gs_db s) r = Some a" and "p \<in> set (a_pending_writes a)" "p_id p = n" and "write_waiting s (p_func p) (p_user_data p)"
  shows "handled (Some (s, [App (Write_request f r n off v opc ud)]))"
  using assms by (auto simp: handled_def)

end
