(* ===== verification/GattServerCorrect.thy ===== *)
theory GattServerCorrect
  imports GattServerInv
begin

text \<open>
  The handlers of the GATT server: every request gets one response that fits the MTU, or waits for the application.
\<close>

section \<open>Buffers\<close>

lemma mtu_minus_eq: "23 \<le> unat (mtu :: u16) \<Longrightarrow> unat k \<le> 23 \<Longrightarrow> mtu_minus mtu k = unat mtu - unat k"
  unfolding mtu_minus_def by (subst unat_sub) (simp_all add: word_le_nat_alt unat_ucast_widen)

lemma rsp_buffer_length [simp]: "length (rsp_buffer e n) = n"
  by (simp add: rsp_buffer_def)

lemma get_le16_Some: "i + 2 \<le> length b \<Longrightarrow> get_le16 b i = Some (load16 (take 2 (drop i b)) 0)"
  by (simp add: get_le16_def read_range_def)

lemma get_uuid_le_Some:
  assumes "length b \<in> {2, 16}"
  obtains u where "get_uuid_le b (length b) = Some (Some u)" "uuid_wf u"
  using assms by (auto simp: get_uuid_le_def get_le16_Some bswap_128_def read_range_def bt_uuid16_create_def bt_uuid128_create_def)

lemma put_le16_Some: "i + 2 \<le> length b \<Longrightarrow> \<exists>b'. put_le16 v b i = Some b' \<and> length b' = length b"
  by (simp add: put_le16_def write_range_def le16_def)

lemma write_range_ex: "i + length v \<le> length b \<Longrightarrow> \<exists>b'. write_range b i v = Some b' \<and> length b' = length b"
  by (simp add: write_range_def)

lemma read_range_ex: "n \<le> length b \<Longrightarrow> \<exists>v. read_range b 0 n = Some v \<and> length v = n"
  by (simp add: read_range_def)

section \<open>Discovery\<close>

lemma decl_read_now:
  assumes db: "db_ok db" and r: "snd r = 0" "fst r \<in> set (db_services db)"
  obtains v h1 h2 where "read_now e db r opc = Some (True, db, v)" "0 < length v" "length v \<le> 16"
    "gatt_db_attribute_get_service_handles db (Some r) = Some (Some (h1, h2))"
proof -
  obtain S where S: "db_svc db (fst r) = Some S" using db r(2) by (auto simp: db_ok_def)
  obtain d where d: "attr S 0 = Some d" "decl_ok d" "attr_ok d" using svc_okD[OF db_okD[OF db S]] by metis
  have at: "attr_at db r = Some d" using S d(1) r(1) by (simp add: attr_at_def)
  have len: "length (stored d) = unat (a_value_len d)" by (rule length_stored[OF d(3)])
  have "a_value_len d = 2 \<or> a_value_len d = 16" "a_read_func d = 0" using d(2) by (auto simp: decl_ok_def)
  then show ?thesis using that[of "stored d"] read_stored[OF d(3) at, of attribute_read_fn "e_tid e" 0 opc 0] at S d(1) len
    by (auto simp: read_now_def attribute_read_fn_def gatt_db_attribute_get_service_handles_def gatt_db_service_get_handles_def)
qed

lemma grp_entry:
  assumes "i + d + 4 < length pdu" and "d \<le> length v"
  obtains p1 p2 w p3 where "put_le16 h1 pdu i = Some p1" "put_le16 h2 p1 (i + 2) = Some p2" "read_range v 0 d = Some w"
    "write_range p2 (i + 4) w = Some p3" "length p3 = length pdu"
proof -
  obtain p1 where p1: "put_le16 h1 pdu i = Some p1" "length p1 = length pdu" using put_le16_Some[of i pdu h1] assms by auto
  obtain p2 where p2: "put_le16 h2 p1 (i + 2) = Some p2" "length p2 = length pdu" using put_le16_Some[of "i + 2" p1 h2] assms p1 by auto
  obtain w where w: "read_range v 0 d = Some w" "length w = d" using read_range_ex[of d v] assms by auto
  obtain p3 where "write_range p2 (i + 4) w = Some p3" "length p3 = length pdu" using write_range_ex[of "i + 4" w p2] assms p2 w by auto
  then show ?thesis using that p1 p2 w by metis
qed

lemma grp_loop_ok:
  assumes db: "db_ok db" and m: "23 \<le> unat mtu"
  shows "\<forall>r \<in> set q. snd r = 0 \<and> fst r \<in> set (db_services db) \<Longrightarrow> length pdu = unat mtu \<Longrightarrow> iter < unat mtu \<Longrightarrow>
    \<exists>n b. grp_loop e mtu db iter dl pdu q = Some (db, Some (n, b)) \<and> n < unat mtu \<and> length b = unat mtu"
proof (induction q arbitrary: iter dl pdu)
  case (Cons r q)
  obtain v h1 h2 where v: "read_now e db r BT_ATT_OP_READ_BY_GRP_TYPE_REQ = Some (True, db, v)" "v \<noteq> []"
    "gatt_db_attribute_get_service_handles db (Some r) = Some (Some (h1, h2))"
    by (rule decl_read_now[OF db]) (use Cons.prems(1) in auto)
  note IH = Cons.IH[OF ballI[OF bspec[OF Cons.prems(1)]], simplified]
  obtain i d p0 where i: "(if iter = 0 then do { let n = min (min (mtu_minus mtu 6) 251) (length v);
        pdu \<leftarrow> write_range pdu 0 [of_nat n + 4]; Some (1, n, pdu) } else Some (iter, dl, pdu)) = Some (i, d, p0)" "length p0 = unat mtu" "i < unat mtu"
    "iter = 0 \<longrightarrow> d \<le> length v" "iter \<noteq> 0 \<longrightarrow> d = dl"
  proof (cases "iter = 0")
    case True
    let ?n = "min (min (mtu_minus mtu 6) 251) (length v)"
    obtain p0 where "write_range pdu 0 [of_nat ?n + 4] = Some p0" "length p0 = unat mtu"
      using write_range_ex[of 0 "[of_nat ?n + 4]" pdu] Cons.prems(2) m by auto
    then show ?thesis using that[of 1 ?n p0] True m by (simp add: Let_def)
  qed (use that Cons.prems in auto)
  show ?case
  proof (cases "iter \<noteq> 0 \<and> length v \<noteq> dl \<or> i + d + 4 + 1 > unat mtu")
    case True
    then show ?thesis using v i Cons.prems(2,3) by (auto simp del: Let_def)
  next
    case False
    obtain p1 p2 w p3 where "put_le16 h1 p0 i = Some p1" "put_le16 h2 p1 (i + 2) = Some p2" "read_range v 0 d = Some w"
      "write_range p2 (i + 4) w = Some p3" "length p3 = unat mtu"
      by (rule grp_entry[of i d p0 v h1 h2]) (use False i in auto)
    then show ?thesis using v i False IH[of p3 "i + d + 4" d] by (auto simp del: Let_def)
  qed
qed simp

lemma read_by_grp_type_handled:
  assumes s: "srv_ok s" and o: "opcode \<noteq> 0"
  shows "handled (read_by_grp_type_cb e opcode pdu s)"
proof (cases "length pdu = 6 \<or> length pdu = 20")
  case True
  have db: "db_ok (gs_db s)" "23 \<le> unat (gs_att_mtu s)" using s by (auto simp: srv_ok_def)
  obtain u where u: "get_uuid_le (drop 4 pdu) (length pdu - 4) = Some (Some u)" "uuid_wf u"
    by (rule get_uuid_le_Some[of "drop 4 pdu"]) (use True in auto)
  have c: "\<exists>c. bt_uuid_cmp u (bt_uuid16_create w) = Some c" for w using bt_uuid_cmp_eq[OF u(2)] by (simp add: bt_uuid16_create_def)
  obtain c1 c2 where cc: "bt_uuid_cmp u (bt_uuid16_create 0x2800) = Some c1" "bt_uuid_cmp u (bt_uuid16_create 0x2801) = Some c2" using c by metis
  let ?a = "load16 (take 2 (drop 0 pdu)) 0" and ?b = "load16 (take 2 (drop 2 pdu)) 0"
  have g: "get_le16 pdu 0 = Some ?a" "get_le16 pdu 2 = Some ?b" using True get_le16_Some[of 0 pdu] get_le16_Some[of 2 pdu] by auto
  obtain q where q: "gatt_db_read_by_group_type (gs_db s) ?a ?b u = Some q" "\<forall>r \<in> set q. snd r = 0 \<and> fst r \<in> set (db_services (gs_db s))"
    using group_type_total[OF db(1) u(2)] by metis
  obtain n b where n: "encode_read_by_grp_type_rsp e (gs_db s) q (gs_att_mtu s) (rsp_buffer e (unat (gs_att_mtu s))) = Some (gs_db s, Some (n, b))"
    "n < unat (gs_att_mtu s)" "length b = unat (gs_att_mtu s)"
    using grp_loop_ok[OF db q(2), of "rsp_buffer e (unat (gs_att_mtu s))" 0 e 0] db(2) by (auto simp: encode_read_by_grp_type_rsp_def)
  obtain w where w: "read_range b 0 n = Some w" "length w = n" using read_range_ex[of n b] n(2,3) by auto
  show ?thesis
    using True g u(1) cc q(1) n(1,2) w handled_error[OF s o] handled_sent[OF s]
    unfolding read_by_grp_type_cb_def Let_def by (simp cong: if_cong)
qed (use handled_error[OF s o] in \<open>simp add: read_by_grp_type_cb_def Let_def\<close>)

lemma uuid_to_le_length:
  assumes "uuid_wf u"
  obtains b where "bt_uuid_to_le u = Some (Inr b)" "length b = (if bt_uuid_len u = 2 then 2 else 16)"
    "bt_uuid_len u \<in> {2, 4, 16}"
proof (cases u)
  case (BT_UUID32 w)
  have "bt_uuid32_to_uuid128 w = BT_UUID128 (canonical u)" "length (canonical u) = 16"
    using to_uuid128_canonical[of u] length_canonical[of u] BT_UUID32 assms by (auto simp: canonical_def bt_uuid32_to_uuid128_def)
  then show ?thesis using that BT_UUID32 by (auto simp: bswap_128_def read_range_def)
qed (use assms that in \<open>auto simp: le16_def bswap_128_def read_range_def\<close>)

lemma info_loop_ok:
  assumes db: "db_ok db" and m: "23 \<le> unat mtu"
  shows "\<forall>r \<in> set q. attr_at db r \<noteq> None \<Longrightarrow> length pdu = unat mtu \<Longrightarrow> iter < unat mtu \<Longrightarrow> iter \<noteq> 0 \<longrightarrow> ul = 2 \<or> ul = 16 \<Longrightarrow>
    \<exists>x. info_loop mtu db iter ul pdu q = Some x \<and> (\<forall>n b. x = Some (n, b) \<longrightarrow> n < unat mtu \<and> length b = unat mtu)"
proof (induction q arbitrary: iter ul pdu)
  case (Cons r q)
  then obtain a where a: "attr_at db r = Some a" by auto
  have u: "uuid_wf (a_uuid a)" using attr_at_ok(1)[OF db a] by (simp add: attr_ok_def)
  obtain ub where ub: "bt_uuid_to_le (a_uuid a) = Some (Inr ub)" "length ub = (if bt_uuid_len (a_uuid a) = 2 then 2 else 16)"
    "bt_uuid_len (a_uuid a) \<in> {2, 4, 16}" by (rule uuid_to_le_length[OF u])
  have q: "\<forall>r \<in> set q. attr_at db r \<noteq> None" using Cons.prems(1) by simp
  let ?c = "bt_uuid_len (a_uuid a)"
  obtain i l p0 where i: "(if iter = 0 then do { pdu \<leftarrow> write_range pdu 0 [if ?c = 2 then 0x01 else 0x02]; Some (1, if ?c = 2 then 2 else 16, pdu) }
      else Some (iter, ul, pdu)) = Some (i, l, p0)" "length p0 = unat mtu" "i < unat mtu" "i \<noteq> 0" "l = 2 \<or> l = 16"
    "iter = 0 \<longrightarrow> l = length ub" "iter \<noteq> 0 \<longrightarrow> l = ul"
  proof (cases "iter = 0")
    case True
    obtain p0 where p0: "write_range pdu 0 [if ?c = 2 then 0x01 else 0x02] = Some p0" "length p0 = unat mtu"
      using write_range_ex[of 0 "[if ?c = 2 then 0x01 else 0x02]" pdu] Cons.prems(2) m by auto
    show ?thesis by (rule that[of 1 "if ?c = 2 then 2 else 16" p0]) (use p0 True m ub(2) in simp_all)
  next
    case False
    then show ?thesis using that[of iter ul pdu] Cons.prems by simp
  qed
  show ?case
  proof (cases "a_handle a = 0 \<or> iter \<noteq> 0 \<and> ?c \<noteq> ul \<or> i + l + 2 + 1 > unat mtu")
    case True
    then show ?thesis using a i ub(3) Cons.prems(2,3)
      by (auto simp: gatt_db_attribute_get_handle_def gatt_db_attribute_get_type_def Let_def)
  next
    case False
    have l: "l = length ub" using i(6,7) False ub(2,3) Cons.prems(4) by auto
    obtain p1 where p1: "put_le16 (a_handle a) p0 i = Some p1" "length p1 = unat mtu" using put_le16_Some[of i p0 "a_handle a"] False i by auto
    obtain p2 where p2: "write_range p1 (i + 2) ub = Some p2" "length p2 = unat mtu" using write_range_ex[of "i + 2" ub p1] False p1 l by auto
    show ?thesis using a i(1) ub(1,3) False p1 p2 Cons.IH[OF q, of p2 "i + l + 2" l] i(5)
      by (auto simp: gatt_db_attribute_get_handle_def gatt_db_attribute_get_type_def Let_def)
  qed
qed simp

lemma find_info_handled:
  assumes s: "srv_ok s" and o: "opcode \<noteq> 0"
  shows "handled (find_info_cb e opcode pdu s)"
proof (cases "length pdu = 4")
  case True
  have db: "db_ok (gs_db s)" "23 \<le> unat (gs_att_mtu s)" using s by (auto simp: srv_ok_def)
  let ?a = "load16 (take 2 (drop 0 pdu)) 0" and ?b = "load16 (take 2 (drop 2 pdu)) 0"
  have g: "get_le16 pdu 0 = Some ?a" "get_le16 pdu 2 = Some ?b" using True get_le16_Some[of 0 pdu] get_le16_Some[of 2 pdu] by auto
  obtain q where q: "gatt_db_find_information (gs_db s) ?a ?b = Some q" "\<forall>r \<in> set q. attr_at (gs_db s) r \<noteq> None"
    using find_information_total[OF db(1)] by metis
  obtain x where x: "encode_find_info_rsp (gs_db s) q (gs_att_mtu s) (rsp_buffer e (unat (gs_att_mtu s))) = Some x"
    "\<forall>n b. x = Some (n, b) \<longrightarrow> n < unat (gs_att_mtu s) \<and> length b = unat (gs_att_mtu s)"
    using info_loop_ok[OF db q(2), of "rsp_buffer e (unat (gs_att_mtu s))" 0 0] db(2) by (auto simp: encode_find_info_rsp_def)
  have y: "handled (do { w \<leftarrow> read_range b 0 n; Some (s, [Sent opc w]) })" if "x = Some (n, b)" for n b opc
    using read_range_ex[of n b] x(2) that handled_sent[OF s] by auto
  show ?thesis
    using True g q(1) x(1) y handled_error[OF s o] unfolding find_info_cb_def Let_def by (auto split: option.split)
qed (use handled_error[OF s o] in \<open>simp add: find_info_cb_def Let_def\<close>)

lemma service_data_total:
  assumes db: "db_ok db" and a: "attr_at db r = Some a"
  obtains h1 h2 y where "gatt_db_attribute_get_service_data db (Some r) = Some (Some (h1, h2, y))"
proof -
  obtain S where S: "db_svc db (fst r) = Some S" using a by (auto simp: attr_at_def bind_eq_Some_conv)
  obtain d where d: "attr S 0 = Some d" "decl_ok d" "attr_ok d" using svc_okD[OF db_okD[OF db S]] by metis
  obtain v where v: "a_value d = Some v" "length v = unat (a_value_len d)" "a_value_len d = 2 \<or> a_value_len d = 16" using d(2) by (auto simp: decl_ok_def)
  have "\<exists>c. bt_uuid_cmp (a_uuid d) secondary_service_uuid = Some c" using bt_uuid_cmp_eq[of "a_uuid d" secondary_service_uuid] d(3) by (simp add: attr_ok_def)
  moreover have "\<exists>u. le_to_uuid v (unat (a_value_len d)) = Some u" using v by (auto simp: le_to_uuid_def read_range_def bswap_128_def)
  ultimately show ?thesis using that a S d(1) v(1)
    by (auto simp: gatt_db_attribute_get_service_data_def gatt_db_service_get_handles_def)
qed

lemma foreach_opt_inv:
  assumes "\<And>x st. x \<in> set xs \<Longrightarrow> I st \<Longrightarrow> \<exists>st'. f x st = Some st' \<and> I st'" and "I st"
  shows "\<exists>st'. foreach_opt f xs st = Some st' \<and> I st'"
  using assms
proof (induction xs arbitrary: st)
  case (Cons x xs)
  then obtain st' where "f x st = Some st'" "I st'" by (meson list.set_intros(1))
  then show ?case using Cons.IH[of st'] Cons.prems(1) by auto
qed simp

lemma find_by_type_val_handled:
  assumes s: "srv_ok s" and o: "opcode \<noteq> 0"
  shows "handled (find_by_type_val_cb e opcode pdu s)"
proof (cases "length pdu < 6")
  case False
  let ?mtu = "unat (gs_att_mtu s)"
  have db: "db_ok (gs_db s)" "23 \<le> ?mtu" using s by (auto simp: srv_ok_def)
  let ?a = "load16 (take 2 (drop 0 pdu)) 0" and ?b = "load16 (take 2 (drop 2 pdu)) 0" and ?u = "load16 (take 2 (drop 4 pdu)) 0"
  have g: "get_le16 pdu 0 = Some ?a" "get_le16 pdu 2 = Some ?b" "get_le16 pdu 4 = Some ?u"
    using False get_le16_Some[of 0 pdu] get_le16_Some[of 2 pdu] get_le16_Some[of 4 pdu] by auto
  have wf: "uuid_wf (bt_uuid16_create ?u)" by (simp add: bt_uuid16_create_def)
  obtain k rs where q: "gatt_db_find_by_type_value 0 (gs_db s) ?a ?b (bt_uuid16_create ?u) (Some (drop 6 pdu)) = Some (k, rs)"
    "\<forall>r \<in> set rs. attr_at (gs_db s) r \<noteq> None"
    using find_by_type_value_total[OF db(1) wf] by metis
  let ?I = "\<lambda>(b :: u8 list, n, c :: int). length b = ?mtu \<and> n < ?mtu"
  have "\<exists>st. foreach_opt (find_by_type_val_att_cb (gs_db s) (gs_att_mtu s)) rs (rsp_buffer e ?mtu, 0, 0) = Some st \<and> ?I st"
  proof (rule foreach_opt_inv)
    fix r st assume r: "r \<in> set rs" "?I st"
    obtain b n c where st: "st = (b, n, c)" "length b = ?mtu" "n < ?mtu" using r(2) by (cases st) auto
    obtain a where "attr_at (gs_db s) r = Some a" using q(2) r(1) by auto
    then obtain h1 h2 y where d: "gatt_db_attribute_get_service_data (gs_db s) (Some r) = Some (Some (h1, h2, y))"
      using service_data_total[OF db(1)] by metis
    show "\<exists>st'. find_by_type_val_att_cb (gs_db s) (gs_att_mtu s) r st = Some st' \<and> ?I st'"
    proof (cases "n + 4 + 1 > ?mtu")
      case False
      obtain p1 where p1: "put_le16 h1 b n = Some p1" "length p1 = ?mtu" using put_le16_Some[of n b h1] False st by auto
      obtain p2 where "put_le16 h2 p1 (n + 2) = Some p2" "length p2 = ?mtu" using put_le16_Some[of "n + 2" p1 h2] False p1 by auto
      then show ?thesis using False st d p1 by (auto simp: find_by_type_val_att_cb_def)
    qed (use st in \<open>auto simp: find_by_type_val_att_cb_def\<close>)
  qed (use db(2) in simp)
  then obtain b n c where f: "foreach_opt (find_by_type_val_att_cb (gs_db s) (gs_att_mtu s)) rs (rsp_buffer e ?mtu, 0, 0) = Some (b, n, c)"
    "length b = ?mtu" "n < ?mtu" by auto
  obtain w where w: "read_range b 0 n = Some w" "length w = n" using read_range_ex[of n b] f by auto
  show ?thesis
    using False g q(1) f(1,3) w handled_error[OF s o] handled_sent[OF s] unfolding find_by_type_val_cb_def Let_def by auto
qed (use handled_error[OF s o] in \<open>simp add: find_by_type_val_cb_def Let_def\<close>)
section \<open>Reading\<close>

lemma fn_nonzero [simp]: "0 < read_by_type_fn" "0 < read_fn" "0 < read_multiple_fn" "0 < write_fn" "0 < prep_write_fn" "0 < exec_write_fn" "0 < attribute_read_fn"
  by (simp_all add: fn_defs)

lemma op_nonzero [simp]:
  "BT_ATT_OP_READ_BY_TYPE_REQ \<noteq> 0" "BT_ATT_OP_READ_MULT_REQ \<noteq> 0" "BT_ATT_OP_PREP_WRITE_REQ \<noteq> 0" "BT_ATT_OP_EXEC_WRITE_REQ \<noteq> 0"
  by (simp_all add: att_op_defs)

lemma shape_exists: "same_shape db db' \<Longrightarrow> attr_at db r \<noteq> None \<Longrightarrow> attr_at db' r \<noteq> None"
  using shape_some[of db db' r] by (metis option.exhaust option.distinct(1))

lemma by_type_step:
  assumes s: "srv_ok s" and a: "attr_at (gs_db s) r = Some a" and b: "length (ro_pdu op) = unat (gs_att_mtu s)" "ro_pdu_len op < unat (gs_att_mtu s)"
  obtains (error) h c where "read_by_type_read_complete_cb s op r err val = Some (Inl (bt_att_send_error_rsp BT_ATT_OP_READ_BY_TYPE_REQ h c))"
  | (goes_on) op' where "read_by_type_read_complete_cb s op r err val = Some (Inr op')" "length (ro_pdu op') = unat (gs_att_mtu s)"
      "ro_pdu_len op' < unat (gs_att_mtu s)" "ro_db_data op' = ro_db_data op"
proof -
  let ?m = "unat (gs_att_mtu s)"
  have m: "23 \<le> ?m" using s by (simp add: srv_ok_def)
  have mm: "mtu_minus (gs_att_mtu s) 4 = ?m - 4" "mtu_minus (gs_att_mtu s) 1 = ?m - 1" using mtu_minus_eq[OF m, of 4] mtu_minus_eq[OF m, of 1] by auto
  have h: "gatt_db_attribute_get_handle (gs_db s) (Some r) = Some (a_handle a)" using a by (simp add: gatt_db_attribute_get_handle_def)
  show ?thesis
  proof (cases "err \<noteq> 0 \<or> ro_pdu_len op \<noteq> 0 \<and> length val \<noteq> ro_value_len op")
    case True
    then show ?thesis using h b error[of "a_handle a" err] goes_on[of "op\<lparr>ro_done := True\<rparr>"]
      by (cases "err \<noteq> 0") (simp_all add: read_by_type_read_complete_cb_def Let_def)
  next
    case False
    have nn: "(err \<noteq> 0) = False" "(ro_pdu_len op \<noteq> 0 \<and> length val \<noteq> ro_value_len op) = False" using False by auto
    let ?n = "min (min (?m - 4) 253) (length val)"
    obtain o1 where o1: "(if ro_pdu_len op = 0 then do { let n = min (min (mtu_minus (gs_att_mtu s) 4) 253) (length val);
        pdu \<leftarrow> write_range (ro_pdu op) 0 [of_nat n + 2]; Some (op\<lparr>ro_value_len := n, ro_pdu := pdu, ro_pdu_len := 1\<rparr>) } else Some op) = Some o1"
      "length (ro_pdu o1) = ?m" "ro_pdu_len o1 < ?m" "ro_value_len o1 \<le> length val" "ro_db_data o1 = ro_db_data op"
    proof (cases "ro_pdu_len op = 0")
      case True
      obtain p0 where p0: "write_range (ro_pdu op) 0 [of_nat ?n + 2] = Some p0" "length p0 = ?m"
        using write_range_ex[of 0 "[of_nat ?n + 2]" "ro_pdu op"] b m by auto
      show ?thesis by (rule that[of "op\<lparr>ro_value_len := ?n, ro_pdu := p0, ro_pdu_len := 1\<rparr>"]) (use True p0 mm m in simp_all)
    next
      case no: False
      show ?thesis by (rule that[of op]) (use no False b in simp_all)
    qed
    show ?thesis
    proof (cases "ro_pdu_len o1 + ro_value_len o1 + 2 > ?m - 1")
      case True
      show ?thesis by (rule goes_on[of "o1\<lparr>ro_done := True\<rparr>"])
        (unfold read_by_type_read_complete_cb_def Let_def[of "gs_att_mtu s"] h bind.simps nn if_False o1(1), use True o1 mm in simp_all)
    next
      case no_stop: False
      then have room: "ro_pdu_len o1 + ro_value_len o1 + 2 \<le> ?m - 1" "ro_pdu_len o1 + 2 \<le> length (ro_pdu o1)"
        "ro_pdu_len o1 + 2 + ro_value_len o1 \<le> ?m" "ro_pdu_len o1 + ro_value_len o1 + 2 < ?m" using o1(2) m by simp_all
      obtain p1 where p1: "put_le16 (a_handle a) (ro_pdu o1) (ro_pdu_len o1) = Some p1" "length p1 = ?m"
        using put_le16_Some[of "ro_pdu_len o1" "ro_pdu o1" "a_handle a"] room(2) o1(2) by auto
      obtain w where w: "read_range val 0 (ro_value_len o1) = Some w" "length w = ro_value_len o1" using read_range_ex[OF o1(4)] by auto
      obtain p2 where p2: "write_range p1 (ro_pdu_len o1 + 2) w = Some p2" "length p2 = ?m"
        using write_range_ex[of "ro_pdu_len o1 + 2" w p1] room(3) w p1(2) by auto
      let ?o = "o1\<lparr>ro_pdu := p2, ro_pdu_len := ro_pdu_len o1 + ro_value_len o1 + 2\<rparr>"
      show ?thesis by (rule goes_on[of "if ro_pdu_len ?o = ?m - 1 then ?o\<lparr>ro_done := True\<rparr> else ?o"])
        (unfold read_by_type_read_complete_cb_def Let_def[of "gs_att_mtu s"] h bind.simps nn if_False o1(1), use no_stop room(4) o1(2-5) mm p1 w p2 in \<open>simp_all add: Let_def\<close>)
    qed
  qed
qed

lemma handled_error_list: "srv_ok s \<Longrightarrow> out = bt_att_send_error_rsp opcode h c \<Longrightarrow> opcode \<noteq> 0 \<Longrightarrow> handled (Some (s, out))"
  using handled_error by simp

lemma process_read_by_type_handled:
  assumes "srv_ok s" and "\<forall>r \<in> set q. attr_at (gs_db s) r \<noteq> None" and "length (ro_pdu op) = unat (gs_att_mtu s)" and "ro_pdu_len op < unat (gs_att_mtu s)"
  shows "handled (process_read_by_type e p op q s)"
  using assms
proof (induction q arbitrary: op s)
  case Nil
  obtain w where "read_range (ro_pdu op) 0 (ro_pdu_len op) = Some w" "length w = ro_pdu_len op" using read_range_ex[of "ro_pdu_len op" "ro_pdu op"] Nil by auto
  then show ?case using Nil handled_sent[of "async_read_op_destroy p s"] by (simp add: read_by_type_rsp_def)
next
  case (Cons r q)
  obtain a where a: "attr_at (gs_db s) r = Some a" using Cons.prems(2) by auto
  have db: "db_ok (gs_db s)" using Cons.prems(1) by (simp add: srv_ok_def)
  obtain c where c: "check_permissions s (Some r) read_mask = Some c" by (rule check_permissions_total[OF a])
  have err: "handled (read_by_type_error p r c' s)" for c'
    using a handled_error[of "async_read_op_destroy p s" BT_ATT_OP_READ_BY_TYPE_REQ] Cons.prems(1)
    by (simp add: read_by_type_error_def gatt_db_attribute_get_handle_def)
  show ?case
  proof (cases "ro_done op \<or> c \<noteq> 0")
    case True
    obtain w where "read_range (ro_pdu op) 0 (ro_pdu_len op) = Some w" "length w = ro_pdu_len op" using read_range_ex[of "ro_pdu_len op" "ro_pdu op"] Cons.prems by auto
    then have "handled (read_by_type_rsp p op s)"
      using Cons.prems handled_sent[of "async_read_op_destroy p s"] by (simp add: read_by_type_rsp_def)
    then show ?thesis using True c err by auto
  next
    case False
    have fn: "read_by_type_fn \<noteq> 0" by simp
    from db a fn show ?thesis
    proof (cases rule: read_cases[of "gs_db s" r a read_by_type_fn "e_tid e" 0 "ro_opcode op" p])
      case (now er v)
      from Cons.prems(1) a Cons.prems(3,4) show ?thesis
      proof (cases rule: by_type_step[of s r a op er v])
        case (error h c')
        then show ?thesis using now False c handled_error[of "async_read_op_destroy p s" BT_ATT_OP_READ_BY_TYPE_REQ h c'] Cons.prems(1) by (simp add: Let_def)
      next
        case (goes_on op')
        then show ?thesis using now False c Cons.IH[OF Cons.prems(1) _ goes_on(2,3)] Cons.prems(2) by (simp add: Let_def)
      qed
    next
      case (later db' a' pd n)
      let ?s = "put_op p (Some (Read_op (op\<lparr>ro_db_data := q\<rparr>))) (s\<lparr>gs_db := db'\<rparr>)"
      have "read_waiting ?s read_by_type_fn p"
        using Cons.prems shape_exists[OF later(3)] by (auto simp: read_waiting_def by_type_ok_def)
      then have "handled (Some (?s, [App (Read_request (a_read_func a) r n 0 (ro_opcode op) (a_user_data a))]))"
        using later srv_ok_db[OF Cons.prems(1) later(2,3)] by (intro handled_later_read[of _ _ a' pd]) simp_all
      then show ?thesis using later False c by (simp add: Let_def)
    qed
  qed
qed
text \<open>The state after an allocation.\<close>

definition allocated :: "gatt_op \<Rightarrow> bt_gatt_server \<Rightarrow> bt_gatt_server" where
  "allocated x s = snd (new_op x s)"

lemma new_op_eq: "new_op x s = (gs_next_op s, allocated x s)"
  by (simp add: new_op_def allocated_def)

lemma allocated_simps [simp]:
  "gs_db (allocated x s) = gs_db s" "gs_att_mtu (allocated x s) = gs_att_mtu s" "gs_ops (allocated x s) (gs_next_op s) = Some x"
  "gs_prep_queue (allocated x s) = gs_prep_queue s" "srv_ok (allocated x s) = srv_ok s"
  "gs_max_prep_queue_len (allocated x s) = gs_max_prep_queue_len s"
  by (simp_all add: new_op_def allocated_def srv_ok_def)

lemma same_db: "gs_db s = db \<Longrightarrow> s\<lparr>gs_db := db\<rparr> = s"
  by auto

lemma read_by_type_handled:
  assumes s: "srv_ok s" and o: "opcode \<noteq> 0"
  shows "handled (read_by_type_cb e opcode pdu s)"
proof (cases "length pdu = 6 \<or> length pdu = 20")
  case True
  have db: "db_ok (gs_db s)" "23 \<le> unat (gs_att_mtu s)" using s by (auto simp: srv_ok_def)
  obtain u where u: "get_uuid_le (drop 4 pdu) (length pdu - 4) = Some (Some u)" "uuid_wf u"
    by (rule get_uuid_le_Some[of "drop 4 pdu"]) (use True in auto)
  let ?a = "load16 (take 2 (drop 0 pdu)) 0" and ?b = "load16 (take 2 (drop 2 pdu)) 0"
  have g: "get_le16 pdu 0 = Some ?a" "get_le16 pdu 2 = Some ?b" using True get_le16_Some[of 0 pdu] get_le16_Some[of 2 pdu] by auto
  obtain q where q: "gatt_db_read_by_type (gs_db s) ?a ?b u = Some q" "\<forall>r \<in> set q. attr_at (gs_db s) r \<noteq> None"
    using read_by_type_total[OF db(1) u(2)] by metis
  let ?op = "\<lparr>ro_opcode = opcode, ro_done = False, ro_pdu = rsp_buffer e (unat (gs_att_mtu s)), ro_pdu_len = 0, ro_value_len = 0, ro_db_data = q\<rparr>"
  have "handled (process_read_by_type e (gs_next_op s) ?op q ((allocated (Read_op ?op) s)\<lparr>gs_pending_read_op := gs_next_op s\<rparr>))"
    by (rule process_read_by_type_handled) (use s q(2) db(2) in simp_all)
  then show ?thesis
    using True g u(1) q(1) handled_error[OF s o] unfolding read_by_type_cb_def Let_def by (auto simp: new_op_eq)
qed (use handled_error[OF s o] in \<open>simp add: read_by_type_cb_def\<close>)

lemma read_complete_handled:
  assumes "srv_ok s" and "attr_at (gs_db s) r = Some a" and "ro_opcode op \<noteq> 0"
  shows "handled (read_complete_cb p op r err val s)"
proof -
  have "23 \<le> unat (gs_att_mtu s)" using assms(1) by (simp add: srv_ok_def)
  then have "mtu_minus (gs_att_mtu s) 1 = unat (gs_att_mtu s) - 1" "0 < unat (gs_att_mtu s)" using mtu_minus_eq[of "gs_att_mtu s" 1] by simp_all
  then have "length (take (min (mtu_minus (gs_att_mtu s) 1) (length val)) val) < unat (gs_att_mtu s)" by (simp del: unat_gt_0)
  then show ?thesis using assms handled_error[of "async_read_op_destroy p s" "ro_opcode op"] handled_sent[of "async_read_op_destroy p s"]
    by (auto simp: read_complete_cb_def gatt_db_attribute_get_handle_def)
qed

lemma handle_read_req_handled:
  assumes s: "srv_ok s" and o: "opcode \<noteq> 0"
  shows "handled (handle_read_req e opcode handle offset s)"
proof -
  have db: "db_ok (gs_db s)" using s by (simp add: srv_ok_def)
  note err = handled_error[OF s o]
  from db show ?thesis
  proof (cases rule: get_attribute_ok[of "gs_db s" handle])
    case none
    then show ?thesis using err by (simp add: handle_read_req_def)
  next
    case (some r a)
    obtain c where c: "check_permissions s (Some r) read_mask = Some c" by (rule check_permissions_total[OF some(2)])
    show ?thesis
    proof (cases "c \<noteq> 0 \<or> gs_pending_read_op s \<noteq> 0")
      case True
      then show ?thesis using some c err by (auto simp: handle_read_req_def)
    next
      case False
      let ?op = "\<lparr>ro_opcode = opcode, ro_done = False, ro_pdu = [], ro_pdu_len = 0, ro_value_len = 0, ro_db_data = []\<rparr>" and ?p = "gs_next_op s"
      let ?s = "(allocated (Read_op ?op) s)\<lparr>gs_pending_read_op := ?p\<rparr>"
      have s': "srv_ok ?s" "attr_at (gs_db ?s) r = Some a" using s some by simp_all
      have fn: "read_fn \<noteq> 0" by simp
      from db some(2) fn show ?thesis
      proof (cases rule: read_cases[of "gs_db s" r a read_fn "e_tid e" offset opcode ?p])
        case (now er v)
        then show ?thesis using some c False read_complete_handled[OF s', of ?op ?p er v] o
          by (simp add: handle_read_req_def new_op_eq Let_def same_db)
      next
        case (later db' a' pd n)
        have "read_waiting (?s\<lparr>gs_db := db'\<rparr>) read_fn ?p" using o by (auto simp: read_waiting_def)
        then have "handled (Some (?s\<lparr>gs_db := db'\<rparr>, [App (Read_request (a_read_func a) r n offset opcode (a_user_data a))]))"
          using later srv_ok_db[of ?s db'] s by (intro handled_later_read[of _ _ a' pd]) simp_all
        then show ?thesis using some c False later by (simp add: handle_read_req_def new_op_eq Let_def)
      qed
    qed
  qed
qed

lemma read_handled: "srv_ok s \<Longrightarrow> opcode \<noteq> 0 \<Longrightarrow> handled (read_cb e opcode pdu s)"
  using handle_read_req_handled handled_error by (simp add: read_cb_def get_le16_Some)

lemma read_blob_handled: "srv_ok s \<Longrightarrow> opcode \<noteq> 0 \<Longrightarrow> handled (read_blob_cb e opcode pdu s)"
  using handle_read_req_handled handled_error by (simp add: read_blob_cb_def get_le16_Some)

section \<open>Multiple reads\<close>

lemma mult_append_cases:
  assumes s: "srv_ok s" and a: "attr_at (gs_db s) r = Some a" and d: "mult_ok s d"
  obtains (ends) out where "mult_append s d r err val = Some (Inl out)" "handled (Some (put_op p None s, out))"
  | (goes_on) d' where "mult_append s d r err val = Some (Inr d')" "mult_ok s d'" "rm_cur_handle d' = rm_cur_handle d + 1"
      "rm_handles d' = rm_handles d"
proof -
  let ?m = "unat (gs_att_mtu s)"
  have m: "23 \<le> ?m" using s by (simp add: srv_ok_def)
  have h: "gatt_db_attribute_get_handle (gs_db s) (Some r) = Some (a_handle a)" using a by (simp add: gatt_db_attribute_get_handle_def)
  obtain c where c: "check_permissions s (Some r) read_mask = Some c" by (rule check_permissions_total[OF a])
  have er: "handled (Some (put_op p None s, bt_att_send_error_rsp BT_ATT_OP_READ_MULT_REQ x y))" for x y using handled_error[of "put_op p None s"] s by simp
  show ?thesis
  proof (cases "err \<noteq> 0 \<or> c \<noteq> 0")
    case True
    show ?thesis by (rule ends[OF _ er[of "a_handle a" "if err \<noteq> 0 then err else c"]]) (use True h c in \<open>auto simp: mult_append_def\<close>)
  next
    case False
    let ?n = "min (length val) (rm_mtu d - rm_length d - 1)"
    obtain w where w: "read_range val 0 ?n = Some w" "length w = ?n" using read_range_ex[of ?n val] by auto
    have l: "rm_length d + ?n \<le> ?m - 1" using d by (auto simp: mult_ok_def min_def)
    obtain b where b: "write_range (rm_rsp_data d) (rm_length d) w = Some b" "length b = ?m - 1"
      using write_range_ex[of "rm_length d" w "rm_rsp_data d"] l w(2) d by (auto simp: mult_ok_def)
    let ?d = "d\<lparr>rm_rsp_data := b, rm_length := rm_length d + ?n, rm_cur_handle := rm_cur_handle d + 1\<rparr>"
    have ev: "mult_append s d r err val = (if rm_length ?d \<ge> rm_mtu ?d - 1 \<or> rm_cur_handle ?d = rm_num_handles ?d
        then do { b \<leftarrow> read_range (rm_rsp_data ?d) 0 (rm_length ?d); Some (Inl [Sent BT_ATT_OP_READ_MULT_RSP b]) } else Some (Inr ?d))"
      using False h c w b by (simp add: mult_append_def Let_def)
    show ?thesis
    proof (cases "rm_length ?d \<ge> rm_mtu ?d - 1 \<or> rm_cur_handle ?d = rm_num_handles ?d")
      case True
      obtain x where x: "read_range b 0 (rm_length d + ?n) = Some x" "length x = rm_length d + ?n" using read_range_ex[of "rm_length d + ?n" b] l b(2) by auto
      show ?thesis by (rule ends[of "[Sent BT_ATT_OP_READ_MULT_RSP x]"])
        (use True ev x l m s handled_sent[of "put_op p None s" x] in simp_all)
    next
      case more: False
      show ?thesis by (rule goes_on[of ?d]) (use more ev d l b(2) m in \<open>auto simp: mult_ok_def\<close>)
    qed
  qed
qed

lemma read_multiple_handled_rest:
  assumes "srv_ok s" and "attr_at (gs_db s) r = Some a" and "mult_ok s d" and "rest = drop (rm_cur_handle d + 1) (rm_handles d)"
  shows "handled (read_multiple_complete_cb e p d rest r err val s)"
  using assms
proof (induction rest arbitrary: d r a err val s)
  case Nil
  from Nil.prems(1-3) show ?case
  proof (cases rule: mult_append_cases[of s r a d err val p])
    case (goes_on d')
    then show ?thesis using Nil.prems(4) by (auto simp: mult_ok_def)
  qed simp
next
  case (Cons h rest)
  from Cons.prems(1-3) show ?case
  proof (cases rule: mult_append_cases[of s r a d err val p])
    case (goes_on d')
    have rest: "rest = drop (rm_cur_handle d' + 1) (rm_handles d')" using Cons.prems(4) goes_on(3,4) by (metis add_Suc_right drop_Suc drop_drop list.sel(3) plus_1_eq_Suc tl_drop add.commute)
    have s': "srv_ok (put_op p None s)" using Cons.prems(1) by simp
    note err = handled_error[OF s']
    have db: "db_ok (gs_db s)" using Cons.prems(1) by (simp add: srv_ok_def)
    then show ?thesis
    proof (cases rule: get_attribute_ok[of "gs_db s" h])
      case none
      then show ?thesis using goes_on(1) err by simp
    next
      case (some r' a')
      have fn: "read_multiple_fn \<noteq> 0" by simp
      from db some(2) fn show ?thesis
      proof (cases rule: read_cases[of "gs_db s" r' a' read_multiple_fn "e_tid e" 0 BT_ATT_OP_READ_MULT_REQ p])
        case (now er v)
        then show ?thesis using goes_on(1) some Cons.IH[OF Cons.prems(1) some(2) goes_on(2) rest] by (simp add: Let_def)
      next
        case (later db' a'' pd n)
        let ?s = "put_op p (Some (Mult_op d')) (s\<lparr>gs_db := db'\<rparr>)"
        have "read_waiting ?s read_multiple_fn p" using goes_on(2) by (simp add: read_waiting_def mult_ok_def)
        then have "handled (Some (?s, [App (Read_request (a_read_func a') r' n 0 BT_ATT_OP_READ_MULT_REQ (a_user_data a'))]))"
          using later srv_ok_db[OF Cons.prems(1) later(2,3)] by (intro handled_later_read[of _ _ a'' pd]) simp_all
        then show ?thesis using goes_on(1) some later by (simp add: Let_def)
      qed
    qed
  qed simp
qed

lemma get_handles_eq:
  assumes "2 * n \<le> length pdu"
  obtains hs where "get_handles pdu n = Some hs" "length hs = n"
proof -
  have "\<exists>hs'. foreach_opt (\<lambda>i hs. do { h \<leftarrow> get_le16 pdu (i * 2); Some (hs @ [h]) }) is hs = Some hs' \<and> length hs' = length hs + length is"
    if "set is \<subseteq> {..<n}" for "is" hs
    using that
  proof (induction "is" arbitrary: hs)
    case (Cons i "is")
    have "get_le16 pdu (i * 2) = Some (load16 (take 2 (drop (i * 2) pdu)) 0)" by (rule get_le16_Some) (use Cons.prems assms in auto)
    then show ?case using Cons.IH[of "hs @ [load16 (take 2 (drop (i * 2) pdu)) 0]"] Cons.prems by simp
  qed simp
  from this[of "[0..<n]" "[]"] show ?thesis using that by (auto simp: get_handles_def atLeast0LessThan)
qed

lemma read_multiple_handled:
  assumes s: "srv_ok s" and o: "opcode \<noteq> 0"
  shows "handled (read_multiple_cb e opcode pdu s)"
proof (cases "length pdu < 4 \<or> \<not> e_mem e")
  case False
  have db: "db_ok (gs_db s)" "23 \<le> unat (gs_att_mtu s)" using s by (auto simp: srv_ok_def)
  obtain hs where hs: "get_handles pdu (length pdu div 2) = Some hs" "length hs = length pdu div 2" by (rule get_handles_eq[of "length pdu div 2" pdu]) auto
  let ?d = "\<lparr>rm_handles = hs, rm_cur_handle = 0, rm_num_handles = length pdu div 2, rm_rsp_data = rsp_buffer e (unat (gs_att_mtu s) - 1),
    rm_length = 0, rm_mtu = unat (gs_att_mtu s)\<rparr>" and ?p = "gs_next_op s"
  let ?s = "allocated (Mult_op ?d) s"
  have d: "mult_ok ?s ?d" "srv_ok ?s" using hs(2) False db(2) s by (auto simp: mult_ok_def)
  from db(1) show ?thesis
  proof (cases rule: get_attribute_ok[of "gs_db s" "hs ! 0"])
    case none
    then show ?thesis using False hs(1) handled_error[OF s o] by (simp add: read_multiple_cb_def Let_def)
  next
    case (some r a)
    have fn: "read_multiple_fn \<noteq> 0" by simp
    from db(1) some(2) fn show ?thesis
    proof (cases rule: read_cases[of "gs_db s" r a read_multiple_fn "e_tid e" 0 opcode ?p])
      case (now er v)
      have "handled (read_multiple_complete_cb e ?p ?d (drop 1 hs) r er v ?s)"
        by (rule read_multiple_handled_rest[OF d(2) _ d(1)]) (use some(2) in simp_all)
      then show ?thesis using False hs(1) some now by (simp add: read_multiple_cb_def new_op_eq Let_def same_db)
    next
      case (later db' a' pd n)
      have "read_waiting (?s\<lparr>gs_db := db'\<rparr>) read_multiple_fn ?p" using d(1) by (simp add: read_waiting_def mult_ok_def)
      then have "handled (Some (?s\<lparr>gs_db := db'\<rparr>, [App (Read_request (a_read_func a) r n 0 opcode (a_user_data a))]))"
        using later srv_ok_db[OF d(2)] by (intro handled_later_read[of _ _ a' pd]) simp_all
      then show ?thesis using False hs(1) some later by (simp add: read_multiple_cb_def new_op_eq Let_def)
    qed
  qed
qed (use handled_error[OF s o] in \<open>auto simp: read_multiple_cb_def\<close>)

end
