(* ===== verification/GattServerWrite.thy ===== *)
theory GattServerWrite
  imports GattServerCorrect
begin

text \<open>
  The handlers of the GATT server that write, and the properties of the server: every request gets one response that fits the MTU or waits for the application.
\<close>

section \<open>Extended properties\<close>

lemma desc_total:
  assumes db: "db_ok db" and a: "attr_at db r = Some a"
  shows "\<exists>rs. gatt_db_service_foreach_desc db (Some r) = Some rs \<and> (\<forall>x \<in> set rs. attr_at db x \<noteq> None)"
proof -
  obtain S where S: "db_svc db (fst r) = Some S" using a by (auto simp: attr_at_def bind_eq_Some_conv)
  have loop: "\<exists>rs. desc_loop S (fst r) is = Some rs \<and> (\<forall>x \<in> set rs. attr_at db x \<noteq> None)" if "set is \<subseteq> set [0..<unat (s_num_handles S)]" for "is"
    using that
  proof (induction "is")
    case (Cons i "is")
    then obtain rs where rs: "desc_loop S (fst r) is = Some rs" "\<forall>x \<in> set rs. attr_at db x \<noteq> None" by auto
    have "i \<in> set [0..<unat (s_num_handles S)]" using Cons.prems by simp
    from slots_all[OF db_okD[OF db S] this] show ?case
    proof cases
      case (2 b)
      have "\<exists>c d. bt_uuid_cmp characteristic_uuid (a_uuid b) = Some c \<and> bt_uuid_cmp included_service_uuid (a_uuid b) = Some d"
        using bt_uuid_cmp_eq[OF _ 2(3)] by simp
      then show ?thesis using 2 rs S by (auto simp: attr_at_def)
    qed (use rs in simp)
  qed simp
  have "uuid_wf (a_uuid a)" using attr_at_ok(1)[OF db a] by (simp add: attr_ok_def)
  then have "\<exists>c. bt_uuid_cmp characteristic_uuid (a_uuid a) = Some c" using bt_uuid_cmp_eq[of characteristic_uuid "a_uuid a"] by simp
  then show ?thesis using a S loop[of "[snd r + 2..<unat (s_num_handles S)]"] by (auto simp: gatt_db_service_foreach_desc_def)
qed

lemma read_ext_prop_static:
  assumes db: "db_ok db" "ext_static db" and a: "attr_at db r = Some a" and f: "fn \<noteq> 0"
  shows "\<exists>w. read_ext_prop tid fn sp r (db, x, []) = Some (db, w, [])"
proof -
  have "uuid_wf (a_uuid a)" using attr_at_ok(1)[OF db(1) a] by (simp add: attr_ok_def)
  then obtain c where c: "bt_uuid_cmp ext_desc_uuid (a_uuid a) = Some c" using bt_uuid_cmp_eq[of ext_desc_uuid "a_uuid a"] by (auto simp: ext_desc_uuid_def)
  show ?thesis
  proof (cases "x \<noteq> 0 \<or> c \<noteq> 0")
    case False
    then have "a_read_func a = 0" using db(2) a c unfolding ext_static_def by blast
    then obtain er v where "gatt_db_attribute_read tid db (Some r) 0 BT_ATT_OP_READ_REQ fn sp = Some (True, db, [Read_done fn r er v sp])"
      using read_stored[OF attr_at_ok(1)[OF db(1) a] a _ f, of tid 0 BT_ATT_OP_READ_REQ sp] by (auto split: if_splits)
    then show ?thesis using False a c by (simp add: read_ext_prop_def)
  qed (use a c in \<open>auto simp: read_ext_prop_def\<close>)
qed

lemma foreach_ext_static:
  assumes "db_ok db" "ext_static db" and "fn \<noteq> 0" and "\<forall>x \<in> set rs. attr_at db x \<noteq> None"
  shows "\<exists>w. foreach_opt (read_ext_prop tid fn sp) rs (db, x, []) = Some (db, w, [])"
  using assms(4)
proof (induction rs arbitrary: x)
  case (Cons r rs)
  then obtain a where "attr_at db r = Some a" by auto
  then obtain w where w: "read_ext_prop tid fn sp r (db, x, []) = Some (db, w, [])" using read_ext_prop_static[OF assms(1,2) _ assms(3)] by metis
  obtain w' where "foreach_opt (read_ext_prop tid fn sp) rs (db, w, []) = Some (db, w', [])" using Cons.IH[of w] Cons.prems by auto
  then show ?case using w by simp
qed simp

lemma reliable_total:
  assumes s: "srv_ok s"
  shows "\<exists>b. is_reliable_write_supported e h s = Some (b, s, [])"
proof -
  have db: "db_ok (gs_db s)" "ext_static (gs_db s)" using s by (auto simp: srv_ok_def)
  from db(1) show ?thesis
  proof (cases rule: get_attribute_ok[of "gs_db s" h])
    case (some r a)
    have "uuid_wf (a_uuid a)" using attr_at_ok(1)[OF db(1) some(2)] by (simp add: attr_ok_def)
    then obtain c where c: "bt_uuid_cmp characteristic_uuid (a_uuid a) = Some c" using bt_uuid_cmp_eq[of characteristic_uuid "a_uuid a"] by auto
    obtain rs where rs: "gatt_db_service_foreach_desc (gs_db s) (Some r) = Some rs" "\<forall>x \<in> set rs. attr_at (gs_db s) x \<noteq> None"
      using desc_total[OF db(1) some(2)] by auto
    have fn: "ext_prop_fn \<noteq> 0" by (simp add: fn_defs)
    obtain w where w: "foreach_opt (read_ext_prop (e_tid e) ext_prop_fn 0) rs (gs_db s, 0, []) = Some (gs_db s, w, [])"
      using foreach_ext_static[OF db fn rs(2)] by blast
    have rd: "\<exists>p. read_range v 0 1 = Some p" if "a_value a = Some v" "a_value_len a = 5 \<or> a_value_len a = 19" for v
      using attr_at_ok(1)[OF db(1) some(2)] that by (auto simp: attr_ok_def read_range_def)
    have "\<exists>y. gatt_db_attribute_get_char_ext (e_tid e) ext_prop_fn 0 (gs_db s) (Some r) = Some (y, gs_db s, [])"
    proof (cases "c \<noteq> 0 \<or> a_value a = None \<or> a_value_len a \<noteq> 5 \<and> a_value_len a \<noteq> 19")
      case True
      then show ?thesis using some(2) c by (auto simp: gatt_db_attribute_get_char_ext_def)
    next
      case False
      then obtain v where v: "a_value a = Some v" by auto
      then obtain p where "read_range v 0 1 = Some p" using rd[OF v] False by auto
      note v = v this
      then have "\<exists>z. get_char_extended_prop (e_tid e) ext_prop_fn 0 (gs_db s) (Some r) = Some (z, gs_db s, [])"
        using False some(2) c rs(1) w by (auto simp: get_char_extended_prop_def)
      then show ?thesis using False some(2) c v by (auto simp: gatt_db_attribute_get_char_ext_def)
    qed
    then show ?thesis using some(1) by (auto simp: is_reliable_write_supported_def)
  qed (auto simp: is_reliable_write_supported_def)
qed

section \<open>Writing\<close>

lemma write_complete_handled:
  assumes "srv_ok s" and "attr_at (gs_db s) r = Some a" and "opcode \<noteq> 0" and "opcode \<noteq> BT_ATT_OP_WRITE_CMD"
  shows "handled (write_complete_cb p opcode r err s)"
proof -
  have "23 \<le> unat (gs_att_mtu s)" using assms(1) by (simp add: srv_ok_def)
  then have "0 < unat (gs_att_mtu s)" by linarith
  then show ?thesis
    using assms handled_error[of "async_write_op_destroy p s" opcode] handled_sent[of "async_write_op_destroy p s" "[]" BT_ATT_OP_WRITE_RSP]
    by (simp add: write_complete_cb_def gatt_db_attribute_get_handle_def del: unat_gt_0)
qed

text \<open>A command is never answered.\<close>

definition silent :: "action \<Rightarrow> bool" where
  "silent act = (\<exists>s' out. act = Some (s', out) \<and> srv_ok s' \<and> (out = [] \<or> (\<exists>ev. out = [App ev] \<and> fits s' (App ev))))"

lemma silent_later_write:
  assumes "handled (Some (s, [App ev]))"
  shows "silent (Some (s, [App ev]))"
  using assms by (auto simp: handled_def silent_def)

lemma write_steps:
  assumes s: "srv_ok s" and m: "e_mem e" and o: "opcode \<noteq> 0" and len: "2 \<le> length pdu"
  obtains (error) h c where "write_cb e opcode pdu s = Some (s, write_error opcode h c)"
  | (now) s' r a where "srv_ok s'" "attr_at (gs_db s') r = Some a" "write_cb e opcode pdu s = write_complete_cb (gs_next_op s) opcode r 0 s'"
  | (later) s' ev where "handled (Some (s', [App ev]))" "write_cb e opcode pdu s = Some (s', [App ev])"
proof -
  have db: "db_ok (gs_db s)" using s by (simp add: srv_ok_def)
  let ?h = "load16 (take 2 (drop 0 pdu)) 0" and ?p = "gs_next_op s"
  have h: "get_le16 pdu 0 = Some ?h" using get_le16_Some[of 0 pdu] len by simp
  from db show ?thesis
  proof (cases rule: get_attribute_ok[of "gs_db s" ?h])
    case none
    then show ?thesis using error[of ?h BT_ATT_ERROR_INVALID_HANDLE] h len by (simp add: write_cb_def)
  next
    case (some r a)
    obtain c where c: "check_permissions s (Some r) write_mask = Some c" by (rule check_permissions_total[OF some(2)])
    show ?thesis
    proof (cases "c \<noteq> 0 \<or> gs_pending_write_op s \<noteq> 0")
      case True
      then show ?thesis using error[of ?h c] error[of ?h BT_ATT_ERROR_UNLIKELY] h len some c by (cases "c = 0") (simp_all add: write_cb_def)
    next
      case False
      have i: "snd r \<noteq> 0" using write_allowed[OF s some(2)] c False by simp
      have fn: "write_fn \<noteq> 0" by simp
      let ?s = "(allocated (Write_op opcode) s)\<lparr>gs_pending_write_op := ?p\<rparr>"
      have ok: "srv_ok (?s\<lparr>gs_db := db'\<rparr>)" if "db_ok db'" "same_shape (gs_db s) db'" for db' using srv_ok_db[of ?s db'] that s by simp
      from db some(2) fn i m show ?thesis
      proof (cases rule: write_cases[of "gs_db s" r a write_fn "e_mem e" "e_junk e" "e_tid e" 0 "drop 2 pdu" opcode ?p])
        case (now db')
        obtain a' where a': "attr_at db' r = Some a'" using shape_some[OF now(2) some(2)] by metis
        show ?thesis by (rule that(2)[OF ok[OF now(1,2)]]) (use now(3) h len some c False a' in \<open>simp_all add: write_cb_def new_op_eq Let_def\<close>)
      next
        case (later db' a' pd n)
        have "write_waiting (?s\<lparr>gs_db := db'\<rparr>) write_fn ?p" using o by (simp add: write_waiting_def)
        then have "handled (Some (?s\<lparr>gs_db := db'\<rparr>, [App (Write_request (a_write_func a) r n 0 (drop 2 pdu) opcode (a_user_data a))]))"
          using later ok by (intro handled_later_write[of _ _ a' pd]) simp_all
        from that(3)[OF this] show ?thesis using later h len some c False by (simp add: write_cb_def new_op_eq Let_def)
      qed
    qed
  qed
qed

lemma write_handled:
  assumes s: "srv_ok s" and m: "e_mem e" and o: "opcode \<noteq> 0" "opcode \<noteq> BT_ATT_OP_WRITE_CMD"
  shows "handled (write_cb e opcode pdu s)"
proof (cases "2 \<le> length pdu")
  case True
  from s m o(1) True show ?thesis
  proof (cases rule: write_steps)
    case (error h c)
    then show ?thesis using handled_error[OF s o(1)] o(2) by (simp add: write_error_def)
  next
    case (now s' r a)
    then show ?thesis using write_complete_handled[OF now(1,2) o] by simp
  qed simp
next
  case False
  then show ?thesis using handled_error[OF s o(1)] o(2) by (simp add: write_error_def write_cb_def)
qed

lemma write_cmd_silent:
  assumes s: "srv_ok s" and m: "e_mem e"
  shows "silent (write_cb e BT_ATT_OP_WRITE_CMD pdu s)"
proof (cases "2 \<le> length pdu")
  case True
  have o: "BT_ATT_OP_WRITE_CMD \<noteq> 0" by (simp add: att_op_defs)
  from s m o True show ?thesis
  proof (cases rule: write_steps)
    case (error h c)
    then show ?thesis using s by (simp add: write_error_def silent_def)
  next
    case (now s' r a)
    then show ?thesis by (simp add: write_complete_cb_def silent_def)
  next
    case (later s' ev)
    then show ?thesis using silent_later_write by simp
  qed
qed (use s in \<open>simp add: write_error_def write_cb_def silent_def\<close>)

section \<open>Prepared writes\<close>

lemma append_prep_ok:
  assumes m: "e_mem e" and d: "length (pw_value d) = unat (pw_length d)" and l: "unat len = length val"
    and b: "unat (pw_length d) + length val < 2 ^ 16"
  shows "\<exists>v. append_prep_data e d len val = Some (True, d\<lparr>pw_value := pw_value d @ val, pw_length := pw_length d + len\<rparr>)"
proof (cases "len = 0")
  case True
  then show ?thesis using l by (simp add: append_prep_data_def)
next
  case False
  have n: "unat (pw_length d + len) = unat (pw_length d) + length val" using b l by (simp add: unat_word_ariths)
  have "0 < unat len" using False by (simp add: word_neq_0_conv unat_gt_0)
  then have "unat (pw_length d + len) \<noteq> 0" using n l by linarith
  then have nz: "pw_length d + len \<noteq> 0" by auto
  have "write_range (take (unat (pw_length d + len)) (pw_value d) @ map (e_junk e) [length (pw_value d)..<unat (pw_length d + len)])
      (unat (pw_length d)) val = Some (pw_value d @ val)"
    using n d by (simp add: write_range_def)
  then show ?thesis using False nz m by (simp add: append_prep_data_def Let_def)
qed

lemma prep_len: "4 \<le> length pdu \<Longrightarrow> length pdu < 2 ^ 16 \<Longrightarrow> unat (of_nat (length pdu) - 4 :: u16) = length (drop 4 pdu)"
  by (subst unat_sub) (simp_all add: word_le_nat_alt unat_of_nat)

lemma get_le16_head: "2 \<le> length b \<Longrightarrow> get_le16 b 0 = Some (load16 b 0)"
  by (simp add: get_le16_def read_range_def load16_def)

lemma mtu_bound: "unat (mtu :: u16) < 2 ^ 16"
  using unsigned_less[of mtu] by simp

lemma store_prep_ok:
  assumes s: "srv_ok s" and m: "e_mem e" and l: "unat len = length val" "length val < 2 ^ 16"
    and f: "gs_prep_queue s \<noteq> [] \<longrightarrow> unat (pw_length (last (gs_prep_queue s))) + length val < 2 ^ 16"
    and h: "\<forall>r. gatt_db_get_attribute (gs_db s) h = Some (Some r) \<longrightarrow> snd r \<noteq> 0"
  shows "\<exists>q. store_prep_data e h off len val s = Some (True, s\<lparr>gs_prep_queue := q\<rparr>, []) \<and> srv_ok (s\<lparr>gs_prep_queue := q\<rparr>)"
proof -
  have ok: "\<forall>d \<in> set (gs_prep_queue s). prep_ok (gs_db s) d" using s by (simp add: srv_ok_def)
  show ?thesis
  proof (cases "gs_prep_queue s \<noteq> [] \<and> pw_handle (last (gs_prep_queue s)) = h \<and>
      unat off = unat (pw_length (last (gs_prep_queue s))) + unat (pw_offset (last (gs_prep_queue s)))")
    case True
    let ?d = "last (gs_prep_queue s)"
    let ?d' = "?d\<lparr>pw_value := pw_value ?d @ val, pw_length := pw_length ?d + len\<rparr>"
    have d: "prep_ok (gs_db s) ?d" using ok True by simp
    have "append_prep_data e ?d len val = Some (True, ?d')" using append_prep_ok[OF m _ l(1), of ?d] d f True by (auto simp: prep_ok_def)
    moreover have "prep_ok (gs_db s) ?d'" using d l f True by (simp add: prep_ok_def unat_word_ariths)
    moreover have "\<forall>x \<in> set (butlast (gs_prep_queue s)). prep_ok (gs_db s) x" using ok in_set_butlastD by metis
    ultimately show ?thesis using True s
      by (intro exI[of _ "butlast (gs_prep_queue s) @ [?d']"]) (simp add: store_prep_data_def srv_ok_def)
  next
    case False
    let ?d = "\<lparr>pw_value = [], pw_handle = 0, pw_offset = 0, pw_length = 0, pw_reliable_supported = False\<rparr>"
    obtain b where b: "is_reliable_write_supported e (h - 1) s = Some (b, s, [])" using reliable_total[OF s] by blast
    let ?d' = "\<lparr>pw_value = val, pw_handle = h, pw_offset = off, pw_length = len, pw_reliable_supported = b\<rparr>"
    have "append_prep_data e ?d len val = Some (True, ?d\<lparr>pw_value := val, pw_length := len\<rparr>)" using append_prep_ok[OF m _ l(1), of ?d] l(2) by simp
    then have "prep_data_new e h off len val s = Some (True, s\<lparr>gs_prep_queue := gs_prep_queue s @ [?d']\<rparr>, [])"
      using b by (simp add: prep_data_new_def Let_def)
    moreover have "prep_ok (gs_db s) ?d'" using l h by (simp add: prep_ok_def)
    ultimately show ?thesis using False s
      by (intro exI[of _ "gs_prep_queue s @ [?d']"]) (auto simp: store_prep_data_def srv_ok_def)
  qed
qed

lemma prep_write_complete_handled:
  assumes s: "srv_ok s" and m: "e_mem e" and p: "prep_pdu_ok s pdu" and f: "prep_fits s pdu"
  shows "handled (prep_write_complete_cb e x pdu err s)"
proof -
  have len: "4 \<le> length pdu" "length pdu < unat (gs_att_mtu s)" using p by (auto simp: prep_pdu_ok_def)
  have l: "length pdu < 2 ^ 16" using len(2) mtu_bound less_trans by blast
  have l': "length (drop 4 pdu) < 2 ^ 16" using l by (simp add: less_imp_diff_less)
  have g: "get_le16 pdu 0 = Some (load16 pdu 0)" "get_le16 pdu 2 = Some (load16 (take 2 (drop 2 pdu)) 0)"
    using len(1) get_le16_head[of pdu] get_le16_Some[of 2 pdu] by simp_all
  show ?thesis
  proof (cases "err \<noteq> 0")
    case True
    then show ?thesis using g(1) handled_error[of "put_op x None s"] s by (simp add: prep_write_complete_cb_def)
  next
    case False
    obtain q where q: "store_prep_data e (load16 pdu 0) (load16 (take 2 (drop 2 pdu)) 0) (of_nat (length pdu) - 4) (drop 4 pdu) s =
        Some (True, s\<lparr>gs_prep_queue := q\<rparr>, [])" "srv_ok (s\<lparr>gs_prep_queue := q\<rparr>)"
      using store_prep_ok[OF s m prep_len[OF len(1) l] l', of "load16 pdu 0" "load16 (take 2 (drop 2 pdu)) 0"] p f l'
      unfolding prep_pdu_ok_def prep_fits_def by fastforce
    then show ?thesis using False g handled_sent[of "put_op x None (s\<lparr>gs_prep_queue := q\<rparr>)" pdu] len(2)
      by (simp add: prep_write_complete_cb_def)
  qed
qed

lemma prep_write_handled:
  assumes s: "srv_ok s" and m: "e_mem e" and o: "opcode \<noteq> 0" and len: "length pdu < unat (gs_att_mtu s)" and f: "prep_fits s pdu"
  shows "handled (prep_write_cb e opcode pdu s)"
proof (cases "length pdu < 4 \<or> length (gs_prep_queue s) \<ge> unat (gs_max_prep_queue_len s)")
  case True
  then show ?thesis using handled_error[OF s o] by (auto simp: prep_write_cb_def)
next
  case False
  have db: "db_ok (gs_db s)" using s by (simp add: srv_ok_def)
  let ?h = "load16 pdu 0" and ?off = "load16 (take 2 (drop 2 pdu)) 0" and ?p = "gs_next_op s"
  have g: "get_le16 pdu 0 = Some ?h" "get_le16 pdu 2 = Some ?off"
    using False get_le16_head[of pdu] get_le16_Some[of 2 pdu] by simp_all
  note err = handled_error[OF s o]
  from db show ?thesis
  proof (cases rule: get_attribute_ok[of "gs_db s" ?h])
    case none
    then show ?thesis using err g False by (simp add: prep_write_cb_def)
  next
    case (some r a)
    obtain c where c: "check_permissions s (Some r) write_mask = Some c" by (rule check_permissions_total[OF some(2)])
    show ?thesis
    proof (cases "c = 0")
      case no: False
      then show ?thesis using err g False some c by (simp add: prep_write_cb_def)
    next
      case True
      have i: "snd r \<noteq> 0" using write_allowed[OF s some(2)] c True by simp
      have fn: "prep_write_fn \<noteq> 0" by simp
      let ?s = "allocated (Prep_op pdu) s"
      have ok: "srv_ok (?s\<lparr>gs_db := db'\<rparr>)" "prep_pdu_ok (?s\<lparr>gs_db := db'\<rparr>) pdu" "prep_fits (?s\<lparr>gs_db := db'\<rparr>) pdu"
        if "db_ok db'" "same_shape (gs_db s) db'" for db'
        using srv_ok_db[of ?s db'] shape_get_attribute[OF that(2), of ?h] that s some(1) i False len f
        by (auto simp: prep_pdu_ok_def prep_fits_def)
      from db some(2) fn i m show ?thesis
      proof (cases rule: write_cases[of "gs_db s" r a prep_write_fn "e_mem e" "e_junk e" "e_tid e" ?off "[]" BT_ATT_OP_PREP_WRITE_REQ ?p])
        case (now db')
        then show ?thesis using g False some c True m prep_write_complete_handled[OF ok(1) m ok(2,3), of db' ?p 0]
          by (simp add: prep_write_cb_def new_op_eq Let_def)
      next
        case (later db' a' pd n)
        have "write_waiting (?s\<lparr>gs_db := db'\<rparr>) prep_write_fn ?p" using ok(2)[OF later(1,2)] by (simp add: write_waiting_def)
        then have "handled (Some (?s\<lparr>gs_db := db'\<rparr>, [App (Write_request (a_write_func a) r n ?off [] BT_ATT_OP_PREP_WRITE_REQ (a_user_data a))]))"
          using later ok(1) by (intro handled_later_write[of _ _ a' pd]) simp_all
        then show ?thesis using g later False some c True m by (simp add: prep_write_cb_def new_op_eq Let_def)
      qed
    qed
  qed
qed

section \<open>Execution of the queue\<close>

lemma srv_ok_queue: "srv_ok s \<Longrightarrow> set q \<subseteq> set (gs_prep_queue s) \<Longrightarrow> srv_ok (s\<lparr>gs_prep_queue := q\<rparr>)"
  by (auto simp: srv_ok_def)

lemma exec_error_handled: "srv_ok s \<Longrightarrow> handled (exec_error h err s)"
  using handled_error[of "s\<lparr>gs_prep_queue := []\<rparr>" BT_ATT_OP_EXEC_WRITE_REQ] srv_ok_queue[of s "[]"] by (simp add: exec_error_def)

lemma exec_rsp_handled:
  assumes "srv_ok s"
  shows "handled (Some (s\<lparr>gs_prep_queue := []\<rparr>, [Sent BT_ATT_OP_EXEC_WRITE_RSP []]))"
proof -
  have "23 \<le> unat (gs_att_mtu s)" using assms by (simp add: srv_ok_def)
  then have "0 < unat (gs_att_mtu s)" by linarith
  then show ?thesis using handled_sent[of "s\<lparr>gs_prep_queue := []\<rparr>" "[]"] srv_ok_queue[OF assms, of "[]"] by (simp del: unat_gt_0)
qed

lemma exec_next_handled:
  assumes "srv_ok s" and "e_mem e" and "\<forall>d \<in> set q. prep_ok (gs_db s) d"
  shows "handled (exec_next_prep_write e q h err s)"
  using assms
proof (induction q arbitrary: s h err)
  case Nil
  then show ?case using exec_error_handled exec_rsp_handled by simp
next
  case (Cons d q)
  note err = exec_error_handled[OF Cons.prems(1)]
  have db: "db_ok (gs_db s)" using Cons.prems(1) by (simp add: srv_ok_def)
  show ?case
  proof (cases "err \<noteq> 0")
    case True
    then show ?thesis using err by simp
  next
    case False
    from db show ?thesis
    proof (cases rule: get_attribute_ok[of "gs_db s" "pw_handle d"])
      case none
      then show ?thesis using err False by simp
    next
      case (some r a)
      have d: "length (pw_value d) = unat (pw_length d)" "snd r \<noteq> 0" using Cons.prems(3) some(1) unfolding prep_ok_def by (simp, metis list.set_intros(1))
      have v: "read_range (pw_value d) 0 (unat (pw_length d)) = Some (pw_value d)" using d(1) by (simp add: read_range_def)
      have fn: "exec_write_fn \<noteq> 0" by simp
      let ?s = "\<lambda>db'. s\<lparr>gs_db := db', gs_prep_queue := q\<rparr>"
      have ok: "srv_ok (?s db')" "\<forall>d \<in> set q. prep_ok (gs_db (?s db')) d" if "db_ok db'" "same_shape (gs_db s) db'" for db'
        using srv_ok_db[OF Cons.prems(1) that] Cons.prems(3) shape_get_attribute[OF that(2)] by (auto simp: srv_ok_def prep_ok_def)
      from db some(2) fn d(2) Cons.prems(2) show ?thesis
      proof (cases rule: write_cases[of "gs_db s" r a exec_write_fn "e_mem e" "e_junk e" "e_tid e" "pw_offset d" "pw_value d" BT_ATT_OP_EXEC_WRITE_REQ 0])
        case (now db')
        obtain a' where "attr_at db' r = Some a'" using shape_some[OF now(2) some(2)] by metis
        then show ?thesis using False some now v Cons.IH[OF ok(1) Cons.prems(2) ok(2), of db' "a_handle a'" 0]
          by (simp add: Let_def gatt_db_attribute_get_handle_def)
      next
        case (later db' a' pd n)
        have "write_waiting (?s db') exec_write_fn 0" by (simp add: write_waiting_def)
        then have "handled (Some (?s db', [App (Write_request (a_write_func a) r n (pw_offset d) (pw_value d) BT_ATT_OP_EXEC_WRITE_REQ (a_user_data a))]))"
          using later ok(1) by (intro handled_later_write[of _ _ a' pd]) simp_all
        then show ?thesis using False some later v by (simp add: Let_def)
      qed
    qed
  qed
qed

lemma exec_write_handled:
  assumes s: "srv_ok s" and m: "e_mem e" and o: "opcode \<noteq> 0"
  shows "handled (exec_write_cb e opcode pdu s)"
proof -
  have q: "srv_ok (s\<lparr>gs_prep_queue := []\<rparr>)" using srv_ok_queue[OF s, of "[]"] by simp
  have "\<forall>d \<in> set (gs_prep_queue s). prep_ok (gs_db s) d" using s by (simp add: srv_ok_def)
  then show ?thesis using handled_error[OF q o] exec_rsp_handled[OF s] exec_next_handled[OF s m]
    by (auto simp: exec_write_cb_def Let_def split: option.split)
qed

section \<open>Exchange of the MTU\<close>

lemma exchange_mtu_handled:
  assumes s: "srv_ok s" and o: "opcode \<noteq> 0"
  shows "handled (exchange_mtu_cb e opcode pdu s)"
proof (cases "length pdu = 2")
  case True
  have mtu: "23 \<le> unat (gs_att_mtu s)" using s by (simp add: srv_ok_def)
  let ?f = "max (min (load16 pdu 0) (gs_mtu s)) BT_ATT_DEFAULT_LE_MTU"
  have f: "23 \<le> unat ?f" using word_le_nat_alt[of BT_ATT_DEFAULT_LE_MTU ?f] by (simp add: BT_ATT_DEFAULT_LE_MTU_def)
  then have "srv_ok (set_att_mtu e ?f (s\<lparr>gs_mtu := ?f\<rparr>))" using s by (simp add: set_att_mtu_def srv_ok_def)
  moreover have "2 < unat (gs_att_mtu (set_att_mtu e ?f (s\<lparr>gs_mtu := ?f\<rparr>)))" using f mtu by (simp add: set_att_mtu_def)
  ultimately have "handled (Some (set_att_mtu e ?f (s\<lparr>gs_mtu := ?f\<rparr>), [Sent BT_ATT_OP_MTU_RSP (le16 (gs_mtu s))]))"
    by (intro handled_sent) (simp_all add: le16_def)
  then show ?thesis using True get_le16_head[of pdu] by (simp add: exchange_mtu_cb_def Let_def)
qed (use handled_error[OF s o] in \<open>simp add: exchange_mtu_cb_def\<close>)

section \<open>Requests and answers\<close>

lemma request_handled:
  assumes s: "srv_ok s" and m: "e_mem e" and h: "att_handler opcode = Some cb" and o: "opcode \<noteq> BT_ATT_OP_WRITE_CMD"
    and len: "length pdu < unat (gs_att_mtu s)" and f: "opcode = BT_ATT_OP_PREP_WRITE_REQ \<longrightarrow> prep_fits s pdu"
  shows "handled (cb e opcode pdu s)"
proof -
  have nz: "opcode \<noteq> 0" using h by (auto simp: att_handler_def att_op_defs split: if_splits)
  show ?thesis
  proof (cases "opcode = BT_ATT_OP_PREP_WRITE_REQ")
    case True
    then have "cb = prep_write_cb" using h by (simp add: att_handler_def att_op_defs)
    then show ?thesis using prep_write_handled[OF s m nz len] f True by simp
  next
    case False
    then have "cb \<in> {exchange_mtu_cb, read_by_grp_type_cb, read_by_type_cb, find_info_cb, find_by_type_val_cb, write_cb, read_cb, read_blob_cb,
        read_multiple_cb, exec_write_cb}"
      using h by (simp add: att_handler_def split: if_splits)
    then show ?thesis
      using exchange_mtu_handled[OF s nz] read_by_grp_type_handled[OF s nz] read_by_type_handled[OF s nz] find_info_handled[OF s nz]
        find_by_type_val_handled[OF s nz] write_handled[OF s m nz o] read_handled[OF s nz] read_blob_handled[OF s nz] read_multiple_handled[OF s nz]
        exec_write_handled[OF s m nz] by auto
  qed
qed

lemma fn_distinct [simp]:
  "read_fn \<noteq> read_by_type_fn" "read_multiple_fn \<noteq> read_by_type_fn" "read_multiple_fn \<noteq> read_fn"
  "prep_write_fn \<noteq> write_fn" "exec_write_fn \<noteq> write_fn" "exec_write_fn \<noteq> prep_write_fn"
  by (simp_all add: fn_defs)

lemma read_answer_handled:
  assumes s: "srv_ok s" and a: "attr_at (gs_db s) r = Some a" and w: "read_waiting s fn p"
  shows "handled (server_callback e (Read_done fn r err val p) s)"
proof -
  from w consider (type) op where "fn = read_by_type_fn" "gs_ops s p = Some (Read_op op)" "by_type_ok s op"
    | (read) op where "fn = read_fn" "gs_ops s p = Some (Read_op op)" "ro_opcode op \<noteq> 0"
    | (mult) d where "fn = read_multiple_fn" "gs_ops s p = Some (Mult_op d)" "mult_ok s d"
    unfolding read_waiting_def by blast
  then show ?thesis
  proof cases
    case type
    have b: "length (ro_pdu op) = unat (gs_att_mtu s)" "ro_pdu_len op < unat (gs_att_mtu s)" using type(3) by (auto simp: by_type_ok_def)
    from s a b show ?thesis
    proof (cases rule: by_type_step[of s r a op err val])
      case (error h c)
      then show ?thesis using type handled_error[of "async_read_op_destroy p s" BT_ATT_OP_READ_BY_TYPE_REQ h c] s by (simp add: server_callback_def)
    next
      case (goes_on op')
      then have "handled (process_read_by_type e p op' (ro_db_data op') s)"
        by (intro process_read_by_type_handled[OF s]) (use type(3) in \<open>simp_all add: by_type_ok_def\<close>)
      then show ?thesis using type goes_on by (simp add: server_callback_def)
    qed
  next
    case read
    then show ?thesis using read_complete_handled[OF s a read(3)] by (simp add: server_callback_def)
  next
    case mult
    then show ?thesis using read_multiple_handled_rest[OF s a mult(3) refl] by (simp add: server_callback_def)
  qed
qed

lemma write_answer_handled:
  assumes s: "srv_ok s" and a: "attr_at (gs_db s) r = Some a" and m: "e_mem e" and w: "write_waiting s fn p"
    and c: "gs_ops s p \<noteq> Some (Write_op BT_ATT_OP_WRITE_CMD)" and f: "\<forall>pdu. gs_ops s p = Some (Prep_op pdu) \<longrightarrow> prep_fits s pdu"
  shows "handled (server_callback e (Write_done fn r err p) s)"
proof -
  from w consider (wr) opcode where "fn = write_fn" "gs_ops s p = Some (Write_op opcode)" "opcode \<noteq> 0"
    | (prep) pdu where "fn = prep_write_fn" "gs_ops s p = Some (Prep_op pdu)" "prep_pdu_ok s pdu"
    | (ex) "fn = exec_write_fn"
    unfolding write_waiting_def by blast
  then show ?thesis
  proof cases
    case wr
    then show ?thesis using write_complete_handled[OF s a wr(3)] c by (simp add: server_callback_def)
  next
    case prep
    then show ?thesis using prep_write_complete_handled[OF s m prep(3)] f by (simp add: server_callback_def)
  next
    case ex
    have "\<forall>d \<in> set (gs_prep_queue s). prep_ok (gs_db s) d" using s by (simp add: srv_ok_def)
    then show ?thesis using ex exec_next_handled[OF s m] a by (simp add: server_callback_def exec_write_complete_cb_def gatt_db_attribute_get_handle_def)
  qed
qed

end
