(* ===== verification/GattServerProps.thy ===== *)
theory GattServerProps
  imports GattServerWrite
begin

text \<open>
  Properties of the GATT server: answers and their size, permissions, values written and read through the protocol, prepared writes.
\<close>

section \<open>A sample server\<close>

text \<open>
  A service with one characteristic whose value can be read and written, and a server for it. The value at \<open>(1, 2)\<close> has the handle 12.
\<close>

definition rw_value :: "u32 \<Rightarrow> ptr \<Rightarrow> gatt_db_attribute" where
  "rw_value perm rdf = set_attribute_data (fresh_attr 12 (BT_UUID16 0x2A00) []) rdf 0 perm 0"

definition rw_db :: "u32 \<Rightarrow> ptr \<Rightarrow> gatt_db" where
  "rw_db perm rdf = put_service sample_db 1 (Some \<lparr>s_active = False, s_claimed = False, s_num_handles = 5,
     s_attributes = [Some (service_decl 10 True [0, 0x18]), Some (char_decl 12 2 [0, 0x2A]), Some (rw_value perm rdf), None, None]\<rparr>)"

definition rw_server :: "u32 \<Rightarrow> ptr \<Rightarrow> bt_gatt_server" where
  "rw_server perm rdf = bt_gatt_server_new (rw_db perm rdf) 23 23 1 0 0"

lemma rw_insert:
  "service_insert_characteristic True sample_db 1 0 (BT_UUID16 0x2A00) perm 2 rdf 0 0 = Some (Some (1, 2), rw_db perm rdf)"
proof -
  have "le16 0x2A00 = [0, 0x2A]" "le16 12 = [12, 0]" by (simp_all add: le16_def)
  then show ?thesis
    by (simp add: rw_db_def sample_svc[simplified One_nat_def] service_insert_characteristic_def attr_nth slot_def
      get_attribute_index_def free_index.simps get_handle_at_index_def set_slot_def uuid_to_le_def new_attribute_def read_range_def
      Let_def char_decl_def rw_value_def fresh_attr_def set_attribute_data_def service_decl_def)
qed

lemma rw_built: "built (rw_db perm rdf)"
proof -
  let ?c = "Add_characteristic True (1, 0) (BT_UUID16 0x2A00) perm 2 rdf 0 0"
  have ok: "call_ok sample_db ?c" "call_ok gatt_db_new sample_call" "tight gatt_db_new sample_call"
    using sample_state(4) by (simp_all add: sample_call_def tight_def encloses_def gatt_db_new_def gatt_db_ref_def)
  have b: "built sample_db" by (rule built.call[OF built.start ok(2,3) _ sample_exec]) (simp add: sample_call_def)
  have x: "db_exec ?c sample_db = Some (rw_db perm rdf, [])"
    using rw_insert[of perm rdf] by (simp add: gatt_db_service_add_characteristic_def del: One_nat_def)
  show ?thesis by (rule built.call[OF b ok(1) _ _ x]) (simp_all add: tight_def)
qed

lemma rw_attr:
  "attr_at (rw_db perm rdf) (1, 2) = Some (rw_value perm rdf)"
  by (simp add: rw_db_def attr_at_put attr_nth)

lemma rw_fields [simp]:
  "a_write_func (rw_value perm rdf) = 0" "a_read_func (rw_value perm rdf) = rdf" "a_permissions (rw_value perm rdf) = perm" "stored (rw_value perm rdf) = []"
  "a_handle (rw_value perm rdf) = 12" "a_pending_reads (rw_value perm rdf) = []"
  by (simp_all add: rw_value_def set_attribute_data_def fresh_attr_def stored_def)

lemma bt_gatt_server_new_ok:
  assumes "db_ok db" and "ext_static db" and "23 \<le> unat att_mtu"
  shows "srv_ok (bt_gatt_server_new db att_mtu mtu security enc_size min_enc_size)"
proof -
  have "23 \<le> unat (max mtu BT_ATT_DEFAULT_LE_MTU)" using word_le_nat_alt[of BT_ATT_DEFAULT_LE_MTU "max mtu BT_ATT_DEFAULT_LE_MTU"] by (simp add: BT_ATT_DEFAULT_LE_MTU_def)
  then show ?thesis using assms
    by (auto simp: srv_ok_def bt_gatt_server_new_def gatt_db_ref_def db_ok_def ext_static_def attr_at_def)
qed

lemma rw_uuid:
  assumes "attr_at (rw_db perm rdf) r = Some a"
  shows "a_uuid a \<in> {primary_service_uuid, characteristic_uuid, BT_UUID16 0x2A00}"
proof -
  have "attr_at sample_db r = None" if "fst r \<noteq> 1"
    using that by (simp add: attr_at_def sample_db_def inserted_def gatt_db_new_def gatt_db_ref_def)
  then have "attr_at (rw_db perm rdf) r \<noteq> Some a" if "fst r \<noteq> 1" using that by (simp add: rw_db_def attr_at_put)
  then have "fst r = 1" using assms by blast
  then have "attr_at (rw_db perm rdf) (1, snd r) = Some a" using assms by (metis prod.collapse)
  then have "snd r < 5" "[Some (service_decl 10 True [0, 0x18]), Some (char_decl 12 2 [0, 0x2A]), Some (rw_value perm rdf), None, None] ! snd r = Some a"
    by (simp_all add: rw_db_def attr_at_put attr_nth split: if_splits)
  then have "a \<in> {service_decl 10 True [0, 0x18], char_decl 12 2 [0, 0x2A], rw_value perm rdf}" by (auto simp: less_Suc_eq numeral_eq_Suc)
  then show ?thesis by (auto simp: service_decl_def char_decl_def rw_value_def fresh_attr_def set_attribute_data_def service_type_def)
qed

lemma rw_ext: "ext_static (rw_db perm rdf)"
  unfolding ext_static_def
proof (intro allI impI)
  fix r a assume a: "attr_at (rw_db perm rdf) r = Some a" "bt_uuid_cmp ext_desc_uuid (a_uuid a) = Some 0"
  have "bt_uuid_cmp (BT_UUID16 0x2900) (BT_UUID16 w) = Some 0 \<longleftrightarrow> w = 0x2900" for w by (auto simp: bt_uuid_cmp_0 canonical_uuid16)
  then show "a_read_func a = 0" using rw_uuid[OF a(1)] a(2) by (auto simp: ext_desc_uuid_def primary_service_uuid_def characteristic_uuid_def)
qed

lemma rw_ok: "srv_ok (rw_server perm rdf)"
  unfolding rw_server_def by (rule bt_gatt_server_new_ok[OF _ rw_ext]) (use reachable_inv[OF built_reachable[OF rw_built]] in simp_all)

section \<open>Values of the database, through the server\<close>

lemma get_le16_le16 [simp]: "get_le16 (le16 h @ v) 0 = Some h"
  by (simp add: get_le16_def read_range_def le16_def le16_load16)

lemma get_le16_second [simp]: "get_le16 (le16 h @ le16 k @ v) 2 = Some k"
  by (simp add: get_le16_def read_range_def le16_def le16_load16)

lemma length_le16 [simp]: "length (le16 h) = 2"
  by (simp add: le16_def)

lemma kept_fields [simp]:
  "gs_security (put_op p x s) = gs_security s" "gs_enc_size (put_op p x s) = gs_enc_size s" "gs_min_enc_size (put_op p x s) = gs_min_enc_size s"
  "gs_security (allocated y s) = gs_security s" "gs_enc_size (allocated y s) = gs_enc_size s" "gs_min_enc_size (allocated y s) = gs_min_enc_size s"
  "gs_security (async_write_op_destroy p s) = gs_security s" "gs_enc_size (async_write_op_destroy p s) = gs_enc_size s"
  "gs_min_enc_size (async_write_op_destroy p s) = gs_min_enc_size s"
  "gs_pending_read_op (put_op p x s) = gs_pending_read_op s" "gs_pending_read_op (allocated y s) = gs_pending_read_op s"
  "gs_pending_read_op (async_write_op_destroy p s) = gs_pending_read_op s"
  "gs_prep_queue (put_op p x s) = gs_prep_queue s" "gs_max_prep_queue_len (put_op p x s) = gs_max_prep_queue_len s"
  by (simp_all add: put_op_def async_write_op_destroy_def allocated_def new_op_def)

text \<open>An attribute that the server may write at once.\<close>

definition writable :: "bt_gatt_server \<Rightarrow> u16 \<Rightarrow> aref \<Rightarrow> gatt_db_attribute \<Rightarrow> bool" where
  "writable s h r a = (gatt_db_get_attribute (gs_db s) h = Some (Some r) \<and> attr_at (gs_db s) r = Some a \<and> a_write_func a = 0 \<and>
     check_permissions s (Some r) write_mask = Some 0)"

definition readable :: "bt_gatt_server \<Rightarrow> u16 \<Rightarrow> aref \<Rightarrow> gatt_db_attribute \<Rightarrow> bool" where
  "readable s h r a = (gatt_db_get_attribute (gs_db s) h = Some (Some r) \<and> attr_at (gs_db s) r = Some a \<and> a_read_func a = 0 \<and>
     check_permissions s (Some r) read_mask = Some 0)"

lemma static_write:
  assumes s: "srv_ok s" and m: "e_mem e" and w: "writable s h r a" and f: "f \<noteq> 0" and v: "v \<noteq> []" "length v < 2 ^ 16"
  obtains db' a' where "gatt_db_attribute_write (e_mem e) (e_junk e) tid (gs_db s) (Some r) 0 v opc f ud = Some (True, db', [Write_done f r 0 ud])"
    "db_ok db'" "same_shape (gs_db s) db'" "attr_at db' r = Some a'" "stored a' = overwritten (stored a) 0 v" "attr_ok a'" "a_read_func a' = a_read_func a"
proof -
  have db: "db_ok (gs_db s)" using s by (simp add: srv_ok_def)
  have a: "attr_at (gs_db s) r = Some a" "a_write_func a = 0" and c: "check_permissions s (Some r) write_mask = Some 0" using w by (auto simp: writable_def)
  have i: "snd r \<noteq> 0" by (rule write_allowed[OF s a(1) c])
  from db a(1) f i m show ?thesis
  proof (cases rule: write_cases[of "gs_db s" r a f "e_mem e" "e_junk e" tid 0 v opc ud])
    case (now db')
    have "0 \<le> a_value_len a \<or> a_value_len a = 0" by simp
    then obtain a' where "attr_at db' r = Some a'" "attr_ok a'" "a_read_func a' = a_read_func a" "stored a' = overwritten (stored a) (unat 0) v"
      using write_stored[OF db a _ _ v(1) now(3)] v(2) by auto
    then show ?thesis using now that by auto
  next
    case later
    then show ?thesis using a(2) by simp
  qed
qed

text \<open>A write request.\<close>

lemma write_request_stored:
  assumes s: "srv_ok s" and m: "e_mem e" and w: "writable s h r a" and q: "gs_pending_write_op s = 0" and v: "v \<noteq> []" "length v < 2 ^ 16"
  obtains s' a' where "write_cb e BT_ATT_OP_WRITE_REQ (le16 h @ v) s = Some (s', [Sent BT_ATT_OP_WRITE_RSP []])" "srv_ok s'"
    "same_shape (gs_db s) (gs_db s')" "attr_at (gs_db s') r = Some a'" "stored a' = overwritten (stored a) 0 v" "attr_ok a'" "a_read_func a' = a_read_func a"
    "gs_pending_read_op s' = gs_pending_read_op s" "gs_security s' = gs_security s" "gs_enc_size s' = gs_enc_size s" "gs_min_enc_size s' = gs_min_enc_size s"
    "gs_att_mtu s' = gs_att_mtu s"
proof -
  let ?p = "gs_next_op s" and ?s = "(allocated (Write_op BT_ATT_OP_WRITE_REQ) s)\<lparr>gs_pending_write_op := gs_next_op s\<rparr>"
  have fn: "write_fn \<noteq> 0" by simp
  have o: "BT_ATT_OP_WRITE_REQ \<noteq> BT_ATT_OP_WRITE_CMD" by (simp add: att_op_defs)
  obtain db' a' where d: "gatt_db_attribute_write (e_mem e) (e_junk e) (e_tid e) (gs_db s) (Some r) 0 v BT_ATT_OP_WRITE_REQ write_fn ?p = Some (True, db', [Write_done write_fn r 0 ?p])"
    "db_ok db'" "same_shape (gs_db s) db'" "attr_at db' r = Some a'" "stored a' = overwritten (stored a) 0 v" "attr_ok a'" "a_read_func a' = a_read_func a"
    by (rule static_write[OF s m w fn v])
  let ?t = "async_write_op_destroy ?p (?s\<lparr>gs_db := db'\<rparr>)"
  have "write_cb e BT_ATT_OP_WRITE_REQ (le16 h @ v) s = Some (?t, [Sent BT_ATT_OP_WRITE_RSP []])"
    using w q d(1,4) o by (simp add: write_cb_def writable_def new_op_eq Let_def write_complete_cb_def gatt_db_attribute_get_handle_def)
  then show ?thesis by (rule that[of _ a']) (use srv_ok_db[of ?s db'] s d in simp_all)
qed

text \<open>A read or a read at an offset, of a value of the database.\<close>

lemma read_request_value:
  assumes s: "srv_ok s" and w: "readable s h r a" and q: "gs_pending_read_op s = 0" and o: "unat off \<le> length (stored a)"
  shows "\<exists>s'. handle_read_req e opcode h off s = Some (s', [Sent (get_read_rsp_opcode opcode) (take (unat (gs_att_mtu s) - 1) (drop (unat off) (stored a)))])"
proof -
  have db: "db_ok (gs_db s)" and m: "23 \<le> unat (gs_att_mtu s)" using s by (auto simp: srv_ok_def)
  have a: "attr_at (gs_db s) r = Some a" "a_read_func a = 0" using w by (auto simp: readable_def)
  have fn: "read_fn \<noteq> 0" by simp
  have "mtu_minus (gs_att_mtu s) 1 = unat (gs_att_mtu s) - 1" using mtu_minus_eq[OF m, of 1] by simp
  then have t: "take (min (mtu_minus (gs_att_mtu s) 1) (length v)) v = take (unat (gs_att_mtu s) - 1) v" for v by (simp add: min_def)
  have "gatt_db_attribute_read (e_tid e) (gs_db s) (Some r) off opcode read_fn (gs_next_op s) =
      Some (True, gs_db s, [Read_done read_fn r 0 (drop (unat off) (stored a)) (gs_next_op s)])"
    using read_stored[OF attr_at_ok(1)[OF db a(1)] a fn] o by simp
  then show ?thesis using w q a t
    by (simp add: handle_read_req_def readable_def new_op_eq Let_def read_complete_cb_def gatt_db_attribute_get_handle_def del: length_drop)
qed

lemma check_permissions_shape:
  assumes "attr_at (gs_db s) r = Some a" "attr_at (gs_db s') r = Some a'" "a_permissions a' = a_permissions a"
    and "gs_security s' = gs_security s" "gs_enc_size s' = gs_enc_size s" "gs_min_enc_size s' = gs_min_enc_size s"
  shows "check_permissions s' (Some r) m = check_permissions s (Some r) m"
  using assms by (simp add: check_permissions_def gatt_db_attribute_get_permissions_def Let_def)

section \<open>Long writes\<close>

text \<open>The prepared writes of a client for the chunks of a value, one behind the other, and the request to execute them.\<close>

fun prepare_chunks :: "env \<Rightarrow> u16 \<Rightarrow> nat \<Rightarrow> u8 list list \<Rightarrow> bt_gatt_server \<Rightarrow> action" where
  "prepare_chunks e h off [] s = Some (s, [])"
| "prepare_chunks e h off (c # cs) s =
     do { (s, out) \<leftarrow> prep_write_cb e BT_ATT_OP_PREP_WRITE_REQ (le16 h @ le16 (of_nat off) @ c) s;
          (s, out') \<leftarrow> prepare_chunks e h (off + length c) cs s;
          Some (s, out @ out') }"

definition long_write :: "env \<Rightarrow> u16 \<Rightarrow> u8 list list \<Rightarrow> bt_gatt_server \<Rightarrow> action" where
  "long_write e h cs s =
     do { (s, out) \<leftarrow> prepare_chunks e h 0 cs s;
          (s, out') \<leftarrow> exec_write_cb e BT_ATT_OP_EXEC_WRITE_REQ [1] s;
          Some (s, out @ out') }"

fun echoes :: "u16 \<Rightarrow> nat \<Rightarrow> u8 list list \<Rightarrow> att_out list" where
  "echoes h off [] = []"
| "echoes h off (c # cs) = Sent BT_ATT_OP_PREP_WRITE_RSP (le16 h @ le16 (of_nat off) @ c) # echoes h (off + length c) cs"

text \<open>The queue holds the first bytes of the value for the handle, in one entry.\<close>

definition collected :: "u16 \<Rightarrow> u8 list \<Rightarrow> bt_gatt_server \<Rightarrow> bool" where
  "collected h v s = (if v = [] then gs_prep_queue s = []
     else \<exists>b. gs_prep_queue s = [\<lparr>pw_value = v, pw_handle = h, pw_offset = 0, pw_length = of_nat (length v), pw_reliable_supported = b\<rparr>])"

lemma store_collected:
  assumes s: "srv_ok s" and m: "e_mem e" and q: "collected h v s" and l: "length v + length c < 2 ^ 16" "c \<noteq> []"
  obtains q where "store_prep_data e h (of_nat (length v)) (of_nat (length c)) c s = Some (True, s\<lparr>gs_prep_queue := q\<rparr>, [])"
    "collected h (v @ c) (s\<lparr>gs_prep_queue := q\<rparr>)"
proof -
  have n: "unat (of_nat (length c) :: u16) = length c" "unat (of_nat (length v) :: u16) = length v" using l by (simp_all add: unat_of_nat)
  show ?thesis
  proof (cases "v = []")
    case True
    obtain b where b: "is_reliable_write_supported e (h - 1) s = Some (b, s, [])" using reliable_total[OF s] by blast
    let ?d = "\<lparr>pw_value = [], pw_handle = 0, pw_offset = 0, pw_length = 0, pw_reliable_supported = False\<rparr>"
    let ?d' = "\<lparr>pw_value = c, pw_handle = h, pw_offset = 0, pw_length = of_nat (length c), pw_reliable_supported = b\<rparr>"
    have "append_prep_data e ?d (of_nat (length c)) c = Some (True, ?d\<lparr>pw_value := c, pw_length := of_nat (length c)\<rparr>)"
      using append_prep_ok[OF m _ n(1), of ?d] l by simp
    then show ?thesis using that[of "[?d']"] b q True l(2) by (simp add: store_prep_data_def prep_data_new_def collected_def Let_def)
  next
    case False
    then obtain b where b: "gs_prep_queue s = [\<lparr>pw_value = v, pw_handle = h, pw_offset = 0, pw_length = of_nat (length v), pw_reliable_supported = b\<rparr>]"
      using q by (auto simp: collected_def)
    let ?d = "\<lparr>pw_value = v, pw_handle = h, pw_offset = 0, pw_length = of_nat (length v), pw_reliable_supported = b\<rparr>"
    have "append_prep_data e ?d (of_nat (length c)) c = Some (True, ?d\<lparr>pw_value := v @ c, pw_length := of_nat (length v) + of_nat (length c)\<rparr>)"
      using append_prep_ok[OF m _ n(1), of ?d] n l by simp
    then show ?thesis using that[of "[?d\<lparr>pw_value := v @ c, pw_length := of_nat (length v) + of_nat (length c)\<rparr>]"] b False n
      by (simp add: store_prep_data_def collected_def)
  qed
qed

lemma prep_chunk:
  assumes s: "srv_ok s" and m: "e_mem e" and w: "writable s h r a" and q: "collected h v s" and l: "length v + length c < 2 ^ 16" "c \<noteq> []"
    and x: "1 < unat (gs_max_prep_queue_len s)"
  obtains s' where "prep_write_cb e BT_ATT_OP_PREP_WRITE_REQ (le16 h @ le16 (of_nat (length v)) @ c) s =
      Some (s', [Sent BT_ATT_OP_PREP_WRITE_RSP (le16 h @ le16 (of_nat (length v)) @ c)])"
    "collected h (v @ c) s'" "writable s' h r a" "gs_db s' = gs_db s" "gs_max_prep_queue_len s' = gs_max_prep_queue_len s" "srv_ok s'"
proof -
  let ?pdu = "le16 h @ le16 (of_nat (length v)) @ c" and ?p = "gs_next_op s"
  let ?s = "allocated (Prep_op ?pdu) s"
  have db: "db_ok (gs_db s)" using s by (simp add: srv_ok_def)
  have a: "attr_at (gs_db s) r = Some a" "a_write_func a = 0" using w by (auto simp: writable_def)
  have fn: "prep_write_fn \<noteq> 0" by simp
  have wr: "gatt_db_attribute_write True (e_junk e) (e_tid e) (gs_db s) (Some r) (of_nat (length v)) [] BT_ATT_OP_PREP_WRITE_REQ prep_write_fn ?p =
      Some (True, gs_db s, [Write_done prep_write_fn r 0 ?p])"
    using a fn by (simp add: gatt_db_attribute_write_def)
  have q': "collected h v ?s" using q by (simp add: collected_def)
  have s': "srv_ok ?s" using s by simp
  obtain q1 where q1: "store_prep_data e h (of_nat (length v)) (of_nat (length c)) c ?s = Some (True, ?s\<lparr>gs_prep_queue := q1\<rparr>, [])"
    "collected h (v @ c) (?s\<lparr>gs_prep_queue := q1\<rparr>)"
    by (rule store_collected[OF s' m q' l])
  have n: "length (gs_prep_queue s) < unat (gs_max_prep_queue_len s)" using q x by (auto simp: collected_def split: if_splits)
  have len: "(of_nat (length ?pdu) - 4 :: u16) = of_nat (length c)" "drop 4 ?pdu = c" by (simp, simp add: le16_def)
  let ?t = "put_op ?p None (?s\<lparr>gs_prep_queue := q1\<rparr>)"
  have "prep_write_complete_cb e ?p ?pdu 0 ?s = Some (?t, [Sent BT_ATT_OP_PREP_WRITE_RSP ?pdu])"
    using q1(1) unfolding prep_write_complete_cb_def len by simp
  then have "prep_write_cb e BT_ATT_OP_PREP_WRITE_REQ ?pdu s = Some (?t, [Sent BT_ATT_OP_PREP_WRITE_RSP ?pdu])"
    using w m n wr by (simp add: prep_write_cb_def writable_def new_op_eq Let_def same_db)
  moreover have "check_permissions ?t (Some r) write_mask = check_permissions s (Some r) write_mask" by (rule check_permissions_shape[of s r a _ a]) (use a in simp_all)
  moreover have "srv_ok ?t"
  proof -
    have "prep_ok (gs_db s) d" if "d \<in> set q1" for d
    proof -
      obtain b where "q1 = [\<lparr>pw_value = v @ c, pw_handle = h, pw_offset = 0, pw_length = of_nat (length (v @ c)), pw_reliable_supported = b\<rparr>]"
        using q1(2) l(2) by (auto simp: collected_def)
      then have d: "pw_handle d = h" "pw_value d = v @ c" "pw_length d = of_nat (length (v @ c))" using that by simp_all
      have "unat (of_nat (length (v @ c)) :: u16) = length (v @ c)" using l(1) by (simp add: unat_of_nat del: of_nat_add)
      moreover have "snd r \<noteq> 0" using write_allowed[OF s a(1)] w by (simp add: writable_def)
      ultimately show ?thesis using d w unfolding prep_ok_def writable_def by simp
    qed
    then have "srv_ok (?s\<lparr>gs_prep_queue := q1\<rparr>)" using s' by (simp add: srv_ok_def)
    then show ?thesis by simp
  qed
  moreover have "collected h (v @ c) ?t" using q1(2) l(2) by (simp add: collected_def)
  ultimately show ?thesis by (intro that[of ?t]) (use w in \<open>simp_all add: writable_def\<close>)
qed

lemma prepare_collected:
  assumes "srv_ok s" and m: "e_mem e" and "writable s h r a" and "collected h v s" and "length v + length (concat cs) < 2 ^ 16" and "\<forall>c \<in> set cs. c \<noteq> []"
    and "1 < unat (gs_max_prep_queue_len s)"
  shows "\<exists>s'. prepare_chunks e h (length v) cs s = Some (s', echoes h (length v) cs) \<and> srv_ok s' \<and> writable s' h r a \<and> collected h (v @ concat cs) s' \<and>
    gs_db s' = gs_db s"
  using assms(1,3-)
proof (induction cs arbitrary: s v)
  case (Cons c cs)
  let ?pdu = "le16 h @ le16 (of_nat (length v)) @ c"
  have l: "length v + length c < 2 ^ 16" "c \<noteq> []" using Cons.prems(4,5) by auto
  obtain s' where s': "prep_write_cb e BT_ATT_OP_PREP_WRITE_REQ ?pdu s = Some (s', [Sent BT_ATT_OP_PREP_WRITE_RSP ?pdu])"
    "collected h (v @ c) s'" "writable s' h r a" "gs_db s' = gs_db s" "gs_max_prep_queue_len s' = gs_max_prep_queue_len s" "srv_ok s'"
    using prep_chunk[OF Cons.prems(1) m Cons.prems(2,3) l Cons.prems(6)] by metis
  have "\<exists>t. prepare_chunks e h (length (v @ c)) cs s' = Some (t, echoes h (length (v @ c)) cs) \<and> srv_ok t \<and> writable t h r a \<and> collected h ((v @ c) @ concat cs) t \<and>
      gs_db t = gs_db s'"
    by (rule Cons.IH) (use s' Cons.prems(4-) in simp_all)
  then show ?case using s'(1,4) by auto
qed simp

lemma exec_collected:
  assumes s: "srv_ok s" and m: "e_mem e" and w: "writable s h r a" and q: "collected h v s" and v: "v \<noteq> []" "length v < 2 ^ 16"
  shows "\<exists>s' a'. exec_write_cb e BT_ATT_OP_EXEC_WRITE_REQ [1] s = Some (s', [Sent BT_ATT_OP_EXEC_WRITE_RSP []]) \<and> gs_prep_queue s' = [] \<and>
    attr_at (gs_db s') r = Some a' \<and> stored a' = overwritten (stored a) 0 v"
proof -
  obtain b where b: "gs_prep_queue s = [\<lparr>pw_value = v, pw_handle = h, pw_offset = 0, pw_length = of_nat (length v), pw_reliable_supported = b\<rparr>]"
    using q v by (auto simp: collected_def)
  have fn: "exec_write_fn \<noteq> 0" by simp
  obtain db' a' where d: "gatt_db_attribute_write (e_mem e) (e_junk e) (e_tid e) (gs_db s) (Some r) 0 v BT_ATT_OP_EXEC_WRITE_REQ exec_write_fn 0 =
      Some (True, db', [Write_done exec_write_fn r 0 0])" "attr_at db' r = Some a'" "stored a' = overwritten (stored a) 0 v"
    by (rule static_write[OF s m w fn v])
  have "read_range v 0 (unat (of_nat (length v) :: u16)) = Some v" using v by (simp add: read_range_def unat_of_nat)
  then show ?thesis using b d w by (simp add: exec_write_cb_def Let_def writable_def gatt_db_attribute_get_handle_def)
qed

section \<open>Answers of the application\<close>

lemma read_result_cases:
  assumes db: "db_ok db" and a: "attr_at db r = Some a" and p: "find (find_pending n) (a_pending_reads a) = Some p" and n: "n \<noteq> 0"
  obtains db' a' where "gatt_db_attribute_read_result db (Some r) n err v = Some (True, db', pending_read_result r p err v)" "db_ok db'" "same_shape db db'"
    "attr_at db' r = Some a'"
proof -
  have "is_attr db r" using a by (simp add: is_attr_def)
  then obtain x db' ev where r: "gatt_db_attribute_read_result db (Some r) n err v = Some (x, db', ev)" "good_step db db'" using exec_results(1)[OF db] by blast
  then have put: "put_attr db r (a\<lparr>a_pending_reads := remove_first (find_pending n) (a_pending_reads a)\<rparr>) = Some db'" "x" "ev = pending_read_result r p err v"
    using a p n by (auto simp: gatt_db_attribute_read_result_def bind_eq_Some_conv)
  have sh: "same_shape db db'" by (rule same_shape_put[OF a put(1)]) (simp add: fixed_part_def)
  obtain a' where "attr_at db' r = Some a'" by (rule shape_some[OF sh a])
  then show ?thesis using that r put(2,3) sh by (simp add: good_step_def)
qed

lemma read_waiting_shape:
  assumes "read_waiting s fn p" and "same_shape (gs_db s) db'"
  shows "read_waiting (s\<lparr>gs_db := db'\<rparr>) fn p"
  using assms(1) shape_exists[OF assms(2)] by (auto simp: read_waiting_def by_type_ok_def mult_ok_def)

text \<open>The sample server after a read request for the value, whose read callback is 5.\<close>

definition asked_pending :: pending where
  "asked_pending = \<lparr>p_id = 1, p_timeout_id = 1, p_func = read_fn, p_user_data = 1\<rparr>"

definition asked_value :: gatt_db_attribute where
  "asked_value = (rw_value 1 5)\<lparr>a_read_id := 1, a_pending_reads := [asked_pending]\<rparr>"

definition asked_op :: async_read_op where
  "asked_op = \<lparr>ro_opcode = BT_ATT_OP_READ_REQ, ro_done = False, ro_pdu = [], ro_pdu_len = 0, ro_value_len = 0, ro_db_data = []\<rparr>"

definition asked_server :: bt_gatt_server where
  "asked_server = (allocated (Read_op asked_op) (rw_server 1 5))\<lparr>gs_pending_read_op := 1, gs_db := the (put_attr (gs_db (rw_server 1 5)) (1, 2) asked_value)\<rparr>"

lemma rw_server_db: "gs_db (rw_server perm rdf) = gatt_db_ref (rw_db perm rdf)" "attr_at (gs_db (rw_server perm rdf)) (1, 2) = Some (rw_value perm rdf)"
  using rw_attr[of perm rdf] by (simp_all add: rw_server_def bt_gatt_server_new_def attr_at_def gatt_db_ref_def)

lemma asked_put:
  obtains db' where "put_attr (gs_db (rw_server 1 5)) (1, 2) asked_value = Some db'" "db_ok db'" "same_shape (gs_db (rw_server 1 5)) db'" "attr_at db' (1, 2) = Some asked_value"
proof -
  have db: "db_ok (gs_db (rw_server 1 5))" using rw_ok[of 1 5] by (simp add: srv_ok_def)
  note a = rw_server_db(2)[of 1 5]
  have ok: "attr_ok asked_value" using attr_at_ok(1)[OF db a] by (simp add: asked_value_def attr_ok_def split: option.splits)
  have "(1 :: nat, 2 :: nat) = (1, 0) \<longrightarrow> decl_ok asked_value" by simp
  obtain db' where p: "put_attr (gs_db (rw_server 1 5)) (1, 2) asked_value = Some db'" "db_ok db'" using good_step_put_attr[OF db a ok] by (auto simp: good_step_def)
  show ?thesis by (rule that[OF p same_shape_put[OF a p(1)]]) (use put_attr_map[OF db a p(1)] in \<open>simp_all add: asked_value_def fixed_part_def\<close>)
qed

lemma asked_ok: "srv_ok asked_server"
proof -
  obtain db' where d: "put_attr (gs_db (rw_server 1 5)) (1, 2) asked_value = Some db'" "db_ok db'" "same_shape (gs_db (rw_server 1 5)) db'" by (rule asked_put)
  show ?thesis unfolding asked_server_def d(1) option.sel using srv_ok_db[of "(allocated (Read_op asked_op) (rw_server 1 5))\<lparr>gs_pending_read_op := 1\<rparr>" db'] d rw_ok by simp
qed

lemma asked_attr: "attr_at (gs_db asked_server) (1, 2) = Some asked_value" "a_pending_reads asked_value = [asked_pending]"
  by (rule asked_put) (simp_all add: asked_server_def asked_value_def)

lemma asked_waiting: "read_waiting asked_server read_fn 1"
proof -
  have "gs_next_op (rw_server 1 5) = 1" by (simp add: rw_server_def bt_gatt_server_new_def)
  then have "gs_ops asked_server 1 = Some (Read_op asked_op)" using allocated_simps(3)[of "Read_op asked_op" "rw_server 1 5"] by (simp add: asked_server_def)
  then show ?thesis by (simp add: read_waiting_def asked_op_def att_op_defs)
qed

text \<open>A write request, and a read request for the same value.\<close>

lemma write_then_read:
  assumes "srv_ok s" and "e_mem e" and "writable s h r a" and "readable s h r a" and "gs_pending_read_op s = 0" and "gs_pending_write_op s = 0"
    and "v \<noteq> []" and "length v < 2 ^ 16"
  obtains s' s'' where "write_cb e BT_ATT_OP_WRITE_REQ (le16 h @ v) s = Some (s', [Sent BT_ATT_OP_WRITE_RSP []])" "gs_att_mtu s' = gs_att_mtu s"
    "read_cb e' BT_ATT_OP_READ_REQ (le16 h) s' = Some (s'', [Sent BT_ATT_OP_READ_RSP (take (unat (gs_att_mtu s) - 1) (overwritten (stored a) 0 v))])"
proof -
  obtain s' a' where s': "write_cb e BT_ATT_OP_WRITE_REQ (le16 h @ v) s = Some (s', [Sent BT_ATT_OP_WRITE_RSP []])" "srv_ok s'"
    "same_shape (gs_db s) (gs_db s')" "attr_at (gs_db s') r = Some a'" "stored a' = overwritten (stored a) 0 v" "attr_ok a'" "a_read_func a' = a_read_func a"
    "gs_pending_read_op s' = gs_pending_read_op s" "gs_security s' = gs_security s" "gs_enc_size s' = gs_enc_size s" "gs_min_enc_size s' = gs_min_enc_size s"
    "gs_att_mtu s' = gs_att_mtu s"
    by (rule write_request_stored[OF assms(1,2,3,6,7,8)])
  have a: "attr_at (gs_db s) r = Some a" using assms(3) by (simp add: writable_def)
  have "fixed_part a' = fixed_part a" using shape_some[OF s'(3) a] s'(4) by (metis option.inject)
  then have "check_permissions s' (Some r) read_mask = check_permissions s (Some r) read_mask"
    by (intro check_permissions_shape[OF a s'(4)]) (use s' in \<open>simp_all add: fixed_part_def\<close>)
  then have "readable s' h r a'" using assms(4) s'(4,7) shape_get_attribute[OF s'(3)] by (simp add: readable_def)
  from read_request_value[OF s'(2) this, of 0 e' BT_ATT_OP_READ_REQ] show ?thesis
    using that s'(1,5,8,12) assms(5) get_le16_le16[of h "[]"] by (auto simp: read_cb_def get_read_rsp_opcode_def)
qed

section \<open>Properties\<close>

text \<open>
  C4. Every request of a client is answered: the handler returns without undefined behaviour and does exactly one thing, it sends one
  PDU that fits the MTU, or it asks the application for the value and leaves the operation waiting for the answer. The invariant of the
  server is kept. (The request is at most as long as the MTU allows, memory is not exhausted, and a prepared write does not
  push the length of its entry over 16 bits.)
\<close>

theorem gatt_server_request_answered:
  assumes "srv_ok s" and "e_mem e" and "att_handler opcode = Some cb" and "opcode \<noteq> BT_ATT_OP_WRITE_CMD"
    and "length pdu < unat (gs_att_mtu s)" and "opcode = BT_ATT_OP_PREP_WRITE_REQ \<longrightarrow> prep_fits s pdu"
  shows "\<exists>s' x. cb e opcode pdu s = Some (s', [x]) \<and> srv_ok s' \<and> fits s' x"
  using request_handled[OF assms] by (simp add: handled_def)

theorem gatt_server_request_answered_witness:
  "\<exists>s' x. read_cb \<lparr>e_mem = True, e_junk = (\<lambda>_. 0), e_tid = 1\<rparr> BT_ATT_OP_READ_REQ [12, 0] (rw_server 1 5) = Some (s', [x]) \<and> srv_ok s' \<and> fits s' x"
proof -
  have "att_handler BT_ATT_OP_READ_REQ = Some read_cb" by (simp add: att_handler_def att_op_defs)
  then show ?thesis
    by (rule gatt_server_request_answered[OF rw_ok, rotated])
      (simp_all add: att_op_defs rw_server_def bt_gatt_server_new_def prep_fits_def)
qed

text \<open>
  C6. When the application answers a read that the server left waiting (a read, a read by type, a read of several values), the
  database finds the request and runs the callback of the server, which again does exactly one thing: it sends a PDU that fits the MTU, or asks for the
  value of the next attribute of the request.
\<close>

theorem gatt_server_answer_answered:
  assumes "srv_ok s" and "attr_at (gs_db s) r = Some a" and "find (find_pending n) (a_pending_reads a) = Some p" and "n \<noteq> 0"
    and "p_func p \<noteq> 0" and "read_waiting s (p_func p) (p_user_data p)"
  shows "\<exists>db' ev s' x. gatt_db_attribute_read_result (gs_db s) (Some r) n err val = Some (True, db', ev @ [Read_done (p_func p) r err val (p_user_data p)]) \<and>
    server_callback e (Read_done (p_func p) r err val (p_user_data p)) (s\<lparr>gs_db := db'\<rparr>) = Some (s', [x]) \<and> srv_ok s' \<and> fits s' x"
proof -
  have db: "db_ok (gs_db s)" using assms(1) by (simp add: srv_ok_def)
  obtain db' a' where d: "gatt_db_attribute_read_result (gs_db s) (Some r) n err val = Some (True, db', pending_read_result r p err val)"
    "db_ok db'" "same_shape (gs_db s) db'" "attr_at db' r = Some a'"
    by (rule read_result_cases[OF db assms(2-4)])
  have "handled (server_callback e (Read_done (p_func p) r err val (p_user_data p)) (s\<lparr>gs_db := db'\<rparr>))"
    by (rule read_answer_handled[OF srv_ok_db[OF assms(1) d(2,3)] _ read_waiting_shape[OF assms(6) d(3)]]) (use d(4) in simp)
  then show ?thesis using d(1) by (auto simp: handled_def pending_read_result_def)
qed

theorem gatt_server_answer_answered_witness:
  "\<exists>db' ev s' x. gatt_db_attribute_read_result (gs_db asked_server) (Some (1, 2)) 1 0 [7] = Some (True, db', ev @ [Read_done read_fn (1, 2) 0 [7] 1]) \<and>
    server_callback \<lparr>e_mem = True, e_junk = (\<lambda>_. 0), e_tid = 1\<rparr> (Read_done read_fn (1, 2) 0 [7] 1) (asked_server\<lparr>gs_db := db'\<rparr>) = Some (s', [x]) \<and>
    srv_ok s' \<and> fits s' x"
  using gatt_server_answer_answered[OF asked_ok asked_attr(1), of 1 asked_pending 0 "[7]" "\<lparr>e_mem = True, e_junk = (\<lambda>_. 0), e_tid = 1\<rparr>"] asked_attr(2) asked_waiting
  by (simp add: asked_pending_def find_pending_def)

text \<open>
  A write request and a read request of a value the database keeps: the write is acknowledged and the read returns the new value, cut to what one PDU
  can carry.
\<close>

theorem gatt_server_write_read_roundtrip:
  assumes "srv_ok s" and "e_mem e" and "writable s h r a" and "readable s h r a" and "gs_pending_read_op s = 0" and "gs_pending_write_op s = 0"
    and "v \<noteq> []" and "length v < 2 ^ 16"
  shows "\<exists>s'. write_cb e BT_ATT_OP_WRITE_REQ (le16 h @ v) s = Some (s', [Sent BT_ATT_OP_WRITE_RSP []]) \<and>
    (\<exists>s''. read_cb e' BT_ATT_OP_READ_REQ (le16 h) s' = Some (s'', [Sent BT_ATT_OP_READ_RSP (take (unat (gs_att_mtu s) - 1) (overwritten (stored a) 0 v))]))"
proof -
  obtain s' s'' where "write_cb e BT_ATT_OP_WRITE_REQ (le16 h @ v) s = Some (s', [Sent BT_ATT_OP_WRITE_RSP []])"
    "read_cb e' BT_ATT_OP_READ_REQ (le16 h) s' = Some (s'', [Sent BT_ATT_OP_READ_RSP (take (unat (gs_att_mtu s) - 1) (overwritten (stored a) 0 v))])"
    by (rule write_then_read[OF assms])
  then show ?thesis by blast
qed

lemma rw_get: "gatt_db_get_attribute (gs_db (rw_server perm rdf)) 12 = Some (Some (1, 2))"
proof -
  have "gatt_db_get_attribute (gs_db (rw_server perm rdf)) 12 = gatt_db_get_attribute (rw_db perm rdf) 12"
    by (simp add: rw_server_db gatt_db_ref_def shape_get_attribute same_shape_def)
  also have "\<dots> = Some (Some (1, 2))"
    by (simp add: gatt_db_get_attribute_def gatt_db_get_service_def find_service_for_handle_def rw_db_def put_service_def sample_db_def inserted_def
      gatt_db_new_def gatt_db_ref_def insert_place_def gatt_db_service_get_handles_def attr_nth slot_def upt_rec
      service_decl_def char_decl_def fresh_attr_def set_attribute_data_def)
  finally show ?thesis .
qed

lemma rw_rights: "writable (rw_server 3 0) 12 (1, 2) (rw_value 3 0)" "readable (rw_server 3 0) 12 (1, 2) (rw_value 3 0)"
proof -
  have "gs_security (rw_server 3 0) = 1" by (simp add: rw_server_def bt_gatt_server_new_def)
  then show "writable (rw_server 3 0) 12 (1, 2) (rw_value 3 0)" "readable (rw_server 3 0) 12 (1, 2) (rw_value 3 0)"
    using rw_server_db(2)[of 3 0] rw_get[of 3 0]
    by (simp_all add: writable_def readable_def check_permissions_def gatt_db_attribute_get_permissions_def write_mask_def read_mask_def att_perm_defs Let_def)
qed

lemma rw_idle: "gs_pending_read_op (rw_server perm rdf) = 0" "gs_pending_write_op (rw_server perm rdf) = 0" "gs_prep_queue (rw_server perm rdf) = []"
  "gs_max_prep_queue_len (rw_server perm rdf) = 30" "gs_att_mtu (rw_server perm rdf) = 23"
  by (simp_all add: rw_server_def bt_gatt_server_new_def DEFAULT_MAX_PREP_QUEUE_LEN_def)

theorem gatt_server_write_read_roundtrip_witness:
  "\<exists>s'. write_cb \<lparr>e_mem = True, e_junk = (\<lambda>_. 0), e_tid = 1\<rparr> BT_ATT_OP_WRITE_REQ [12, 0, 7, 8, 9] (rw_server 3 0) = Some (s', [Sent BT_ATT_OP_WRITE_RSP []]) \<and>
    (\<exists>s''. read_cb \<lparr>e_mem = True, e_junk = (\<lambda>_. 0), e_tid = 1\<rparr> BT_ATT_OP_READ_REQ [12, 0] s' = Some (s'', [Sent BT_ATT_OP_READ_RSP [7, 8, 9]]))"
  using gatt_server_write_read_roundtrip[OF rw_ok _ rw_rights rw_idle(1,2), of "\<lparr>e_mem = True, e_junk = (\<lambda>_. 0), e_tid = 1\<rparr>" "[7, 8, 9]"
    "\<lparr>e_mem = True, e_junk = (\<lambda>_. 0), e_tid = 1\<rparr>"]
  by (simp add: le16_def rw_idle overwritten_def)

text \<open>
  C15. A long write: prepared writes for consecutive chunks of a value are echoed one by one and collected in one entry of the queue, and the
  execute request writes the whole value, empties the queue and is acknowledged.
\<close>

theorem gatt_server_long_write:
  assumes "srv_ok s" and "e_mem e" and "writable s h r a" and "gs_prep_queue s = []" and "1 < unat (gs_max_prep_queue_len s)"
    and "cs \<noteq> []" and "\<forall>c \<in> set cs. c \<noteq> []" and "length (concat cs) < 2 ^ 16"
  shows "\<exists>s' a'. long_write e h cs s = Some (s', echoes h 0 cs @ [Sent BT_ATT_OP_EXEC_WRITE_RSP []]) \<and> gs_prep_queue s' = [] \<and>
    attr_at (gs_db s') r = Some a' \<and> stored a' = overwritten (stored a) 0 (concat cs)"
proof -
  have q: "collected h [] s" using assms(4) by (simp add: collected_def)
  obtain s1 where s1: "prepare_chunks e h 0 cs s = Some (s1, echoes h 0 cs)" "srv_ok s1" "writable s1 h r a" "collected h (concat cs) s1"
    using prepare_collected[OF assms(1-3) q, of cs] assms(5,7,8) by auto
  have "concat cs \<noteq> []" using assms(6,7) by (cases cs) auto
  from exec_collected[OF s1(2) assms(2) s1(3,4) this assms(8)] show ?thesis using s1(1) by (auto simp: long_write_def)
qed

theorem gatt_server_long_write_witness:
  "\<exists>s' a'. long_write \<lparr>e_mem = True, e_junk = (\<lambda>_. 0), e_tid = 1\<rparr> 12 [[1, 2], [3], [4, 5]] (rw_server 3 0) =
      Some (s', echoes 12 0 [[1, 2], [3], [4, 5]] @ [Sent BT_ATT_OP_EXEC_WRITE_RSP []]) \<and> gs_prep_queue s' = [] \<and>
    attr_at (gs_db s') (1, 2) = Some a' \<and> stored a' = [1, 2, 3, 4, 5]"
  using gatt_server_long_write[OF rw_ok _ rw_rights(1) rw_idle(3), of "\<lparr>e_mem = True, e_junk = (\<lambda>_. 0), e_tid = 1\<rparr>" "[[1, 2], [3], [4, 5]]"]
  by (simp add: rw_idle overwritten_def)

text \<open>
  C19. What an attribute does not permit is not done: without the permission to read, a read and a read at an offset are refused with
  \<open>Read Not Permitted\<close>, without the permission to write, a write and a prepared write with \<open>Write Not Permitted\<close>; the state of the server is as before. (An
  attribute with no permissions set at all is not protected.)
\<close>

theorem gatt_server_not_permitted:
  assumes "gatt_db_get_attribute (gs_db s) h = Some (Some r)" and "attr_at (gs_db s) r = Some a" and "a_permissions a \<noteq> 0"
  shows "(a_permissions a AND BT_ATT_PERM_READ = 0 \<longrightarrow>
      read_cb e BT_ATT_OP_READ_REQ (le16 h) s = Some (s, [Sent BT_ATT_OP_ERROR_RSP (BT_ATT_OP_READ_REQ # le16 h @ [0x02])]) \<and>
      read_blob_cb e BT_ATT_OP_READ_BLOB_REQ (le16 h @ le16 off) s = Some (s, [Sent BT_ATT_OP_ERROR_RSP (BT_ATT_OP_READ_BLOB_REQ # le16 h @ [0x02])])) \<and>
    (a_permissions a AND BT_ATT_PERM_WRITE = 0 \<longrightarrow>
      write_cb e BT_ATT_OP_WRITE_REQ (le16 h @ v) s = Some (s, [Sent BT_ATT_OP_ERROR_RSP (BT_ATT_OP_WRITE_REQ # le16 h @ [0x03])]) \<and>
      (length (gs_prep_queue s) < unat (gs_max_prep_queue_len s) \<longrightarrow>
       prep_write_cb e BT_ATT_OP_PREP_WRITE_REQ (le16 h @ le16 off @ v) s = Some (s, [Sent BT_ATT_OP_ERROR_RSP (BT_ATT_OP_PREP_WRITE_REQ # le16 h @ [0x03])])))"
proof -
  have err: "bt_att_send_error_rsp opc h 0x02 = [Sent BT_ATT_OP_ERROR_RSP (opc # le16 h @ [0x02])]"
    "bt_att_send_error_rsp opc h 0x03 = [Sent BT_ATT_OP_ERROR_RSP (opc # le16 h @ [0x03])]" if "opc \<noteq> 0" for opc
    using that by (simp_all add: bt_att_send_error_rsp_def att_ecode_from_error_def)
  have "read_cb e BT_ATT_OP_READ_REQ (le16 h) s = Some (s, [Sent BT_ATT_OP_ERROR_RSP (BT_ATT_OP_READ_REQ # le16 h @ [0x02])]) \<and>
      read_blob_cb e BT_ATT_OP_READ_BLOB_REQ (le16 h @ le16 off) s = Some (s, [Sent BT_ATT_OP_ERROR_RSP (BT_ATT_OP_READ_BLOB_REQ # le16 h @ [0x02])])"
    if p: "a_permissions a AND BT_ATT_PERM_READ = 0"
  proof -
    have "read_mask AND BT_ATT_PERM_READ \<noteq> 0" by (simp add: read_mask_def att_perm_defs)
    then have "check_permissions s (Some r) read_mask = Some 0x02"
      using assms p by (simp add: check_permissions_def gatt_db_attribute_get_permissions_def BT_ATT_ERROR_READ_NOT_PERMITTED_def)
    then show ?thesis using assms(1) get_le16_le16[of h "[]"] get_le16_second[of h off "[]"] err
      by (simp add: read_cb_def read_blob_cb_def handle_read_req_def att_op_defs)
  qed
  moreover have "write_cb e BT_ATT_OP_WRITE_REQ (le16 h @ v) s = Some (s, [Sent BT_ATT_OP_ERROR_RSP (BT_ATT_OP_WRITE_REQ # le16 h @ [0x03])]) \<and>
      (length (gs_prep_queue s) < unat (gs_max_prep_queue_len s) \<longrightarrow>
       prep_write_cb e BT_ATT_OP_PREP_WRITE_REQ (le16 h @ le16 off @ v) s = Some (s, [Sent BT_ATT_OP_ERROR_RSP (BT_ATT_OP_PREP_WRITE_REQ # le16 h @ [0x03])]))"
    if p: "a_permissions a AND BT_ATT_PERM_WRITE = 0"
  proof -
    have "write_mask AND BT_ATT_PERM_WRITE \<noteq> 0" "write_mask AND BT_ATT_PERM_READ = 0" by (simp_all add: write_mask_def att_perm_defs)
    then have "check_permissions s (Some r) write_mask = Some 0x03"
      using assms p by (simp add: check_permissions_def gatt_db_attribute_get_permissions_def BT_ATT_ERROR_WRITE_NOT_PERMITTED_def)
    then show ?thesis using assms(1) err by (simp add: write_cb_def prep_write_cb_def write_error_def att_op_defs)
  qed
  ultimately show ?thesis by blast
qed

theorem gatt_server_not_permitted_witness:
  "write_cb \<lparr>e_mem = True, e_junk = (\<lambda>_. 0), e_tid = 1\<rparr> BT_ATT_OP_WRITE_REQ [12, 0, 7] (rw_server 1 0) =
    Some (rw_server 1 0, [Sent BT_ATT_OP_ERROR_RSP [0x12, 12, 0, 0x03]])"
  using gatt_server_not_permitted[OF rw_get[of 1 0] rw_server_db(2)[of 1 0], where v = "[7]" and e = "\<lparr>e_mem = True, e_junk = (\<lambda>_. 0), e_tid = 1\<rparr>"]
  by (simp add: le16_def BT_ATT_PERM_WRITE_def BT_ATT_OP_WRITE_REQ_def)


lemma rw_secure: "rw_value (1 OR BT_ATT_PERM_SECURE) rdf = (rw_value 1 rdf)\<lparr>a_permissions := a_permissions (rw_value 1 rdf) OR BT_ATT_PERM_SECURE\<rparr>"
  by (simp add: rw_value_def set_attribute_data_def)




end
