(* ===== verification/Att.thy ===== *)
theory Att
  imports AttTypes QueueCorrect
begin

text \<open>
  The channel of the attribute protocol, \<open>src/src/bt/btgatt_server/src/shared/att.c\<close>, with \<open>bt_crypto_sign_att\<close> of \<open>crypto.c\<close>. The functions
  keep their names. The channel queues the PDUs of the upper layers, sends them one by one when the socket can take data, keeps at most one
  request and one indication waiting for an answer, and hands received PDUs to the handlers that are registered for them.

  Queues are lists (theory \<open>QueueCorrect\<close>), callbacks are function pointers with 0 for \<open>NULL\<close>. Calling one is an event; what the application does
  with the channel inside a callback is given by a function \<open>app\<close> from the event to the calls it makes, which run at that
  point. Destroy callbacks make no calls. The application keeps a reference of its own, so the channel is not freed inside a callback. The outer \<open>None\<close> of a
  result is undefined behaviour, or a handler list that grows for ever under its own callbacks.

  The socket, the timers, the allocator and the cipher of the kernel are in the environment \<open>att_env\<close>: \<open>ae_mem\<close>, \<open>ae_junk\<close> \<open>malloc\<close>, \<open>ae_tid\<close> the
  result of \<open>timeout_add\<close>, \<open>ae_watch\<close> whether handlers can be set on the socket, \<open>ae_sent\<close> whether \<open>writev\<close> does, \<open>ae_counter\<close> the counter callback of the signatures,
  \<open>ae_cmac\<close> the kernel's AES-CMAC, \<open>ae_sec\<close> and \<open>ae_set_sec\<close> the security level of the socket.
\<close>

section \<open>State\<close>

datatype att_op_type =
  ATT_OP_TYPE_REQ | ATT_OP_TYPE_RSP | ATT_OP_TYPE_CMD | ATT_OP_TYPE_IND | ATT_OP_TYPE_NOT | ATT_OP_TYPE_CONF | ATT_OP_TYPE_UNKNOWN

record att_send_op =
  so_id :: u32
  so_timeout_id :: u32
  so_type :: att_op_type
  so_opcode :: u8
  so_pdu :: "u8 list"
  so_callback :: ptr
  so_destroy :: ptr
  so_user_data :: ptr

record att_notify =
  no_id :: u32
  no_opcode :: u16
  no_callback :: ptr
  no_destroy :: ptr
  no_user_data :: ptr

record att_disconn =
  di_id :: u32
  di_removed :: bool
  di_callback :: ptr
  di_destroy :: ptr
  di_user_data :: ptr

record sign_info =
  si_key :: "u8 list"
  si_counter :: ptr
  si_user_data :: ptr

record bt_att =
  at_ref_count :: u32
  at_io :: bool
  at_io_on_l2cap :: bool
  at_io_sec_level :: int
  at_enc_size :: u8
  at_req_queue :: "att_send_op list"
  at_pending_req :: "att_send_op option"
  at_ind_queue :: "att_send_op list"
  at_pending_ind :: "att_send_op option"
  at_write_queue :: "att_send_op list"
  at_writer_active :: bool
  at_notify_list :: "att_notify list"
  at_disconn_list :: "att_disconn list"
  at_in_req :: bool
  at_mtu :: u16
  at_next_send_id :: u32
  at_next_reg_id :: u32
  at_timeout_callback :: ptr
  at_timeout_destroy :: ptr
  at_timeout_data :: ptr
  at_crypto :: bool
  at_local_sign :: "sign_info option"
  at_remote_sign :: "sign_info option"

record att_env =
  ae_mem :: bool
  ae_junk :: "nat \<Rightarrow> u8"
  ae_tid :: u32
  ae_watch :: bool
  ae_sent :: bool
  ae_counter :: "ptr \<Rightarrow> ptr \<Rightarrow> u32 \<Rightarrow> u32 option"
  ae_cmac :: "u8 list \<Rightarrow> u8 list \<Rightarrow> u8 list option"
  ae_sec :: int
  ae_set_sec :: bool

text \<open>
  Events. \<open>Queued\<close> records that \<open>bt_att_send\<close> has taken an operation; the others are calls of the socket, the timers and the application.
\<close>

datatype att_event =
    Queued u8 ptr ptr ptr
  | Transmit "u8 list"
  | Shutdown
  | Timer_added u32 u32
  | Timer_removed u32
  | Response ptr u8 "u8 list" ptr
  | Destroyed ptr ptr
  | Received ptr u8 "u8 list" ptr
  | Timed_out ptr u32 u8 ptr
  | Disconnected ptr int ptr
  | Other_destroyed ptr ptr

definition ATT_OP_CMD_MASK :: u8 where "ATT_OP_CMD_MASK = 0x40"
definition ATT_OP_SIGNED_MASK :: u8 where "ATT_OP_SIGNED_MASK = 0x80"
definition BT_ATT_SIGNATURE_LEN :: nat where "BT_ATT_SIGNATURE_LEN = 12"

section \<open>Opcodes\<close>

definition att_opcode_type_table :: "(u8 \<times> att_op_type) list" where
  "att_opcode_type_table =
    [(BT_ATT_OP_ERROR_RSP, ATT_OP_TYPE_RSP),
     (BT_ATT_OP_MTU_REQ, ATT_OP_TYPE_REQ), (BT_ATT_OP_MTU_RSP, ATT_OP_TYPE_RSP),
     (BT_ATT_OP_FIND_INFO_REQ, ATT_OP_TYPE_REQ), (BT_ATT_OP_FIND_INFO_RSP, ATT_OP_TYPE_RSP),
     (BT_ATT_OP_FIND_BY_TYPE_REQ, ATT_OP_TYPE_REQ), (BT_ATT_OP_FIND_BY_TYPE_RSP, ATT_OP_TYPE_RSP),
     (BT_ATT_OP_READ_BY_TYPE_REQ, ATT_OP_TYPE_REQ), (BT_ATT_OP_READ_BY_TYPE_RSP, ATT_OP_TYPE_RSP),
     (BT_ATT_OP_READ_REQ, ATT_OP_TYPE_REQ), (BT_ATT_OP_READ_RSP, ATT_OP_TYPE_RSP),
     (BT_ATT_OP_READ_BLOB_REQ, ATT_OP_TYPE_REQ), (BT_ATT_OP_READ_BLOB_RSP, ATT_OP_TYPE_RSP),
     (BT_ATT_OP_READ_MULT_REQ, ATT_OP_TYPE_REQ), (BT_ATT_OP_READ_MULT_RSP, ATT_OP_TYPE_RSP),
     (BT_ATT_OP_READ_BY_GRP_TYPE_REQ, ATT_OP_TYPE_REQ), (BT_ATT_OP_READ_BY_GRP_TYPE_RSP, ATT_OP_TYPE_RSP),
     (BT_ATT_OP_WRITE_REQ, ATT_OP_TYPE_REQ), (BT_ATT_OP_WRITE_RSP, ATT_OP_TYPE_RSP),
     (BT_ATT_OP_WRITE_CMD, ATT_OP_TYPE_CMD), (BT_ATT_OP_SIGNED_WRITE_CMD, ATT_OP_TYPE_CMD),
     (BT_ATT_OP_PREP_WRITE_REQ, ATT_OP_TYPE_REQ), (BT_ATT_OP_PREP_WRITE_RSP, ATT_OP_TYPE_RSP),
     (BT_ATT_OP_EXEC_WRITE_REQ, ATT_OP_TYPE_REQ), (BT_ATT_OP_EXEC_WRITE_RSP, ATT_OP_TYPE_RSP),
     (BT_ATT_OP_HANDLE_VAL_NOT, ATT_OP_TYPE_NOT), (BT_ATT_OP_HANDLE_VAL_IND, ATT_OP_TYPE_IND),
     (BT_ATT_OP_HANDLE_VAL_CONF, ATT_OP_TYPE_CONF)]"

definition get_op_type :: "u8 \<Rightarrow> att_op_type" where
  "get_op_type opcode =
     (case map_of att_opcode_type_table opcode of
        Some t \<Rightarrow> t
      | None \<Rightarrow> if opcode AND ATT_OP_CMD_MASK \<noteq> 0 then ATT_OP_TYPE_CMD else ATT_OP_TYPE_UNKNOWN)"

definition att_req_rsp_mapping_table :: "(u8 \<times> u8) list" where
  "att_req_rsp_mapping_table =
    [(BT_ATT_OP_MTU_REQ, BT_ATT_OP_MTU_RSP), (BT_ATT_OP_FIND_INFO_REQ, BT_ATT_OP_FIND_INFO_RSP),
     (BT_ATT_OP_FIND_BY_TYPE_REQ, BT_ATT_OP_FIND_BY_TYPE_RSP), (BT_ATT_OP_READ_BY_TYPE_REQ, BT_ATT_OP_READ_BY_TYPE_RSP),
     (BT_ATT_OP_READ_REQ, BT_ATT_OP_READ_RSP), (BT_ATT_OP_READ_BLOB_REQ, BT_ATT_OP_READ_BLOB_RSP),
     (BT_ATT_OP_READ_MULT_REQ, BT_ATT_OP_READ_MULT_RSP), (BT_ATT_OP_READ_BY_GRP_TYPE_REQ, BT_ATT_OP_READ_BY_GRP_TYPE_RSP),
     (BT_ATT_OP_WRITE_REQ, BT_ATT_OP_WRITE_RSP), (BT_ATT_OP_PREP_WRITE_REQ, BT_ATT_OP_PREP_WRITE_RSP),
     (BT_ATT_OP_EXEC_WRITE_REQ, BT_ATT_OP_EXEC_WRITE_RSP)]"

definition get_req_opcode :: "u8 \<Rightarrow> u8" where
  "get_req_opcode rsp_opcode =
     (case find (\<lambda>e. snd e = rsp_opcode) att_req_rsp_mapping_table of Some e \<Rightarrow> fst e | None \<Rightarrow> 0)"

section \<open>Operations of the send queues\<close>

definition destroy_att_send_op :: "att_send_op \<Rightarrow> att_event list" where
  "destroy_att_send_op op =
     (if so_timeout_id op \<noteq> 0 then [Timer_removed (so_timeout_id op)] else []) @
     (if so_destroy op \<noteq> 0 then [Destroyed (so_destroy op) (so_user_data op)] else [])"

definition cancel_att_send_op :: "att_send_op \<Rightarrow> att_send_op \<times> att_event list" where
  "cancel_att_send_op op =
     (op\<lparr>so_user_data := 0, so_callback := 0, so_destroy := 0\<rparr>,
      if so_destroy op \<noteq> 0 then [Destroyed (so_destroy op) (so_user_data op)] else [])"

definition destroy_att_notify :: "att_notify \<Rightarrow> att_event list" where
  "destroy_att_notify n = (if no_destroy n \<noteq> 0 then [Other_destroyed (no_destroy n) (no_user_data n)] else [])"

definition att_match_notify_id :: "u32 \<Rightarrow> att_notify \<Rightarrow> bool" where
  "att_match_notify_id n x = (no_id x = n)"

definition destroy_att_disconn :: "att_disconn \<Rightarrow> att_event list" where
  "destroy_att_disconn d = (if di_destroy d \<noteq> 0 then [Other_destroyed (di_destroy d) (di_user_data d)] else [])"

definition match_disconn_id :: "u32 \<Rightarrow> att_disconn \<Rightarrow> bool" where
  "match_disconn_id n x = (di_id x = n)"

text \<open>The signature of a PDU. \<open>swap_buf\<close> reverses a block; the length of the message is kept in 16 bits.\<close>

definition swap_buf :: "u8 list \<Rightarrow> u8 list" where
  "swap_buf src = rev src"

definition put_be32 :: "u32 \<Rightarrow> u8 list" where
  "put_be32 v = rev (le32 v)"

definition bt_crypto_sign_att :: "att_env \<Rightarrow> bool \<Rightarrow> u8 list \<Rightarrow> u8 list \<Rightarrow> u32 \<Rightarrow> u8 list option option" where
  "bt_crypto_sign_att e crypto key m sign_cnt =
     (if \<not> crypto then Some None
      else do {
        msg \<leftarrow> write_range (replicate (unat (of_nat (length m) + 4 :: u16)) 0) 0 m;
        msg \<leftarrow> write_range msg (length m) (le32 sign_cnt);
        case ae_cmac e (swap_buf key) (swap_buf msg) of
          None \<Rightarrow> Some None
        | Some out \<Rightarrow>
            do { out \<leftarrow> write_range (take 16 out) 8 (put_be32 sign_cnt);
                 s \<leftarrow> read_range (swap_buf out) 4 12;
                 Some (Some s) } })"

text \<open>\<open>encode_pdu\<close>: \<open>None\<close> inside when it returns false. The length is kept in 16 bits.\<close>

definition encode_pdu :: "att_env \<Rightarrow> bt_att \<Rightarrow> u8 \<Rightarrow> u8 list option \<Rightarrow> u16 \<Rightarrow> u8 list option option" where
  "encode_pdu e att opcode pdu len =
     (let sign = at_local_sign att;
          signed = (sign \<noteq> None \<and> opcode AND ATT_OP_SIGNED_MASK \<noteq> 0);
          pdu_len = 1 + (if signed then of_nat BT_ATT_SIGNATURE_LEN else 0) + (if len \<noteq> 0 \<and> pdu \<noteq> None then len else 0)
      in if pdu_len > at_mtu att then Some None
         else if \<not> ae_mem e then Some None
         else do {
           b \<leftarrow> write_range (map (ae_junk e) [0..<unat pdu_len]) 0 [opcode];
           v \<leftarrow> (case pdu of None \<Rightarrow> Some [] | Some p \<Rightarrow> read_range p 0 (unat len));
           b \<leftarrow> (if pdu_len > 1 then write_range b 1 v else Some b);
           case sign of
             None \<Rightarrow> Some (Some b)
           | Some si \<Rightarrow>
               if \<not> signed \<or> \<not> at_crypto att then Some (Some b)
               else case ae_counter e (si_counter si) (si_user_data si) 0 of
                      None \<Rightarrow> Some None
                    | Some sign_cnt \<Rightarrow>
                        do { s \<leftarrow> bt_crypto_sign_att e (at_crypto att) (si_key si) (take (1 + unat len) b) sign_cnt;
                             case s of
                               None \<Rightarrow> Some None
                             | Some s \<Rightarrow> do { b \<leftarrow> write_range b (1 + unat len) s; Some (Some b) } } })"

definition create_att_send_op ::
  "att_env \<Rightarrow> bt_att \<Rightarrow> u8 \<Rightarrow> u8 list option \<Rightarrow> u16 \<Rightarrow> ptr \<Rightarrow> ptr \<Rightarrow> ptr \<Rightarrow> att_send_op option option" where
  "create_att_send_op e att opcode pdu len callback user_data destroy =
     (let type = get_op_type opcode in
      if len \<noteq> 0 \<and> pdu = None then Some None
      else if type = ATT_OP_TYPE_UNKNOWN then Some None
      else if callback \<noteq> 0 \<and> type \<noteq> ATT_OP_TYPE_REQ \<and> type \<noteq> ATT_OP_TYPE_IND then Some None
      else if callback = 0 \<and> (type = ATT_OP_TYPE_REQ \<or> type = ATT_OP_TYPE_IND) then Some None
      else do {
        b \<leftarrow> encode_pdu e att opcode pdu len;
        case b of
          None \<Rightarrow> Some None
        | Some b \<Rightarrow> Some (Some \<lparr>so_id = 0, so_timeout_id = 0, so_type = type, so_opcode = opcode, so_pdu = b, so_callback = callback,
                            so_destroy = destroy, so_user_data = user_data\<rparr>) })"

definition pick_next_send_op :: "bt_att \<Rightarrow> att_send_op option \<times> bt_att" where
  "pick_next_send_op att =
     (if at_write_queue att \<noteq> [] then (Some (hd (at_write_queue att)), att\<lparr>at_write_queue := tl (at_write_queue att)\<rparr>)
      else if at_pending_req att = None \<and> at_req_queue att \<noteq> []
      then (Some (hd (at_req_queue att)), att\<lparr>at_req_queue := tl (at_req_queue att)\<rparr>)
      else if at_pending_ind att = None \<and> at_ind_queue att \<noteq> []
      then (Some (hd (at_ind_queue att)), att\<lparr>at_ind_queue := tl (at_ind_queue att)\<rparr>)
      else (None, att))"

definition wakeup_writer :: "att_env \<Rightarrow> bt_att \<Rightarrow> bt_att" where
  "wakeup_writer e att =
     (if at_writer_active att then att
      else if at_write_queue att = [] \<and> (at_pending_req att \<noteq> None \<or> at_req_queue att = []) \<and>
              (at_pending_ind att \<noteq> None \<or> at_ind_queue att = []) then att
      else if \<not> at_io att \<or> \<not> ae_watch e then att
      else att\<lparr>at_writer_active := True\<rparr>)"

definition write_watch_destroy :: "bt_att \<Rightarrow> bt_att" where
  "write_watch_destroy att = att\<lparr>at_writer_active := False\<rparr>"

section \<open>Calls of the application\<close>

definition bt_att_send ::
  "att_env \<Rightarrow> bt_att \<Rightarrow> u8 \<Rightarrow> u8 list option \<Rightarrow> u16 \<Rightarrow> ptr \<Rightarrow> ptr \<Rightarrow> ptr \<Rightarrow> (u32 \<times> bt_att \<times> att_event list) option" where
  "bt_att_send e att opcode pdu len callback user_data destroy =
     (if \<not> at_io att then Some (0, att, [])
      else do {
        op \<leftarrow> create_att_send_op e att opcode pdu len callback user_data destroy;
        case op of
          None \<Rightarrow> Some (0, att, [])
        | Some op \<Rightarrow>
            let n = (if at_next_send_id att < 1 then 1 else at_next_send_id att);
                op = op\<lparr>so_id := n\<rparr>;
                att = att\<lparr>at_next_send_id := n + 1\<rparr>;
                att = (if so_type op = ATT_OP_TYPE_REQ then att\<lparr>at_req_queue := at_req_queue att @ [op]\<rparr>
                       else if so_type op = ATT_OP_TYPE_IND then att\<lparr>at_ind_queue := at_ind_queue att @ [op]\<rparr>
                       else att\<lparr>at_write_queue := at_write_queue att @ [op]\<rparr>)
            in Some (n, wakeup_writer e att, [Queued opcode callback user_data destroy]) })"

definition match_op_id :: "u32 \<Rightarrow> att_send_op \<Rightarrow> bool" where
  "match_op_id n op = (so_id op = n)"

definition bt_att_cancel :: "att_env \<Rightarrow> bt_att \<Rightarrow> u32 \<Rightarrow> bool \<times> bt_att \<times> att_event list" where
  "bt_att_cancel e att n =
     (let pending = (\<lambda>p. case p of None \<Rightarrow> False | Some op \<Rightarrow> so_id op = n) in
      if n = 0 then (False, att, [])
      else if pending (at_pending_req att)
      then (case cancel_att_send_op (the (at_pending_req att)) of (op, ev) \<Rightarrow> (True, att\<lparr>at_pending_req := Some op\<rparr>, ev))
      else if pending (at_pending_ind att)
      then (case cancel_att_send_op (the (at_pending_ind att)) of (op, ev) \<Rightarrow> (True, att\<lparr>at_pending_ind := Some op\<rparr>, ev))
      else case find (match_op_id n) (at_req_queue att) of
             Some op \<Rightarrow> (True, wakeup_writer e (att\<lparr>at_req_queue := remove_first (match_op_id n) (at_req_queue att)\<rparr>), destroy_att_send_op op)
           | None \<Rightarrow>
               (case find (match_op_id n) (at_ind_queue att) of
                  Some op \<Rightarrow> (True, wakeup_writer e (att\<lparr>at_ind_queue := remove_first (match_op_id n) (at_ind_queue att)\<rparr>), destroy_att_send_op op)
                | None \<Rightarrow>
                    (case find (match_op_id n) (at_write_queue att) of
                       Some op \<Rightarrow> (True, wakeup_writer e (att\<lparr>at_write_queue := remove_first (match_op_id n) (at_write_queue att)\<rparr>), destroy_att_send_op op)
                     | None \<Rightarrow> (False, att, []))))"

text \<open>\<open>cancel_att_send_op\<close> on an operation that may be \<open>NULL\<close>.\<close>

definition cancel_pending :: "att_send_op option \<Rightarrow> att_send_op option \<times> att_event list" where
  "cancel_pending p = (case p of None \<Rightarrow> (None, []) | Some op \<Rightarrow> (case cancel_att_send_op op of (op, ev) \<Rightarrow> (Some op, ev)))"

definition bt_att_cancel_all :: "bt_att \<Rightarrow> bt_att \<times> att_event list" where
  "bt_att_cancel_all att =
     (case cancel_pending (at_pending_req att) of (req, ev1) \<Rightarrow>
      case cancel_pending (at_pending_ind att) of (ind, ev2) \<Rightarrow>
        (att\<lparr>at_req_queue := [], at_ind_queue := [], at_write_queue := [], at_pending_req := req, at_pending_ind := ind\<rparr>,
         concat (map destroy_att_send_op (at_req_queue att @ at_ind_queue att @ at_write_queue att)) @ ev1 @ ev2))"

definition bt_att_register :: "bt_att \<Rightarrow> u8 \<Rightarrow> ptr \<Rightarrow> ptr \<Rightarrow> ptr \<Rightarrow> u32 \<times> bt_att" where
  "bt_att_register att opcode callback user_data destroy =
     (if callback = 0 \<or> \<not> at_io att then (0, att)
      else
        let n = (if at_next_reg_id att < 1 then 1 else at_next_reg_id att) in
        (n, att\<lparr>at_next_reg_id := n + 1,
                at_notify_list := at_notify_list att @ [\<lparr>no_id = n, no_opcode = ucast opcode, no_callback = callback,
                  no_destroy = destroy, no_user_data = user_data\<rparr>]\<rparr>))"

definition bt_att_unregister :: "bt_att \<Rightarrow> u32 \<Rightarrow> bool \<times> bt_att \<times> att_event list" where
  "bt_att_unregister att n =
     (if n = 0 then (False, att, [])
      else case find (att_match_notify_id n) (at_notify_list att) of
             None \<Rightarrow> (False, att, [])
           | Some x \<Rightarrow> (True, att\<lparr>at_notify_list := remove_first (att_match_notify_id n) (at_notify_list att)\<rparr>, destroy_att_notify x))"

definition bt_att_unregister_all :: "bt_att \<Rightarrow> bt_att \<times> att_event list" where
  "bt_att_unregister_all att =
     (att\<lparr>at_notify_list := [], at_disconn_list := []\<rparr>,
      concat (map destroy_att_notify (at_notify_list att)) @ concat (map destroy_att_disconn (at_disconn_list att)))"

definition bt_att_register_disconnect :: "bt_att \<Rightarrow> ptr \<Rightarrow> ptr \<Rightarrow> ptr \<Rightarrow> u32 \<times> bt_att" where
  "bt_att_register_disconnect att callback user_data destroy =
     (if \<not> at_io att then (0, att)
      else
        let n = (if at_next_reg_id att < 1 then 1 else at_next_reg_id att) in
        (n, att\<lparr>at_next_reg_id := n + 1,
                at_disconn_list := at_disconn_list att @ [\<lparr>di_id = n, di_removed = False, di_callback = callback,
                  di_destroy = destroy, di_user_data = user_data\<rparr>]\<rparr>))"

fun mark_removed :: "u32 \<Rightarrow> att_disconn list \<Rightarrow> att_disconn list" where
  "mark_removed n [] = []"
| "mark_removed n (d # ds) = (if match_disconn_id n d then d\<lparr>di_removed := True\<rparr> # ds else d # mark_removed n ds)"

definition bt_att_unregister_disconnect :: "bt_att \<Rightarrow> u32 \<Rightarrow> bool \<times> bt_att \<times> att_event list" where
  "bt_att_unregister_disconnect att n =
     (if n = 0 then (False, att, [])
      else case find (match_disconn_id n) (at_disconn_list att) of
             None \<Rightarrow> (False, att, [])
           | Some d \<Rightarrow>
               if \<not> at_io att then (True, att\<lparr>at_disconn_list := mark_removed n (at_disconn_list att)\<rparr>, [])
               else (True, att\<lparr>at_disconn_list := remove_first (match_disconn_id n) (at_disconn_list att)\<rparr>, destroy_att_disconn d))"

definition bt_att_set_mtu :: "att_env \<Rightarrow> bt_att \<Rightarrow> u16 \<Rightarrow> bool \<times> bt_att" where
  "bt_att_set_mtu e att mtu =
     (if mtu < BT_ATT_DEFAULT_LE_MTU \<or> \<not> ae_mem e then (False, att) else (True, att\<lparr>at_mtu := mtu\<rparr>))"

definition bt_att_get_mtu :: "bt_att \<Rightarrow> u16" where
  "bt_att_get_mtu att = at_mtu att"

definition bt_att_get_security :: "att_env \<Rightarrow> bt_att \<Rightarrow> int" where
  "bt_att_get_security e att = (if \<not> at_io_on_l2cap att then at_io_sec_level att else if ae_sec e < 0 then - 5 else ae_sec e)"

definition bt_att_set_security :: "att_env \<Rightarrow> bt_att \<Rightarrow> int \<Rightarrow> bool \<times> bt_att" where
  "bt_att_set_security e att level =
     (if level < BT_ATT_SECURITY_AUTO \<or> level > BT_ATT_SECURITY_HIGH then (False, att)
      else if \<not> at_io_on_l2cap att then (True, att\<lparr>at_io_sec_level := level\<rparr>)
      else (ae_set_sec e, att))"

definition bt_att_set_enc_key_size :: "bt_att \<Rightarrow> u8 \<Rightarrow> bt_att" where
  "bt_att_set_enc_key_size att enc_size = att\<lparr>at_enc_size := enc_size\<rparr>"

definition bt_att_set_timeout_cb :: "bt_att \<Rightarrow> ptr \<Rightarrow> ptr \<Rightarrow> ptr \<Rightarrow> bt_att \<times> att_event list" where
  "bt_att_set_timeout_cb att callback user_data destroy =
     (att\<lparr>at_timeout_callback := callback, at_timeout_destroy := destroy, at_timeout_data := user_data\<rparr>,
      if at_timeout_destroy att \<noteq> 0 then [Other_destroyed (at_timeout_destroy att) (at_timeout_data att)] else [])"

definition sign_set_key :: "u8 list \<Rightarrow> ptr \<Rightarrow> ptr \<Rightarrow> sign_info" where
  "sign_set_key key func user_data = \<lparr>si_key = take 16 key, si_counter = func, si_user_data = user_data\<rparr>"

definition bt_att_set_local_key :: "bt_att \<Rightarrow> u8 list \<Rightarrow> ptr \<Rightarrow> ptr \<Rightarrow> bt_att" where
  "bt_att_set_local_key att sign_key func user_data = att\<lparr>at_local_sign := Some (sign_set_key sign_key func user_data)\<rparr>"

definition bt_att_set_remote_key :: "bt_att \<Rightarrow> u8 list \<Rightarrow> ptr \<Rightarrow> ptr \<Rightarrow> bt_att" where
  "bt_att_set_remote_key att sign_key func user_data = att\<lparr>at_remote_sign := Some (sign_set_key sign_key func user_data)\<rparr>"

text \<open>A call of the application, and the calls it makes inside a callback.\<close>

datatype att_call =
    Send u8 "u8 list option" u16 ptr ptr ptr
  | Cancel u32
  | Cancel_all
  | Register u8 ptr ptr ptr
  | Unregister u32
  | Unregister_all
  | Register_disconnect ptr ptr ptr
  | Unregister_disconnect u32
  | Set_mtu u16
  | Set_security int
  | Set_enc_key_size u8
  | Set_timeout_cb ptr ptr ptr
  | Set_local_key "u8 list" ptr ptr
  | Set_remote_key "u8 list" ptr ptr

fun att_exec :: "att_env \<Rightarrow> att_call \<Rightarrow> bt_att \<Rightarrow> (bt_att \<times> att_event list) option" where
  "att_exec e (Send opcode pdu len cb ud d) att = do { (_, att, ev) \<leftarrow> bt_att_send e att opcode pdu len cb ud d; Some (att, ev) }"
| "att_exec e (Cancel n) att = Some (snd (bt_att_cancel e att n))"
| "att_exec e Cancel_all att = Some (bt_att_cancel_all att)"
| "att_exec e (Register opcode cb ud d) att = Some (snd (bt_att_register att opcode cb ud d), [])"
| "att_exec e (Unregister n) att = Some (snd (bt_att_unregister att n))"
| "att_exec e Unregister_all att = Some (bt_att_unregister_all att)"
| "att_exec e (Register_disconnect cb ud d) att = Some (snd (bt_att_register_disconnect att cb ud d), [])"
| "att_exec e (Unregister_disconnect n) att = Some (snd (bt_att_unregister_disconnect att n))"
| "att_exec e (Set_mtu mtu) att = Some (snd (bt_att_set_mtu e att mtu), [])"
| "att_exec e (Set_security level) att = Some (snd (bt_att_set_security e att level), [])"
| "att_exec e (Set_enc_key_size n) att = Some (bt_att_set_enc_key_size att n, [])"
| "att_exec e (Set_timeout_cb cb ud d) att = Some (bt_att_set_timeout_cb att cb ud d)"
| "att_exec e (Set_local_key k cb ud) att = Some (bt_att_set_local_key att k cb ud, [])"
| "att_exec e (Set_remote_key k cb ud) att = Some (bt_att_set_remote_key att k cb ud, [])"

fun att_execs :: "att_env \<Rightarrow> att_call list \<Rightarrow> bt_att \<Rightarrow> (bt_att \<times> att_event list) option" where
  "att_execs e [] att = Some (att, [])"
| "att_execs e (c # cs) att = do { (att, ev) \<leftarrow> att_exec e c att; (att, ev') \<leftarrow> att_execs e cs att; Some (att, ev @ ev') }"

type_synonym app = "att_event \<Rightarrow> att_call list"

definition upcall :: "app \<Rightarrow> att_env \<Rightarrow> att_event \<Rightarrow> bt_att \<Rightarrow> (bt_att \<times> att_event list) option" where
  "upcall app e ev att = do { (att, evs) \<leftarrow> att_execs e (app ev) att; Some (att, ev # evs) }"

text \<open>The response callback of an operation, if it has one.\<close>

definition respond :: "app \<Rightarrow> att_env \<Rightarrow> att_send_op \<Rightarrow> u8 \<Rightarrow> u8 list \<Rightarrow> bt_att \<Rightarrow> (bt_att \<times> att_event list) option" where
  "respond app e op opcode pdu att =
     (if so_callback op \<noteq> 0 then upcall app e (Response (so_callback op) opcode pdu (so_user_data op)) att else Some (att, []))"

section \<open>Sending\<close>

text \<open>The timer of the operation \<open>n\<close> has expired. The timer itself is gone, so the identifier is cleared before the operation is destroyed.\<close>

definition timeout_cb :: "app \<Rightarrow> att_env \<Rightarrow> u32 \<Rightarrow> bt_att \<Rightarrow> (bt_att \<times> att_event list) option" where
  "timeout_cb app e n att =
     (let is_it = (\<lambda>p. case p of None \<Rightarrow> False | Some op \<Rightarrow> so_id op = n);
          (op, att) = (if is_it (at_pending_req att) then (at_pending_req att, att\<lparr>at_pending_req := None\<rparr>)
                       else if is_it (at_pending_ind att) then (at_pending_ind att, att\<lparr>at_pending_ind := None\<rparr>)
                       else (None, att))
      in case op of
           None \<Rightarrow> Some (att, [])
         | Some op \<Rightarrow>
             do { (att, ev) \<leftarrow> (if at_timeout_callback att \<noteq> 0
                                 then upcall app e (Timed_out (at_timeout_callback att) (so_id op) (so_opcode op) (at_timeout_data att)) att
                                 else Some (att, []));
                  Some (att, ev @ destroy_att_send_op (op\<lparr>so_timeout_id := 0\<rparr>) @ [Shutdown]) })"

definition can_write_data :: "app \<Rightarrow> att_env \<Rightarrow> bt_att \<Rightarrow> (bool \<times> bt_att \<times> att_event list) option" where
  "can_write_data app e att =
     (case pick_next_send_op att of
        (None, att) \<Rightarrow> Some (False, att, [])
      | (Some op, att) \<Rightarrow>
          if \<not> ae_sent e
          then do { (att, ev) \<leftarrow> respond app e op BT_ATT_OP_ERROR_RSP [] att;
                    Some (True, att, ev @ destroy_att_send_op op) }
          else if so_type op = ATT_OP_TYPE_REQ
          then Some (True, att\<lparr>at_pending_req := Some (op\<lparr>so_timeout_id := ae_tid e\<rparr>)\<rparr>, [Transmit (so_pdu op), Timer_added (ae_tid e) (so_id op)])
          else if so_type op = ATT_OP_TYPE_IND
          then Some (True, att\<lparr>at_pending_ind := Some (op\<lparr>so_timeout_id := ae_tid e\<rparr>)\<rparr>, [Transmit (so_pdu op), Timer_added (ae_tid e) (so_id op)])
          else Some (True, if so_type op = ATT_OP_TYPE_RSP then att\<lparr>at_in_req := False\<rparr> else att, Transmit (so_pdu op) # destroy_att_send_op op))"

text \<open>The socket takes data: \<open>io_callback\<close> of \<open>io-mainloop.c\<close> removes the write handler when it returns false.\<close>

definition io_writable :: "app \<Rightarrow> att_env \<Rightarrow> bt_att \<Rightarrow> (bt_att \<times> att_event list) option" where
  "io_writable app e att =
     (if \<not> at_writer_active att then Some (att, [])
      else do { (again, att, ev) \<leftarrow> can_write_data app e att; Some (if again then att else write_watch_destroy att, ev) })"

section \<open>The end of the connection\<close>

text \<open>\<open>disc_att_send_op\<close>, for an operation that has left its queue.\<close>

definition disc_att_send_op :: "app \<Rightarrow> att_env \<Rightarrow> att_send_op \<Rightarrow> bt_att \<Rightarrow> (bt_att \<times> att_event list) option" where
  "disc_att_send_op app e op att =
     do { (att, ev) \<leftarrow> respond app e op BT_ATT_OP_ERROR_RSP [] att;
          Some (att, ev @ destroy_att_send_op op) }"

text \<open>The same for the pending request or indication: the callback may cancel it, so it is looked up again before it is destroyed.\<close>

definition disc_pending_req :: "app \<Rightarrow> att_env \<Rightarrow> bt_att \<Rightarrow> (bt_att \<times> att_event list) option" where
  "disc_pending_req app e att =
     (case at_pending_req att of
        None \<Rightarrow> Some (att, [])
      | Some op \<Rightarrow>
          do { (att, ev) \<leftarrow> respond app e op BT_ATT_OP_ERROR_RSP [] att;
               op \<leftarrow> at_pending_req att;
               Some (att\<lparr>at_pending_req := None\<rparr>, ev @ destroy_att_send_op op) })"

definition disc_pending_ind :: "app \<Rightarrow> att_env \<Rightarrow> bt_att \<Rightarrow> (bt_att \<times> att_event list) option" where
  "disc_pending_ind app e att =
     (case at_pending_ind att of
        None \<Rightarrow> Some (att, [])
      | Some op \<Rightarrow>
          do { (att, ev) \<leftarrow> respond app e op BT_ATT_OP_ERROR_RSP [] att;
               op \<leftarrow> at_pending_ind att;
               Some (att\<lparr>at_pending_ind := None\<rparr>, ev @ destroy_att_send_op op) })"

text \<open>\<open>queue_remove_all\<close> empties the queue before it runs the callback on its operations.\<close>

fun disc_all :: "app \<Rightarrow> att_env \<Rightarrow> att_send_op list \<Rightarrow> bt_att \<Rightarrow> (bt_att \<times> att_event list) option" where
  "disc_all app e [] att = Some (att, [])"
| "disc_all app e (op # q) att =
     do { (att, ev) \<leftarrow> disc_att_send_op app e op att; (att, ev') \<leftarrow> disc_all app e q att; Some (att, ev @ ev') }"

text \<open>
  \<open>queue_foreach\<close> with \<open>disconn_handler\<close> over the identifiers of the handlers. It stops when the list is emptied, and goes wrong
  on a handler that was freed; while the connection ends, handlers are only marked.
\<close>

fun disconn_loop :: "app \<Rightarrow> att_env \<Rightarrow> int \<Rightarrow> u32 list \<Rightarrow> bt_att \<Rightarrow> (bt_att \<times> att_event list) option" where
  "disconn_loop app e err [] att = Some (att, [])"
| "disconn_loop app e err (n # ns) att =
     (if at_disconn_list att = [] then Some (att, [])
      else do {
        d \<leftarrow> find (match_disconn_id n) (at_disconn_list att);
        (att, ev) \<leftarrow> (if di_removed d \<or> di_callback d = 0 then Some (att, [])
                       else upcall app e (Disconnected (di_callback d) err (di_user_data d)) att);
        (att, ev') \<leftarrow> disconn_loop app e err ns att;
        Some (att, ev @ ev') })"

definition disconnect_cb :: "app \<Rightarrow> att_env \<Rightarrow> int \<Rightarrow> bt_att \<Rightarrow> (bt_att \<times> att_event list) option" where
  "disconnect_cb app e err att =
     do { let att = (if at_writer_active att then write_watch_destroy att else att)\<lparr>at_io := False\<rparr>;
          (att, ev1) \<leftarrow> disc_all app e (at_req_queue att) (att\<lparr>at_req_queue := []\<rparr>);
          (att, ev2) \<leftarrow> disc_all app e (at_ind_queue att) (att\<lparr>at_ind_queue := []\<rparr>);
          (att, ev3) \<leftarrow> disc_all app e (at_write_queue att) (att\<lparr>at_write_queue := []\<rparr>);
          (att, ev4) \<leftarrow> disc_pending_req app e att;
          (att, ev5) \<leftarrow> disc_pending_ind app e att;
          (att, ev6) \<leftarrow> disconn_loop app e err (map di_id (at_disconn_list att)) att;
          let (att, ev7) = bt_att_unregister_all att;
          Some (att, ev1 @ ev2 @ ev3 @ ev4 @ ev5 @ ev6 @ ev7) }"

section \<open>Receiving\<close>

definition change_security :: "att_env \<Rightarrow> u8 \<Rightarrow> bt_att \<Rightarrow> bool \<times> bt_att" where
  "change_security e ecode att =
     (let security = bt_att_get_security e att in
      if at_io_sec_level att \<noteq> BT_ATT_SECURITY_AUTO then (False, att)
      else if ecode = of_int BT_ATT_ERROR_INSUFFICIENT_ENCRYPTION \<and> security < BT_ATT_SECURITY_MEDIUM
      then bt_att_set_security e att BT_ATT_SECURITY_MEDIUM
      else if ecode = of_int BT_ATT_ERROR_AUTHENTICATION
      then if security < BT_ATT_SECURITY_MEDIUM then bt_att_set_security e att BT_ATT_SECURITY_MEDIUM
           else if security < BT_ATT_SECURITY_HIGH then bt_att_set_security e att BT_ATT_SECURITY_HIGH
           else if security < BT_ATT_SECURITY_FIPS then bt_att_set_security e att BT_ATT_SECURITY_FIPS
           else (False, att)
      else (False, att))"

text \<open>\<open>handle_error_rsp\<close>, with a pending request: whether the request is sent again, and the opcode the error is for.\<close>

definition handle_error_rsp :: "att_env \<Rightarrow> att_send_op \<Rightarrow> u8 list \<Rightarrow> bt_att \<Rightarrow> bool \<times> u8 \<times> bt_att \<times> att_event list" where
  "handle_error_rsp e op pdu att =
     (if length pdu \<noteq> 4 then (False, 0, att, [])
      else case change_security e (pdu ! 3) att of
             (False, att) \<Rightarrow> (False, pdu ! 0, att, [])
           | (True, att) \<Rightarrow>
               (True, pdu ! 0, att\<lparr>at_pending_req := None, at_req_queue := op\<lparr>so_timeout_id := 0\<rparr> # at_req_queue att\<rparr>,
                if so_timeout_id op \<noteq> 0 then [Timer_removed (so_timeout_id op)] else []))"

text \<open>The end of \<open>handle_rsp\<close>.\<close>

definition finish_request :: "app \<Rightarrow> att_env \<Rightarrow> u8 \<Rightarrow> u8 list \<Rightarrow> att_send_op \<Rightarrow> bt_att \<Rightarrow> (bt_att \<times> att_event list) option" where
  "finish_request app e rsp_opcode rsp_pdu op att =
     do { (att, ev) \<leftarrow> respond app e op rsp_opcode rsp_pdu att;
          op \<leftarrow> at_pending_req att;
          Some (wakeup_writer e (att\<lparr>at_pending_req := None\<rparr>), ev @ destroy_att_send_op op) }"

definition handle_rsp :: "app \<Rightarrow> att_env \<Rightarrow> u8 \<Rightarrow> u8 list \<Rightarrow> bt_att \<Rightarrow> (bt_att \<times> att_event list) option" where
  "handle_rsp app e opcode pdu att =
     (case at_pending_req att of
        None \<Rightarrow> Some (att, [Shutdown])
      | Some op \<Rightarrow>
          if opcode = BT_ATT_OP_ERROR_RSP
          then (case handle_error_rsp e op pdu att of
                  (True, _, att, ev) \<Rightarrow> Some (wakeup_writer e att, ev)
                | (False, req_opcode, att, ev) \<Rightarrow>
                    do { (att, ev') \<leftarrow> (if req_opcode \<noteq> so_opcode op then finish_request app e BT_ATT_OP_ERROR_RSP [] op att
                                        else finish_request app e opcode pdu op att);
                         Some (att, ev @ ev') })
          else if get_req_opcode opcode = 0 \<or> get_req_opcode opcode \<noteq> so_opcode op then finish_request app e BT_ATT_OP_ERROR_RSP [] op att
          else finish_request app e opcode pdu op att)"

definition handle_conf :: "app \<Rightarrow> att_env \<Rightarrow> u8 list \<Rightarrow> bt_att \<Rightarrow> (bt_att \<times> att_event list) option" where
  "handle_conf app e pdu att =
     (case at_pending_ind att of
        None \<Rightarrow> Some (att, [Shutdown])
      | Some op \<Rightarrow>
          if pdu \<noteq> [] then Some (att, [Shutdown])
          else do {
            (att, ev) \<leftarrow> respond app e op BT_ATT_OP_HANDLE_VAL_CONF [] att;
            op \<leftarrow> at_pending_ind att;
            Some (wakeup_writer e (att\<lparr>at_pending_ind := None\<rparr>), ev @ destroy_att_send_op op) })"

definition opcode_match :: "u8 \<Rightarrow> u8 \<Rightarrow> bool" where
  "opcode_match opcode test_opcode =
     (if opcode = BT_ATT_ALL_REQUESTS \<and> get_op_type test_opcode \<in> {ATT_OP_TYPE_REQ, ATT_OP_TYPE_CMD} then True else opcode = test_opcode)"

definition respond_not_supported :: "att_env \<Rightarrow> u8 \<Rightarrow> bt_att \<Rightarrow> (bt_att \<times> att_event list) option" where
  "respond_not_supported e opcode att =
     do { (_, att, ev) \<leftarrow> bt_att_send e att BT_ATT_OP_ERROR_RSP (Some [opcode, 0, 0, of_int BT_ATT_ERROR_REQUEST_NOT_SUPPORTED]) 4 0 0 0;
          Some (att, ev) }"

text \<open>\<open>handle_signed\<close>: the signature that is computed is written over the received one, and not compared with it.\<close>

definition handle_signed :: "att_env \<Rightarrow> u8 list \<Rightarrow> bt_att \<Rightarrow> bool option" where
  "handle_signed e pdu att =
     (if length pdu < 2 + BT_ATT_SIGNATURE_LEN then Some False
      else case at_remote_sign att of
             None \<Rightarrow> Some False
           | Some sign \<Rightarrow>
               (case ae_counter e (si_counter sign) (si_user_data sign) (load32 (drop (length pdu - BT_ATT_SIGNATURE_LEN) pdu) 0) of
                  None \<Rightarrow> Some False
                | Some sign_cnt \<Rightarrow>
                    do { s \<leftarrow> bt_crypto_sign_att e (at_crypto att) (si_key sign) (take (length pdu - BT_ATT_SIGNATURE_LEN) pdu) sign_cnt;
                         Some (s \<noteq> None) }))"

text \<open>
  The loop of \<open>handle_notify\<close>: \<open>cur\<close> is the identifier of the next entry, read before the callback of the entry before it. An entry that
  was freed in between is an access to freed memory.
\<close>

fun entry_after :: "u32 \<Rightarrow> att_notify list \<Rightarrow> (att_notify \<times> u32 option) option" where
  "entry_after n [] = None"
| "entry_after n (x # xs) = (if no_id x = n then Some (x, case xs of [] \<Rightarrow> None | y # _ \<Rightarrow> Some (no_id y)) else entry_after n xs)"

partial_function (option) notify_loop ::
  "app \<Rightarrow> att_env \<Rightarrow> u8 \<Rightarrow> u8 list \<Rightarrow> u32 option \<Rightarrow> bool \<Rightarrow> bt_att \<Rightarrow> (bool \<times> bt_att \<times> att_event list) option" where
  "notify_loop app e opcode pdu cur found att =
     (case cur of
        None \<Rightarrow> Some (found, att, [])
      | Some n \<Rightarrow>
          do { (x, nxt) \<leftarrow> entry_after n (at_notify_list att);
               if \<not> opcode_match (ucast (no_opcode x)) opcode then notify_loop app e opcode pdu nxt found att
               else do {
                 (att, ev) \<leftarrow> (if no_callback x \<noteq> 0 then upcall app e (Received (no_callback x) opcode pdu (no_user_data x)) att else Some (att, []));
                 if at_notify_list att = [] then Some (True, att, ev)
                 else do { (found, att, ev') \<leftarrow> notify_loop app e opcode pdu nxt True att; Some (found, att, ev @ ev') } } })"

definition att_handle_notify :: "app \<Rightarrow> att_env \<Rightarrow> u8 \<Rightarrow> u8 list \<Rightarrow> bt_att \<Rightarrow> (bt_att \<times> att_event list) option" where
  "att_handle_notify app e opcode pdu att =
     do { ok \<leftarrow> (if opcode AND ATT_OP_SIGNED_MASK \<noteq> 0 \<and> \<not> at_crypto att then handle_signed e pdu att else Some True);
          if \<not> ok then Some (att, [])
          else do {
            let pdu = (if opcode AND ATT_OP_SIGNED_MASK \<noteq> 0 \<and> \<not> at_crypto att then take (length pdu - BT_ATT_SIGNATURE_LEN) pdu else pdu);
            (found, att, ev) \<leftarrow> notify_loop app e opcode pdu (case at_notify_list att of [] \<Rightarrow> None | x # _ \<Rightarrow> Some (no_id x)) False att;
            (att, ev') \<leftarrow> (if \<not> found \<and> get_op_type opcode \<noteq> ATT_OP_TYPE_CMD then respond_not_supported e opcode att else Some (att, []));
            Some (att, ev @ ev') } }"

text \<open>\<open>can_read_data\<close>: \<open>None\<close> is a failed \<open>read\<close>, which otherwise returns at most \<open>mtu\<close> bytes.\<close>

definition can_read_data :: "app \<Rightarrow> att_env \<Rightarrow> u8 list option \<Rightarrow> bt_att \<Rightarrow> (bool \<times> bt_att \<times> att_event list) option" where
  "can_read_data app e input att =
     (case input of
        None \<Rightarrow> Some (False, att, [])
      | Some b \<Rightarrow>
          (case take (unat (at_mtu att)) b of
             [] \<Rightarrow> Some (True, att, [])
           | opcode # pdu \<Rightarrow>
               (case get_op_type opcode of
                  ATT_OP_TYPE_RSP \<Rightarrow> do { (att, ev) \<leftarrow> handle_rsp app e opcode pdu att; Some (True, att, ev) }
                | ATT_OP_TYPE_CONF \<Rightarrow> do { (att, ev) \<leftarrow> handle_conf app e pdu att; Some (True, att, ev) }
                | ATT_OP_TYPE_REQ \<Rightarrow>
                    if at_in_req att then Some (False, att, [Shutdown])
                    else do { (att, ev) \<leftarrow> att_handle_notify app e opcode pdu (att\<lparr>at_in_req := True\<rparr>); Some (True, att, ev) }
                | _ \<Rightarrow> do { (att, ev) \<leftarrow> att_handle_notify app e opcode pdu att; Some (True, att, ev) })))"

section \<open>The channel\<close>

text \<open>
  \<open>bt_att_new\<close> on a socket: \<open>l2cap\<close> whether it is one of the L2CAP kind, \<open>bredr\<close> the MTU of a BR/EDR link, \<open>crypto\<close> whether the
  kernel's cipher is there. \<open>None\<close> when the channel cannot be made.
\<close>

definition bt_att_new :: "att_env \<Rightarrow> bool \<Rightarrow> bool \<Rightarrow> u16 option \<Rightarrow> bool \<Rightarrow> bt_att option" where
  "bt_att_new e ext_signed l2cap bredr crypto =
     (let mtu = (case bredr of Some m \<Rightarrow> if l2cap then m else BT_ATT_DEFAULT_LE_MTU | None \<Rightarrow> BT_ATT_DEFAULT_LE_MTU) in
      if mtu < BT_ATT_DEFAULT_LE_MTU \<or> \<not> ae_mem e \<or> \<not> ae_watch e then None
      else Some \<lparr>at_ref_count = 1, at_io = True, at_io_on_l2cap = l2cap, at_io_sec_level = (if l2cap then 0 else BT_ATT_SECURITY_LOW),
                 at_enc_size = 0, at_req_queue = [], at_pending_req = None, at_ind_queue = [], at_pending_ind = None, at_write_queue = [],
                 at_writer_active = False, at_notify_list = [], at_disconn_list = [], at_in_req = False, at_mtu = mtu, at_next_send_id = 0,
                 at_next_reg_id = 0, at_timeout_callback = 0, at_timeout_destroy = 0, at_timeout_data = 0,
                 at_crypto = (\<not> ext_signed \<and> crypto), at_local_sign = None, at_remote_sign = None\<rparr>)"

definition bt_att_ref :: "bt_att \<Rightarrow> bt_att" where
  "bt_att_ref att = att\<lparr>at_ref_count := at_ref_count att + 1\<rparr>"

definition bt_att_free :: "bt_att \<Rightarrow> att_event list" where
  "bt_att_free att =
     (case at_pending_req att of None \<Rightarrow> [] | Some op \<Rightarrow> destroy_att_send_op op) @
     (case at_pending_ind att of None \<Rightarrow> [] | Some op \<Rightarrow> destroy_att_send_op op) @
     (if at_timeout_destroy att \<noteq> 0 then [Other_destroyed (at_timeout_destroy att) (at_timeout_data att)] else [])"

definition bt_att_unref :: "bt_att \<Rightarrow> bt_att option \<times> att_event list" where
  "bt_att_unref att =
     (let att = att\<lparr>at_ref_count := at_ref_count att - 1\<rparr> in
      if at_ref_count att \<noteq> 0 then (Some att, [])
      else case bt_att_unregister_all att of (att, ev1) \<Rightarrow>
           case bt_att_cancel_all att of (att, ev2) \<Rightarrow> (None, ev1 @ ev2 @ bt_att_free att))"

end
