(* ===== verification/AttInv.thy ===== *)
theory AttInv
  imports Att "HOL-Library.Multiset"
begin

text \<open>
  Every operation the channel takes is destroyed exactly once and answered at most once, whatever the application does inside its callbacks.
\<close>

section \<open>Tokens of operations\<close>

text \<open>An operation owes its destroy callback, and its response callback, to the application.\<close>

definition dtok :: "att_send_op \<Rightarrow> (ptr \<times> ptr) multiset" where
  "dtok op = (if so_destroy op \<noteq> 0 then {#(so_destroy op, so_user_data op)#} else {#})"

definition rtok :: "att_send_op \<Rightarrow> (ptr \<times> ptr) multiset" where
  "rtok op = (if so_callback op \<noteq> 0 then {#(so_callback op, so_user_data op)#} else {#})"

definition pend :: "(att_send_op \<Rightarrow> 'a multiset) \<Rightarrow> att_send_op option \<Rightarrow> 'a multiset" where
  "pend f p = (case p of None \<Rightarrow> {#} | Some op \<Rightarrow> f op)"

definition qtoks :: "(att_send_op \<Rightarrow> 'a multiset) \<Rightarrow> bt_att \<Rightarrow> 'a multiset" where
  "qtoks f att = sum_list (map f (at_req_queue att)) + sum_list (map f (at_ind_queue att)) + sum_list (map f (at_write_queue att))"

definition toks :: "(att_send_op \<Rightarrow> 'a multiset) \<Rightarrow> bt_att \<Rightarrow> 'a multiset" where
  "toks f att = qtoks f att + pend f (at_pending_req att) + pend f (at_pending_ind att)"

text \<open>What the events of a run add to the debts of the channel, and what they pay.\<close>

fun queued_d :: "att_event \<Rightarrow> (ptr \<times> ptr) multiset" where
  "queued_d (Queued opcode cb ud d) = (if d \<noteq> 0 then {#(d, ud)#} else {#})"
| "queued_d _ = {#}"

fun queued_r :: "att_event \<Rightarrow> (ptr \<times> ptr) multiset" where
  "queued_r (Queued opcode cb ud d) = (if cb \<noteq> 0 then {#(cb, ud)#} else {#})"
| "queued_r _ = {#}"

fun destroyed :: "att_event \<Rightarrow> (ptr \<times> ptr) multiset" where
  "destroyed (Destroyed d ud) = {#(d, ud)#}"
| "destroyed _ = {#}"

fun responded :: "att_event \<Rightarrow> (ptr \<times> ptr) multiset" where
  "responded (Response cb opcode pdu ud) = {#(cb, ud)#}"
| "responded _ = {#}"

definition total :: "(att_event \<Rightarrow> 'a multiset) \<Rightarrow> att_event list \<Rightarrow> 'a multiset" where
  "total f ev = sum_list (map f ev)"

lemma total_simps [simp]: "total f [] = {#}" "total f (x # xs) = f x + total f xs" "total f (xs @ ys) = total f xs + total f ys"
  by (simp_all add: total_def)

lemma pend_simps [simp]: "pend f None = {#}" "pend f (Some op) = f op"
  by (simp_all add: pend_def)

lemma total_destroy_op [simp]:
  "total destroyed (destroy_att_send_op op) = dtok op" "total responded (destroy_att_send_op op) = {#}"
  "total queued_d (destroy_att_send_op op) = {#}" "total queued_r (destroy_att_send_op op) = {#}"
  by (simp_all add: destroy_att_send_op_def dtok_def)

lemma total_concat: "total f (concat xss) = sum_list (map (total f) xss)"
  by (induction xss) simp_all

lemma total_destroy_ops [simp]:
  "total destroyed (concat (map destroy_att_send_op q)) = sum_list (map dtok q)" "total responded (concat (map destroy_att_send_op q)) = {#}"
  "total queued_d (concat (map destroy_att_send_op q)) = {#}" "total queued_r (concat (map destroy_att_send_op q)) = {#}"
  by (induction q) simp_all

definition cancelled :: "att_send_op \<Rightarrow> att_send_op" where
  "cancelled op = op\<lparr>so_user_data := 0, so_callback := 0, so_destroy := 0\<rparr>"

lemma cancelled_simps [simp]: "dtok (cancelled op) = {#}" "rtok (cancelled op) = {#}" "so_type (cancelled op) = so_type op" "so_callback (cancelled op) = 0"
  "cancelled (cancelled op) = cancelled op"
  by (simp_all add: cancelled_def dtok_def rtok_def)

lemma total_other [simp]:
  "total destroyed (destroy_att_notify n) = {#}" "total responded (destroy_att_notify n) = {#}" "total queued_d (destroy_att_notify n) = {#}"
  "total queued_r (destroy_att_notify n) = {#}" "total destroyed (destroy_att_disconn d) = {#}" "total responded (destroy_att_disconn d) = {#}"
  "total queued_d (destroy_att_disconn d) = {#}" "total queued_r (destroy_att_disconn d) = {#}"
  by (simp_all add: destroy_att_notify_def destroy_att_disconn_def)

lemma total_concat_0: "\<forall>x \<in> set xs. total f (g x) = {#} \<Longrightarrow> total f (concat (map g xs)) = {#}"
  by (induction xs) simp_all

text \<open>What happens to a pending operation while the application runs: nothing, or it is cancelled.\<close>

definition kept :: "att_send_op option \<Rightarrow> att_send_op option \<Rightarrow> bool" where
  "kept p p' = (p' = p \<or> p' = map_option cancelled p)"

lemma kept_refl [simp]: "kept p p"
  by (simp add: kept_def)

lemma kept_trans: "kept p p' \<Longrightarrow> kept p' p'' \<Longrightarrow> kept p p''"
  by (cases p) (auto simp: kept_def)

lemma kept_Some: "kept (Some op) p' \<Longrightarrow> p' = Some op \<or> p' = Some (cancelled op)"
  by (auto simp: kept_def)

lemma kept_None [simp]: "kept None p' \<longleftrightarrow> p' = None"
  by (auto simp: kept_def)

lemma kept_rtok: "kept p p' \<Longrightarrow> pend rtok p' \<subseteq># pend rtok p"
  by (cases p) (auto simp: kept_def)

section \<open>Calls of the application\<close>

text \<open>
  The effect of a call on the debts: destroy callbacks are conserved, response callbacks are at most lost by cancellation, and no response is given.
\<close>

definition quiet :: "bt_att \<Rightarrow> bt_att \<Rightarrow> att_event list \<Rightarrow> bool" where
  "quiet att att' ev = (toks dtok att' + total destroyed ev = toks dtok att + total queued_d ev \<and>
     qtoks rtok att' \<subseteq># qtoks rtok att + total queued_r ev \<and> total responded ev = {#} \<and>
     kept (at_pending_req att) (at_pending_req att') \<and> kept (at_pending_ind att) (at_pending_ind att'))"

lemma quiet_refl [simp]: "quiet att att []"
  by (simp add: quiet_def)

lemma quiet_trans:
  assumes "quiet a b ev" and "quiet b c ev'"
  shows "quiet a c (ev @ ev')"
proof -
  have "qtoks rtok c \<subseteq># qtoks rtok a + total queued_r ev + total queued_r ev'"
  proof (rule subset_mset.order_trans)
    show "qtoks rtok c \<subseteq># qtoks rtok b + total queued_r ev'" using assms(2) by (simp add: quiet_def)
    show "qtoks rtok b + total queued_r ev' \<subseteq># qtoks rtok a + total queued_r ev + total queued_r ev'" using assms(1) by (simp add: quiet_def)
  qed
  moreover have "toks dtok c + total destroyed (ev @ ev') = toks dtok a + total queued_d (ev @ ev')"
  proof -
    have "toks dtok c + total destroyed (ev @ ev') = (toks dtok c + total destroyed ev') + total destroyed ev" by (simp add: ac_simps)
    also have "\<dots> = (toks dtok b + total destroyed ev) + total queued_d ev'" using assms(2) by (simp add: quiet_def ac_simps)
    also have "\<dots> = toks dtok a + total queued_d (ev @ ev')" using assms(1) by (simp add: quiet_def ac_simps)
    finally show ?thesis .
  qed
  moreover have "kept (at_pending_req a) (at_pending_req c)" "kept (at_pending_ind a) (at_pending_ind c)"
    using assms kept_trans unfolding quiet_def by blast+
  ultimately show ?thesis using assms by (simp add: quiet_def add.assoc)
qed

lemma wakeup_simps [simp]:
  "at_req_queue (wakeup_writer e att) = at_req_queue att" "at_ind_queue (wakeup_writer e att) = at_ind_queue att"
  "at_write_queue (wakeup_writer e att) = at_write_queue att" "at_pending_req (wakeup_writer e att) = at_pending_req att"
  "at_pending_ind (wakeup_writer e att) = at_pending_ind att" "at_io (wakeup_writer e att) = at_io att"
  "at_notify_list (wakeup_writer e att) = at_notify_list att" "at_in_req (wakeup_writer e att) = at_in_req att" "at_mtu (wakeup_writer e att) = at_mtu att"
  "at_disconn_list (wakeup_writer e att) = at_disconn_list att"
  by (simp_all add: wakeup_writer_def)

lemma toks_wakeup [simp]: "toks f (wakeup_writer e att) = toks f att" "qtoks f (wakeup_writer e att) = qtoks f att"
  by (simp_all add: toks_def qtoks_def)

lemma create_some:
  assumes "create_att_send_op e att opcode pdu len cb ud d = Some (Some op)"
  shows "so_callback op = cb" "so_destroy op = d" "so_user_data op = ud" "so_type op = get_op_type opcode" "so_opcode op = opcode"
    "so_type op \<noteq> ATT_OP_TYPE_UNKNOWN" "(so_type op = ATT_OP_TYPE_REQ \<or> so_type op = ATT_OP_TYPE_IND) = (cb \<noteq> 0)"
    "encode_pdu e att opcode pdu len = Some (Some (so_pdu op))"
proof -
  define t where "t = get_op_type opcode"
  have c: "\<not> (len \<noteq> 0 \<and> pdu = None)" "t \<noteq> ATT_OP_TYPE_UNKNOWN" "\<not> (cb \<noteq> 0 \<and> t \<noteq> ATT_OP_TYPE_REQ \<and> t \<noteq> ATT_OP_TYPE_IND)"
    "\<not> (cb = 0 \<and> (t = ATT_OP_TYPE_REQ \<or> t = ATT_OP_TYPE_IND))"
    using assms unfolding create_att_send_op_def t_def[symmetric] Let_def by (metis option.distinct(1) option.inject)+
  obtain b where b: "encode_pdu e att opcode pdu len = Some (Some b)" "op = \<lparr>so_id = 0, so_timeout_id = 0, so_type = t, so_opcode = opcode, so_pdu = b, so_callback = cb,
                            so_destroy = d, so_user_data = ud\<rparr>"
    using assms c unfolding create_att_send_op_def t_def[symmetric] Let_def
    by (cases "encode_pdu e att opcode pdu len"; cases "the (encode_pdu e att opcode pdu len)") auto
  show "so_callback op = cb" "so_destroy op = d" "so_user_data op = ud" "so_type op = get_op_type opcode" "so_opcode op = opcode"
    "so_type op \<noteq> ATT_OP_TYPE_UNKNOWN" "(so_type op = ATT_OP_TYPE_REQ \<or> so_type op = ATT_OP_TYPE_IND) = (cb \<noteq> 0)"
    "encode_pdu e att opcode pdu len = Some (Some (so_pdu op))"
    using b c by (auto simp: t_def)
qed

lemma send_cases:
  assumes "bt_att_send e att opcode pdu len cb ud d = Some (n, att', ev)"
  obtains (refused) "att' = att" "ev = []" "n = 0"
  | (taken) op where "at_io att" "ev = [Queued opcode cb ud d]" "so_callback op = cb" "so_destroy op = d" "so_user_data op = ud" "so_type op = get_op_type opcode"
      "so_id op = n" "so_type op \<noteq> ATT_OP_TYPE_UNKNOWN" "so_opcode op = opcode"
      "(so_type op = ATT_OP_TYPE_REQ \<or> so_type op = ATT_OP_TYPE_IND) = (cb \<noteq> 0)"
      "att' = wakeup_writer e (if so_type op = ATT_OP_TYPE_REQ then att\<lparr>at_next_send_id := n + 1, at_req_queue := at_req_queue att @ [op]\<rparr>
         else if so_type op = ATT_OP_TYPE_IND then att\<lparr>at_next_send_id := n + 1, at_ind_queue := at_ind_queue att @ [op]\<rparr>
         else att\<lparr>at_next_send_id := n + 1, at_write_queue := at_write_queue att @ [op]\<rparr>)"
proof (cases "\<not> at_io att \<or> create_att_send_op e att opcode pdu len cb ud d = Some None")
  case True
  then have "Some (0, att, []) = Some (n, att', ev)" using assms by (cases "at_io att") (simp_all add: bt_att_send_def)
  then show ?thesis using refused by simp
next
  case False
  then obtain op where op: "create_att_send_op e att opcode pdu len cb ud d = Some (Some op)" 
    using assms by (cases "create_att_send_op e att opcode pdu len cb ud d") (auto simp: bt_att_send_def split: if_splits)
  have f: "so_callback op = cb" "so_destroy op = d" "so_user_data op = ud" "so_type op = get_op_type opcode" "so_opcode op = opcode"
    "so_type op \<noteq> ATT_OP_TYPE_UNKNOWN" "(so_type op = ATT_OP_TYPE_REQ \<or> so_type op = ATT_OP_TYPE_IND) = (cb \<noteq> 0)"
    by (rule create_some[OF op])+
  have io: "at_io att" using False by simp
  define k where "k = (if at_next_send_id att < 1 then 1 else at_next_send_id att)"
  have r: "bt_att_send e att opcode pdu len cb ud d = Some (k, wakeup_writer e (if so_type op = ATT_OP_TYPE_REQ then att\<lparr>at_next_send_id := k + 1, at_req_queue := at_req_queue att @ [op\<lparr>so_id := k\<rparr>]\<rparr>
         else if so_type op = ATT_OP_TYPE_IND then att\<lparr>at_next_send_id := k + 1, at_ind_queue := at_ind_queue att @ [op\<lparr>so_id := k\<rparr>]\<rparr>
         else att\<lparr>at_next_send_id := k + 1, at_write_queue := at_write_queue att @ [op\<lparr>so_id := k\<rparr>]\<rparr>), [Queued opcode cb ud d])"
    unfolding bt_att_send_def k_def[symmetric] using io op by (simp add: Let_def)
  have eq: "n = k" "att' = wakeup_writer e (if so_type op = ATT_OP_TYPE_REQ then att\<lparr>at_next_send_id := k + 1, at_req_queue := at_req_queue att @ [op\<lparr>so_id := k\<rparr>]\<rparr>
         else if so_type op = ATT_OP_TYPE_IND then att\<lparr>at_next_send_id := k + 1, at_ind_queue := at_ind_queue att @ [op\<lparr>so_id := k\<rparr>]\<rparr>
         else att\<lparr>at_next_send_id := k + 1, at_write_queue := at_write_queue att @ [op\<lparr>so_id := k\<rparr>]\<rparr>)" "ev = [Queued opcode cb ud d]"
    using assms[unfolded r] by simp_all
  show ?thesis by (rule taken[of "op\<lparr>so_id := n\<rparr>"]) (unfold eq, use io f in \<open>simp_all cong: if_cong\<close>)
qed

lemma sum_list_remove:
  fixes f :: "'b \<Rightarrow> 'a multiset"
  assumes "find P xs = Some x"
  shows "sum_list (map f xs) = f x + sum_list (map f (remove_first P xs))"
  using assms by (induction xs) (auto simp: ac_simps split: if_splits)

lemma quiet_exec:
  assumes "att_exec e c att = Some (att', ev)"
  shows "quiet att att' ev"
proof (cases c)
  case (Send opcode pdu len cb ud d)
  then obtain n where "bt_att_send e att opcode pdu len cb ud d = Some (n, att', ev)" using assms by (auto simp: bind_eq_Some_conv)
  then show ?thesis
  proof (cases rule: send_cases)
    case (taken op)
    have "dtok op = total queued_d ev" "rtok op = total queued_r ev" using taken by (auto simp: dtok_def rtok_def)
    then show ?thesis using taken by (auto simp: quiet_def toks_def qtoks_def)
  qed simp
next
  case (Cancel n)
  then show ?thesis using assms
    by (auto simp: quiet_def bt_att_cancel_def Let_def cancel_att_send_op_def toks_def qtoks_def dtok_def kept_def cancelled_def
      sum_list_remove[where f = dtok] sum_list_remove[where f = rtok] split: if_splits option.splits)
next
  case Cancel_all
  then show ?thesis using assms
    by (auto simp: quiet_def bt_att_cancel_all_def cancel_pending_def cancel_att_send_op_def toks_def qtoks_def dtok_def kept_def cancelled_def split: option.splits)
qed (use assms in \<open>auto simp: quiet_def toks_def qtoks_def bt_att_register_def bt_att_unregister_def bt_att_unregister_all_def
    bt_att_register_disconnect_def bt_att_unregister_disconnect_def bt_att_set_mtu_def bt_att_set_security_def bt_att_set_enc_key_size_def bt_att_set_timeout_cb_def
    bt_att_set_local_key_def bt_att_set_remote_key_def Let_def total_concat_0 split: if_splits option.splits\<close>)

lemma quiet_execs: "att_execs e cs att = Some (att', ev) \<Longrightarrow> quiet att att' ev"
proof (induction cs arbitrary: att ev)
  case (Cons c cs)
  then obtain a1 ev1 ev2 where "att_exec e c att = Some (a1, ev1)" "att_execs e cs a1 = Some (att', ev2)" "ev = ev1 @ ev2"
    by (auto simp: bind_eq_Some_conv)
  then show ?case using quiet_trans[OF quiet_exec Cons.IH] by simp
qed simp

lemma upcall_quiet:
  assumes "upcall app e x att = Some (att', ev)"
  obtains ev' where "ev = x # ev'" "quiet att att' ev'"
  using assms quiet_execs by (auto simp: upcall_def bind_eq_Some_conv)

section \<open>Handlers\<close>

text \<open>
  The channel pays its debts: the destroy callbacks that are due and those run add up, and no more responses are given than were due. \<open>X\<close> and \<open>Y\<close> are
  the debts of operations that are in no queue when the step begins.
\<close>

definition pays :: "(ptr \<times> ptr) multiset \<Rightarrow> (ptr \<times> ptr) multiset \<Rightarrow> bt_att \<Rightarrow> bt_att \<Rightarrow> att_event list \<Rightarrow> bool" where
  "pays X Y att att' ev = (toks dtok att' + total destroyed ev = X + toks dtok att + total queued_d ev \<and>
     toks rtok att' + total responded ev \<subseteq># Y + toks rtok att + total queued_r ev)"

lemma pays_refl [simp]: "pays {#} {#} att att []"
  by (simp add: pays_def)

lemma pays_trans:
  assumes "pays X Y a b ev" and "pays X' Y' b c ev'"
  shows "pays (X + X') (Y + Y') a c (ev @ ev')"
proof -
  have "toks dtok c + total destroyed (ev @ ev') = (toks dtok c + total destroyed ev') + total destroyed ev" by (simp add: ac_simps)
  also have "\<dots> = X' + total queued_d ev' + (toks dtok b + total destroyed ev)" using assms(2) by (simp add: pays_def ac_simps)
  also have "\<dots> = (X + X') + toks dtok a + total queued_d (ev @ ev')" using assms(1) by (simp add: pays_def ac_simps)
  finally have d: "toks dtok c + total destroyed (ev @ ev') = (X + X') + toks dtok a + total queued_d (ev @ ev')" .
  have "toks rtok c + total responded ev' + total responded ev \<subseteq># Y' + toks rtok b + total queued_r ev' + total responded ev"
    using assms(2) by (simp add: pays_def)
  also have "\<dots> = (toks rtok b + total responded ev) + (Y' + total queued_r ev')" by (simp add: ac_simps)
  also have "\<dots> \<subseteq># (Y + toks rtok a + total queued_r ev) + (Y' + total queued_r ev')" using assms(1) by (simp add: pays_def)
  finally show ?thesis using d by (simp add: pays_def ac_simps)
qed

lemma pays_steps:
  assumes "pays {#} {#} a b ev" and "pays {#} {#} b c ev'"
  shows "pays {#} {#} a c (ev @ ev')"
  using pays_trans[OF assms] by simp

lemma quiet_pays:
  assumes "quiet a b ev"
  shows "pays {#} {#} a b ev"
proof -
  have "pend rtok (at_pending_req b) \<subseteq># pend rtok (at_pending_req a)" "pend rtok (at_pending_ind b) \<subseteq># pend rtok (at_pending_ind a)"
    using assms kept_rtok by (auto simp: quiet_def)
  then have "qtoks rtok b + pend rtok (at_pending_req b) + pend rtok (at_pending_ind b) \<subseteq>#
      (qtoks rtok a + total queued_r ev) + pend rtok (at_pending_req a) + pend rtok (at_pending_ind a)"
    using assms by (intro subset_mset.add_mono) (auto simp: quiet_def)
  then show ?thesis using assms by (simp add: pays_def quiet_def toks_def ac_simps)
qed

lemma toks_fields:
  "toks f (att\<lparr>at_pending_req := p\<rparr>) = qtoks f att + pend f p + pend f (at_pending_ind att)"
  "toks f (att\<lparr>at_pending_ind := p\<rparr>) = qtoks f att + pend f (at_pending_req att) + pend f p"
  by (simp_all add: toks_def qtoks_def)

lemma respond_quiet:
  assumes "respond app e op opcode pdu att = Some (att', ev)"
  obtains ev' where "quiet att att' ev'" "total responded ev = rtok op" "total destroyed ev = total destroyed ev'" "total queued_d ev = total queued_d ev'"
    "total queued_r ev = total queued_r ev'"
proof (cases "so_callback op = 0")
  case True
  then show ?thesis using that[of "[]"] assms by (simp add: respond_def rtok_def)
next
  case False
  then have "upcall app e (Response (so_callback op) opcode pdu (so_user_data op)) att = Some (att', ev)" using assms by (simp add: respond_def)
  then obtain ev' where "ev = Response (so_callback op) opcode pdu (so_user_data op) # ev'" "quiet att att' ev'" by (rule upcall_quiet)
  then show ?thesis using that[of ev'] False by (simp add: rtok_def quiet_def)
qed

lemma respond_pays:
  assumes "respond app e op opcode pdu att = Some (att', ev)"
  shows "pays (dtok op) (rtok op) att att' (ev @ destroy_att_send_op op)"
proof -
  obtain ev' where q: "quiet att att' ev'" "total responded ev = rtok op" "total destroyed ev = total destroyed ev'" "total queued_d ev = total queued_d ev'"
    "total queued_r ev = total queued_r ev'" by (rule respond_quiet[OF assms])
  have p: "pays {#} {#} att att' ev'" by (rule quiet_pays[OF q(1)])
  have "total responded ev' = {#}" using q(1) by (simp add: quiet_def)
  then show ?thesis using p q(2-) by (simp add: pays_def ac_simps)
qed

lemma respond_pending_req:
  assumes r: "respond app e op opcode pdu att = Some (att', ev)" and p: "at_pending_req att = Some op" "at_pending_req att' = Some op'"
  shows "pays {#} {#} att (att'\<lparr>at_pending_req := None\<rparr>) (ev @ destroy_att_send_op op')"
proof -
  obtain ev' where q: "quiet att att' ev'" "total responded ev = rtok op" "total destroyed ev = total destroyed ev'" "total queued_d ev = total queued_d ev'"
    "total queued_r ev = total queued_r ev'" by (rule respond_quiet[OF r])
  have "pend rtok (at_pending_ind att') \<subseteq># pend rtok (at_pending_ind att)" using q(1) kept_rtok by (simp add: quiet_def)
  then have "qtoks rtok att' + pend rtok (at_pending_ind att') \<subseteq># (qtoks rtok att + total queued_r ev') + pend rtok (at_pending_ind att)"
    using q(1) by (intro subset_mset.add_mono) (simp_all add: quiet_def)
  moreover have "toks dtok att' = toks dtok (att'\<lparr>at_pending_req := None\<rparr>) + dtok op'" using p(2) by (simp add: toks_def qtoks_def)
  ultimately show ?thesis using q p by (simp add: pays_def quiet_def toks_fields) (simp add: toks_def ac_simps)
qed

lemma respond_pending_ind:
  assumes r: "respond app e op opcode pdu att = Some (att', ev)" and p: "at_pending_ind att = Some op" "at_pending_ind att' = Some op'"
  shows "pays {#} {#} att (att'\<lparr>at_pending_ind := None\<rparr>) (ev @ destroy_att_send_op op')"
proof -
  obtain ev' where q: "quiet att att' ev'" "total responded ev = rtok op" "total destroyed ev = total destroyed ev'" "total queued_d ev = total queued_d ev'"
    "total queued_r ev = total queued_r ev'" by (rule respond_quiet[OF r])
  have "pend rtok (at_pending_req att') \<subseteq># pend rtok (at_pending_req att)" using q(1) kept_rtok by (simp add: quiet_def)
  then have "qtoks rtok att' + pend rtok (at_pending_req att') \<subseteq># (qtoks rtok att + total queued_r ev') + pend rtok (at_pending_req att)"
    using q(1) by (intro subset_mset.add_mono) (simp_all add: quiet_def)
  moreover have "toks dtok att' = toks dtok (att'\<lparr>at_pending_ind := None\<rparr>) + dtok op'" using p(2) by (simp add: toks_def qtoks_def)
  ultimately show ?thesis using q p by (simp add: pays_def quiet_def toks_fields) (simp add: toks_def ac_simps)
qed

lemma upcall_pays:
  assumes "upcall app e x att = Some (att', ev)" and "responded x = {#}" "destroyed x = {#}" "queued_d x = {#}" "queued_r x = {#}"
  shows "pays {#} {#} att att' ev"
proof -
  obtain ev' where ev: "ev = x # ev'" "quiet att att' ev'" by (rule upcall_quiet[OF assms(1)])
  then show ?thesis using quiet_pays[OF ev(2)] assms(2-) by (simp add: pays_def)
qed

lemma timeout_pays:
  assumes "timeout_cb app e n att = Some (att', ev)"
  shows "pays {#} {#} att att' ev"
proof -
  have main: "pays {#} {#} att att' ev"
    if op: "\<forall>f :: att_send_op \<Rightarrow> (ptr \<times> ptr) multiset. toks f att = f op + toks f a"
      and r: "do { (att, ev) \<leftarrow> (if at_timeout_callback a \<noteq> 0 then upcall app e (Timed_out (at_timeout_callback a) (so_id op) (so_opcode op) (at_timeout_data a)) a
                                 else Some (a, []));
                  Some (att, ev @ destroy_att_send_op (op\<lparr>so_timeout_id := 0\<rparr>) @ [Shutdown]) } = Some (att', ev)" for op a
  proof -
    obtain ev1 where e: "pays {#} {#} a att' ev1" "ev = ev1 @ destroy_att_send_op (op\<lparr>so_timeout_id := 0\<rparr>) @ [Shutdown]"
      using r upcall_pays[of app e "Timed_out (at_timeout_callback a) (so_id op) (so_opcode op) (at_timeout_data a)" a att']
      by (auto simp: bind_eq_Some_conv split: if_splits)
    have "dtok (op\<lparr>so_timeout_id := 0\<rparr>) = dtok op" by (simp add: dtok_def)
    moreover have "toks rtok a + total queued_r ev1 \<subseteq># toks rtok att + total queued_r ev1" using op by simp
    ultimately show ?thesis using e op unfolding pays_def by (auto simp: ac_simps intro: subset_mset.order_trans)
  qed
  show ?thesis
  proof (cases "case at_pending_req att of None \<Rightarrow> False | Some op \<Rightarrow> so_id op = n")
    case True
    then obtain op where "at_pending_req att = Some op" "so_id op = n" by (auto split: option.splits)
    then show ?thesis using main[of op "att\<lparr>at_pending_req := None\<rparr>"] assms by (auto simp: timeout_cb_def toks_def qtoks_def)
  next
    case no: False
    show ?thesis
    proof (cases "case at_pending_ind att of None \<Rightarrow> False | Some op \<Rightarrow> so_id op = n")
      case True
      then obtain op where "at_pending_ind att = Some op" "so_id op = n" by (auto split: option.splits)
      then show ?thesis using no main[of op "att\<lparr>at_pending_ind := None\<rparr>"] assms by (auto simp: timeout_cb_def toks_def qtoks_def split: option.splits)
    next
      case False
      then show ?thesis using no assms by (auto simp: timeout_cb_def)
    qed
  qed
qed

lemma pick_toks:
  assumes "pick_next_send_op att = (Some op, a)"
  shows "toks f att = f op + toks f a"
  using assms by (auto simp: pick_next_send_op_def toks_def qtoks_def ac_simps neq_Nil_conv split: if_splits)

lemma write_pays:
  assumes "can_write_data app e att = Some (again, att', ev)"
    and types: "\<forall>op \<in> set (at_write_queue att). so_type op \<noteq> ATT_OP_TYPE_REQ \<and> so_type op \<noteq> ATT_OP_TYPE_IND"
    "\<forall>op \<in> set (at_req_queue att). so_type op = ATT_OP_TYPE_REQ" "\<forall>op \<in> set (at_ind_queue att). so_type op = ATT_OP_TYPE_IND"
  shows "pays {#} {#} att att' ev"
proof (cases "pick_next_send_op att")
  case (Pair x a)
  show ?thesis
  proof (cases x)
    case None
    then have "a = att" using Pair by (auto simp: pick_next_send_op_def split: if_splits)
    then show ?thesis using assms(1) Pair None by (simp add: can_write_data_def)
  next
    case (Some op)
    have t: "toks f att = f op + toks f a" for f :: "att_send_op \<Rightarrow> (ptr \<times> ptr) multiset" using pick_toks Pair Some by blast
    have p: "so_type op = ATT_OP_TYPE_REQ \<Longrightarrow> at_pending_req a = None" "so_type op = ATT_OP_TYPE_IND \<Longrightarrow> at_pending_ind a = None"
      using Pair Some types by (auto simp: pick_next_send_op_def split: if_splits)
    show ?thesis
    proof (cases "ae_sent e")
      case False
      then obtain ev1 where r: "respond app e op BT_ATT_OP_ERROR_RSP [] a = Some (att', ev1)" "ev = ev1 @ destroy_att_send_op op"
        using assms(1) Pair Some by (auto simp: can_write_data_def bind_eq_Some_conv)
      show ?thesis using respond_pays[OF r(1)] t r(2) by (simp add: pays_def)
    next
      case True
      have d: "dtok (op\<lparr>so_timeout_id := k\<rparr>) = dtok op" "rtok (op\<lparr>so_timeout_id := k\<rparr>) = rtok op" for k by (simp_all add: dtok_def rtok_def)
      show ?thesis using True assms(1) Pair Some t[of dtok] t[of rtok] p d
        by (auto simp: can_write_data_def pays_def toks_fields ac_simps split: if_splits) (auto simp: toks_def qtoks_def)
    qed
  qed
qed

text \<open>The queues hold operations of their own kind.\<close>

definition typed :: "bt_att \<Rightarrow> bool" where
  "typed att = ((\<forall>op \<in> set (at_write_queue att). so_type op \<noteq> ATT_OP_TYPE_REQ \<and> so_type op \<noteq> ATT_OP_TYPE_IND) \<and>
     (\<forall>op \<in> set (at_req_queue att). so_type op = ATT_OP_TYPE_REQ) \<and> (\<forall>op \<in> set (at_ind_queue att). so_type op = ATT_OP_TYPE_IND) \<and>
     (\<forall>op. at_pending_req att = Some op \<longrightarrow> so_type op = ATT_OP_TYPE_REQ) \<and> (\<forall>op. at_pending_ind att = Some op \<longrightarrow> so_type op = ATT_OP_TYPE_IND))"

definition sound :: "bt_att \<Rightarrow> bt_att \<Rightarrow> att_event list \<Rightarrow> bool" where
  "sound att att' ev = (typed att \<longrightarrow> typed att' \<and> pays {#} {#} att att' ev)"

lemma sound_refl [simp]: "sound att att []"
  by (simp add: sound_def)

lemma sound_trans: "sound a b ev \<Longrightarrow> sound b c ev' \<Longrightarrow> sound a c (ev @ ev')"
  unfolding sound_def using pays_steps by blast

lemma typed_wakeup [simp]: "typed (wakeup_writer e att) = typed att"
  by (simp add: typed_def)

lemma remove_first_subset: "set (remove_first P xs) \<subseteq> set xs"
  by (induction xs) auto

lemma typed_restrict:
  assumes "typed att" and "set (at_req_queue a) \<subseteq> set (at_req_queue att)" "set (at_ind_queue a) \<subseteq> set (at_ind_queue att)"
    "set (at_write_queue a) \<subseteq> set (at_write_queue att)"
    "at_pending_req a = at_pending_req att \<or> at_pending_req a = map_option cancelled (at_pending_req att) \<or> at_pending_req a = None"
    "at_pending_ind a = at_pending_ind att \<or> at_pending_ind a = map_option cancelled (at_pending_ind att) \<or> at_pending_ind a = None"
  shows "typed a"
proof -
  have "\<forall>op. at_pending_req a = Some op \<longrightarrow> so_type op = ATT_OP_TYPE_REQ" "\<forall>op. at_pending_ind a = Some op \<longrightarrow> so_type op = ATT_OP_TYPE_IND"
    using assms(1,5,6) unfolding typed_def by auto
  then show ?thesis using assms(1-4) unfolding typed_def by blast
qed

lemma cancel_restrict:
  assumes "bt_att_cancel e att n = (b, a, ev)"
  shows "set (at_req_queue a) \<subseteq> set (at_req_queue att)" "set (at_ind_queue a) \<subseteq> set (at_ind_queue att)"
    "set (at_write_queue a) \<subseteq> set (at_write_queue att)"
    "at_pending_req a = at_pending_req att \<or> at_pending_req a = map_option cancelled (at_pending_req att)"
    "at_pending_ind a = at_pending_ind att \<or> at_pending_ind a = map_option cancelled (at_pending_ind att)"
  using assms by (simp_all add: bt_att_cancel_def Let_def cancel_att_send_op_def cancelled_def split: if_splits option.splits)
    (auto dest!: set_mp[OF remove_first_subset])

lemma cancel_cases:
  assumes "bt_att_cancel e att n = (b, a, ev)"
  obtains (same) "a = att" | (req) op where "at_pending_req att = Some op" "a = att\<lparr>at_pending_req := Some (cancelled op)\<rparr>"
  | (ind) op where "at_pending_ind att = Some op" "a = att\<lparr>at_pending_ind := Some (cancelled op)\<rparr>" | (removed) a0 where "a = wakeup_writer e a0" "at_io a0 = at_io att"
    "at_notify_list a0 = at_notify_list att" "at_in_req a0 = at_in_req att" "at_writer_active a0 = at_writer_active att"
proof -
  have "a = att \<or> (\<exists>op. at_pending_req att = Some op \<and> a = att\<lparr>at_pending_req := Some (cancelled op)\<rparr>) \<or>
    (\<exists>op. at_pending_ind att = Some op \<and> a = att\<lparr>at_pending_ind := Some (cancelled op)\<rparr>) \<or>
    (\<exists>a0. a = wakeup_writer e a0 \<and> at_io a0 = at_io att \<and> at_notify_list a0 = at_notify_list att \<and> at_in_req a0 = at_in_req att \<and> at_writer_active a0 = at_writer_active att)"
  proof -
    have w: "\<exists>a0. wakeup_writer e x = wakeup_writer e a0 \<and> at_io a0 = at_io att \<and> at_notify_list a0 = at_notify_list att \<and> at_in_req a0 = at_in_req att \<and>
      at_writer_active a0 = at_writer_active att" if "at_io x = at_io att" "at_notify_list x = at_notify_list att" "at_in_req x = at_in_req att" "at_writer_active x = at_writer_active att" for x
      using that by blast
    show ?thesis using assms
      by (simp add: bt_att_cancel_def Let_def cancel_att_send_op_def split: if_splits option.splits) (auto simp: cancelled_def intro!: w)
  qed
  then show ?thesis using that by blast
qed

lemma typed_exec:
  assumes "att_exec e c att = Some (att', ev)" and "typed att"
  shows "typed att'"
proof (cases c)
  case (Send opcode pdu len cb ud d)
  then obtain n where "bt_att_send e att opcode pdu len cb ud d = Some (n, att', ev)" using assms by (auto simp: bind_eq_Some_conv)
  then show ?thesis
  proof (cases rule: send_cases)
    case (taken op)
    then show ?thesis using assms(2) unfolding taken(11) typed_wakeup by (auto simp: typed_def)
  qed (use assms(2) in simp)
next
  case (Cancel n)
  obtain b where c: "bt_att_cancel e att n = (b, att', ev)" using assms(1) Cancel by (cases "bt_att_cancel e att n") simp
  show ?thesis by (rule typed_restrict[OF assms(2) cancel_restrict(1-3)[OF c]]) (use cancel_restrict(4,5)[OF c] in auto)
next
  case Cancel_all
  then show ?thesis using assms by (auto simp: bt_att_cancel_all_def cancel_pending_def cancel_att_send_op_def typed_def split: option.splits)
qed (use assms in \<open>auto simp: typed_def bt_att_register_def bt_att_unregister_def bt_att_unregister_all_def
    bt_att_register_disconnect_def bt_att_unregister_disconnect_def bt_att_set_mtu_def bt_att_set_security_def bt_att_set_enc_key_size_def bt_att_set_timeout_cb_def
    bt_att_set_local_key_def bt_att_set_remote_key_def Let_def split: if_splits option.splits\<close>)

lemma sound_exec: "att_exec e c att = Some (att', ev) \<Longrightarrow> sound att att' ev"
  using typed_exec quiet_pays[OF quiet_exec] by (simp add: sound_def)

lemma typed_execs: "att_execs e cs att = Some (att', ev) \<Longrightarrow> typed att \<Longrightarrow> typed att'"
proof (induction cs arbitrary: att ev)
  case (Cons c cs)
  then obtain a1 ev1 ev2 where "att_exec e c att = Some (a1, ev1)" "att_execs e cs a1 = Some (att', ev2)" by (auto simp: bind_eq_Some_conv)
  then show ?case using Cons.IH typed_exec Cons.prems(2) by blast
qed simp

lemma typed_upcall: "upcall app e x att = Some (att', ev) \<Longrightarrow> typed att \<Longrightarrow> typed att'"
  using typed_execs by (auto simp: upcall_def bind_eq_Some_conv)

lemma typed_respond: "respond app e op opcode pdu att = Some (att', ev) \<Longrightarrow> typed att \<Longrightarrow> typed att'"
  using typed_upcall by (auto simp: respond_def split: if_splits)

lemma typed_fields:
  "typed att \<Longrightarrow> typed (att\<lparr>at_pending_req := None\<rparr>)" "typed att \<Longrightarrow> typed (att\<lparr>at_pending_ind := None\<rparr>)" "typed (att\<lparr>at_in_req := b\<rparr>) = typed att"
  "typed (att\<lparr>at_io := b\<rparr>) = typed att" "typed (write_watch_destroy att) = typed att"
  by (auto simp: typed_def write_watch_destroy_def)

lemma sound_upcall:
  assumes "upcall app e x att = Some (att', ev)" and "responded x = {#}" "destroyed x = {#}" "queued_d x = {#}" "queued_r x = {#}"
  shows "sound att att' ev"
  using upcall_pays[OF assms] typed_upcall[OF assms(1)] by (simp add: sound_def)

lemma sound_timeout:
  assumes "timeout_cb app e n att = Some (att', ev)"
  shows "sound att att' ev"
  unfolding sound_def
proof
  assume t: "typed att"
  have "typed att'"
    using assms typed_upcall typed_fields(1)[OF t] typed_fields(2)[OF t] t
    by (auto simp: timeout_cb_def bind_eq_Some_conv split: if_splits option.splits)
  then show "typed att' \<and> pays {#} {#} att att' ev" using timeout_pays[OF assms] by simp
qed

lemma sound_write:
  assumes "can_write_data app e att = Some (again, att', ev)"
  shows "sound att att' ev"
  unfolding sound_def
proof
  assume t: "typed att"
  have p: "pays {#} {#} att att' ev" by (rule write_pays[OF assms]) (use t in \<open>auto simp: typed_def\<close>)
  obtain x a where pick: "pick_next_send_op att = (x, a)" by fastforce
  have ta: "typed a" using t pick by (auto simp: pick_next_send_op_def typed_def dest: list.set_sel(2) split: if_splits)
  have "typed att'"
  proof (cases x)
    case (Some op)
    show ?thesis
    proof (cases "ae_sent e")
      case False
      then show ?thesis using assms pick Some ta typed_respond by (auto simp: can_write_data_def bind_eq_Some_conv)
    next
      case True
      then show ?thesis using assms pick Some ta by (auto simp: can_write_data_def typed_def split: if_splits)
    qed
  qed (use assms pick ta in \<open>auto simp: can_write_data_def\<close>)
  then show "typed att' \<and> pays {#} {#} att att' ev" using p by simp
qed

lemma sound_writable: "io_writable app e att = Some (att', ev) \<Longrightarrow> sound att att' ev"
proof -
  assume a: "io_writable app e att = Some (att', ev)"
  show ?thesis
  proof (cases "at_writer_active att")
    case True
    then obtain again a1 where w: "can_write_data app e att = Some (again, a1, ev)" "att' = (if again then a1 else write_watch_destroy a1)"
      using a by (auto simp: io_writable_def bind_eq_Some_conv)
    have "toks f (write_watch_destroy a1) = toks f a1" for f :: "att_send_op \<Rightarrow> (ptr \<times> ptr) multiset" by (simp add: write_watch_destroy_def toks_def qtoks_def)
    then show ?thesis using sound_write[OF w(1)] w(2) by (simp add: sound_def pays_def typed_fields)
  qed (use a in \<open>simp add: io_writable_def\<close>)
qed

section \<open>Receiving\<close>

lemma sound_finish:
  assumes f: "finish_request app e opcode pdu op att = Some (att', ev)" and p: "at_pending_req att = Some op"
  shows "sound att att' ev"
proof -
  obtain a1 ev1 op' where r: "respond app e op opcode pdu att = Some (a1, ev1)" "at_pending_req a1 = Some op'" "att' = wakeup_writer e (a1\<lparr>at_pending_req := None\<rparr>)"
    "ev = ev1 @ destroy_att_send_op op'" using f by (auto simp: finish_request_def bind_eq_Some_conv)
  have "pays {#} {#} att (a1\<lparr>at_pending_req := None\<rparr>) ev" using respond_pending_req[OF r(1) p r(2)] r(4) by simp
  then have "pays {#} {#} att att' ev" using r(3) by (simp add: pays_def)
  then show ?thesis using r(3) typed_respond[OF r(1)] typed_fields(1) by (simp add: sound_def)
qed

lemma change_security_same:
  assumes "change_security e ecode att = (b, att')"
  shows "at_pending_req att' = at_pending_req att" "toks f att' = toks f att" "typed att' = typed att" "at_in_req att' = at_in_req att"
    "at_notify_list att' = at_notify_list att" "at_io att' = at_io att" "at_writer_active att' = at_writer_active att"
    "at_req_queue att' = at_req_queue att" "at_ind_queue att' = at_ind_queue att" "at_write_queue att' = at_write_queue att" "at_pending_ind att' = at_pending_ind att"
proof -
  have "\<exists>l. att' = att\<lparr>at_io_sec_level := l\<rparr>"
    using assms by (auto simp: change_security_def Let_def bt_att_set_security_def split: if_splits) (metis bt_att.surjective bt_att.update_convs(4))+
  then obtain l where "att' = att\<lparr>at_io_sec_level := l\<rparr>" by blast
  then show "at_pending_req att' = at_pending_req att" "toks f att' = toks f att" "typed att' = typed att" "at_in_req att' = at_in_req att"
    "at_notify_list att' = at_notify_list att" "at_io att' = at_io att" "at_writer_active att' = at_writer_active att"
    "at_req_queue att' = at_req_queue att" "at_ind_queue att' = at_ind_queue att" "at_write_queue att' = at_write_queue att" "at_pending_ind att' = at_pending_ind att"
    by (simp_all add: toks_def qtoks_def typed_def)
qed
lemma sound_error_rsp:
  assumes h: "handle_error_rsp e op pdu att = (b, n, att', ev)" and p: "at_pending_req att = Some op"
  shows "sound att att' ev" "\<not> b \<Longrightarrow> at_pending_req att' = Some op"
proof -
  obtain c a where c: "change_security e (pdu ! 3) att = (c, a)" by fastforce
  note s = change_security_same[OF c]
  have "toks f (a\<lparr>at_pending_req := None, at_req_queue := op\<lparr>so_timeout_id := 0\<rparr> # at_req_queue a\<rparr>) = toks f att" if "f (op\<lparr>so_timeout_id := 0\<rparr>) = f op"
    for f :: "att_send_op \<Rightarrow> (ptr \<times> ptr) multiset"
    using s(1) s(2)[of f] p that by (simp add: toks_def qtoks_def ac_simps)
  then have t: "toks dtok (a\<lparr>at_pending_req := None, at_req_queue := op\<lparr>so_timeout_id := 0\<rparr> # at_req_queue a\<rparr>) = toks dtok att"
    "toks rtok (a\<lparr>at_pending_req := None, at_req_queue := op\<lparr>so_timeout_id := 0\<rparr> # at_req_queue a\<rparr>) = toks rtok att"
    by (simp_all add: dtok_def rtok_def)
  have ty: "typed att \<Longrightarrow> typed (a\<lparr>at_pending_req := None, at_req_queue := op\<lparr>so_timeout_id := 0\<rparr> # at_req_queue a\<rparr>)"
    using s p by (auto simp: typed_def)
  show "sound att att' ev"
  proof (cases "length pdu = 4 \<and> c")
    case True
    then have "att' = a\<lparr>at_pending_req := None, at_req_queue := op\<lparr>so_timeout_id := 0\<rparr> # at_req_queue a\<rparr>"
      "ev = (if so_timeout_id op \<noteq> 0 then [Timer_removed (so_timeout_id op)] else [])" using h c by (simp_all add: handle_error_rsp_def)
    then show ?thesis using t ty unfolding sound_def pays_def by simp
  next
    case False
    then have "att' = att \<or> att' = a" "ev = []" using h c by (auto simp: handle_error_rsp_def split: if_splits)
    then show ?thesis using s(2,3) by (auto simp: sound_def pays_def)
  qed
  show "\<not> b \<Longrightarrow> at_pending_req att' = Some op" using h c s(1) p by (cases c) (auto simp: handle_error_rsp_def split: if_splits)
qed

lemma sound_wakeup [simp]: "sound att (wakeup_writer e att') ev = sound att att' ev"
  by (simp add: sound_def pays_def)

lemma sound_shutdown [simp]: "sound att att [Shutdown]"
  by (simp add: sound_def pays_def)

lemma sound_handle_rsp:
  assumes h: "handle_rsp app e opcode pdu att = Some (att', ev)"
  shows "sound att att' ev"
proof (cases "at_pending_req att")
  case (Some op)
  show ?thesis
  proof (cases "opcode = BT_ATT_OP_ERROR_RSP")
    case True
    obtain b n a ev1 where he: "handle_error_rsp e op pdu att = (b, n, a, ev1)" by (metis prod_cases4)
    note s = sound_error_rsp[OF he Some]
    show ?thesis
    proof (cases b)
      case True
      then show ?thesis using h Some \<open>opcode = _\<close> he s by (auto simp: handle_rsp_def)
    next
      case False
      then obtain o' p' ev2 where f: "finish_request app e o' p' op a = Some (att', ev2)" "ev = ev1 @ ev2"
        using h Some \<open>opcode = _\<close> he by (auto simp: handle_rsp_def bind_eq_Some_conv split: if_splits)
      show ?thesis using sound_trans[OF s(1) sound_finish[OF f(1) s(2)]] False f(2) by simp
    qed
  next
    case False
    then obtain o' p' where "finish_request app e o' p' op att = Some (att', ev)" using h Some by (auto simp: handle_rsp_def split: if_splits)
    then show ?thesis using sound_finish Some by blast
  qed
qed (use h in \<open>auto simp: handle_rsp_def\<close>)

lemma sound_handle_conf:
  assumes h: "handle_conf app e pdu att = Some (att', ev)"
  shows "sound att att' ev"
proof (cases "at_pending_ind att = None \<or> pdu \<noteq> []")
  case True
  then show ?thesis using h by (auto simp: handle_conf_def split: option.splits)
next
  case False
  then obtain op where p: "at_pending_ind att = Some op" by auto
  obtain a1 ev1 op' where r: "respond app e op BT_ATT_OP_HANDLE_VAL_CONF [] att = Some (a1, ev1)" "at_pending_ind a1 = Some op'"
    "att' = wakeup_writer e (a1\<lparr>at_pending_ind := None\<rparr>)" "ev = ev1 @ destroy_att_send_op op'"
    using h False p by (auto simp: handle_conf_def bind_eq_Some_conv)
  have "pays {#} {#} att (a1\<lparr>at_pending_ind := None\<rparr>) ev" using respond_pending_ind[OF r(1) p r(2)] r(4) by simp
  then have "pays {#} {#} att att' ev" using r(3) by (simp add: pays_def)
  then show ?thesis using r(3) typed_respond[OF r(1)] typed_fields(2) by (simp add: sound_def)
qed

lemma sound_send: "bt_att_send e att opcode pdu len cb ud d = Some (n, att', ev) \<Longrightarrow> sound att att' ev"
  using sound_exec[of e "Send opcode pdu len cb ud d" att att' ev] by simp

lemma sound_not_supported: "respond_not_supported e opcode att = Some (att', ev) \<Longrightarrow> sound att att' ev"
  using sound_send by (auto simp: respond_not_supported_def bind_eq_Some_conv)

text \<open>A relation between states that the callbacks keep is kept by the loop over the handlers.\<close>

lemma notify_loop_rel:
  assumes refl: "\<And>a. Q a a []" and trans: "\<And>a b c ev ev'. Q a b ev \<Longrightarrow> Q b c ev' \<Longrightarrow> Q a c (ev @ ev')"
    and up: "\<And>cb ud a a' ev. upcall app e (Received cb opcode pdu ud) a = Some (a', ev) \<Longrightarrow> Q a a' ev"
    and run: "notify_loop app e opcode pdu cur found att = Some (b, att', ev)"
  shows "Q att att' ev"
proof -
  have "notify_loop app' e' opcode' pdu' cur found att = Some y \<Longrightarrow> (app', e', opcode', pdu') = (app, e, opcode, pdu) \<longrightarrow> Q att (fst (snd y)) (snd (snd y))"
    for app' e' opcode' pdu' y
  proof (erule notify_loop.raw_induct[rotated])
    fix rec app' e' opcode' pdu' cur found att y
    assume IH: "\<And>app' e' opcode' pdu' cur found att y. rec app' e' opcode' pdu' cur found att = Some y \<Longrightarrow>
          (app', e', opcode', pdu') = (app, e, opcode, pdu) \<longrightarrow> Q att (fst (snd y)) (snd (snd y))"
      and r: "(case cur of
        None \<Rightarrow> Some (found, att, [])
      | Some n \<Rightarrow>
          do { (x, nxt) \<leftarrow> entry_after n (at_notify_list att);
               if \<not> opcode_match (ucast (no_opcode x)) opcode' then rec app' e' opcode' pdu' nxt found att
               else do {
                 (att, ev) \<leftarrow> (if no_callback x \<noteq> 0 then upcall app' e' (Received (no_callback x) opcode' pdu' (no_user_data x)) att else Some (att, []));
                 if at_notify_list att = [] then Some (True, att, ev)
                 else do { (found, att, ev') \<leftarrow> rec app' e' opcode' pdu' nxt True att; Some (found, att, ev @ ev') } } }) = Some y"
    show "(app', e', opcode', pdu') = (app, e, opcode, pdu) \<longrightarrow> Q att (fst (snd y)) (snd (snd y))"
    proof
      assume same: "(app', e', opcode', pdu') = (app, e, opcode, pdu)"
      show "Q att (fst (snd y)) (snd (snd y))"
      proof (cases cur)
        case (Some n)
        obtain x nxt where x: "entry_after n (at_notify_list att) = Some (x, nxt)" using r Some by (auto simp: bind_eq_Some_conv)
        show ?thesis
        proof (cases "opcode_match (ucast (no_opcode x)) opcode")
          case True
          obtain a ev where u: "(if no_callback x \<noteq> 0 then upcall app e (Received (no_callback x) opcode pdu (no_user_data x)) att else Some (att, [])) = Some (a, ev)"
            using r Some x True same by (auto simp: bind_eq_Some_conv)
          have s: "Q att a ev" using u up refl by (auto split: if_splits)
          show ?thesis
          proof (cases "at_notify_list a = []")
            case False
            obtain f' a' ev' where rec: "rec app e opcode pdu nxt True a = Some (f', a', ev')" "y = (f', a', ev @ ev')"
              using r Some x True u same False by (auto simp: bind_eq_Some_conv)
            show ?thesis using trans[OF s] IH[OF rec(1)] rec(2) by simp
          qed (use r Some x True u s same in auto)
        next
          case False
          then show ?thesis using r Some x IH same by simp
        qed
      qed (use r refl in auto)
    qed
  qed
  then show ?thesis using run by fastforce
qed

lemma sound_notify_loop: "notify_loop app e opcode pdu cur found att = Some (b, att', ev) \<Longrightarrow> sound att att' ev"
  by (erule notify_loop_rel[rotated 3]) (auto intro: sound_trans sound_upcall)

lemma sound_handle_notify:
  assumes "att_handle_notify app e opcode pdu att = Some (att', ev)"
  shows "sound att att' ev"
proof -
  obtain ok where ok: "(if opcode AND ATT_OP_SIGNED_MASK \<noteq> 0 \<and> \<not> at_crypto att then handle_signed e pdu att else Some True) = Some ok"
    using assms by (auto simp: att_handle_notify_def bind_eq_Some_conv)
  show ?thesis
  proof (cases ok)
    case True
    obtain p cur found a ev1 ev2 where l: "notify_loop app e opcode p cur False att = Some (found, a, ev1)" "ev = ev1 @ ev2"
      and n: "(if \<not> found \<and> get_op_type opcode \<noteq> ATT_OP_TYPE_CMD then respond_not_supported e opcode a else Some (a, [])) = Some (att', ev2)"
      using assms ok True unfolding att_handle_notify_def Let_def by (auto simp: bind_eq_Some_conv simp del: split_paired_Ex)
    have "sound a att' ev2" using n sound_not_supported by (auto split: if_splits)
    then show ?thesis using sound_trans[OF sound_notify_loop[OF l(1)]] l(2) by simp
  next
    case False
    then have "att' = att" "ev = []" using assms ok by (simp_all add: att_handle_notify_def)
    then show ?thesis by simp
  qed
qed

lemma sound_in_req: "sound (att\<lparr>at_in_req := b\<rparr>) att' ev \<Longrightarrow> sound att att' ev"
  by (simp add: sound_def typed_fields pays_def toks_def qtoks_def)

lemma channel_read_cases:
  assumes "can_read_data app e input att = Some (ok, att', ev)"
  obtains (idle) "att' = att" "ev = []" "\<forall>b. input = Some b \<longrightarrow> take (unat (at_mtu att)) b = []"
  | (rsp) b opcode pdu where "input = Some b" "take (unat (at_mtu att)) b = opcode # pdu" "get_op_type opcode = ATT_OP_TYPE_RSP" "handle_rsp app e opcode pdu att = Some (att', ev)"
  | (conf) b opcode pdu where "input = Some b" "take (unat (at_mtu att)) b = opcode # pdu" "get_op_type opcode = ATT_OP_TYPE_CONF" "handle_conf app e pdu att = Some (att', ev)"
  | (twice) b opcode pdu where "input = Some b" "take (unat (at_mtu att)) b = opcode # pdu" "get_op_type opcode = ATT_OP_TYPE_REQ" "at_in_req att" "att' = att" "ev = [Shutdown]" "\<not> ok"
  | (req) b opcode pdu where "input = Some b" "take (unat (at_mtu att)) b = opcode # pdu" "get_op_type opcode = ATT_OP_TYPE_REQ" "\<not> at_in_req att"
      "att_handle_notify app e opcode pdu (att\<lparr>at_in_req := True\<rparr>) = Some (att', ev)"
  | (other) b opcode pdu where "input = Some b" "take (unat (at_mtu att)) b = opcode # pdu"
      "get_op_type opcode \<notin> {ATT_OP_TYPE_RSP, ATT_OP_TYPE_CONF, ATT_OP_TYPE_REQ}" "att_handle_notify app e opcode pdu att = Some (att', ev)"
proof (cases input)
  case None
  then show ?thesis using idle assms by (simp add: can_read_data_def)
next
  case (Some b)
  show ?thesis
  proof (cases "take (unat (at_mtu att)) b")
    case Nil
    then show ?thesis using idle Some assms[unfolded can_read_data_def Some option.case Nil list.case] by simp
  next
    case (Cons opcode pdu)
    note r = assms[unfolded can_read_data_def Some option.case Cons list.case]
    show ?thesis
    proof (cases "get_op_type opcode")
      case ATT_OP_TYPE_RSP
      then show ?thesis using r rsp[OF Some Cons] by (auto simp: bind_eq_Some_conv)
    next
      case ATT_OP_TYPE_CONF
      then show ?thesis using r conf[OF Some Cons] by (auto simp: bind_eq_Some_conv)
    next
      case ATT_OP_TYPE_REQ
      then show ?thesis using r twice[OF Some Cons] req[OF Some Cons] by (auto simp: bind_eq_Some_conv split: if_splits)
    qed (use r other[OF Some Cons] in \<open>auto simp: bind_eq_Some_conv\<close>)
  qed
qed

lemma sound_read:
  assumes "can_read_data app e input att = Some (ok, att', ev)"
  shows "sound att att' ev"
  using assms
proof (cases rule: channel_read_cases)
  case (req b opcode pdu)
  then show ?thesis using sound_handle_notify sound_in_req by blast
qed (use sound_handle_rsp sound_handle_conf sound_handle_notify in auto)
section \<open>The end of the connection\<close>

lemma sound_disc:
  assumes "disc_att_send_op app e op att = Some (att', ev)"
  shows "pays (dtok op) (rtok op) att att' ev" "typed att \<Longrightarrow> typed att'"
  using assms respond_pays typed_respond by (auto simp: disc_att_send_op_def bind_eq_Some_conv)

lemma sound_disc_all:
  assumes "disc_all app e q att = Some (att', ev)"
  shows "pays (sum_list (map dtok q)) (sum_list (map rtok q)) att att' ev \<and> (typed att \<longrightarrow> typed att')"
  using assms
proof (induction q arbitrary: att ev)
  case (Cons op q)
  obtain a ev1 ev2 where d: "disc_att_send_op app e op att = Some (a, ev1)" "disc_all app e q a = Some (att', ev2)" "ev = ev1 @ ev2"
    using Cons.prems by (auto simp: bind_eq_Some_conv)
  show ?case using pays_trans[OF sound_disc(1)[OF d(1)]] Cons.IH[OF d(2)] sound_disc(2)[OF d(1)] d(3) by simp
qed simp

lemma disc_pending_req_cases:
  assumes "disc_pending_req app e att = Some (att', ev)"
  obtains (none) "at_pending_req att = None" "att' = att" "ev = []"
  | (some) op a ev1 op' where "at_pending_req att = Some op" "respond app e op BT_ATT_OP_ERROR_RSP [] att = Some (a, ev1)" "at_pending_req a = Some op'"
      "att' = a\<lparr>at_pending_req := None\<rparr>" "ev = ev1 @ destroy_att_send_op op'"
  using assms by (cases "at_pending_req att") (auto simp: disc_pending_req_def bind_eq_Some_conv)

lemma disc_pending_ind_cases:
  assumes "disc_pending_ind app e att = Some (att', ev)"
  obtains (none) "at_pending_ind att = None" "att' = att" "ev = []"
  | (some) op a ev1 op' where "at_pending_ind att = Some op" "respond app e op BT_ATT_OP_ERROR_RSP [] att = Some (a, ev1)" "at_pending_ind a = Some op'"
      "att' = a\<lparr>at_pending_ind := None\<rparr>" "ev = ev1 @ destroy_att_send_op op'"
  using assms by (cases "at_pending_ind att") (auto simp: disc_pending_ind_def bind_eq_Some_conv)

lemma sound_disc_pending_req: "disc_pending_req app e att = Some (att', ev) \<Longrightarrow> sound att att' ev"
  by (erule disc_pending_req_cases) (auto simp: sound_def dest: respond_pending_req typed_respond intro: typed_fields(1))

lemma sound_disc_pending_ind: "disc_pending_ind app e att = Some (att', ev) \<Longrightarrow> sound att att' ev"
  by (erule disc_pending_ind_cases) (auto simp: sound_def dest: respond_pending_ind typed_respond intro: typed_fields(2))

lemma sound_disconn_loop: "disconn_loop app e err ns att = Some (att', ev) \<Longrightarrow> sound att att' ev"
proof (induction ns arbitrary: att ev)
  case (Cons n ns)
  show ?case
  proof (cases "at_disconn_list att = []")
    case False
    obtain d where d: "find (match_disconn_id n) (at_disconn_list att) = Some d" using Cons.prems False by (auto simp: bind_eq_Some_conv)
    obtain a ev1 ev2 where l: "(if di_removed d \<or> di_callback d = 0 then Some (att, [])
                       else upcall app e (Disconnected (di_callback d) err (di_user_data d)) att) = Some (a, ev1)"
      "disconn_loop app e err ns a = Some (att', ev2)" "ev = ev1 @ ev2"
      using Cons.prems False d by (auto simp: bind_eq_Some_conv)
    have "sound att a ev1" using l(1) by (auto intro: sound_upcall split: if_splits)
    then show ?thesis using sound_trans Cons.IH[OF l(2)] l(3) by blast
  qed (use Cons.prems in auto)
qed simp

text \<open>With the socket gone, the application can only take operations away.\<close>

definition closing :: "bt_att \<Rightarrow> bt_att \<Rightarrow> bool" where
  "closing att att' = (\<not> at_io att' \<and> set (at_req_queue att') \<subseteq> set (at_req_queue att) \<and> set (at_ind_queue att') \<subseteq> set (at_ind_queue att) \<and>
     set (at_write_queue att') \<subseteq> set (at_write_queue att) \<and> kept (at_pending_req att) (at_pending_req att') \<and> kept (at_pending_ind att) (at_pending_ind att') \<and>
     (at_disconn_list att' = [] \<or> map di_id (at_disconn_list att') = map di_id (at_disconn_list att)))"

lemma closing_trans: "closing a b \<Longrightarrow> closing b c \<Longrightarrow> closing a c"
  using kept_trans unfolding closing_def by (auto 0 3)

lemma mark_removed_ids [simp]: "map di_id (mark_removed n ds) = map di_id ds"
  by (induction ds) simp_all

lemma closing_exec:
  assumes "\<not> at_io att"
  obtains att' ev where "att_exec e c att = Some (att', ev)" "closing att att'"
proof -
  have "\<exists>att' ev. att_exec e c att = Some (att', ev) \<and> closing att att'"
  proof (cases c)
    case (Cancel n)
    obtain b a ev where x: "bt_att_cancel e att n = (b, a, ev)" by (metis prod_cases3)
    have "\<not> at_io a" "at_disconn_list a = at_disconn_list att"
      using x assms by (simp_all add: bt_att_cancel_def Let_def cancel_att_send_op_def split: if_splits option.splits) auto
    then show ?thesis using cancel_restrict[OF x] x Cancel by (simp add: closing_def kept_def)
  qed (use assms in \<open>auto simp: closing_def bt_att_send_def bt_att_cancel_all_def cancel_pending_def cancel_att_send_op_def kept_def cancelled_def bt_att_register_def bt_att_unregister_def bt_att_unregister_all_def
    bt_att_register_disconnect_def bt_att_unregister_disconnect_def bt_att_set_mtu_def bt_att_set_security_def bt_att_set_enc_key_size_def bt_att_set_timeout_cb_def
    bt_att_set_local_key_def bt_att_set_remote_key_def Let_def split: option.splits\<close>)
  then show ?thesis using that by blast
qed

lemma closing_refl: "\<not> at_io att \<Longrightarrow> closing att att"
  by (simp add: closing_def)

lemma closing_execs: "\<not> at_io att \<Longrightarrow> \<exists>att' ev. att_execs e cs att = Some (att', ev) \<and> closing att att'"
proof (induction cs arbitrary: att)
  case (Cons c cs)
  obtain a ev1 where x: "att_exec e c att = Some (a, ev1)" "closing att a" by (rule closing_exec[OF Cons.prems])
  moreover have "\<not> at_io a" using x by (simp add: closing_def)
  ultimately show ?case using Cons.IH[of a] closing_trans by (auto simp: bind_eq_Some_conv)
qed (simp add: closing_refl)

lemma closing_upcall: "\<not> at_io att \<Longrightarrow> \<exists>att' ev. upcall app e x att = Some (att', ev) \<and> closing att att'"
  using closing_execs[of att e "app x"] by (auto simp: upcall_def)

lemma closing_respond: "\<not> at_io att \<Longrightarrow> \<exists>att' ev. respond app e op opcode pdu att = Some (att', ev) \<and> closing att att'"
  using closing_upcall closing_refl by (simp add: respond_def)

lemma closing_disc_all: "\<not> at_io att \<Longrightarrow> \<exists>att' ev. disc_all app e q att = Some (att', ev) \<and> closing att att'"
proof (induction q arbitrary: att)
  case (Cons op q)
  obtain a ev where r: "respond app e op BT_ATT_OP_ERROR_RSP [] att = Some (a, ev)" "closing att a" using closing_respond[OF Cons.prems] by blast
  moreover have "\<not> at_io a" using r by (simp add: closing_def)
  ultimately show ?case using Cons.IH[of a] closing_trans by (auto simp: disc_att_send_op_def)
qed (simp add: closing_refl)

lemma closing_disconn_loop:
  "\<not> at_io att \<Longrightarrow> at_disconn_list att = [] \<or> set ns \<subseteq> di_id ` set (at_disconn_list att) \<Longrightarrow>
    \<exists>att' ev. disconn_loop app e err ns att = Some (att', ev) \<and> closing att att'"
proof (induction ns arbitrary: att)
  case (Cons n ns)
  show ?case
  proof (cases "at_disconn_list att = []")
    case False
    then have "n \<in> di_id ` set (at_disconn_list att)" using Cons.prems by simp
    then obtain d where d: "find (match_disconn_id n) (at_disconn_list att) = Some d"
      by (cases "find (match_disconn_id n) (at_disconn_list att)") (auto simp: find_None_iff match_disconn_id_def)
    obtain a ev1 where u: "(if di_removed d \<or> di_callback d = 0 then Some (att, [])
                       else upcall app e (Disconnected (di_callback d) err (di_user_data d)) att) = Some (a, ev1)" "closing att a"
    proof (cases "di_removed d \<or> di_callback d = 0")
      case False
      then show ?thesis using that closing_upcall[OF Cons.prems(1), of app e "Disconnected (di_callback d) err (di_user_data d)"] by auto
    qed (use that[of att "[]"] closing_refl[OF Cons.prems(1)] in simp)
    have "\<not> at_io a" "at_disconn_list a = [] \<or> map di_id (at_disconn_list a) = map di_id (at_disconn_list att)" using u(2) by (simp_all add: closing_def)
    then have "\<not> at_io a" "at_disconn_list a = [] \<or> set ns \<subseteq> di_id ` set (at_disconn_list a)"
      using Cons.prems(2) False by (auto simp flip: set_map)
    then obtain a' ev2 where "disconn_loop app e err ns a = Some (a', ev2)" "closing a a'" using Cons.IH by blast
    then show ?thesis using False d u closing_trans by auto
  qed (use Cons.prems closing_refl in simp)
qed (simp add: closing_refl)
lemma closing_pending_req:
  assumes "\<not> at_io att"
  obtains att' ev where "disc_pending_req app e att = Some (att', ev)" "at_pending_req att' = None" "\<not> at_io att'"
    "set (at_req_queue att') \<subseteq> set (at_req_queue att)" "set (at_ind_queue att') \<subseteq> set (at_ind_queue att)" "set (at_write_queue att') \<subseteq> set (at_write_queue att)"
proof (cases "at_pending_req att")
  case (Some op)
  obtain a ev where r: "respond app e op BT_ATT_OP_ERROR_RSP [] att = Some (a, ev)" "closing att a" using closing_respond[OF assms] by blast
  moreover obtain op' where "at_pending_req a = Some op'" using r(2) Some kept_Some by (fastforce simp: closing_def)
  ultimately show ?thesis using that[of "a\<lparr>at_pending_req := None\<rparr>"] Some by (simp add: disc_pending_req_def closing_def)
qed (use that[of att "[]"] assms in \<open>simp add: disc_pending_req_def\<close>)

lemma closing_pending_ind:
  assumes "\<not> at_io att" "at_pending_req att = None"
  obtains att' ev where "disc_pending_ind app e att = Some (att', ev)" "at_pending_req att' = None" "at_pending_ind att' = None" "\<not> at_io att'"
    "set (at_req_queue att') \<subseteq> set (at_req_queue att)" "set (at_ind_queue att') \<subseteq> set (at_ind_queue att)" "set (at_write_queue att') \<subseteq> set (at_write_queue att)"
proof (cases "at_pending_ind att")
  case (Some op)
  obtain a ev where r: "respond app e op BT_ATT_OP_ERROR_RSP [] att = Some (a, ev)" "closing att a" using closing_respond[OF assms(1)] by blast
  moreover obtain op' where "at_pending_ind a = Some op'" using r(2) Some kept_Some by (fastforce simp: closing_def)
  ultimately show ?thesis using that[of "a\<lparr>at_pending_ind := None\<rparr>"] Some assms(2) by (simp add: disc_pending_ind_def closing_def)
qed (use that[of att "[]"] assms in \<open>simp add: disc_pending_ind_def\<close>)

definition emptied :: "bt_att \<Rightarrow> bool" where
  "emptied att = (\<not> at_io att \<and> at_req_queue att = [] \<and> at_ind_queue att = [] \<and> at_write_queue att = [] \<and> at_pending_req att = None \<and>
     at_pending_ind att = None \<and> at_notify_list att = [] \<and> at_disconn_list att = [])"

lemma toks_emptied: "emptied att \<Longrightarrow> toks f att = {#}"
  by (simp add: emptied_def toks_def qtoks_def)

lemma sound_queues:
  assumes "disc_all app e (at_req_queue a) (a\<lparr>at_req_queue := []\<rparr>) = Some (b, ev)"
  shows "sound a b ev"
proof -
  have "toks f a = sum_list (map f (at_req_queue a)) + toks f (a\<lparr>at_req_queue := []\<rparr>)" for f :: "att_send_op \<Rightarrow> (ptr \<times> ptr) multiset"
    by (simp add: toks_def qtoks_def ac_simps)
  moreover have "typed a \<Longrightarrow> typed (a\<lparr>at_req_queue := []\<rparr>)" by (simp add: typed_def)
  ultimately show ?thesis using sound_disc_all[OF assms] by (simp add: sound_def pays_def)
qed

lemma sound_queues_ind:
  assumes "disc_all app e (at_ind_queue a) (a\<lparr>at_ind_queue := []\<rparr>) = Some (b, ev)"
  shows "sound a b ev"
proof -
  have "toks f a = sum_list (map f (at_ind_queue a)) + toks f (a\<lparr>at_ind_queue := []\<rparr>)" for f :: "att_send_op \<Rightarrow> (ptr \<times> ptr) multiset"
    by (simp add: toks_def qtoks_def ac_simps)
  moreover have "typed a \<Longrightarrow> typed (a\<lparr>at_ind_queue := []\<rparr>)" by (simp add: typed_def)
  ultimately show ?thesis using sound_disc_all[OF assms] by (simp add: sound_def pays_def)
qed

lemma sound_queues_write:
  assumes "disc_all app e (at_write_queue a) (a\<lparr>at_write_queue := []\<rparr>) = Some (b, ev)"
  shows "sound a b ev"
proof -
  have "toks f a = sum_list (map f (at_write_queue a)) + toks f (a\<lparr>at_write_queue := []\<rparr>)" for f :: "att_send_op \<Rightarrow> (ptr \<times> ptr) multiset"
    by (simp add: toks_def qtoks_def ac_simps)
  moreover have "typed a \<Longrightarrow> typed (a\<lparr>at_write_queue := []\<rparr>)" by (simp add: typed_def)
  ultimately show ?thesis using sound_disc_all[OF assms] by (simp add: sound_def pays_def)
qed

text \<open>The end of the connection always runs through, empties the channel and pays every debt.\<close>

lemma disconnect_steps:
  obtains att' ev where "disconnect_cb app e err att = Some (att', ev)" "emptied att'" "sound att att' ev"
proof -
  define a0 where "a0 = (if at_writer_active att then write_watch_destroy att else att)\<lparr>at_io := False\<rparr>"
  have s0: "sound att a0 []" by (simp add: a0_def sound_def pays_def toks_def qtoks_def typed_def write_watch_destroy_def)
  have io0: "\<not> at_io a0" by (simp add: a0_def)
  obtain a1 ev1 where 1: "disc_all app e (at_req_queue a0) (a0\<lparr>at_req_queue := []\<rparr>) = Some (a1, ev1)" "closing (a0\<lparr>at_req_queue := []\<rparr>) a1"
    using closing_disc_all[of "a0\<lparr>at_req_queue := []\<rparr>" app e "at_req_queue a0"] io0 by auto
  obtain a2 ev2 where 2: "disc_all app e (at_ind_queue a1) (a1\<lparr>at_ind_queue := []\<rparr>) = Some (a2, ev2)" "closing (a1\<lparr>at_ind_queue := []\<rparr>) a2"
    using closing_disc_all[of "a1\<lparr>at_ind_queue := []\<rparr>" app e "at_ind_queue a1"] 1(2) by (auto simp: closing_def)
  obtain a3 ev3 where 3: "disc_all app e (at_write_queue a2) (a2\<lparr>at_write_queue := []\<rparr>) = Some (a3, ev3)" "closing (a2\<lparr>at_write_queue := []\<rparr>) a3"
    using closing_disc_all[of "a2\<lparr>at_write_queue := []\<rparr>" app e "at_write_queue a2"] 2(2) by (auto simp: closing_def)
  have q3: "at_req_queue a3 = []" "at_ind_queue a3 = []" "at_write_queue a3 = []" "\<not> at_io a3" using 1(2) 2(2) 3(2) by (auto simp: closing_def)
  obtain a4 ev4 where 4: "disc_pending_req app e a3 = Some (a4, ev4)" "at_pending_req a4 = None" "\<not> at_io a4" "at_req_queue a4 = []" "at_ind_queue a4 = []" "at_write_queue a4 = []"
    by (rule closing_pending_req[OF q3(4)]) (use q3 in auto)
  obtain a5 ev5 where 5: "disc_pending_ind app e a4 = Some (a5, ev5)" "at_pending_req a5 = None" "at_pending_ind a5 = None" "\<not> at_io a5" "at_req_queue a5 = []" "at_ind_queue a5 = []"
    "at_write_queue a5 = []"
    by (rule closing_pending_ind[OF 4(3,2)]) (use 4 in auto)
  obtain a6 ev6 where 6: "disconn_loop app e err (map di_id (at_disconn_list a5)) a5 = Some (a6, ev6)" "closing a5 a6"
    using closing_disconn_loop[OF 5(4), of "map di_id (at_disconn_list a5)" app e err] by auto
  obtain a7 ev7 where 7: "bt_att_unregister_all a6 = (a7, ev7)" by fastforce
  have "disconnect_cb app e err att = Some (a7, ev1 @ ev2 @ ev3 @ ev4 @ ev5 @ ev6 @ ev7)"
    unfolding disconnect_cb_def Let_def a0_def[symmetric] using 1 2 3 4 5 6 7 by simp
  moreover have "emptied a7" using 5 6(2) 7 by (auto simp: closing_def emptied_def bt_att_unregister_all_def)
  moreover have "sound a6 a7 ev7" using sound_exec[of e Unregister_all a6 a7 ev7] 7 by simp
  then have "sound att a7 (ev1 @ ev2 @ ev3 @ ev4 @ ev5 @ ev6 @ ev7)"
    by (rule sound_trans[OF s0, simplified, OF sound_trans[OF sound_queues[OF 1(1)] sound_trans[OF sound_queues_ind[OF 2(1)] sound_trans[OF sound_queues_write[OF 3(1)]
      sound_trans[OF sound_disc_pending_req[OF 4(1)] sound_trans[OF sound_disc_pending_ind[OF 5(1)] sound_trans[OF sound_disconn_loop[OF 6(1)]]]]]]]])
  ultimately show ?thesis by (rule that)
qed

section \<open>Runs\<close>

text \<open>What the main loop hands the channel: a call of the application, data, room for data, a timer, the end of the connection.\<close>

datatype att_input = Call att_call | Readable "u8 list option" | Writable | Timer u32 | Hangup int

fun att_step :: "app \<Rightarrow> att_env \<Rightarrow> att_input \<Rightarrow> bt_att \<Rightarrow> (bt_att \<times> att_event list) option" where
  "att_step app e (Call c) att = att_exec e c att"
| "att_step app e (Readable b) att = (if at_io att then do { (_, att, ev) \<leftarrow> can_read_data app e b att; Some (att, ev) } else Some (att, []))"
| "att_step app e Writable att = (if at_io att then io_writable app e att else Some (att, []))"
| "att_step app e (Timer n) att = timeout_cb app e n att"
| "att_step app e (Hangup err) att = (if at_io att then disconnect_cb app e err att else Some (att, []))"

text \<open>
  The states a new channel can reach, with the events on the way. The application's callbacks and the environment may differ from step to step;
  \<open>P\<close> restricts the steps.
\<close>

inductive att_run :: "(att_env \<Rightarrow> att_input \<Rightarrow> bool) \<Rightarrow> bt_att \<Rightarrow> att_event list \<Rightarrow> bool" for P where
  start: "bt_att_new e ext_signed l2cap bredr crypto = Some att \<Longrightarrow> att_run P att []"
| step: "att_run P att ev \<Longrightarrow> P e i \<Longrightarrow> att_step app e i att = Some (att', ev') \<Longrightarrow> att_run P att' (ev @ ev')"

lemma sound_step:
  assumes "att_step app e i att = Some (att', ev)"
  shows "sound att att' ev"
proof (cases i)
  case (Readable b)
  then show ?thesis using assms sound_read by (auto simp: bind_eq_Some_conv split: if_splits)
next
  case (Hangup err)
  then show ?thesis using assms disconnect_steps[of app e err att] by (fastforce split: if_splits)
qed (use assms sound_exec sound_writable sound_timeout in \<open>auto split: if_splits\<close>)

lemma new_emptied: "bt_att_new e ext_signed l2cap bredr crypto = Some att \<Longrightarrow> typed att \<and> toks f att = {#}"
  by (auto simp: bt_att_new_def typed_def toks_def qtoks_def Let_def split: if_splits)

lemma run_sound: "att_run P att ev \<Longrightarrow> typed att \<and> total destroyed ev + toks dtok att = total queued_d ev \<and> total responded ev + toks rtok att \<subseteq># total queued_r ev"
proof (induction rule: att_run.induct)
  case (start e ext_signed l2cap bredr crypto att)
  then show ?case using new_emptied[OF start, of dtok] new_emptied[OF start, of rtok] by simp
next
  case (step att ev e i app att' ev')
  then have s: "typed att'" "pays {#} {#} att att' ev'" using sound_step unfolding sound_def by blast+
  then have d: "toks dtok att' + total destroyed ev' = toks dtok att + total queued_d ev'"
    and r: "toks rtok att' + total responded ev' \<subseteq># toks rtok att + total queued_r ev'" by (simp_all add: pays_def)
  have "total destroyed (ev @ ev') + toks dtok att' = total destroyed ev + (toks dtok att' + total destroyed ev')" by (simp add: ac_simps)
  also have "\<dots> = total queued_d (ev @ ev')" using step.IH d by (simp add: ac_simps flip: add.assoc)
  finally have 1: "total destroyed (ev @ ev') + toks dtok att' = total queued_d (ev @ ev')" .
  have "total responded (ev @ ev') + toks rtok att' = total responded ev + (toks rtok att' + total responded ev')" by (simp add: ac_simps)
  also have "\<dots> \<subseteq># total responded ev + (toks rtok att + total queued_r ev')" using r by simp
  also have "\<dots> = (total responded ev + toks rtok att) + total queued_r ev'" by (simp add: ac_simps)
  also have "\<dots> \<subseteq># total queued_r ev + total queued_r ev'" using step.IH by simp
  finally show ?case using 1 s(1) by simp
qed

end
