(* ===== verification/AttProps.thy ===== *)
theory AttProps
  imports AttInv
begin

text \<open>
  Properties of the ATT channel: what it owes the application, that no PDU is left behind, the one request at a time a client may make.
\<close>

section \<open>The writer is awake\<close>

definition sendable :: "bt_att \<Rightarrow> bool" where
  "sendable att = (at_write_queue att \<noteq> [] \<or> at_pending_req att = None \<and> at_req_queue att \<noteq> [] \<or> at_pending_ind att = None \<and> at_ind_queue att \<noteq> [])"

definition awake :: "bt_att \<Rightarrow> bool" where
  "awake att = (at_io att \<and> sendable att \<longrightarrow> at_writer_active att)"

lemma awake_wakeup: "ae_watch e \<Longrightarrow> awake (wakeup_writer e att)"
  by (auto simp: awake_def sendable_def wakeup_writer_def)

lemma awake_idle: "\<not> sendable att \<Longrightarrow> awake att"
  by (simp add: awake_def)

lemma awake_same:
  assumes "awake att" and "at_write_queue a = at_write_queue att" "at_req_queue a = at_req_queue att" "at_ind_queue a = at_ind_queue att"
    "(at_pending_req a = None) = (at_pending_req att = None)" "(at_pending_ind a = None) = (at_pending_ind att = None)" "at_io a = at_io att"
    "at_writer_active a = at_writer_active att"
  shows "awake a"
  using assms by (simp add: awake_def sendable_def)

lemma awake_cancel:
  assumes "bt_att_cancel e att n = (b, a, ev)" and "ae_watch e" and "awake att"
  shows "awake a"
  using assms(1)
proof (cases rule: cancel_cases)
  case (removed a0)
  then show ?thesis using awake_wakeup[OF assms(2)] by simp
qed (use assms(3) in \<open>auto intro: awake_same\<close>)

lemma awake_exec:
  assumes "att_exec e c att = Some (att', ev)" and w: "ae_watch e" and a: "awake att"
  shows "awake att'"
proof (cases c)
  case (Send opcode pdu len cb ud d)
  then obtain n where "bt_att_send e att opcode pdu len cb ud d = Some (n, att', ev)" using assms by (auto simp: bind_eq_Some_conv)
  then show ?thesis
  proof (cases rule: send_cases)
    case (taken op)
    then show ?thesis by (simp only: awake_wakeup[OF w])
  qed (use a in simp)
next
  case (Cancel n)
  then obtain b where "bt_att_cancel e att n = (b, att', ev)" using assms(1) by (cases "bt_att_cancel e att n") simp
  then show ?thesis by (rule awake_cancel[OF _ w a])
next
  case Cancel_all
  have "\<not> sendable (fst (bt_att_cancel_all att))"
    by (auto simp: bt_att_cancel_all_def sendable_def split: prod.split)
  then show ?thesis using assms Cancel_all awake_idle by simp
qed (use assms in \<open>auto simp: bt_att_register_def bt_att_unregister_def bt_att_unregister_all_def
    bt_att_register_disconnect_def bt_att_unregister_disconnect_def bt_att_set_mtu_def bt_att_set_security_def bt_att_set_enc_key_size_def bt_att_set_timeout_cb_def
    bt_att_set_local_key_def bt_att_set_remote_key_def Let_def intro!: awake_same[OF a] split: if_splits option.splits\<close>)

lemma active_wakeup: "at_writer_active att \<Longrightarrow> wakeup_writer e att = att"
  by (simp add: wakeup_writer_def)

lemma active_exec:
  assumes "att_exec e c att = Some (att', ev)" and a: "at_writer_active att"
  shows "at_writer_active att'"
proof (cases c)
  case (Send opcode pdu len cb ud d)
  then obtain n where "bt_att_send e att opcode pdu len cb ud d = Some (n, att', ev)" using assms by (auto simp: bind_eq_Some_conv)
  then show ?thesis
  proof (cases rule: send_cases)
    case (taken op)
    then show ?thesis using a by (simp add: wakeup_writer_def)
  qed (use a in simp)
next
  case (Cancel n)
  then obtain b where "bt_att_cancel e att n = (b, att', ev)" using assms(1) by (cases "bt_att_cancel e att n") simp
  then show ?thesis using a by (cases rule: cancel_cases) (simp_all add: wakeup_writer_def)
next
  case Cancel_all
  then show ?thesis using assms by (auto simp: bt_att_cancel_all_def split: prod.splits)
qed (use assms in \<open>auto simp: bt_att_register_def bt_att_unregister_def bt_att_unregister_all_def
    bt_att_register_disconnect_def bt_att_unregister_disconnect_def bt_att_set_mtu_def bt_att_set_security_def bt_att_set_enc_key_size_def bt_att_set_timeout_cb_def
    bt_att_set_local_key_def bt_att_set_remote_key_def Let_def split: if_splits option.splits\<close>)

text \<open>A property of states that every call of the application keeps.\<close>

definition preserved :: "att_env \<Rightarrow> (bt_att \<Rightarrow> bool) \<Rightarrow> bool" where
  "preserved e R = (\<forall>c a a' ev. att_exec e c a = Some (a', ev) \<longrightarrow> R a \<longrightarrow> R a')"

lemma preserved_awake: "ae_watch e \<Longrightarrow> preserved e awake"
  using awake_exec by (auto simp: preserved_def)

lemma preserved_active: "preserved e at_writer_active"
  using active_exec by (auto simp: preserved_def)

lemma execs_keep:
  assumes "preserved e R"
  shows "att_execs e cs att = Some (att', ev) \<Longrightarrow> R att \<Longrightarrow> R att'"
proof (induction cs arbitrary: att ev)
  case (Cons c cs)
  then obtain a1 ev1 ev2 where "att_exec e c att = Some (a1, ev1)" "att_execs e cs a1 = Some (att', ev2)" by (auto simp: bind_eq_Some_conv)
  then show ?case using Cons.IH assms Cons.prems(2) unfolding preserved_def by blast
qed simp

lemma upcall_keep:
  assumes "preserved e R"
  shows "upcall app e x att = Some (att', ev) \<Longrightarrow> R att \<Longrightarrow> R att'"
  using execs_keep[OF assms] by (auto simp: upcall_def bind_eq_Some_conv)

lemma respond_keep:
  assumes "preserved e R"
  shows "respond app e op opcode pdu att = Some (att', ev) \<Longrightarrow> R att \<Longrightarrow> R att'"
  using upcall_keep[OF assms] by (auto simp: respond_def split: if_splits)

lemma notify_loop_keep:
  assumes "preserved e R"
  shows "notify_loop app e opcode pdu cur found att = Some (b, att', ev) \<Longrightarrow> R att \<Longrightarrow> R att'"
  using notify_loop_rel[where Q = "\<lambda>a a' ev. R a \<longrightarrow> R a'"] upcall_keep[OF assms] by blast

lemma send_keep:
  assumes "preserved e R"
  shows "bt_att_send e att opcode pdu len cb ud d = Some (n, att', ev) \<Longrightarrow> R att \<Longrightarrow> R att'"
proof -
  assume "bt_att_send e att opcode pdu len cb ud d = Some (n, att', ev)" "R att"
  moreover from this have "att_exec e (Send opcode pdu len cb ud d) att = Some (att', ev)" by simp
  ultimately show ?thesis using assms unfolding preserved_def by blast
qed

lemma handle_notify_keep:
  assumes x: "preserved e R"
    and r: "att_handle_notify app e opcode pdu att = Some (att', ev)" "R att"
  shows "R att'"
proof -
  obtain ok where ok: "(if opcode AND ATT_OP_SIGNED_MASK \<noteq> 0 \<and> \<not> at_crypto att then handle_signed e pdu att else Some True) = Some ok"
    using r by (auto simp: att_handle_notify_def bind_eq_Some_conv)
  show ?thesis
  proof (cases ok)
    case True
    obtain p cur found a ev1 ev2 where l: "notify_loop app e opcode p cur False att = Some (found, a, ev1)"
      and n: "(if \<not> found \<and> get_op_type opcode \<noteq> ATT_OP_TYPE_CMD then respond_not_supported e opcode a else Some (a, [])) = Some (att', ev2)"
      using r ok True unfolding att_handle_notify_def Let_def by (auto simp: bind_eq_Some_conv simp del: split_paired_Ex)
    have "R a" by (rule notify_loop_keep[OF x l r(2)])
    then show ?thesis using n send_keep[OF x] by (auto simp: respond_not_supported_def bind_eq_Some_conv split: if_splits)
  next
    case False
    then show ?thesis using r ok by (simp add: att_handle_notify_def)
  qed
qed

lemma awake_in_req: "awake (att\<lparr>at_in_req := b\<rparr>) = awake att"
  by (simp add: awake_def sendable_def)

lemma awake_finish: "finish_request app e opcode pdu op att = Some (att', ev) \<Longrightarrow> ae_watch e \<Longrightarrow> awake att'"
  using awake_wakeup by (auto simp: finish_request_def bind_eq_Some_conv)

lemma awake_shutdown: "handle_rsp app e opcode pdu att = Some (att', ev) \<Longrightarrow> ae_watch e \<Longrightarrow> awake att \<Longrightarrow> awake att'"
  using awake_wakeup awake_finish by (auto simp: handle_rsp_def bind_eq_Some_conv split: option.splits if_splits prod.splits bool.splits)

lemma awake_conf: "handle_conf app e pdu att = Some (att', ev) \<Longrightarrow> ae_watch e \<Longrightarrow> awake att \<Longrightarrow> awake att'"
  using awake_wakeup by (auto simp: handle_conf_def bind_eq_Some_conv split: option.splits if_splits)

lemma awake_read:
  assumes "can_read_data app e input att = Some (ok, att', ev)" and w: "ae_watch e" and a: "awake att"
  shows "awake att'"
proof -
  note n = handle_notify_keep[OF preserved_awake[OF w]]
  show ?thesis using assms(1)
  proof (cases rule: channel_read_cases)
    case (rsp b opcode pdu)
    then show ?thesis using awake_shutdown w a by blast
  next
    case (conf b opcode pdu)
    then show ?thesis using awake_conf w a by blast
  next
    case (req b opcode pdu)
    then show ?thesis using n a awake_in_req by blast
  next
    case (other b opcode pdu)
    then show ?thesis using n a by blast
  qed (use a in simp_all)
qed

lemma awake_writable:
  assumes "io_writable app e att = Some (att', ev)" and a: "awake att"
  shows "awake att'"
proof (cases "at_writer_active att")
  case True
  obtain again a1 where w: "can_write_data app e att = Some (again, a1, ev)" "att' = (if again then a1 else write_watch_destroy a1)"
    using assms True by (auto simp: io_writable_def bind_eq_Some_conv)
  obtain x b where p: "pick_next_send_op att = (x, b)" by fastforce
  show ?thesis
  proof (cases x)
    case None
    then have "b = att" "\<not> sendable att" using p by (auto simp: pick_next_send_op_def sendable_def split: if_splits)
    then have "\<not> sendable att'" using w p None by (auto simp: can_write_data_def write_watch_destroy_def sendable_def)
    then show ?thesis by (rule awake_idle)
  next
    case (Some op)
    have "at_writer_active b" using p True by (auto simp: pick_next_send_op_def split: if_splits)
    then have "at_writer_active a1" "again"
      using w p Some respond_keep[OF preserved_active] by (auto simp: can_write_data_def bind_eq_Some_conv split: if_splits)
    then show ?thesis using w(2) by (simp add: awake_def)
  qed
qed (use assms in \<open>simp add: io_writable_def\<close>)

definition undisturbed :: "att_env \<Rightarrow> att_input \<Rightarrow> bool" where
  "undisturbed e i = (ae_watch e \<and> (case i of Timer _ \<Rightarrow> False | _ \<Rightarrow> True))"

lemma run_awake: "att_run undisturbed att ev \<Longrightarrow> awake att"
proof (induction rule: att_run.induct)
  case (start e ext_signed l2cap bredr crypto att)
  then show ?case by (auto simp: bt_att_new_def awake_def sendable_def Let_def split: if_splits)
next
  case (step att ev e i app att' ev')
  have w: "ae_watch e" using step by (simp add: undisturbed_def)
  show ?case
  proof (cases i)
    case (Call c)
    then show ?thesis using step awake_exec w by auto
  next
    case (Readable b)
    then show ?thesis using step awake_read w by (auto simp: bind_eq_Some_conv split: if_splits)
  next
    case Writable
    then show ?thesis using step awake_writable by (auto split: if_splits)
  next
    case (Hangup err)
    then show ?thesis using step disconnect_steps[of app e err att] by (fastforce simp: awake_def emptied_def split: if_splits)
  qed (use step in \<open>simp add: undisturbed_def\<close>)
qed

section \<open>Sending\<close>

fun att_steps :: "app \<Rightarrow> att_env \<Rightarrow> att_input list \<Rightarrow> bt_att \<Rightarrow> (bt_att \<times> att_event list) option" where
  "att_steps app e [] att = Some (att, [])"
| "att_steps app e (i # is) att = do { (att, ev) \<leftarrow> att_step app e i att; (att, ev') \<leftarrow> att_steps app e is att; Some (att, ev @ ev') }"

fun sent_pdu :: "att_event \<Rightarrow> u8 list list" where
  "sent_pdu (Transmit pdu) = [pdu]"
| "sent_pdu _ = []"

definition transmitted :: "att_event list \<Rightarrow> u8 list list" where
  "transmitted ev = concat (map sent_pdu ev)"

lemma transmitted_simps [simp]: "transmitted [] = []" "transmitted (x # xs) = sent_pdu x @ transmitted xs" "transmitted (xs @ ys) = transmitted xs @ transmitted ys"
  by (simp_all add: transmitted_def)

lemma transmitted_destroy [simp]: "transmitted (destroy_att_send_op op) = []"
  by (simp add: destroy_att_send_op_def)

text \<open>The state after the operations of the write queue have been sent.\<close>

definition drained :: "att_send_op list \<Rightarrow> bt_att \<Rightarrow> bt_att" where
  "drained q att = att\<lparr>at_write_queue := [], at_in_req := (at_in_req att \<and> ATT_OP_TYPE_RSP \<notin> so_type ` set q)\<rparr>"

lemma drain_queue:
  assumes "at_io att" "at_writer_active att" "ae_sent e" "at_write_queue att = q"
    "\<forall>op \<in> set q. so_type op \<noteq> ATT_OP_TYPE_REQ \<and> so_type op \<noteq> ATT_OP_TYPE_IND"
  shows "\<exists>ev. att_steps app e (replicate (length q) Writable) att = Some (drained q att, ev) \<and> transmitted ev = map so_pdu q"
  using assms
proof (induction q arbitrary: att)
  case Nil
  then show ?case by (auto simp: drained_def)
next
  case (Cons op q)
  define a where "a = (if so_type op = ATT_OP_TYPE_RSP then att\<lparr>at_write_queue := q, at_in_req := False\<rparr> else att\<lparr>at_write_queue := q\<rparr>)"
  have s: "att_step app e Writable att = Some (a, Transmit (so_pdu op) # destroy_att_send_op op)"
    using Cons.prems by (auto simp: io_writable_def can_write_data_def pick_next_send_op_def a_def)
  have f: "at_io a" "at_writer_active a" "at_write_queue a = q" using Cons.prems by (simp_all add: a_def)
  obtain ev where "att_steps app e (replicate (length q) Writable) a = Some (drained q a, ev)" "transmitted ev = map so_pdu q"
    using Cons.IH[of a] Cons.prems f by auto
  moreover have "drained q a = drained (op # q) att" by (auto simp: drained_def a_def)
  ultimately show ?case using s by auto
qed

section \<open>The loop over the handlers\<close>

definition first_id :: "att_notify list \<Rightarrow> u32 option" where
  "first_id xs = (case xs of [] \<Rightarrow> None | x # _ \<Rightarrow> Some (no_id x))"

lemma entry_after_at: "no_id x \<notin> no_id ` set xs \<Longrightarrow> entry_after (no_id x) (xs @ x # ys) = Some (x, first_id ys)"
  by (induction xs) (auto simp: first_id_def)

definition deaf :: "u8 \<Rightarrow> att_notify \<Rightarrow> bool" where
  "deaf opcode x = (\<not> opcode_match (ucast (no_opcode x)) opcode)"

lemma notify_loop_deaf:
  assumes "at_notify_list att = xs @ ys @ zs" and "distinct (map no_id (xs @ ys @ zs))" and "\<forall>y \<in> set ys. deaf opcode y"
  shows "notify_loop app e opcode pdu (first_id (ys @ zs)) found att = notify_loop app e opcode pdu (first_id zs) found att"
  using assms
proof (induction ys arbitrary: xs)
  case (Cons y ys)
  have "notify_loop app e opcode pdu (first_id ((y # ys) @ zs)) found att = notify_loop app e opcode pdu (first_id (ys @ zs)) found att"
    using entry_after_at[of y xs "ys @ zs"] Cons.prems
    by (subst notify_loop.simps) (auto simp: first_id_def[of "y # _"] deaf_def image_iff)
  also have "\<dots> = notify_loop app e opcode pdu (first_id zs) found att" using Cons.IH[of "xs @ [y]"] Cons.prems by simp
  finally show ?case .
qed simp

lemma notify_loop_end [simp]: "notify_loop app e opcode pdu None found att = Some (found, att, [])"
  by (simp add: notify_loop.simps)

lemma notify_none:
  assumes "distinct (map no_id (at_notify_list att))" and "\<forall>y \<in> set (at_notify_list att). deaf opcode y"
  shows "notify_loop app e opcode pdu (first_id (at_notify_list att)) found att = Some (found, att, [])"
  using notify_loop_deaf[of att "[]" "at_notify_list att" "[]"] assms by (simp add: first_id_def[of "[]"])

text \<open>One handler takes the PDU.\<close>

lemma notify_one:
  assumes l: "at_notify_list att = xs @ x # ys" and d: "distinct (map no_id (xs @ x # ys))" and o: "\<forall>y \<in> set xs \<union> set ys. deaf opcode y" "\<not> deaf opcode x"
    and c: "no_callback x \<noteq> 0" and u: "upcall app e (Received (no_callback x) opcode pdu (no_user_data x)) att = Some (a, ev)" "at_notify_list a = at_notify_list att"
  shows "notify_loop app e opcode pdu (first_id (at_notify_list att)) found att = Some (True, a, ev)"
proof -
  have "notify_loop app e opcode pdu (first_id (at_notify_list att)) found att = notify_loop app e opcode pdu (first_id (x # ys)) found att"
    using notify_loop_deaf[of att "[]" xs "x # ys" opcode app e pdu found] l d o(1) by simp
  also have "\<dots> = do { (found, att, ev') \<leftarrow> notify_loop app e opcode pdu (first_id ys) True a; Some (found, att, ev @ ev') }"
    using entry_after_at[of x xs ys] l d o(2) c u by (subst notify_loop.simps) (auto simp: first_id_def[of "x # _"] deaf_def image_iff)
  also have "notify_loop app e opcode pdu (first_id ys) True a = Some (True, a, [])"
    using notify_loop_deaf[of a "xs @ [x]" ys "[]" opcode app e pdu True] l d o(1) u(2) by (simp add: first_id_def[of "[]"])
  finally show ?thesis by simp
qed

lemma handle_notify_loop:
  "att_handle_notify app e opcode pdu att =
     do { ok \<leftarrow> (if opcode AND ATT_OP_SIGNED_MASK \<noteq> 0 \<and> \<not> at_crypto att then handle_signed e pdu att else Some True);
          if \<not> ok then Some (att, [])
          else do {
            let pdu = (if opcode AND ATT_OP_SIGNED_MASK \<noteq> 0 \<and> \<not> at_crypto att then take (length pdu - BT_ATT_SIGNATURE_LEN) pdu else pdu);
            (found, att, ev) \<leftarrow> notify_loop app e opcode pdu (first_id (at_notify_list att)) False att;
            (att, ev') \<leftarrow> (if \<not> found \<and> get_op_type opcode \<noteq> ATT_OP_TYPE_CMD then respond_not_supported e opcode att else Some (att, []));
            Some (att, ev @ ev') } }"
  unfolding att_handle_notify_def first_id_def by (rule refl)

section \<open>PDUs\<close>

text \<open>Without a signature the PDU is the opcode and the parameters.\<close>

lemma encode_plain:
  assumes "at_local_sign att = None \<or> opcode AND ATT_OP_SIGNED_MASK = 0" and "length b < unat (at_mtu att)" and "ae_mem e"
  shows "encode_pdu e att opcode (Some b) (of_nat (length b)) = Some (Some (opcode # b))"
proof -
  have m: "unat (at_mtu att) < 2 ^ 16" using unsigned_less[of "at_mtu att"] by simp
  define n :: u16 where "n = 1 + of_nat (length b)"
  have n: "unat n = Suc (length b)" using assms(2) m unfolding n_def by (simp add: unat_word_ariths unat_of_nat)
  have len: "unat (of_nat (length b) :: u16) = length b" using assms(2) m by (simp add: unat_of_nat)
  have le: "\<not> n > at_mtu att" using assms(2) n by (simp add: word_less_nat_alt)
  have nz: "of_nat (length b) \<noteq> (0 :: u16) \<longleftrightarrow> b \<noteq> []" using len by (metis length_0_conv unat_eq_zero)
  have p: "(1 + (if False then of_nat BT_ATT_SIGNATURE_LEN else 0) + (if of_nat (length b) \<noteq> (0 :: u16) \<and> Some b \<noteq> None then of_nat (length b) else 0)) = n"
    by (simp add: n_def)
  have s: "(at_local_sign att \<noteq> None \<and> opcode AND ATT_OP_SIGNED_MASK \<noteq> 0) = False" using assms(1) by auto
  have w: "write_range (map (ae_junk e) [0..<unat n]) 0 [opcode] = Some (opcode # map (ae_junk e) [1..<unat n])"
    by (simp add: write_range_def n upt_conv_Cons del: upt_Suc)
  have w2: "(if n > 1 then write_range (opcode # map (ae_junk e) [1..<unat n]) 1 b else Some (opcode # map (ae_junk e) [1..<unat n])) = Some (opcode # b)"
    using n by (cases b) (auto simp: write_range_def word_less_nat_alt Suc_le_eq)
  show ?thesis unfolding encode_pdu_def Let_def s p using le assms(3) len
    by (simp add: read_range_def w w2 del: One_nat_def split: option.splits)
qed

lemma encode_wraps:
  assumes "length b = 65535" and "at_local_sign att = None" and "ae_mem e"
  shows "encode_pdu e att opcode (Some b) (of_nat (length b)) = None"
proof -
  have z: "(1 :: u16) + of_nat (length b) = 0" using word_of_nat_eq_0_iff[of 65536, where 'a = 16] assms(1) by simp
  have nz: "of_nat (length b) \<noteq> (0 :: u16)" using word_of_nat_eq_0_iff[of 65535, where 'a = 16] assms(1) by simp
  show ?thesis unfolding encode_pdu_def Let_def using assms(2,3) nz by (simp add: z write_range_def)
qed

section \<open>A sample channel\<close>

definition sample_env :: att_env where
  "sample_env = \<lparr>ae_mem = True, ae_junk = (\<lambda>_. 0), ae_tid = 7, ae_watch = True, ae_sent = True, ae_counter = (\<lambda>_ _ n. Some n), ae_cmac = (\<lambda>_ _. None),
     ae_sec = 1, ae_set_sec = True\<rparr>"

definition sample_att :: bt_att where
  "sample_att = the (bt_att_new sample_env False False None True)"

lemma sample_new: "bt_att_new sample_env False False None True = Some sample_att"
  by (simp add: sample_att_def bt_att_new_def sample_env_def Let_def BT_ATT_DEFAULT_LE_MTU_def)

lemma sample_att_eq:
  "sample_att = \<lparr>at_ref_count = 1, at_io = True, at_io_on_l2cap = False, at_io_sec_level = BT_ATT_SECURITY_LOW,
     at_enc_size = 0, at_req_queue = [], at_pending_req = None, at_ind_queue = [], at_pending_ind = None, at_write_queue = [],
     at_writer_active = False, at_notify_list = [], at_disconn_list = [], at_in_req = False, at_mtu = 23, at_next_send_id = 0,
     at_next_reg_id = 0, at_timeout_callback = 0, at_timeout_destroy = 0, at_timeout_data = 0,
     at_crypto = True, at_local_sign = None, at_remote_sign = None\<rparr>"
  by (simp add: sample_att_def bt_att_new_def sample_env_def Let_def BT_ATT_DEFAULT_LE_MTU_def)

lemma sample_att_run: "att_run P sample_att []"
  by (rule att_run.start[OF sample_new])

text \<open>A response in the queue.\<close>

definition sample_op :: att_send_op where
  "sample_op = \<lparr>so_id = 1, so_timeout_id = 0, so_type = ATT_OP_TYPE_RSP, so_opcode = BT_ATT_OP_WRITE_RSP, so_pdu = [BT_ATT_OP_WRITE_RSP], so_callback = 0, so_destroy = 9, so_user_data = 4\<rparr>"

definition sample_queued :: bt_att where
  "sample_queued = sample_att\<lparr>at_next_send_id := 2, at_write_queue := [sample_op], at_writer_active := True\<rparr>"

lemma sample_send: "att_exec sample_env (Send BT_ATT_OP_WRITE_RSP (Some []) 0 0 4 9) sample_att = Some (sample_queued, [Queued BT_ATT_OP_WRITE_RSP 0 4 9])"
proof -
  have e: "encode_pdu sample_env sample_att BT_ATT_OP_WRITE_RSP (Some []) 0 = Some (Some [BT_ATT_OP_WRITE_RSP])"
    using encode_plain[of sample_att BT_ATT_OP_WRITE_RSP "[]" sample_env] by (simp add: sample_att_eq sample_env_def)
  have t: "get_op_type BT_ATT_OP_WRITE_RSP = ATT_OP_TYPE_RSP" by (simp add: get_op_type_def att_opcode_type_table_def att_op_defs)
  have c: "create_att_send_op sample_env sample_att BT_ATT_OP_WRITE_RSP (Some []) 0 0 4 9 = Some (Some (sample_op\<lparr>so_id := 0\<rparr>))"
    by (simp add: create_att_send_op_def Let_def t e sample_op_def)
  have r: "bt_att_send sample_env sample_att BT_ATT_OP_WRITE_RSP (Some []) 0 0 4 9 = Some (1, sample_queued, [Queued BT_ATT_OP_WRITE_RSP 0 4 9])"
    unfolding bt_att_send_def c by (simp add: sample_att_eq sample_queued_def sample_op_def wakeup_writer_def sample_env_def)
  then show ?thesis by simp
qed

lemma sample_queued_run: "att_run undisturbed sample_queued [Queued BT_ATT_OP_WRITE_RSP 0 4 9]"
proof -
  have "undisturbed sample_env (Call (Send BT_ATT_OP_WRITE_RSP (Some []) 0 0 4 9))" by (simp add: undisturbed_def sample_env_def)
  from att_run.step[where P = undisturbed, OF sample_att_run this, of undefined] show ?thesis using sample_send by simp
qed

section \<open>Properties\<close>

text \<open>
  C9. Every operation that the channel takes is destroyed exactly once, and answered at most once: in every run, whatever the application does inside its callbacks,
  the destroy callbacks that have run are those of the operations taken, less those of the operations still queued or pending; and no response callback runs
  that was not asked for.
\<close>

theorem att_destroyed_once:
  assumes "att_run P att ev"
  shows "total destroyed ev + toks dtok att = total queued_d ev \<and> total responded ev + toks rtok att \<subseteq># total queued_r ev"
  using run_sound[OF assms] by simp

theorem att_destroyed_once_witness:
  "total destroyed [Queued BT_ATT_OP_WRITE_RSP 0 4 9] + toks dtok sample_queued = total queued_d [Queued BT_ATT_OP_WRITE_RSP 0 4 9] \<and>
   total responded [Queued BT_ATT_OP_WRITE_RSP 0 4 9] + toks rtok sample_queued \<subseteq># total queued_r [Queued BT_ATT_OP_WRITE_RSP 0 4 9]"
  by (rule att_destroyed_once[OF sample_queued_run])

text \<open>
  C11. The end of the connection always runs through, also when the callbacks cancel operations, remove handlers or try to send: it leaves
  the channel without operations and handlers, and by then every operation the channel ever took has been destroyed exactly once.
\<close>

theorem att_disconnect_pays:
  assumes "att_run P att ev"
  shows "\<exists>att' ev'. disconnect_cb app e err att = Some (att', ev') \<and> emptied att' \<and> total destroyed (ev @ ev') = total queued_d (ev @ ev')"
proof -
  obtain att' ev' where d: "disconnect_cb app e err att = Some (att', ev')" "emptied att'" "sound att att' ev'" by (rule disconnect_steps)
  have r: "typed att" "total destroyed ev + toks dtok att = total queued_d ev" using run_sound[OF assms] by simp_all
  then have "toks dtok att' + total destroyed ev' = toks dtok att + total queued_d ev'" using d(3) by (simp add: sound_def pays_def)
  then have "total destroyed ev + total destroyed ev' = total destroyed ev + toks dtok att + total queued_d ev'" using toks_emptied[OF d(2), of dtok] by simp
  then show ?thesis using d(1,2) r(2) by simp
qed

theorem att_disconnect_pays_witness:
  "\<exists>att' ev'. disconnect_cb (\<lambda>_. [Cancel_all]) sample_env 104 sample_queued = Some (att', ev') \<and> emptied att' \<and>
     total destroyed ([Queued BT_ATT_OP_WRITE_RSP 0 4 9] @ ev') = total queued_d ([Queued BT_ATT_OP_WRITE_RSP 0 4 9] @ ev')"
  by (rule att_disconnect_pays[OF sample_queued_run])

text \<open>
  The last reference: what the channel still owes is paid.
\<close>

theorem att_unref_pays:
  assumes "at_ref_count att = 1"
  shows "\<exists>ev. bt_att_unref att = (None, ev) \<and> total destroyed ev = toks dtok att \<and> total responded ev = {#}"
  using assms
  by (auto simp: bt_att_unref_def Let_def bt_att_unregister_all_def bt_att_cancel_all_def cancel_pending_def cancel_att_send_op_def bt_att_free_def toks_def
    qtoks_def total_concat_0 dtok_def destroy_att_send_op_def split: option.splits)

theorem att_unref_pays_witness:
  "\<exists>ev. bt_att_unref sample_queued = (None, ev) \<and> total destroyed ev = toks dtok sample_queued \<and> total responded ev = {#}"
  by (rule att_unref_pays) (simp add: sample_queued_def sample_att_eq)

text \<open>
  C5. No PDU is left behind: whatever has happened before (no timeout, which ends the connection, and no failure to watch the socket), the next
  events that say the socket takes data send the PDUs of the write queue, all of them and in the order in which they were queued.
\<close>

theorem att_queue_drained:
  assumes "att_run undisturbed att ev" and "at_io att" and "ae_sent e"
  shows "\<exists>ev'. att_steps app e (replicate (length (at_write_queue att)) Writable) att = Some (drained (at_write_queue att) att, ev') \<and>
    transmitted ev' = map so_pdu (at_write_queue att)"
proof (cases "at_write_queue att = []")
  case True
  then show ?thesis by (auto simp: drained_def)
next
  case False
  have "at_writer_active att" using run_awake[OF assms(1)] assms(2) False by (simp add: awake_def sendable_def)
  then show ?thesis using drain_queue[OF assms(2) _ assms(3) refl] run_sound[OF assms(1)] by (simp add: typed_def)
qed

theorem att_queue_drained_witness:
  "\<exists>ev'. att_steps (\<lambda>_. []) sample_env (replicate (length (at_write_queue sample_queued)) Writable) sample_queued = Some (drained (at_write_queue sample_queued) sample_queued, ev') \<and>
    transmitted ev' = map so_pdu (at_write_queue sample_queued)"
  by (rule att_queue_drained[OF sample_queued_run]) (simp_all add: sample_env_def sample_queued_def sample_att_eq)

text \<open>
  A client may not send a second request before the first one is answered: the PDU is not handed to any handler, and the connection is shut down.
\<close>

theorem att_second_request_refused:
  assumes "at_in_req att" and "get_op_type opcode = ATT_OP_TYPE_REQ" and "at_mtu att \<noteq> 0"
  shows "can_read_data app e (Some (opcode # pdu)) att = Some (False, att, [Shutdown])"
proof -
  obtain n where "unat (at_mtu att) = Suc n" using assms(3) by (cases "unat (at_mtu att)") (auto simp: unat_eq_zero)
  then show ?thesis using assms(1,2) by (simp add: can_read_data_def)
qed

theorem att_second_request_refused_witness:
  "can_read_data (\<lambda>_. [Cancel_all]) sample_env (Some [BT_ATT_OP_READ_REQ, 1, 0]) (sample_att\<lparr>at_in_req := True\<rparr>) = Some (False, sample_att\<lparr>at_in_req := True\<rparr>, [Shutdown])"
  by (rule att_second_request_refused) (simp_all add: sample_att_eq get_op_type_def att_opcode_type_table_def att_op_defs)

lemma not_types: "get_op_type BT_ATT_OP_HANDLE_VAL_NOT = ATT_OP_TYPE_NOT" "get_op_type BT_ATT_OP_ERROR_RSP = ATT_OP_TYPE_RSP"
  by (simp_all add: get_op_type_def att_opcode_type_table_def att_op_defs)

lemma send_plain:
  assumes "at_io att" and "get_op_type opcode = ATT_OP_TYPE_RSP" and "at_local_sign att = None \<or> opcode AND ATT_OP_SIGNED_MASK = 0" and "length b < unat (at_mtu att)" and "ae_mem e"
  obtains op n where "bt_att_send e att opcode (Some b) (of_nat (length b)) 0 ud d =
      Some (n, wakeup_writer e (att\<lparr>at_next_send_id := n + 1, at_write_queue := at_write_queue att @ [op]\<rparr>), [Queued opcode 0 ud d])"
    "so_pdu op = opcode # b" "so_type op = ATT_OP_TYPE_RSP" "so_destroy op = d" "so_timeout_id op = 0" "so_user_data op = ud"
proof -
  define n where "n = (if at_next_send_id att < 1 then 1 else at_next_send_id att)"
  define op where "op = \<lparr>so_id = n, so_timeout_id = 0, so_type = ATT_OP_TYPE_RSP, so_opcode = opcode, so_pdu = opcode # b, so_callback = 0, so_destroy = d, so_user_data = ud\<rparr>"
  have "create_att_send_op e att opcode (Some b) (of_nat (length b)) 0 ud d = Some (Some (op\<lparr>so_id := 0\<rparr>))"
    using encode_plain[OF assms(3-5)] assms(2) by (simp add: create_att_send_op_def op_def)
  then have "bt_att_send e att opcode (Some b) (of_nat (length b)) 0 ud d =
      Some (n, wakeup_writer e (att\<lparr>at_next_send_id := n + 1, at_write_queue := at_write_queue att @ [op]\<rparr>), [Queued opcode 0 ud d])"
    unfolding bt_att_send_def n_def[symmetric] using assms(1) by (simp add: op_def)
  then show ?thesis by (rule that) (simp_all add: op_def)
qed



text \<open>
  C28. A signed PDU is never checked: with the kernel's cipher at hand the handlers get it as it came, signature included and unverified; without
  it the PDU is dropped, as no signature can be computed.
\<close>

theorem att_signature_unchecked:
  assumes "opcode AND ATT_OP_SIGNED_MASK \<noteq> 0" and "get_op_type opcode = ATT_OP_TYPE_CMD"
  shows "(at_crypto att \<longrightarrow> att_handle_notify app e opcode pdu att =
      map_option snd (notify_loop app e opcode pdu (first_id (at_notify_list att)) False att)) \<and>
    (\<not> at_crypto att \<longrightarrow> att_handle_notify app e opcode pdu att = Some (att, []))"
proof (intro conjI impI)
  assume c: "at_crypto att"
  then show "att_handle_notify app e opcode pdu att = map_option snd (notify_loop app e opcode pdu (first_id (at_notify_list att)) False att)"
    using assms(2) by (cases "notify_loop app e opcode pdu (first_id (at_notify_list att)) False att") (auto simp: handle_notify_loop)
next
  assume c: "\<not> at_crypto att"
  then have "handle_signed e pdu att = Some False" by (auto simp: handle_signed_def bt_crypto_sign_att_def split: option.splits)
  then show "att_handle_notify app e opcode pdu att = Some (att, [])" using c assms(1) by (simp add: handle_notify_loop)
qed

theorem att_signature_unchecked_witness:
  "at_crypto sample_att \<and> att_handle_notify (\<lambda>_. []) sample_env BT_ATT_OP_SIGNED_WRITE_CMD [1, 0] sample_att =
      map_option snd (notify_loop (\<lambda>_. []) sample_env BT_ATT_OP_SIGNED_WRITE_CMD [1, 0] (first_id (at_notify_list sample_att)) False sample_att)"
  using att_signature_unchecked[of BT_ATT_OP_SIGNED_WRITE_CMD sample_att "\<lambda>_. []" sample_env "[1, 0]"]
  by (simp add: sample_att_eq get_op_type_def att_opcode_type_table_def att_op_defs ATT_OP_SIGNED_MASK_def)

text \<open>
  A PDU is the opcode followed by the parameters when they fit the MTU; 65535 bytes of parameters wrap the 16-bit length to 0, pass the check
  against the MTU, and are written behind the allocated block.
\<close>

theorem att_encode_pdu:
  assumes "at_local_sign att = None" and "ae_mem e"
  shows "(length b < unat (at_mtu att) \<longrightarrow> encode_pdu e att opcode (Some b) (of_nat (length b)) = Some (Some (opcode # b))) \<and>
    (length b = 65535 \<longrightarrow> encode_pdu e att opcode (Some b) (of_nat (length b)) = None)"
  using encode_plain[of att opcode b e] encode_wraps[of b att e opcode] assms by simp

theorem att_encode_pdu_witness:
  "encode_pdu sample_env sample_att 5 (Some [1, 2]) (of_nat (length ([1, 2] :: u8 list))) = Some (Some [5, 1, 2]) \<and>
    encode_pdu sample_env sample_att 5 (Some (replicate 65535 0)) (of_nat (length (replicate 65535 (0 :: u8)))) = None"
  using att_encode_pdu[of sample_att sample_env "[1, 2]" 5] att_encode_pdu[of sample_att sample_env "replicate 65535 0" 5]
  by (simp add: sample_att_eq sample_env_def)

end
