(* ===== verification/AttServer.thy ===== *)
theory AttServer
  imports GattServerProps AttProps
begin

text \<open>
  The GATT server on the ATT channel: a request that arrives on the socket is handed to the handler of the server, whose answer goes back through
  the channel as one PDU. The channel only relies on the contract of the locale \<open>request_server\<close>, which the server of \<open>gatt-server.c\<close> meets.
\<close>

section \<open>What the channel relies on\<close>

text \<open>
  The calls a handler makes on the channel: it sends its answer, and sets the MTU when an exchange has changed it (\<open>exchange_mtu_cb\<close> sends first).
\<close>

definition upper_calls :: "('s \<Rightarrow> u16) \<Rightarrow> 's \<Rightarrow> 's \<Rightarrow> (u8 \<times> u8 list) option \<Rightarrow> att_call list" where
  "upper_calls mtu s s' r =
     (case r of None \<Rightarrow> [] | Some (o', b) \<Rightarrow> [Send o' (Some b) (of_nat (length b)) 0 0 0]) @ (if mtu s' = mtu s then [] else [Set_mtu (mtu s')])"

definition upper_app :: "('s \<Rightarrow> u16) \<Rightarrow> ('s \<Rightarrow> u8 \<Rightarrow> u8 list \<Rightarrow> ('s \<times> (u8 \<times> u8 list) option) option) \<Rightarrow> 's \<Rightarrow> app" where
  "upper_app mtu serve s ev =
     (case ev of Received f opcode pdu ud \<Rightarrow> (case serve s opcode pdu of Some (s', r) \<Rightarrow> upper_calls mtu s s' r | None \<Rightarrow> []) | _ \<Rightarrow> [])"

text \<open>Exactly one handler is registered for the opcode.\<close>

definition listens :: "u8 \<Rightarrow> att_notify list \<Rightarrow> bool" where
  "listens opcode l = (distinct (map no_id l) \<and> (\<exists>xs x ys. l = xs @ x # ys \<and> no_callback x \<noteq> 0 \<and> \<not> deaf opcode x \<and> (\<forall>y \<in> set xs \<union> set ys. deaf opcode y)))"

text \<open>No request is under way and nothing is queued.\<close>

definition idle_at :: "u16 \<Rightarrow> bt_att \<Rightarrow> bool" where
  "idle_at m att = (at_io att \<and> \<not> at_in_req att \<and> at_write_queue att = [] \<and> at_mtu att = m)"

lemma table_types:
  assumes "get_op_type opcode = ATT_OP_TYPE_REQ \<or> get_op_type opcode = ATT_OP_TYPE_RSP"
  shows "opcode AND ATT_OP_SIGNED_MASK = 0"
proof -
  obtain t where t: "map_of att_opcode_type_table opcode = Some t" "t = ATT_OP_TYPE_REQ \<or> t = ATT_OP_TYPE_RSP"
    using assms by (auto simp: get_op_type_def split: option.splits if_splits)
  then show ?thesis
    by (auto simp: att_opcode_type_table_def att_op_defs ATT_OP_SIGNED_MASK_def split: if_splits)
qed

text \<open>A request that one handler takes.\<close>

lemma read_request:
  assumes t: "get_op_type opcode = ATT_OP_TYPE_REQ" and m: "length pdu < unat (at_mtu att)" and i: "\<not> at_in_req att" and l: "listens opcode (at_notify_list att)"
    and u: "\<And>f ud. \<exists>ev. upcall app e (Received f opcode pdu ud) (att\<lparr>at_in_req := True\<rparr>) = Some (a, ev) \<and> transmitted ev = []"
    and n: "at_notify_list a = at_notify_list att"
  obtains ev where "can_read_data app e (Some (opcode # pdu)) att = Some (True, a, ev)" "transmitted ev = []"
proof -
  obtain xs x ys where x: "at_notify_list att = xs @ x # ys" "no_callback x \<noteq> 0" "\<not> deaf opcode x" "\<forall>y \<in> set xs \<union> set ys. deaf opcode y"
    and d: "distinct (map no_id (xs @ x # ys))" using l unfolding listens_def by metis
  obtain ev where ev: "upcall app e (Received (no_callback x) opcode pdu (no_user_data x)) (att\<lparr>at_in_req := True\<rparr>) = Some (a, ev)" "transmitted ev = []"
    using u by blast
  have "notify_loop app e opcode pdu (first_id (at_notify_list att)) False (att\<lparr>at_in_req := True\<rparr>) = Some (True, a, ev)"
    using notify_one[of "att\<lparr>at_in_req := True\<rparr>" xs x ys opcode app e pdu a ev False] x d ev(1) n by simp
  then have h: "att_handle_notify app e opcode pdu (att\<lparr>at_in_req := True\<rparr>) = Some (a, ev)"
    using table_types[OF disjI1[OF t]] by (simp add: handle_notify_loop)
  have "take (unat (at_mtu att)) (opcode # pdu) = opcode # pdu" using m by simp
  then have "can_read_data app e (Some (opcode # pdu)) att = Some (True, a, ev)" using t i h unfolding can_read_data_def by simp
  then show ?thesis using that ev(2) by blast
qed

text \<open>A conversation of several requests, the server's answers to them, and the requests it accepts.\<close>

fun serve_all :: "('s \<Rightarrow> u8 \<Rightarrow> u8 list \<Rightarrow> ('s \<times> (u8 \<times> u8 list) option) option) \<Rightarrow> 's \<Rightarrow> (u8 \<times> u8 list) list \<Rightarrow> ('s \<times> (u8 \<times> u8 list) list) option" where
  "serve_all serve s [] = Some (s, [])"
| "serve_all serve s ((opcode, pdu) # rs) = do { (s, r) \<leftarrow> serve s opcode pdu; x \<leftarrow> r; (s, xs) \<leftarrow> serve_all serve s rs; Some (s, x # xs) }"

fun all_accepted :: "('s \<Rightarrow> u8 \<Rightarrow> u8 list \<Rightarrow> bool) \<Rightarrow> ('s \<Rightarrow> u8 \<Rightarrow> u8 list \<Rightarrow> ('s \<times> (u8 \<times> u8 list) option) option) \<Rightarrow> 's \<Rightarrow> (u8 \<times> u8 list) list \<Rightarrow> bool" where
  "all_accepted accepts serve s [] = True"
| "all_accepted accepts serve s ((opcode, pdu) # rs) =
     (accepts s opcode pdu \<and> (case serve s opcode pdu of Some (s', r) \<Rightarrow> all_accepted accepts serve s' rs | None \<Rightarrow> False))"

fun dialogue :: "('s \<Rightarrow> u16) \<Rightarrow> ('s \<Rightarrow> u8 \<Rightarrow> u8 list \<Rightarrow> ('s \<times> (u8 \<times> u8 list) option) option) \<Rightarrow> att_env \<Rightarrow> 's \<Rightarrow> (u8 \<times> u8 list) list \<Rightarrow> bt_att \<Rightarrow>
    (bt_att \<times> att_event list) option" where
  "dialogue mtu serve e s [] att = Some (att, [])"
| "dialogue mtu serve e s ((opcode, pdu) # rs) att =
     do { (_, att, ev1) \<leftarrow> can_read_data (upper_app mtu serve s) e (Some (opcode # pdu)) att;
          (att, ev2) \<leftarrow> io_writable (upper_app mtu serve s) e att;
          (s, _) \<leftarrow> serve s opcode pdu;
          (att, ev) \<leftarrow> dialogue mtu serve e s rs att;
          Some (att, ev1 @ ev2 @ ev) }"

locale request_server =
  fixes inv :: "'s \<Rightarrow> bool" and mtu :: "'s \<Rightarrow> u16" and accepts :: "'s \<Rightarrow> u8 \<Rightarrow> u8 list \<Rightarrow> bool"
    and serve :: "'s \<Rightarrow> u8 \<Rightarrow> u8 list \<Rightarrow> ('s \<times> (u8 \<times> u8 list) option) option"
  assumes serve_total: "inv s \<Longrightarrow> accepts s opcode pdu \<Longrightarrow> \<exists>s' r. serve s opcode pdu = Some (s', r) \<and> inv s'"
    and serve_fits: "inv s \<Longrightarrow> accepts s opcode pdu \<Longrightarrow> serve s opcode pdu = Some (s', Some (o', b)) \<Longrightarrow>
      get_op_type o' = ATT_OP_TYPE_RSP \<and> length b < unat (mtu s)"
    and accepts_request: "accepts s opcode pdu \<Longrightarrow> get_op_type opcode = ATT_OP_TYPE_REQ \<and> length pdu < unat (mtu s)"
    and mtu_min: "inv s \<Longrightarrow> 23 \<le> unat (mtu s)"
begin

lemma set_mtu_exec:
  assumes "ae_mem e" and "inv s'" and "at_mtu att = mtu s"
  shows "att_execs e (if mtu s' = mtu s then [] else [Set_mtu (mtu s')]) att = Some (att\<lparr>at_mtu := mtu s'\<rparr>, [])"
proof -
  have "\<not> mtu s' < BT_ATT_DEFAULT_LE_MTU" using mtu_min[OF assms(2)] by (simp add: BT_ATT_DEFAULT_LE_MTU_def word_less_nat_alt)
  moreover have "mtu s' = mtu s \<Longrightarrow> att\<lparr>at_mtu := mtu s'\<rparr> = att" using assms(3) by simp
  ultimately show ?thesis using assms(1) by (simp add: bt_att_set_mtu_def)
qed

text \<open>A request on an idle channel: the answer is the next thing the channel transmits, and the channel is idle again.\<close>

lemma request_served:
  assumes s: "inv s" "accepts s opcode pdu" and a: "idle_at (mtu s) att" and l: "listens opcode (at_notify_list att)" and e: "ae_mem e" "ae_watch e" "ae_sent e"
  obtains (waits) s' att1 ev1 where "serve s opcode pdu = Some (s', None)" "inv s'"
      "can_read_data (upper_app mtu serve s) e (Some (opcode # pdu)) att = Some (True, att1, ev1)" "transmitted ev1 = []" "at_in_req att1" "at_write_queue att1 = []"
  | (answers) s' o' b att1 ev1 att2 ev2 where "serve s opcode pdu = Some (s', Some (o', b))" "inv s'" "length b < unat (mtu s)"
      "can_read_data (upper_app mtu serve s) e (Some (opcode # pdu)) att = Some (True, att1, ev1)" "transmitted ev1 = []"
      "io_writable (upper_app mtu serve s) e att1 = Some (att2, ev2)" "transmitted ev2 = [o' # b]" "idle_at (mtu s') att2" "at_notify_list att2 = at_notify_list att"
proof -
  let ?app = "upper_app mtu serve s"
  let ?a = "att\<lparr>at_in_req := True\<rparr>"
  obtain s' r where r: "serve s opcode pdu = Some (s', r)" "inv s'" using serve_total[OF s] by blast
  have q: "get_op_type opcode = ATT_OP_TYPE_REQ" "length pdu < unat (at_mtu att)" "\<not> at_in_req att" "at_io att" "at_write_queue att = []" "at_mtu att = mtu s"
    using accepts_request[OF s(2)] a by (auto simp: idle_at_def)
  have app: "?app (Received f opcode pdu ud) = upper_calls mtu s s' r" for f ud using r(1) by (simp add: upper_app_def)
  show ?thesis
  proof (cases r)
    case None
    have x: "att_execs e (upper_calls mtu s s' r) ?a = Some (?a\<lparr>at_mtu := mtu s'\<rparr>, [])"
      using set_mtu_exec[OF e(1) r(2), of ?a s] None q(6) by (simp add: upper_calls_def)
    obtain ev where "can_read_data ?app e (Some (opcode # pdu)) att = Some (True, ?a\<lparr>at_mtu := mtu s'\<rparr>, ev)" "transmitted ev = []"
      by (rule read_request[OF q(1-3) l, of ?app e "?a\<lparr>at_mtu := mtu s'\<rparr>"]) (auto simp: upcall_def app x)
    then show ?thesis using waits r None q(5) by simp
  next
    case (Some ob)
    obtain o' b where ob: "ob = (o', b)" by fastforce
    have f: "get_op_type o' = ATT_OP_TYPE_RSP" "length b < unat (mtu s)" using serve_fits[OF s, of s' o' b] r(1) Some ob by auto
    obtain op n where op: "bt_att_send e ?a o' (Some b) (of_nat (length b)) 0 0 0 =
        Some (n, wakeup_writer e (?a\<lparr>at_next_send_id := n + 1, at_write_queue := at_write_queue ?a @ [op]\<rparr>), [Queued o' 0 0 0])"
      "so_pdu op = o' # b" "so_type op = ATT_OP_TYPE_RSP" "so_destroy op = 0" "so_timeout_id op = 0" "so_user_data op = 0"
      by (rule send_plain[of ?a o' b e 0 0]) (use q f e table_types[OF disjI2[OF f(1)]] in simp_all)
    define w where "w = wakeup_writer e (?a\<lparr>at_next_send_id := n + 1, at_write_queue := [op]\<rparr>)"
    have ws: "at_mtu w = mtu s" "at_write_queue w = [op]" "at_writer_active w" "at_io w" "at_notify_list w = at_notify_list att"
      using q e(2) by (simp_all add: w_def wakeup_writer_def)
    have x: "att_execs e (upper_calls mtu s s' r) ?a = Some (w\<lparr>at_mtu := mtu s'\<rparr>, [Queued o' 0 0 0])"
      using set_mtu_exec[OF e(1) r(2) ws(1)] op(1) Some ob q(5) by (simp add: upper_calls_def w_def)
    obtain ev where ev: "can_read_data ?app e (Some (opcode # pdu)) att = Some (True, w\<lparr>at_mtu := mtu s'\<rparr>, ev)" "transmitted ev = []"
      by (rule read_request[OF q(1-3) l, of ?app e "w\<lparr>at_mtu := mtu s'\<rparr>"]) (auto simp: upcall_def app x ws)
    have "io_writable ?app e (w\<lparr>at_mtu := mtu s'\<rparr>) =
        Some (w\<lparr>at_mtu := mtu s', at_write_queue := [], at_in_req := False\<rparr>, [Transmit (o' # b)])"
      using ws op e(3) by (simp add: io_writable_def can_write_data_def pick_next_send_op_def destroy_att_send_op_def)
    then show ?thesis using answers r Some ob f ev ws by (simp add: idle_at_def)
  qed
qed

text \<open>A conversation: each request is sent when the answer to the one before has come.\<close>

lemma conversation:
  assumes "inv s" "all_accepted accepts serve s rs" "idle_at (mtu s) att" "\<forall>q \<in> set rs. listens (fst q) (at_notify_list att)"
    "serve_all serve s rs = Some (s', xs)" and e: "ae_mem e" "ae_watch e" "ae_sent e"
  shows "\<exists>att' ev. dialogue mtu serve e s rs att = Some (att', ev) \<and> transmitted ev = map (\<lambda>(o', b). o' # b) xs \<and> idle_at (mtu s') att'"
  using assms(1-5)
proof (induction rs arbitrary: s att xs)
  case Nil
  then show ?case by simp
next
  case (Cons q rs)
  obtain opcode pdu where q: "q = (opcode, pdu)" by fastforce
  obtain s1 x xs' where x: "serve s opcode pdu = Some (s1, Some x)" "serve_all serve s1 rs = Some (s', xs')" "xs = x # xs'"
    using Cons.prems(5) q by (auto simp: bind_eq_Some_conv)
  have acc: "accepts s opcode pdu" "all_accepted accepts serve s1 rs" using Cons.prems(2) q x(1) by auto
  have l: "listens opcode (at_notify_list att)" using Cons.prems(4) q by simp
  from Cons.prems(1) acc(1) Cons.prems(3) l e show ?case
  proof (cases rule: request_served)
    case (waits s'' att1 ev1)
    then show ?thesis using x(1) by simp
  next
    case (answers s'' o' b att1 ev1 att2 ev2)
    have y: "s'' = s1" "x = (o', b)" using answers(1) x(1) by simp_all
    obtain att' ev where "dialogue mtu serve e s1 rs att2 = Some (att', ev)" "transmitted ev = map (\<lambda>(o', b). o' # b) xs'" "idle_at (mtu s') att'"
      using Cons.IH[of s1 att2 xs'] answers acc(2) Cons.prems(4) x(2) y by auto
    then show ?thesis using answers y x(3) q by auto
  qed
qed

end

section \<open>The GATT server meets the contract\<close>

fun is_rsp :: "att_out \<Rightarrow> bool" where
  "is_rsp (Sent o' b) = (get_op_type o' = ATT_OP_TYPE_RSP)"
| "is_rsp (App ev) = True"

text \<open>What a handler sends are responses, and it leaves the MTU of the channel alone.\<close>

definition responses :: "u16 \<Rightarrow> action \<Rightarrow> bool" where
  "responses m act = (\<forall>s' out. act = Some (s', out) \<longrightarrow> gs_att_mtu s' = m \<and> (\<forall>x \<in> set out. is_rsp x))"

named_theorems resp

lemma rsp_types:
  "get_op_type BT_ATT_OP_ERROR_RSP = ATT_OP_TYPE_RSP" "get_op_type BT_ATT_OP_MTU_RSP = ATT_OP_TYPE_RSP" "get_op_type BT_ATT_OP_FIND_INFO_RSP = ATT_OP_TYPE_RSP"
  "get_op_type BT_ATT_OP_FIND_BY_TYPE_RSP = ATT_OP_TYPE_RSP" "get_op_type BT_ATT_OP_READ_BY_TYPE_RSP = ATT_OP_TYPE_RSP" "get_op_type BT_ATT_OP_READ_RSP = ATT_OP_TYPE_RSP"
  "get_op_type BT_ATT_OP_READ_BLOB_RSP = ATT_OP_TYPE_RSP" "get_op_type BT_ATT_OP_READ_MULT_RSP = ATT_OP_TYPE_RSP"
  "get_op_type BT_ATT_OP_READ_BY_GRP_TYPE_RSP = ATT_OP_TYPE_RSP" "get_op_type BT_ATT_OP_WRITE_RSP = ATT_OP_TYPE_RSP" "get_op_type BT_ATT_OP_PREP_WRITE_RSP = ATT_OP_TYPE_RSP"
  "get_op_type BT_ATT_OP_EXEC_WRITE_RSP = ATT_OP_TYPE_RSP"
  by (simp_all add: get_op_type_def att_opcode_type_table_def att_op_defs)

lemma mtu_fields [simp]:
  "gs_att_mtu (put_op p x s) = gs_att_mtu s" "gs_att_mtu (async_read_op_destroy p s) = gs_att_mtu s" "gs_att_mtu (async_write_op_destroy p s) = gs_att_mtu s"
  "gs_att_mtu (snd (new_op y s)) = gs_att_mtu s"
  by (simp_all add: put_op_def async_read_op_destroy_def async_write_op_destroy_def new_op_def)

lemma resp_bind [resp]: "(\<And>y. x = Some y \<Longrightarrow> responses m (f y)) \<Longrightarrow> responses m (x \<bind> f)"
  by (cases x) (simp_all add: responses_def)

lemma resp_if [resp]: "(b \<Longrightarrow> responses m x) \<Longrightarrow> (\<not> b \<Longrightarrow> responses m y) \<Longrightarrow> responses m (if b then x else y)"
  by simp

lemma resp_option [resp]: "(x = None \<Longrightarrow> responses m a) \<Longrightarrow> (\<And>y. x = Some y \<Longrightarrow> responses m (f y)) \<Longrightarrow> responses m (case x of None \<Rightarrow> a | Some y \<Rightarrow> f y)"
  by (cases x) simp_all

lemma resp_sum [resp]: "(\<And>y. x = Inl y \<Longrightarrow> responses m (f y)) \<Longrightarrow> (\<And>y. x = Inr y \<Longrightarrow> responses m (g y)) \<Longrightarrow> responses m (case x of Inl y \<Rightarrow> f y | Inr y \<Rightarrow> g y)"
  by (cases x) simp_all

lemma resp_prod [resp]: "(\<And>a b. x = (a, b) \<Longrightarrow> responses m (f a b)) \<Longrightarrow> responses m (case x of (a, b) \<Rightarrow> f a b)"
  by (cases x) simp

lemma resp_none [resp]: "responses m None"
  by (simp add: responses_def)

lemma error_rsp: "x \<in> set (bt_att_send_error_rsp opcode h c) \<Longrightarrow> is_rsp x"
  by (auto simp: bt_att_send_error_rsp_def rsp_types split: if_splits)

lemma resp_some: "gs_att_mtu s = m \<Longrightarrow> (\<And>x. x \<in> set out \<Longrightarrow> is_rsp x) \<Longrightarrow> responses m (Some (s, out))"
  by (simp add: responses_def)

lemma resp_leaf: "responses m (Some (s, out)) = (gs_att_mtu s = m \<and> (\<forall>x \<in> set out. is_rsp x))"
  by (auto simp: responses_def)

lemma resp_error [resp]: "gs_att_mtu s = m \<Longrightarrow> responses m (Some (s, bt_att_send_error_rsp opcode h c))"
  by (rule resp_some[OF _ error_rsp])

lemma resp_sent [resp]: "gs_att_mtu s = m \<Longrightarrow> get_op_type o' = ATT_OP_TYPE_RSP \<Longrightarrow> responses m (Some (s, [Sent o' b]))"
  by (simp add: responses_def)

lemma resp_app [resp]: "gs_att_mtu s = m \<Longrightarrow> responses m (Some (s, map App ev))"
  by (auto simp: responses_def)

lemma resp_read_done [resp]:
  "(\<And>f r err v ud. ev = [Read_done f r err v ud] \<Longrightarrow> responses m (g f r err v ud)) \<Longrightarrow> gs_att_mtu s = m \<Longrightarrow>
    responses m (case ev of [Read_done f r err v ud] \<Rightarrow> g f r err v ud | _ \<Rightarrow> Some (s, map App ev))"
  by (auto simp: resp_leaf split: list.split db_event.split)

lemma resp_write_done [resp]:
  "(\<And>f r err ud. ev = [Write_done f r err ud] \<Longrightarrow> responses m (g f r err ud)) \<Longrightarrow> gs_att_mtu s = m \<Longrightarrow>
    responses m (case ev of [Write_done f r err ud] \<Rightarrow> g f r err ud | _ \<Rightarrow> Some (s, map App ev))"
  by (auto simp: resp_leaf split: list.split db_event.split)

lemma resp_grp: "responses (gs_att_mtu s) (read_by_grp_type_cb e opcode pdu s)"
  unfolding read_by_grp_type_cb_def Let_def by (intro resp) (simp_all add: rsp_types)

lemma resp_info: "responses (gs_att_mtu s) (find_info_cb e opcode pdu s)"
  unfolding find_info_cb_def Let_def by (intro resp) (simp_all add: rsp_types)

lemma resp_by_value: "responses (gs_att_mtu s) (find_by_type_val_cb e opcode pdu s)"
  unfolding find_by_type_val_cb_def Let_def by (intro resp) (simp_all add: rsp_types)

lemma complete_error: "read_by_type_read_complete_cb s op r err v = Some (Inl out) \<Longrightarrow> x \<in> set out \<Longrightarrow> is_rsp x"
  using error_rsp by (auto simp: read_by_type_read_complete_cb_def Let_def bind_eq_Some_conv split: if_splits)

lemma resp_process: "gs_att_mtu s = m \<Longrightarrow> responses m (process_read_by_type e p op q s)"
proof (induction q arbitrary: op s)
  case Nil
  then show ?case by (simp add: read_by_type_rsp_def) (intro resp, simp_all add: rsp_types)
next
  case (Cons r q)
  note IH = Cons.IH
  show ?case unfolding process_read_by_type.simps read_by_type_rsp_def read_by_type_error_def Let_def
    by (intro resp resp_some IH; (simp add: Cons.prems rsp_types)?) (auto intro: complete_error)
qed

lemma resp_by_type: "responses (gs_att_mtu s) (read_by_type_cb e opcode pdu s)"
  unfolding read_by_type_cb_def Let_def by (intro resp resp_process) (auto simp: new_op_def)

lemma resp_read_complete: "ro_opcode op = BT_ATT_OP_READ_REQ \<or> ro_opcode op = BT_ATT_OP_READ_BLOB_REQ \<Longrightarrow> gs_att_mtu s = m \<Longrightarrow> responses m (read_complete_cb p op r err v s)"
  unfolding read_complete_cb_def by (intro resp) (auto simp: get_read_rsp_opcode_def rsp_types)

lemma resp_read_req: "opcode = BT_ATT_OP_READ_REQ \<or> opcode = BT_ATT_OP_READ_BLOB_REQ \<Longrightarrow> responses (gs_att_mtu s) (handle_read_req e opcode h off s)"
  unfolding handle_read_req_def Let_def by (intro resp resp_read_complete) (auto simp: new_op_def)

lemma resp_read: "opcode = BT_ATT_OP_READ_REQ \<Longrightarrow> responses (gs_att_mtu s) (read_cb e opcode pdu s)"
  unfolding read_cb_def by (intro resp resp_read_req) simp_all

lemma resp_blob: "opcode = BT_ATT_OP_READ_BLOB_REQ \<Longrightarrow> responses (gs_att_mtu s) (read_blob_cb e opcode pdu s)"
  unfolding read_blob_cb_def by (intro resp resp_read_req) simp_all

lemma mult_error: "mult_append s d r err v = Some (Inl out) \<Longrightarrow> x \<in> set out \<Longrightarrow> is_rsp x"
  using error_rsp by (auto simp: mult_append_def Let_def bind_eq_Some_conv rsp_types split: if_splits)

lemma resp_mult_complete: "gs_att_mtu s = m \<Longrightarrow> responses m (read_multiple_complete_cb e p d hs r err v s)"
proof (induction hs arbitrary: d r err v s)
  case Nil
  then show ?case by (simp, intro resp resp_some) (auto intro: mult_error)
next
  case (Cons h hs)
  note IH = Cons.IH
  show ?case unfolding read_multiple_complete_cb.simps Let_def
    by (intro resp resp_some IH; (simp add: Cons.prems rsp_types)?) (auto intro: mult_error)
qed

lemma resp_multiple: "responses (gs_att_mtu s) (read_multiple_cb e opcode pdu s)"
  unfolding read_multiple_cb_def Let_def by (intro resp resp_mult_complete) (auto simp: new_op_def)

lemma resp_write: "opcode \<noteq> BT_ATT_OP_WRITE_CMD \<Longrightarrow> responses (gs_att_mtu s) (write_cb e opcode pdu s)"
  unfolding write_cb_def write_error_def write_complete_cb_def Let_def
  by (intro resp resp_some; auto simp: new_op_def rsp_types dest: error_rsp split: if_splits)

lemma store_out:
  assumes "store_prep_data e h off len v s = Some (ok, s', out)"
  shows "gs_att_mtu s' = gs_att_mtu s" "x \<in> set out \<Longrightarrow> is_rsp x"
  using assms by (auto simp: store_prep_data_def prep_data_new_def is_reliable_write_supported_def Let_def bind_eq_Some_conv split: if_splits option.splits)

lemma resp_prep_complete: "gs_att_mtu s = m \<Longrightarrow> responses m (prep_write_complete_cb e p pdu err s)"
  unfolding prep_write_complete_cb_def
  by (intro resp resp_some; auto simp: rsp_types dest: error_rsp store_out split: if_splits)

lemma resp_prep: "responses (gs_att_mtu s) (prep_write_cb e opcode pdu s)"
  unfolding prep_write_cb_def Let_def by (intro resp resp_prep_complete) (auto simp: new_op_def)

lemma resp_exec_next: "gs_att_mtu s = m \<Longrightarrow> responses m (exec_next_prep_write e q h err s)"
proof (induction q arbitrary: h err s)
  case Nil
  then show ?case by (auto simp: exec_error_def rsp_types resp_leaf dest: error_rsp)
next
  case (Cons d q)
  note IH = Cons.IH
  show ?case unfolding exec_next_prep_write.simps exec_error_def Let_def
    by (intro resp IH; simp add: Cons.prems)
qed

lemma resp_exec: "responses (gs_att_mtu s) (exec_write_cb e opcode pdu s)"
  unfolding exec_write_cb_def Let_def by (intro resp resp_exec_next) (simp_all add: rsp_types)

lemma request_responses:
  assumes "att_handler opcode = Some cb" "opcode \<noteq> BT_ATT_OP_WRITE_CMD" "opcode \<noteq> BT_ATT_OP_MTU_REQ"
  shows "responses (gs_att_mtu s) (cb e opcode pdu s)"
  using assms resp_grp resp_by_type resp_info resp_by_value resp_write resp_read resp_blob resp_multiple resp_prep resp_exec
  by (auto simp: att_handler_def split: if_splits)

lemma mtu_response:
  assumes "exchange_mtu_cb e opcode pdu s = Some (s', [Sent o' b])"
  shows "get_op_type o' = ATT_OP_TYPE_RSP \<and> length b < 23"
  using assms by (auto simp: exchange_mtu_cb_def Let_def bind_eq_Some_conv bt_att_send_error_rsp_def rsp_types le16_def split: if_splits)

lemma handler_request:
  assumes "att_handler opcode \<noteq> None" "opcode \<noteq> BT_ATT_OP_WRITE_CMD"
  shows "get_op_type opcode = ATT_OP_TYPE_REQ"
  using assms unfolding att_handler_def
  by (auto simp: get_op_type_def att_opcode_type_table_def att_op_defs split: if_splits)

text \<open>A request to the server: its new state, and the PDU it answers with, unless it waits for the application.\<close>

definition server_serve :: "env \<Rightarrow> bt_gatt_server \<Rightarrow> u8 \<Rightarrow> u8 list \<Rightarrow> (bt_gatt_server \<times> (u8 \<times> u8 list) option) option" where
  "server_serve e s opcode pdu =
     do { cb \<leftarrow> att_handler opcode;
          (s', out) \<leftarrow> cb e opcode pdu s;
          Some (s', case out of [Sent o' b] \<Rightarrow> Some (o', b) | _ \<Rightarrow> None) }"

definition server_accepts :: "env \<Rightarrow> bt_gatt_server \<Rightarrow> u8 \<Rightarrow> u8 list \<Rightarrow> bool" where
  "server_accepts e s opcode pdu =
     (e_mem e \<and> att_handler opcode \<noteq> None \<and> opcode \<noteq> BT_ATT_OP_WRITE_CMD \<and> length pdu < unat (gs_att_mtu s) \<and>
      (opcode = BT_ATT_OP_PREP_WRITE_REQ \<longrightarrow> prep_fits s pdu))"

lemma serve_handled:
  assumes "srv_ok s" "server_accepts e s opcode pdu"
  obtains cb s' x where "att_handler opcode = Some cb" "cb e opcode pdu s = Some (s', [x])" "srv_ok s'" "fits s' x"
    "server_serve e s opcode pdu = Some (s', case x of Sent o' b \<Rightarrow> Some (o', b) | App _ \<Rightarrow> None)"
proof -
  obtain cb where cb: "att_handler opcode = Some cb" using assms(2) by (auto simp: server_accepts_def)
  have "handled (cb e opcode pdu s)" using request_handled[OF assms(1) _ cb] assms(2) by (simp add: server_accepts_def)
  then obtain s' x where x: "cb e opcode pdu s = Some (s', [x])" "srv_ok s'" "fits s' x" by (auto simp: handled_def)
  then have "server_serve e s opcode pdu = Some (s', case x of Sent o' b \<Rightarrow> Some (o', b) | App _ \<Rightarrow> None)"
    using cb by (cases x) (simp_all add: server_serve_def)
  then show ?thesis using that cb x by blast
qed

interpretation gatt: request_server srv_ok gs_att_mtu "server_accepts e" "server_serve e" for e
proof
  fix s opcode pdu assume a: "srv_ok s" "server_accepts e s opcode pdu"
  then show "\<exists>s' r. server_serve e s opcode pdu = Some (s', r) \<and> srv_ok s'" using serve_handled by metis
next
  fix s opcode pdu s' o' b
  assume a: "srv_ok s" "server_accepts e s opcode pdu" and r: "server_serve e s opcode pdu = Some (s', Some (o', b))"
  have m: "23 \<le> unat (gs_att_mtu s)" using a(1) by (simp add: srv_ok_def)
  obtain cb where cb: "att_handler opcode = Some cb" "cb e opcode pdu s = Some (s', [Sent o' b])" "fits s' (Sent o' b)"
    by (rule serve_handled[OF a]) (use r in \<open>auto split: att_out.splits\<close>)
  show "get_op_type o' = ATT_OP_TYPE_RSP \<and> length b < unat (gs_att_mtu s)"
  proof (cases "opcode = BT_ATT_OP_MTU_REQ")
    case True
    then have "cb = exchange_mtu_cb" using cb(1) by (simp add: att_handler_def)
    then show ?thesis using mtu_response cb(2) m by force
  next
    case False
    have "opcode \<noteq> BT_ATT_OP_WRITE_CMD" using a(2) by (simp add: server_accepts_def)
    then show ?thesis using request_responses[OF cb(1) _ False, of s e pdu] cb(2,3) by (simp add: resp_leaf)
  qed
next
  fix s opcode pdu assume "server_accepts e s opcode pdu"
  then show "get_op_type opcode = ATT_OP_TYPE_REQ \<and> length pdu < unat (gs_att_mtu s)" using handler_request by (simp add: server_accepts_def)
next
  fix s assume "srv_ok s"
  then show "23 \<le> unat (gs_att_mtu s)" by (simp add: srv_ok_def)
qed

section \<open>Registration\<close>

text \<open>\<open>gatt_server_register_att_handlers\<close>: \<open>f\<close> gives the addresses of the handlers.\<close>

definition server_opcodes :: "u8 list" where
  "server_opcodes = [BT_ATT_OP_MTU_REQ, BT_ATT_OP_READ_BY_GRP_TYPE_REQ, BT_ATT_OP_READ_BY_TYPE_REQ, BT_ATT_OP_FIND_INFO_REQ, BT_ATT_OP_FIND_BY_TYPE_REQ,
     BT_ATT_OP_WRITE_REQ, BT_ATT_OP_WRITE_CMD, BT_ATT_OP_READ_REQ, BT_ATT_OP_READ_BLOB_REQ, BT_ATT_OP_READ_MULT_REQ, BT_ATT_OP_PREP_WRITE_REQ,
     BT_ATT_OP_EXEC_WRITE_REQ]"

definition gatt_server_register_att_handlers :: "(u8 \<Rightarrow> ptr) \<Rightarrow> ptr \<Rightarrow> att_call list" where
  "gatt_server_register_att_handlers f server = map (\<lambda>opcode. Register opcode (f opcode) server 0) server_opcodes"

text \<open>The handlers with identifiers from \<open>n\<close> on.\<close>

fun entries :: "u32 \<Rightarrow> (u8 \<Rightarrow> ptr) \<Rightarrow> ptr \<Rightarrow> u8 list \<Rightarrow> att_notify list" where
  "entries n f ud [] = []"
| "entries n f ud (opcode # os) = \<lparr>no_id = n, no_opcode = ucast opcode, no_callback = f opcode, no_destroy = 0, no_user_data = ud\<rparr> # entries (n + 1) f ud os"

lemma register_entries:
  assumes "at_io att" "\<forall>opcode. f opcode \<noteq> 0" "at_next_reg_id att = n" "1 \<le> unat n" "unat n + length os < 2 ^ 32"
  shows "att_execs e (map (\<lambda>opcode. Register opcode (f opcode) ud 0) os) att =
    Some (att\<lparr>at_next_reg_id := n + of_nat (length os), at_notify_list := at_notify_list att @ entries n f ud os\<rparr>, [])"
  using assms
proof (induction os arbitrary: att n)
  case (Cons opcode os)
  define a where "a = att\<lparr>at_next_reg_id := n + 1, at_notify_list := at_notify_list att @ [\<lparr>no_id = n, no_opcode = ucast opcode, no_callback = f opcode, no_destroy = 0, no_user_data = ud\<rparr>]\<rparr>"
  have n: "\<not> n < 1" using Cons.prems(4) by (simp add: word_less_nat_alt)
  have n1: "unat (n + 1) = unat n + 1" using Cons.prems(5) by (simp add: unat_word_ariths)
  have "att_exec e (Register opcode (f opcode) ud 0) att = Some (a, [])"
    using Cons.prems(1,2,3) n by (simp add: bt_att_register_def a_def Let_def)
  moreover have "att_execs e (map (\<lambda>opcode. Register opcode (f opcode) ud 0) os) a =
      Some (a\<lparr>at_next_reg_id := (n + 1) + of_nat (length os), at_notify_list := at_notify_list a @ entries (n + 1) f ud os\<rparr>, [])"
    by (rule Cons.IH) (use Cons.prems n1 in \<open>simp_all add: a_def\<close>)
  ultimately show ?case by (simp add: a_def add.assoc)
qed simp

lemma entries_ids: "unat n + length os < 2 ^ 32 \<Longrightarrow> distinct (map no_id (entries n f ud os)) \<and> (\<forall>x \<in> set (entries n f ud os). unat n \<le> unat (no_id x))"
proof (induction os arbitrary: n)
  case (Cons opcode os)
  have n1: "unat (n + 1) = unat n + 1" using Cons.prems by (simp add: unat_word_ariths)
  then have IH: "distinct (map no_id (entries (n + 1) f ud os))" "\<forall>x \<in> set (entries (n + 1) f ud os). unat n + 1 \<le> unat (no_id x)"
    using Cons.IH[of "n + 1"] Cons.prems by auto
  then show ?case by (auto simp: image_iff)
qed simp

lemma entries_append: "entries n f ud (xs @ ys) = entries n f ud xs @ entries (n + of_nat (length xs)) f ud ys"
  by (induction xs arbitrary: n) (simp_all add: add.assoc)

lemma entries_opcodes: "x \<in> set (entries n f ud os) \<Longrightarrow> \<exists>opcode \<in> set os. no_opcode x = ucast opcode"
  by (induction os arbitrary: n) auto

lemma deaf_other: "no_opcode x = ucast opcode' \<Longrightarrow> opcode' \<noteq> BT_ATT_ALL_REQUESTS \<Longrightarrow> deaf opcode x = (opcode' \<noteq> opcode)"
proof -
  have "ucast (ucast opcode' :: u16) = opcode'" by transfer (simp add: take_bit_take_bit)
  then show "no_opcode x = ucast opcode' \<Longrightarrow> opcode' \<noteq> BT_ATT_ALL_REQUESTS \<Longrightarrow> deaf opcode x = (opcode' \<noteq> opcode)" by (simp add: deaf_def opcode_match_def)
qed

lemma handlers_listen:
  assumes "opcode \<in> set server_opcodes" "\<forall>opcode. f opcode \<noteq> 0" "unat n + 12 < 2 ^ 32"
  shows "listens opcode (entries n f ud server_opcodes)"
proof -
  have d: "distinct server_opcodes" "BT_ATT_ALL_REQUESTS \<notin> set server_opcodes" "length server_opcodes = 12"
    by (simp_all add: server_opcodes_def att_op_defs BT_ATT_ALL_REQUESTS_def)
  obtain xs ys where os: "server_opcodes = xs @ opcode # ys" using assms(1) by (meson split_list)
  have n: "opcode \<notin> set xs \<union> set ys" "BT_ATT_ALL_REQUESTS \<notin> set xs \<union> set ys \<union> {opcode}" using d(1,2) unfolding os by auto
  let ?k = "n + of_nat (length xs)"
  let ?x = "\<lparr>no_id = ?k, no_opcode = ucast opcode, no_callback = f opcode, no_destroy = 0, no_user_data = ud\<rparr>"
  have e: "entries n f ud server_opcodes = entries n f ud xs @ ?x # entries (?k + 1) f ud ys" by (simp add: os entries_append)
  have "\<forall>y \<in> set (entries n f ud xs) \<union> set (entries (?k + 1) f ud ys). deaf opcode y"
  proof
    fix y assume "y \<in> set (entries n f ud xs) \<union> set (entries (?k + 1) f ud ys)"
    then obtain o' where "o' \<in> set xs \<union> set ys" "no_opcode y = ucast o'" using entries_opcodes by blast
    then show "deaf opcode y" using n deaf_other[of y o' opcode] by auto
  qed
  moreover have "\<not> deaf opcode ?x" using n(2) by (subst deaf_other[of _ opcode]) auto
  moreover have "distinct (map no_id (entries n f ud server_opcodes))" using entries_ids[of n server_opcodes] assms(3) d(3) by simp
  ultimately show ?thesis unfolding listens_def e using assms(2) by (metis att_notify.select_convs(3))
qed

text \<open>The channel of a server: a new channel on which the server has registered its handlers.\<close>

definition server_channel :: bt_att where
  "server_channel = sample_att\<lparr>at_next_reg_id := 13, at_notify_list := entries 1 (\<lambda>_. 1) 5 server_opcodes\<rparr>"

lemma server_channel_registered:
  "att_execs sample_env (gatt_server_register_att_handlers (\<lambda>_. 1) 5) (sample_att\<lparr>at_next_reg_id := 1\<rparr>) = Some (server_channel, [])"
  using register_entries[of "sample_att\<lparr>at_next_reg_id := 1\<rparr>" "\<lambda>_. 1" 1 server_opcodes sample_env 5]
  by (simp add: gatt_server_register_att_handlers_def server_channel_def sample_att_eq) (simp add: server_opcodes_def)

lemma server_channel_ready:
  "opcode \<in> set server_opcodes \<Longrightarrow> listens opcode (at_notify_list server_channel)" "idle_at 23 server_channel"
  using handlers_listen[of opcode "\<lambda>_. 1" 1 5] by (simp_all add: server_channel_def idle_at_def sample_att_eq)

section \<open>Properties\<close>

text \<open>A write request and a read request, as a conversation.\<close>

lemma write_read_served:
  assumes s: "srv_ok s" and m: "e_mem e" and w: "writable s h r a" "readable s h r a" and q: "gs_pending_read_op s = 0" "gs_pending_write_op s = 0"
    and v: "v \<noteq> []" "length v + 3 \<le> unat (gs_att_mtu s)"
  obtains s'' where "all_accepted (server_accepts e) (server_serve e) s [(BT_ATT_OP_WRITE_REQ, le16 h @ v), (BT_ATT_OP_READ_REQ, le16 h)]"
    "serve_all (server_serve e) s [(BT_ATT_OP_WRITE_REQ, le16 h @ v), (BT_ATT_OP_READ_REQ, le16 h)] =
      Some (s'', [(BT_ATT_OP_WRITE_RSP, []), (BT_ATT_OP_READ_RSP, take (unat (gs_att_mtu s) - 1) (overwritten (stored a) 0 v))])"
proof -
  have "length v < 2 ^ 16" using v(2) mtu_bound[of "gs_att_mtu s"] by simp
  then obtain s' s'' where x: "write_cb e BT_ATT_OP_WRITE_REQ (le16 h @ v) s = Some (s', [Sent BT_ATT_OP_WRITE_RSP []])" "gs_att_mtu s' = gs_att_mtu s"
    "read_cb e BT_ATT_OP_READ_REQ (le16 h) s' = Some (s'', [Sent BT_ATT_OP_READ_RSP (take (unat (gs_att_mtu s) - 1) (overwritten (stored a) 0 v))])"
    using write_then_read[OF s m w q v(1), of e] by metis
  have hd: "att_handler BT_ATT_OP_WRITE_REQ = Some write_cb" "att_handler BT_ATT_OP_READ_REQ = Some read_cb"
    "BT_ATT_OP_WRITE_REQ \<noteq> BT_ATT_OP_WRITE_CMD" "BT_ATT_OP_READ_REQ \<noteq> BT_ATT_OP_WRITE_CMD" "BT_ATT_OP_WRITE_REQ \<noteq> BT_ATT_OP_PREP_WRITE_REQ"
    "BT_ATT_OP_READ_REQ \<noteq> BT_ATT_OP_PREP_WRITE_REQ" by (simp_all add: att_handler_def att_op_defs)
  have y: "server_serve e s BT_ATT_OP_WRITE_REQ (le16 h @ v) = Some (s', Some (BT_ATT_OP_WRITE_RSP, []))"
    "server_serve e s' BT_ATT_OP_READ_REQ (le16 h) = Some (s'', Some (BT_ATT_OP_READ_RSP, take (unat (gs_att_mtu s) - 1) (overwritten (stored a) 0 v)))"
    using x(1,3) by (simp_all add: server_serve_def hd)
  have "server_accepts e s BT_ATT_OP_WRITE_REQ (le16 h @ v)" "server_accepts e s' BT_ATT_OP_READ_REQ (le16 h)"
    using m v(2) x(2) by (simp_all add: server_accepts_def hd)
  then show ?thesis using that[of s''] y by simp
qed

text \<open>
  C1. From socket to socket: on a channel on which no request is under way, a request that arrives is handed to the handler of the server. Either
  the server waits for the application; then the request stays marked as under way. Or the next thing the channel sends is the answer of the server,
  one PDU that fits the MTU, and the channel is ready for the next request, with the MTU the server works with.
\<close>

theorem att_server_request:
  assumes "srv_ok s" and "server_accepts e s opcode pdu" and "idle_at (gs_att_mtu s) att" and "listens opcode (at_notify_list att)"
    and "ae_mem ae" and "ae_watch ae" and "ae_sent ae"
  shows "\<exists>s' r att1 ev1. server_serve e s opcode pdu = Some (s', r) \<and> srv_ok s' \<and>
    can_read_data (upper_app gs_att_mtu (server_serve e) s) ae (Some (opcode # pdu)) att = Some (True, att1, ev1) \<and> transmitted ev1 = [] \<and>
    (case r of
       None \<Rightarrow> at_in_req att1 \<and> at_write_queue att1 = []
     | Some (o', b) \<Rightarrow> \<exists>att2 ev2. io_writable (upper_app gs_att_mtu (server_serve e) s) ae att1 = Some (att2, ev2) \<and> transmitted ev2 = [o' # b] \<and>
         length (o' # b) \<le> unat (gs_att_mtu s) \<and> idle_at (gs_att_mtu s') att2)"
proof -
  from assms show ?thesis
  proof (cases rule: gatt.request_served)
    case (waits s' att1 ev1)
    then show ?thesis by auto
  next
    case (answers s' o' b att1 ev1 att2 ev2)
    then show ?thesis by (auto simp: Suc_le_eq)
  qed
qed

theorem att_server_request_witness:
  "\<exists>s' r att1 ev1. server_serve \<lparr>e_mem = True, e_junk = (\<lambda>_. 0), e_tid = 1\<rparr> (rw_server 3 0) BT_ATT_OP_READ_REQ [12, 0] = Some (s', r) \<and> srv_ok s' \<and>
    can_read_data (upper_app gs_att_mtu (server_serve \<lparr>e_mem = True, e_junk = (\<lambda>_. 0), e_tid = 1\<rparr>) (rw_server 3 0)) sample_env (Some (BT_ATT_OP_READ_REQ # [12, 0])) server_channel =
      Some (True, att1, ev1) \<and> transmitted ev1 = [] \<and>
    (case r of
       None \<Rightarrow> at_in_req att1 \<and> at_write_queue att1 = []
     | Some (o', b) \<Rightarrow> \<exists>att2 ev2. io_writable (upper_app gs_att_mtu (server_serve \<lparr>e_mem = True, e_junk = (\<lambda>_. 0), e_tid = 1\<rparr>) (rw_server 3 0)) sample_env att1 = Some (att2, ev2) \<and>
         transmitted ev2 = [o' # b] \<and> length (o' # b) \<le> unat (gs_att_mtu (rw_server 3 0)) \<and> idle_at (gs_att_mtu s') att2)"
proof -
  have "server_accepts \<lparr>e_mem = True, e_junk = (\<lambda>_. 0), e_tid = 1\<rparr> (rw_server 3 0) BT_ATT_OP_READ_REQ [12, 0]"
    by (simp add: server_accepts_def att_handler_def att_op_defs rw_idle)
  then show ?thesis
    by (rule att_server_request[OF rw_ok]) (use server_channel_ready in \<open>simp_all add: rw_idle server_opcodes_def sample_env_def\<close>)
qed

text \<open>
  C3. A whole conversation: when the client sends each request after the answer to the one before, and none of them has to wait for the application,
  then what the channel sends is exactly the sequence of the server's answers, in order, one PDU for each request.
\<close>

theorem att_server_conversation:
  assumes "srv_ok s" and "all_accepted (server_accepts e) (server_serve e) s rs" and "idle_at (gs_att_mtu s) att"
    and "\<forall>q \<in> set rs. listens (fst q) (at_notify_list att)" and "serve_all (server_serve e) s rs = Some (s', xs)" and "ae_mem ae" and "ae_watch ae" and "ae_sent ae"
  shows "\<exists>att' ev. dialogue gs_att_mtu (server_serve e) ae s rs att = Some (att', ev) \<and> transmitted ev = map (\<lambda>(o', b). o' # b) xs \<and> idle_at (gs_att_mtu s') att'"
  by (rule gatt.conversation[OF assms])

theorem att_server_conversation_witness:
  "\<exists>s' xs att' ev. serve_all (server_serve \<lparr>e_mem = True, e_junk = (\<lambda>_. 0), e_tid = 1\<rparr>) (rw_server 3 0) [(BT_ATT_OP_WRITE_REQ, le16 12 @ [7]), (BT_ATT_OP_READ_REQ, le16 12)] = Some (s', xs) \<and>
    dialogue gs_att_mtu (server_serve \<lparr>e_mem = True, e_junk = (\<lambda>_. 0), e_tid = 1\<rparr>) sample_env (rw_server 3 0)
      [(BT_ATT_OP_WRITE_REQ, le16 12 @ [7]), (BT_ATT_OP_READ_REQ, le16 12)] server_channel = Some (att', ev) \<and>
    transmitted ev = map (\<lambda>(o', b). o' # b) xs \<and> idle_at (gs_att_mtu s') att'"
proof -
  let ?e = "\<lparr>e_mem = True, e_junk = (\<lambda>_. 0), e_tid = 1\<rparr>"
  obtain s' where s': "all_accepted (server_accepts ?e) (server_serve ?e) (rw_server 3 0) [(BT_ATT_OP_WRITE_REQ, le16 12 @ [7]), (BT_ATT_OP_READ_REQ, le16 12)]"
    "serve_all (server_serve ?e) (rw_server 3 0) [(BT_ATT_OP_WRITE_REQ, le16 12 @ [7]), (BT_ATT_OP_READ_REQ, le16 12)] =
      Some (s', [(BT_ATT_OP_WRITE_RSP, []), (BT_ATT_OP_READ_RSP, take (unat (gs_att_mtu (rw_server 3 0)) - 1) (overwritten (stored (rw_value 3 0)) 0 [7]))])"
    by (rule write_read_served[OF rw_ok _ rw_rights rw_idle(1,2), of ?e "[7]"]) (simp_all add: rw_idle)
  show ?thesis using att_server_conversation[OF rw_ok s'(1) _ _ s'(2), of server_channel sample_env] server_channel_ready s'(2)
    by (simp add: rw_idle server_opcodes_def sample_env_def)
qed



end
