(* ===== verification/Spec2Isabelle.thy ===== *)
theory Spec2Isabelle
  imports Kfifo HashTable Ringbuf Base64 Base64Android DhcpClient AesExternal Sha1Correct Md5Correct AttServer
begin

text \<open>
  IdearNiu is a C tool box for embedded Linux programs: containers, coding and digest functions, a DHCP
  client and a Bluetooth GATT server, beside third-party libraries that are kept in the same tree. This
  development models its own computing parts; paths below are those of the repository, under \<open>src/\<close>.

  \<^bold>\<open>Conventions.\<close> Machine integers keep their width (\<open>u8\<close>, \<open>u16\<close>, \<open>u32\<close>, \<open>u64\<close> of theory \<open>Prelude\<close>; LP64, little-endian).
  A C array is the list of its elements; \<open>read_range\<close>, \<open>write_range\<close>, \<open>memcpy_at\<close> and
  \<open>memset_at\<close> give \<open>None\<close> for an access outside it, so \<open>None\<close> is undefined behaviour, unless a definition says otherwise,
  and a theorem that concludes \<open>Some\<close> also says that the code stays in bounds. Code outside the repository
  (\<open>malloc\<close>, \<open>readv\<close>, the network) is an argument of the definitions that use it.

  \<^bold>\<open>Theories.\<close>
  \<^item> \<open>Prelude\<close>: types, arrays, byte orders, the lemma collections.
  \<^item> \<open>Ring\<close>: the arithmetic of ring buffers with free-running counters; the locale \<open>byte_stream\<close> is the
    contract of a byte queue, \<open>bounded_fifo\<close> adds the capacity. \<open>Kfifo\<close> (\<open>src/fifo/fifo.c\<close>,
    \<open>include/fifo.h\<close>) and \<open>Ringbuf\<close> (\<open>src/bt/btgatt_server/src/shared/ringbuf.c\<close>) interpret them: whatever the sequence of calls
    the bytes come out in the order they were accepted, also when the counters wrap around.
  \<^item> \<open>HashTable\<close> (\<open>src/hash/hash.c\<close>): open addressing with linear probing. The locale \<open>key_functions\<close> is what the
    table needs of its hash and comparison functions, \<open>map_store\<close> is what it promises to its clients;
    the three key types of the code interpret the first, a sublocale gives the second. Lookup, insertion with growth and
    removal with rehashing refine a finite map. Probing takes the table size as fuel; the invariant leaves a
    free cell, so the fuel is never used up.
  \<^item> \<open>Utils\<close> (\<open>src/util/utils.c\<close>): allocation wrapper and hexadecimal conversions.
  \<^item> \<open>Base64\<close>, \<open>Base64Android\<close> (\<open>src/util/base64.c\<close>): the two implementations of the file, with round trips, memory safety and the
    equivalence of the fast path with the plain state machine.
  \<^item> \<open>DhcpPacket\<close> (\<open>src/dhcpc/dhcpmsg.c\<close>, \<open>packet.c\<close>): messages and their UDP/IP packets; \<open>DhcpClient\<close>
    (\<open>src/dhcpc/dhcpclient.c\<close>, parts of \<open>ifc_utils.c\<close>): parsing, validation and the state machine, as a step function on
    poll outcomes. It ends after at most eight time-outs and configures the interface on an acknowledged
    request or, at the last time-out, with an offer.
  \<^item> \<open>AesTables\<close>, \<open>Aes\<close>, \<open>AesCorrect\<close>, \<open>AesKey\<close>, \<open>AesCbc\<close>, \<open>AesExternal\<close>
    (\<open>src/crypto/aes_cbc.c\<close>): the tables entry by entry, the functions, the table-driven rounds and
    the three key schedules against the standard, CBC mode over any block cipher (locale \<open>block_cipher\<close>), and the two
    functions the program calls. A pointer is an array number and an offset, because input and output may be
    the same array.
  \<^item> \<open>HashStream\<close>, \<open>Sha1\<close>, \<open>Sha1Correct\<close>, \<open>Md5\<close>, \<open>Md5Correct\<close> (\<open>src/crypto/sha1.c\<close>, \<open>md5.c\<close>): block-wise digests. The locale
    \<open>hash_stream\<close> is the contract of an update function over a 64-byte buffer; both files interpret
    it and compute the digest of the standard for every way of cutting the message into pieces.

  \<^bold>\<open>The Bluetooth server\<close> (\<open>src/bt/btgatt_server\<close>), from the containers up to the socket:
  \<^item> \<open>Queue\<close>, \<open>QueueCorrect\<close> (\<open>src/shared/queue.c\<close>): linked lists in a heap of cells. The locale \<open>queue_store\<close> is what the callers rely on;
    the heap interprets it, so the theories above use lists. Iteration is safe when the callback destroys the queue.
  \<^item> \<open>Uuid\<close> (\<open>lib/uuid.c\<close>): UUIDs of three sizes, their conversion, comparison and little-endian form. \<open>AttTypes\<close>: the constants of the protocol
    (\<open>src/shared/att-types.h\<close>).
  \<^item> \<open>GattDb\<close> (services, characteristics, lookups) and \<open>GattDbAccess\<close> (reads, writes, pending requests, callbacks) model \<open>src/shared/gatt-db.c\<close>; events are the
    calls of the application. \<open>GattDbInv\<close> has the invariant, \<open>GattDbReach\<close> shows that every sequence of calls keeps it, that
    handle ranges are disjoint and that no call leaves its arrays; \<open>GattDbPending\<close>: every request is answered exactly once; \<open>GattDbValues\<close>: what is written is read;
    \<open>GattDbHandles\<close>: lookups by handle and type return exactly the attributes in the range.
  \<^item> \<open>GattServer\<close> (\<open>src/shared/gatt-server.c\<close>): one function for each request handler and each callback of the database; a handler returns its new state, the PDUs it sends
    and the questions to the application. \<open>GattServerInv\<close>, \<open>GattServerCorrect\<close> (reads) and \<open>GattServerWrite\<close> show that each handler does exactly one thing, within
    the MTU; \<open>GattServerProps\<close> has the properties: answers, permissions, round trips, prepared writes.
  \<^item> \<open>Att\<close> (\<open>src/shared/att.c\<close>, the signature of \<open>crypto.c\<close>, the write event of \<open>io-mainloop.c\<close>): the channel with its three queues, the pending request and indication,
    handlers, timeouts and the end of the connection. The calls that the application makes inside a callback are an argument of the model and run at that point. \<open>AttInv\<close>: each operation is
    destroyed once and answered at most once, over all runs (\<open>att_run\<close>) and all such applications; the end of the connection always runs through.
    \<open>AttProps\<close>: no PDU is left behind, and what the code does with signatures, second requests and overlong PDUs.
  \<^item> \<open>AttServer\<close>: the composition. The locale \<open>request_server\<close> is the contract between the channel and what serves its requests; the GATT server interprets it. A request on the socket
    is followed by the server's answer on the socket, and a conversation by its answers in order.

  \<^bold>\<open>Bounds and fuel.\<close> The loop over whole blocks in \<open>SHA1Update\<close> has \<open>len div 64 + 1\<close> passes of fuel and the padding
    loop of \<open>SHA1Final\<close> 64, which the theorems show to be enough. SHA-1 pieces are shorter than \<open>2 ^ 29\<close> bytes, because the
    code loses part of the length of a longer one; messages are shorter than \<open>2 ^ 61\<close> bytes, as in the standards. The loop over
    the handlers in \<open>handle_notify\<close> may run for ever when a callback keeps adding handlers, so it is a partial function; handlers and operations are named by
    their 32-bit identifiers, which are distinct until the counter wraps around. A prepared write is at most 65535 bytes long; a longer one overflows, as a theorem shows.

  \<^bold>\<open>Not modelled.\<close> UUID strings, \<open>bt_gatt_server_free\<close> and the reference counts of the server, debug output, getters of the
    channel that only ask the kernel, the rest of \<open>crypto.c\<close>, the GATT client (\<open>gatt-client.c\<close>, \<open>gatt-helpers.c\<close>) and the demonstration server. System calls and thin wrappers of them (sockets, epoll, threads, files, serial line,
    logging), and the third-party code of the tree (mbedtls, wget, tinyalsa, madplay, wpa_supplicant, busybox, cJSON, the
    Android C++ classes).
\<close>

end
